(* ===== verification/Prelude.thy ===== *)
theory Prelude
  imports Main "HOL-Library.AList" "HOL-Library.Char_ord" "HOL-Library.List_Lexorder"
    "HOL-Library.Multiset" "HOL-Library.Sublist"
begin

text \<open>
  Shared vocabulary of the development: the automation collections, Go's 64-bit
  arithmetic, Go maps as association lists, slice sorting, and the functions of the Go
  standard library (package \<open>strings\<close>, \<open>time\<close>) that the modelled packages call.

  Strings are byte strings (\<open>char list\<close>, one \<open>char\<close> per byte), as Go's are; the order
  on them is Go's bytewise order.
\<close>

named_theorems gomap_simps \<open>lookups after the updates of a Go map\<close>
named_theorems path_simps \<open>facts on slash-separated relative paths\<close>


section \<open>Go integers\<close>

text \<open>
  An \<open>int64\<close> (and a \<open>time.Duration\<close>, which is one) is an \<open>int\<close> in the range below;
  every arithmetic result is wrapped explicitly.
\<close>

abbreviation min_int64 :: int where "min_int64 \<equiv> - 9223372036854775808"
abbreviation max_int64 :: int where "max_int64 \<equiv> 9223372036854775807"

definition in_int64 :: "int \<Rightarrow> bool" where
  "in_int64 x \<longleftrightarrow> min_int64 \<le> x \<and> x \<le> max_int64"

definition wrap64 :: "int \<Rightarrow> int" where
  "wrap64 x = (x + 9223372036854775808) mod 18446744073709551616 - 9223372036854775808"

lemma wrap64_range: "in_int64 (wrap64 x)"
proof -
  have "0 \<le> (x + 9223372036854775808) mod 18446744073709551616"
    and "(x + 9223372036854775808) mod 18446744073709551616 < 18446744073709551616"
    by simp_all
  then show ?thesis by (simp add: in_int64_def wrap64_def)
qed

lemma wrap64_id [simp]: "in_int64 x \<Longrightarrow> wrap64 x = x"
  by (simp add: in_int64_def wrap64_def)

text \<open>The only \<open>int64\<close> whose negation wraps is the smallest one.\<close>

lemma wrap64_neg: "in_int64 x \<Longrightarrow> wrap64 (- x) = (if x = min_int64 then min_int64 else - x)"
  by (auto simp: in_int64_def wrap64_def)


section \<open>Go maps\<close>

text \<open>
  A Go map is an association list with distinct keys. The list order stands for the
  iteration order, which Go leaves unspecified: a statement about every such list holds
  for every iteration order.
\<close>

type_synonym 'v gomap = "(string \<times> 'v) list"

abbreviation gokeys :: "'v gomap \<Rightarrow> string list" where "gokeys m \<equiv> map fst m"
abbreviation goget :: "'v gomap \<Rightarrow> string \<Rightarrow> 'v option" where "goget m \<equiv> map_of m"
abbreviation goput :: "string \<Rightarrow> 'v \<Rightarrow> 'v gomap \<Rightarrow> 'v gomap" where "goput k v m \<equiv> AList.update k v m"
abbreviation godel :: "string \<Rightarrow> 'v gomap \<Rightarrow> 'v gomap" where "godel k m \<equiv> AList.delete k m"

definition gomap_ok :: "'v gomap \<Rightarrow> bool" where
  "gomap_ok m \<longleftrightarrow> distinct (gokeys m)"

text \<open>The contract of Go's built-in map, which the components below rely on.\<close>

locale go_map =
  fixes get :: "'m \<Rightarrow> 'k \<Rightarrow> 'v option"
    and put :: "'k \<Rightarrow> 'v \<Rightarrow> 'm \<Rightarrow> 'm"
    and del :: "'k \<Rightarrow> 'm \<Rightarrow> 'm"
    and ok :: "'m \<Rightarrow> bool"
  assumes get_put: "get (put k v m) k' = (if k' = k then Some v else get m k')"
    and get_del: "ok m \<Longrightarrow> get (del k m) k' = (if k' = k then None else get m k')"
    and ok_put: "ok m \<Longrightarrow> ok (put k v m)"
    and ok_del: "ok m \<Longrightarrow> ok (del k m)"
begin

lemma get_put_same: "get (put k v m) k = Some v"
  by (simp add: get_put)

lemma get_put_other: "k' \<noteq> k \<Longrightarrow> get (put k v m) k' = get m k'"
  by (simp add: get_put)

lemma get_del_same: "ok m \<Longrightarrow> get (del k m) k = None"
  by (simp add: get_del)

lemma get_del_other: "ok m \<Longrightarrow> k' \<noteq> k \<Longrightarrow> get (del k m) k' = get m k'"
  by (simp add: get_del)

lemma get_del_put: "ok m \<Longrightarrow> get (del k (put k v m)) k' = (if k' = k then None else get m k')"
  by (simp add: get_del get_put ok_put)

end

interpretation gm: go_map "goget :: 'v gomap \<Rightarrow> string \<Rightarrow> 'v option" goput godel gomap_ok
proof unfold_locales
  fix k k' :: string and v :: 'v and m :: "'v gomap"
  show "goget (goput k v m) k' = (if k' = k then Some v else goget m k')"
    by (simp add: update_conv')
  show "gomap_ok m \<Longrightarrow> goget (godel k m) k' = (if k' = k then None else goget m k')"
    by (simp add: delete_conv')
  show "gomap_ok m \<Longrightarrow> gomap_ok (goput k v m)"
    by (simp add: gomap_ok_def distinct_update)
  show "gomap_ok m \<Longrightarrow> gomap_ok (godel k m)"
    by (simp add: gomap_ok_def distinct_delete)
qed

declare gm.get_put [gomap_simps] gm.get_del [gomap_simps]

lemma gomap_ok_Nil [simp]: "gomap_ok []"
  by (simp add: gomap_ok_def)

lemma gomap_ok_put [simp]: "gomap_ok m \<Longrightarrow> gomap_ok (goput k v m)"
  by (rule gm.ok_put)

lemma gomap_ok_del [simp]: "gomap_ok m \<Longrightarrow> gomap_ok (godel k m)"
  by (rule gm.ok_del)

lemma goget_in_keys: "goget m k = Some v \<Longrightarrow> k \<in> set (gokeys m)"
  by (force dest: map_of_SomeD)

lemma goget_Some_iff: "gomap_ok m \<Longrightarrow> goget m k = Some v \<longleftrightarrow> (k, v) \<in> set m"
  by (simp add: gomap_ok_def)

lemma in_keys_goget: "k \<in> set (gokeys m) \<longleftrightarrow> (\<exists>v. goget m k = Some v)"
  by (metis dom_map_of_conv_image_fst domD domI list.set_map)

lemma in_values_goget: "gomap_ok m \<Longrightarrow> v \<in> set (map snd m) \<longleftrightarrow> (\<exists>k. goget m k = Some v)"
  by (force simp: goget_Some_iff)

lemma goget_None_iff: "goget m k = None \<longleftrightarrow> k \<notin> set (gokeys m)"
  by (simp add: map_of_eq_None_iff)


section \<open>Sorting slices\<close>

text \<open>
  \<open>sort.Slice\<close> and \<open>sort.Strings\<close>. Go's sort is not stable; the model inserts in
  order, which is one of the permutations Go may produce. Where the code sorts elements
  whose keys are pairwise distinct the sorted list is unique (\<open>sort_slice_unique\<close>),
  so the choice does not show.
\<close>

fun insert_slice :: "('a \<Rightarrow> 'a \<Rightarrow> bool) \<Rightarrow> 'a \<Rightarrow> 'a list \<Rightarrow> 'a list" where
  "insert_slice lt x [] = [x]"
| "insert_slice lt x (y # ys) = (if lt y x then y # insert_slice lt x ys else x # y # ys)"

fun sort_slice :: "('a \<Rightarrow> 'a \<Rightarrow> bool) \<Rightarrow> 'a list \<Rightarrow> 'a list" where
  "sort_slice lt [] = []"
| "sort_slice lt (x # xs) = insert_slice lt x (sort_slice lt xs)"

lemma mset_insert_slice [simp]: "mset (insert_slice lt x xs) = add_mset x (mset xs)"
  by (induction xs) auto

lemma mset_sort_slice [simp]: "mset (sort_slice lt xs) = mset xs"
  by (induction xs) auto

lemma set_sort_slice [simp]: "set (sort_slice lt xs) = set xs"
  by (metis mset_sort_slice set_mset_mset)

lemma length_sort_slice [simp]: "length (sort_slice lt xs) = length xs"
  by (metis mset_sort_slice size_mset)

lemma distinct_sort_slice [simp]: "distinct (sort_slice lt xs) = distinct xs"
  by (metis mset_eq_imp_distinct_iff mset_sort_slice)

lemma distinct_map_sort_slice [simp]: "distinct (map f (sort_slice lt xs)) = distinct (map f xs)"
  by (metis mset_eq_imp_distinct_iff mset_map mset_sort_slice)

lemma map_insert_slice:
  "map f (insert_slice (\<lambda>a b. lt (f a) (f b)) x xs) = insert_slice lt (f x) (map f xs)"
  by (induction xs) auto

lemma map_sort_slice: "map f (sort_slice (\<lambda>a b. lt (f a) (f b)) xs) = sort_slice lt (map f xs)"
  by (induction xs) (simp_all add: map_insert_slice)

lemma sorted_wrt_mset_unique:
  assumes "sorted_wrt R xs" and "sorted_wrt R ys" and "mset xs = mset ys"
    and "\<And>x y. x \<in> set xs \<Longrightarrow> y \<in> set xs \<Longrightarrow> R x y \<Longrightarrow> R y x \<Longrightarrow> x = y"
  shows "xs = ys"
  using assms
proof (induction xs arbitrary: ys)
  case Nil
  then show ?case by simp
next
  case (Cons x xs)
  then obtain y ys' where ys: "ys = y # ys'" by (cases ys) auto
  have sets: "set (x # xs) = set ys" using Cons.prems(3) by (metis set_mset_mset)
  have "x = y"
  proof (rule ccontr)
    assume "x \<noteq> y"
    then have "x \<in> set ys'" and "y \<in> set xs" using sets ys by auto
    then have "R y x" and "R x y" using Cons.prems(1,2) ys by auto
    with Cons.prems(4) \<open>y \<in> set xs\<close> \<open>x \<noteq> y\<close> show False by auto
  qed
  moreover have "xs = ys'"
    by (rule Cons.IH) (use Cons.prems ys \<open>x = y\<close> in auto)
  ultimately show ?case using ys by simp
qed

text \<open>A comparator is a strict weak order, as \<open>sort.Slice\<close> demands.\<close>

locale slice_order =
  fixes lt :: "'a \<Rightarrow> 'a \<Rightarrow> bool"
  assumes asym: "lt x y \<Longrightarrow> \<not> lt y x"
    and neg_trans: "\<not> lt x y \<Longrightarrow> \<not> lt y z \<Longrightarrow> \<not> lt x z"
begin

lemma insert_slice_sorted:
  assumes "sorted_wrt (\<lambda>a b. \<not> lt b a) xs"
  shows "sorted_wrt (\<lambda>a b. \<not> lt b a) (insert_slice lt x xs)"
  using assms
proof (induction xs)
  case Nil
  then show ?case by simp
next
  case (Cons y ys)
  have set_ins: "set (insert_slice lt x ys) = insert x (set ys)"
    by (metis mset_insert_slice set_mset_add_mset_insert set_mset_mset)
  show ?case
  proof (cases "lt y x")
    case True
    with Cons set_ins show ?thesis by (auto dest: asym)
  next
    case False
    with Cons.prems show ?thesis by simp (blast dest: neg_trans)
  qed
qed

lemma sort_slice_sorted: "sorted_wrt (\<lambda>a b. \<not> lt b a) (sort_slice lt xs)"
  by (induction xs) (simp_all add: insert_slice_sorted)

lemma sort_slice_unique:
  assumes "mset xs = mset ys" and "\<And>x y. x \<in> set xs \<Longrightarrow> y \<in> set xs \<Longrightarrow> x \<noteq> y \<Longrightarrow> lt x y \<or> lt y x"
  shows "sort_slice lt xs = sort_slice lt ys"
proof (rule sorted_wrt_mset_unique)
  show "sorted_wrt (\<lambda>a b. \<not> lt b a) (sort_slice lt xs)"
    and "sorted_wrt (\<lambda>a b. \<not> lt b a) (sort_slice lt ys)"
    by (rule sort_slice_sorted)+
  show "mset (sort_slice lt xs) = mset (sort_slice lt ys)" using assms(1) by simp
qed (use assms(2) in auto)

end

definition go_string_less :: "string \<Rightarrow> string \<Rightarrow> bool" where
  "go_string_less a b \<longleftrightarrow> a < b"

interpretation string_order: slice_order go_string_less
  by unfold_locales (auto simp: go_string_less_def)

definition sort_Strings :: "string list \<Rightarrow> string list" where
  "sort_Strings xs = sort_slice go_string_less xs"

lemma sort_Strings_sorted: "sorted (sort_Strings xs)"
  using string_order.sort_slice_sorted [of xs]
  by (simp add: sort_Strings_def go_string_less_def not_less)

lemma mset_sort_Strings [simp]: "mset (sort_Strings xs) = mset xs"
  by (simp add: sort_Strings_def)

lemma set_sort_Strings [simp]: "set (sort_Strings xs) = set xs"
  by (simp add: sort_Strings_def)

lemma distinct_sort_Strings [simp]: "distinct (sort_Strings xs) = distinct xs"
  by (simp add: sort_Strings_def)

lemma sort_Strings_unique: "mset xs = mset ys \<Longrightarrow> sort_Strings xs = sort_Strings ys"
  by (metis mset_sort_Strings properties_for_sort sort_Strings_sorted)


section \<open>Package \<open>strings\<close>\<close>

definition HasPrefix :: "string \<Rightarrow> string \<Rightarrow> bool" where
  "HasPrefix s p = prefix p s"

definition HasSuffix :: "string \<Rightarrow> string \<Rightarrow> bool" where
  "HasSuffix s p = suffix p s"

definition TrimPrefix :: "string \<Rightarrow> string \<Rightarrow> string" where
  "TrimPrefix s p = (if prefix p s then drop (length p) s else s)"

definition TrimSuffix :: "string \<Rightarrow> string \<Rightarrow> string" where
  "TrimSuffix s p = (if suffix p s then take (length s - length p) s else s)"

definition Contains :: "string \<Rightarrow> string \<Rightarrow> bool" where
  "Contains s sub = sublist sub s"

definition ContainsAny :: "string \<Rightarrow> string \<Rightarrow> bool" where
  "ContainsAny s chars = list_ex (\<lambda>c. c \<in> set chars) s"

text \<open>\<open>strings.Count\<close>, \<open>strings.Split\<close> and \<open>strings.Cut\<close> with a one-byte separator.\<close>

definition Count1 :: "string \<Rightarrow> char \<Rightarrow> nat" where
  "Count1 s c = length (filter (\<lambda>x. x = c) s)"

fun Split1 :: "string \<Rightarrow> char \<Rightarrow> string list" where
  "Split1 [] c = [[]]"
| "Split1 (x # xs) c =
     (if x = c then [] # Split1 xs c
      else (case Split1 xs c of [] \<Rightarrow> [[x]] | w # ws \<Rightarrow> (x # w) # ws))"

fun Cut1 :: "string \<Rightarrow> char \<Rightarrow> string \<times> string \<times> bool" where
  "Cut1 [] c = ([], [], False)"
| "Cut1 (x # xs) c =
     (if x = c then ([], xs, True)
      else (case Cut1 xs c of (b, a, f) \<Rightarrow> (x # b, a, f)))"

fun Join :: "string list \<Rightarrow> string \<Rightarrow> string" where
  "Join [] sep = []"
| "Join [x] sep = x"
| "Join (x # y # ys) sep = x @ sep @ Join (y # ys) sep"

lemma Split1_nonempty [simp]: "Split1 s c \<noteq> []"
  by (induction s) (auto split: list.splits)

lemma Join_Split1: "Join (Split1 s c) [c] = s"
proof (induction s)
  case Nil
  then show ?case by simp
next
  case (Cons x xs)
  obtain w ws where "Split1 xs c = w # ws" by (cases "Split1 xs c") auto
  with Cons show ?case by (cases ws) auto
qed

lemma Split1_no_sep: "w \<in> set (Split1 s c) \<Longrightarrow> c \<notin> set w"
proof (induction s arbitrary: w)
  case Nil
  then show ?case by simp
next
  case (Cons x xs)
  obtain v vs where "Split1 xs c = v # vs" by (cases "Split1 xs c") auto
  with Cons show ?case by (auto split: if_splits)
qed

lemma Split1_append_sep: "c \<notin> set w \<Longrightarrow> Split1 (w @ c # s) c = w # Split1 s c"
  by (induction w) auto

lemma Split1_plain: "c \<notin> set w \<Longrightarrow> Split1 w c = [w]"
  by (induction w) auto

lemma Split1_Join: "ps \<noteq> [] \<Longrightarrow> (\<And>p. p \<in> set ps \<Longrightarrow> c \<notin> set p) \<Longrightarrow> Split1 (Join ps [c]) c = ps"
  by (induction ps "[c]" rule: Join.induct) (simp_all add: Split1_plain Split1_append_sep)

lemma Cut1_found: "Cut1 s c = (b, a, True) \<Longrightarrow> s = b @ c # a \<and> c \<notin> set b"
  by (induction s arbitrary: b a) (auto split: if_splits prod.splits)

lemma Cut1_not_found: "Cut1 s c = (b, a, False) \<Longrightarrow> b = s \<and> a = [] \<and> c \<notin> set s"
  by (induction s arbitrary: b a) (auto split: if_splits prod.splits)

text \<open>
  \<open>strings.TrimSpace\<close> removes Unicode white space at both ends. Its members are the
  six ASCII bytes and the UTF-8 sequences below (U+0085, U+00A0, U+1680, U+2000 to
  U+200A, U+2028, U+2029, U+202F, U+205F, U+3000).
\<close>

definition white_space :: "string list" where
  "white_space =
     map (\<lambda>n. [char_of (n::nat)]) [9, 10, 11, 12, 13, 32]
     @ [[CHR 0xC2, CHR 0x85], [CHR 0xC2, CHR 0xA0], [CHR 0xE1, CHR 0x9A, CHR 0x80]]
     @ map (\<lambda>n. [CHR 0xE2, CHR 0x80, char_of (n::nat)])
         [128, 129, 130, 131, 132, 133, 134, 135, 136, 137, 138, 168, 169, 175]
     @ [[CHR 0xE2, CHR 0x81, CHR 0x9F], [CHR 0xE3, CHR 0x80, CHR 0x80]]"

lemma white_space_nonempty: "w \<in> set white_space \<Longrightarrow> w \<noteq> []"
  by (auto simp: white_space_def)

text \<open>The first member of \<open>ws\<close> that is a prefix of the string.\<close>

definition leading :: "string list \<Rightarrow> string \<Rightarrow> string option" where
  "leading ws s = find (\<lambda>w. w \<noteq> [] \<and> prefix w s) ws"

lemma leading_SomeD: "leading ws s = Some w \<Longrightarrow> w \<in> set ws \<and> w \<noteq> [] \<and> prefix w s"
  by (auto simp: leading_def find_Some_iff)

lemma leading_None_iff: "leading ws s = None \<longleftrightarrow> (\<forall>w \<in> set ws. w = [] \<or> \<not> prefix w s)"
  by (auto simp: leading_def find_None_iff)

function trim_leading :: "string list \<Rightarrow> string \<Rightarrow> string" where
  "trim_leading ws s =
     (case leading ws s of None \<Rightarrow> s | Some w \<Rightarrow> trim_leading ws (drop (length w) s))"
  by pat_completeness auto
termination
proof (relation "measure (\<lambda>(ws, s). length s)", goal_cases)
  case 1
  then show ?case by simp
next
  case (2 ws s w)
  then have "w \<noteq> []" and "length w \<le> length s"
    by (auto dest: leading_SomeD prefix_length_le)
  then show ?case by (cases w) auto
qed

declare trim_leading.simps [simp del]

definition TrimSpace :: "string \<Rightarrow> string" where
  "TrimSpace s = rev (trim_leading (map rev white_space) (rev (trim_leading white_space s)))"

lemma trim_leading_suffix: "suffix (trim_leading ws s) s"
proof (induction ws s rule: trim_leading.induct)
  case (1 ws s)
  show ?case
  proof (cases "leading ws s")
    case None
    then show ?thesis by (simp add: trim_leading.simps [of ws s])
  next
    case (Some w)
    with "1.IH" have "suffix (trim_leading ws (drop (length w) s)) (drop (length w) s)" by simp
    then show ?thesis
      using Some suffix_order.trans suffix_drop
      by (fastforce simp: trim_leading.simps [of ws s])
  qed
qed

lemma trim_leading_done: "leading ws (trim_leading ws s) = None"
  by (induction ws s rule: trim_leading.induct)
     (simp add: trim_leading.simps split: option.splits)

lemma trim_leading_fix: "leading ws s = None \<Longrightarrow> trim_leading ws s = s"
  by (simp add: trim_leading.simps)

lemma TrimSpace_sublist: "sublist (TrimSpace s) s"
proof -
  let ?u = "trim_leading white_space s"
  have "prefix (TrimSpace s) ?u"
    using trim_leading_suffix [of "map rev white_space" "rev ?u"]
    by (simp add: TrimSpace_def suffix_to_prefix)
  then show ?thesis
    using trim_leading_suffix [of white_space s]
    by (metis prefix_imp_sublist sublist_order.order.trans suffix_imp_sublist)
qed

lemma TrimSpace_idem: "TrimSpace (TrimSpace s) = TrimSpace s"
proof -
  let ?u = "trim_leading white_space s" and ?t = "TrimSpace s"
  have pre: "prefix ?t ?u"
    using trim_leading_suffix [of "map rev white_space" "rev ?u"]
    by (simp add: TrimSpace_def suffix_to_prefix)
  have "leading white_space ?u = None" by (rule trim_leading_done)
  with pre have "leading white_space ?t = None"
    by (auto simp: leading_None_iff dest: prefix_order.trans)
  then have l: "trim_leading white_space ?t = ?t" by (rule trim_leading_fix)
  have "leading (map rev white_space) (rev ?t) = None"
    by (simp add: TrimSpace_def trim_leading_done)
  then have "trim_leading (map rev white_space) (rev ?t) = rev ?t" by (rule trim_leading_fix)
  with l show ?thesis by (simp add: TrimSpace_def)
qed

text \<open>Visible ASCII characters are no white space.\<close>

definition graphic :: "char \<Rightarrow> bool" where
  "graphic c \<longleftrightarrow> 32 < (of_char c :: nat) \<and> (of_char c :: nat) < 127"

lemma white_space_ends: "w \<in> set white_space \<Longrightarrow> w \<noteq> [] \<and> \<not> graphic (hd w) \<and> \<not> graphic (last w)"
  by (simp add: white_space_def graphic_def) (elim disjE; simp)

lemma TrimSpace_graphic:
  assumes "s \<noteq> [] \<Longrightarrow> graphic (hd s) \<and> graphic (last s)"
  shows "TrimSpace s = s"
proof -
  have hd_w: "hd s = hd w" if "w \<noteq> []" "prefix w s" for w and s :: string
    using that by (auto simp: prefix_def)
  have l: "leading white_space s = None"
    using assms white_space_ends hd_w unfolding leading_None_iff by (metis prefix_bot.extremum_unique)
  have "leading (map rev white_space) (rev s) = None" unfolding leading_None_iff
  proof
    fix v assume "v \<in> set (map rev white_space)"
    then obtain w where w: "w \<in> set white_space" "v = rev w" by auto
    have "\<not> prefix v (rev s)"
    proof
      assume "prefix v (rev s)"
      moreover have "v \<noteq> []" using w white_space_ends by auto
      ultimately have "hd (rev s) = hd v" "s \<noteq> []" using hd_w by (blast, auto)
      then show False using assms w white_space_ends by (metis hd_rev)
    qed
    then show "v = [] \<or> \<not> prefix v (rev s)" ..
  qed
  then show ?thesis using l by (simp add: TrimSpace_def trim_leading_fix)
qed

text \<open>
  \<open>strings.ToLower\<close>: an ASCII string is lowered byte by byte; any other string goes
  through \<open>strings.Map(unicode.ToLower, s)\<close>, whose Unicode tables are the parameter
  \<open>um\<close> of every definition that lowers a string.
\<close>

definition is_ascii :: "string \<Rightarrow> bool" where
  "is_ascii s = list_all (\<lambda>c. (of_char c :: nat) < 128) s"

definition ascii_lower :: "char \<Rightarrow> char" where
  "ascii_lower c = (let n = (of_char c :: nat) in if 65 \<le> n \<and> n \<le> 90 then char_of (n + 32) else c)"

definition ToLower :: "(string \<Rightarrow> string) \<Rightarrow> string \<Rightarrow> string" where
  "ToLower um s = (if is_ascii s then map ascii_lower s else um s)"


section \<open>Package \<open>fmt\<close> and \<open>strconv\<close>\<close>

definition digit_char :: "nat \<Rightarrow> char" where
  "digit_char d = char_of (48 + d)"

fun fmt_nat :: "nat \<Rightarrow> string" where
  "fmt_nat n = (if n < 10 then [digit_char n] else fmt_nat (n div 10) @ [digit_char (n mod 10)])"

declare fmt_nat.simps [simp del]

definition fmt_int :: "int \<Rightarrow> string" where
  "fmt_int z = (if z < 0 then ''-'' @ fmt_nat (nat (- z)) else fmt_nat (nat z))"

text \<open>\<open>strconv.Atoi\<close>: an optional sign, then decimal digits; out of range is an error.\<close>

fun parse_digits :: "nat \<Rightarrow> string \<Rightarrow> nat option" where
  "parse_digits acc [] = Some acc"
| "parse_digits acc (c # cs) =
     (let n = (of_char c :: nat)
      in if 48 \<le> n \<and> n \<le> 57 then parse_digits (acc * 10 + (n - 48)) cs else None)"

definition Atoi :: "string \<Rightarrow> int option" where
  "Atoi s =
     (let (neg, body) =
            (case s of c # cs \<Rightarrow> if c = CHR ''-'' then (True, cs)
                                else if c = CHR ''+'' then (False, cs) else (False, s)
                     | [] \<Rightarrow> (False, []))
      in if body = [] then None
         else case parse_digits 0 body of
                None \<Rightarrow> None
              | Some n \<Rightarrow> let z = (if neg then - int n else int n)
                          in if in_int64 z then Some z else None)"

lemma parse_digits_append:
  "parse_digits acc (xs @ ys) = (case parse_digits acc xs of None \<Rightarrow> None | Some n \<Rightarrow> parse_digits n ys)"
  by (induction xs arbitrary: acc) (auto simp: Let_def)

lemma of_char_digit: "d < 10 \<Longrightarrow> (of_char (digit_char d) :: nat) = 48 + d"
  by (simp add: digit_char_def)

lemma parse_digits_fmt_nat: "parse_digits 0 (fmt_nat n) = Some n"
proof (induction n rule: fmt_nat.induct)
  case (1 n)
  show ?case
  proof (cases "n < 10")
    case True
    then show ?thesis by (simp add: fmt_nat.simps [of n] of_char_digit)
  next
    case False
    with "1.IH" show ?thesis
      by (simp add: fmt_nat.simps [of n] parse_digits_append of_char_digit)
  qed
qed

lemma fmt_nat_nonempty [simp]: "fmt_nat n \<noteq> []"
  by (simp add: fmt_nat.simps [of n])


lemma fmt_nat_digits: "c \<in> set (fmt_nat n) \<Longrightarrow> 48 \<le> (of_char c :: nat) \<and> (of_char c :: nat) \<le> 57"
proof (induction n rule: fmt_nat.induct)
  case (1 n)
  then show ?case by (cases "n < 10") (auto simp: fmt_nat.simps [of n] of_char_digit)
qed

lemma fmt_int_chars: "c \<in> set (fmt_int z) \<Longrightarrow> c = CHR ''-'' \<or> 48 \<le> (of_char c :: nat) \<and> (of_char c :: nat) \<le> 57"
  using fmt_nat_digits by (auto simp: fmt_int_def split: if_splits)

text \<open>
  The verb \<open>%q\<close>: a double-quoted Go literal. For a string beyond ASCII, what is printable is
  up to the Unicode tables, the parameter \<open>uq\<close>.
\<close>

definition hex_digit :: "nat \<Rightarrow> char" where
  "hex_digit d = (if d < 10 then char_of (48 + d) else char_of (87 + d))"

definition quote_char :: "char \<Rightarrow> string" where
  "quote_char c =
     (let n = (of_char c :: nat) in
      if n = 34 \<or> n = 92 then [CHR 0x5C, c]
      else if 32 \<le> n \<and> n < 127 then [c]
      else case map_of [(7, CHR ''a''), (8, CHR ''b''), (9, CHR ''t''), (10, CHR ''n''), (11, CHR ''v''), (12, CHR ''f''), (13, CHR ''r'')] n of
             Some e \<Rightarrow> [CHR 0x5C, e]
           | None \<Rightarrow> [CHR 0x5C, CHR ''x'', hex_digit (n div 16), hex_digit (n mod 16)])"

definition fmt_q :: "(string \<Rightarrow> string) \<Rightarrow> string \<Rightarrow> string" where
  "fmt_q uq s = (if is_ascii s then [CHR 0x22] @ concat (map quote_char s) @ [CHR 0x22] else uq s)"


section \<open>Slash-separated relative paths\<close>

abbreviation slash :: char where "slash \<equiv> CHR ''/''"

definition depth :: "string \<Rightarrow> nat" where
  "depth p = Count1 p slash"

text \<open>\<open>p\<close> lies strictly below the directory \<open>d\<close>.\<close>

definition beneath :: "string \<Rightarrow> string \<Rightarrow> bool" where
  "beneath d p \<longleftrightarrow> prefix (d @ [slash]) p"

definition child :: "string \<Rightarrow> string \<Rightarrow> string" where
  "child d name = (if d = [] then name else d @ [slash] @ name)"

lemma beneath_trans: "beneath a b \<Longrightarrow> beneath b c \<Longrightarrow> beneath a c"
  unfolding beneath_def by (metis prefix_order.trans append_prefixD)

lemma beneath_irrefl [simp]: "\<not> beneath d d"
  by (auto simp: beneath_def prefix_def)

lemma beneath_depth: "beneath d p \<Longrightarrow> depth d < depth p"
  by (auto simp: beneath_def prefix_def depth_def Count1_def)

text \<open>The prefixes that end just before a slash: what the loops over a path's bytes visit.\<close>

definition slash_prefixes :: "string \<Rightarrow> string list" where
  "slash_prefixes p = map (\<lambda>i. take i p) (filter (\<lambda>i. p ! i = slash) [0..<length p])"

lemma slash_prefixes_iff [path_simps]: "d \<in> set (slash_prefixes p) \<longleftrightarrow> beneath d p"
proof
  assume "d \<in> set (slash_prefixes p)"
  then obtain i where i: "i < length p" "p ! i = slash" "d = take i p"
    by (auto simp: slash_prefixes_def)
  then have "d @ [slash] = take (Suc i) p" by (simp add: take_Suc_conv_app_nth)
  then show "beneath d p" by (simp add: beneath_def take_is_prefix)
next
  assume "beneath d p"
  then obtain r where "p = d @ slash # r" by (auto simp: beneath_def prefix_def)
  then have "length d < length p" "p ! length d = slash" "take (length d) p = d" by auto
  then show "d \<in> set (slash_prefixes p)"
    unfolding slash_prefixes_def by (simp add: image_iff) (metis)
qed

text \<open>The suffixes that start just after a slash.\<close>

definition slash_suffixes :: "string \<Rightarrow> string list" where
  "slash_suffixes p = map (\<lambda>i. drop (Suc i) p) (filter (\<lambda>i. p ! i = slash) [0..<length p])"

end
