(* ===== verification/Store_Types.thy ===== *)
theory Store_Types
  imports Prelude
begin

text \<open>
  The enumerations that \<^verbatim>\<open>src/internal/store\<close> declares and the engine and runner switch
  on, and Go error values.

  Each Go enumeration is a string type with named constants; the model has one constructor
  per constant.
\<close>

datatype sync_mode = ModeMirror | ModeUpdate

datatype error_policy = ErrorPolicySkip | ErrorPolicyAbort

datatype delete_policy = DeletePolicySkipDeletes | DeletePolicyProceed

datatype create_dest_dirs = CreateDirsAsk | CreateDirsAlways | CreateDirsNever

datatype unavailable_policy = PolicySkip | PolicyAbort | PolicyPrompt

datatype prompt_fallback = FallbackSkip | FallbackAbort

datatype event_level = LevelInfo | LevelWarn | LevelError

datatype run_status =
  RunRunning | RunAwaitingConfirmation | RunSuccess | RunPartial | RunFailed | RunCancelled

datatype run_trigger = TriggerManual | TriggerSchedule | TriggerWebhook

datatype dest_status =
  DestPending | DestRunning | DestSuccess | DestFailed | DestCancelled
| DestSkippedUnavailable | DestAwaitingPrompt

text \<open>The constants as texts, as the tables and the status hold them.\<close>

fun run_status_text :: "run_status \<Rightarrow> string" where
  "run_status_text RunRunning = ''running''"
| "run_status_text RunSuccess = ''success''"
| "run_status_text RunPartial = ''partial''"
| "run_status_text RunFailed = ''failed''"
| "run_status_text RunCancelled = ''cancelled''"
| "run_status_text RunAwaitingConfirmation = ''awaiting_confirmation''"

fun trigger_text :: "run_trigger \<Rightarrow> string" where
  "trigger_text TriggerManual = ''manual''"
| "trigger_text TriggerSchedule = ''schedule''"
| "trigger_text TriggerWebhook = ''webhook''"

fun dest_status_text :: "dest_status \<Rightarrow> string" where
  "dest_status_text DestPending = ''pending''"
| "dest_status_text DestRunning = ''running''"
| "dest_status_text DestAwaitingPrompt = ''awaiting_prompt''"
| "dest_status_text DestSuccess = ''success''"
| "dest_status_text DestFailed = ''failed''"
| "dest_status_text DestSkippedUnavailable = ''skipped_unavailable''"
| "dest_status_text DestCancelled = ''cancelled''"


section \<open>Error values\<close>

text \<open>
  A Go error is its text and what \<open>errors.Is\<close> finds along its wrapping chain: the sentinel
  errors of the standard library and of the repository, and the system error numbers.
\<close>

datatype errno =
  EIO | EHOSTDOWN | EHOSTUNREACH | ETIMEDOUT | ECONNRESET | ECONNABORTED | ECONNREFUSED
| ENOTCONN | ENETDOWN | ENETUNREACH | EPIPE | ESTALE | ENODEV
| ENOSPC | EDQUOT | EROFS | OtherErrno nat

datatype sentinel =
  ErrNotExist | ErrPermission | Canceled | DeadlineExceeded | EOF | ErrShortWrite
| ErrStalled | ErrShareUnreachable | ErrSourceVanished | ErrDestinationLocked
| ErrPathNotExist | ErrInUse | ErrNotFound | ErrNameTaken | ErrAlreadyRunning | ErrNotRunning
| ErrShuttingDown | ErrNoSuchPrompt | ErrNotAwaitingConfirm | ErrSourceUnavailable
| ErrUndecryptable | ErrNoAdminPassword | Errno errno
| MountFailed string string  \<comment> \<open>a \<open>*MountError\<close>: its kind and its detail\<close>

record goerr =
  err_text :: string
  err_chain :: "sentinel list"

definition errors_Is :: "goerr \<Rightarrow> sentinel \<Rightarrow> bool" where
  "errors_Is e s \<longleftrightarrow> s \<in> set (err_chain e)"

text \<open>\<open>fmt.Errorf\<close> with one and with two \<open>%w\<close> verbs.\<close>

definition wrap :: "string \<Rightarrow> goerr \<Rightarrow> goerr" where
  "wrap prefx e = \<lparr>err_text = prefx @ err_text e, err_chain = err_chain e\<rparr>"

definition wrap2 :: "sentinel \<Rightarrow> string \<Rightarrow> goerr \<Rightarrow> goerr" where
  "wrap2 s prefx e = \<lparr>err_text = prefx @ err_text e, err_chain = s # err_chain e\<rparr>"

definition new_error :: "string \<Rightarrow> sentinel list \<Rightarrow> goerr" where
  "new_error t ss = \<lparr>err_text = t, err_chain = ss\<rparr>"

text \<open>Steps of which the first that fails ends the function, and the error of a step in context.\<close>

definition bind_err :: "goerr + 'a \<Rightarrow> ('a \<Rightarrow> goerr + 'b) \<Rightarrow> goerr + 'b" where
  "bind_err x f = (case x of Inl e \<Rightarrow> Inl e | Inr v \<Rightarrow> f v)"

definition in_context :: "string \<Rightarrow> goerr + 'a \<Rightarrow> goerr + 'a" where
  "in_context prefx x = (case x of Inl e \<Rightarrow> Inl (wrap prefx e) | Inr v \<Rightarrow> Inr v)"

lemma bind_err_Inr: "bind_err x f = Inr y \<longleftrightarrow> (\<exists>v. x = Inr v \<and> f v = Inr y)"
  by (cases x) (simp_all add: bind_err_def)

lemma in_context_Inr [simp]: "in_context p x = Inr y \<longleftrightarrow> x = Inr y"
  by (cases x) (simp_all add: in_context_def)

lemma errors_Is_wrap [simp]: "errors_Is (wrap t e) s = errors_Is e s"
  by (simp add: errors_Is_def wrap_def)

lemma errors_Is_wrap2 [simp]: "errors_Is (wrap2 s' t e) s \<longleftrightarrow> s = s' \<or> errors_Is e s"
  by (auto simp: errors_Is_def wrap2_def)

lemma errors_Is_new [simp]: "errors_Is (new_error t ss) s \<longleftrightarrow> s \<in> set ss"
  by (simp add: errors_Is_def new_error_def)


section \<open>Package \<open>time\<close>\<close>

text \<open>
  An instant is its distance from the Unix epoch in nanoseconds. \<open>Time.Sub\<close> returns a
  \<open>Duration\<close>, an \<open>int64\<close>, and saturates at its ends; \<open>Time.Add\<close> and \<open>Time.After\<close> are
  exact.
\<close>

type_synonym gotime = int
type_synonym duration = int

abbreviation time_Hour :: duration where "time_Hour \<equiv> 3600000000000"

text \<open>The zero \<open>time.Time\<close>, the first instant of the year 1.\<close>

definition zero_time :: gotime where
  "zero_time = - 62135596800000000000"

definition time_Sub :: "gotime \<Rightarrow> gotime \<Rightarrow> duration" where
  "time_Sub t u =
     (let d = t - u in if d < min_int64 then min_int64 else if max_int64 < d then max_int64 else d)"

lemma time_Sub_range: "in_int64 (time_Sub t u)"
  by (simp add: time_Sub_def in_int64_def Let_def)

lemma time_Sub_self [simp]: "time_Sub t t = 0"
  by (simp add: time_Sub_def)

end
