(* ===== verification/Scope.thy ===== *)
theory Scope
  imports Prelude
begin

text \<open>
  The engine's view of a filter, \<open>engine.Matcher\<close> of
  \<^verbatim>\<open>src/internal/engine/differ.go\<close>: which paths are in scope, which directories a walk
  may skip, and the law that ties the two together. The locale is the contract; the
  filter chain of \<^verbatim>\<open>src/internal/filter\<close> provides it (theory \<open>Filter_Chain\<close>), the scanner
  and the differ are its clients.
\<close>

record matcher =
  Admits :: "string \<Rightarrow> bool \<Rightarrow> bool"
  PrunesDir :: "string \<Rightarrow> bool"
  Degraded :: "bool \<times> string"

locale scope_matcher =
  fixes admits :: "string \<Rightarrow> bool \<Rightarrow> bool"
    and prunes :: "string \<Rightarrow> bool"
  assumes prune_self: "prunes d \<Longrightarrow> \<not> admits d True"
    and prune_beneath: "prunes d \<Longrightarrow> beneath d p \<Longrightarrow> \<not> admits p isDir"
begin

text \<open>A directory is reached by the pruned walk when no ancestor of it is pruned.\<close>

definition visible :: "string \<Rightarrow> bool" where
  "visible p \<longleftrightarrow> (\<forall>d \<in> set (slash_prefixes p). \<not> prunes d)"

lemma admitted_visible: "admits p isDir \<Longrightarrow> visible p"
  unfolding visible_def by (auto simp: path_simps dest: prune_beneath)

lemma admitted_dir_not_pruned: "admits d True \<Longrightarrow> \<not> prunes d"
  by (auto dest: prune_self)

lemma visible_beneath: "visible p \<Longrightarrow> beneath d p \<Longrightarrow> visible d \<and> \<not> prunes d"
  unfolding visible_def using beneath_trans by (simp add: path_simps)

end

text \<open>
  A matcher that prunes less than another may replace it for pruning: the rule by which
  the shared source walk may use the job's own rules only.
\<close>

lemma scope_matcher_weaken:
  assumes "scope_matcher admits prunes" and "\<And>d. prunes' d \<Longrightarrow> prunes d"
  shows "scope_matcher admits prunes'"
  using assms unfolding scope_matcher_def by blast

end
