(* ===== verification/Engine_Diff.thy ===== *)
theory Engine_Diff
  imports Store_Types Scope
begin

text \<open>
  The differ, \<^verbatim>\<open>src/internal/engine/differ.go\<close>, with the scan results it reads
  (\<^verbatim>\<open>src/internal/engine/scanner.go\<close>): \<open>Diff\<close> turns two listings into the ordered plan
  for one destination.

  The filter is a \<open>matcher\<close> (theory \<open>Scope\<close>); its tallies do not influence a verdict
  (\<open>Filter_Chain.Admits_tallies_once\<close>), so the differ sees it as a function. \<open>um\<close> is the
  Unicode lowering of \<open>strings.ToLower\<close> (theory \<open>Prelude\<close>).
\<close>

section \<open>Listings\<close>

record entry =
  RelPath :: string
  Size :: int
  ModTime :: gotime
  IsDir :: bool
  IsSymlink :: bool

record scan_error =
  seRelPath :: string
  seErr :: goerr

record scan_result =
  Entries :: "entry gomap"
  Files :: int
  Dirs :: int
  Bytes :: int
  Symlinks :: "string list"
  Vanished :: "string list"
  Errors :: "scan_error list"
  Pruned :: "string list"
  Truncated :: bool

definition Incomplete :: "scan_result \<Rightarrow> bool" where
  "Incomplete r \<longleftrightarrow> length (Errors r) > 0"

definition listing_ok :: "scan_result \<Rightarrow> bool" where
  "listing_ok r \<longleftrightarrow> gomap_ok (Entries r) \<and> (\<forall>(p, e) \<in> set (Entries r). RelPath e = p)"


section \<open>Plans\<close>

datatype action_kind = ActionMkDir | ActionCopy | ActionDelete | ActionRmDir

record action =
  Kind :: action_kind
  aRelPath :: string
  aSize :: int
  aModTime :: gotime
  Reason :: string
  Unblock :: bool
  Overwrite :: bool

record conflict =
  cRelPath :: string
  cReason :: string

record plan =
  Actions :: "action list"
  MkDirs :: int
  Copies :: int
  Deletes :: int
  RmDirs :: int
  CopyBytes :: int
  Unblocks :: int
  Overwrites :: int
  Conflicts :: "conflict list"
  DeletionsBlocked :: bool
  BlockedReason :: string
  WithheldDeletes :: int
  WithheldRmDirs :: int

record diff_options =
  Mode :: sync_mode
  Tolerance :: duration
  IgnoreDSTHour :: bool
  CaseInsensitiveDest :: bool
  Filter :: "matcher option"

definition plan_Empty :: "plan \<Rightarrow> bool" where
  "plan_Empty p \<longleftrightarrow> Actions p = []"

definition opts_admits :: "diff_options \<Rightarrow> string \<Rightarrow> bool \<Rightarrow> bool" where
  "opts_admits opts relPath isDir =
     (case Filter opts of None \<Rightarrow> True | Some m \<Rightarrow> Admits m relPath isDir)"

abbreviation mirroring :: "diff_options \<Rightarrow> bool" where
  "mirroring opts \<equiv> Mode opts = ModeMirror"


section \<open>Comparing two entries\<close>

definition sameFile :: "entry \<Rightarrow> entry \<Rightarrow> diff_options \<Rightarrow> bool" where
  "sameFile src dst opts =
     (if Size src \<noteq> Size dst then False
      else
        let d0 = time_Sub (ModTime src) (ModTime dst);
            diff = (if d0 < 0 then wrap64 (- d0) else d0)
        in if diff \<le> Tolerance opts then True
           else if IgnoreDSTHour opts then
             let o0 = wrap64 (diff - time_Hour);
                 offBy = (if o0 < 0 then wrap64 (- o0) else o0)
             in offBy \<le> Tolerance opts
           else False)"

definition srcIsNewer :: "entry \<Rightarrow> entry \<Rightarrow> diff_options \<Rightarrow> bool" where
  "srcIsNewer src dst opts \<longleftrightarrow> ModTime src > ModTime dst + Tolerance opts"

definition differenceReason :: "entry \<Rightarrow> entry \<Rightarrow> string" where
  "differenceReason src dst =
     (if Size src \<noteq> Size dst
      then ''size differs ('' @ fmt_int (Size src) @ '' vs '' @ fmt_int (Size dst) @ '' bytes)''
      else ''modification time differs'')"


section \<open>Helpers\<close>

definition mk_action :: "action_kind \<Rightarrow> string \<Rightarrow> string \<Rightarrow> action" where
  "mk_action k p r =
     \<lparr>Kind = k, aRelPath = p, aSize = 0, aModTime = zero_time, Reason = r, Unblock = False,
      Overwrite = False\<rparr>"

definition copyAction :: "entry \<Rightarrow> string \<Rightarrow> action" where
  "copyAction e reason =
     \<lparr>Kind = ActionCopy, aRelPath = RelPath e, aSize = Size e, aModTime = ModTime e,
      Reason = reason, Unblock = False, Overwrite = False\<rparr>"

definition mk_conflict :: "string \<Rightarrow> string \<Rightarrow> conflict" where
  "mk_conflict p r = \<lparr>cRelPath = p, cReason = r\<rparr>"

definition sortedKeys :: "entry gomap \<Rightarrow> string list" where
  "sortedKeys entries = sort_Strings (gokeys entries)"

definition foldedGroups :: "(string \<Rightarrow> string) \<Rightarrow> entry gomap \<Rightarrow> (string list) gomap" where
  "foldedGroups um entries =
     foldl (\<lambda>groups relPath.
              let folded = ToLower um relPath
              in goput folded (case_option [] id (goget groups folded) @ [relPath]) groups)
       [] (gokeys entries)"

definition depth_less :: "bool \<Rightarrow> action \<Rightarrow> action \<Rightarrow> bool" where
  "depth_less shallowestFirst a b =
     (let da = depth (aRelPath a); db = depth (aRelPath b)
      in if da \<noteq> db then (if shallowestFirst then da < db else da > db)
         else aRelPath a < aRelPath b)"

definition sortByDepth :: "bool \<Rightarrow> action list \<Rightarrow> action list" where
  "sortByDepth shallowestFirst actions = sort_slice (depth_less shallowestFirst) actions"

definition path_less :: "action \<Rightarrow> action \<Rightarrow> bool" where
  "path_less a b \<longleftrightarrow> aRelPath a < aRelPath b"

definition ancestors :: "string \<Rightarrow> string list" where
  "ancestors relPath = slash_prefixes relPath"

definition plural :: "nat \<Rightarrow> string" where
  "plural n = (if n = 1 then '' is'' else ''s are'')"

text \<open>The nested loops of \<open>requiredDirs\<close>: \<open>have\<close> grows as directories are seen.\<close>

fun required_loop :: "entry gomap \<Rightarrow> string list \<Rightarrow> string list \<Rightarrow> action list" where
  "required_loop dst hav [] = []"
| "required_loop dst hav (d # ds) =
     (if d \<in> set hav then required_loop dst hav ds
      else if (case goget dst d of Some e \<Rightarrow> IsDir e | None \<Rightarrow> False)
           then required_loop dst (d # hav) ds
           else mk_action ActionMkDir d ''needed for files being copied into it''
                # required_loop dst (d # hav) ds)"

definition requiredDirs :: "action list \<Rightarrow> scan_result \<Rightarrow> action list \<Rightarrow> action list" where
  "requiredDirs copies dst planned =
     required_loop (Entries dst) (map aRelPath planned)
       (concat (map (\<lambda>c. ancestors (aRelPath c)) copies))"

definition deletionGuard :: "scan_result \<Rightarrow> scan_result \<Rightarrow> diff_options \<Rightarrow> string" where
  "deletionGuard src dst opts =
     (let (degr, reason) = (case Filter opts of Some m \<Rightarrow> Degraded m | None \<Rightarrow> (False, []))
      in if degr
         then ''a filter rule could not be loaded and was skipped ('' @ reason
              @ ''), so the filter is narrower than configured and nothing was deleted''
         else if Incomplete src
         then ''the source could not be fully read ('' @ fmt_nat (length (Errors src)) @ '' path''
              @ plural (length (Errors src)) @ '' unreadable), so nothing was deleted''
         else if length (Entries src) = 0 \<and> length (Entries dst) > 0
         then ''the source scanned as completely empty while the destination holds ''
              @ fmt_nat (length (Entries dst))
              @ '' path(s), which usually means the source is not really mounted; nothing was deleted''
         else [])"


section \<open>\<open>Diff\<close>\<close>

text \<open>
  The groups of source paths that collide at a case-insensitive destination: in each group
  every path but the first is skipped, and one conflict is reported.
\<close>

definition collisions :: "(string \<Rightarrow> string) \<Rightarrow> scan_result \<Rightarrow> diff_options \<Rightarrow> string list list" where
  "collisions um src opts =
     (if CaseInsensitiveDest opts
      then map sort_Strings (filter (\<lambda>g. \<not> length g < 2) (map snd (foldedGroups um (Entries src))))
      else [])"

definition skipSource :: "(string \<Rightarrow> string) \<Rightarrow> scan_result \<Rightarrow> diff_options \<Rightarrow> string list" where
  "skipSource um src opts = concat (map tl (collisions um src opts))"

definition collision_conflict :: "string list \<Rightarrow> conflict" where
  "collision_conflict grp =
     mk_conflict (hd grp)
       (''skipped: '' @ Join grp '', ''
        @ '' differ only in case and would collide at a case-insensitive destination'')"

text \<open>What one iteration of the loop over the source appends to the plan's lists.\<close>

record contribution =
  ctUnblocks :: "action list"
  ctMkdirs :: "action list"
  ctCopies :: "action list"
  ctConflicts :: "conflict list"

definition no_contribution :: contribution where
  "no_contribution = \<lparr>ctUnblocks = [], ctMkdirs = [], ctCopies = [], ctConflicts = []\<rparr>"

definition src_item :: "diff_options \<Rightarrow> string \<Rightarrow> entry \<Rightarrow> entry option \<Rightarrow> contribution" where
  "src_item opts relPath srcEntry dstEntry =
     (if IsSymlink srcEntry then
        no_contribution\<lparr>ctConflicts :=
          [mk_conflict relPath ''skipped: symlinks are not synced in this version'']\<rparr>
      else
        case dstEntry of
          None \<Rightarrow>
            if IsDir srcEntry
            then no_contribution\<lparr>ctMkdirs := [mk_action ActionMkDir relPath ''missing at the destination'']\<rparr>
            else no_contribution\<lparr>ctCopies := [copyAction srcEntry ''new at the source'']\<rparr>
        | Some d \<Rightarrow>
            if IsSymlink d then
              if \<not> mirroring opts then
                no_contribution\<lparr>ctConflicts := [mk_conflict relPath
                  ''skipped: a symlink is at this path, and update mode never deletes'']\<rparr>
              else
                no_contribution\<lparr>
                  ctUnblocks := [(mk_action ActionDelete relPath
                    ''a symlink is where the source has a real file or directory'')\<lparr>Unblock := True\<rparr>],
                  ctMkdirs := (if IsDir srcEntry
                    then [mk_action ActionMkDir relPath ''replacing a symlink with a directory''] else []),
                  ctCopies := (if IsDir srcEntry then []
                    else [copyAction srcEntry ''replacing a symlink with a file''])\<rparr>
            else if IsDir srcEntry then
              if \<not> IsDir d \<and> mirroring opts then
                no_contribution\<lparr>
                  ctUnblocks := [(mk_action ActionDelete relPath
                    ''a file is where the source has a directory'')\<lparr>aSize := Size d, Unblock := True\<rparr>],
                  ctMkdirs := [mk_action ActionMkDir relPath ''replacing a file with a directory'']\<rparr>
              else if \<not> IsDir d then
                no_contribution\<lparr>ctConflicts := [mk_conflict relPath
                  ''skipped: a file is where the source has a directory, and update mode never deletes'']\<rparr>
              else no_contribution
            else if IsDir d \<and> mirroring opts then
              no_contribution\<lparr>
                ctUnblocks := [(mk_action ActionRmDir relPath
                  ''a directory is where the source has a file'')\<lparr>Unblock := True\<rparr>],
                ctCopies := [copyAction srcEntry ''replacing a directory with a file'']\<rparr>
            else if IsDir d then
              no_contribution\<lparr>ctConflicts := [mk_conflict relPath
                ''skipped: a directory is where the source has a file, and update mode never deletes'']\<rparr>
            else if sameFile srcEntry d opts then no_contribution
            else if \<not> mirroring opts \<and> \<not> srcIsNewer srcEntry d opts then
              no_contribution\<lparr>ctConflicts := [mk_conflict relPath
                ''skipped: the destination copy is not older, and update mode only copies newer files'']\<rparr>
            else
              no_contribution\<lparr>ctCopies :=
                [(copyAction srcEntry (differenceReason srcEntry d))\<lparr>Overwrite := True\<rparr>]\<rparr>)"

definition src_contribution ::
  "(string \<Rightarrow> string) \<Rightarrow> scan_result \<Rightarrow> scan_result \<Rightarrow> diff_options \<Rightarrow> string \<Rightarrow> contribution" where
  "src_contribution um src dst opts relPath =
     (if relPath \<in> set (skipSource um src opts) then no_contribution
      else case goget (Entries src) relPath of
             None \<Rightarrow> no_contribution
           | Some srcEntry \<Rightarrow>
               if \<not> opts_admits opts relPath (IsDir srcEntry) then no_contribution
               else src_item opts relPath srcEntry (goget (Entries dst) relPath))"

definition src_contributions ::
  "(string \<Rightarrow> string) \<Rightarrow> scan_result \<Rightarrow> scan_result \<Rightarrow> diff_options \<Rightarrow> contribution list" where
  "src_contributions um src dst opts =
     map (src_contribution um src dst opts) (sortedKeys (Entries src))"

text \<open>The loop over the destination: paths the source no longer has.\<close>

definition foldedSrc :: "(string \<Rightarrow> string) \<Rightarrow> scan_result \<Rightarrow> diff_options \<Rightarrow> string list" where
  "foldedSrc um src opts = (if CaseInsensitiveDest opts then map (ToLower um) (gokeys (Entries src)) else [])"

definition extraneous :: "scan_result \<Rightarrow> scan_result \<Rightarrow> diff_options \<Rightarrow> (string \<times> entry) list" where
  "extraneous src dst opts =
     filter (\<lambda>(p, e). goget (Entries src) p = None \<and> opts_admits opts p (IsDir e))
       (map (\<lambda>p. (p, the (goget (Entries dst) p))) (sortedKeys (Entries dst)))"

definition case_clash :: "(string \<Rightarrow> string) \<Rightarrow> scan_result \<Rightarrow> diff_options \<Rightarrow> string \<Rightarrow> bool" where
  "case_clash um src opts p \<longleftrightarrow> CaseInsensitiveDest opts \<and> ToLower um p \<in> set (foldedSrc um src opts)"

definition planned_deletes ::
  "(string \<Rightarrow> string) \<Rightarrow> scan_result \<Rightarrow> scan_result \<Rightarrow> diff_options \<Rightarrow> action list" where
  "planned_deletes um src dst opts =
     map (\<lambda>(p, e). (mk_action ActionDelete p ''not present at the source'')\<lparr>aSize := Size e\<rparr>)
       (filter (\<lambda>(p, e). \<not> case_clash um src opts p \<and> \<not> IsDir e) (extraneous src dst opts))"

definition planned_rmdirs ::
  "(string \<Rightarrow> string) \<Rightarrow> scan_result \<Rightarrow> scan_result \<Rightarrow> diff_options \<Rightarrow> action list" where
  "planned_rmdirs um src dst opts =
     map (\<lambda>(p, e). mk_action ActionRmDir p ''not present at the source'')
       (filter (\<lambda>(p, e). \<not> case_clash um src opts p \<and> IsDir e) (extraneous src dst opts))"

definition clash_conflicts ::
  "(string \<Rightarrow> string) \<Rightarrow> scan_result \<Rightarrow> scan_result \<Rightarrow> diff_options \<Rightarrow> conflict list" where
  "clash_conflicts um src dst opts =
     map (\<lambda>(p, e). mk_conflict p ''not deleted: the source has this path under different capitalisation'')
       (filter (\<lambda>(p, e). case_clash um src opts p) (extraneous src dst opts))"

text \<open>The lists the plan is assembled from, in the order \<open>Diff\<close> builds them.\<close>

definition src_unblocks ::
  "(string \<Rightarrow> string) \<Rightarrow> scan_result \<Rightarrow> scan_result \<Rightarrow> diff_options \<Rightarrow> action list" where
  "src_unblocks um src dst opts = concat (map ctUnblocks (src_contributions um src dst opts))"

definition src_mkdirs ::
  "(string \<Rightarrow> string) \<Rightarrow> scan_result \<Rightarrow> scan_result \<Rightarrow> diff_options \<Rightarrow> action list" where
  "src_mkdirs um src dst opts = concat (map ctMkdirs (src_contributions um src dst opts))"

definition src_copies ::
  "(string \<Rightarrow> string) \<Rightarrow> scan_result \<Rightarrow> scan_result \<Rightarrow> diff_options \<Rightarrow> action list" where
  "src_copies um src dst opts = concat (map ctCopies (src_contributions um src dst opts))"

definition all_mkdirs ::
  "(string \<Rightarrow> string) \<Rightarrow> scan_result \<Rightarrow> scan_result \<Rightarrow> diff_options \<Rightarrow> action list" where
  "all_mkdirs um src dst opts =
     src_mkdirs um src dst opts
     @ requiredDirs (src_copies um src dst opts) dst (src_mkdirs um src dst opts)"

definition blocked_reason :: "scan_result \<Rightarrow> scan_result \<Rightarrow> diff_options \<Rightarrow> string" where
  "blocked_reason src dst opts = (if mirroring opts then deletionGuard src dst opts else [])"

definition kept_deletes ::
  "(string \<Rightarrow> string) \<Rightarrow> scan_result \<Rightarrow> scan_result \<Rightarrow> diff_options \<Rightarrow> action list" where
  "kept_deletes um src dst opts =
     (if mirroring opts \<and> blocked_reason src dst opts = [] then planned_deletes um src dst opts else [])"

definition kept_rmdirs ::
  "(string \<Rightarrow> string) \<Rightarrow> scan_result \<Rightarrow> scan_result \<Rightarrow> diff_options \<Rightarrow> action list" where
  "kept_rmdirs um src dst opts =
     (if mirroring opts \<and> blocked_reason src dst opts = [] then planned_rmdirs um src dst opts else [])"

definition Diff ::
  "(string \<Rightarrow> string) \<Rightarrow> scan_result \<Rightarrow> scan_result \<Rightarrow> diff_options \<Rightarrow> plan" where
  "Diff um src dst opts =
     (let unblocks = sortByDepth False (src_unblocks um src dst opts);
          mkdirs = sortByDepth True (all_mkdirs um src dst opts);
          copies = sort_slice path_less (src_copies um src dst opts);
          deletes = sortByDepth False (kept_deletes um src dst opts);
          rmdirs = sortByDepth False (kept_rmdirs um src dst opts);
          blocked = (blocked_reason src dst opts \<noteq> []);
          nDeletes = length (planned_deletes um src dst opts);
          nRmdirs = length (planned_rmdirs um src dst opts)
      in \<lparr>Actions = unblocks @ mkdirs @ copies @ deletes @ rmdirs,
          MkDirs = int (length mkdirs),
          Copies = int (length copies),
          Deletes = int (length deletes),
          RmDirs = int (length rmdirs),
          CopyBytes = foldl (\<lambda>n a. wrap64 (n + aSize a)) 0 copies,
          Unblocks = int (length unblocks),
          Overwrites = int (length (filter Overwrite copies)),
          Conflicts = map collision_conflict (collisions um src opts)
                      @ concat (map ctConflicts (src_contributions um src dst opts))
                      @ (if mirroring opts then clash_conflicts um src dst opts else []),
          DeletionsBlocked = (blocked \<and> nDeletes + nRmdirs > 0),
          BlockedReason = blocked_reason src dst opts,
          WithheldDeletes = (if blocked then int nDeletes else 0),
          WithheldRmDirs = (if blocked then int nRmdirs else 0)\<rparr>)"

lemma Diff_Actions:
  "Actions (Diff um src dst opts) =
     sortByDepth False (src_unblocks um src dst opts)
     @ sortByDepth True (all_mkdirs um src dst opts)
     @ sort_slice path_less (src_copies um src dst opts)
     @ sortByDepth False (kept_deletes um src dst opts)
     @ sortByDepth False (kept_rmdirs um src dst opts)"
  by (simp add: Diff_def Let_def)

lemma set_sortByDepth [simp]: "set (sortByDepth b xs) = set xs"
  by (simp add: sortByDepth_def)

lemma length_sortByDepth [simp]: "length (sortByDepth b xs) = length xs"
  by (simp add: sortByDepth_def)

interpretation by_depth: slice_order "depth_less sf" for sf
  by unfold_locales (auto simp: depth_less_def Let_def split: if_splits)

interpretation by_path: slice_order path_less
  by unfold_locales (auto simp: path_less_def)


section \<open>What the loop over the source contributes\<close>

text \<open>The source paths the loop acts on: in scope and not shadowed by a case collision.\<close>

definition considered ::
  "(string \<Rightarrow> string) \<Rightarrow> scan_result \<Rightarrow> diff_options \<Rightarrow> string \<Rightarrow> entry \<Rightarrow> bool" where
  "considered um src opts p e \<longleftrightarrow>
     goget (Entries src) p = Some e \<and> p \<notin> set (skipSource um src opts) \<and> opts_admits opts p (IsDir e)"

lemma in_src_contributions:
  assumes "f no_contribution = []"
  shows "a \<in> set (concat (map f (src_contributions um src dst opts))) \<longleftrightarrow>
     (\<exists>p e. considered um src opts p e \<and> a \<in> set (f (src_item opts p e (goget (Entries dst) p))))"
proof -
  have "a \<in> set (f (src_contribution um src dst opts p)) \<longleftrightarrow>
      (\<exists>e. considered um src opts p e \<and> a \<in> set (f (src_item opts p e (goget (Entries dst) p))))" for p
    using assms by (auto simp: src_contribution_def considered_def split: option.splits)
  moreover have "considered um src opts p e \<Longrightarrow> p \<in> set (sortedKeys (Entries src))" for p e
    by (auto simp: considered_def sortedKeys_def dest: goget_in_keys)
  ultimately show ?thesis by (auto simp: src_contributions_def)
qed

lemma no_contribution_simps [simp]:
  "ctUnblocks no_contribution = []" "ctMkdirs no_contribution = []"
  "ctCopies no_contribution = []" "ctConflicts no_contribution = []"
  by (simp_all add: no_contribution_def)

lemma in_src_unblocks:
  "a \<in> set (src_unblocks um src dst opts) \<longleftrightarrow>
     (\<exists>p e. considered um src opts p e \<and> a \<in> set (ctUnblocks (src_item opts p e (goget (Entries dst) p))))"
  unfolding src_unblocks_def by (rule in_src_contributions) simp

lemma in_src_mkdirs:
  "a \<in> set (src_mkdirs um src dst opts) \<longleftrightarrow>
     (\<exists>p e. considered um src opts p e \<and> a \<in> set (ctMkdirs (src_item opts p e (goget (Entries dst) p))))"
  unfolding src_mkdirs_def by (rule in_src_contributions) simp

lemma in_src_copies:
  "a \<in> set (src_copies um src dst opts) \<longleftrightarrow>
     (\<exists>p e. considered um src opts p e \<and> a \<in> set (ctCopies (src_item opts p e (goget (Entries dst) p))))"
  unfolding src_copies_def by (rule in_src_contributions) simp

lemma mk_action_simps [simp]:
  "Kind (mk_action k p r) = k" "aRelPath (mk_action k p r) = p" "aSize (mk_action k p r) = 0"
  "Unblock (mk_action k p r) = False" "Overwrite (mk_action k p r) = False"
  "aModTime (mk_action k p r) = zero_time" "Reason (mk_action k p r) = r"
  by (simp_all add: mk_action_def)

lemma copyAction_simps [simp]:
  "Kind (copyAction e r) = ActionCopy" "aRelPath (copyAction e r) = RelPath e"
  "aSize (copyAction e r) = Size e" "aModTime (copyAction e r) = ModTime e"
  "Unblock (copyAction e r) = False" "Overwrite (copyAction e r) = False"
  by (simp_all add: copyAction_def)

lemma item_unblocks:
  "a \<in> set (ctUnblocks (src_item opts p e d)) \<Longrightarrow>
     mirroring opts \<and> Unblock a \<and> aRelPath a = p \<and> Kind a \<in> {ActionDelete, ActionRmDir}
     \<and> \<not> IsSymlink e \<and> (\<exists>d0. d = Some d0 \<and> (IsSymlink d0 \<or> IsDir d0 \<noteq> IsDir e))"
  by (auto simp: src_item_def split: if_splits option.splits)

lemma item_mkdirs:
  "a \<in> set (ctMkdirs (src_item opts p e d)) \<Longrightarrow>
     Kind a = ActionMkDir \<and> \<not> Unblock a \<and> \<not> Overwrite a \<and> aRelPath a = p
     \<and> IsDir e \<and> \<not> IsSymlink e \<and> (case d of None \<Rightarrow> True | Some d0 \<Rightarrow> mirroring opts \<and> (IsSymlink d0 \<or> \<not> IsDir d0))"
  by (auto simp: src_item_def split: if_splits option.splits)

lemma item_copies:
  "a \<in> set (ctCopies (src_item opts p e d)) \<Longrightarrow>
     Kind a = ActionCopy \<and> \<not> Unblock a \<and> aRelPath a = RelPath e \<and> aSize a = Size e
     \<and> aModTime a = ModTime e \<and> \<not> IsDir e \<and> \<not> IsSymlink e
     \<and> (Overwrite a \<longleftrightarrow> (\<exists>d0. d = Some d0 \<and> \<not> IsDir d0 \<and> \<not> IsSymlink d0))"
  by (auto simp: src_item_def split: if_splits option.splits)

lemma item_copies_existing:
  "a \<in> set (ctCopies (src_item opts p e (Some d))) \<Longrightarrow> \<not> IsDir d \<Longrightarrow> \<not> IsSymlink d \<Longrightarrow>
     \<not> sameFile e d opts \<and> (mirroring opts \<or> srcIsNewer e d opts)"
  by (auto simp: src_item_def split: if_splits)

lemma item_lengths:
  "length (ctUnblocks (src_item opts p e d)) \<le> 1"
  "length (ctMkdirs (src_item opts p e d)) \<le> 1"
  "length (ctCopies (src_item opts p e d)) \<le> 1"
  by (auto simp: src_item_def no_contribution_def split: option.splits)

text \<open>Distinct source paths give actions on distinct paths.\<close>

lemma distinct_paths_concat:
  assumes "distinct ps" and "\<And>p. length (f p) \<le> 1"
    and "\<And>p a. a \<in> set (f p) \<Longrightarrow> aRelPath a = p"
  shows "distinct (map aRelPath (concat (map f ps)))"
  using assms(1)
proof (induction ps)
  case Nil
  then show ?case by simp
next
  case (Cons p ps)
  have "distinct (map aRelPath (f p))"
    using assms(2) [of p] by (cases "f p") (auto simp: Suc_le_eq)
  moreover have "set (map aRelPath (f p)) \<inter> set (map aRelPath (concat (map f ps))) = {}"
    using Cons.prems assms(3) by fastforce
  ultimately show ?case using Cons by auto
qed

lemma considered_RelPath: "listing_ok src \<Longrightarrow> considered um src opts p e \<Longrightarrow> RelPath e = p"
  by (auto simp: listing_ok_def considered_def goget_Some_iff)

lemma listing_distinct: "listing_ok src \<Longrightarrow> distinct (sortedKeys (Entries src))"
  by (simp add: listing_ok_def sortedKeys_def gomap_ok_def)

lemma src_contribution_considered:
  "src_contribution um src dst opts p =
     (if (\<exists>e. considered um src opts p e)
      then src_item opts p (the (goget (Entries src) p)) (goget (Entries dst) p) else no_contribution)"
  by (auto simp: src_contribution_def considered_def split: option.splits)

lemma distinct_src_paths:
  assumes "listing_ok src"
  shows "distinct (map aRelPath (src_unblocks um src dst opts))"
    and "distinct (map aRelPath (src_mkdirs um src dst opts))"
    and "distinct (map aRelPath (src_copies um src dst opts))"
proof -
  have len: "length (ctUnblocks (src_contribution um src dst opts p)) \<le> 1"
    "length (ctMkdirs (src_contribution um src dst opts p)) \<le> 1"
    "length (ctCopies (src_contribution um src dst opts p)) \<le> 1" for p
    by (auto simp: src_contribution_considered item_lengths [simplified])
  have rel: "RelPath (the (goget (Entries src) p)) = p" if "considered um src opts p e" for p e
    using that considered_RelPath [OF assms that] by (simp add: considered_def)
  have path: "a \<in> set (ctUnblocks (src_contribution um src dst opts p)) \<Longrightarrow> aRelPath a = p"
    "a \<in> set (ctMkdirs (src_contribution um src dst opts p)) \<Longrightarrow> aRelPath a = p"
    "a \<in> set (ctCopies (src_contribution um src dst opts p)) \<Longrightarrow> aRelPath a = p" for p a
    using rel by (auto simp: src_contribution_considered split: if_splits
        dest: item_unblocks item_mkdirs item_copies)
  show "distinct (map aRelPath (src_unblocks um src dst opts))"
    and "distinct (map aRelPath (src_mkdirs um src dst opts))"
    and "distinct (map aRelPath (src_copies um src dst opts))"
    unfolding src_unblocks_def src_mkdirs_def src_copies_def src_contributions_def map_map comp_def
    by (rule distinct_paths_concat [OF listing_distinct [OF assms]]; use len path in simp)+
qed


section \<open>What the destination loop and \<open>requiredDirs\<close> contribute\<close>

lemma in_extraneous:
  "(p, e) \<in> set (extraneous src dst opts) \<longleftrightarrow>
     goget (Entries dst) p = Some e \<and> goget (Entries src) p = None \<and> opts_admits opts p (IsDir e)"
proof -
  have "p \<in> fst ` set (Entries dst) \<longleftrightarrow> (\<exists>v. goget (Entries dst) p = Some v)"
    using in_keys_goget [of p "Entries dst"] by simp
  then show ?thesis by (auto simp: extraneous_def sortedKeys_def)
qed

lemma in_planned_deletes:
  "a \<in> set (planned_deletes um src dst opts) \<longleftrightarrow>
     (\<exists>p e. a = (mk_action ActionDelete p ''not present at the source'')\<lparr>aSize := Size e\<rparr>
        \<and> (p, e) \<in> set (extraneous src dst opts) \<and> \<not> case_clash um src opts p \<and> \<not> IsDir e)"
  by (auto simp: planned_deletes_def)

lemma in_planned_rmdirs:
  "a \<in> set (planned_rmdirs um src dst opts) \<longleftrightarrow>
     (\<exists>p e. a = mk_action ActionRmDir p ''not present at the source''
        \<and> (p, e) \<in> set (extraneous src dst opts) \<and> \<not> case_clash um src opts p \<and> IsDir e)"
  by (auto simp: planned_rmdirs_def)

lemma required_loop_sound:
  "a \<in> set (required_loop dst hav ds) \<Longrightarrow>
     \<exists>d. a = mk_action ActionMkDir d ''needed for files being copied into it''
       \<and> d \<in> set ds \<and> d \<notin> set hav \<and> \<not> (\<exists>e. goget dst d = Some e \<and> IsDir e)"
  by (induction dst hav ds rule: required_loop.induct) (auto split: if_splits option.splits)

lemma required_loop_complete:
  "d \<in> set ds \<Longrightarrow> d \<in> set hav \<or> (\<exists>e. goget dst d = Some e \<and> IsDir e)
     \<or> mk_action ActionMkDir d ''needed for files being copied into it'' \<in> set (required_loop dst hav ds)"
  by (induction dst hav ds rule: required_loop.induct) (auto split: option.splits)

lemma required_loop_distinct: "distinct (map aRelPath (required_loop dst hav ds))"
  by (induction dst hav ds rule: required_loop.induct)
     (auto dest!: required_loop_sound split: option.splits)

lemma in_requiredDirs:
  assumes "a \<in> set (requiredDirs copies dst planned)"
  shows "\<exists>d. a = mk_action ActionMkDir d ''needed for files being copied into it''
     \<and> (\<exists>c \<in> set copies. beneath d (aRelPath c))
     \<and> d \<notin> aRelPath ` set planned
     \<and> \<not> (\<exists>e. goget (Entries dst) d = Some e \<and> IsDir e)"
  using required_loop_sound [OF assms [unfolded requiredDirs_def]]
  by (auto simp: ancestors_def path_simps)

lemma requiredDirs_complete:
  assumes "c \<in> set copies" and "beneath d (aRelPath c)"
  shows "(\<exists>e. goget (Entries dst) d = Some e \<and> IsDir e)
     \<or> d \<in> aRelPath ` set (planned @ requiredDirs copies dst planned)"
proof -
  have "d \<in> set (concat (map (\<lambda>c. ancestors (aRelPath c)) copies))"
    using assms by (auto simp: ancestors_def path_simps)
  from required_loop_complete [OF this, of "map aRelPath planned" "Entries dst"] show ?thesis
    unfolding requiredDirs_def by (force simp: image_iff)
qed

lemma distinct_all_mkdirs:
  assumes "listing_ok src"
  shows "distinct (map aRelPath (all_mkdirs um src dst opts))"
proof -
  have "aRelPath ` set (src_mkdirs um src dst opts)
        \<inter> aRelPath ` set (requiredDirs (src_copies um src dst opts) dst (src_mkdirs um src dst opts)) = {}"
    by (auto dest!: in_requiredDirs simp: image_iff)
  then show ?thesis
    using distinct_src_paths(2) [OF assms] required_loop_distinct
    by (auto simp: all_mkdirs_def requiredDirs_def)
qed


section \<open>Sample listings\<close>

text \<open>Concrete listings for the witnesses.\<close>

definition file_entry :: "string \<Rightarrow> int \<Rightarrow> gotime \<Rightarrow> entry" where
  "file_entry p n t = \<lparr>RelPath = p, Size = n, ModTime = t, IsDir = False, IsSymlink = False\<rparr>"

definition dir_entry :: "string \<Rightarrow> entry" where
  "dir_entry p = \<lparr>RelPath = p, Size = 0, ModTime = zero_time, IsDir = True, IsSymlink = False\<rparr>"

definition link_entry :: "string \<Rightarrow> entry" where
  "link_entry p = \<lparr>RelPath = p, Size = 0, ModTime = zero_time, IsDir = False, IsSymlink = True\<rparr>"

definition listing :: "entry list \<Rightarrow> scan_result" where
  "listing es =
     \<lparr>Entries = map (\<lambda>e. (RelPath e, e)) es, Files = 0, Dirs = 0, Bytes = 0, Symlinks = [],
      Vanished = [], Errors = [], Pruned = [], Truncated = False\<rparr>"

definition sample_opts :: "sync_mode \<Rightarrow> diff_options" where
  "sample_opts m =
     \<lparr>Mode = m, Tolerance = 2000000000, IgnoreDSTHour = False, CaseInsensitiveDest = False,
      Filter = None\<rparr>"

definition sample_src :: scan_result where
  "sample_src = listing [dir_entry ''a'', file_entry ''a/f'' 3 50]"

definition sample_dst :: scan_result where
  "sample_dst = listing [file_entry ''b'' 1 0]"

lemma sample_listing_ok: "listing_ok sample_src" "listing_ok sample_dst"
  by (simp_all add: listing_ok_def gomap_ok_def sample_src_def sample_dst_def listing_def
      dir_entry_def file_entry_def)

lemma sample_mirror_Actions:
  "map (\<lambda>a. (Kind a, aRelPath a)) (Actions (Diff id sample_src sample_dst (sample_opts ModeMirror)))
   = [(ActionMkDir, ''a''), (ActionCopy, ''a/f''), (ActionDelete, ''b'')]"
  by code_simp

end
