(* ===== verification/Engine_Scan.thy ===== *)
theory Engine_Scan
  imports Engine_Diff "HOL-Library.Multiset"
begin

text \<open>
  The scanner, \<^verbatim>\<open>src/internal/engine/scanner.go\<close>: \<open>Scanner.Scan\<close> walks a tree with many
  goroutines and collects a listing.

  The file system is the parameter \<open>scan_env\<close>: what listing a directory and what a stat of a
  path return (a timeout of the bounded calls in \<^verbatim>\<open>src/internal/engine/bounded.go\<close> is one of
  the errors). A goroutine is the stack of its \<open>walk\<close> calls, because a walk whose child finds
  no free slot continues inline; the goroutines interleave one \<open>walk_step\<close> at a time. A loop
  iteration is two steps, the check against \<open>Limit\<close> and the recording of the entry, since
  other walkers may run between the two. The semaphore \<open>sem\<close> delays a directory read and has
  no other effect: a read is one step here.
\<close>

section \<open>Model\<close>

datatype dirtype = DeSymlink | DeDir | DeOther

record dirent =
  deName :: string
  deType :: dirtype

record scan_env =
  ReadDir :: "string \<Rightarrow> goerr + dirent list"
  Info :: "string \<Rightarrow> goerr + int \<times> gotime"

record scanner =
  scWorkers :: int
  scLimit :: int
  scPrune :: "(string \<Rightarrow> bool) option"
  scOnProgress :: bool

text \<open>Where one call of \<open>walk\<close> stands: at its start, at the head of its loop, and past the
  checks of one iteration.\<close>

datatype frame =
    Enter string
  | Loop string "dirent list"
  | Item string dirent "dirent list"

record scan_state =
  ssResult :: scan_result
  ssFiles :: int
  ssDirs :: int
  ssBytes :: int
  ssTruncated :: bool
  ssCancelled :: bool
  ssProgress :: "(int \<times> int \<times> int) list"
  ssRoutines :: "frame list list"

definition DefaultScanWorkers :: int where "DefaultScanWorkers = 12"

definition scan_workers :: "scanner \<Rightarrow> int" where
  "scan_workers sc = (if scWorkers sc \<le> 0 then DefaultScanWorkers else scWorkers sc)"

text \<open>The capacity of the channel \<open>spawn\<close>, one token per live goroutine.\<close>

definition spawn_budget :: "scanner \<Rightarrow> nat" where
  "spawn_budget sc = nat (scan_workers sc * 4)"

definition pruned :: "scanner \<Rightarrow> string \<Rightarrow> bool" where
  "pruned sc rel = (case scPrune sc of None \<Rightarrow> False | Some f \<Rightarrow> f rel)"

definition limit_reached :: "scanner \<Rightarrow> scan_state \<Rightarrow> bool" where
  "limit_reached sc st \<longleftrightarrow> scLimit sc > 0 \<and> ssFiles st + ssDirs st \<ge> scLimit sc"

abbreviation on_result :: "(scan_result \<Rightarrow> scan_result) \<Rightarrow> scan_state \<Rightarrow> scan_state" where
  "on_result f st \<equiv> st\<lparr>ssResult := f (ssResult st)\<rparr>"

definition add_error :: "string \<Rightarrow> goerr \<Rightarrow> scan_state \<Rightarrow> scan_state" where
  "add_error rel e = on_result (\<lambda>r. r\<lparr>Errors := Errors r @ [\<lparr>seRelPath = rel, seErr = e\<rparr>]\<rparr>)"

definition put_entry :: "entry \<Rightarrow> scan_state \<Rightarrow> scan_state" where
  "put_entry e = on_result (\<lambda>r. r\<lparr>Entries := goput (RelPath e) e (Entries r)\<rparr>)"

definition link_at :: "string \<Rightarrow> entry" where
  "link_at p = \<lparr>RelPath = p, Size = 0, ModTime = zero_time, IsDir = False, IsSymlink = True\<rparr>"

definition dir_at :: "string \<Rightarrow> entry" where
  "dir_at p = \<lparr>RelPath = p, Size = 0, ModTime = zero_time, IsDir = True, IsSymlink = False\<rparr>"

definition file_at :: "string \<Rightarrow> int \<Rightarrow> gotime \<Rightarrow> entry" where
  "file_at p s m = \<lparr>RelPath = p, Size = s, ModTime = m, IsDir = False, IsSymlink = False\<rparr>"

text \<open>The body of one iteration for the entry at \<open>p\<close>: the new state, and the directory to
  descend into.\<close>

definition record_item ::
  "scan_env \<Rightarrow> scanner \<Rightarrow> string \<Rightarrow> dirtype \<Rightarrow> scan_state \<Rightarrow> scan_state \<times> string option" where
  "record_item env sc p t st =
     (case t of
        DeSymlink \<Rightarrow>
          (put_entry (link_at p) (on_result (\<lambda>r. r\<lparr>Symlinks := Symlinks r @ [p]\<rparr>) st), None)
      | DeDir \<Rightarrow>
          if pruned sc p then (on_result (\<lambda>r. r\<lparr>Pruned := Pruned r @ [p]\<rparr>) st, None)
          else ((put_entry (dir_at p) st)\<lparr>ssDirs := ssDirs st + 1\<rparr>, Some p)
      | DeOther \<Rightarrow>
          (case Info env p of
             Inl e \<Rightarrow>
               if errors_Is e ErrNotExist
               then (on_result (\<lambda>r. r\<lparr>Vanished := Vanished r @ [p]\<rparr>) st, None)
               else (add_error p e st, None)
           | Inr (s, m) \<Rightarrow>
               ((put_entry (file_at p s m) st)
                  \<lparr>ssFiles := ssFiles st + 1, ssBytes := wrap64 (ssBytes st + s)\<rparr>, None)))"

text \<open>One step of the innermost \<open>walk\<close> call of a goroutine: the new state, what replaces the
  frame, and the directory handed to \<open>walkAsync\<close>.\<close>

fun frame_step ::
  "scan_env \<Rightarrow> scanner \<Rightarrow> frame \<Rightarrow> scan_state \<Rightarrow> scan_state \<times> frame list \<times> string option" where
  "frame_step env sc (Enter rel) st =
     (if ssCancelled st then (st, [], None)
      else case ReadDir env rel of
             Inl e \<Rightarrow> (add_error rel e st, [], None)
           | Inr des \<Rightarrow> (st, [Loop rel des], None))"
| "frame_step env sc (Loop rel []) st =
     (if scOnProgress sc
      then (st\<lparr>ssProgress := ssProgress st @ [(ssFiles st, ssDirs st, ssBytes st)]\<rparr>, [], None)
      else (st, [], None))"
| "frame_step env sc (Loop rel (de # des)) st =
     (if ssCancelled st then (st, [], None)
      else if limit_reached sc st then (st\<lparr>ssTruncated := True\<rparr>, [], None)
      else (st, [Item rel de des], None))"
| "frame_step env sc (Item rel de des) st =
     (let (st', down) = record_item env sc (child rel (deName de)) (deType de) st
      in (st', [Loop rel des], down))"

text \<open>\<open>walkAsync\<close>: a new goroutine when the budget allows, otherwise inline on goroutine
  \<open>i\<close>.\<close>

definition walkAsync :: "scanner \<Rightarrow> nat \<Rightarrow> string \<Rightarrow> scan_state \<Rightarrow> scan_state" where
  "walkAsync sc i rel st =
     (if length (ssRoutines st) < spawn_budget sc
      then st\<lparr>ssRoutines := ssRoutines st @ [[Enter rel]]\<rparr>
      else st\<lparr>ssRoutines := (ssRoutines st)[i := Enter rel # ssRoutines st ! i]\<rparr>)"

text \<open>Goroutine \<open>i\<close> makes one step; one whose stack is empty returns its token and ends.\<close>

definition walk_step :: "scan_env \<Rightarrow> scanner \<Rightarrow> nat \<Rightarrow> scan_state \<Rightarrow> scan_state" where
  "walk_step env sc i st =
     (case ssRoutines st ! i of
        [] \<Rightarrow> st\<lparr>ssRoutines := take i (ssRoutines st) @ drop (Suc i) (ssRoutines st)\<rparr>
      | f # g \<Rightarrow>
          (let (st1, k, down) = frame_step env sc f st;
               st2 = st1\<lparr>ssRoutines := (ssRoutines st1)[i := k @ g]\<rparr>
           in case down of None \<Rightarrow> st2 | Some rel \<Rightarrow> walkAsync sc i rel st2))"

definition empty_result :: scan_result where
  "empty_result = \<lparr>Entries = [], Files = 0, Dirs = 0, Bytes = 0, Symlinks = [], Vanished = [],
     Errors = [], Pruned = [], Truncated = False\<rparr>"

definition scan_init :: scan_state where
  "scan_init = \<lparr>ssResult = empty_result, ssFiles = 0, ssDirs = 0, ssBytes = 0,
     ssTruncated = False, ssCancelled = False, ssProgress = [], ssRoutines = [[Enter []]]\<rparr>"

inductive scan_step :: "scan_env \<Rightarrow> scanner \<Rightarrow> scan_state \<Rightarrow> scan_state \<Rightarrow> bool"
  for env sc where
  routine: "i < length (ssRoutines st) \<Longrightarrow> scan_step env sc st (walk_step env sc i st)"
| cancel: "\<not> ssCancelled st \<Longrightarrow> scan_step env sc st (st\<lparr>ssCancelled := True\<rparr>)"

text \<open>What \<open>Scan\<close> returns once \<open>wg.Wait\<close> lets it continue.\<close>

definition Scan_return :: "string \<Rightarrow> scan_state \<Rightarrow> goerr + scan_result" where
  "Scan_return root st =
     (if ssCancelled st
      then Inl (wrap (''scanning '' @ root @ '' was cancelled: '') (new_error ''context canceled'' [Canceled]))
      else Inr ((ssResult st)\<lparr>Truncated := ssTruncated st, Files := ssFiles st,
                 Dirs := ssDirs st, Bytes := ssBytes st\<rparr>))"

definition Scan :: "scan_env \<Rightarrow> scanner \<Rightarrow> string \<Rightarrow> goerr + scan_result \<Rightarrow> bool" where
  "Scan env sc root out \<longleftrightarrow>
     (\<exists>st. (scan_step env sc)\<^sup>*\<^sup>* scan_init st \<and> ssRoutines st = [] \<and> out = Scan_return root st)"

text \<open>A given interleaving, for evaluation: the indices of the goroutines that step (an index
  without a goroutine is passed over).\<close>

fun run_schedule :: "scan_env \<Rightarrow> scanner \<Rightarrow> nat list \<Rightarrow> scan_state \<Rightarrow> scan_state" where
  "run_schedule env sc [] st = st"
| "run_schedule env sc (i # is) st =
     run_schedule env sc is (if i < length (ssRoutines st) then walk_step env sc i st else st)"

lemma run_schedule_steps: "(scan_step env sc)\<^sup>*\<^sup>* st (run_schedule env sc is st)"
proof (induction "is" arbitrary: st)
  case (Cons i "is")
  then show ?case
    by (auto intro: converse_rtranclp_into_rtranclp [of "scan_step env sc"] scan_step.routine)
qed simp


section \<open>What a complete listing is\<close>

text \<open>The directories an unbounded walk enters, and what it finds in them.\<close>

inductive walked :: "scan_env \<Rightarrow> (string \<Rightarrow> bool) \<Rightarrow> string \<Rightarrow> bool" for env prune where
  walked_root: "walked env prune []"
| walked_down: "walked env prune rel \<Longrightarrow> ReadDir env rel = Inr des \<Longrightarrow> de \<in> set des \<Longrightarrow>
    deType de = DeDir \<Longrightarrow> \<not> prune (child rel (deName de)) \<Longrightarrow> walked env prune (child rel (deName de))"

definition found :: "scan_env \<Rightarrow> (string \<Rightarrow> bool) \<Rightarrow> string \<Rightarrow> dirtype \<Rightarrow> bool" where
  "found env prune p t \<longleftrightarrow> (\<exists>rel des de. walked env prune rel \<and> ReadDir env rel = Inr des
     \<and> de \<in> set des \<and> p = child rel (deName de) \<and> t = deType de)"

text \<open>The entry that stands for what was found at a path, if there is one.\<close>

definition entry_of :: "scan_env \<Rightarrow> (string \<Rightarrow> bool) \<Rightarrow> string \<Rightarrow> dirtype \<Rightarrow> entry option" where
  "entry_of env prune p t =
     (case t of
        DeSymlink \<Rightarrow> Some (link_at p)
      | DeDir \<Rightarrow> if prune p then None else Some (dir_at p)
      | DeOther \<Rightarrow> (case Info env p of Inl e \<Rightarrow> None | Inr (s, m) \<Rightarrow> Some (file_at p s m)))"

definition listed :: "scan_env \<Rightarrow> (string \<Rightarrow> bool) \<Rightarrow> string \<Rightarrow> entry \<Rightarrow> bool" where
  "listed env prune p e \<longleftrightarrow> (\<exists>t. found env prune p t \<and> entry_of env prune p t = Some e)"

definition unreadable :: "scan_env \<Rightarrow> (string \<Rightarrow> bool) \<Rightarrow> string \<Rightarrow> goerr \<Rightarrow> bool" where
  "unreadable env prune p e \<longleftrightarrow>
     walked env prune p \<and> ReadDir env p = Inl e
     \<or> found env prune p DeOther \<and> Info env p = Inl e \<and> \<not> errors_Is e ErrNotExist"

text \<open>Directory listings as operating systems give them: proper, distinct names.\<close>

definition fs_ok :: "scan_env \<Rightarrow> bool" where
  "fs_ok env \<longleftrightarrow> (\<forall>rel des. ReadDir env rel = Inr des \<longrightarrow>
     distinct (map deName des) \<and> (\<forall>de \<in> set des. deName de \<noteq> [] \<and> slash \<notin> set (deName de)))"

text \<open>Directories nest at most \<open>n\<close> deep.\<close>

definition level :: "string \<Rightarrow> nat" where
  "level p = (if p = [] then 0 else Suc (depth p))"

definition fs_bounded :: "scan_env \<Rightarrow> nat \<Rightarrow> bool" where
  "fs_bounded env n \<longleftrightarrow> (\<forall>rel des. ReadDir env rel = Inr des \<longrightarrow>
     (\<forall>de \<in> set des. deType de = DeDir \<longrightarrow> level (child rel (deName de)) \<le> n))"


section \<open>Interleavings as multisets of frames\<close>

text \<open>Which goroutine holds a frame does not matter to the result, only which frames there are.\<close>

definition frames :: "scan_state \<Rightarrow> frame multiset" where
  "frames st = mset (concat (ssRoutines st))"

definition entered :: "string option \<Rightarrow> frame multiset" where
  "entered d = (case d of None \<Rightarrow> {#} | Some rel \<Rightarrow> {#Enter rel#})"

lemma mset_concat_at:
  assumes "i < length xs"
  shows "mset (concat xs) = mset (xs ! i) + mset (concat (take i xs @ drop (Suc i) xs))"
  by (subst id_take_nth_drop [OF assms]) (simp add: ac_simps)

lemma mset_concat_update:
  assumes "i < length xs"
  shows "mset (concat (xs[i := g])) = mset g + mset (concat (take i xs @ drop (Suc i) xs))"
  by (simp add: upd_conv_take_nth_drop [OF assms] ac_simps)

lemma frame_step_routines:
  "frame_step env sc f st = (st1, k, d) \<Longrightarrow> ssRoutines st1 = ssRoutines st"
  by (cases "(env, sc, f, st)" rule: frame_step.cases)
     (auto simp: record_item_def put_entry_def add_error_def
       split: if_splits sum.splits dirtype.splits prod.splits)

lemma walk_step_frames:
  assumes "i < length (ssRoutines st)"
  obtains (stays) R where "walk_step env sc i st = st\<lparr>ssRoutines := R\<rparr>" "mset (concat R) = frames st"
      "length R < length (ssRoutines st)"
  | (moves) f F st1 k d R where "frames st = add_mset f F" "frame_step env sc f st = (st1, k, d)"
      "walk_step env sc i st = st1\<lparr>ssRoutines := R\<rparr>" "mset (concat R) = F + mset k + entered d"
      "length R = length (ssRoutines st) + (if d \<noteq> None \<and> length (ssRoutines st) < spawn_budget sc then 1 else 0)"
proof (cases "ssRoutines st ! i")
  case Nil
  let ?R = "take i (ssRoutines st) @ drop (Suc i) (ssRoutines st)"
  have "mset (concat ?R) = frames st" using mset_concat_at [OF assms] Nil by (simp add: frames_def)
  moreover have "length ?R < length (ssRoutines st)" using assms by simp
  ultimately show thesis using Nil by (intro stays [of ?R]) (simp_all add: walk_step_def)
next
  case (Cons f g)
  let ?rest = "mset (concat (take i (ssRoutines st) @ drop (Suc i) (ssRoutines st)))"
  obtain st1 k d where fs: "frame_step env sc f st = (st1, k, d)" by (cases "frame_step env sc f st") auto
  note r1 = frame_step_routines [OF fs]
  have F: "frames st = add_mset f (mset g + ?rest)"
    using mset_concat_at [OF assms] Cons by (simp add: frames_def)
  let ?R2 = "(ssRoutines st)[i := k @ g]"
  have R2: "mset (concat ?R2) = mset g + ?rest + mset k"
    using mset_concat_update [OF assms, of "k @ g"] by (simp add: ac_simps)
  show thesis
  proof (cases d)
    case None
    then show thesis
      using moves [OF F fs, of ?R2] R2 Cons fs r1 by (simp add: walk_step_def entered_def)
  next
    case (Some rel)
    define R where "R = (if length ?R2 < spawn_budget sc then ?R2 @ [[Enter rel]] else ?R2[i := Enter rel # ?R2 ! i])"
    have "walk_step env sc i st = st1\<lparr>ssRoutines := R\<rparr>"
      using Cons fs r1 Some by (simp add: walk_step_def walkAsync_def R_def)
    moreover have "length R = length (ssRoutines st) + (if d \<noteq> None \<and> length (ssRoutines st) < spawn_budget sc then 1 else 0)"
      by (simp add: R_def Some)
    moreover have "mset (concat R) = mset g + ?rest + mset k + entered d"
      using R2 assms mset_concat_update [OF assms, of "Enter rel # k @ g"] by (simp add: R_def Some entered_def)
    ultimately show thesis using moves [OF F fs] by simp
  qed
qed

text \<open>The induction principle for what a scan keeps: an invariant of the state, apart from its
  goroutines, and of the multiset of frames.\<close>

lemma scan_invariant:
  assumes reach: "(scan_step env sc)\<^sup>*\<^sup>* scan_init st"
    and init: "I scan_init {#Enter []#}"
    and routines: "\<And>st R F. I st F \<Longrightarrow> I (st\<lparr>ssRoutines := R\<rparr>) F"
    and step: "\<And>st f F st1 k d. I st (add_mset f F) \<Longrightarrow> frame_step env sc f st = (st1, k, d) \<Longrightarrow>
      I st1 (F + mset k + entered d)"
    and cancel: "\<And>st F. I st F \<Longrightarrow> \<not> ssCancelled st \<Longrightarrow> I (st\<lparr>ssCancelled := True\<rparr>) F"
  shows "I st (frames st)"
  using reach
proof (induction rule: rtranclp_induct)
  case base
  then show ?case using init by (simp add: frames_def scan_init_def)
next
  case (step st st')
  from step.hyps(2) show ?case
  proof cases
    case (routine i)
    from routine(2) show ?thesis
    proof (cases rule: walk_step_frames [where env = env and sc = sc, consumes 1])
      case (stays R)
      then show ?thesis using routine(1) routines [OF step.IH] by (simp add: frames_def)
    next
      case (moves f F st1 k d R)
      then show ?thesis
        using routine(1) routines [OF assms(4) [OF step.IH [unfolded moves(1)] moves(2)]]
        by (simp add: frames_def)
    qed
  next
    case cancel
    then show ?thesis using assms(5) [OF step.IH] by (simp add: frames_def)
  qed
qed


section \<open>What a scan keeps\<close>

text \<open>A frame is a directory being walked, before or after its listing was read, and the
  entries still to be recorded.\<close>

fun open_dir :: "frame \<Rightarrow> string \<times> dirent list option" where
  "open_dir (Enter rel) = (rel, None)"
| "open_dir (Loop rel des) = (rel, Some des)"
| "open_dir (Item rel de des) = (rel, Some (de # des))"

abbreviation opens :: "frame multiset \<Rightarrow> (string \<times> dirent list option) multiset" where
  "opens F \<equiv> image_mset open_dir F"

abbreviation "entry_at st \<equiv> goget (Entries (ssResult st))"

definition visited :: "scan_state \<Rightarrow> string \<Rightarrow> bool" where
  "visited st rel \<longleftrightarrow> rel = [] \<or> entry_at st rel = Some (dir_at rel)"

definition proper :: "string \<Rightarrow> bool" where
  "proper n \<longleftrightarrow> n \<noteq> [] \<and> slash \<notin> set n"

lemma fs_okD:
  assumes "fs_ok env" "ReadDir env rel = Inr des"
  shows "distinct (map deName des)" "de \<in> set des \<Longrightarrow> proper (deName de)"
  using assms unfolding fs_ok_def proper_def by blast+

lemma child_inject: "proper n \<Longrightarrow> proper n' \<Longrightarrow> child d n = child d' n' \<Longrightarrow> d = d' \<and> n = n'"
  by (auto simp: child_def proper_def append_eq_append_conv2 Cons_eq_append_conv append_eq_Cons_conv
      split: if_splits)

lemma child_nonempty: "proper n \<Longrightarrow> child d n \<noteq> []"
  by (auto simp: child_def proper_def)

lemma level_child: "proper n \<Longrightarrow> level (child d n) = Suc (level d)"
  by (auto simp: level_def child_def proper_def depth_def Count1_def filter_empty_conv)

text \<open>What was found at a path, and the entry for it, are unique.\<close>

lemma found_unique: "fs_ok env \<Longrightarrow> found env P p t \<Longrightarrow> found env P p t' \<Longrightarrow> t = t'"
  unfolding found_def
  by clarify (metis child_inject fs_okD eq_key_imp_eq_value distinct_map inj_on_def Inr_inject)

lemma listed_unique: "fs_ok env \<Longrightarrow> listed env P p e \<Longrightarrow> listed env P p e' \<Longrightarrow> e = e'"
  unfolding listed_def by (metis found_unique option.inject)

text \<open>How one step changes the open directories.\<close>

inductive opens_step ::
  "scan_env \<Rightarrow> scanner \<Rightarrow> scan_state \<Rightarrow> (string \<times> dirent list option) multiset \<Rightarrow>
   scan_state \<Rightarrow> (string \<times> dirent list option) multiset \<Rightarrow> bool" for env sc where
  idle: "opens_step env sc st Os st Os"
| drop: "ssCancelled st' \<or> ssTruncated st' \<or> snd x = Some [] \<Longrightarrow> ssResult st' = ssResult st \<Longrightarrow>
    ssFiles st' = ssFiles st \<Longrightarrow> ssDirs st' = ssDirs st \<Longrightarrow> ssBytes st' = ssBytes st \<Longrightarrow>
    ssCancelled st' = ssCancelled st \<Longrightarrow> (ssTruncated st \<Longrightarrow> ssTruncated st') \<Longrightarrow>
    opens_step env sc st (add_mset x Os) st' Os"
| fail: "ReadDir env rel = Inl e \<Longrightarrow> opens_step env sc st (add_mset (rel, None) Os) (add_error rel e st) Os"
| read: "ReadDir env rel = Inr des \<Longrightarrow>
    opens_step env sc st (add_mset (rel, None) Os) st (add_mset (rel, Some des) Os)"
| item: "record_item env sc (child rel (deName de)) (deType de) st = (st', d) \<Longrightarrow>
    opens_step env sc st (add_mset (rel, Some (de # des)) Os) st'
      (add_mset (rel, Some des) Os + opens (entered d))"

lemma frame_step_opens:
  assumes "frame_step env sc f st = (st1, k, d)"
  shows "opens_step env sc st (opens (add_mset f F)) st1 (opens (F + mset k + entered d))"
proof (cases "(env, sc, f, st)" rule: frame_step.cases)
  case (1 env sc rel st)
  then show ?thesis using assms
    by (auto simp: entered_def split: if_splits sum.splits intro: opens_step.intros)
next
  case (2 env sc rel st)
  then show ?thesis using assms
    by (auto simp: entered_def split: if_splits intro!: opens_step.drop)
next
  case (3 env sc rel de des st)
  then show ?thesis using assms
    by (auto simp: entered_def split: if_splits intro: opens_step.drop opens_step.idle)
next
  case (4 env sc rel de des st)
  then show ?thesis using assms opens_step.item [of env sc rel de st st1 d des "opens F"]
    by (auto split: prod.splits)
qed


text \<open>Soundness: whatever has been recorded belongs into the listing, and the open directories
  are being walked.\<close>

definition scan_sound ::
  "scan_env \<Rightarrow> scanner \<Rightarrow> scan_state \<Rightarrow> (string \<times> dirent list option) multiset \<Rightarrow> bool" where
  "scan_sound env sc st Os \<longleftrightarrow>
     (\<forall>p e. entry_at st p = Some e \<longrightarrow> listed env (pruned sc) p e)
     \<and> (\<forall>x \<in> set (Errors (ssResult st)). unreadable env (pruned sc) (seRelPath x) (seErr x))
     \<and> (\<forall>p \<in> set (Pruned (ssResult st)). found env (pruned sc) p DeDir \<and> pruned sc p)
     \<and> (\<forall>(rel, u) \<in># Os. walked env (pruned sc) rel
          \<and> (\<forall>des. u = Some des \<longrightarrow> (\<exists>pre. ReadDir env rel = Inr (pre @ des))))"

definition open_once :: "(string \<times> dirent list option) multiset \<Rightarrow> bool" where
  "open_once Os \<longleftrightarrow> (\<forall>rel. count (image_mset fst Os) rel \<le> 1)"

lemma open_once_simps [simp]:
  "open_once {#}" "open_once (add_mset x Os) \<longleftrightarrow> open_once Os \<and> fst x \<notin> fst ` set_mset Os"
proof -
  show "open_once (add_mset x Os) \<longleftrightarrow> open_once Os \<and> fst x \<notin> fst ` set_mset Os"
  proof
    assume o: "open_once (add_mset x Os)"
    have "count (image_mset fst Os) (fst x) = 0"
      using o [unfolded open_once_def, rule_format, of "fst x"] by simp
    then have "fst x \<notin> fst ` set_mset Os" by (metis count_eq_zero_iff set_image_mset)
    moreover have "count (image_mset fst Os) r \<le> 1" for r
      using o [unfolded open_once_def, rule_format, of r] by (simp split: if_splits)
    ultimately show "open_once Os \<and> fst x \<notin> fst ` set_mset Os" unfolding open_once_def by blast
  next
    assume o: "open_once Os \<and> fst x \<notin> fst ` set_mset Os"
    then have "count (image_mset fst Os) (fst x) = 0" by (metis count_eq_zero_iff set_image_mset)
    with o show "open_once (add_mset x Os)" by (simp add: open_once_def)
  qed
qed (simp add: open_once_def)

text \<open>Freshness: an open directory is open once, and what is still to be recorded is not
  recorded yet.\<close>

definition scan_fresh ::
  "scan_env \<Rightarrow> scan_state \<Rightarrow> (string \<times> dirent list option) multiset \<Rightarrow> bool" where
  "scan_fresh env st Os \<longleftrightarrow>
     gomap_ok (Entries (ssResult st))
     \<and> open_once Os
     \<and> (\<forall>p e. entry_at st p = Some e \<longrightarrow> (\<exists>rel n. p = child rel n \<and> proper n \<and> visited st rel))
     \<and> (\<forall>(rel, u) \<in># Os. visited st rel
          \<and> (u = None \<longrightarrow> (\<forall>n. proper n \<longrightarrow> entry_at st (child rel n) = None))
          \<and> (\<forall>des. u = Some des \<longrightarrow> (\<forall>de \<in> set des. entry_at st (child rel (deName de)) = None)))"

text \<open>Completeness: nothing of a visited directory has been forgotten, unless the walk was
  told to stop.\<close>

definition recorded :: "scan_env \<Rightarrow> scanner \<Rightarrow> scan_state \<Rightarrow> string \<Rightarrow> dirtype \<Rightarrow> bool" where
  "recorded env sc st p t \<longleftrightarrow>
     (\<forall>e. entry_of env (pruned sc) p t = Some e \<longrightarrow> entry_at st p = Some e)
     \<and> (t = DeDir \<longrightarrow> pruned sc p \<longrightarrow> p \<in> set (Pruned (ssResult st)))
     \<and> (\<forall>e. t = DeOther \<longrightarrow> Info env p = Inl e \<longrightarrow> \<not> errors_Is e ErrNotExist \<longrightarrow>
          \<lparr>seRelPath = p, seErr = e\<rparr> \<in> set (Errors (ssResult st)))"

definition settled ::
  "scan_env \<Rightarrow> scanner \<Rightarrow> scan_state \<Rightarrow> (string \<times> dirent list option) multiset \<Rightarrow> string \<Rightarrow> bool" where
  "settled env sc st Os rel \<longleftrightarrow>
     (rel, None) \<in># Os
     \<or> (\<exists>e. ReadDir env rel = Inl e \<and> \<lparr>seRelPath = rel, seErr = e\<rparr> \<in> set (Errors (ssResult st)))
     \<or> (\<exists>all. ReadDir env rel = Inr all
          \<and> (\<forall>de \<in> set all. (\<exists>des. (rel, Some des) \<in># Os \<and> de \<in> set des)
               \<or> recorded env sc st (child rel (deName de)) (deType de)))"

definition scan_done ::
  "scan_env \<Rightarrow> scanner \<Rightarrow> scan_state \<Rightarrow> (string \<times> dirent list option) multiset \<Rightarrow> bool" where
  "scan_done env sc st Os \<longleftrightarrow>
     ssCancelled st \<or> ssTruncated st \<or> (\<forall>rel. visited st rel \<longrightarrow> settled env sc st Os rel)"

text \<open>One recorded entry, seen through \<open>entry_of\<close>.\<close>

lemma record_item_some:
  assumes "record_item env sc p t st = (st', d)" "entry_of env (pruned sc) p t = Some e"
  shows "Entries (ssResult st') = goput p e (Entries (ssResult st))"
    "Errors (ssResult st') = Errors (ssResult st)" "Pruned (ssResult st') = Pruned (ssResult st)"
    "d = (if t = DeDir then Some p else None)" "IsDir e = (t = DeDir)" "RelPath e = p"
    "t = DeDir \<Longrightarrow> e = dir_at p" "ssCancelled st' = ssCancelled st" "ssTruncated st' = ssTruncated st"
  using assms
  by (auto simp: record_item_def entry_of_def put_entry_def link_at_def dir_at_def file_at_def
      split: dirtype.splits if_splits sum.splits)

lemma record_item_none:
  assumes "record_item env sc p t st = (st', d)" "entry_of env (pruned sc) p t = None"
  shows "Entries (ssResult st') = Entries (ssResult st)" "d = None"
    "set (Errors (ssResult st')) = set (Errors (ssResult st)) \<union>
       {\<lparr>seRelPath = p, seErr = e\<rparr> | e. t = DeOther \<and> Info env p = Inl e \<and> \<not> errors_Is e ErrNotExist}"
    "set (Pruned (ssResult st')) = set (Pruned (ssResult st)) \<union> {p' \<in> {p}. t = DeDir \<and> pruned sc p'}"
    "ssCancelled st' = ssCancelled st" "ssTruncated st' = ssTruncated st"
  using assms
  by (auto simp: record_item_def entry_of_def add_error_def
      split: dirtype.splits if_splits sum.splits)

lemma entered_simps [simp]: "entered None = {#}" "entered (Some rel) = {#Enter rel#}"
  by (simp_all add: entered_def)

lemma scan_sound_step:
  assumes "opens_step env sc st Os st' Os'" and "scan_sound env sc st Os"
  shows "scan_sound env sc st' Os'"
  using assms
proof (induction rule: opens_step.induct)
  case (drop st' x st Os)
  then show ?case by (simp add: scan_sound_def)
next
  case (fail rel e st Os)
  then show ?case by (auto simp: scan_sound_def add_error_def unreadable_def)
next
  case (read rel des st Os)
  then show ?case by (auto simp: scan_sound_def)
next
  case (item rel de st st' d des Os)
  let ?p = "child rel (deName de)"
  note inv = item.prems
  have w: "walked env (pruned sc) rel" and "\<exists>pre. ReadDir env rel = Inr (pre @ de # des)"
    using inv by (auto simp: scan_sound_def)
  then obtain pre where rd: "ReadDir env rel = Inr (pre @ de # des)" by blast
  have f: "found env (pruned sc) ?p (deType de)" unfolding found_def using w rd by fastforce
  have tail: "\<exists>pre. ReadDir env rel = Inr (pre @ des)" using rd by (intro exI [of _ "pre @ [de]"]) simp
  show ?case
  proof (cases "entry_of env (pruned sc) ?p (deType de)")
    case None
    note r = record_item_none [OF item.hyps None]
    show ?thesis using inv f tail w unfolding scan_sound_def r
      by (auto simp: unreadable_def)
  next
    case (Some e)
    note r = record_item_some [OF item.hyps Some]
    have l: "listed env (pruned sc) ?p e" using f Some by (auto simp: listed_def)
    have "deType de = DeDir \<Longrightarrow> walked env (pruned sc) ?p"
      using Some rd by (intro walked_down [OF w rd]) (auto simp: entry_of_def split: if_splits)
    then show ?thesis using inv l tail w unfolding scan_sound_def r
      by (auto simp: update_conv')
  qed
qed simp


lemma visited_put: "visited st rel \<Longrightarrow> entry_at st p = None \<Longrightarrow>
    Entries (ssResult st') = goput p e (Entries (ssResult st)) \<Longrightarrow> visited st' rel"
  by (auto simp: visited_def update_conv')

lemma visited_same: "Entries (ssResult st') = Entries (ssResult st) \<Longrightarrow> visited st' rel = visited st rel"
  by (simp add: visited_def)

lemma scan_fresh_item:
  assumes ok: "fs_ok env" and r: "record_item env sc (child rel (deName de)) (deType de) st = (st', d)"
    and inv: "scan_fresh env st (add_mset (rel, Some (de # des)) Os)"
    and rd: "ReadDir env rel = Inr (pre @ de # des)"
    and rds: "\<And>r us. (r, Some us) \<in># Os \<Longrightarrow> \<exists>pre. ReadDir env r = Inr (pre @ us)"
    and Some: "entry_of env (pruned sc) (child rel (deName de)) (deType de) = Some e"
  shows "scan_fresh env st' (add_mset (rel, Some des) Os + opens (entered d))"
proof -
  let ?p = "child rel (deName de)"
  note r = record_item_some [OF r Some]
  have pn: "proper (deName de)" using fs_okD(2) [OF ok rd] by simp
  have new: "entry_at st ?p = None" and vr: "visited st rel" and cnt: "open_once Os" "rel \<notin> fst ` set_mset Os"
    using inv by (auto simp: scan_fresh_def)
  have v: "visited st' x" if "visited st x" for x using visited_put [OF that new r(1)] .
  have notopen: "?p \<notin> fst ` set_mset Os" "?p \<noteq> rel"
    using inv new child_nonempty [OF pn] vr by (auto simp: scan_fresh_def visited_def)
  have other: "child x n \<noteq> ?p" if "proper n" "x \<in># image_mset fst Os" for x n
  proof
    assume "child x n = ?p"
    then have "x = rel" using child_inject [OF that(1) pn] by simp
    then show False using that(2) cnt by simp
  qed
  have names: "deName de' \<noteq> deName de" if "de' \<in> set des" for de'
    using fs_okD(1) [OF ok rd] that by (force simp: image_iff)
  have pd: "proper (deName de')" if "de' \<in> set des" for de'
    using fs_okD(2) [OF ok rd] that by auto
  have below: "entry_at st (child ?p n) = None" if "proper n" for n
  proof (rule ccontr)
    assume "entry_at st (child ?p n) \<noteq> None"
    then obtain x m where "child ?p n = child x m" "proper m" "visited st x"
      using inv by (auto simp: scan_fresh_def)
    then have "visited st ?p" using child_inject that by metis
    then show False using new child_nonempty [OF pn] by (simp add: visited_def)
  qed
  have pp: "child ?p n \<noteq> ?p" for n using pn by (auto simp: child_def proper_def)
  have vp: "deType de = DeDir \<Longrightarrow> visited st' ?p" using r by (simp add: visited_def update_conv')
  show ?thesis unfolding scan_fresh_def
  proof (intro conjI)
    show "gomap_ok (Entries (ssResult st'))" using inv r by (simp add: scan_fresh_def)
    show "open_once (add_mset (rel, Some des) Os + opens (entered d))"
      using cnt notopen by (simp add: r(4))
    show "\<forall>q e. entry_at st' q = Some e \<longrightarrow> (\<exists>rel n. q = child rel n \<and> proper n \<and> visited st' rel)"
      using inv v vr pn unfolding r scan_fresh_def by (simp add: update_conv') metis
    show "\<forall>(x, u) \<in># add_mset (rel, Some des) Os + opens (entered d). visited st' x
          \<and> (u = None \<longrightarrow> (\<forall>n. proper n \<longrightarrow> entry_at st' (child x n) = None))
          \<and> (\<forall>des. u = Some des \<longrightarrow> (\<forall>de \<in> set des. entry_at st' (child x (deName de)) = None))"
    proof (clarify, intro conjI impI allI ballI)
      fix x u assume xu: "(x, u) \<in># add_mset (rel, Some des) Os + opens (entered d)"
      show "visited st' x" using xu inv v vp by (auto simp: scan_fresh_def r(4) split: if_splits)
      show "entry_at st' (child x n) = None" if "u = None" "proper n" for n
      proof (cases "(x, u) \<in># Os")
        case True
        then have "child x n \<noteq> ?p" using other [OF that(2)] by force
        then show ?thesis using True that inv by (auto simp: scan_fresh_def r(1) update_conv')
      next
        case False
        then have "x = ?p" using xu that by (auto simp: r(4) split: if_splits)
        then show ?thesis using below [OF that(2)] pp by (simp add: r(1) update_conv')
      qed
      show "entry_at st' (child x (deName de')) = None" if u: "u = Some us" "de' \<in> set us" for us de'
      proof (cases "(x, u) \<in># Os")
        case True
        then obtain pre where "ReadDir env x = Inr (pre @ us)" using rds u(1) by blast
        then have "proper (deName de')" using fs_okD(2) [OF ok] u by auto
        then have "child x (deName de') \<noteq> ?p" using other True by force
        moreover have "entry_at st (child x (deName de')) = None"
          using inv True that by (auto simp: scan_fresh_def)
        ultimately show ?thesis by (simp add: r update_conv')
      next
        case False
        then have "x = rel" "us = des" using xu that by (auto simp: r(4) split: if_splits)
        moreover have "child rel (deName de') \<noteq> ?p"
          using that names child_inject [OF _ pn] pd calculation by blast
        ultimately show ?thesis using inv that by (auto simp: scan_fresh_def r update_conv')
      qed
    qed
  qed
qed


lemma scan_fresh_step:
  assumes ok: "fs_ok env" and "opens_step env sc st Os st' Os'"
    and "scan_sound env sc st Os" and "scan_fresh env st Os"
  shows "scan_fresh env st' Os'"
  using assms(2-4)
proof (induction rule: opens_step.induct)
  case (drop st' x st Os)
  then have "visited st' = visited st" by (simp add: visited_def fun_eq_iff)
  then show ?case using drop.prems(2) by (auto simp: scan_fresh_def drop.hyps(2))
next
  case (fail rel e st Os)
  have "visited (add_error rel e st) = visited st" by (simp add: add_error_def visited_def fun_eq_iff)
  then show ?case using fail.prems
    by (auto simp: scan_fresh_def add_error_def)
next
  case (read rel des st Os)
  then show ?case using fs_okD(2) [OF ok read.hyps] by (auto simp: scan_fresh_def)
next
  case (item rel de st st' d des Os)
  let ?p = "child rel (deName de)"
  obtain pre where rd: "ReadDir env rel = Inr (pre @ de # des)"
    using item.prems(1) by (auto simp: scan_sound_def)
  have rds: "\<exists>pre. ReadDir env r = Inr (pre @ us)" if "(r, Some us) \<in># Os" for r us
    using item.prems(1) that by (auto simp: scan_sound_def)
  show ?case
  proof (cases "entry_of env (pruned sc) ?p (deType de)")
    case None
    note r = record_item_none [OF item.hyps None]
    show ?thesis using item.prems(2) unfolding scan_fresh_def visited_same [OF r(1)] r(1,2)
      by auto
  next
    case (Some e)
    from scan_fresh_item [OF ok item.hyps item.prems(2) rd rds Some] show ?thesis .
  qed
qed simp

lemma recorded_mono:
  assumes "recorded env sc st p t" and "\<And>q e. entry_at st q = Some e \<Longrightarrow> entry_at st' q = Some e"
    and "set (Pruned (ssResult st)) \<subseteq> set (Pruned (ssResult st'))"
    and "set (Errors (ssResult st)) \<subseteq> set (Errors (ssResult st'))"
  shows "recorded env sc st' p t"
  using assms unfolding recorded_def by blast

text \<open>A step keeps what was recorded, and visits at most the directory it just recorded.\<close>

lemma record_item_mono:
  assumes "record_item env sc p t st = (st', d)" and new: "entry_at st p = None"
  shows "recorded env sc st' p t"
    and "recorded env sc st q u \<Longrightarrow> recorded env sc st' q u"
    and "visited st' x \<Longrightarrow> visited st x \<or> d = Some x"
    and "set (Errors (ssResult st)) \<subseteq> set (Errors (ssResult st'))"
    and "ssCancelled st' = ssCancelled st \<and> ssTruncated st' = ssTruncated st"
proof -
  have "recorded env sc st' p t \<and> (recorded env sc st q u \<longrightarrow> recorded env sc st' q u)
    \<and> (visited st' x \<longrightarrow> visited st x \<or> d = Some x) \<and> set (Errors (ssResult st)) \<subseteq> set (Errors (ssResult st'))
    \<and> ssCancelled st' = ssCancelled st \<and> ssTruncated st' = ssTruncated st"
  proof (cases "entry_of env (pruned sc) p t")
    case None
    note r = record_item_none [OF assms(1) None]
    show ?thesis using None r recorded_mono [of env sc st q u st']
      by (auto simp: recorded_def visited_same [OF r(1)])
  next
    case (Some e)
    note r = record_item_some [OF assms(1) Some]
    have m: "entry_at st' q = Some e'" if "entry_at st q = Some e'" for q e'
      using that new by (auto simp: r update_conv')
    have "visited st' x \<longrightarrow> visited st x \<or> d = Some x"
      using r(4,5) by (auto simp: visited_def r(1) update_conv' dir_at_def split: if_splits)
    moreover have "recorded env sc st' p t" using Some
      by (auto simp: recorded_def r update_conv' entry_of_def split: dirtype.splits)
    ultimately show ?thesis using r recorded_mono [of env sc st q u st', OF _ m] by simp
  qed
  then show "recorded env sc st' p t" "recorded env sc st q u \<Longrightarrow> recorded env sc st' q u"
    "visited st' x \<Longrightarrow> visited st x \<or> d = Some x" "set (Errors (ssResult st)) \<subseteq> set (Errors (ssResult st'))"
    "ssCancelled st' = ssCancelled st \<and> ssTruncated st' = ssTruncated st"
    by blast+
qed

lemma settled_mono:
  assumes "settled env sc st Os r" and "\<And>p t. recorded env sc st p t \<Longrightarrow> recorded env sc st' p t"
    and "set (Errors (ssResult st)) \<subseteq> set (Errors (ssResult st'))"
    and "\<And>u. (r, u) \<in># Os \<Longrightarrow> u = Some [] \<or> (r, u) \<in># Os'"
  shows "settled env sc st' Os' r"
  using assms(1) unfolding settled_def
proof (elim disjE exE conjE)
  fix all
  assume all: "ReadDir env r = Inr all" "\<forall>de\<in>set all. (\<exists>des. (r, Some des) \<in># Os \<and> de \<in> set des)
    \<or> recorded env sc st (child r (deName de)) (deType de)"
  have "(\<exists>des. (r, Some des) \<in># Os' \<and> de \<in> set des) \<or> recorded env sc st' (child r (deName de)) (deType de)"
    if "de \<in> set all" for de using all(2) that assms(2,4) by fastforce
  with all(1) show "(r, None) \<in># Os' \<or> (\<exists>e. ReadDir env r = Inl e \<and> \<lparr>seRelPath = r, seErr = e\<rparr> \<in> set (Errors (ssResult st')))
    \<or> (\<exists>all. ReadDir env r = Inr all \<and> (\<forall>de\<in>set all. (\<exists>des. (r, Some des) \<in># Os' \<and> de \<in> set des)
       \<or> recorded env sc st' (child r (deName de)) (deType de)))" by blast
qed (use assms(3,4) in auto)

lemma settled_item:
  assumes "settled env sc st (add_mset (rel, Some (de # des)) Os) rel" and "(rel, None) \<notin># Os"
    and "\<And>p t. recorded env sc st p t \<Longrightarrow> recorded env sc st' p t"
    and "recorded env sc st' (child rel (deName de)) (deType de)" and "ReadDir env rel = Inr (pre @ de # des)"
  shows "settled env sc st' (add_mset (rel, Some des) Os + X) rel"
proof -
  have "(\<exists>us. (rel, Some us) \<in># add_mset (rel, Some (de # des)) Os \<and> d \<in> set us)
      \<or> recorded env sc st (child rel (deName d)) (deType d)" if "d \<in> set (pre @ de # des)" for d
    using assms(1,2,5) that unfolding settled_def by auto
  then have "(\<exists>us. (rel, Some us) \<in># add_mset (rel, Some des) Os + X \<and> d \<in> set us)
      \<or> recorded env sc st' (child rel (deName d)) (deType d)" if "d \<in> set (pre @ de # des)" for d
    using assms(3,4) that by (cases "d = de") fastforce+
  then show ?thesis using assms(5) unfolding settled_def by blast
qed

lemma scan_done_step:
  assumes "opens_step env sc st Os st' Os'"
    and "scan_sound env sc st Os" "scan_fresh env st Os" "scan_done env sc st Os"
  shows "scan_done env sc st' Os'"
  using assms
proof (induction rule: opens_step.induct)
  case (drop st' x st Os)
  have same: "visited st' r = visited st r" "recorded env sc st' p t = recorded env sc st p t" for r p t
    using drop.hyps(2) by (simp_all add: visited_def recorded_def)
  have "settled env sc st' Os r" if "snd x = Some []" "settled env sc st (add_mset x Os) r" for r
    using that(2) by (rule settled_mono) (use that(1) same drop.hyps(2) in auto)
  then show ?case using drop.hyps drop.prems(3) by (auto simp: scan_done_def same)
next
  case (fail rel e st Os)
  let ?st = "add_error rel e st"
  have same: "visited ?st r = visited st r" for r by (simp add: add_error_def visited_def)
  have "settled env sc ?st Os r" if "settled env sc st (add_mset (rel, None) Os) r" for r
  proof (cases "r = rel")
    case True
    then show ?thesis using fail.hyps by (simp add: settled_def add_error_def)
  next
    case False
    show ?thesis
      by (rule settled_mono [OF that recorded_mono]) (use False in \<open>auto simp: add_error_def\<close>)
  qed
  then show ?case using fail.prems(3) by (auto simp: scan_done_def same) (simp_all add: add_error_def)
next
  case (read rel des st Os)
  have "settled env sc st (add_mset (rel, Some des) Os) r" if "settled env sc st (add_mset (rel, None) Os) r" for r
  proof (cases "r = rel")
    case True
    then show ?thesis using read.hyps by (auto simp: settled_def)
  next
    case False
    show ?thesis by (rule settled_mono [OF that]) (use False in auto)
  qed
  then show ?case using read.prems(3) by (auto simp: scan_done_def)
next
  case (item rel de st st' d des Os)
  let ?p = "child rel (deName de)" and ?Os = "add_mset (rel, Some (de # des)) Os"
    and ?Os' = "add_mset (rel, Some des) Os + opens (entered d)"
  obtain pre where rd: "ReadDir env rel = Inr (pre @ de # des)"
    using item.prems(1) by (auto simp: scan_sound_def)
  have new: "entry_at st ?p = None" and once: "rel \<notin> fst ` set_mset Os"
    using item.prems(2) by (auto simp: scan_fresh_def)
  note m = record_item_mono [OF item.hyps new]
  have "settled env sc st' ?Os' r" if "settled env sc st ?Os r" for r
  proof (cases "r = rel")
    case True
    with that have "settled env sc st ?Os rel" by simp
    from settled_item [OF this _ m(2) m(1) rd] show ?thesis using True once by force
  next
    case False
    show ?thesis by (rule settled_mono [OF that m(2) m(4)]) (use False in auto)
  qed
  moreover have "settled env sc st' ?Os' r" if "d = Some r" for r using that by (simp add: settled_def)
  ultimately have "settled env sc st' ?Os' r" if "visited st' r" "\<And>x. visited st x \<Longrightarrow> settled env sc st ?Os x" for r
    using m(3) [OF that(1)] that(2) by blast
  then show ?case using item.prems(3) m(5) unfolding scan_done_def by blast
qed simp


text \<open>The counters count the entries.\<close>

definition is_file :: "entry \<Rightarrow> bool" where
  "is_file e \<longleftrightarrow> \<not> IsDir e \<and> \<not> IsSymlink e"

definition scan_counts :: "scan_state \<Rightarrow> bool" where
  "scan_counts st \<longleftrightarrow>
     (let es = map snd (Entries (ssResult st)) in
        ssFiles st = int (length (filter is_file es))
        \<and> ssDirs st = int (length (filter IsDir es))
        \<and> ssBytes st = wrap64 (sum_list (map Size (filter is_file es)))
        \<and> map RelPath es = gokeys (Entries (ssResult st)))"

lemma goput_fresh: "goget m k = None \<Longrightarrow> goput k v m = m @ [(k, v)]"
  by (induction m) (auto split: if_splits)

lemma wrap64_add: "wrap64 (wrap64 x + y) = wrap64 (x + y)"
proof -
  have "wrap64 x + y + 9223372036854775808 = (x + 9223372036854775808) mod 18446744073709551616 + y"
    by (simp add: wrap64_def)
  then have "wrap64 (wrap64 x + y) = ((x + 9223372036854775808) mod 18446744073709551616 + y) mod 18446744073709551616 - 9223372036854775808"
    by (simp only: wrap64_def)
  also have "((x + 9223372036854775808) mod 18446744073709551616 + y) mod 18446744073709551616
      = (x + y + 9223372036854775808) mod 18446744073709551616"
    by (simp only: mod_add_left_eq) (simp only: ac_simps)
  finally show ?thesis by (simp add: wrap64_def)
qed

lemma record_item_counts:
  assumes "record_item env sc p t st = (st', d)" and "entry_at st p = None" and "scan_counts st"
  shows "scan_counts st'"
  using assms
  by (auto simp: record_item_def scan_counts_def put_entry_def add_error_def goput_fresh wrap64_add
      link_at_def dir_at_def file_at_def is_file_def Let_def
      split: dirtype.splits if_splits sum.splits)

lemma scan_counts_step:
  "opens_step env sc st Os st' Os' \<Longrightarrow> scan_fresh env st Os \<Longrightarrow> scan_counts st \<Longrightarrow> scan_counts st'"
proof (induction rule: opens_step.induct)
  case (item rel de st st' d des Os)
  then show ?case using record_item_counts by (fastforce simp: scan_fresh_def)
qed (simp_all add: scan_counts_def add_error_def)

definition scan_inv ::
  "scan_env \<Rightarrow> scanner \<Rightarrow> scan_state \<Rightarrow> (string \<times> dirent list option) multiset \<Rightarrow> bool" where
  "scan_inv env sc st Os \<longleftrightarrow>
     scan_sound env sc st Os \<and> scan_fresh env st Os \<and> scan_done env sc st Os \<and> scan_counts st"

lemma scan_inv_init: "scan_inv env sc scan_init (opens {#Enter []#})"
  unfolding scan_inv_def scan_sound_def scan_fresh_def scan_done_def scan_counts_def settled_def
  by (auto simp: scan_init_def empty_result_def visited_def walked_root wrap64_def)

lemma scan_inv_reachable:
  assumes ok: "fs_ok env" and reach: "(scan_step env sc)\<^sup>*\<^sup>* scan_init st"
  shows "scan_inv env sc st (opens (frames st))"
  using reach
proof (rule scan_invariant [where I = "\<lambda>st F. scan_inv env sc st (opens F)"])
  fix st f F st1 k d
  assume i: "scan_inv env sc st (opens (add_mset f F))" and f: "frame_step env sc f st = (st1, k, d)"
  note o = frame_step_opens [OF f, of F]
  show "scan_inv env sc st1 (opens (F + mset k + entered d))"
    using i scan_sound_step [OF o] scan_fresh_step [OF ok o] scan_done_step [OF o] scan_counts_step [OF o]
    unfolding scan_inv_def by blast
next
  show "scan_inv env sc scan_init (opens {#Enter []#})" by (rule scan_inv_init)
qed (auto simp: scan_inv_def scan_sound_def scan_fresh_def scan_done_def scan_counts_def
      settled_def visited_def recorded_def)

text \<open>When no frame is left, everything that was walked has been visited and recorded.\<close>

lemma walked_visited:
  assumes inv: "scan_inv env sc st {#}" and go: "\<not> ssCancelled st" "\<not> ssTruncated st"
    and w: "walked env (pruned sc) rel"
  shows "visited st rel"
  using w
proof (induction rule: walked.induct)
  case (walked_down rel des de)
  have "settled env sc st {#} rel" using inv go walked_down.IH by (auto simp: scan_inv_def scan_done_def)
  then have "recorded env sc st (child rel (deName de)) (deType de)"
    using walked_down.hyps by (auto simp: settled_def)
  then show ?case using walked_down.hyps by (simp add: recorded_def visited_def entry_of_def)
qed (simp add: visited_def)

lemma found_recorded:
  assumes inv: "scan_inv env sc st {#}" and go: "\<not> ssCancelled st" "\<not> ssTruncated st"
    and f: "found env (pruned sc) p t"
  shows "recorded env sc st p t"
proof -
  obtain rel des de where w: "walked env (pruned sc) rel" and r: "ReadDir env rel = Inr des" "de \<in> set des"
    "p = child rel (deName de)" "t = deType de" using f unfolding found_def by blast
  have "settled env sc st {#} rel"
    using inv go walked_visited [OF inv go w] by (auto simp: scan_inv_def scan_done_def)
  then show ?thesis using r by (auto simp: settled_def)
qed


section \<open>Termination\<close>

text \<open>The steps a walk below \<open>rel\<close> can still take when directories nest \<open>n\<close> deep there.\<close>

primrec walk_weight :: "scan_env \<Rightarrow> nat \<Rightarrow> string \<Rightarrow> nat" where
  "walk_weight env 0 rel = (case ReadDir env rel of Inl _ \<Rightarrow> 1 | Inr des \<Rightarrow> 2 + 2 * length des)"
| "walk_weight env (Suc n) rel =
     (case ReadDir env rel of
        Inl _ \<Rightarrow> 1
      | Inr des \<Rightarrow> 2 + sum_list (map (\<lambda>de.
          2 + (if deType de = DeDir then Suc (walk_weight env n (child rel (deName de))) else 0)) des))"

definition item_weight :: "scan_env \<Rightarrow> nat \<Rightarrow> string \<Rightarrow> dirent \<Rightarrow> nat" where
  "item_weight env n rel de =
     1 + (if deType de = DeDir then Suc (walk_weight env (n - level (child rel (deName de))) (child rel (deName de))) else 0)"

text \<open>A frame weighs the steps it can lead to; a goroutine has one more, its end.\<close>

fun frame_weight :: "scan_env \<Rightarrow> nat \<Rightarrow> frame \<Rightarrow> nat" where
  "frame_weight env n (Enter rel) = walk_weight env (n - level rel) rel"
| "frame_weight env n (Loop rel des) = 1 + sum_list (map (\<lambda>de. 1 + item_weight env n rel de) des)"
| "frame_weight env n (Item rel de des) =
     item_weight env n rel de + 1 + sum_list (map (\<lambda>de. 1 + item_weight env n rel de) des)"

definition scan_weight :: "scan_env \<Rightarrow> nat \<Rightarrow> scan_state \<Rightarrow> nat" where
  "scan_weight env n st =
     sum_mset (image_mset (frame_weight env n) (frames st)) + length (ssRoutines st)
     + (if ssCancelled st then 0 else 1)"

text \<open>The most steps any interleaving of a scan can have.\<close>

definition scan_steps :: "scan_env \<Rightarrow> nat \<Rightarrow> nat" where
  "scan_steps env n = walk_weight env n [] + 2"

lemma walk_weight_read:
  assumes ok: "fs_ok env" "fs_bounded env n" and rd: "ReadDir env rel = Inr des"
  shows "walk_weight env (n - level rel) rel = 2 + sum_list (map (\<lambda>de. 1 + item_weight env n rel de) des)"
proof (cases "n - level rel")
  case 0
  have "deType de \<noteq> DeDir" if "de \<in> set des" for de
    using that 0 fs_okD(2) [OF ok(1) rd] ok(2) rd by (fastforce simp: fs_bounded_def level_child)
  then have m: "map (\<lambda>de. 1 + item_weight env n rel de) des = map (\<lambda>_. 2) des" by (auto simp: item_weight_def)
  show ?thesis unfolding m by (simp add: 0 rd sum_list_triv)
next
  case (Suc m)
  have "n - level (child rel (deName de)) = m" if "de \<in> set des" for de
    using that Suc fs_okD(2) [OF ok(1) rd] by (simp add: level_child)
  then have "map (\<lambda>de. 1 + item_weight env n rel de) des = map (\<lambda>de.
      2 + (if deType de = DeDir then Suc (walk_weight env m (child rel (deName de))) else 0)) des"
    by (auto simp: item_weight_def)
  then show ?thesis by (simp only: Suc walk_weight.simps) (simp add: rd)
qed

lemma walk_weight_pos: "0 < walk_weight env n rel"
  by (cases n) (auto split: sum.splits)

text \<open>A step of a frame costs at least one unit of weight; a descent costs one more, for the
  goroutine it may start.\<close>

lemma frame_step_weight:
  assumes "fs_ok env" "fs_bounded env n" and "frame_step env sc f st = (st1, k, d)"
  shows "sum_mset (image_mset (frame_weight env n) (mset k + entered d)) + (if d = None then 0 else 1)
    < frame_weight env n f"
proof (cases "(env, sc, f, st)" rule: frame_step.cases)
  case (1 env' sc' rel st')
  then show ?thesis using assms(3) walk_weight_read [OF assms(1,2)]
    by (auto simp: walk_weight_pos split: if_splits sum.splits)
next
  case (4 env' sc' rel de des st')
  then show ?thesis using assms(3)
    by (auto simp: record_item_def item_weight_def split: prod.splits if_splits dirtype.splits sum.splits)
qed (use assms(3) in \<open>auto split: if_splits\<close>)

lemma scan_step_weight:
  assumes "fs_ok env" "fs_bounded env n" and "scan_step env sc st st'"
  shows "scan_weight env n st' < scan_weight env n st"
  using assms(3)
proof cases
  case (routine i)
  from routine(2) show ?thesis
  proof (cases rule: walk_step_frames [where env = env and sc = sc, consumes 1])
    case (stays R)
    then show ?thesis by (simp add: routine(1) scan_weight_def frames_def)
  next
    case (moves f F st1 k d R)
    have c: "ssCancelled st1 = ssCancelled st" using moves(2)
      by (cases "(env, sc, f, st)" rule: frame_step.cases)
         (auto simp: record_item_def put_entry_def add_error_def
           split: if_splits sum.splits dirtype.splits prod.splits)
    show ?thesis using frame_step_weight [OF assms(1,2) moves(2)] moves(3-5)
      unfolding routine(1) scan_weight_def moves(1) by (auto simp: frames_def c split: if_splits)
  qed
next
  case cancel
  then show ?thesis by (simp add: scan_weight_def frames_def)
qed


section \<open>The limit\<close>

definition is_item :: "frame \<Rightarrow> bool" where
  "is_item f \<longleftrightarrow> (case f of Item _ _ _ \<Rightarrow> True | _ \<Rightarrow> False)"

lemma is_item_simps [simp]: "\<not> is_item (Enter r)" "\<not> is_item (Loop r ds)" "is_item (Item r e ds)"
  by (simp_all add: is_item_def)

text \<open>Only the innermost call of a goroutine can stand past its limit check, and there are no
  more goroutines than tokens.\<close>

definition stacks_ok :: "scanner \<Rightarrow> scan_state \<Rightarrow> bool" where
  "stacks_ok sc st \<longleftrightarrow> length (ssRoutines st) \<le> spawn_budget sc
     \<and> (\<forall>g \<in> set (ssRoutines st). \<forall>f \<in> set (tl g). \<not> is_item f)"

definition items :: "scan_state \<Rightarrow> nat" where
  "items st = size (filter_mset is_item (frames st))"

lemma items_stack: "\<forall>f \<in> set (tl g). \<not> is_item f \<Longrightarrow> length (filter is_item g) \<le> 1"
  by (cases g) (auto simp: filter_empty_conv)

lemma items_bounded:
  assumes "stacks_ok sc st"
  shows "items st \<le> spawn_budget sc"
proof -
  have "items st = length (filter is_item (concat (ssRoutines st)))"
    by (simp add: items_def frames_def flip: mset_filter)
  also have "\<dots> = sum_list (map (\<lambda>g. length (filter is_item g)) (ssRoutines st))"
    by (simp add: filter_concat length_concat comp_def)
  also have "\<dots> \<le> sum_list (map (\<lambda>g. 1) (ssRoutines st))"
    using assms items_stack by (intro sum_list_mono) (auto simp: stacks_ok_def)
  finally show ?thesis using assms by (simp add: stacks_ok_def sum_list_triv)
qed

lemma frame_step_shape:
  assumes "frame_step env sc f st = (st1, k, d)"
  shows "length k \<le> 1" "d \<noteq> None \<Longrightarrow> \<forall>f \<in> set k. \<not> is_item f"
  using assms
  by (cases "(env, sc, f, st)" rule: frame_step.cases;
      auto simp: record_item_def split: if_splits sum.splits dirtype.splits prod.splits)+

lemma spawn_budget_pos: "1 \<le> spawn_budget sc"
  unfolding spawn_budget_def scan_workers_def DefaultScanWorkers_def by (auto simp: le_nat_iff)

lemma stacks_ok_walk_step:
  assumes "i < length (ssRoutines st)" "stacks_ok sc st"
  shows "stacks_ok sc (walk_step env sc i st)"
proof (cases "ssRoutines st ! i")
  case Nil
  then show ?thesis using assms
    by (auto simp: walk_step_def stacks_ok_def dest!: in_set_takeD in_set_dropD)
next
  case (Cons f g)
  obtain st1 k d where fs: "frame_step env sc f st = (st1, k, d)" by (cases "frame_step env sc f st") auto
  note r1 = frame_step_routines [OF fs] and sh = frame_step_shape [OF fs]
  have g: "\<forall>f \<in> set g. \<not> is_item f" using assms Cons nth_mem [OF assms(1)] by (fastforce simp: stacks_ok_def)
  have kg: "\<forall>f \<in> set (tl (k @ g)). \<not> is_item f" using sh(1) g by (cases k; cases g) auto
  have upd: "stacks_ok sc (st2\<lparr>ssRoutines := (ssRoutines st)[i := h]\<rparr>)" if "\<forall>f \<in> set (tl h). \<not> is_item f" for h st2
    using assms that set_update_subset_insert by (fastforce simp: stacks_ok_def)
  show ?thesis
  proof (cases d)
    case None
    then show ?thesis using upd [OF kg] Cons fs r1 by (simp add: walk_step_def)
  next
    case (Some rel)
    have "\<forall>f \<in> set (tl (Enter rel # k @ g)). \<not> is_item f" using sh(2) g Some by auto
    from upd [OF this] upd [OF kg, of st1] show ?thesis using Some Cons fs r1 assms(1)
      by (auto simp: walk_step_def walkAsync_def stacks_ok_def Let_def)
  qed
qed

definition within_limit :: "scanner \<Rightarrow> scan_state \<Rightarrow> bool" where
  "within_limit sc st \<longleftrightarrow> ssFiles st + ssDirs st + int (items st) \<le> scLimit sc - 1 + int (spawn_budget sc)"

lemma frame_step_limit:
  assumes "frame_step env sc f st = (st1, k, d)" and "0 < scLimit sc"
  shows "ssFiles st1 + ssDirs st1 + int (size (filter_mset is_item (mset k))) \<le>
      ssFiles st + ssDirs st + (if is_item f then 1 else 0)
    \<or> ssFiles st1 + ssDirs st1 \<le> scLimit sc - 1"
  using assms
  by (cases "(env, sc, f, st)" rule: frame_step.cases)
     (auto simp: record_item_def put_entry_def add_error_def limit_reached_def
       split: if_splits sum.splits dirtype.splits prod.splits)

lemma within_limit_reachable:
  assumes "(scan_step env sc)\<^sup>*\<^sup>* scan_init st" and "0 < scLimit sc"
  shows "stacks_ok sc st \<and> within_limit sc st"
  using assms(1)
proof (induction rule: rtranclp_induct)
  case base
  then show ?case using assms(2) spawn_budget_pos [of sc]
    by (simp add: stacks_ok_def within_limit_def scan_init_def items_def frames_def)
next
  case (step st st')
  from step.hyps(2) show ?case
  proof cases
    case (routine i)
    note ok' = stacks_ok_walk_step [OF routine(2), of sc env]
    from routine(2) show ?thesis
    proof (cases rule: walk_step_frames [where env = env and sc = sc, consumes 1])
      case (stays R)
      then show ?thesis using ok' step.IH routine(1) by (simp add: within_limit_def items_def frames_def)
    next
      case (moves f F st1 k d R)
      have "filter_mset is_item (entered d) = {#}" by (cases d) simp_all
      then have it: "items st' = size (filter_mset is_item F) + size (filter_mset is_item (mset k))"
        "items st = size (filter_mset is_item F) + (if is_item f then 1 else 0)"
        using moves(1,3,4) routine(1) by (simp_all add: items_def frames_def)
      then show ?thesis
        using frame_step_limit [OF moves(2) assms(2)] ok' step.IH routine(1) moves(3) items_bounded [of sc st']
        by (auto simp: within_limit_def split: if_splits)
    qed
  next
    case cancel
    then show ?thesis using step.IH by (simp add: stacks_ok_def within_limit_def items_def frames_def)
  qed
qed


section \<open>Pruning\<close>

text \<open>Through a matcher that keeps the contract of theory \<open>Scope\<close>, a pruned walk enters every
  directory above an admitted path.\<close>

context scope_matcher
begin

lemma pruned_walk:
  "walked env (\<lambda>_. False) rel \<Longrightarrow> rel = [] \<or> \<not> prunes rel \<and> visible rel \<Longrightarrow> walked env prunes rel"
proof (induction rule: walked.induct)
  case (walked_down rel des de)
  have "rel = [] \<or> \<not> prunes rel \<and> visible rel"
    using walked_down.prems visible_beneath [of "child rel (deName de)" rel]
    by (auto simp: child_def beneath_def)
  moreover have "\<not> prunes (child rel (deName de)) \<or> child rel (deName de) = []"
    using walked_down.prems by auto
  ultimately show ?case using walked_down walked.walked_root
    by (cases "child rel (deName de) = []") (auto intro: walked.walked_down)
qed (rule walked.walked_root)

lemma pruned_listing:
  assumes "listed env (\<lambda>_. False) p e" and "admits p (IsDir e)"
  shows "listed env prunes p e"
proof -
  obtain t rel des de where t: "entry_of env (\<lambda>_. False) p t = Some e" "walked env (\<lambda>_. False) rel"
    "ReadDir env rel = Inr des" "de \<in> set des" "p = child rel (deName de)" "t = deType de"
    using assms(1) unfolding listed_def found_def by blast
  have "rel = [] \<or> beneath rel p" by (auto simp: t(5) child_def beneath_def)
  then have "walked env prunes rel"
    using visible_beneath [OF admitted_visible [OF assms(2)]] pruned_walk [OF t(2)] by blast
  then have "found env prunes p t" unfolding found_def using t by blast
  moreover have "entry_of env prunes p t = Some e"
    using t(1) assms(2) admitted_dir_not_pruned
    by (auto simp: entry_of_def dir_at_def split: dirtype.splits)
  ultimately show ?thesis unfolding listed_def by blast
qed

end


section \<open>Properties\<close>

text \<open>
  C6: a finished scan is exact, whatever the interleaving. When \<open>Scan\<close> returns a listing that
  was not cut short by its limit, the listing holds exactly the entries of the directories it
  may enter, every directory or file that could not be read is in \<open>Errors\<close>, its keys are the
  entries' paths, and its counters are the numbers of files and directories in it.
\<close>

theorem scan_is_exact:
  assumes "fs_ok env" and "Scan env sc root (Inr r)" and "\<not> Truncated r"
  shows "(\<forall>p e. goget (Entries r) p = Some e \<longleftrightarrow> listed env (pruned sc) p e)
    \<and> (\<forall>p e. \<lparr>seRelPath = p, seErr = e\<rparr> \<in> set (Errors r) \<longleftrightarrow> unreadable env (pruned sc) p e)
    \<and> listing_ok r
    \<and> Files r = int (length (filter is_file (map snd (Entries r))))
    \<and> Dirs r = int (length (filter IsDir (map snd (Entries r))))"
proof -
  obtain st where st: "(scan_step env sc)\<^sup>*\<^sup>* scan_init st" "ssRoutines st = []" "Inr r = Scan_return root st"
    using assms(2) unfolding Scan_def by blast
  from st(3) have r: "Entries r = Entries (ssResult st)" "Errors r = Errors (ssResult st)"
      "Files r = ssFiles st" "Dirs r = ssDirs st" and go: "\<not> ssCancelled st" "\<not> ssTruncated st"
    using assms(3) by (auto simp: Scan_return_def split: if_splits)
  have inv: "scan_inv env sc st {#}" using scan_inv_reachable [OF assms(1) st(1)] st(2) by (simp add: frames_def)
  note rec = found_recorded [OF inv go] and vis = walked_visited [OF inv go]
  have "goget (Entries r) p = Some e" if "listed env (pruned sc) p e" for p e
    using that rec unfolding listed_def recorded_def r by blast
  moreover have "\<lparr>seRelPath = p, seErr = e\<rparr> \<in> set (Errors r)" if u: "unreadable env (pruned sc) p e" for p e
  proof (cases "walked env (pruned sc) p \<and> ReadDir env p = Inl e")
    case True
    then have "settled env sc st {#} p" using inv go vis by (auto simp: scan_inv_def scan_done_def)
    then show ?thesis using True by (simp add: settled_def r)
  next
    case False
    then show ?thesis using u rec by (auto simp: unreadable_def recorded_def r)
  qed
  moreover have "listing_ok r" using inv
    by (auto simp: scan_inv_def scan_fresh_def scan_counts_def listing_ok_def r Let_def)
  moreover have "listed env (pruned sc) p e" if "goget (Entries r) p = Some e" for p e
    using inv that by (simp add: scan_inv_def scan_sound_def r)
  moreover have "unreadable env (pruned sc) p e" if "\<lparr>seRelPath = p, seErr = e\<rparr> \<in> set (Errors r)" for p e
    using inv that by (fastforce simp: scan_inv_def scan_sound_def r)
  moreover have "Files r = int (length (filter is_file (map snd (Entries r))))"
    "Dirs r = int (length (filter IsDir (map snd (Entries r))))"
    using inv unfolding scan_inv_def scan_counts_def r Let_def by blast+
  ultimately show ?thesis by blast
qed

text \<open>A small tree: a directory with a file and a link, a directory that cannot be listed, and
  one that a filter prunes.\<close>

definition sample_fs :: scan_env where
  "sample_fs = \<lparr>
     ReadDir = (\<lambda>rel. if rel = [] then Inr [\<lparr>deName = ''a'', deType = DeDir\<rparr>, \<lparr>deName = ''b'', deType = DeDir\<rparr>,
           \<lparr>deName = ''c'', deType = DeDir\<rparr>]
         else if rel = ''a'' then Inr [\<lparr>deName = ''f'', deType = DeOther\<rparr>, \<lparr>deName = ''l'', deType = DeSymlink\<rparr>]
         else if rel = ''b'' then Inl (new_error ''permission denied'' [ErrPermission]) else Inr []),
     Info = (\<lambda>p. Inr (3, 50))\<rparr>"

definition sample_scanner :: scanner where
  "sample_scanner = \<lparr>scWorkers = 1, scLimit = 0, scPrune = Some (\<lambda>p. p = ''c''), scOnProgress = True\<rparr>"

lemma sample_fs_ok: "fs_ok sample_fs" "fs_bounded sample_fs 1"
  by (auto simp: fs_ok_def fs_bounded_def sample_fs_def child_def level_def depth_def Count1_def split: if_splits)

definition sample_run :: scan_state where
  "sample_run = run_schedule sample_fs sample_scanner [0,0,0,1,0,1,0,1,0,0,0,1,1,0,1,0,0,1,1,0,0,0,0,0,0,0] scan_init"


lemma sample_Scan: "Scan sample_fs sample_scanner ''/src'' (Scan_return ''/src'' sample_run)"
proof -
  have "ssRoutines sample_run = []" by code_simp
  then show ?thesis unfolding Scan_def sample_run_def using run_schedule_steps by blast
qed

theorem scan_is_exact_witness:
  "listed sample_fs (pruned sample_scanner) ''a/f'' (file_at ''a/f'' 3 50)
   \<and> (\<exists>r. Scan sample_fs sample_scanner ''/src'' (Inr r) \<and> Incomplete r \<and> Files r = 1 \<and> Dirs r = 2)"
proof -
  let ?r = "(ssResult sample_run)\<lparr>Truncated := ssTruncated sample_run, Files := ssFiles sample_run,
    Dirs := ssDirs sample_run, Bytes := ssBytes sample_run\<rparr>"
  have r: "Scan_return ''/src'' sample_run = Inr ?r" by code_simp
  note S = sample_Scan [unfolded r]
  have t: "\<not> Truncated ?r" by code_simp
  note x = scan_is_exact [OF sample_fs_ok(1) S t]
  have "goget (Entries ?r) ''a/f'' = Some (file_at ''a/f'' 3 50)" by code_simp
  moreover have "Incomplete ?r" "Files ?r = 1" "Dirs ?r = 2" by code_simp+
  ultimately show ?thesis using x S by blast
qed



text \<open>
  the limit is respected up to the walkers in flight. A scan with a limit never holds more
  than that many files and directories beyond what the goroutines that passed their check
  together may still add, one each, and there are at most four per worker.
\<close>

theorem scan_limit_overshoot:
  assumes "0 < scLimit sc" and "Scan env sc root (Inr r)"
  shows "Files r + Dirs r \<le> scLimit sc - 1 + 4 * scan_workers sc"
proof -
  obtain st where st: "(scan_step env sc)\<^sup>*\<^sup>* scan_init st" "ssRoutines st = []" "Inr r = Scan_return root st"
    using assms(2) unfolding Scan_def by blast
  then have "Files r = ssFiles st" "Dirs r = ssDirs st" by (auto simp: Scan_return_def split: if_splits)
  moreover have "0 \<le> scan_workers sc" by (simp add: scan_workers_def DefaultScanWorkers_def)
  ultimately show ?thesis using within_limit_reachable [OF st(1) assms(1)]
    by (simp add: within_limit_def spawn_budget_def)
qed

definition limited_run :: scan_state where
  "limited_run = run_schedule sample_fs (sample_scanner\<lparr>scLimit := 1\<rparr>) [0,0,0,0,1,1,1,0,0,0,0] scan_init"

theorem scan_limit_overshoot_witness:
  "\<exists>r. Scan sample_fs (sample_scanner\<lparr>scLimit := 1\<rparr>) ''/src'' (Inr r) \<and> Truncated r \<and> Files r + Dirs r \<le> 4"
proof -
  let ?sc = "sample_scanner\<lparr>scLimit := 1\<rparr>"
  let ?st = limited_run
  let ?r = "(ssResult ?st)\<lparr>Truncated := ssTruncated ?st, Files := ssFiles ?st, Dirs := ssDirs ?st, Bytes := ssBytes ?st\<rparr>"
  have r: "Scan_return ''/src'' ?st = Inr ?r" "ssRoutines ?st = []" "Truncated ?r" by code_simp+
  have "(scan_step sample_fs ?sc)\<^sup>*\<^sup>* scan_init ?st" unfolding limited_run_def by (rule run_schedule_steps)
  with r have S: "Scan sample_fs ?sc ''/src'' (Inr ?r)" unfolding Scan_def by metis
  have "scLimit ?sc - 1 + 4 * scan_workers ?sc = 4" by code_simp
  with scan_limit_overshoot [OF _ S] have "Files ?r + Dirs ?r \<le> 4" by (simp add: sample_scanner_def)
  with S r(3) show ?thesis by blast
qed

end
