(* ===== verification/Engine_Track.thy ===== *)
theory Engine_Track
  imports Store_Types Complex_Main
begin

text \<open>
  Progress accounting for one destination, \<^verbatim>\<open>src/internal/engine/progress.go\<close>: what the copy
  and delete workers report to a \<open>Tracker\<close>, the smoothed throughput and the snapshots taken
  for the API. Every method holds the tracker's mutex, so the operations are steps on one
  state. The counters are \<open>int64\<close> values far from the ends of their range; \<open>float64\<close>
  values are real numbers here, that is, without rounding.
\<close>

section \<open>Model\<close>

datatype phase = PhaseScanning | PhasePlanning | PhaseCopying | PhaseDeleting | PhaseDone

record file_state =
  fsTotal :: int
  fsDone :: int
  fsStarted :: gotime

record tracker =
  trStarted :: gotime
  trPhase :: phase
  trFilesTotal :: int
  trFilesDone :: int
  trFilesDeleted :: int
  trFilesFailed :: int
  trBytesTotal :: int
  trBytesDone :: int
  trFilesFound :: int
  trDirsFound :: int
  trThroughput :: real
  trLastSample :: gotime
  trLastBytes :: int
  trInFlight :: "file_state gomap"

definition NewTracker :: "gotime \<Rightarrow> tracker" where
  "NewTracker now = \<lparr>trStarted = now, trPhase = PhaseScanning, trFilesTotal = 0, trFilesDone = 0,
     trFilesDeleted = 0, trFilesFailed = 0, trBytesTotal = 0, trBytesDone = 0, trFilesFound = 0,
     trDirsFound = 0, trThroughput = 0, trLastSample = now, trLastBytes = 0, trInFlight = []\<rparr>"

definition SetPhase :: "phase \<Rightarrow> tracker \<Rightarrow> tracker" where
  "SetPhase p t = t\<lparr>trPhase := p\<rparr>"

definition SetScanProgress :: "int \<Rightarrow> int \<Rightarrow> tracker \<Rightarrow> tracker" where
  "SetScanProgress files dirs t = t\<lparr>trFilesFound := files, trDirsFound := dirs\<rparr>"

definition SetTotals :: "int \<Rightarrow> int \<Rightarrow> tracker \<Rightarrow> tracker" where
  "SetTotals files bytes t = t\<lparr>trFilesTotal := files, trBytesTotal := bytes\<rparr>"

definition StartFile :: "string \<Rightarrow> int \<Rightarrow> gotime \<Rightarrow> tracker \<Rightarrow> tracker" where
  "StartFile rel sz now t =
     t\<lparr>trInFlight := goput rel \<lparr>fsTotal = sz, fsDone = 0, fsStarted = now\<rparr> (trInFlight t)\<rparr>"

definition add_clamped :: "int \<Rightarrow> int \<Rightarrow> int" where
  "add_clamped n x = (let y = x + n in if y < 0 then 0 else y)"

definition AddFileBytes :: "string \<Rightarrow> int \<Rightarrow> tracker \<Rightarrow> tracker" where
  "AddFileBytes rel n t =
     (let t1 = t\<lparr>trBytesDone := add_clamped n (trBytesDone t)\<rparr>
      in case goget (trInFlight t1) rel of
           None \<Rightarrow> t1
         | Some f \<Rightarrow> t1\<lparr>trInFlight := goput rel (f\<lparr>fsDone := add_clamped n (fsDone f)\<rparr>) (trInFlight t1)\<rparr>)"

definition FinishFile :: "string \<Rightarrow> bool \<Rightarrow> tracker \<Rightarrow> tracker" where
  "FinishFile rel ok t =
     (let t1 = t\<lparr>trInFlight := godel rel (trInFlight t)\<rparr>
      in if ok then t1\<lparr>trFilesDone := trFilesDone t1 + 1\<rparr>
         else t1\<lparr>trFilesFailed := trFilesFailed t1 + 1\<rparr>)"

definition AddDeleted :: "int \<Rightarrow> tracker \<Rightarrow> tracker" where
  "AddDeleted n t = t\<lparr>trFilesDeleted := trFilesDeleted t + n\<rparr>"

definition Seconds :: "duration \<Rightarrow> real" where
  "Seconds d = real_of_int d / 1000000000"

text \<open>\<open>ewmaTau\<close> is fifteen seconds.\<close>

definition ewma_alpha :: "duration \<Rightarrow> real" where
  "ewma_alpha elapsed = 1 - exp (- Seconds elapsed / 15)"

definition Sample :: "gotime \<Rightarrow> tracker \<Rightarrow> tracker" where
  "Sample now t =
     (let elapsed = time_Sub now (trLastSample t) in
      if elapsed \<le> 0 then t
      else
        let delta = (let d = trBytesDone t - trLastBytes t in if d < 0 then 0 else d);
            instant = real_of_int delta / Seconds elapsed;
            throughput = (if trThroughput t = 0 \<and> trLastBytes t = 0 \<and> delta > 0 then instant
                          else trThroughput t + ewma_alpha elapsed * (instant - trThroughput t))
        in t\<lparr>trThroughput := throughput, trLastSample := now, trLastBytes := trBytesDone t\<rparr>)"

record file_in_flight =
  ffRelPath :: string
  ffBytesDone :: int
  ffBytesTotal :: int
  ffPercent :: real
  ffThroughputBPS :: real
  ffETASeconds :: real

record snapshot =
  snPhase :: phase
  snFilesTotal :: int
  snFilesDone :: int
  snFilesDeleted :: int
  snFilesFailed :: int
  snBytesTotal :: int
  snBytesDone :: int
  snFilesFound :: int
  snDirsFound :: int
  snThroughputBPS :: real
  snETASeconds :: real
  snElapsedSec :: real
  snInFlight :: "file_in_flight list"

definition ETAUnknown :: real where "ETAUnknown = - 1"

definition in_flight_item :: "gotime \<Rightarrow> real \<Rightarrow> string \<Rightarrow> file_state \<Rightarrow> file_in_flight" where
  "in_flight_item now throughput rel f =
     (let elapsed = Seconds (time_Sub now (fsStarted f));
          own = (if elapsed > 0 \<and> fsDone f > 0 then real_of_int (fsDone f) / elapsed else 0);
          rate = (if own = 0 then throughput else own)
      in \<lparr>ffRelPath = rel, ffBytesDone = fsDone f, ffBytesTotal = fsTotal f,
          ffPercent = (if fsTotal f > 0 then real_of_int (fsDone f) / real_of_int (fsTotal f) * 100 else 0),
          ffThroughputBPS = own,
          ffETASeconds = (if rate > 0 \<and> fsTotal f > fsDone f
                          then real_of_int (fsTotal f - fsDone f) / rate else ETAUnknown)\<rparr>)"

definition Snapshot :: "gotime \<Rightarrow> tracker \<Rightarrow> snapshot" where
  "Snapshot now t =
     \<lparr>snPhase = trPhase t, snFilesTotal = trFilesTotal t, snFilesDone = trFilesDone t,
      snFilesDeleted = trFilesDeleted t, snFilesFailed = trFilesFailed t,
      snBytesTotal = trBytesTotal t, snBytesDone = trBytesDone t,
      snFilesFound = trFilesFound t, snDirsFound = trDirsFound t,
      snThroughputBPS = trThroughput t,
      snETASeconds =
        (if trPhase t = PhaseCopying \<and> trThroughput t > 0 \<and> trBytesTotal t > 0
         then let r = trBytesTotal t - trBytesDone t; remaining = (if r < 0 then 0 else r)
              in real_of_int remaining / trThroughput t
         else ETAUnknown),
      snElapsedSec = Seconds (time_Sub now (trStarted t)),
      snInFlight = sort_slice (\<lambda>a b. go_string_less (ffRelPath a) (ffRelPath b))
        (map (\<lambda>(rel, f). in_flight_item now (trThroughput t) rel f) (trInFlight t))\<rparr>"


section \<open>Properties\<close>

definition tracker_ok :: "tracker \<Rightarrow> bool" where
  "tracker_ok t \<longleftrightarrow> 0 \<le> trBytesDone t \<and> 0 \<le> trThroughput t \<and> gomap_ok (trInFlight t)
     \<and> (\<forall>(rel, f) \<in> set (trInFlight t). 0 \<le> fsDone f)"

datatype tracker_op =
    OpSetPhase phase
  | OpSetScanProgress int int
  | OpSetTotals int int
  | OpStartFile string int gotime
  | OpAddFileBytes string int
  | OpFinishFile string bool
  | OpAddDeleted int
  | OpSample gotime

fun track :: "tracker_op \<Rightarrow> tracker \<Rightarrow> tracker" where
  "track (OpSetPhase p) = SetPhase p"
| "track (OpSetScanProgress f d) = SetScanProgress f d"
| "track (OpSetTotals f b) = SetTotals f b"
| "track (OpStartFile r s n) = StartFile r s n"
| "track (OpAddFileBytes r n) = AddFileBytes r n"
| "track (OpFinishFile r ok) = FinishFile r ok"
| "track (OpAddDeleted n) = AddDeleted n"
| "track (OpSample now) = Sample now"

lemma ewma_alpha_range: "0 < elapsed \<Longrightarrow> 0 < ewma_alpha elapsed \<and> ewma_alpha elapsed < 1"
  by (simp add: ewma_alpha_def Seconds_def)

lemma convex_between:
  fixes a x y :: real
  assumes "0 \<le> a" "a \<le> 1"
  shows "min x y \<le> x + a * (y - x)" "x + a * (y - x) \<le> max x y"
proof -
  have "x + a * (y - x) = (1 - a) * x + a * y" by (simp add: algebra_simps)
  moreover have "(1 - a) * min x y + a * min x y \<le> (1 - a) * x + a * y"
    "(1 - a) * x + a * y \<le> (1 - a) * max x y + a * max x y"
    using assms by (auto intro!: add_mono mult_left_mono)
  moreover have "(1 - a) * z + a * z = z" for z :: real by (simp add: algebra_simps)
  ultimately show "min x y \<le> x + a * (y - x)" "x + a * (y - x) \<le> max x y" by simp_all
qed

lemma Sample_throughput:
  assumes "0 < time_Sub now (trLastSample t)"
  shows "let instant = real_of_int (max 0 (trBytesDone t - trLastBytes t)) / Seconds (time_Sub now (trLastSample t))
    in min (trThroughput t) instant \<le> trThroughput (Sample now t)
       \<and> trThroughput (Sample now t) \<le> max (trThroughput t) instant"
proof -
  let ?e = "time_Sub now (trLastSample t)"
  have d: "(let d = trBytesDone t - trLastBytes t in if d < 0 then 0 else d) = max 0 (trBytesDone t - trLastBytes t)"
    by (simp add: Let_def max_def)
  note a = ewma_alpha_range [OF assms]
  let ?i = "real_of_int (max 0 (trBytesDone t - trLastBytes t)) / Seconds ?e" and ?x = "trThroughput t"
  have "trThroughput (Sample now t) = ?i \<or> trThroughput (Sample now t) = ?x + ewma_alpha ?e * (?i - ?x)"
    using assms unfolding Sample_def d unfolding Let_def by simp
  then show ?thesis unfolding Let_def
  proof
    assume "trThroughput (Sample now t) = ?x + ewma_alpha ?e * (?i - ?x)"
    then show "min ?x ?i \<le> trThroughput (Sample now t) \<and> trThroughput (Sample now t) \<le> max ?x ?i"
      using convex_between [of "ewma_alpha ?e" ?x ?i] a by simp
  qed simp
qed

lemma update_values: "(k, v) \<in> set (goput k' v' m) \<Longrightarrow> v = v' \<or> (k, v) \<in> set m"
  by (induction m) (auto split: if_splits)

lemma delete_values: "(k, v) \<in> set (godel k' m) \<Longrightarrow> (k, v) \<in> set m"
  by (auto simp: AList.delete_eq)

lemma tracker_ok_step: "tracker_ok t \<Longrightarrow> tracker_ok (track op t)"
proof (cases op)
  case (OpAddFileBytes r n)
  assume ok: "tracker_ok t"
  then show ?thesis
    by (auto simp: OpAddFileBytes AddFileBytes_def tracker_ok_def add_clamped_def Let_def
        split: option.splits dest!: update_values)
next
  case (OpSample now)
  assume ok: "tracker_ok t"
  have "0 \<le> trThroughput (Sample now t)"
  proof (cases "0 < time_Sub now (trLastSample t)")
    case True
    then have "0 \<le> real_of_int (max 0 (trBytesDone t - trLastBytes t)) / Seconds (time_Sub now (trLastSample t))"
      by (simp add: Seconds_def)
    then show ?thesis using Sample_throughput [OF True] ok by (auto simp: tracker_ok_def Let_def)
  qed (use ok in \<open>simp add: Sample_def tracker_ok_def\<close>)
  then show ?thesis using ok
    by (auto simp: OpSample tracker_ok_def Sample_def Let_def)
qed (auto simp: tracker_ok_def SetPhase_def SetScanProgress_def SetTotals_def StartFile_def
      FinishFile_def AddDeleted_def Let_def dest!: update_values delete_values)


lemma tracker_ok_fold: "tracker_ok t \<Longrightarrow> tracker_ok (fold track ops t)"
  by (induction ops arbitrary: t) (auto intro: tracker_ok_step)

lemma tracker_ok_new: "tracker_ok (NewTracker now)"
  by (simp add: tracker_ok_def NewTracker_def)

lemma in_flight_rel [simp]: "ffRelPath (in_flight_item now th rel f) = rel"
  by (simp add: in_flight_item_def Let_def)

lemma snapshot_order:
  assumes "gomap_ok (trInFlight t)"
  shows "sorted (map ffRelPath (snInFlight (Snapshot now t)))
    \<and> distinct (map ffRelPath (snInFlight (Snapshot now t)))"
proof -
  let ?lt = "\<lambda>a b. go_string_less (ffRelPath a) (ffRelPath b)"
    and ?xs = "map (\<lambda>(rel, f). in_flight_item now (trThroughput t) rel f) (trInFlight t)"
  have "map ffRelPath ?xs = gokeys (trInFlight t)" by (induction "trInFlight t") auto
  then have "distinct (map ffRelPath ?xs)" using assms by (simp only: gomap_ok_def)
  then have "distinct (map ffRelPath (sort_slice ?lt ?xs))" by (simp only: distinct_map_sort_slice)
  moreover have "sorted (map ffRelPath (sort_slice ?lt ?xs))"
    by (simp only: map_sort_slice sort_Strings_def [symmetric] sort_Strings_sorted)
  ultimately show ?thesis by (simp add: Snapshot_def)
qed

text \<open>
  progress never goes negative. From a new tracker, whatever sequence of reports the
  workers make, rewinds included, byte counts and throughput stay non-negative; so every
  snapshot's ETA is non-negative or unknown, and its in-flight files are listed once each in
  the order of their paths.
\<close>

theorem progress_stays_sane:
  "let t = fold track ops (NewTracker start); s = Snapshot now t
   in 0 \<le> snBytesDone s \<and> 0 \<le> snThroughputBPS s \<and> (snETASeconds s = ETAUnknown \<or> 0 \<le> snETASeconds s)
      \<and> sorted (map ffRelPath (snInFlight s)) \<and> distinct (map ffRelPath (snInFlight s))"
proof -
  let ?t = "fold track ops (NewTracker start)"
  have ok: "tracker_ok ?t" by (intro tracker_ok_fold tracker_ok_new)
  then have "snETASeconds (Snapshot now ?t) = ETAUnknown \<or> 0 \<le> snETASeconds (Snapshot now ?t)"
    by (simp add: Snapshot_def Let_def)
  with ok snapshot_order [of ?t now] show ?thesis unfolding Let_def
    by (simp add: tracker_ok_def) (simp add: Snapshot_def)
qed

text \<open>
  the throughput is smoothed. A sample moves the throughput to a value between the
  previous one and the rate observed since the last sample, so that the ETA neither
  overshoots nor jumps past the current rate.
\<close>

theorem sample_is_an_average:
  assumes "0 < time_Sub now (trLastSample t)"
  shows "let instant = real_of_int (max 0 (trBytesDone t - trLastBytes t)) / Seconds (time_Sub now (trLastSample t))
    in min (trThroughput t) instant \<le> trThroughput (Sample now t)
       \<and> trThroughput (Sample now t) \<le> max (trThroughput t) instant"
  using assms by (rule Sample_throughput)

theorem sample_is_an_average_witness:
  "trThroughput (Sample 2000000000 ((NewTracker 0)\<lparr>trBytesDone := 10\<rparr>)) \<le> 5"
  using sample_is_an_average [of 2000000000 "(NewTracker 0)\<lparr>trBytesDone := 10\<rparr>"]
  by (simp add: NewTracker_def time_Sub_def Seconds_def)

end
