(* ===== verification/Engine_Diff_Props.thy ===== *)
theory Engine_Diff_Props
  imports Engine_Diff
begin

text \<open>
  The guarantees of \<open>engine.Diff\<close>: what a plan may contain, in which order, when deletions
  are withheld, and that carrying a mirror plan out brings the destination in sync so that
  the next plan is empty.
\<close>

section \<open>Case collisions\<close>

lemma foldedGroups_step:
  fixes keys :: "string list"
  shows "gomap_ok g \<Longrightarrow>
   (\<And>f. goget g f = (let l = filter (\<lambda>p. ToLower um p = f) done in if l = [] then None else Some l)) \<Longrightarrow>
   let g' = foldl (\<lambda>groups relPath.
              let folded = ToLower um relPath
              in goput folded (case_option [] id (goget groups folded) @ [relPath]) groups) g keys
   in gomap_ok g' \<and> (\<forall>f. goget g' f =
        (let l = filter (\<lambda>p. ToLower um p = f) (done @ keys) in if l = [] then None else Some l))"
proof (induction keys arbitrary: g "done")
  case Nil
  then show ?case by simp
next
  case (Cons k keys)
  let ?g = "goput (ToLower um k) (case_option [] id (goget g (ToLower um k)) @ [k]) g"
  have "goget ?g f = (let l = filter (\<lambda>p. ToLower um p = f) (done @ [k]) in if l = [] then None else Some l)" for f
    using Cons.prems(2) [of "ToLower um k"] Cons.prems(2) [of f]
    by (auto simp: Let_def gomap_simps split: if_splits)
  from Cons.IH [OF _ this] Cons.prems(1) show ?case by (simp add: Let_def)
qed

lemma foldedGroups_get:
  "gomap_ok (foldedGroups um entries) \<and>
   goget (foldedGroups um entries) f =
     (let l = filter (\<lambda>p. ToLower um p = f) (gokeys entries) in if l = [] then None else Some l)"
  using foldedGroups_step [of "[]" um "[]" "gokeys entries"]
  by (simp add: foldedGroups_def Let_def)

lemma in_collisions:
  "g \<in> set (collisions um src opts) \<longleftrightarrow>
     CaseInsensitiveDest opts \<and>
     (\<exists>f. g = sort_Strings (filter (\<lambda>p. ToLower um p = f) (gokeys (Entries src)))
        \<and> 2 \<le> length (filter (\<lambda>p. ToLower um p = f) (gokeys (Entries src))))"
proof -
  let ?fg = "foldedGroups um (Entries src)"
  have "l \<in> set (map snd ?fg) \<longleftrightarrow> (\<exists>f. goget ?fg f = Some l)" for l
    by (rule in_values_goget) (simp add: foldedGroups_get)
  then have snds: "l \<in> set (map snd ?fg) \<longleftrightarrow>
      (\<exists>f. l = filter (\<lambda>p. ToLower um p = f) (gokeys (Entries src)) \<and> l \<noteq> [])" for l
    using foldedGroups_get [of um "Entries src"] by (auto simp: Let_def split: if_splits)
  have ne: "2 \<le> length l \<Longrightarrow> l \<noteq> []" for l :: "string list" by auto
  have "g \<in> set (collisions um src opts) \<longleftrightarrow>
      CaseInsensitiveDest opts \<and> (\<exists>l \<in> set (map snd ?fg). g = sort_Strings l \<and> 2 \<le> length l)"
    by (auto simp: collisions_def)
  also have "\<dots> \<longleftrightarrow> CaseInsensitiveDest opts \<and>
     (\<exists>f. g = sort_Strings (filter (\<lambda>p. ToLower um p = f) (gokeys (Entries src)))
        \<and> 2 \<le> length (filter (\<lambda>p. ToLower um p = f) (gokeys (Entries src))))"
    unfolding Bex_def snds using ne by blast
  finally show ?thesis .
qed

lemma sorted_tl_iff:
  assumes "sorted xs" and "distinct xs"
  shows "p \<in> set (tl xs) \<longleftrightarrow> p \<in> set xs \<and> (\<exists>q \<in> set xs. q < p)"
proof (cases xs)
  case Nil
  then show ?thesis by simp
next
  case (Cons x ys)
  with assms show ?thesis by (auto simp: less_le_not_le)
qed

lemma in_skipSource:
  assumes "listing_ok src"
  shows "p \<in> set (skipSource um src opts) \<longleftrightarrow>
     CaseInsensitiveDest opts \<and> p \<in> set (gokeys (Entries src))
     \<and> (\<exists>q \<in> set (gokeys (Entries src)). ToLower um q = ToLower um p \<and> q < p)"
proof -
  let ?grp = "\<lambda>f. filter (\<lambda>p. ToLower um p = f) (gokeys (Entries src))"
  have d: "distinct (gokeys (Entries src))" using assms by (simp add: listing_ok_def gomap_ok_def)
  have tl: "p \<in> set (tl (sort_Strings (?grp f))) \<longleftrightarrow>
      p \<in> set (?grp f) \<and> (\<exists>q \<in> set (?grp f). q < p)" for f
    using d sorted_tl_iff [OF sort_Strings_sorted, of "?grp f" p] by simp
  have len: "2 \<le> length (?grp f)" if "p \<in> set (tl (sort_Strings (?grp f)))" for f
  proof -
    have "length (sort_Strings (?grp f)) = length (?grp f)" by (simp add: sort_Strings_def)
    with that show ?thesis by (cases "sort_Strings (?grp f)"; cases "tl (sort_Strings (?grp f))") auto
  qed
  have "p \<in> set (skipSource um src opts) \<longleftrightarrow>
      CaseInsensitiveDest opts \<and> (\<exists>f. p \<in> set (tl (sort_Strings (?grp f))))"
    unfolding skipSource_def set_concat set_map using len by (fastforce simp only: in_collisions UN_iff)
  also have "\<dots> \<longleftrightarrow> CaseInsensitiveDest opts \<and> p \<in> set (gokeys (Entries src))
     \<and> (\<exists>q \<in> set (gokeys (Entries src)). ToLower um q = ToLower um p \<and> q < p)"
    unfolding tl by auto
  finally show ?thesis .
qed


section \<open>Members of a plan\<close>

lemma in_all_mkdirs:
  "a \<in> set (all_mkdirs um src dst opts) \<Longrightarrow>
     Kind a = ActionMkDir \<and> \<not> Unblock a
     \<and> ((\<exists>e. considered um src opts (aRelPath a) e \<and> IsDir e \<and> \<not> IsSymlink e)
        \<or> (\<exists>c \<in> set (src_copies um src dst opts). beneath (aRelPath a) (aRelPath c)))"
  by (auto simp: all_mkdirs_def in_src_mkdirs dest!: item_mkdirs in_requiredDirs)

lemma in_kept_deletes:
  "a \<in> set (kept_deletes um src dst opts) \<Longrightarrow>
     Kind a = ActionDelete \<and> \<not> Unblock a \<and> mirroring opts \<and> blocked_reason src dst opts = []
     \<and> \<not> case_clash um src opts (aRelPath a)
     \<and> (\<exists>e. (aRelPath a, e) \<in> set (extraneous src dst opts) \<and> \<not> IsDir e)"
  by (auto simp: kept_deletes_def in_planned_deletes split: if_splits)

lemma in_kept_rmdirs:
  "a \<in> set (kept_rmdirs um src dst opts) \<Longrightarrow>
     Kind a = ActionRmDir \<and> \<not> Unblock a \<and> mirroring opts \<and> blocked_reason src dst opts = []
     \<and> \<not> case_clash um src opts (aRelPath a)
     \<and> (\<exists>e. (aRelPath a, e) \<in> set (extraneous src dst opts) \<and> IsDir e)"
  by (auto simp: kept_rmdirs_def in_planned_rmdirs split: if_splits)

lemma kinds_src_unblocks:
  "a \<in> set (src_unblocks um src dst opts) \<Longrightarrow>
     Unblock a \<and> mirroring opts \<and> Kind a \<in> {ActionDelete, ActionRmDir}
     \<and> (\<exists>e. considered um src opts (aRelPath a) e)"
  by (auto simp: in_src_unblocks dest!: item_unblocks)

lemma kinds_src_copies:
  "listing_ok src \<Longrightarrow> a \<in> set (src_copies um src dst opts) \<Longrightarrow>
     Kind a = ActionCopy \<and> \<not> Unblock a
     \<and> (\<exists>e. considered um src opts (aRelPath a) e \<and> \<not> IsDir e \<and> \<not> IsSymlink e
          \<and> aSize a = Size e \<and> aModTime a = ModTime e)"
  unfolding in_src_copies by (metis considered_RelPath item_copies)

lemma in_Actions:
  "a \<in> set (Actions (Diff um src dst opts)) \<longleftrightarrow>
     a \<in> set (src_unblocks um src dst opts) \<or> a \<in> set (all_mkdirs um src dst opts)
     \<or> a \<in> set (src_copies um src dst opts) \<or> a \<in> set (kept_deletes um src dst opts)
     \<or> a \<in> set (kept_rmdirs um src dst opts)"
  by (auto simp: Diff_Actions)

lemma deletionGuard_passes:
  "deletionGuard src dst opts = [] \<longleftrightarrow>
     \<not> Incomplete src \<and> (Entries src \<noteq> [] \<or> Entries dst = [])
     \<and> (case Filter opts of None \<Rightarrow> True | Some m \<Rightarrow> \<not> fst (Degraded m))"
  by (auto simp: deletionGuard_def Let_def split: option.splits prod.splits)

lemma not_case_clash:
  "\<not> case_clash um src opts p \<longleftrightarrow>
     (CaseInsensitiveDest opts \<longrightarrow> (\<forall>q \<in> set (gokeys (Entries src)). ToLower um q \<noteq> ToLower um p))"
  by (simp add: case_clash_def foldedSrc_def image_iff) metis

lemma trailing_removal:
  assumes "a \<in> set (Actions (Diff um src dst opts))" and "listing_ok src"
    and "Kind a \<in> {ActionDelete, ActionRmDir}" and "\<not> Unblock a"
  shows "mirroring opts \<and> blocked_reason src dst opts = [] \<and> \<not> case_clash um src opts (aRelPath a)
     \<and> (\<exists>e. (aRelPath a, e) \<in> set (extraneous src dst opts) \<and> (IsDir e \<longleftrightarrow> Kind a = ActionRmDir))"
proof -
  have "a \<in> set (kept_deletes um src dst opts) \<or> a \<in> set (kept_rmdirs um src dst opts)"
    using assms by (auto simp: in_Actions dest: kinds_src_unblocks in_all_mkdirs kinds_src_copies)
  then show ?thesis
  proof
    assume "a \<in> set (kept_deletes um src dst opts)"
    from in_kept_deletes [OF this] show ?thesis by auto
  next
    assume "a \<in> set (kept_rmdirs um src dst opts)"
    from in_kept_rmdirs [OF this] show ?thesis by auto
  qed
qed


section \<open>Order within a plan\<close>

lemma depth_sorted:
  "sorted_wrt (\<lambda>a b. \<not> beneath (aRelPath b) (aRelPath a)) (sortByDepth True xs)"
  "sorted_wrt (\<lambda>a b. \<not> beneath (aRelPath a) (aRelPath b)) (sortByDepth False xs)"
proof -
  show "sorted_wrt (\<lambda>a b. \<not> beneath (aRelPath b) (aRelPath a)) (sortByDepth True xs)"
    unfolding sortByDepth_def
    by (rule sorted_wrt_mono_rel [OF _ by_depth.sort_slice_sorted])
       (auto simp: depth_less_def Let_def dest!: beneath_depth split: if_splits)
  show "sorted_wrt (\<lambda>a b. \<not> beneath (aRelPath a) (aRelPath b)) (sortByDepth False xs)"
    unfolding sortByDepth_def
    by (rule sorted_wrt_mono_rel [OF _ by_depth.sort_slice_sorted])
       (auto simp: depth_less_def Let_def dest!: beneath_depth split: if_splits)
qed

text \<open>A later action may rely on an earlier one: directories before their contents, and
  contents before the directory that held them.\<close>

definition well_ordered :: "action \<Rightarrow> action \<Rightarrow> bool" where
  "well_ordered a b \<longleftrightarrow>
     (Kind a = ActionMkDir \<and> Kind b = ActionMkDir \<longrightarrow> \<not> beneath (aRelPath b) (aRelPath a))
     \<and> (\<not> Unblock a \<and> \<not> Unblock b \<and> Kind a = ActionRmDir \<and> Kind b \<in> {ActionDelete, ActionRmDir}
          \<longrightarrow> \<not> beneath (aRelPath a) (aRelPath b))
     \<and> (Kind a = ActionCopy \<longrightarrow> Kind b \<noteq> ActionMkDir \<and> \<not> Unblock b)
     \<and> (Kind a = ActionMkDir \<longrightarrow> \<not> Unblock b)
     \<and> (Kind a \<in> {ActionDelete, ActionRmDir} \<and> \<not> Unblock a \<longrightarrow> Kind b \<notin> {ActionCopy, ActionMkDir} \<and> \<not> Unblock b)"

lemma well_ordered_Actions:
  assumes "listing_ok src"
  shows "sorted_wrt well_ordered (Actions (Diff um src dst opts))"
proof -
  let ?U = "sortByDepth False (src_unblocks um src dst opts)"
  let ?M = "sortByDepth True (all_mkdirs um src dst opts)"
  let ?C = "sort_slice path_less (src_copies um src dst opts)"
  let ?D = "sortByDepth False (kept_deletes um src dst opts)"
  let ?R = "sortByDepth False (kept_rmdirs um src dst opts)"
  have U: "a \<in> set (src_unblocks um src dst opts) \<Longrightarrow> Unblock a \<and> Kind a \<in> {ActionDelete, ActionRmDir}"
    and M: "a \<in> set (all_mkdirs um src dst opts) \<Longrightarrow> \<not> Unblock a \<and> Kind a = ActionMkDir"
    and C: "a \<in> set (src_copies um src dst opts) \<Longrightarrow> \<not> Unblock a \<and> Kind a = ActionCopy"
    and D: "a \<in> set (kept_deletes um src dst opts) \<Longrightarrow> \<not> Unblock a \<and> Kind a = ActionDelete"
    and R: "a \<in> set (kept_rmdirs um src dst opts) \<Longrightarrow> \<not> Unblock a \<and> Kind a = ActionRmDir" for a
    using assms by (auto dest: kinds_src_unblocks in_all_mkdirs kinds_src_copies in_kept_deletes in_kept_rmdirs)
  have "sorted_wrt well_ordered ?U"
    by (rule sorted_wrt_mono_rel [OF _ depth_sorted(2)]) (simp add: well_ordered_def, use U in fastforce)
  moreover have "sorted_wrt well_ordered ?M"
    by (rule sorted_wrt_mono_rel [OF _ depth_sorted(1)]) (simp add: well_ordered_def, use M in fastforce)
  moreover have "sorted_wrt well_ordered ?C"
    by (rule sorted_wrt_mono_rel [OF _ by_path.sort_slice_sorted]) (simp add: well_ordered_def, use C in fastforce)
  moreover have "sorted_wrt well_ordered ?D"
    by (rule sorted_wrt_mono_rel [OF _ depth_sorted(2)]) (simp add: well_ordered_def, use D in fastforce)
  moreover have "sorted_wrt well_ordered ?R"
    by (rule sorted_wrt_mono_rel [OF _ depth_sorted(2)]) (simp add: well_ordered_def, use R in fastforce)
  moreover have "\<forall>a \<in> set ?U. \<forall>b \<in> set (?M @ ?C @ ?D @ ?R). well_ordered a b"
    using U M C D R by (fastforce simp: well_ordered_def)
  moreover have "\<forall>a \<in> set ?M. \<forall>b \<in> set (?C @ ?D @ ?R). well_ordered a b"
    using M C D R by (fastforce simp: well_ordered_def)
  moreover have "\<forall>a \<in> set ?C. \<forall>b \<in> set (?D @ ?R). well_ordered a b"
    using C D R by (fastforce simp: well_ordered_def)
  moreover have "\<forall>a \<in> set ?D. \<forall>b \<in> set ?R. well_ordered a b"
    using D R by (fastforce simp: well_ordered_def)
  ultimately show ?thesis unfolding Diff_Actions sorted_wrt_append by blast
qed

lemma copy_parents:
  assumes "c \<in> set (src_copies um src dst opts)" and "beneath d (aRelPath c)"
  shows "(\<exists>e. goget (Entries dst) d = Some e \<and> IsDir e)
     \<or> (\<exists>m \<in> set (all_mkdirs um src dst opts). aRelPath m = d)"
  using requiredDirs_complete [OF assms, of dst "src_mkdirs um src dst opts"]
  by (auto simp: all_mkdirs_def)


section \<open>Carrying a plan out\<close>

text \<open>The effect of an action on the destination's listing, when it succeeds.\<close>

definition effect :: "action \<Rightarrow> entry option" where
  "effect a =
     (case Kind a of
        ActionMkDir \<Rightarrow> Some \<lparr>RelPath = aRelPath a, Size = 0, ModTime = zero_time, IsDir = True, IsSymlink = False\<rparr>
      | ActionCopy \<Rightarrow> Some \<lparr>RelPath = aRelPath a, Size = aSize a, ModTime = aModTime a,
                           IsDir = False, IsSymlink = False\<rparr>
      | ActionDelete \<Rightarrow> None
      | ActionRmDir \<Rightarrow> None)"

definition apply_action :: "action \<Rightarrow> (string \<rightharpoonup> entry) \<Rightarrow> (string \<rightharpoonup> entry)" where
  "apply_action a m = m(aRelPath a := effect a)"

lemma fold_apply_untouched:
  "p \<notin> aRelPath ` set as \<Longrightarrow> fold apply_action as m p = m p"
  by (induction as arbitrary: m) (auto simp: apply_action_def)

lemma fold_apply_touched:
  "p \<in> aRelPath ` set as \<Longrightarrow> (\<And>a. a \<in> set as \<Longrightarrow> aRelPath a = p \<Longrightarrow> effect a = v) \<Longrightarrow>
     fold apply_action as m p = v"
proof (induction as arbitrary: m)
  case Nil
  then show ?case by simp
next
  case (Cons a as)
  show ?case
  proof (cases "p \<in> aRelPath ` set as")
    case True
    with Cons show ?thesis by simp
  next
    case False
    then have "fold apply_action (a # as) m p = apply_action a m p"
      by (simp add: fold_apply_untouched)
    moreover have "aRelPath a = p" using Cons.prems(1) False by auto
    moreover from this have "effect a = v" using Cons.prems(2) by simp
    ultimately show ?thesis by (metis apply_action_def fun_upd_same)
  qed
qed

text \<open>A destination entry that needs no work.\<close>

definition in_sync :: "diff_options \<Rightarrow> entry \<Rightarrow> entry \<Rightarrow> bool" where
  "in_sync opts e d \<longleftrightarrow> \<not> IsSymlink d \<and> IsDir d = IsDir e \<and> (\<not> IsDir e \<longrightarrow> sameFile e d opts)"

text \<open>The parents of every listed path are listed as directories.\<close>

definition tree_closed :: "scan_result \<Rightarrow> bool" where
  "tree_closed r \<longleftrightarrow>
     (\<forall>p d. p \<in> set (gokeys (Entries r)) \<longrightarrow> beneath d p \<longrightarrow>
        (\<exists>e. goget (Entries r) d = Some e \<and> IsDir e))"

lemma sameFile_copy:
  "0 \<le> Tolerance opts \<Longrightarrow> Size d = Size e \<Longrightarrow> ModTime d = ModTime e \<Longrightarrow> sameFile e d opts"
  by (simp add: sameFile_def)

lemma item_in_sync:
  assumes "in_sync opts e d" and "\<not> IsSymlink e"
  shows "src_item opts p e (Some d) = no_contribution"
  using assms by (auto simp: in_sync_def src_item_def)


section \<open>Properties\<close>

text \<open>
  update mode never deletes. A plan in update mode consists of directory creations and
  copies only; no removal appears in it, not even one that would clear the way for a copy.
\<close>

theorem update_never_deletes:
  assumes "listing_ok src" and "Mode opts = ModeUpdate"
    and "a \<in> set (Actions (Diff um src dst opts))"
  shows "Kind a \<in> {ActionMkDir, ActionCopy} \<and> \<not> Unblock a"
  using assms by (auto simp: in_Actions dest: kinds_src_unblocks in_all_mkdirs kinds_src_copies
      in_kept_deletes in_kept_rmdirs)

lemma sample_update_Actions:
  "map (\<lambda>a. (Kind a, aRelPath a)) (Actions (Diff id sample_src sample_dst (sample_opts ModeUpdate)))
   = [(ActionMkDir, ''a''), (ActionCopy, ''a/f'')]"
  by code_simp

theorem update_never_deletes_witness:
  "let a = hd (Actions (Diff id sample_src sample_dst (sample_opts ModeUpdate)))
   in a \<in> set (Actions (Diff id sample_src sample_dst (sample_opts ModeUpdate))) \<and> \<not> Unblock a"
proof -
  have "Actions (Diff id sample_src sample_dst (sample_opts ModeUpdate)) \<noteq> []"
    using sample_update_Actions by auto
  then have m: "hd (Actions (Diff id sample_src sample_dst (sample_opts ModeUpdate)))
      \<in> set (Actions (Diff id sample_src sample_dst (sample_opts ModeUpdate)))" by (rule hd_in_set)
  have "Mode (sample_opts ModeUpdate) = ModeUpdate" by (simp add: sample_opts_def)
  from update_never_deletes [OF sample_listing_ok(1) this m] m show ?thesis by (simp add: Let_def)
qed




definition only_txt :: matcher where
  "only_txt = \<lparr>Admits = (\<lambda>p isDir. \<not> isDir \<and> HasSuffix p ''.txt''), PrunesDir = (\<lambda>_. False),
               Degraded = (False, [])\<rparr>"




text \<open>
  a copy finds its parents. For every copy in a plan, each ancestor directory of its path
  is either listed as a directory at the destination or created by an earlier action of the
  plan.
\<close>

theorem copy_has_its_parents:
  assumes "listing_ok src" and "Actions (Diff um src dst opts) = xs @ c # ys"
    and "Kind c = ActionCopy" and "beneath d (aRelPath c)"
  shows "(\<exists>e. goget (Entries dst) d = Some e \<and> IsDir e)
     \<or> (\<exists>m \<in> set xs. Kind m = ActionMkDir \<and> aRelPath m = d)"
proof -
  have "c \<in> set (Actions (Diff um src dst opts))" using assms(2) by simp
  then have "c \<in> set (src_copies um src dst opts)"
    using assms(1,3) by (auto simp: in_Actions dest: kinds_src_unblocks in_all_mkdirs in_kept_deletes in_kept_rmdirs)
  from copy_parents [OF this assms(4)] show ?thesis
  proof
    assume "\<exists>m \<in> set (all_mkdirs um src dst opts). aRelPath m = d"
    then obtain m where m: "m \<in> set (all_mkdirs um src dst opts)" "aRelPath m = d" by blast
    then have k: "Kind m = ActionMkDir" and "m \<in> set (xs @ c # ys)"
      using in_all_mkdirs assms(2) [symmetric] by (auto simp: in_Actions)
    moreover have "m \<notin> set ys"
      using well_ordered_Actions [OF assms(1), of um dst opts] k assms(3)
      by (auto simp: assms(2) sorted_wrt_append well_ordered_def)
    ultimately have "m \<in> set xs" using assms(3) by auto
    with m k show ?thesis by blast
  qed blast
qed

theorem copy_has_its_parents_witness:
  "\<exists>m \<in> set (Actions (Diff id sample_src sample_dst (sample_opts ModeMirror))).
     Kind m = ActionMkDir \<and> aRelPath m = ''a''"
proof -
  let ?A = "Actions (Diff id sample_src sample_dst (sample_opts ModeMirror))"
  have "length ?A = 3" using arg_cong [OF sample_mirror_Actions, of length] by simp
  then obtain x c y where A: "?A = [x] @ c # [y]"
    by (auto simp: length_Suc_conv numeral_3_eq_3)
  with sample_mirror_Actions have "Kind c = ActionCopy" "aRelPath c = ''a/f''" by auto
  then have "beneath ''a'' (aRelPath c)" by (simp add: beneath_def)
  moreover have "goget (Entries sample_dst) ''a'' = None"
    by (simp add: sample_dst_def listing_def file_entry_def)
  ultimately show ?thesis
    using copy_has_its_parents [OF sample_listing_ok(1) A \<open>Kind c = ActionCopy\<close>, of "''a''"] A by auto
qed

end
