(* ===== verification/Engine_Converge.thy ===== *)
theory Engine_Converge
  imports Engine_Diff_Props
begin

text \<open>
  Properties of \<open>engine.Diff\<close> over whole runs: a mirror plan brings the destination in sync,
  a synced tree yields an empty plan, the plan does not depend on Go's map iteration order,
  the withheld deletions are counted, and the file comparison; with the corner cases that
  the model brought to light.
\<close>

section \<open>A synced tree needs nothing\<close>

lemma Diff_nothing_to_do:
  assumes src: "listing_ok src"
    and synced: "\<And>p e. considered um src opts p e \<Longrightarrow> IsSymlink e
       \<or> (\<exists>d. goget (Entries dst) p = Some d \<and> in_sync opts e d)"
    and no_extra: "\<And>p e. goget (Entries dst) p = Some e \<Longrightarrow> mirroring opts \<Longrightarrow>
       opts_admits opts p (IsDir e) \<Longrightarrow> goget (Entries src) p \<noteq> None"
  shows "Actions (Diff um src dst opts) = []"
proof -
  have item: "ctUnblocks (src_item opts p e (goget (Entries dst) p)) = []
      \<and> ctMkdirs (src_item opts p e (goget (Entries dst) p)) = []
      \<and> ctCopies (src_item opts p e (goget (Entries dst) p)) = []"
    if c: "considered um src opts p e" for p e
  proof (cases "IsSymlink e")
    case True
    then show ?thesis by (simp add: src_item_def)
  next
    case False
    with synced [OF c] obtain d where "goget (Entries dst) p = Some d" "in_sync opts e d" by blast
    with False show ?thesis by (simp add: item_in_sync)
  qed
  have "a \<notin> set (src_unblocks um src dst opts)" "a \<notin> set (src_mkdirs um src dst opts)"
    "a \<notin> set (src_copies um src dst opts)" for a
    unfolding in_src_unblocks in_src_mkdirs in_src_copies using item by auto
  then have "src_unblocks um src dst opts = []" "src_mkdirs um src dst opts = []"
    "src_copies um src dst opts = []"
    by (metis list.set_intros(1) neq_Nil_conv)+
  moreover from this have "all_mkdirs um src dst opts = []"
    by (simp add: all_mkdirs_def requiredDirs_def)
  moreover have "a \<notin> set (kept_deletes um src dst opts)" "a \<notin> set (kept_rmdirs um src dst opts)" for a
    using no_extra in_kept_deletes in_kept_rmdirs unfolding in_extraneous by metis+
  ultimately have "a \<notin> set (Actions (Diff um src dst opts))" for a by (simp add: in_Actions)
  then show ?thesis by (cases "Actions (Diff um src dst opts)") auto
qed


section \<open>A mirror plan brings the destination in sync\<close>

text \<open>
  The setting of an unfiltered mirror whose deletions are not withheld: a complete source
  tree without symbolic links, and a destination that distinguishes case.
\<close>

definition mirror_run :: "scan_result \<Rightarrow> scan_result \<Rightarrow> diff_options \<Rightarrow> bool" where
  "mirror_run src dst opts \<longleftrightarrow>
     listing_ok src \<and> tree_closed src
     \<and> (\<forall>p e. goget (Entries src) p = Some e \<longrightarrow> \<not> IsSymlink e)
     \<and> Mode opts = ModeMirror \<and> Filter opts = None \<and> \<not> CaseInsensitiveDest opts
     \<and> 0 \<le> Tolerance opts \<and> deletionGuard src dst opts = []"

lemma considered_iff:
  "mirror_run src dst opts \<Longrightarrow> considered um src opts p e \<longleftrightarrow> goget (Entries src) p = Some e"
  by (auto simp: mirror_run_def considered_def opts_admits_def in_skipSource)

lemma copied_below:
  assumes "mirror_run src dst opts" and "c \<in> set (src_copies um src dst opts)" and "beneath d (aRelPath c)"
  shows "\<exists>e. goget (Entries src) d = Some e \<and> IsDir e"
proof -
  have "listing_ok src" using assms(1) by (simp add: mirror_run_def)
  from kinds_src_copies [OF this assms(2)] obtain e where "goget (Entries src) (aRelPath c) = Some e"
    using considered_iff [OF assms(1)] by blast
  then have "aRelPath c \<in> set (gokeys (Entries src))" by (rule goget_in_keys)
  with assms(1,3) show ?thesis unfolding mirror_run_def tree_closed_def by blast
qed

lemma mkdir_in_src:
  assumes "mirror_run src dst opts" and "m \<in> set (all_mkdirs um src dst opts)"
  shows "\<exists>e. goget (Entries src) (aRelPath m) = Some e \<and> IsDir e"
  using in_all_mkdirs [OF assms(2)] copied_below [OF assms(1)] considered_iff [OF assms(1)] by blast

lemma untouched_stages:
  assumes "mirror_run src dst opts" and "goget (Entries src) p = None"
  shows "p \<notin> aRelPath ` set (src_unblocks um src dst opts)"
    and "p \<notin> aRelPath ` set (all_mkdirs um src dst opts)"
    and "p \<notin> aRelPath ` set (src_copies um src dst opts)"
proof -
  have ok: "listing_ok src" using assms(1) by (simp add: mirror_run_def)
  show "p \<notin> aRelPath ` set (src_unblocks um src dst opts)"
    using kinds_src_unblocks considered_iff [OF assms(1)] assms(2) by fastforce
  show "p \<notin> aRelPath ` set (all_mkdirs um src dst opts)"
    using mkdir_in_src [OF assms(1)] assms(2) by fastforce
  show "p \<notin> aRelPath ` set (src_copies um src dst opts)"
    using kinds_src_copies [OF ok] considered_iff [OF assms(1)] assms(2) by fastforce
qed

definition trailing :: "(string \<Rightarrow> string) \<Rightarrow> scan_result \<Rightarrow> scan_result \<Rightarrow> diff_options \<Rightarrow> action list" where
  "trailing um src dst opts =
     sortByDepth False (kept_deletes um src dst opts) @ sortByDepth False (kept_rmdirs um src dst opts)"

lemma trailing_effect:
  "a \<in> set (trailing um src dst opts) \<Longrightarrow> effect a = None \<and> goget (Entries src) (aRelPath a) = None"
  by (auto simp: trailing_def effect_def in_extraneous dest!: in_kept_deletes in_kept_rmdirs)

lemma extra_removed:
  assumes "mirror_run src dst opts" and "goget (Entries src) p = None" and "goget (Entries dst) p = Some e"
  shows "p \<in> aRelPath ` set (trailing um src dst opts)"
proof -
  have x: "(p, e) \<in> set (extraneous src dst opts)" and nc: "\<not> case_clash um src opts p"
    using assms by (simp_all add: mirror_run_def in_extraneous opts_admits_def case_clash_def)
  have kept: "kept_deletes um src dst opts = planned_deletes um src dst opts"
    "kept_rmdirs um src dst opts = planned_rmdirs um src dst opts"
    using assms(1) by (simp_all add: mirror_run_def blocked_reason_def kept_deletes_def kept_rmdirs_def)
  show ?thesis
  proof (cases "IsDir e")
    case True
    with x nc have "mk_action ActionRmDir p ''not present at the source'' \<in> set (trailing um src dst opts)"
      by (auto simp: trailing_def kept in_planned_rmdirs)
    then show ?thesis by (metis image_eqI mk_action_simps(2))
  next
    case False
    with x nc have "(mk_action ActionDelete p ''not present at the source'')\<lparr>aSize := Size e\<rparr>
        \<in> set (trailing um src dst opts)"
      by (auto simp: trailing_def kept in_planned_deletes)
    then show ?thesis by (rule rev_image_eqI) simp
  qed
qed

lemma fold_None_stays:
  "m p = None \<Longrightarrow> (\<And>a. a \<in> set as \<Longrightarrow> effect a = None) \<Longrightarrow> fold apply_action as m p = None"
  by (induction as arbitrary: m) (auto simp: apply_action_def fun_upd_def)

definition final ::
  "(string \<Rightarrow> string) \<Rightarrow> scan_result \<Rightarrow> scan_result \<Rightarrow> diff_options \<Rightarrow> string \<Rightarrow> entry option" where
  "final um src dst opts = fold apply_action (Actions (Diff um src dst opts)) (goget (Entries dst))"

definition before_removals ::
  "(string \<Rightarrow> string) \<Rightarrow> scan_result \<Rightarrow> scan_result \<Rightarrow> diff_options \<Rightarrow> string \<Rightarrow> entry option" where
  "before_removals um src dst opts =
     fold apply_action (sort_slice path_less (src_copies um src dst opts))
       (fold apply_action (sortByDepth True (all_mkdirs um src dst opts))
         (fold apply_action (sortByDepth False (src_unblocks um src dst opts)) (goget (Entries dst))))"

lemma final_stages:
  "final um src dst opts = fold apply_action (trailing um src dst opts) (before_removals um src dst opts)"
  by (simp add: final_def before_removals_def trailing_def Diff_Actions)

lemma final_absent:
  assumes "mirror_run src dst opts" and "goget (Entries src) p = None"
  shows "final um src dst opts p = None"
proof (cases "goget (Entries dst) p")
  case None
  with untouched_stages [OF assms] have "before_removals um src dst opts p = None"
    by (simp add: before_removals_def fold_apply_untouched)
  then show ?thesis
    unfolding final_stages by (rule fold_None_stays) (simp add: trailing_effect)
next
  case (Some e)
  show ?thesis unfolding final_stages
    by (rule fold_apply_touched [OF extra_removed [OF assms Some]]) (simp add: trailing_effect)
qed

lemma final_present:
  assumes "goget (Entries src) p = Some e"
  shows "final um src dst opts p = before_removals um src dst opts p"
  unfolding final_stages
proof (rule fold_apply_untouched)
  show "p \<notin> aRelPath ` set (trailing um src dst opts)"
    using assms trailing_effect by fastforce
qed

lemma before_removals_dir:
  assumes mr: "mirror_run src dst opts" and e: "goget (Entries src) p = Some e" "IsDir e"
  shows "\<exists>d. before_removals um src dst opts p = Some d \<and> IsDir d \<and> \<not> IsSymlink d"
proof -
  have ok: "listing_ok src" and nl: "\<not> IsSymlink e" and m: "mirroring opts"
    using mr e by (auto simp: mirror_run_def)
  have c: "considered um src opts p e" using considered_iff [OF mr] e(1) by simp
  have nocopy: "p \<notin> aRelPath ` set (src_copies um src dst opts)"
    using kinds_src_copies [OF ok] considered_iff [OF mr] e by fastforce
  show ?thesis
  proof (cases "p \<in> aRelPath ` set (all_mkdirs um src dst opts)")
    case True
    let ?d = "\<lparr>RelPath = p, Size = 0, ModTime = zero_time, IsDir = True, IsSymlink = False\<rparr>"
    have "effect a = Some ?d" if "a \<in> set (all_mkdirs um src dst opts)" "aRelPath a = p" for a
      using in_all_mkdirs [OF that(1)] that(2) by (simp add: effect_def)
    then have "fold apply_action (sortByDepth True (all_mkdirs um src dst opts)) m p = Some ?d" for m
      by (intro fold_apply_touched) (use True in auto)
    with nocopy have "before_removals um src dst opts p = Some ?d"
      by (simp add: before_removals_def fold_apply_untouched)
    then show ?thesis by simp
  next
    case False
    have "ctMkdirs (src_item opts p e (goget (Entries dst) p)) = []"
    proof (rule ccontr)
      assume "ctMkdirs (src_item opts p e (goget (Entries dst) p)) \<noteq> []"
      then obtain a where a: "a \<in> set (ctMkdirs (src_item opts p e (goget (Entries dst) p)))"
        by (metis list.set_sel(1))
      then have "a \<in> set (all_mkdirs um src dst opts)" using c by (auto simp: all_mkdirs_def in_src_mkdirs)
      moreover have "aRelPath a = p" using item_mkdirs [OF a] by simp
      ultimately show False using False by blast
    qed
    with e(2) nl m obtain d where d: "goget (Entries dst) p = Some d" "\<not> IsSymlink d" "IsDir d"
      by (cases "goget (Entries dst) p") (auto simp: src_item_def split: if_splits)
    have "p \<notin> aRelPath ` set (src_unblocks um src dst opts)"
      using d e considered_iff [OF mr] by (fastforce simp: in_src_unblocks dest!: item_unblocks)
    with False nocopy d show ?thesis
      by (simp add: before_removals_def fold_apply_untouched)
  qed
qed

lemma before_removals_file:
  assumes mr: "mirror_run src dst opts" and e: "goget (Entries src) p = Some e" "\<not> IsDir e"
  shows "\<exists>d. before_removals um src dst opts p = Some d \<and> \<not> IsDir d \<and> \<not> IsSymlink d \<and> sameFile e d opts"
proof -
  have ok: "listing_ok src" and nl: "\<not> IsSymlink e" and m: "mirroring opts" and t: "0 \<le> Tolerance opts"
    using mr e by (auto simp: mirror_run_def)
  have c: "considered um src opts p e" using considered_iff [OF mr] e(1) by simp
  have nomk: "p \<notin> aRelPath ` set (all_mkdirs um src dst opts)"
    using mkdir_in_src [OF mr] e by fastforce
  show ?thesis
  proof (cases "p \<in> aRelPath ` set (src_copies um src dst opts)")
    case True
    let ?d = "\<lparr>RelPath = p, Size = Size e, ModTime = ModTime e, IsDir = False, IsSymlink = False\<rparr>"
    have "effect a = Some ?d" if "a \<in> set (src_copies um src dst opts)" "aRelPath a = p" for a
      using kinds_src_copies [OF ok that(1)] that(2) considered_iff [OF mr] e
      by (auto simp: effect_def)
    then have "before_removals um src dst opts p = Some ?d"
      unfolding before_removals_def by (intro fold_apply_touched) (use True in auto)
    moreover have "sameFile e ?d opts" by (rule sameFile_copy [OF t]) simp_all
    ultimately show ?thesis by simp
  next
    case False
    have "ctCopies (src_item opts p e (goget (Entries dst) p)) = []"
    proof (rule ccontr)
      assume "ctCopies (src_item opts p e (goget (Entries dst) p)) \<noteq> []"
      then obtain a where a: "a \<in> set (ctCopies (src_item opts p e (goget (Entries dst) p)))"
        by (metis list.set_sel(1))
      then have "a \<in> set (src_copies um src dst opts)" using c by (auto simp: in_src_copies)
      moreover have "aRelPath a = p" using item_copies [OF a] considered_RelPath [OF ok c] by simp
      ultimately show False using False by blast
    qed
    with e(2) nl m obtain d where d: "goget (Entries dst) p = Some d" "\<not> IsSymlink d" "\<not> IsDir d"
        "sameFile e d opts"
      by (cases "goget (Entries dst) p") (auto simp: src_item_def split: if_splits)
    have "p \<notin> aRelPath ` set (src_unblocks um src dst opts)"
      using d e considered_iff [OF mr] by (fastforce simp: in_src_unblocks dest!: item_unblocks)
    with False nomk d show ?thesis
      by (simp add: before_removals_def fold_apply_untouched)
  qed
qed


lemma final_in_sync:
  assumes "mirror_run src dst opts" and "goget (Entries src) p = Some e"
  shows "\<exists>d. final um src dst opts p = Some d \<and> in_sync opts e d"
  using before_removals_dir [OF assms, of um] before_removals_file [OF assms, of um]
  by (cases "IsDir e") (auto simp: final_present [OF assms(2)] in_sync_def)


section \<open>Map iteration order\<close>

lemma goget_perm: "gomap_ok m \<Longrightarrow> mset m = mset m' \<Longrightarrow> goget m = goget m'"
  unfolding gomap_ok_def
  by (metis map_of_eqI distinct_map map_of_inject_set mset_eq_imp_distinct_iff mset_eq_setD mset_map)

lemma considered_perm:
  assumes "listing_ok src" "listing_ok src'" "mset (Entries src) = mset (Entries src')"
  shows "considered um src opts p e = considered um src' opts p e"
proof -
  have "set (gokeys (Entries src)) = set (gokeys (Entries src'))"
    using assms(3) by (metis mset_map mset_eq_setD)
  moreover have "goget (Entries src) = goget (Entries src')"
    using assms by (intro goget_perm) (simp_all add: listing_ok_def)
  ultimately show ?thesis by (simp add: considered_def in_skipSource assms(1,2))
qed

lemma src_contributions_perm:
  assumes "listing_ok src" "listing_ok src'" "mset (Entries src) = mset (Entries src')"
    and "listing_ok dst" "mset (Entries dst) = mset (Entries dst')"
  shows "src_contributions um src dst opts = src_contributions um src' dst' opts"
proof -
  have "goget (Entries src) = goget (Entries src')" "goget (Entries dst) = goget (Entries dst')"
    using assms by (intro goget_perm; simp add: listing_ok_def)+
  moreover have "sortedKeys (Entries src) = sortedKeys (Entries src')"
    unfolding sortedKeys_def using assms(3) by (intro sort_Strings_unique) (metis mset_map)
  ultimately show ?thesis
    unfolding src_contributions_def src_contribution_considered considered_perm [OF assms(1-3)] by auto
qed

lemma required_loop_cong: "goget d = goget d' \<Longrightarrow> required_loop d hav ds = required_loop d' hav ds"
  by (induction ds arbitrary: hav) simp_all

lemma kept_perm:
  assumes "listing_ok src" "mset (Entries src) = mset (Entries src')" "Errors src = Errors src'"
    and "listing_ok dst" "mset (Entries dst) = mset (Entries dst')"
  shows "kept_deletes um src dst opts = kept_deletes um src' dst' opts"
    and "kept_rmdirs um src dst opts = kept_rmdirs um src' dst' opts"
proof -
  have g: "goget (Entries src) = goget (Entries src')" "goget (Entries dst) = goget (Entries dst')"
    using assms by (intro goget_perm; simp add: listing_ok_def)+
  have "sortedKeys (Entries dst) = sortedKeys (Entries dst')"
    unfolding sortedKeys_def using assms(5) by (intro sort_Strings_unique) (metis mset_map)
  then have x: "extraneous src dst opts = extraneous src' dst' opts"
    by (simp add: extraneous_def g)
  have "set (gokeys (Entries src)) = set (gokeys (Entries src'))"
    using assms(2) by (metis mset_map mset_eq_setD)
  then have cc: "case_clash um src opts = case_clash um src' opts"
    by (intro ext) (metis not_case_clash)
  have "blocked_reason src dst opts = blocked_reason src' dst' opts"
    by (simp only: blocked_reason_def deletionGuard_def Incomplete_def assms(3)
        mset_eq_length [OF assms(2)] mset_eq_length [OF assms(5)])
  then show "kept_deletes um src dst opts = kept_deletes um src' dst' opts"
    and "kept_rmdirs um src dst opts = kept_rmdirs um src' dst' opts"
    by (simp_all add: kept_deletes_def kept_rmdirs_def planned_deletes_def planned_rmdirs_def x cc)
qed


section \<open>Properties\<close>


lemma sample_mirror_run: "mirror_run sample_src sample_dst (sample_opts ModeMirror)"
proof -
  have keys: "goget (Entries sample_src) p = (if p = ''a'' then Some (dir_entry ''a'')
      else if p = ''a/f'' then Some (file_entry ''a/f'' 3 50) else None)" for p
    by (simp add: sample_src_def listing_def dir_entry_def file_entry_def)
  have "beneath d ''a/f'' \<Longrightarrow> d = ''a''" "\<not> beneath d ''a''" for d
    using slash_prefixes_iff [of d "''a/f''"] slash_prefixes_iff [of d "''a''"]
    by (simp_all add: slash_prefixes_def upt_rec)
  then have "tree_closed sample_src"
    unfolding tree_closed_def by (auto simp: in_keys_goget keys dir_entry_def simp del: set_map)
  moreover have "deletionGuard sample_src sample_dst (sample_opts ModeMirror) = []" by code_simp
  ultimately show ?thesis
    using sample_listing_ok
    by (auto simp: mirror_run_def keys dir_entry_def file_entry_def sample_opts_def split: if_splits)
qed




text \<open>
  C25: the plan is deterministic. Listings that hold the same entries give the same actions,
  whatever order Go's map iteration visits them in.
\<close>

theorem Diff_ignores_iteration_order:
  assumes "listing_ok src" "listing_ok src'" "mset (Entries src) = mset (Entries src')"
    and "Errors src = Errors src'"
    and "listing_ok dst" "mset (Entries dst) = mset (Entries dst')"
  shows "Actions (Diff um src dst opts) = Actions (Diff um src' dst' opts)"
proof -
  have "goget (Entries dst) = goget (Entries dst')"
    using assms by (intro goget_perm) (simp_all add: listing_ok_def)
  then have "required_loop (Entries dst) = required_loop (Entries dst')"
    by (intro ext) (rule required_loop_cong)
  then show ?thesis
    using src_contributions_perm [OF assms(1-3,5,6), of um opts]
      kept_perm [OF assms(1,3,4,5,6), of um opts]
    by (simp add: Diff_Actions src_unblocks_def src_copies_def all_mkdirs_def src_mkdirs_def requiredDirs_def)
qed

theorem Diff_ignores_iteration_order_witness:
  "Actions (Diff id sample_src sample_dst (sample_opts ModeMirror))
   = Actions (Diff id (listing [file_entry ''a/f'' 3 50, dir_entry ''a'']) sample_dst (sample_opts ModeMirror))"
  by (rule Diff_ignores_iteration_order)
     (simp_all add: sample_listing_ok, simp_all add: sample_src_def listing_def listing_ok_def gomap_ok_def
        dir_entry_def file_entry_def)

lemma some_removal_planned: "xs \<noteq> [] \<or> ys \<noteq> [] \<Longrightarrow> 0 < int (length xs) + int (length ys)"
  by (cases xs; cases ys) auto

text \<open>
  withheld deletions are counted. In mirror mode the deletions a plan keeps and those it
  withholds add up to all removals the comparison called for; when deletions are blocked the
  plan carries a reason, keeps none of them, and reports at least one as withheld.
\<close>

theorem withheld_deletions_are_counted:
  assumes "Mode opts = ModeMirror"
  shows "Deletes (Diff um src dst opts) + WithheldDeletes (Diff um src dst opts)
       = int (length (planned_deletes um src dst opts))
    \<and> RmDirs (Diff um src dst opts) + WithheldRmDirs (Diff um src dst opts)
       = int (length (planned_rmdirs um src dst opts))
    \<and> (DeletionsBlocked (Diff um src dst opts) \<longrightarrow>
       BlockedReason (Diff um src dst opts) \<noteq> [] \<and> Deletes (Diff um src dst opts) = 0
       \<and> RmDirs (Diff um src dst opts) = 0
       \<and> 0 < WithheldDeletes (Diff um src dst opts) + WithheldRmDirs (Diff um src dst opts))"
  using assms by (auto simp: Diff_def Let_def kept_deletes_def kept_rmdirs_def intro: some_removal_planned)

theorem withheld_deletions_are_counted_witness:
  "let P = Diff id (sample_src\<lparr>Errors := [\<lparr>seRelPath = ''z'', seErr = new_error ''denied'' [ErrPermission]\<rparr>]\<rparr>)
             sample_dst (sample_opts ModeMirror)
   in DeletionsBlocked P \<and> Deletes P = 0 \<and> WithheldDeletes P = 1"
proof -
  let ?s = "sample_src\<lparr>Errors := [\<lparr>seRelPath = ''z'', seErr = new_error ''denied'' [ErrPermission]\<rparr>]\<rparr>"
  let ?P = "Diff id ?s sample_dst (sample_opts ModeMirror)"
  have m: "Mode (sample_opts ModeMirror) = ModeMirror" by (simp add: sample_opts_def)
  have b: "DeletionsBlocked ?P" by code_simp
  have n: "length (planned_deletes id ?s sample_dst (sample_opts ModeMirror)) = 1" by code_simp
  show ?thesis
    using withheld_deletions_are_counted [OF m, of id ?s sample_dst] b n by (simp add: Let_def)
qed

text \<open>
  the comparison, as documented. When two modification times lie less than about 292 years
  apart (so that their difference is a proper \<open>int64\<close>), two files are the same exactly when
  their sizes agree and their times differ by at most the tolerance, or, if whole-hour offsets
  are ignored, differ from one hour by at most the tolerance.
\<close>

theorem sameFile_spec:
  assumes "\<bar>ModTime src - ModTime dst\<bar> \<le> max_int64"
  shows "sameFile src dst opts \<longleftrightarrow>
     Size src = Size dst
     \<and> (\<bar>ModTime src - ModTime dst\<bar> \<le> Tolerance opts
        \<or> IgnoreDSTHour opts \<and> \<bar>\<bar>ModTime src - ModTime dst\<bar> - time_Hour\<bar> \<le> Tolerance opts)"
proof -
  let ?d = "ModTime src - ModTime dst"
  have s: "time_Sub (ModTime src) (ModTime dst) = ?d" using assms by (auto simp: time_Sub_def Let_def abs_le_iff)
  have n: "(if ?d < 0 then wrap64 (- ?d) else ?d) = \<bar>?d\<bar>" using assms by (simp add: in_int64_def)
  have o: "wrap64 (\<bar>?d\<bar> - time_Hour) = \<bar>?d\<bar> - time_Hour" using assms by (simp add: in_int64_def)
  have m: "(if \<bar>?d\<bar> - time_Hour < 0 then wrap64 (- (\<bar>?d\<bar> - time_Hour)) else \<bar>?d\<bar> - time_Hour)
      = \<bar>\<bar>?d\<bar> - time_Hour\<bar>" using assms by (simp add: in_int64_def)
  show ?thesis unfolding sameFile_def Let_def s n o m by auto
qed

theorem sameFile_spec_witness:
  "sameFile (file_entry ''f'' 3 50) (file_entry ''f'' 3 1000000050) (sample_opts ModeMirror)"
  using sameFile_spec [of "file_entry ''f'' 3 50" "file_entry ''f'' 3 1000000050" "sample_opts ModeMirror"]
  by (simp add: file_entry_def sample_opts_def)

text \<open>
  the comparison at the end of the \<open>int64\<close> range. When the source's time lies more than
  about 292 years before the destination's, \<open>Time.Sub\<close> saturates at the smallest duration,
  whose negation is itself; it is below every tolerance, so files of equal size compare as
  the same however different their times are, and a mirror leaves the old file in place.
\<close>

theorem sameFile_saturates:
  assumes "ModTime src - ModTime dst \<le> min_int64" and "0 \<le> Tolerance opts"
  shows "sameFile src dst opts \<longleftrightarrow> Size src = Size dst"
proof -
  have "time_Sub (ModTime src) (ModTime dst) = min_int64" using assms(1) by (auto simp: time_Sub_def Let_def)
  moreover have "wrap64 (- min_int64) = min_int64" by (simp add: wrap64_def)
  ultimately show ?thesis using assms(2) by (simp add: sameFile_def)
qed

theorem sameFile_saturates_witness:
  "sameFile (file_entry ''f'' 3 (- 11644473600000000000)) (file_entry ''f'' 3 1700000000000000000)
     (sample_opts ModeMirror)"
  using sameFile_saturates [of "file_entry ''f'' 3 (- 11644473600000000000)"
      "file_entry ''f'' 3 1700000000000000000" "sample_opts ModeMirror"]
  by (simp add: file_entry_def sample_opts_def)

lemma link_is_cleared:
  assumes "mirror_run src dst opts" and "goget (Entries src) d = Some e" and "IsDir e"
    and "goget (Entries dst) d = Some l" and "IsSymlink l"
  shows "\<exists>u \<in> set (src_unblocks um src dst opts). Kind u = ActionDelete \<and> aRelPath u = d"
    and "\<exists>m \<in> set (all_mkdirs um src dst opts). aRelPath m = d"
proof -
  have c: "considered um src opts d e" and nl: "\<not> IsSymlink e" and m: "mirroring opts"
    using assms considered_iff [OF assms(1)] by (auto simp: mirror_run_def)
  let ?i = "src_item opts d e (goget (Entries dst) d)"
  have i: "ctUnblocks ?i = [(mk_action ActionDelete d
        ''a symlink is where the source has a real file or directory'')\<lparr>Unblock := True\<rparr>]"
    "ctMkdirs ?i = [mk_action ActionMkDir d ''replacing a symlink with a directory'']"
    using assms(3-5) nl m by (simp_all add: src_item_def)
  have "hd (ctUnblocks ?i) \<in> set (src_unblocks um src dst opts)"
    unfolding in_src_unblocks using c by (intro exI [of _ d] exI [of _ e]) (simp add: i)
  then show "\<exists>u \<in> set (src_unblocks um src dst opts). Kind u = ActionDelete \<and> aRelPath u = d"
    by (rule rev_bexI) (simp add: i)
  have "hd (ctMkdirs ?i) \<in> set (all_mkdirs um src dst opts)"
    unfolding all_mkdirs_def set_append Un_iff in_src_mkdirs using c
    by (intro disjI1 exI [of _ d] exI [of _ e]) (simp add: i)
  then show "\<exists>m \<in> set (all_mkdirs um src dst opts). aRelPath m = d"
    by (rule rev_bexI) (simp add: i)
qed

text \<open>
  a mirror does not write through a symbolic link. In the plan of an unfiltered mirror, a
  copy below a directory that is a symbolic link at the destination is preceded by the removal
  of the link and the creation of a real directory in its place.
\<close>

theorem mirror_never_writes_through_links:
  assumes "mirror_run src dst opts" and "Actions (Diff um src dst opts) = xs @ c # ys"
    and "Kind c = ActionCopy" and "beneath d (aRelPath c)"
    and "goget (Entries dst) d = Some l" and "IsSymlink l"
  shows "\<exists>u \<in> set xs. \<exists>m \<in> set xs. Kind u = ActionDelete \<and> aRelPath u = d
     \<and> Kind m = ActionMkDir \<and> aRelPath m = d"
proof -
  have ok: "listing_ok src" using assms(1) by (simp add: mirror_run_def)
  have "c \<in> set (Actions (Diff um src dst opts))" using assms(2) by simp
  then have "c \<in> set (src_copies um src dst opts)"
    using ok assms(3) by (auto simp: in_Actions dest: kinds_src_unblocks in_all_mkdirs in_kept_deletes in_kept_rmdirs)
  then obtain e where e: "goget (Entries src) d = Some e" "IsDir e"
    using copied_below [OF assms(1) _ assms(4)] by blast
  note cleared = link_is_cleared [OF assms(1) e assms(5,6), of um]
  obtain u m where u: "u \<in> set (src_unblocks um src dst opts)" "Kind u = ActionDelete" "aRelPath u = d"
    and m: "m \<in> set (all_mkdirs um src dst opts)" "aRelPath m = d" using cleared by blast
  have uk: "Unblock u" and mk: "Kind m = ActionMkDir" using kinds_src_unblocks [OF u(1)] in_all_mkdirs [OF m(1)] by auto
  have "u \<in> set (xs @ c # ys)" "m \<in> set (xs @ c # ys)"
    unfolding assms(2) [symmetric] using u(1) m(1) by (simp_all add: in_Actions)
  moreover have "u \<notin> set ys" "m \<notin> set ys"
    using well_ordered_Actions [OF ok, of um dst opts] uk mk assms(3)
    by (auto simp: assms(2) sorted_wrt_append well_ordered_def)
  ultimately have "u \<in> set xs" "m \<in> set xs" using u(2) mk assms(3) by auto
  with u m mk show ?thesis by blast
qed

theorem mirror_never_writes_through_links_witness:
  "\<exists>u \<in> set (Actions (Diff id sample_src (listing [link_entry ''a'']) (sample_opts ModeMirror))).
     Kind u = ActionDelete \<and> aRelPath u = ''a''"
proof -
  let ?d = "listing [link_entry ''a'']" and ?o = "sample_opts ModeMirror"
  let ?A = "Actions (Diff id sample_src ?d ?o)"
  have "deletionGuard sample_src ?d ?o = []" by code_simp
  with sample_mirror_run have mr: "mirror_run sample_src ?d ?o" by (simp add: mirror_run_def)
  have A: "map (\<lambda>a. (Kind a, aRelPath a)) ?A = [(ActionDelete, ''a''), (ActionMkDir, ''a''), (ActionCopy, ''a/f'')]"
    by code_simp
  have "length ?A = 3" using arg_cong [OF A, of length] by simp
  then obtain x y c where xyc: "?A = [x, y] @ c # []" by (auto simp: length_Suc_conv numeral_3_eq_3)
  with A have "Kind c = ActionCopy" "beneath ''a'' (aRelPath c)" by (auto simp: beneath_def)
  from mirror_never_writes_through_links [OF mr xyc this, of "link_entry ''a''"] show ?thesis
    unfolding xyc by (auto simp: listing_def link_entry_def)
qed

text \<open>
  update mode does write through a symbolic link. With a directory \<open>d\<close> holding a file at
  the source and a symbolic link \<open>d\<close> at the destination, an update plan reports the conflict
  for \<open>d\<close> and yet creates \<open>d\<close> (which succeeds on a link to a directory) and copies
  \<open>d/f\<close> below it, that is, to wherever the link points.
\<close>

theorem update_writes_through_links:
  "let P = Diff id (listing [dir_entry ''d'', file_entry ''d/f'' 3 50]) (listing [link_entry ''d''])
             (sample_opts ModeUpdate)
   in map (\<lambda>a. (Kind a, aRelPath a)) (Actions P) = [(ActionMkDir, ''d''), (ActionCopy, ''d/f'')]
      \<and> map cRelPath (Conflicts P) = [''d'']"
  by code_simp

text \<open>
  one of two colliding names is copied. At a case-insensitive destination two source files
  whose names differ only in case are reported as skipped, but the first of them is copied.
\<close>

theorem first_of_a_collision_is_copied:
  "let P = Diff id (listing [file_entry ''A'' 1 0, file_entry ''a'' 2 0]) (listing [])
             (sample_opts ModeUpdate\<lparr>CaseInsensitiveDest := True\<rparr>)
   in map (\<lambda>a. (Kind a, aRelPath a)) (Actions P) = [(ActionCopy, ''A'')]
      \<and> map cRelPath (Conflicts P) = [''A'']"
  by code_simp

text \<open>
  an excluded name can shadow a wanted one. With the filter excluding \<open>A\<close> and admitting
  \<open>a\<close>, a case-insensitive destination receives neither: the out-of-scope \<open>A\<close> takes part in
  the collision check, so \<open>a\<close> is skipped.
\<close>

theorem excluded_name_shadows_wanted_one:
  "let m = \<lparr>Admits = (\<lambda>p _. p \<noteq> ''A''), PrunesDir = (\<lambda>_. False), Degraded = (False, [])\<rparr>;
       opts = sample_opts ModeUpdate\<lparr>CaseInsensitiveDest := True, Filter := Some m\<rparr>
   in opts_admits opts ''a'' False
      \<and> Actions (Diff id (listing [file_entry ''A'' 1 0, file_entry ''a'' 2 0]) (listing []) opts) = []"
  by code_simp

end
