(* ===== verification/Engine_Pool.thy ===== *)
theory Engine_Pool
  imports Prelude "HOL-Library.Multiset"
begin

text \<open>
  The worker pool that \<open>runCopies\<close> and \<open>runDeletes\<close> of
  \<^verbatim>\<open>src/internal/engine/executor.go\<close> both spell out: a feeder hands actions to workers over
  an unbuffered channel until there are none left or the context ends; a worker that receives
  an action leaves if the context has ended, and otherwise works on it and, depending on the
  outcome, goes on, leaves, or cancels the context and leaves.

  The work on one action is the parameter \<open>body\<close>, one step on the shared state; it is told
  whether the context has ended by then. \<open>start\<close> is what the worker does before it. The
  scheduler is a list of choices, and \<open>run_pool\<close> carries on by itself when the list is used
  up, so that it is a total function whose values over all lists are all complete runs.
\<close>

section \<open>Model\<close>

datatype verdict = Continue | Return | Abort

record ('a, 's) pool =
  plFeed :: "'a list"
  plFeeding :: bool
  plReceived :: "'a list"
  plRunning :: "'a list"
  plIdle :: nat
  plCancelled :: bool
  plParent :: bool
  plShared :: 's

datatype choice = Hand | StopFeed | CloseFeed | Leave nat | TakeUp nat | Finish nat | Cancel

definition remove_nth :: "nat \<Rightarrow> 'a list \<Rightarrow> 'a list" where
  "remove_nth k xs = take k xs @ drop (Suc k) xs"

fun pool_move ::
  "('a \<Rightarrow> 's \<Rightarrow> 's) \<Rightarrow> (bool \<Rightarrow> 'a \<Rightarrow> 's \<Rightarrow> 's \<times> verdict) \<Rightarrow> choice \<Rightarrow> ('a, 's) pool \<Rightarrow> ('a, 's) pool option" where
  "pool_move start body Hand p =
     (case plFeed p of
        [] \<Rightarrow> None
      | a # as \<Rightarrow>
          if plFeeding p \<and> 0 < plIdle p
          then Some (p\<lparr>plFeed := as, plReceived := plReceived p @ [a], plIdle := plIdle p - 1\<rparr>)
          else None)"
| "pool_move start body StopFeed p = (if plFeeding p \<and> plCancelled p then Some (p\<lparr>plFeeding := False\<rparr>) else None)"
| "pool_move start body CloseFeed p = (if plFeeding p \<and> plFeed p = [] then Some (p\<lparr>plFeeding := False\<rparr>) else None)"
| "pool_move start body (Leave k) p =
     (if k < length (plReceived p) \<and> plCancelled p
      then Some (p\<lparr>plReceived := remove_nth k (plReceived p)\<rparr>) else None)"
| "pool_move start body (TakeUp k) p =
     (if k < length (plReceived p) \<and> \<not> plCancelled p
      then Some (p\<lparr>plReceived := remove_nth k (plReceived p),
                   plRunning := plRunning p @ [plReceived p ! k],
                   plShared := start (plReceived p ! k) (plShared p)\<rparr>) else None)"
| "pool_move start body (Finish k) p =
     (if k < length (plRunning p)
      then let (s, v) = body (plCancelled p) (plRunning p ! k) (plShared p)
           in Some (p\<lparr>plRunning := remove_nth k (plRunning p),
                      plIdle := plIdle p + (if v = Continue then 1 else 0),
                      plCancelled := plCancelled p \<or> v = Abort,
                      plShared := s\<rparr>)
      else None)"
| "pool_move start body Cancel p =
     (if plParent p then None else Some (p\<lparr>plCancelled := True, plParent := True\<rparr>))"

definition pool_done :: "('a, 's) pool \<Rightarrow> bool" where
  "pool_done p \<longleftrightarrow> \<not> plFeeding p \<and> plReceived p = [] \<and> plRunning p = []"

definition pool_init :: "nat \<Rightarrow> 'a list \<Rightarrow> bool \<Rightarrow> bool \<Rightarrow> 's \<Rightarrow> ('a, 's) pool" where
  "pool_init workers as cancelled parent s = \<lparr>plFeed = as, plFeeding = True, plReceived = [], plRunning = [],
     plIdle = workers, plCancelled = cancelled, plParent = parent, plShared = s\<rparr>"

text \<open>The choice that is made when nothing else says which.\<close>

definition default_choice :: "('a, 's) pool \<Rightarrow> choice" where
  "default_choice p =
     (if plRunning p \<noteq> [] then Finish 0
      else if plReceived p \<noteq> [] then (if plCancelled p then Leave 0 else TakeUp 0)
      else if plFeed p = [] then CloseFeed
      else if plCancelled p then StopFeed
      else Hand)"

definition try_move ::
  "('a \<Rightarrow> 's \<Rightarrow> 's) \<Rightarrow> (bool \<Rightarrow> 'a \<Rightarrow> 's \<Rightarrow> 's \<times> verdict) \<Rightarrow> choice \<Rightarrow> ('a, 's) pool \<Rightarrow> ('a, 's) pool" where
  "try_move start body c p = (case pool_move start body c p of None \<Rightarrow> p | Some p' \<Rightarrow> p')"

text \<open>An upper bound on the moves that are left.\<close>

definition pool_weight :: "('a, 's) pool \<Rightarrow> nat" where
  "pool_weight p = 4 * length (plFeed p) + 3 * length (plReceived p) + 2 * length (plRunning p)
     + (if plFeeding p then 1 else 0) + (if plParent p then 0 else 1)"

fun drain ::
  "('a \<Rightarrow> 's \<Rightarrow> 's) \<Rightarrow> (bool \<Rightarrow> 'a \<Rightarrow> 's \<Rightarrow> 's \<times> verdict) \<Rightarrow> nat \<Rightarrow> ('a, 's) pool \<Rightarrow> ('a, 's) pool" where
  "drain start body 0 p = p"
| "drain start body (Suc n) p =
     (if pool_done p then p else drain start body n (try_move start body (default_choice p) p))"

definition run_pool ::
  "('a \<Rightarrow> 's \<Rightarrow> 's) \<Rightarrow> (bool \<Rightarrow> 'a \<Rightarrow> 's \<Rightarrow> 's \<times> verdict) \<Rightarrow> choice list \<Rightarrow> ('a, 's) pool \<Rightarrow> ('a, 's) pool" where
  "run_pool start body sched p =
     (let q = fold (try_move start body) sched p in drain start body (pool_weight q) q)"


section \<open>The pool as a step relation\<close>

definition pool_step ::
  "('a \<Rightarrow> 's \<Rightarrow> 's) \<Rightarrow> (bool \<Rightarrow> 'a \<Rightarrow> 's \<Rightarrow> 's \<times> verdict) \<Rightarrow> ('a, 's) pool \<Rightarrow> ('a, 's) pool \<Rightarrow> bool" where
  "pool_step start body p q \<longleftrightarrow> (\<exists>c. pool_move start body c p = Some q)"

lemma try_move_steps: "(pool_step start body)\<^sup>*\<^sup>* p (try_move start body c p)"
  by (cases "pool_move start body c p") (auto simp: try_move_def pool_step_def intro!: r_into_rtranclp)

lemma fold_steps: "(pool_step start body)\<^sup>*\<^sup>* p (fold (try_move start body) cs p)"
proof (induction cs arbitrary: p)
  case (Cons c cs)
  then show ?case using rtranclp_trans [OF try_move_steps] by fastforce
qed simp

lemma drain_steps: "(pool_step start body)\<^sup>*\<^sup>* p (drain start body n p)"
proof (induction n arbitrary: p)
  case (Suc n)
  then show ?case using rtranclp_trans [OF try_move_steps] by fastforce
qed simp

lemma run_pool_steps: "(pool_step start body)\<^sup>*\<^sup>* p (run_pool start body sched p)"
  unfolding run_pool_def Let_def using rtranclp_trans [OF fold_steps drain_steps] by blast

lemma mset_remove_nth: "k < length xs \<Longrightarrow> mset xs = add_mset (xs ! k) (mset (remove_nth k xs))"
  unfolding remove_nth_def by (subst id_take_nth_drop) simp_all

lemma length_remove_nth: "k < length xs \<Longrightarrow> length (remove_nth k xs) = length xs - 1"
  by (simp add: remove_nth_def)

lemma pool_weight_move: "pool_move start body c p = Some q \<Longrightarrow> pool_weight q < pool_weight p"
  by (cases c) (auto simp: pool_weight_def length_remove_nth Let_def split: list.splits if_splits prod.splits)

text \<open>What the workers have done so far: the actions taken up and finished, in order, with
  whether the context had ended.\<close>

datatype 'a work = Took 'a | Did bool 'a

fun replay ::
  "('a \<Rightarrow> 's \<Rightarrow> 's) \<Rightarrow> (bool \<Rightarrow> 'a \<Rightarrow> 's \<Rightarrow> 's \<times> verdict) \<Rightarrow> 'a work list \<Rightarrow> 's \<Rightarrow> 's" where
  "replay start body [] s = s"
| "replay start body (Took a # log) s = replay start body log (start a s)"
| "replay start body (Did c a # log) s = replay start body log (fst (body c a s))"

lemma replay_append: "replay start body (l @ l') s = replay start body l' (replay start body l s)"
  by (induction start body l s rule: replay.induct) simp_all

fun took :: "'a work list \<Rightarrow> 'a list" where
  "took [] = []" | "took (Took a # l) = a # took l" | "took (Did c a # l) = took l"

fun did :: "'a work list \<Rightarrow> 'a list" where
  "did [] = []" | "did (Took a # l) = did l" | "did (Did c a # l) = a # did l"

lemma took_append [simp]: "took (l @ l') = took l @ took l'"
  by (induction l rule: took.induct) simp_all

lemma did_append [simp]: "did (l @ l') = did l @ did l'"
  by (induction l rule: did.induct) simp_all

text \<open>The shared state is that of a sequential run of the work done; what was taken up is done
  or running; what was fed and not taken up was dropped, which happens only when the context
  has ended.\<close>

definition linearised ::
  "('a \<Rightarrow> 's \<Rightarrow> 's) \<Rightarrow> (bool \<Rightarrow> 'a \<Rightarrow> 's \<Rightarrow> 's \<times> verdict) \<Rightarrow> 'a list \<Rightarrow> 's \<Rightarrow> ('a, 's) pool \<Rightarrow>
   'a work list \<Rightarrow> 'a multiset \<Rightarrow> bool" where
  "linearised start body as s p log dropped \<longleftrightarrow>
     plShared p = replay start body log s
     \<and> mset (did log) + mset (plRunning p) = mset (took log)
     \<and> mset (took log) + mset (plReceived p) + mset (plFeed p) + dropped = mset as
     \<and> (plCancelled p \<or> dropped = {#} \<and> (\<forall>a. Did True a \<notin> set log) \<and> (plFeeding p \<or> plFeed p = []))"

lemma linearised_move:
  assumes "linearised start body as s p log dropped" and "pool_move start body c p = Some q"
  shows "\<exists>log' dropped'. linearised start body as s q log' dropped'"
proof (cases "c \<in> {Hand, StopFeed, CloseFeed, Cancel}")
  case True
  then have "linearised start body as s q log dropped" using assms
    by (auto simp: linearised_def split: list.splits if_splits)
  then show ?thesis by blast
next
  case False
  then show ?thesis
  proof (cases c)
    case (Leave k)
    have "mset (plReceived p) = add_mset (plReceived p ! k) (mset (remove_nth k (plReceived p)))"
      using assms(2) Leave by (intro mset_remove_nth) (auto split: if_splits)
    then have "linearised start body as s q log (add_mset (plReceived p ! k) dropped)"
      using assms Leave by (auto simp: linearised_def split: if_splits)
    then show ?thesis by blast
  next
    case (TakeUp k)
    have "mset (plReceived p) = add_mset (plReceived p ! k) (mset (remove_nth k (plReceived p)))"
      using assms(2) TakeUp by (intro mset_remove_nth) (auto split: if_splits)
    then have "linearised start body as s q (log @ [Took (plReceived p ! k)]) dropped"
      using assms TakeUp by (auto simp: linearised_def replay_append split: if_splits)
    then show ?thesis by blast
  next
    case (Finish k)
    have "mset (plRunning p) = add_mset (plRunning p ! k) (mset (remove_nth k (plRunning p)))"
      using assms(2) Finish by (intro mset_remove_nth) (auto split: if_splits)
    then have "linearised start body as s q (log @ [Did (plCancelled p) (plRunning p ! k)]) dropped"
      using assms Finish by (auto simp: linearised_def replay_append Let_def split: if_splits prod.splits)
    then show ?thesis by blast
  qed simp_all
qed

lemma linearised_reachable:
  assumes "(pool_step start body)\<^sup>*\<^sup>* (pool_init n as c par s) p"
  shows "\<exists>log dropped. linearised start body as s p log dropped"
  using assms
proof (induction rule: rtranclp_induct)
  case base
  have "linearised start body as s (pool_init n as c par s) [] {#}"
    by (simp add: linearised_def pool_init_def)
  then show ?case by blast
next
  case (step p q)
  then show ?case using linearised_move by (fastforce simp: pool_step_def)
qed

text \<open>A complete run is a sequential one, of all the actions unless the context ended.\<close>

lemma pool_linearises:
  assumes "(pool_step start body)\<^sup>*\<^sup>* (pool_init n as c par s) p" and "pool_done p"
  obtains log where "plShared p = replay start body log s" "mset (took log) \<subseteq># mset as"
    "mset (did log) = mset (took log)"
    "\<not> plCancelled p \<Longrightarrow> mset (did log) = mset as \<and> (\<forall>a. Did True a \<notin> set log)"
proof -
  obtain log dropped where l: "linearised start body as s p log dropped"
    using linearised_reachable [OF assms(1)] by blast
  have d: "mset (took log) + mset (plFeed p) + dropped = mset as" "mset (did log) = mset (took log)"
    using l assms(2) by (simp_all add: linearised_def pool_done_def)
  show thesis
  proof (rule that [of log])
    show "mset (took log) \<subseteq># mset as" using d(1) by (metis add.assoc mset_subset_eq_add_left)
    show "mset (did log) = mset as \<and> (\<forall>a. Did True a \<notin> set log)" if "\<not> plCancelled p"
      using l d that assms(2) by (auto simp: linearised_def pool_done_def)
  qed (use l d in \<open>simp_all add: linearised_def\<close>)
qed

text \<open>Invariants, tallies and fold laws carry over from the body to every run.\<close>

lemma replay_invariant:
  assumes "P s" and "\<And>a s. P s \<Longrightarrow> P (start a s)"
    and "\<And>c a s. Did c a \<in> set log \<Longrightarrow> P s \<Longrightarrow> P (fst (body c a s))"
  shows "P (replay start body log s)"
  using assms(1,3)
proof (induction log arbitrary: s)
  case (Cons w log)
  then show ?case by (cases w) (auto intro: assms(2))
qed simp

lemma replay_tally:
  fixes m :: "'s \<Rightarrow> int"
  assumes "\<And>a s. m (start a s) = m s" and "\<And>c a s. Did c a \<in> set log \<Longrightarrow> m (fst (body c a s)) = m s + 1"
  shows "m (replay start body log s) = m s + int (length (did log))"
  using assms(2)
proof (induction log arbitrary: s)
  case (Cons w log)
  then show ?case by (cases w) (auto simp: assms(1))
qed simp

text \<open>When the context has ended, the parent has or some body asked for it.\<close>

lemma pool_cancelled_by:
  assumes "(pool_step start body)\<^sup>*\<^sup>* (pool_init n as c par s) p"
    and "\<And>c a s. snd (body c a s) = Abort \<Longrightarrow> P (fst (body c a s))"
    and "\<And>c a s. P s \<Longrightarrow> P (fst (body c a s))" and "\<And>a s. P s \<Longrightarrow> P (start a s)"
  shows "(par \<longrightarrow> plParent p) \<and> (plCancelled p \<longrightarrow> c \<or> plParent p \<or> P (plShared p))"
  using assms(1)
proof (induction rule: rtranclp_induct)
  case base
  then show ?case by (simp add: pool_init_def)
next
  case (step p q)
  then obtain ch where "pool_move start body ch p = Some q" by (auto simp: pool_step_def)
  then show ?case
  proof (cases ch)
    case (Finish k)
    obtain s v where "body (plCancelled p) (plRunning p ! k) (plShared p) = (s, v)" by fastforce
    then show ?thesis using step.IH \<open>pool_move start body ch p = Some q\<close> Finish
        assms(2) [of "plCancelled p" "plRunning p ! k" "plShared p"]
        assms(3) [of "plShared p" "plCancelled p" "plRunning p ! k"]
      by (auto split: if_splits)
  qed (use step.IH assms(4) in \<open>auto split: list.splits if_splits\<close>)
qed

text \<open>A flag that is raised only together with an abort is raised only if the context has
  ended.\<close>

lemma pool_flag:
  assumes "(pool_step start body)\<^sup>*\<^sup>* (pool_init n as c par s) p" and "\<not> P s"
    and "\<And>c a s. P (fst (body c a s)) \<Longrightarrow> P s \<or> snd (body c a s) = Abort" and "\<And>a s. P (start a s) \<Longrightarrow> P s"
  shows "P (plShared p) \<longrightarrow> plCancelled p"
  using assms(1)
proof (induction rule: rtranclp_induct)
  case base
  then show ?case using assms(2) by (simp add: pool_init_def)
next
  case (step p q)
  then obtain ch where "pool_move start body ch p = Some q" by (auto simp: pool_step_def)
  then show ?case
  proof (cases ch)
    case (Finish k)
    obtain s v where "body (plCancelled p) (plRunning p ! k) (plShared p) = (s, v)" by fastforce
    then show ?thesis using step.IH \<open>pool_move start body ch p = Some q\<close> Finish
        assms(3) [of "plCancelled p" "plRunning p ! k" "plShared p"]
      by (auto split: if_splits)
  qed (use step.IH assms(4) in \<open>auto split: list.splits if_splits\<close>)
qed


section \<open>The pool's contract\<close>

text \<open>What a body has to promise for its pool to finish: a worker goes away without cancelling
  only when the context has ended.\<close>

locale pool_body =
  fixes start :: "'a \<Rightarrow> 's \<Rightarrow> 's"
    and body :: "bool \<Rightarrow> 'a \<Rightarrow> 's \<Rightarrow> 's \<times> verdict"
  assumes returns_when_cancelled: "snd (body c a s) = Return \<Longrightarrow> c"
begin

text \<open>A worker is missing only if the context has ended.\<close>

definition staffed :: "nat \<Rightarrow> ('a, 's) pool \<Rightarrow> bool" where
  "staffed n p \<longleftrightarrow> plCancelled p \<or> n = plIdle p + length (plReceived p) + length (plRunning p)"

lemma staffed_move:
  assumes "staffed n p" and "pool_move start body c p = Some q"
  shows "staffed n q"
proof (cases c)
  case (Finish k)
  obtain s v where b: "body (plCancelled p) (plRunning p ! k) (plShared p) = (s, v)" by fastforce
  then have "v = Return \<Longrightarrow> plCancelled p" using returns_when_cancelled [of "plCancelled p" "plRunning p ! k" "plShared p"] by simp
  then show ?thesis using assms Finish b
    by (cases v) (auto simp: staffed_def length_remove_nth split: if_splits)
qed (use assms in \<open>auto simp: staffed_def length_remove_nth split: list.splits if_splits\<close>)

lemma default_enabled:
  assumes "staffed n p" "0 < n" "\<not> pool_done p" "plFeeding p \<or> plFeed p = [] \<or> plCancelled p"
  shows "pool_move start body (default_choice p) p \<noteq> None"
  using assms by (auto simp: default_choice_def pool_done_def staffed_def neq_Nil_conv split: prod.splits)

lemma drain_done:
  assumes "staffed n p" "0 < n" "plFeeding p \<or> plFeed p = [] \<or> plCancelled p" "pool_weight p \<le> w"
  shows "pool_done (drain start body w p)"
  using assms
proof (induction w arbitrary: p)
  case 0
  then show ?case by (auto simp: pool_weight_def pool_done_def split: if_splits)
next
  case (Suc w)
  show ?case
  proof (cases "pool_done p")
    case False
    obtain q where q: "pool_move start body (default_choice p) p = Some q"
      using default_enabled [OF Suc.prems(1,2) False Suc.prems(3)] by blast
    have "plFeeding q \<or> plFeed q = [] \<or> plCancelled q"
      using q Suc.prems(3) by (cases "default_choice p") (auto split: list.splits if_splits prod.splits)
    then have "pool_done (drain start body w q)"
      using Suc.IH [OF staffed_move [OF Suc.prems(1) q] Suc.prems(2)] pool_weight_move [OF q] Suc.prems(4) by simp
    then show ?thesis using False q by (simp add: try_move_def)
  qed simp
qed

lemma fold_staffed:
  assumes "staffed n p" "plFeeding p \<or> plFeed p = [] \<or> plCancelled p"
  shows "staffed n (fold (try_move start body) cs p)
    \<and> (let q = fold (try_move start body) cs p in plFeeding q \<or> plFeed q = [] \<or> plCancelled q)"
  using assms
proof (induction cs arbitrary: p)
  case (Cons c cs)
  have "staffed n (try_move start body c p)"
    using staffed_move [OF Cons.prems(1)] Cons.prems(1) by (auto simp: try_move_def split: option.splits)
  moreover have "plFeeding q \<or> plFeed q = [] \<or> plCancelled q" if "q = try_move start body c p" for q
    using that Cons.prems(2)
    by (cases c) (auto simp: try_move_def Let_def split: option.splits list.splits if_splits prod.splits)
  ultimately show ?case using Cons.IH by simp
qed simp

lemma run_pool_done: "0 < n \<Longrightarrow> pool_done (run_pool start body sched (pool_init n as c par s))"
  unfolding run_pool_def Let_def
  using fold_staffed [of n "pool_init n as c par s" sched]
  by (intro drain_done [of n]) (auto simp: staffed_def pool_init_def Let_def)

end

end
