(* ===== verification/Engine_Copy.thy ===== *)
theory Engine_Copy
  imports Store_Types
begin

text \<open>
  The copier, \<^verbatim>\<open>src/internal/engine/copier.go\<close>: one durable file copy through a temporary
  file, its retry policy and the inactivity watchdog.

  The destination directory is a map from names to files (content and modification time).
  What the operating system answers to each call is the parameter \<open>copy_env\<close>: a call may
  fail, a read may be short, a write may be partial, and a rename that timed out may still
  have taken effect, because \<open>bounded\<close> abandons the call without undoing it.
\<close>

section \<open>Error classes and retry policy\<close>

definition transport_errnos :: "errno list" where
  "transport_errnos = [EIO, EHOSTDOWN, EHOSTUNREACH, ETIMEDOUT, ECONNRESET, ECONNABORTED,
     ECONNREFUSED, ENOTCONN, ENETDOWN, ENETUNREACH, EPIPE, ESTALE, ENODEV]"

definition TransportError :: "goerr \<Rightarrow> bool" where
  "TransportError e \<longleftrightarrow>
     (if errors_Is e ErrStalled then True else list_ex (\<lambda>n. errors_Is e (Errno n)) transport_errnos)"

definition retryable :: "goerr \<Rightarrow> bool" where
  "retryable e \<longleftrightarrow>
     (if errors_Is e Canceled \<or> errors_Is e DeadlineExceeded then False
      else if errors_Is e ErrSourceVanished \<or> errors_Is e ErrNotExist then False
      else if errors_Is e ErrDestinationLocked then False
      else if errors_Is e ErrPermission then False
      else if errors_Is e (Errno ENOSPC) \<or> errors_Is e (Errno EDQUOT) then False
      else if errors_Is e (Errno EROFS) then False
      else True)"

abbreviation time_Second :: duration where "time_Second \<equiv> 1000000000"

definition DefaultRetryBackoff :: "duration list" where
  "DefaultRetryBackoff = [time_Second, 5 * time_Second, 15 * time_Second]"

definition attemptsFor :: "duration list \<Rightarrow> nat" where
  "attemptsFor backoff = (if length backoff + 1 < 3 then length backoff + 1 else 3)"

definition DefaultBufferSize :: int where "DefaultBufferSize = 4194304"
definition minBufferSize :: int where "minBufferSize = 65536"

definition buffer_size :: "int \<Rightarrow> int" where
  "buffer_size configured =
     (let size = (if configured \<le> 0 then DefaultBufferSize else configured)
      in if size < minBufferSize then minBufferSize else size)"

lemma buffer_size_min: "minBufferSize \<le> buffer_size n"
  by (simp add: buffer_size_def DefaultBufferSize_def minBufferSize_def Let_def)


section \<open>Temporary names\<close>

definition tempWrapper :: string where "tempWrapper = ''..0123456789abcdef.tmp''"

definition temp_base :: "string \<Rightarrow> string" where
  "temp_base base =
     (let overflow = length base + length tempWrapper
      in if overflow > 255 then take (length base - (overflow - 255)) base else base)"

text \<open>\<open>hex\<close> is the encoding of eight random bytes.\<close>

definition temp_name :: "string \<Rightarrow> string \<Rightarrow> string" where
  "temp_name base hex = ''.'' @ temp_base base @ ''.'' @ hex @ ''.tmp''"

lemma temp_base_length: "length (temp_base base) = min (length base) 233"
  by (simp add: temp_base_def tempWrapper_def Let_def)

lemma temp_name_length: "length hex = 16 \<Longrightarrow> length (temp_name base hex) = min (length base + 22) 255"
  by (simp add: temp_name_def temp_base_length)

lemma temp_name_differs:
  assumes "length hex = 16" and "length base \<noteq> 255 \<or> \<not> HasSuffix base ''.tmp''"
  shows "temp_name base hex \<noteq> base"
proof
  assume eq: "temp_name base hex = base"
  then have "length base = 255" using temp_name_length [OF assms(1), of base] by simp
  moreover have "HasSuffix (temp_name base hex) ''.tmp''" by (simp add: temp_name_def HasSuffix_def suffix_def)
  ultimately show False using assms(2) eq by simp
qed

text \<open>\<open>filepath.Base\<close>, \<open>Dir\<close> and \<open>Join\<close> on cleaned paths.\<close>

definition filepath_Base :: "string \<Rightarrow> string" where
  "filepath_Base p = rev (takeWhile (\<lambda>c. c \<noteq> slash) (rev p))"

definition filepath_Dir :: "string \<Rightarrow> string" where
  "filepath_Dir p =
     (case dropWhile (\<lambda>c. c \<noteq> slash) (rev p) of
        [] \<Rightarrow> ''.''
      | _ # r \<Rightarrow> if r = [] then ''/'' else rev r)"

definition filepath_Join :: "string \<Rightarrow> string \<Rightarrow> string" where
  "filepath_Join dir name =
     (if dir = ''.'' then name else if dir = ''/'' then slash # name else dir @ slash # name)"

definition temp_path :: "string \<Rightarrow> string \<Rightarrow> string" where
  "temp_path dst hex = filepath_Join (filepath_Dir dst) (temp_name (filepath_Base dst) hex)"

lemma Base_Join:
  assumes "slash \<notin> set name"
  shows "filepath_Base (filepath_Join dir name) = name"
proof -
  have "takeWhile (\<lambda>c. c \<noteq> slash) (rev name @ slash # ys) = rev name" for ys
    using assms by (subst takeWhile_append2) auto
  moreover have "takeWhile (\<lambda>c. c \<noteq> slash) (rev name) = rev name"
    using assms by (auto simp: takeWhile_eq_all_conv)
  ultimately show ?thesis
    by (simp add: filepath_Base_def filepath_Join_def del: takeWhile_eq_all_conv)
qed

lemma Base_no_slash: "slash \<notin> set (filepath_Base p)"
  by (auto simp: filepath_Base_def dest: set_takeWhileD)

lemma temp_path_differs:
  assumes "length hex = 16" "slash \<notin> set hex"
    and "length (filepath_Base dst) \<noteq> 255 \<or> \<not> HasSuffix (filepath_Base dst) ''.tmp''"
  shows "temp_path dst hex \<noteq> dst"
proof
  assume "temp_path dst hex = dst"
  moreover have "slash \<notin> set (temp_name (filepath_Base dst) hex)"
    using assms(2) Base_no_slash [of dst] by (auto simp: temp_name_def temp_base_def Let_def dest: in_set_takeD)
  ultimately have "temp_name (filepath_Base dst) hex = filepath_Base dst"
    using Base_Join unfolding temp_path_def by metis
  then show False using temp_name_differs [OF assms(1,3)] by simp
qed


section \<open>The buffered loop\<close>

text \<open>
  What the calls of one attempt answer, by iteration: an error of the context, how many bytes
  a read delivers and its error, and how much of a chunk a write takes.
\<close>

record copy_env =
  ceOpen :: "goerr option"
  ceSource :: string
  ceTemp :: "goerr option"
  ceCtx :: "nat \<Rightarrow> goerr option"
  ceReadLen :: "nat \<Rightarrow> nat"
  ceReadErr :: "nat \<Rightarrow> goerr option"
  ceWrite :: "nat \<Rightarrow> nat \<Rightarrow> nat \<times> goerr option"
  ceSync :: "goerr option"
  ceClose :: "goerr option"
  ceChtimes :: "goerr option"
  ceRename :: "goerr option"
  ceRenamed :: bool  \<comment> \<open>whether the rename took effect\<close>
  ceLocked :: bool  \<comment> \<open>\<open>renameBlockedByLock\<close>: never off Windows\<close>
  ceRemoveErr :: bool  \<comment> \<open>whether removing the temporary file fails\<close>
  ceNow :: gotime

text \<open>
  \<open>copyBuffered\<close> from iteration \<open>i\<close> with \<open>rest\<close> of the source unread and a buffer of \<open>n\<close>
  bytes: the bytes written, in chunks, and the error. A read at the end of the file is
  \<open>io.EOF\<close>; a chunk's report to \<open>onBytes\<close> is its length.
\<close>

definition read_len :: "copy_env \<Rightarrow> nat \<Rightarrow> nat \<Rightarrow> nat" where
  "read_len env n i = max 1 (min n (ceReadLen env i))"

function copyBuffered :: "copy_env \<Rightarrow> nat \<Rightarrow> nat \<Rightarrow> string \<Rightarrow> string list \<times> goerr option" where
  "copyBuffered env n i rest =
     (case ceCtx env i of
        Some e \<Rightarrow> ([], Some e)
      | None \<Rightarrow>
          (case ceReadErr env i of
             Some e \<Rightarrow> ([], Some e)
           | None \<Rightarrow>
               if rest = [] then ([], None)
               else
                 let chunk = take (read_len env n i) rest;
                     (nw, writeErr) = ceWrite env i (length chunk);
                     out = (if nw > 0 then [take nw chunk] else [])
                 in case writeErr of
                      Some e \<Rightarrow> (out, Some e)
                    | None \<Rightarrow>
                        if nw \<noteq> length chunk then (out, Some (new_error ''short write'' [ErrShortWrite]))
                        else
                          let (more, e) = copyBuffered env n (Suc i) (drop (read_len env n i) rest)
                          in (out @ more, e)))"
  by pat_completeness auto
termination
  by (relation "measure (\<lambda>(env, n, i, rest). length rest)") (auto simp: read_len_def)

declare copyBuffered.simps [simp del]

text \<open>What was written is the beginning of the source, and all of it unless there was an error
  (\<open>io.Writer\<close> never takes more than it is given, which \<open>take\<close> says here).\<close>

lemma copyBuffered_prefix:
  "prefix (concat (fst (copyBuffered env n i rest))) rest
    \<and> (snd (copyBuffered env n i rest) = None \<longrightarrow> concat (fst (copyBuffered env n i rest)) = rest)"
proof (induction env n i rest rule: copyBuffered.induct)
  case (1 env n i rest)
  let ?r = "read_len env n i"
  let ?c = "take ?r rest"
  obtain nw we where w: "ceWrite env i (length ?c) = (nw, we)" by fastforce
  obtain more e where m: "copyBuffered env n (Suc i) (drop ?r rest) = (more, e)" by fastforce
  let ?out = "if nw > 0 then [take nw ?c] else []"
  have out: "concat ?out = take nw ?c" by simp
  have pre: "prefix (take nw ?c) rest" by (simp add: take_is_prefix flip: min.commute)
  consider (early) "ceCtx env i \<noteq> None \<or> ceReadErr env i \<noteq> None \<or> rest = []"
    | (go) "ceCtx env i = None" "ceReadErr env i = None" "rest \<noteq> []" by fast
  then show ?case
  proof cases
    case early
    then show ?thesis by (subst (1 2 3) copyBuffered.simps) (auto split: option.splits)
  next
    case go
    note step = copyBuffered.simps [of env n i rest, unfolded go option.case if_False Let_def w prod.case m if_not_P [OF go(3)]]
    show ?thesis
    proof (cases "we = None \<and> nw = length ?c")
      case True
      then have IH: "prefix (concat more) (drop ?r rest) \<and> (e = None \<longrightarrow> concat more = drop ?r rest)"
        using 1 [OF go refl w [symmetric] refl] m by simp
      have tn: "take nw ?c = ?c" using True by (metis order_refl take_all)
      have "concat ?out = ?c" using out tn by (rule trans)
      then have "concat (?out @ more) = ?c @ concat more" by (simp only: concat_append)
      moreover have "prefix (?c @ concat more) rest" using IH by (metis append_take_drop_id same_prefix_prefix)
      ultimately show ?thesis using True IH step by (simp split: if_splits)
    next
      case False
      then show ?thesis using step pre out by (cases we) (simp_all split: if_splits)
    qed
  qed
qed



section \<open>One attempt\<close>

type_synonym directory = "string \<rightharpoonup> string \<times> gotime"

text \<open>What one attempt did: its answer to the caller, the reports it made to \<open>onBytes\<close>, and the
  states the destination directory went through, the last one last.\<close>

record attempt =
  atWritten :: int
  atErr :: "goerr option"
  atReports :: "int list"

definition reports :: "string list \<Rightarrow> int list" where
  "reports chunks = map (\<lambda>c. int (length c)) chunks"

fun staged :: "string \<Rightarrow> string list \<Rightarrow> string list" where
  "staged done_so_far [] = []"
| "staged done_so_far (c # cs) = (done_so_far @ c) # staged (done_so_far @ c) cs"

text \<open>The deferred clean-up, and the error of the first failing call among those between the
  last write and the rename.\<close>

definition removeTemp :: "copy_env \<Rightarrow> string \<Rightarrow> directory \<Rightarrow> directory" where
  "removeTemp env tmp d = (if ceRemoveErr env then d else d(tmp := None))"

definition finish_err :: "copy_env \<Rightarrow> gotime \<Rightarrow> string \<Rightarrow> goerr option" where
  "finish_err env modTime dst =
     (case ceSync env of
        Some e \<Rightarrow> Some e
      | None \<Rightarrow>
          (case ceClose env of
             Some e \<Rightarrow> Some (wrap (''closing '' @ dst @ '': '') e)
           | None \<Rightarrow> if modTime \<noteq> zero_time then ceChtimes env else None))"

definition stamp :: "copy_env \<Rightarrow> gotime \<Rightarrow> gotime" where
  "stamp env modTime = (if modTime \<noteq> zero_time then modTime else ceNow env)"

definition copyOnceBlocking ::
  "copy_env \<Rightarrow> nat \<Rightarrow> string \<Rightarrow> string \<Rightarrow> string \<Rightarrow> gotime \<Rightarrow> directory \<Rightarrow> attempt \<times> directory list" where
  "copyOnceBlocking env n hex src dst modTime d =
     (let tmp = temp_path dst hex;
          quit = (\<lambda>e. (\<lparr>atWritten = 0, atErr = Some e, atReports = []\<rparr>, [d])) in
      case ceOpen env of
        Some e \<Rightarrow>
          if errors_Is e ErrNotExist
          then quit (new_error (src @ '': the file no longer exists at the source'') [ErrSourceVanished])
          else quit (wrap (''opening '' @ src @ '': '') e)
      | None \<Rightarrow>
          (case (if tmp \<in> dom d then Some (new_error ''file exists'' []) else ceTemp env) of
             Some e \<Rightarrow> quit (wrap (''creating a temporary file in '' @ filepath_Dir dst @ '': '') e)
           | None \<Rightarrow>
               let (chunks, err) = copyBuffered env n 0 (ceSource env);
                   content = concat chunks;
                   written = sum_list (reports chunks);
                   result = (\<lambda>e. \<lparr>atWritten = written, atErr = e, atReports = reports chunks\<rparr>);
                   states = map (\<lambda>c. d(tmp \<mapsto> (c, ceNow env))) ([] # staged [] chunks)
               in case err of
                    Some e \<Rightarrow> (result (Some e), d # states @ [removeTemp env tmp (last states)])
                  | None \<Rightarrow>
                      (case finish_err env modTime dst of
                         Some e \<Rightarrow> (result (Some e), d # states @ [removeTemp env tmp (last states)])
                       | None \<Rightarrow>
                           let ready = d(tmp \<mapsto> (content, stamp env modTime));
                               renamed = (if ceRenamed env
                                          then ready(dst \<mapsto> (content, stamp env modTime), tmp := None) else ready)
                           in case ceRename env of
                                Some e \<Rightarrow>
                                  (result (Some (if ceLocked env
                                     then new_error (dst @ '': another process has the destination file open'') [ErrDestinationLocked]
                                     else e)),
                                   d # states @ [ready, renamed, removeTemp env tmp renamed])
                              | None \<Rightarrow> (result None, d # states @ [ready, renamed]))))"

text \<open>A rename that reports success has taken effect.\<close>

definition rename_ok :: "copy_env \<Rightarrow> bool" where
  "rename_ok env \<longleftrightarrow> (ceRename env = None \<longrightarrow> ceRenamed env)"

lemma staged_last: "last (a # staged a cs) = a @ concat cs"
  by (induction cs arbitrary: a) auto


text \<open>The shape of an attempt: it never starts, it fails before the rename, or it gets there.\<close>

lemma copyOnceBlocking_cases:
  assumes "copyOnceBlocking env n hex src dst modTime d = (a, ds)"
  obtains (unstarted) e where "a = \<lparr>atWritten = 0, atErr = Some e, atReports = []\<rparr>" "ds = [d]"
  | (aborted) chunks err e where "temp_path dst hex \<notin> dom d"
      "copyBuffered env n 0 (ceSource env) = (chunks, err)"
      "a = \<lparr>atWritten = sum_list (reports chunks), atErr = Some e, atReports = reports chunks\<rparr>"
      "ds = d # map (\<lambda>c. d(temp_path dst hex \<mapsto> (c, ceNow env))) ([] # staged [] chunks)
         @ [removeTemp env (temp_path dst hex) (d(temp_path dst hex \<mapsto> (concat chunks, ceNow env)))]"
  | (renamed) chunks r where "temp_path dst hex \<notin> dom d"
      "copyBuffered env n 0 (ceSource env) = (chunks, None)"
      "r = (if ceRenamed env then d(temp_path dst hex \<mapsto> (concat chunks, stamp env modTime),
         dst \<mapsto> (concat chunks, stamp env modTime), temp_path dst hex := None)
         else d(temp_path dst hex \<mapsto> (concat chunks, stamp env modTime)))"
      "atWritten a = sum_list (reports chunks)" "atReports a = reports chunks"
      "atErr a = None \<longleftrightarrow> ceRename env = None"
      "ds = d # map (\<lambda>c. d(temp_path dst hex \<mapsto> (c, ceNow env))) ([] # staged [] chunks)
         @ [d(temp_path dst hex \<mapsto> (concat chunks, stamp env modTime)), r]
         @ (if ceRename env = None then [] else [removeTemp env (temp_path dst hex) r])"
proof -
  obtain chunks err where cb: "copyBuffered env n 0 (ceSource env) = (chunks, err)" by fastforce
  let ?tmp = "temp_path dst hex" and ?upd = "\<lambda>c. d(temp_path dst hex \<mapsto> (c, ceNow env))"
  have l: "last (map ?upd ([] # staged [] chunks)) = ?upd (concat chunks)"
    by (subst last_map) (simp_all add: staged_last del: last.simps)
  show thesis
  proof (cases "ceOpen env = None \<and> ?tmp \<notin> dom d \<and> ceTemp env = None")
    case False
    then show thesis using assms unstarted
      by (fastforce simp: copyOnceBlocking_def Let_def split: option.splits if_splits)
  next
    case True
    note start = assms [unfolded copyOnceBlocking_def Let_def cb prod.case True [THEN conjunct1]
        True [THEN conjunct2, THEN conjunct2] option.case if_not_P [OF True [THEN conjunct2, THEN conjunct1]] l]
    consider (fails) e where "err = Some e \<or> err = None \<and> finish_err env modTime dst = Some e"
      | (works) "err = None" "finish_err env modTime dst = None" by (cases err; cases "finish_err env modTime dst") auto
    then show thesis
    proof cases
      case fails
      then show thesis using start by (intro aborted [of chunks err e]) (use True cb in auto)
    next
      case works
      then show thesis using start cb True by (intro renamed [of chunks]) (auto split: option.splits)
    qed
  qed
qed



section \<open>The watchdog\<close>

text \<open>
  How the wait for one attempt ends: the attempt finishes, or after \<open>k\<close> of its reports the
  stall timer fires or the context ends. An abandoned attempt runs on, and \<open>late\<close> further
  reports of it arrive. \<open>stallTimeout\<close> is the configured time as it is printed.
\<close>

datatype watchdog = Finishes | Stalls nat nat | CtxDone nat nat goerr

definition copyOnce :: "string \<Rightarrow> string \<Rightarrow> attempt \<Rightarrow> watchdog \<Rightarrow> attempt \<times> int list" where
  "copyOnce stallTimeout src a w =
     (case w of
        Finishes \<Rightarrow> (a, [])
      | Stalls k late \<Rightarrow>
          (\<lparr>atWritten = sum_list (take k (atReports a)),
            atErr = Some (new_error (''copying '' @ src @ '': the copy stopped making progress after '' @ stallTimeout) [ErrStalled]),
            atReports = take k (atReports a)\<rparr>, take late (drop k (atReports a)))
      | CtxDone k late e \<Rightarrow>
          (\<lparr>atWritten = sum_list (take k (atReports a)), atErr = Some e,
            atReports = take k (atReports a)\<rparr>, take late (drop k (atReports a))))"


section \<open>The retry loop\<close>

record copy_result =
  BytesCopied :: int
  Attempts :: int

text \<open>
  What the calls of \<open>Copy\<close> answer, by attempt: the context before it, the attempt itself with
  the reports that arrive after it was abandoned, whether the executor still wants a retry
  (\<open>None\<close>: no such callback), and the context during the wait after it.
\<close>

record retry_env =
  reCtx :: "nat \<Rightarrow> goerr option"
  reOnce :: "nat \<Rightarrow> attempt \<times> int list"
  reShouldRetry :: "(nat \<Rightarrow> goerr \<Rightarrow> bool) option"
  reWait :: "nat \<Rightarrow> goerr option"

definition discard :: "int \<Rightarrow> int list" where
  "discard written = (if written > 0 then [- written] else [])"

definition cancelled_copy :: "string \<Rightarrow> goerr \<Rightarrow> goerr" where
  "cancelled_copy src e = wrap (''copying '' @ src @ '' was cancelled: '') e"

definition gave_up :: "int \<Rightarrow> goerr \<Rightarrow> goerr" where
  "gave_up n lastErr =
     (if TransportError lastErr
      then wrap2 ErrShareUnreachable (''the share stopped responding after '' @ fmt_int n @ '' attempts: '') lastErr
      else wrap (''gave up after '' @ fmt_int n @ '' attempts: '') lastErr)"

text \<open>\<open>c.ShouldRetry != nil && !c.ShouldRetry(err)\<close> after attempt \<open>k\<close>.\<close>

definition vetoed :: "retry_env \<Rightarrow> nat \<Rightarrow> goerr \<Rightarrow> bool" where
  "vetoed env k e = (case reShouldRetry env of None \<Rightarrow> False | Some f \<Rightarrow> \<not> f k e)"

text \<open>The loop from attempt \<open>k\<close> with \<open>m\<close> attempts left after it: the result, the error and the
  calls of \<open>onBytes\<close>.\<close>

fun copy_loop ::
  "retry_env \<Rightarrow> string \<Rightarrow> nat \<Rightarrow> nat \<Rightarrow> copy_result \<Rightarrow> copy_result \<times> goerr option \<times> int list" where
  "copy_loop env src k m result =
     (case reCtx env k of
        Some e \<Rightarrow> (result, Some (cancelled_copy src e), [])
      | None \<Rightarrow>
          let result = result\<lparr>Attempts := int k + 1\<rparr>;
              (a, late) = reOnce env k
          in case atErr a of
               None \<Rightarrow> (result\<lparr>BytesCopied := atWritten a\<rparr>, None, atReports a @ late)
             | Some err \<Rightarrow>
                 let log = atReports a @ discard (atWritten a) @ late in
                 if \<not> retryable err then (result, Some err, log)
                 else if vetoed env k err
                 then (result, Some (wrap2 ErrShareUnreachable ''the share stopped responding: '' err), log)
                 else
                   case m of
                     0 \<Rightarrow> (result, Some (gave_up (Attempts result) err), log)
                   | Suc m' \<Rightarrow>
                       (case reWait env k of
                          Some e \<Rightarrow> (result, Some (cancelled_copy src e), log)
                        | None \<Rightarrow>
                            let (r, e, more) = copy_loop env src (Suc k) m' result
                            in (r, e, log @ more)))"

definition Copy ::
  "retry_env \<Rightarrow> string \<Rightarrow> duration list option \<Rightarrow> copy_result \<times> goerr option \<times> int list" where
  "Copy env src backoff =
     (let b = (case backoff of None \<Rightarrow> DefaultRetryBackoff | Some b \<Rightarrow> b)
      in copy_loop env src 0 (attemptsFor b - 1) \<lparr>BytesCopied = 0, Attempts = 0\<rparr>)"

declare copy_loop.simps [simp del]



section \<open>Properties\<close>

text \<open>
  C8: a copy is atomic and leaves nothing behind. At every moment of an attempt the
  destination name holds what it held before or the complete source with its modification
  time, and no third file is touched. A successful attempt ends with the latter and reports
  every byte; a failed one removes its temporary file (unless that removal itself fails) and
  leaves the destination as it was unless the rename had in fact taken effect.
\<close>

theorem copy_is_atomic:
  assumes "copyOnceBlocking env n hex src dst modTime d = (a, ds)"
    and "temp_path dst hex \<noteq> dst" and "rename_ok env"
  shows "(\<forall>s \<in> set ds. (s dst = d dst \<or> s dst = Some (ceSource env, stamp env modTime))
           \<and> (\<forall>q. q \<noteq> dst \<longrightarrow> q \<noteq> temp_path dst hex \<longrightarrow> s q = d q))
    \<and> (atErr a = None \<longrightarrow> last ds = d(dst \<mapsto> (ceSource env, stamp env modTime))
         \<and> atWritten a = int (length (ceSource env)))
    \<and> (atErr a \<noteq> None \<longrightarrow> \<not> ceRemoveErr env \<longrightarrow>
         last ds = d \<or> ceRenamed env \<and> last ds = d(dst \<mapsto> (ceSource env, stamp env modTime)))
    \<and> sum_list (atReports a) = atWritten a"
  using assms(1)
proof (cases rule: copyOnceBlocking_cases)
  case (unstarted e)
  then show ?thesis by simp
next
  case (aborted chunks err e)
  then show ?thesis using assms(2) by (auto simp: removeTemp_def dom_def fun_eq_iff)
next
  case (renamed chunks r)
  have c: "concat chunks = ceSource env"
    using copyBuffered_prefix [of env n 0 "ceSource env"] renamed(2) by simp
  have len: "sum_list (reports chunks) = int (length (concat chunks))"
    by (induction chunks) (simp_all add: reports_def)
  have new: "d (temp_path dst hex) = None" using renamed(1) by blast
  have r: "r dst = d dst \<or> r dst = Some (ceSource env, stamp env modTime)"
    "\<And>q. q \<noteq> dst \<Longrightarrow> q \<noteq> temp_path dst hex \<Longrightarrow> r q = d q"
    "r = (if ceRenamed env then d(dst \<mapsto> (ceSource env, stamp env modTime))
       else d(temp_path dst hex \<mapsto> (ceSource env, stamp env modTime)))"
    using renamed(3) assms(2) new unfolding c by (auto simp: fun_eq_iff)
  have l: "last ds = (if ceRename env = None then r else removeTemp env (temp_path dst hex) r)"
    by (simp add: renamed(7))
  have "\<forall>s \<in> set ds. (s dst = d dst \<or> s dst = Some (ceSource env, stamp env modTime))
           \<and> (\<forall>q. q \<noteq> dst \<longrightarrow> q \<noteq> temp_path dst hex \<longrightarrow> s q = d q)"
    using assms(2) r(1,2) unfolding renamed(7) c by (auto simp: removeTemp_def)
  moreover have "atErr a = None \<longrightarrow> last ds = d(dst \<mapsto> (ceSource env, stamp env modTime))"
    using r(3) l renamed(6) assms(3) by (simp add: rename_ok_def)
  moreover have "\<not> ceRemoveErr env \<Longrightarrow> removeTemp env (temp_path dst hex) r
      = (if ceRenamed env then d(dst \<mapsto> (ceSource env, stamp env modTime)) else d)"
    using new assms(2) unfolding r(3) removeTemp_def by (auto simp: fun_eq_iff)
  ultimately show ?thesis using renamed(4-6) l len c by auto
qed

definition calm_env :: copy_env where
  "calm_env = \<lparr>ceOpen = None, ceSource = ''hello'', ceTemp = None, ceCtx = (\<lambda>_. None), ceReadLen = (\<lambda>_. 2),
     ceReadErr = (\<lambda>_. None), ceWrite = (\<lambda>_ n. (n, None)), ceSync = None, ceClose = None, ceChtimes = None,
     ceRename = None, ceRenamed = True, ceLocked = False, ceRemoveErr = False, ceNow = 99\<rparr>"

definition sample_hex :: string where "sample_hex = ''0123456789abcdef''"

lemma sample_temp_path: "temp_path ''/dst/f'' sample_hex \<noteq> ''/dst/f''"
  by code_simp

theorem copy_is_atomic_witness:
  "last (snd (copyOnceBlocking calm_env 3 sample_hex ''/src/f'' ''/dst/f'' 50 Map.empty)) ''/dst/f''
     = Some (''hello'', 50)
   \<and> last (snd (copyOnceBlocking (calm_env\<lparr>ceSync := Some (new_error ''no space'' [Errno ENOSPC])\<rparr>) 3 sample_hex
        ''/src/f'' ''/dst/f'' 50 Map.empty)) = Map.empty"
proof -
  let ?bad = "calm_env\<lparr>ceSync := Some (new_error ''no space'' [Errno ENOSPC])\<rparr>"
  let ?run = "\<lambda>env. copyOnceBlocking env 3 sample_hex ''/src/f'' ''/dst/f'' 50 Map.empty"
  have r: "rename_ok calm_env" "rename_ok ?bad" by (simp_all add: rename_ok_def calm_env_def)
  have e: "atErr (fst (?run calm_env)) = None" "atErr (fst (?run ?bad)) \<noteq> None" by code_simp+
  have s: "ceSource calm_env = ''hello''" "stamp calm_env 50 = 50" "ceRemoveErr ?bad = False" by code_simp+
  have "last (snd (?run calm_env)) ''/dst/f'' = Some (''hello'', 50)"
    using copy_is_atomic [OF prod.collapse [symmetric] sample_temp_path r(1), of 3 "''/src/f''" 50 Map.empty] e(1) s(1,2)
    by simp
  moreover have "last (snd (?run ?bad)) = Map.empty \<or> last (snd (?run ?bad)) ''/dst/f'' \<noteq> None"
    using copy_is_atomic [OF prod.collapse [symmetric] sample_temp_path r(2), of 3 "''/src/f''" 50 Map.empty] e(2) s(3)
    by auto
  moreover have "last (snd (?run ?bad)) ''/dst/f'' = None" by code_simp
  ultimately show ?thesis by blast
qed

text \<open>
  temporary names fit and are different. The name a copy is staged under has at most 255
  bytes, whatever the length of the target's name, and is not the target's own, unless that
  already has 255 bytes and ends in \<open>.tmp\<close>.
\<close>

theorem temp_name_fits:
  assumes "length hex = 16" and "slash \<notin> set hex"
  shows "length (temp_name (filepath_Base dst) hex) \<le> 255
    \<and> (length (filepath_Base dst) \<noteq> 255 \<or> \<not> HasSuffix (filepath_Base dst) ''.tmp'' \<longrightarrow> temp_path dst hex \<noteq> dst)"
  using temp_name_length [OF assms(1)] temp_path_differs [OF assms] by simp

theorem temp_name_fits_witness:
  "length (temp_name (replicate 250 CHR ''x'') sample_hex) \<le> 255 \<and> temp_path ''/d/f'' sample_hex \<noteq> ''/d/f''"
proof -
  have h: "length sample_hex = 16" "slash \<notin> set sample_hex" by (simp_all add: sample_hex_def)
  have b: "filepath_Base (replicate 250 CHR ''x'') = replicate 250 CHR ''x''" "length (filepath_Base ''/d/f'') \<noteq> 255"
    by (simp add: filepath_Base_def) code_simp
  show ?thesis
    using temp_name_fits [OF h, of "replicate 250 CHR ''x''"] temp_name_fits [OF h, of "''/d/f''"] b by simp
qed


text \<open>Attempts as \<open>copyOnce\<close> gives them: what was reported adds up to what was written.\<close>

definition consistent :: "attempt \<Rightarrow> bool" where
  "consistent a \<longleftrightarrow> sum_list (atReports a) = atWritten a \<and> 0 \<le> atWritten a"

lemma reports_nonneg: "0 \<le> sum_list (reports chunks)"
  by (induction chunks) (simp_all add: reports_def)

lemma copyOnceBlocking_consistent:
  assumes "copyOnceBlocking env n hex src dst modTime d = (a, ds)"
  shows "consistent a \<and> (\<forall>x \<in> set (atReports a). 0 \<le> x)"
  using assms
  by (cases rule: copyOnceBlocking_cases) (auto simp: consistent_def reports_nonneg, auto simp: reports_def)

lemma copyOnce_consistent:
  assumes "consistent a" "\<forall>x \<in> set (atReports a). 0 \<le> x"
  shows "consistent (fst (copyOnce timeout src a w))"
  using assms by (cases w) (auto simp: copyOnce_def consistent_def dest: in_set_takeD intro: sum_list_nonneg)

text \<open>The loop, one iteration at a time.\<close>

lemma copy_loop_attempts:
  "copy_loop env src k m r0 = (r, e, log) \<Longrightarrow> Attempts r0 = int k \<Longrightarrow>
    Attempts r \<le> int k + int m + 1 \<and> int k \<le> Attempts r \<and> (e = None \<longrightarrow> int k < Attempts r)"
proof (induction m arbitrary: k r0 r e log)
  case 0
  then show ?case by (subst (asm) copy_loop.simps) (auto simp: Let_def split: option.splits prod.splits if_splits)
next
  case (Suc m)
  obtain a late where o: "reOnce env k = (a, late)" by fastforce
  obtain r' e' more where rec: "copy_loop env src (Suc k) m (r0\<lparr>Attempts := int k + 1\<rparr>) = (r', e', more)"
    by (metis prod_cases3)
  from Suc.IH [OF rec] have "Attempts r' \<le> int k + int (Suc m) + 1" "int k < Attempts r'" by auto
  then show ?case using Suc.prems rec o
    by (subst (asm) copy_loop.simps) (auto simp: Let_def split: option.splits if_splits)
qed

lemma copy_loop_balance:
  assumes "copy_loop env src k m r0 = (r, e, log)"
    and "\<And>j. consistent (fst (reOnce env j)) \<and> snd (reOnce env j) = []" and "BytesCopied r0 = 0"
  shows "sum_list log = (if e = None then BytesCopied r else 0)"
  using assms(1,3)
proof (induction m arbitrary: k r0 r e log)
  case 0
  obtain a where o: "reOnce env k = (a, [])" using assms(2) [of k] by (metis prod.collapse)
  have "sum_list (atReports a) = atWritten a \<and> 0 \<le> atWritten a" using assms(2) [of k] o by (simp add: consistent_def)
  then show ?case using 0 o
    by (subst (asm) copy_loop.simps) (auto simp: Let_def discard_def split: option.splits if_splits)
next
  case (Suc m)
  obtain a where o: "reOnce env k = (a, [])" using assms(2) [of k] by (metis prod.collapse)
  have c: "sum_list (atReports a) = atWritten a \<and> 0 \<le> atWritten a" using assms(2) [of k] o by (simp add: consistent_def)
  obtain r' e' more where rec: "copy_loop env src (Suc k) m (r0\<lparr>Attempts := int k + 1\<rparr>) = (r', e', more)"
    by (metis prod_cases3)
  have "sum_list more = (if e' = None then BytesCopied r' else 0)" using Suc.IH [OF rec] Suc.prems(2) by simp
  then show ?case using Suc.prems rec o c
    by (subst (asm) copy_loop.simps) (auto simp: Let_def discard_def split: option.splits if_splits)
qed

lemma copy_loop_recovers:
  assumes "\<And>i. i < j \<Longrightarrow> \<exists>e. atErr (fst (reOnce env (k + i))) = Some e \<and> retryable e
        \<and> \<not> vetoed env (k + i) e"
    and "\<And>i. reCtx env i = None" "\<And>i. reWait env i = None"
    and "atErr (fst (reOnce env (k + j))) = None" "j \<le> m"
  shows "\<exists>r log. copy_loop env src k m r0 = (r, None, log) \<and> Attempts r = int (k + j) + 1
    \<and> BytesCopied r = atWritten (fst (reOnce env (k + j)))"
  using assms(1,4,5)
proof (induction j arbitrary: k m r0)
  case 0
  obtain a late where "reOnce env k = (a, late)" by fastforce
  then show ?case using 0 assms(2) by (subst copy_loop.simps) (simp add: Let_def)
next
  case (Suc j)
  obtain a late where o: "reOnce env k = (a, late)" by fastforce
  obtain e where e: "atErr a = Some e" "retryable e" "\<not> vetoed env k e"
    using Suc.prems(1) [of 0] o by auto
  obtain m' where m: "m = Suc m'" using Suc.prems(3) by (cases m) auto
  have "\<exists>r log. copy_loop env src (Suc k) m' (r0\<lparr>Attempts := int k + 1\<rparr>) = (r, None, log)
      \<and> Attempts r = int (Suc k + j) + 1 \<and> BytesCopied r = atWritten (fst (reOnce env (Suc k + j)))"
    using Suc.prems(1) [of "Suc _"] Suc.prems(2,3) m by (intro Suc.IH) auto
  then show ?case using o e m assms(2,3)
    by (subst copy_loop.simps) (auto simp: Let_def split: option.splits)
qed

text \<open>
  retries are bounded. A copy makes at least one attempt and at most three unless the
  context had already ended, and at most one more than it has delays.
\<close>

theorem copy_attempts_bounded:
  assumes "Copy env src backoff = (r, e, log)"
  shows "Attempts r \<le> 3 \<and> (\<forall>b. backoff = Some b \<longrightarrow> Attempts r \<le> int (length b) + 1)
    \<and> (e = None \<longrightarrow> 1 \<le> Attempts r)"
  using copy_loop_attempts [OF assms [unfolded Copy_def Let_def]]
  by (auto simp: attemptsFor_def split: option.splits if_splits)

definition flaky :: retry_env where
  "flaky = \<lparr>reCtx = (\<lambda>_. None),
     reOnce = (\<lambda>k. if k < 2
       then (\<lparr>atWritten = 4, atErr = Some (new_error ''connection reset'' [Errno ECONNRESET]), atReports = [3, 1]\<rparr>, [])
       else (\<lparr>atWritten = 9, atErr = None, atReports = [3, 3, 3]\<rparr>, [])),
     reShouldRetry = None, reWait = (\<lambda>_. None)\<rparr>"

theorem copy_attempts_bounded_witness: "Attempts (fst (Copy flaky ''f'' (Some [1]))) \<le> 2"
  using copy_attempts_bounded [of flaky "''f''" "Some [1]" "fst (Copy flaky ''f'' (Some [1]))"
      "fst (snd (Copy flaky ''f'' (Some [1])))" "snd (snd (Copy flaky ''f'' (Some [1])))"] by simp

text \<open>
  progress balances. When no attempt was abandoned with reports still to come, the calls
  of \<open>onBytes\<close> over a whole copy, retries included, add up to the bytes of the file if the
  copy succeeded and to nothing if it failed.
\<close>

theorem copy_progress_balances:
  assumes "Copy env src backoff = (r, e, log)"
    and "\<And>k. consistent (fst (reOnce env k)) \<and> snd (reOnce env k) = []"
  shows "sum_list log = (if e = None then BytesCopied r else 0)"
  using assms(1) unfolding Copy_def Let_def by (rule copy_loop_balance) (simp_all add: assms(2))

theorem copy_progress_balances_witness:
  "Copy flaky ''f'' None = (\<lparr>BytesCopied = 9, Attempts = 3\<rparr>, None, [3, 1, -4, 3, 1, -4, 3, 3, 3])
   \<and> sum_list [3, 1, -4, 3, 1, -4, 3, 3, 3 :: int] = 9"
proof -
  have c: "Copy flaky ''f'' None = (\<lparr>BytesCopied = 9, Attempts = 3\<rparr>, None, [3, 1, -4, 3, 1, -4, 3, 3, 3])"
    by code_simp
  have k: "consistent (fst (reOnce flaky k)) \<and> snd (reOnce flaky k) = []" for k
    by (simp add: flaky_def consistent_def)
  show ?thesis using copy_progress_balances [OF c] k c by simp
qed

text \<open>
  a copy gets through transient errors. If the attempts before number \<open>j\<close> fail with
  errors worth retrying that the executor does not veto, attempt \<open>j\<close> succeeds, and the
  context stays alive, the copy succeeds with that attempt's bytes.
\<close>

theorem copy_recovers:
  assumes "\<And>i. i < j \<Longrightarrow> \<exists>e. atErr (fst (reOnce env i)) = Some e \<and> retryable e
        \<and> \<not> vetoed env i e"
    and "\<And>i. reCtx env i = None" "\<And>i. reWait env i = None"
    and "atErr (fst (reOnce env j)) = None"
    and "j < attemptsFor (case backoff of None \<Rightarrow> DefaultRetryBackoff | Some b \<Rightarrow> b)"
  shows "\<exists>r log. Copy env src backoff = (r, None, log) \<and> Attempts r = int j + 1
    \<and> BytesCopied r = atWritten (fst (reOnce env j))"
  using copy_loop_recovers [of j env 0 "attemptsFor (case backoff of None \<Rightarrow> DefaultRetryBackoff | Some b \<Rightarrow> b) - 1"
      src "\<lparr>BytesCopied = 0, Attempts = 0\<rparr>"] assms
  unfolding Copy_def Let_def by simp

theorem copy_recovers_witness: "\<exists>r log. Copy flaky ''f'' None = (r, None, log) \<and> BytesCopied r = 9"
  using copy_recovers [of 2 flaky None "''f''"]
  by (auto simp: flaky_def retryable_def vetoed_def attemptsFor_def DefaultRetryBackoff_def)

text \<open>
  an abandoned attempt can leave phantom progress. The stall timer fires after the first
  chunk of an attempt; one more chunk of it is reported after the rewind. The retry succeeds
  with nine bytes, but twelve have been reported.
\<close>

theorem late_reports_are_not_rewound:
  "let a = \<lparr>atWritten = 9, atErr = None, atReports = [3, 3, 3]\<rparr>;
       env = flaky\<lparr>reOnce := (\<lambda>k. if k = 0 then copyOnce ''30s'' ''f'' a (Stalls 1 1) else copyOnce ''30s'' ''f'' a Finishes)\<rparr>;
       (r, e, log) = Copy env ''f'' None
   in e = None \<and> BytesCopied r = 9 \<and> sum_list log = 12"
  by code_simp

lemma copy_loop_unreachable:
  assumes "copy_loop env src k m r0 = (r, Some e, log)" and "errors_Is e ErrShareUnreachable"
    and "\<And>j x. atErr (fst (reOnce env j)) = Some x \<Longrightarrow> \<not> errors_Is x ErrShareUnreachable"
    and "\<And>j x. reCtx env j = Some x \<or> reWait env j = Some x \<Longrightarrow> \<not> errors_Is x ErrShareUnreachable"
  shows "\<exists>j x. atErr (fst (reOnce env j)) = Some x \<and> retryable x
    \<and> (TransportError x \<or> vetoed env j x)"
  using assms(1)
proof (induction m arbitrary: k r0 log)
  case 0
  obtain a late where "reOnce env k = (a, late)" by fastforce
  then show ?case using 0 assms(2) assms(3) [of k] assms(4) [of k]
    by (subst (asm) copy_loop.simps)
       (auto simp: Let_def gave_up_def cancelled_copy_def split: option.splits if_splits, (metis fst_conv)+)
next
  case (Suc m)
  obtain a late where o: "reOnce env k = (a, late)" by fastforce
  obtain r' e' more where rec: "copy_loop env src (Suc k) m (r0\<lparr>Attempts := int k + 1\<rparr>) = (r', e', more)"
    by (metis prod_cases3)
  show ?case using Suc.prems assms(2) assms(3) [of k] assms(4) [of k] o rec Suc.IH
    by (subst (asm) copy_loop.simps)
       (auto simp: Let_def cancelled_copy_def split: option.splits if_splits, (metis fst_conv)+)
qed

text \<open>
  which failures count as a dead share. A copy fails with \<open>ErrShareUnreachable\<close> only
  after an attempt whose error was worth retrying and either is a transport error or was
  vetoed by the executor; in particular an attempt that ran into a deadline of a bounded
  call is returned as it is.
\<close>

theorem dead_share_verdict:
  assumes "Copy env src backoff = (r, Some e, log)" and "errors_Is e ErrShareUnreachable"
    and "\<And>j x. atErr (fst (reOnce env j)) = Some x \<or> reCtx env j = Some x \<or> reWait env j = Some x \<Longrightarrow>
      \<not> errors_Is x ErrShareUnreachable"
  shows "\<exists>j x. atErr (fst (reOnce env j)) = Some x \<and> \<not> errors_Is x DeadlineExceeded
    \<and> (TransportError x \<or> vetoed env j x)"
proof -
  obtain j x where "atErr (fst (reOnce env j)) = Some x" "retryable x"
    "TransportError x \<or> vetoed env j x"
    using copy_loop_unreachable [OF assms(1) [unfolded Copy_def Let_def] assms(2)] assms(3) by blast
  moreover have "\<not> errors_Is x DeadlineExceeded" using \<open>retryable x\<close> by (auto simp: retryable_def split: if_splits)
  ultimately show ?thesis by blast
qed

theorem dead_share_verdict_witness:
  "\<exists>j x. atErr (fst (reOnce flaky j)) = Some x \<and> TransportError x"
proof -
  let ?c = "Copy flaky ''f'' (Some [1])"
  have "fst (snd ?c) \<noteq> None \<and> errors_Is (the (fst (snd ?c))) ErrShareUnreachable" by code_simp
  then obtain e where e: "fst (snd ?c) = Some e" "errors_Is e ErrShareUnreachable" by auto
  then have "?c = (fst ?c, Some e, snd (snd ?c))" by (simp add: prod_eq_iff)
  moreover have "\<not> errors_Is x ErrShareUnreachable"
    if "atErr (fst (reOnce flaky j)) = Some x \<or> reCtx flaky j = Some x \<or> reWait flaky j = Some x" for j x
    using that by (auto simp: flaky_def split: if_splits)
  ultimately have "\<exists>j x. atErr (fst (reOnce flaky j)) = Some x \<and> \<not> errors_Is x DeadlineExceeded
      \<and> (TransportError x \<or> vetoed flaky j x)" by (rule dead_share_verdict [OF _ e(2)])
  moreover have "\<not> vetoed flaky j x" for j x by (simp add: vetoed_def flaky_def)
  ultimately show ?thesis by blast
qed

end
