(* ===== verification/Engine_Exec.thy ===== *)
theory Engine_Exec
  imports Engine_Diff Engine_Pool Engine_Track Engine_Copy
begin

text \<open>
  The executor, \<^verbatim>\<open>src/internal/engine/executor.go\<close>: \<open>Execute\<close> carries out a plan stage by
  stage, the copies and the deletions on a worker pool (theory \<open>Engine_Pool\<close>).

  The destination tree is a value of an arbitrary type \<open>'fs\<close>, and what the calls that change
  it answer is the parameter \<open>exec_env\<close>: \<open>boundedRemove\<close>, \<open>boundedMkdirAll\<close> and
  \<open>Copier.Copy\<close> with the reports it makes. When the context ends and how the workers
  interleave is the parameter \<open>exec_schedule\<close>: for the sequential stages the number of
  actions after which the context is found to have ended, for the pools a list of choices.
\<close>

section \<open>State\<close>

record event =
  evLevel :: event_level
  evRelPath :: string
  evMessage :: string

record failure =
  flRelPath :: string
  flKind :: action_kind
  flErr :: goerr

record exec_options =
  xoWorkers :: int
  xoOnError :: error_policy
  xoDeletePolicy :: delete_policy
  xoLogEveryFile :: bool

record exec_result =
  DirsCreated :: int
  FilesCopied :: int
  TotalBytes :: int  \<comment> \<open>\<open>ExecResult.BytesCopied\<close>\<close>
  FilesDeleted :: int
  DirsRemoved :: int
  Skipped :: int
  Failures :: "failure list"
  DeletionsSkipped :: bool
  Aborted :: bool
  ShareUnreachable :: bool

definition exec_Failed :: "exec_result \<Rightarrow> bool" where
  "exec_Failed r \<longleftrightarrow> length (Failures r) > 0"

definition empty_exec_result :: exec_result where
  "empty_exec_result = \<lparr>DirsCreated = 0, FilesCopied = 0, TotalBytes = 0, FilesDeleted = 0, DirsRemoved = 0,
     Skipped = 0, Failures = [], DeletionsSkipped = False, Aborted = False, ShareUnreachable = False\<rparr>"

record 'fs exec_state =
  esFs :: 'fs
  esResult :: exec_result
  esEvents :: "event list"
  esTracker :: "tracker option"

record 'fs exec_env =
  xeRemove :: "string \<Rightarrow> 'fs \<Rightarrow> goerr option \<times> 'fs"
  xeMkdirAll :: "string \<Rightarrow> 'fs \<Rightarrow> goerr option \<times> 'fs"
  xeCopy :: "bool \<Rightarrow> action \<Rightarrow> 'fs \<Rightarrow> (copy_result \<times> goerr option \<times> int list) \<times> 'fs"
  xeNow :: gotime

record exec_schedule =
  xsClear :: "nat option"
  xsMkdirs :: "nat option"
  xsCopies :: "choice list"
  xsDeletes :: "choice list"
  xsRmdirs :: "nat option"
  xsEnd :: bool

definition emit :: "event_level \<Rightarrow> string \<Rightarrow> string \<Rightarrow> 'fs exec_state \<Rightarrow> 'fs exec_state" where
  "emit lvl rel msg st = st\<lparr>esEvents := esEvents st @ [\<lparr>evLevel = lvl, evRelPath = rel, evMessage = msg\<rparr>]\<rparr>"

abbreviation on_exec_result :: "(exec_result \<Rightarrow> exec_result) \<Rightarrow> 'fs exec_state \<Rightarrow> 'fs exec_state" where
  "on_exec_result f st \<equiv> st\<lparr>esResult := f (esResult st)\<rparr>"

definition add_failure :: "action_kind \<Rightarrow> string \<Rightarrow> goerr \<Rightarrow> 'fs exec_state \<Rightarrow> 'fs exec_state" where
  "add_failure k rel e =
     on_exec_result (\<lambda>r. r\<lparr>Failures := Failures r @ [\<lparr>flRelPath = rel, flKind = k, flErr = e\<rparr>]\<rparr>)"

definition on_tracker :: "(tracker \<Rightarrow> tracker) \<Rightarrow> 'fs exec_state \<Rightarrow> 'fs exec_state" where
  "on_tracker f st = st\<lparr>esTracker := map_option f (esTracker st)\<rparr>"

definition ctx_ended :: goerr where
  "ctx_ended = new_error ''context canceled'' [Canceled]"

text \<open>Whether a removal counts as done: a path that is already gone does.\<close>

definition removal_failed :: "goerr option \<Rightarrow> bool" where
  "removal_failed e = (case e of None \<Rightarrow> False | Some err \<Rightarrow> \<not> errors_Is err ErrNotExist)"


section \<open>Sequential stages\<close>

definition tick :: "nat option \<Rightarrow> nat option" where
  "tick c = map_option (\<lambda>n. n - 1) c"

definition clear_one :: "'fs exec_env \<Rightarrow> action \<Rightarrow> 'fs exec_state \<Rightarrow> 'fs exec_state" where
  "clear_one env a st =
     (let (e, fs) = xeRemove env (aRelPath a) (esFs st); st1 = st\<lparr>esFs := fs\<rparr> in
      if removal_failed e
      then emit LevelError (aRelPath a) (''could not clear the path ('' @ Reason a @ ''): '' @ err_text (the e))
             (add_failure (Kind a) (aRelPath a) (the e) st1)
      else emit LevelWarn (aRelPath a) (''cleared the path at the destination: '' @ Reason a)
             (on_exec_result (\<lambda>r. if Kind a = ActionRmDir then r\<lparr>DirsRemoved := DirsRemoved r + 1\<rparr>
                                 else r\<lparr>FilesDeleted := FilesDeleted r + 1\<rparr>) st1))"

fun clearBlockers ::
  "'fs exec_env \<Rightarrow> nat option \<Rightarrow> action list \<Rightarrow> 'fs exec_state \<Rightarrow> 'fs exec_state \<times> goerr option" where
  "clearBlockers env c [] st = (st, None)"
| "clearBlockers env c (a # as) st =
     (if c = Some 0 then (st, Some ctx_ended) else clearBlockers env (tick c) as (clear_one env a st))"

definition mkdir_one :: "'fs exec_env \<Rightarrow> action \<Rightarrow> 'fs exec_state \<Rightarrow> 'fs exec_state" where
  "mkdir_one env a st =
     (let (e, fs) = xeMkdirAll env (aRelPath a) (esFs st); st1 = st\<lparr>esFs := fs\<rparr> in
      case e of
        Some err \<Rightarrow> emit LevelError (aRelPath a) (''could not create the directory: '' @ err_text err)
                     (add_failure ActionMkDir (aRelPath a) err st1)
      | None \<Rightarrow> on_exec_result (\<lambda>r. r\<lparr>DirsCreated := DirsCreated r + 1\<rparr>) st1)"

fun mkdir_loop ::
  "'fs exec_env \<Rightarrow> nat option \<Rightarrow> action list \<Rightarrow> 'fs exec_state \<Rightarrow> 'fs exec_state \<times> goerr option" where
  "mkdir_loop env c [] st = (st, None)"
| "mkdir_loop env c (a # as) st =
     (if c = Some 0 then (st, Some ctx_ended) else mkdir_loop env (tick c) as (mkdir_one env a st))"

definition makeDirs ::
  "'fs exec_env \<Rightarrow> nat option \<Rightarrow> action list \<Rightarrow> 'fs exec_state \<Rightarrow> 'fs exec_state \<times> goerr option" where
  "makeDirs env c as st =
     mkdir_loop env c as (if as \<noteq> [] then on_tracker (SetPhase PhaseCopying) st else st)"

definition rmdir_one :: "'fs exec_env \<Rightarrow> action \<Rightarrow> 'fs exec_state \<Rightarrow> 'fs exec_state" where
  "rmdir_one env a st =
     (let (e, fs) = xeRemove env (aRelPath a) (esFs st); st1 = st\<lparr>esFs := fs\<rparr> in
      if removal_failed e
      then emit LevelWarn (aRelPath a) (''could not remove the directory: '' @ err_text (the e)) st1
      else emit LevelInfo (aRelPath a) (''removed the directory: '' @ Reason a)
             (on_exec_result (\<lambda>r. r\<lparr>DirsRemoved := DirsRemoved r + 1\<rparr>) st1))"

fun removeDirs :: "'fs exec_env \<Rightarrow> nat option \<Rightarrow> action list \<Rightarrow> 'fs exec_state \<Rightarrow> 'fs exec_state" where
  "removeDirs env c [] st = st"
| "removeDirs env c (a # as) st =
     (if c = Some 0 then st else removeDirs env (tick c) as (rmdir_one env a st))"


section \<open>Copies\<close>

text \<open>The atomics of \<open>runCopies\<close>. They are \<open>int64\<close> counts of files and bytes of one run.\<close>

record copy_counters =
  ccBytes :: int
  ccFiles :: int
  ccSkipped :: int
  ccAborted :: bool
  ccShareGone :: bool

definition copy_counters0 :: copy_counters where
  "copy_counters0 = \<lparr>ccBytes = 0, ccFiles = 0, ccSkipped = 0, ccAborted = False, ccShareGone = False\<rparr>"

text \<open>\<open>confirmShareGone\<close>: the outcomes of up to three probes of the destination, and whether
  the context ends during the wait after one.\<close>

fun confirm_loop :: "(nat \<Rightarrow> bool) \<Rightarrow> (nat \<Rightarrow> bool) \<Rightarrow> nat \<Rightarrow> nat \<Rightarrow> bool" where
  "confirm_loop answers ended i 0 = True"
| "confirm_loop answers ended i (Suc n) =
     (if answers i then False
      else if n = 0 then True
      else if ended i then True
      else confirm_loop answers ended (Suc i) n)"

definition confirmShareGone :: "(nat \<Rightarrow> bool) \<Rightarrow> (nat \<Rightarrow> bool) \<Rightarrow> bool" where
  "confirmShareGone answers ended = confirm_loop answers ended 0 3"

text \<open>The \<open>ShouldRetry\<close> callback: its answer, and the flag \<open>shareGone\<close> after it.\<close>

definition ShouldRetry :: "bool \<Rightarrow> (nat \<Rightarrow> bool) \<Rightarrow> (nat \<Rightarrow> bool) \<Rightarrow> goerr \<Rightarrow> bool \<times> bool" where
  "ShouldRetry shareGone answers ended e =
     (if \<not> TransportError e then (True, shareGone)
      else if shareGone then (False, shareGone)
      else if confirmShareGone answers ended then (False, True)
      else (True, shareGone))"

definition copy_start :: "'fs exec_env \<Rightarrow> action \<Rightarrow> 'fs exec_state \<times> copy_counters \<Rightarrow> 'fs exec_state \<times> copy_counters" where
  "copy_start env a s = (on_tracker (StartFile (aRelPath a) (aSize a) (xeNow env)) (fst s), snd s)"

definition copied_message :: "action \<Rightarrow> int \<Rightarrow> string" where
  "copied_message a n =
     (if Overwrite a then ''updated'' else ''copied'') @ '', '' @ fmt_int n @ '' bytes ('' @ Reason a @ '')''"

definition copy_body ::
  "'fs exec_env \<Rightarrow> exec_options \<Rightarrow> bool \<Rightarrow> action \<Rightarrow> 'fs exec_state \<times> copy_counters \<Rightarrow>
   ('fs exec_state \<times> copy_counters) \<times> verdict" where
  "copy_body env opts cancelled a s =
     (let rel = aRelPath a;
          ((res, err, reps), fs) = xeCopy env cancelled a (esFs (fst s));
          st = on_tracker (fold (AddFileBytes rel) reps) ((fst s)\<lparr>esFs := fs\<rparr>);
          c = (snd s)\<lparr>ccBytes := ccBytes (snd s) + sum_list reps\<rparr>
      in case err of
           None \<Rightarrow>
             (let st = on_tracker (FinishFile rel True) st;
                  st = (if Overwrite a \<or> xoLogEveryFile opts
                        then emit LevelInfo rel (copied_message a (BytesCopied res)) st else st)
              in ((st, c\<lparr>ccFiles := ccFiles c + 1\<rparr>), Continue))
         | Some e \<Rightarrow>
             if errors_Is e ErrSourceVanished then
               ((emit LevelWarn rel ''skipped: the file no longer exists at the source''
                   (on_tracker (FinishFile rel True) st), c\<lparr>ccSkipped := ccSkipped c + 1\<rparr>), Continue)
             else if errors_Is e Canceled then ((on_tracker (FinishFile rel False) st, c), Return)
             else
               let st = emit LevelError rel (''copy failed: '' @ err_text e)
                          (add_failure ActionCopy rel e (on_tracker (FinishFile rel False) st))
               in if errors_Is e sentinel.ErrShareUnreachable
                  then ((st, c\<lparr>ccShareGone := True, ccAborted := True\<rparr>), Abort)
                  else if xoOnError opts = ErrorPolicyAbort then ((st, c\<lparr>ccAborted := True\<rparr>), Abort)
                  else ((st, c), Continue))"

definition DefaultWorkers :: int where "DefaultWorkers = 1"

definition exec_workers :: "exec_options \<Rightarrow> nat" where
  "exec_workers opts = nat (if xoWorkers opts \<le> 0 then DefaultWorkers else xoWorkers opts)"

text \<open>The stage on a pool: the new state, and whether \<open>execCtx\<close> and its parent have ended.\<close>

definition runCopies ::
  "'fs exec_env \<Rightarrow> exec_options \<Rightarrow> choice list \<Rightarrow> action list \<Rightarrow> 'fs exec_state \<Rightarrow> 'fs exec_state \<times> bool \<times> bool" where
  "runCopies env opts sched as st =
     (if as = [] then (st, False, False)
      else
        let p = run_pool (copy_start env) (copy_body env opts) sched
                  (pool_init (exec_workers opts) as False False
                     (on_tracker (SetPhase PhaseCopying) st, copy_counters0));
            (st, c) = plShared p;
            st = on_exec_result (\<lambda>r. r\<lparr>FilesCopied := ccFiles c, TotalBytes := ccBytes c,
                                        Skipped := ccSkipped c, Aborted := ccAborted c\<rparr>) st;
            st = (if ccAborted c then
                    (if ccShareGone c
                     then emit LevelError [] ''aborting the run: the destination stopped responding''
                            (on_exec_result (\<lambda>r. r\<lparr>ShareUnreachable := True\<rparr>) st)
                     else emit LevelError [] ''aborting the run: this job is set to stop on the first error'' st)
                  else st)
        in (st, plCancelled p, plParent p))"


section \<open>Deletions\<close>

record delete_counters =
  dcDeleted :: int
  dcAborted :: bool

definition delete_body ::
  "'fs exec_env \<Rightarrow> exec_options \<Rightarrow> bool \<Rightarrow> action \<Rightarrow> 'fs exec_state \<times> delete_counters \<Rightarrow>
   ('fs exec_state \<times> delete_counters) \<times> verdict" where
  "delete_body env opts cancelled a s =
     (let rel = aRelPath a;
          (e, fs) = xeRemove env rel (esFs (fst s));
          st = (fst s)\<lparr>esFs := fs\<rparr>
      in if removal_failed e then
           let st = emit LevelError rel (''could not delete: '' @ err_text (the e))
                      (add_failure ActionDelete rel (the e) st)
           in if xoOnError opts = ErrorPolicyAbort then ((st, (snd s)\<lparr>dcAborted := True\<rparr>), Abort)
              else ((st, snd s), Continue)
         else
           ((emit LevelInfo rel (''deleted '' @ fmt_int (aSize a) @ '' bytes: '' @ Reason a)
               (on_tracker (AddDeleted 1) st), (snd s)\<lparr>dcDeleted := dcDeleted (snd s) + 1\<rparr>), Continue))"

definition runDeletes ::
  "'fs exec_env \<Rightarrow> exec_options \<Rightarrow> choice list \<Rightarrow> action list \<Rightarrow> bool \<Rightarrow> bool \<Rightarrow> 'fs exec_state \<Rightarrow>
   'fs exec_state \<times> bool \<times> bool" where
  "runDeletes env opts sched as cancelled parent st =
     (if as = [] then (st, cancelled, parent)
      else
        let p = run_pool (\<lambda>a s. s) (delete_body env opts) sched
                  (pool_init (exec_workers opts) as cancelled parent
                     (on_tracker (SetPhase PhaseDeleting) st, \<lparr>dcDeleted = 0, dcAborted = False\<rparr>));
            (st, c) = plShared p
        in (on_exec_result (\<lambda>r. r\<lparr>FilesDeleted := dcDeleted c, Aborted := Aborted r \<or> dcAborted c\<rparr>) st,
            plCancelled p, plParent p))"


section \<open>The whole execution\<close>

definition partition_plan ::
  "plan \<Rightarrow> action list \<times> action list \<times> action list \<times> action list \<times> action list" where
  "partition_plan p =
     (filter Unblock (Actions p),
      filter (\<lambda>a. \<not> Unblock a \<and> Kind a = ActionMkDir) (Actions p),
      filter (\<lambda>a. \<not> Unblock a \<and> Kind a = ActionCopy) (Actions p),
      filter (\<lambda>a. \<not> Unblock a \<and> Kind a = ActionDelete) (Actions p),
      filter (\<lambda>a. \<not> Unblock a \<and> Kind a = ActionRmDir) (Actions p))"

definition locked_paths :: "exec_result \<Rightarrow> string list" where
  "locked_paths r = map flRelPath (filter (\<lambda>f. errors_Is (flErr f) ErrDestinationLocked) (Failures r))"

definition summariseLockedFiles :: "'fs exec_state \<Rightarrow> 'fs exec_state" where
  "summariseLockedFiles st =
     (let locked = locked_paths (esResult st) in
      if locked = [] then st
      else
        let suffix = (if length locked > 5
                      then '' (and '' @ fmt_nat (length locked - 5) @ '' more, listed individually above)'' else [])
        in emit LevelWarn []
             (fmt_nat (length locked) @ '' file(s) were not copied because another process had the destination open: ''
              @ Join (take 5 locked) '', '' @ suffix
              @ ''; they are not retried, and the next run will pick them up'') st)"

definition announce_deletes :: "action list \<Rightarrow> action list \<Rightarrow> 'fs exec_state \<Rightarrow> 'fs exec_state" where
  "announce_deletes deletes rmdirs st =
     (if deletes \<noteq> [] \<or> rmdirs \<noteq> []
      then emit LevelWarn []
             (''about to delete '' @ fmt_nat (length deletes) @ '' file(s) totalling ''
              @ fmt_int (sum_list (map aSize deletes)) @ '' bytes and remove '' @ fmt_nat (length rmdirs)
              @ '' director(y/ies) from the destination; each one is logged individually below'') st
      else st)"

definition skip_deletions :: "action list \<Rightarrow> action list \<Rightarrow> 'fs exec_state \<Rightarrow> 'fs exec_state" where
  "skip_deletions deletes rmdirs st =
     emit LevelWarn []
       (fmt_nat (length (Failures (esResult st))) @ '' file(s) failed to copy, so ''
        @ fmt_nat (length deletes + length rmdirs)
        @ '' deletion(s) were skipped; set delete_policy to '' @ [CHR 0x22] @ ''proceed'' @ [CHR 0x22]
        @ '' to delete anyway'')
       (on_exec_result (\<lambda>r. r\<lparr>DeletionsSkipped := True\<rparr>) st)"

definition ctx_err :: "bool \<Rightarrow> goerr option" where
  "ctx_err ended = (if ended then Some ctx_ended else None)"

text \<open>The stages up to the copies, and those after them.\<close>

definition create_stages ::
  "'fs exec_env \<Rightarrow> exec_options \<Rightarrow> exec_schedule \<Rightarrow> plan \<Rightarrow> 'fs exec_state \<Rightarrow>
   'fs exec_state \<times> goerr option \<times> bool \<times> bool" where
  "create_stages env opts sched p st =
     (let (unblocks, mkdirs, copies, deletes, rmdirs) = partition_plan p in
      case clearBlockers env (xsClear sched) unblocks st of
        (st, Some e) \<Rightarrow> (st, Some e, True, True)
      | (st, None) \<Rightarrow>
          (case makeDirs env (xsMkdirs sched) mkdirs st of
             (st, Some e) \<Rightarrow> (st, Some e, True, True)
           | (st, None) \<Rightarrow>
               let (st, cancelled, parent) = runCopies env opts (xsCopies sched) copies st
               in (st, None, cancelled, parent)))"

definition delete_stages ::
  "'fs exec_env \<Rightarrow> exec_options \<Rightarrow> exec_schedule \<Rightarrow> plan \<Rightarrow> bool \<Rightarrow> bool \<Rightarrow> 'fs exec_state \<Rightarrow>
   'fs exec_state \<times> goerr option" where
  "delete_stages env opts sched p cancelled parent st =
     (let (unblocks, mkdirs, copies, deletes, rmdirs) = partition_plan p;
          st = announce_deletes deletes rmdirs st;
          (st, cancelled, parent) = runDeletes env opts (xsDeletes sched) deletes cancelled parent st;
          st = removeDirs env (if cancelled then Some 0 else xsRmdirs sched) rmdirs st;
          parent = (parent \<or> (case xsRmdirs sched of None \<Rightarrow> False | Some k \<Rightarrow> k < length rmdirs))
      in (summariseLockedFiles st, ctx_err (parent \<or> xsEnd sched)))"

definition deletions_withheld :: "exec_options \<Rightarrow> plan \<Rightarrow> 'fs exec_state \<Rightarrow> bool" where
  "deletions_withheld opts p st \<longleftrightarrow>
     (let (unblocks, mkdirs, copies, deletes, rmdirs) = partition_plan p
      in exec_Failed (esResult st) \<and> xoDeletePolicy opts = DeletePolicySkipDeletes
         \<and> (deletes \<noteq> [] \<or> rmdirs \<noteq> []))"

definition Execute ::
  "'fs exec_env \<Rightarrow> exec_options \<Rightarrow> exec_schedule \<Rightarrow> plan \<Rightarrow> 'fs exec_state \<Rightarrow> 'fs exec_state \<times> goerr option" where
  "Execute env opts sched p st =
     (case create_stages env opts sched p st of
        (st, Some e, _, _) \<Rightarrow> (st, Some e)
      | (st, None, cancelled, parent) \<Rightarrow>
          if deletions_withheld opts p st
          then let (unblocks, mkdirs, copies, deletes, rmdirs) = partition_plan p
               in (skip_deletions deletes rmdirs st, ctx_err (parent \<or> xsEnd sched))
          else delete_stages env opts sched p cancelled parent st)"


section \<open>The pools\<close>

text \<open>What the executor relies on: \<open>Copy\<close> reports a cancellation only when the context has
  ended.\<close>

definition copy_ok :: "'fs exec_env \<Rightarrow> bool" where
  "copy_ok env \<longleftrightarrow> (\<forall>a fs e. fst (snd (fst (xeCopy env False a fs))) = Some e \<longrightarrow> \<not> errors_Is e Canceled)"

lemma on_tracker_simps [simp]:
  "esFs (on_tracker f st) = esFs st" "esResult (on_tracker f st) = esResult st"
  "esEvents (on_tracker f st) = esEvents st"
  by (simp_all add: on_tracker_def)

lemma emit_simps [simp]:
  "esFs (emit l r m st) = esFs st" "esResult (emit l r m st) = esResult st"
  "esEvents (emit l r m st) = esEvents st @ [\<lparr>evLevel = l, evRelPath = r, evMessage = m\<rparr>]"
  by (simp_all add: emit_def)

lemma add_failure_simps [simp]:
  "esFs (add_failure k r e st) = esFs st" "esEvents (add_failure k r e st) = esEvents st"
  "esResult (add_failure k r e st) = (esResult st)\<lparr>Failures := Failures (esResult st) @ [\<lparr>flRelPath = r, flKind = k, flErr = e\<rparr>]\<rparr>"
  by (simp_all add: add_failure_def)

lemma copy_start_simps [simp]:
  "esFs (fst (copy_start env a s)) = esFs (fst s)" "esResult (fst (copy_start env a s)) = esResult (fst s)"
  "esEvents (fst (copy_start env a s)) = esEvents (fst s)" "snd (copy_start env a s) = snd s"
  by (simp_all add: copy_start_def)

text \<open>The outcomes of the work on one copy.\<close>

lemma copy_body_cases:
  obtains (copied) res reps fs st where "xeCopy env c a (esFs (fst s)) = ((res, None, reps), fs)"
      "copy_body env opts c a s = ((st, (snd s)\<lparr>ccBytes := ccBytes (snd s) + sum_list reps, ccFiles := ccFiles (snd s) + 1\<rparr>), Continue)"
      "esFs st = fs" "esResult st = esResult (fst s)" "\<exists>evs. esEvents st = esEvents (fst s) @ evs"
  | (vanished) res e reps fs st where "xeCopy env c a (esFs (fst s)) = ((res, Some e, reps), fs)"
      "errors_Is e ErrSourceVanished"
      "copy_body env opts c a s = ((st, (snd s)\<lparr>ccBytes := ccBytes (snd s) + sum_list reps, ccSkipped := ccSkipped (snd s) + 1\<rparr>), Continue)"
      "esFs st = fs" "esResult st = esResult (fst s)" "\<exists>evs. esEvents st = esEvents (fst s) @ evs"
  | (cancelled) res e reps fs st where "xeCopy env c a (esFs (fst s)) = ((res, Some e, reps), fs)"
      "errors_Is e Canceled"
      "copy_body env opts c a s = ((st, (snd s)\<lparr>ccBytes := ccBytes (snd s) + sum_list reps\<rparr>), Return)"
      "esFs st = fs" "esResult st = esResult (fst s)" "esEvents st = esEvents (fst s)"
  | (failed) res e reps fs st cc v where "xeCopy env c a (esFs (fst s)) = ((res, Some e, reps), fs)"
      "copy_body env opts c a s = ((st, cc), v)" "esFs st = fs"
      "esResult st = (esResult (fst s))\<lparr>Failures := Failures (esResult (fst s))
         @ [\<lparr>flRelPath = aRelPath a, flKind = ActionCopy, flErr = e\<rparr>]\<rparr>"
      "\<exists>m. esEvents st = esEvents (fst s) @ [\<lparr>evLevel = LevelError, evRelPath = aRelPath a, evMessage = m\<rparr>]"
      "ccFiles cc = ccFiles (snd s)" "ccSkipped cc = ccSkipped (snd s)"
      "ccShareGone cc = (ccShareGone (snd s) \<or> errors_Is e ErrShareUnreachable)"
      "ccAborted cc = (ccAborted (snd s) \<or> errors_Is e ErrShareUnreachable \<or> xoOnError opts = ErrorPolicyAbort)"
      "v = (if errors_Is e ErrShareUnreachable \<or> xoOnError opts = ErrorPolicyAbort then Abort else Continue)"
proof -
  obtain res err reps fs where x: "xeCopy env c a (esFs (fst s)) = ((res, err, reps), fs)"
    by (cases "xeCopy env c a (esFs (fst s))") auto
  show thesis
  proof (cases err)
    case None
    then show thesis using x by (intro copied [of res reps fs "fst (fst (copy_body env opts c a s))"]) (auto simp: copy_body_def Let_def)
  next
    case (Some e)
    consider "errors_Is e ErrSourceVanished" | "\<not> errors_Is e ErrSourceVanished" "errors_Is e Canceled"
      | "\<not> errors_Is e ErrSourceVanished" "\<not> errors_Is e Canceled" by blast
    then show thesis
    proof cases
      case 1
      then show thesis using x Some by (intro vanished [of res e reps fs "fst (fst (copy_body env opts c a s))"]) (auto simp: copy_body_def Let_def)
    next
      case 2
      then show thesis using x Some by (intro cancelled [of res e reps fs "fst (fst (copy_body env opts c a s))"]) (auto simp: copy_body_def Let_def)
    next
      case 3
      obtain st cc v where b: "copy_body env opts c a s = ((st, cc), v)"
        by (cases "copy_body env opts c a s") auto
      show thesis using 3 x Some b
        by (intro failed [of res e reps fs st cc v]) (auto simp: copy_body_def Let_def split: if_splits)
    qed
  qed
qed


text \<open>The outcomes of one deletion.\<close>

lemma delete_body_cases:
  obtains (deleted) e fs st where "xeRemove env (aRelPath a) (esFs (fst s)) = (e, fs)" "\<not> removal_failed e"
      "delete_body env opts c a s = ((st, (snd s)\<lparr>dcDeleted := dcDeleted (snd s) + 1\<rparr>), Continue)"
      "esFs st = fs" "esResult st = esResult (fst s)"
      "\<exists>m. esEvents st = esEvents (fst s) @ [\<lparr>evLevel = LevelInfo, evRelPath = aRelPath a, evMessage = m\<rparr>]"
  | (kept) e fs st cc v where "xeRemove env (aRelPath a) (esFs (fst s)) = (Some e, fs)" "removal_failed (Some e)"
      "delete_body env opts c a s = ((st, cc), v)" "esFs st = fs"
      "esResult st = (esResult (fst s))\<lparr>Failures := Failures (esResult (fst s))
         @ [\<lparr>flRelPath = aRelPath a, flKind = ActionDelete, flErr = e\<rparr>]\<rparr>"
      "\<exists>m. esEvents st = esEvents (fst s) @ [\<lparr>evLevel = LevelError, evRelPath = aRelPath a, evMessage = m\<rparr>]"
      "dcDeleted cc = dcDeleted (snd s)" "dcAborted cc = (dcAborted (snd s) \<or> xoOnError opts = ErrorPolicyAbort)"
      "v = (if xoOnError opts = ErrorPolicyAbort then Abort else Continue)"
proof -
  obtain e fs where x: "xeRemove env (aRelPath a) (esFs (fst s)) = (e, fs)" by fastforce
  obtain st cc v where b: "delete_body env opts c a s = ((st, cc), v)"
    by (cases "delete_body env opts c a s") auto
  show thesis
  proof (cases "removal_failed e")
    case True
    then obtain err where e: "e = Some err" by (cases e) (auto simp: removal_failed_def)
    show thesis using True x b e
      by (intro kept [of err fs st cc v]) (auto simp: delete_body_def Let_def split: if_splits)
  next
    case False
    then show thesis using x b by (intro deleted [of e fs st]) (auto simp: delete_body_def Let_def)
  qed
qed

lemma copy_okD:
  "copy_ok env \<Longrightarrow> xeCopy env False a fs = ((res, Some e, reps), fs') \<Longrightarrow> \<not> errors_Is e Canceled"
  unfolding copy_ok_def by (metis fst_conv snd_conv)

lemma copy_pool: "copy_ok env \<Longrightarrow> pool_body (copy_body env opts)"
proof
  fix c a s
  assume ok: "copy_ok env" and r: "snd (copy_body env opts c a s) = Return"
  show c using r
  proof (cases rule: copy_body_cases [of env c a s opts])
    case (cancelled res e reps fs st)
    then show ?thesis using copy_okD [OF ok] by (cases c) auto
  qed (auto split: if_splits)
qed

interpretation del_pool: pool_body "\<lambda>a s. s" "delete_body env opts" for env opts
proof
  fix c a s
  assume "snd (delete_body env opts c a s) = Return"
  then show c by (cases rule: delete_body_cases [of env a s opts c]) (auto split: if_splits)
qed

lemma exec_workers_pos: "0 < exec_workers opts"
  by (simp add: exec_workers_def DefaultWorkers_def)

definition copies_pool ::
  "'fs exec_env \<Rightarrow> exec_options \<Rightarrow> choice list \<Rightarrow> action list \<Rightarrow> 'fs exec_state \<Rightarrow>
   (action, 'fs exec_state \<times> copy_counters) pool" where
  "copies_pool env opts sched as st =
     run_pool (copy_start env) (copy_body env opts) sched
       (pool_init (exec_workers opts) as False False (on_tracker (SetPhase PhaseCopying) st, copy_counters0))"

definition deletes_pool ::
  "'fs exec_env \<Rightarrow> exec_options \<Rightarrow> choice list \<Rightarrow> action list \<Rightarrow> bool \<Rightarrow> bool \<Rightarrow> 'fs exec_state \<Rightarrow>
   (action, 'fs exec_state \<times> delete_counters) pool" where
  "deletes_pool env opts sched as cancelled parent st =
     run_pool (\<lambda>a s. s) (delete_body env opts) sched
       (pool_init (exec_workers opts) as cancelled parent
          (on_tracker (SetPhase PhaseDeleting) st, \<lparr>dcDeleted = 0, dcAborted = False\<rparr>))"

lemma copies_pool_done: "copy_ok env \<Longrightarrow> pool_done (copies_pool env opts sched as st)"
  unfolding copies_pool_def by (rule pool_body.run_pool_done [OF copy_pool exec_workers_pos])

lemma deletes_pool_done: "pool_done (deletes_pool env opts sched as c par st)"
  unfolding deletes_pool_def by (rule del_pool.run_pool_done [OF exec_workers_pos])

text \<open>A stage on a pool is a sequential run of the work done.\<close>

lemma copies_linearise:
  assumes "copy_ok env"
  obtains log where "plShared (copies_pool env opts sched as st)
      = replay (copy_start env) (copy_body env opts) log (on_tracker (SetPhase PhaseCopying) st, copy_counters0)"
    "mset (did log) \<subseteq># mset as"
    "\<not> plCancelled (copies_pool env opts sched as st) \<Longrightarrow> mset (did log) = mset as \<and> (\<forall>a. Did True a \<notin> set log)"
  using pool_linearises [OF run_pool_steps [of "copy_start env" "copy_body env opts"]
      copies_pool_done [OF assms, unfolded copies_pool_def]]
  unfolding copies_pool_def by metis

lemma deletes_linearise:
  obtains log where "plShared (deletes_pool env opts sched as c par st)
      = replay (\<lambda>a s. s) (delete_body env opts) log
          (on_tracker (SetPhase PhaseDeleting) st, \<lparr>dcDeleted = 0, dcAborted = False\<rparr>)"
    "mset (did log) \<subseteq># mset as"
    "\<not> plCancelled (deletes_pool env opts sched as c par st) \<Longrightarrow> mset (did log) = mset as"
  using pool_linearises [OF run_pool_steps [of "\<lambda>a s. s" "delete_body env opts"]
      deletes_pool_done [unfolded deletes_pool_def]]
  unfolding deletes_pool_def by metis

text \<open>The context of the copies ends only from outside or by an abort.\<close>

lemma copies_cancelled_by:
  "plCancelled (copies_pool env opts sched as st) \<Longrightarrow>
     plParent (copies_pool env opts sched as st) \<or> ccAborted (snd (plShared (copies_pool env opts sched as st)))"
proof -
  have a: "ccAborted (snd (fst (copy_body env opts c a s)))"
    if "snd (copy_body env opts c a s) = Abort \<or> ccAborted (snd s)" for c a s
    using that by (cases rule: copy_body_cases [of env c a s opts]) (auto split: if_splits)
  show "plCancelled (copies_pool env opts sched as st) \<Longrightarrow> ?thesis"
    using pool_cancelled_by [where P = "\<lambda>s. ccAborted (snd s)", OF run_pool_steps [of "copy_start env" "copy_body env opts" _ sched]] a
    unfolding copies_pool_def by (metis copy_start_simps(4))
qed


lemma copies_abort_flag:
  "ccAborted (snd (plShared (copies_pool env opts sched as st))) \<longrightarrow> plCancelled (copies_pool env opts sched as st)"
  unfolding copies_pool_def
proof (rule pool_flag [OF run_pool_steps])
  fix c a s
  assume "ccAborted (snd (fst (copy_body env opts c a s)))"
  then show "ccAborted (snd s) \<or> snd (copy_body env opts c a s) = Abort"
    by (cases rule: copy_body_cases [of env c a s opts]) (auto split: if_splits)
qed (simp_all add: copy_counters0_def)


section \<open>Properties\<close>

text \<open>
  the pools always finish. Whatever the interleaving, and whenever the context ends, the
  copy stage and the delete stage come to an end with nothing left in the hands of a worker:
  the feeder never blocks on workers that have gone away.
\<close>

theorem pools_always_finish:
  assumes "copy_ok env"
  shows "pool_done (copies_pool env opts sched as st) \<and> pool_done (deletes_pool env opts sched as c par st)"
  using copies_pool_done [OF assms] deletes_pool_done by blast

text \<open>An environment over a list of the paths present, in which one path cannot be copied and
  one cannot be removed.\<close>

definition sample_exec_env :: "string list exec_env" where
  "sample_exec_env = \<lparr>
     xeRemove = (\<lambda>p fs. if p = ''stuck'' then (Some (new_error ''device busy'' [Errno EIO]), fs)
        else if p \<in> set fs then (None, removeAll p fs) else (Some (new_error ''no such file'' [ErrNotExist]), fs)),
     xeMkdirAll = (\<lambda>p fs. (None, List.insert p fs)),
     xeCopy = (\<lambda>c a fs. if aRelPath a = ''bad'' then ((\<lparr>BytesCopied = 0, Attempts = 1\<rparr>, Some (new_error ''denied'' [ErrPermission]), []), fs)
        else ((\<lparr>BytesCopied = aSize a, Attempts = 1\<rparr>, None, [aSize a]), List.insert (aRelPath a) fs)),
     xeNow = 0\<rparr>"

definition sample_exec_opts :: exec_options where
  "sample_exec_opts = \<lparr>xoWorkers = 2, xoOnError = ErrorPolicySkip, xoDeletePolicy = DeletePolicySkipDeletes, xoLogEveryFile = False\<rparr>"

definition sample_exec_state :: "string list exec_state" where
  "sample_exec_state = \<lparr>esFs = [''old''], esResult = empty_exec_result, esEvents = [], esTracker = None\<rparr>"

definition copy_of :: "string \<Rightarrow> action" where
  "copy_of p = (mk_action ActionCopy p ''new at the source'')\<lparr>aSize := 7\<rparr>"

lemma sample_copy_ok: "copy_ok sample_exec_env"
  by (auto simp: copy_ok_def sample_exec_env_def)

theorem pools_always_finish_witness:
  "pool_done (copies_pool sample_exec_env sample_exec_opts [Hand, TakeUp 0, Cancel] [copy_of ''f'', copy_of ''g''] sample_exec_state)"
  using pools_always_finish [OF sample_copy_ok] by blast

text \<open>
  every copy is accounted for. When the context of a copy stage did not end, each planned
  copy was counted exactly once: as copied, as skipped because its source had vanished, or
  with a failure; and the stage is not marked as aborted.
\<close>

theorem copies_are_accounted_for:
  assumes "copy_ok env" and "as \<noteq> []" and "runCopies env opts sched as st = (st', False, par)"
  shows "FilesCopied (esResult st') + Skipped (esResult st')
      + int (length (Failures (esResult st'))) - int (length (Failures (esResult st))) = int (length as)
    \<and> \<not> Aborted (esResult st')"
proof -
  let ?p = "copies_pool env opts sched as st" and ?s0 = "(on_tracker (SetPhase PhaseCopying) st, copy_counters0)"
  obtain log where l: "plShared ?p = replay (copy_start env) (copy_body env opts) log ?s0"
      and d: "\<not> plCancelled ?p \<Longrightarrow> mset (did log) = mset as \<and> (\<forall>a. Did True a \<notin> set log)"
    using copies_linearise [OF assms(1), where opts = opts and sched = sched and as = as and st = st] by metis
  obtain st1 cc where sh: "plShared ?p = (st1, cc)" by fastforce
  have r: "FilesCopied (esResult st') = ccFiles cc" "Skipped (esResult st') = ccSkipped cc"
      "Failures (esResult st') = Failures (esResult st1)" "Aborted (esResult st') = ccAborted cc" "\<not> plCancelled ?p"
    using assms(2,3) sh unfolding runCopies_def copies_pool_def [symmetric]
    by (auto simp: Let_def split: if_splits)
  define m where "m = (\<lambda>s :: 'a exec_state \<times> copy_counters. ccFiles (snd s) + ccSkipped (snd s) + int (length (Failures (esResult (fst s)))))"
  have e: "(st1, cc) = replay (copy_start env) (copy_body env opts) log ?s0" using l sh by simp
  have "m (st1, cc) = m ?s0 + int (length (did log))" unfolding e
  proof (rule replay_tally)
    fix c a s assume "Did c a \<in> set log"
    then have "\<not> c" using d r(5) by (cases c) auto
    then show "m (fst (copy_body env opts c a s)) = m s + 1"
      using assms(1) by (cases rule: copy_body_cases [of env c a s opts]) (auto simp: m_def dest: copy_okD)
  qed (simp add: m_def)
  moreover have "length (did log) = length as" using d r(5) by (metis size_mset)
  moreover have "\<not> ccAborted cc" using copies_abort_flag [of env opts sched as st] r(5) sh by simp
  ultimately show ?thesis using r by (simp add: m_def copy_counters0_def)
qed

definition sample_stage :: "string list exec_state \<times> bool \<times> bool" where
  "sample_stage = runCopies sample_exec_env sample_exec_opts [Hand, Hand, TakeUp 1, TakeUp 0, Finish 1]
     [copy_of ''f'', copy_of ''bad'', copy_of ''g''] sample_exec_state"

theorem copies_are_accounted_for_witness:
  "FilesCopied (esResult (fst sample_stage)) = 2 \<and> length (Failures (esResult (fst sample_stage))) = 1"
proof -
  have "fst (snd sample_stage) = False" by code_simp
  then have "sample_stage = (fst sample_stage, False, snd (snd sample_stage))" by (simp add: prod_eq_iff)
  from copies_are_accounted_for [OF sample_copy_ok _ this [unfolded sample_stage_def]]
  have "FilesCopied (esResult (fst sample_stage)) + Skipped (esResult (fst sample_stage))
      + int (length (Failures (esResult (fst sample_stage)))) = 3"
    by (simp add: sample_stage_def sample_exec_state_def empty_exec_result_def)
  moreover have "Skipped (esResult (fst sample_stage)) = 0" "FilesCopied (esResult (fst sample_stage)) = 2"
    by code_simp+
  ultimately show ?thesis by simp
qed

lemma delete_body_flag:
  "DeletionsSkipped (esResult (fst (fst (delete_body env opts c a s)))) = DeletionsSkipped (esResult (fst s))"
  by (cases rule: delete_body_cases [of env a s opts c]) auto

lemma deletes_pool_flag:
  "DeletionsSkipped (esResult (fst (plShared (deletes_pool env opts sched as c par st)))) = DeletionsSkipped (esResult st)"
proof -
  obtain log where l: "plShared (deletes_pool env opts sched as c par st) = replay (\<lambda>a s. s) (delete_body env opts) log
      (on_tracker (SetPhase PhaseDeleting) st, \<lparr>dcDeleted = 0, dcAborted = False\<rparr>)"
    using deletes_linearise by metis
  show ?thesis unfolding l
    by (rule replay_invariant [where P = "\<lambda>s. DeletionsSkipped (esResult (fst s)) = DeletionsSkipped (esResult st)"])
       (simp_all add: delete_body_flag)
qed

lemma delete_stages_flag: "DeletionsSkipped (esResult (fst (delete_stages env opts sched p c par st))) = DeletionsSkipped (esResult st)"
proof -
  have r: "DeletionsSkipped (esResult (removeDirs env k as st)) = DeletionsSkipped (esResult st)" for k as st
    by (induction env k as st rule: removeDirs.induct)
       (auto simp: rmdir_one_def Let_def split: prod.splits if_splits)
  have rd: "DeletionsSkipped (esResult (fst (runDeletes env opts sch as c par st))) = DeletionsSkipped (esResult st)" for sch as c par st
    using deletes_pool_flag [of env opts sch as c par st] unfolding runDeletes_def deletes_pool_def [symmetric]
    by (auto simp: Let_def split: prod.splits)
  show ?thesis unfolding delete_stages_def Let_def
    using rd r by (auto simp: summariseLockedFiles_def announce_deletes_def Let_def split: prod.splits)
       (metis fst_conv emit_simps(2))+
qed



definition plan_of :: "action list \<Rightarrow> plan" where
  "plan_of as = \<lparr>Actions = as, MkDirs = 0, Copies = 0, Deletes = 0, RmDirs = 0, CopyBytes = 0, Unblocks = 0,
     Overwrites = 0, Conflicts = [], DeletionsBlocked = False, BlockedReason = [], WithheldDeletes = 0, WithheldRmDirs = 0\<rparr>"

definition calm_schedule :: exec_schedule where
  "calm_schedule = \<lparr>xsClear = None, xsMkdirs = None, xsCopies = [], xsDeletes = [], xsRmdirs = None, xsEnd = False\<rparr>"

definition delete_of :: "string \<Rightarrow> action" where
  "delete_of p = mk_action ActionDelete p ''not present at the source''"

definition failing_plan :: plan where
  "failing_plan = plan_of [copy_of ''bad'', delete_of ''old'']"


definition audited :: "'fs exec_state \<Rightarrow> bool" where
  "audited st \<longleftrightarrow> (\<forall>f \<in> set (Failures (esResult st)). \<exists>ev \<in> set (esEvents st).
     evLevel ev = LevelError \<and> evRelPath ev = flRelPath f)"

lemma audited_more: "audited st \<Longrightarrow> Failures (esResult st') = Failures (esResult st) \<Longrightarrow>
    set (esEvents st) \<subseteq> set (esEvents st') \<Longrightarrow> audited st'"
  unfolding audited_def by (metis subsetD)

lemma audited_fail: "audited st \<Longrightarrow>
    Failures (esResult st') = Failures (esResult st) @ [\<lparr>flRelPath = r, flKind = k, flErr = e\<rparr>] \<Longrightarrow>
    esEvents st' = esEvents st @ [\<lparr>evLevel = LevelError, evRelPath = r, evMessage = m\<rparr>] \<Longrightarrow> audited st'"
  unfolding audited_def by auto

lemma audited_stages:
  assumes "audited st"
  shows "audited (clear_one env a st)" "audited (mkdir_one env a st)" "audited (rmdir_one env a st)"
proof -
  obtain e fs where r: "xeRemove env (aRelPath a) (esFs st) = (e, fs)" by fastforce
  obtain e' fs' where m: "xeMkdirAll env (aRelPath a) (esFs st) = (e', fs')" by fastforce
  show "audited (clear_one env a st)"
    by (cases "removal_failed e")
       (use r in \<open>auto simp: clear_one_def Let_def intro: audited_fail [OF assms] audited_more [OF assms]\<close>)
  show "audited (mkdir_one env a st)"
    by (cases e') (use m in \<open>auto simp: mkdir_one_def Let_def intro: audited_fail [OF assms] audited_more [OF assms]\<close>)
  show "audited (rmdir_one env a st)"
    by (rule audited_more [OF assms]) (use r in \<open>auto simp: rmdir_one_def Let_def split: prod.splits\<close>)
qed

lemma audited_loops:
  "audited st \<Longrightarrow> audited (fst (clearBlockers env c as st))"
  "audited st \<Longrightarrow> audited (fst (mkdir_loop env c as st))"
  "audited st \<Longrightarrow> audited (removeDirs env c as st)"
  by (induction as arbitrary: c st) (auto simp: audited_stages)

lemma audited_copy_body: "audited (fst s) \<Longrightarrow> audited (fst (fst (copy_body env opts c a s)))"
  by (cases rule: copy_body_cases [of env c a s opts]) (auto intro: audited_more audited_fail)

lemma audited_delete_body: "audited (fst s) \<Longrightarrow> audited (fst (fst (delete_body env opts c a s)))"
  by (cases rule: delete_body_cases [of env a s opts c]) (auto intro: audited_more audited_fail)

lemma audited_runCopies:
  assumes "copy_ok env" "audited st"
  shows "audited (fst (runCopies env opts sched as st))"
proof -
  obtain log where l: "plShared (copies_pool env opts sched as st)
      = replay (copy_start env) (copy_body env opts) log (on_tracker (SetPhase PhaseCopying) st, copy_counters0)"
    using copies_linearise [OF assms(1)] by metis
  have "audited (fst (plShared (copies_pool env opts sched as st)))" unfolding l
    by (rule replay_invariant [where P = "\<lambda>s. audited (fst s)"])
       (auto intro: audited_copy_body audited_more [OF assms(2)] audited_more)
  then show ?thesis using assms(2) unfolding runCopies_def copies_pool_def [symmetric]
    by (auto simp: Let_def split: prod.splits elim!: audited_more)
qed

lemma audited_runDeletes:
  assumes "audited st"
  shows "audited (fst (runDeletes env opts sched as c par st))"
proof -
  obtain log where l: "plShared (deletes_pool env opts sched as c par st) = replay (\<lambda>a s. s) (delete_body env opts) log
      (on_tracker (SetPhase PhaseDeleting) st, \<lparr>dcDeleted = 0, dcAborted = False\<rparr>)"
    using deletes_linearise by metis
  have "audited (fst (plShared (deletes_pool env opts sched as c par st)))" unfolding l
    by (rule replay_invariant [where P = "\<lambda>s. audited (fst s)"])
       (auto intro: audited_delete_body audited_more [OF assms])
  then show ?thesis using assms unfolding runDeletes_def deletes_pool_def [symmetric]
    by (auto simp: Let_def split: prod.splits elim!: audited_more)
qed

lemma audited_create_stages:
  assumes "copy_ok env" "audited st"
  shows "audited (fst (create_stages env opts sched p st))"
proof -
  have m: "audited (fst (makeDirs env c as st))" if "audited st" for c as st
    unfolding makeDirs_def by (rule audited_loops) (auto intro: audited_more [OF that])
  show ?thesis unfolding create_stages_def Let_def
    using audited_loops(1) [OF assms(2)] m audited_runCopies [OF assms(1)]
    by (auto split: prod.splits option.splits) (metis fst_conv)+
qed

lemma audited_reports:
  "audited st \<Longrightarrow> audited (announce_deletes ds rs st)"
  "audited st \<Longrightarrow> audited (summariseLockedFiles st)"
  "audited st \<Longrightarrow> audited (skip_deletions ds rs st)"
  by (erule audited_more; auto simp: announce_deletes_def summariseLockedFiles_def skip_deletions_def Let_def)+

lemma audited_delete_stages:
  assumes "audited st"
  shows "audited (fst (delete_stages env opts sched p c par st))"
proof -
  obtain us ms cs ds rs where p: "partition_plan p = (us, ms, cs, ds, rs)" by (metis prod_cases5)
  obtain st1 c1 par1 where r: "runDeletes env opts (xsDeletes sched) ds c par (announce_deletes ds rs st) = (st1, c1, par1)"
    by (metis prod_cases3)
  have "audited st1" using audited_runDeletes [OF audited_reports(1) [OF assms]] r by (metis fst_conv)
  then show ?thesis by (simp add: delete_stages_def Let_def p r audited_reports audited_loops)
qed

text \<open>
  C27: no failure is silent. Whatever fails in an execution, the run log has an error entry for
  its path.
\<close>

theorem no_failure_is_silent:
  assumes "copy_ok env" and "Failures (esResult st) = []"
    and "f \<in> set (Failures (esResult (fst (Execute env opts sched p st))))"
  shows "\<exists>ev \<in> set (esEvents (fst (Execute env opts sched p st))).
    evLevel ev = LevelError \<and> evRelPath ev = flRelPath f"
proof -
  have a: "audited st" using assms(2) by (simp add: audited_def)
  obtain st1 e c par where cs: "create_stages env opts sched p st = (st1, e, c, par)" by (metis prod_cases4)
  have a1: "audited st1" using audited_create_stages [OF assms(1) a, of opts sched p] cs by simp
  have "audited (fst (Execute env opts sched p st))"
    using a1 audited_delete_stages audited_reports(3) by (auto simp: Execute_def cs split: option.splits prod.splits)
  with assms(3) show ?thesis by (auto simp: audited_def)
qed

theorem no_failure_is_silent_witness:
  "\<exists>ev \<in> set (esEvents (fst (Execute sample_exec_env sample_exec_opts calm_schedule failing_plan sample_exec_state))).
     evLevel ev = LevelError \<and> evRelPath ev = ''bad''"
proof -
  let ?r = "fst (Execute sample_exec_env sample_exec_opts calm_schedule failing_plan sample_exec_state)"
  have f: "map flRelPath (Failures (esResult ?r)) = [''bad'']" by code_simp
  then obtain f where "f \<in> set (Failures (esResult ?r))" "flRelPath f = ''bad''" by (auto simp: map_eq_Cons_conv)
  then show ?thesis
    using no_failure_is_silent [OF sample_copy_ok, of sample_exec_state]
    by (fastforce simp: sample_exec_state_def empty_exec_result_def)
qed


definition fatal :: "exec_options \<Rightarrow> failure \<Rightarrow> bool" where
  "fatal opts f \<longleftrightarrow> errors_Is (flErr f) ErrShareUnreachable \<or> xoOnError opts = ErrorPolicyAbort"

lemma copy_body_fatal:
  assumes "\<exists>new. Failures (esResult (fst s)) = old @ new \<and> (ccAborted (snd s) \<longleftrightarrow> list_ex (fatal opts) new)
      \<and> (ccShareGone (snd s) \<longleftrightarrow> list_ex (\<lambda>f. errors_Is (flErr f) ErrShareUnreachable) new)"
  shows "\<exists>new. Failures (esResult (fst (fst (copy_body env opts c a s)))) = old @ new
      \<and> (ccAborted (snd (fst (copy_body env opts c a s))) \<longleftrightarrow> list_ex (fatal opts) new)
      \<and> (ccShareGone (snd (fst (copy_body env opts c a s))) \<longleftrightarrow> list_ex (\<lambda>f. errors_Is (flErr f) ErrShareUnreachable) new)"
proof (cases rule: copy_body_cases [of env c a s opts])
  case (failed res e reps fs st cc v)
  obtain new where n: "Failures (esResult (fst s)) = old @ new" "ccAborted (snd s) \<longleftrightarrow> list_ex (fatal opts) new"
    "ccShareGone (snd s) \<longleftrightarrow> list_ex (\<lambda>f. errors_Is (flErr f) ErrShareUnreachable) new" using assms by blast
  show ?thesis using failed n
    by (intro exI [of _ "new @ [\<lparr>flRelPath = aRelPath a, flKind = ActionCopy, flErr = e\<rparr>]"]) (auto simp: fatal_def)
qed (use assms in auto)

text \<open>
  when a copy stage aborts. A stage is marked as aborted exactly when it recorded a failure
  that ends a run: any failure under the policy \<open>abort\<close>, and a share that stopped
  responding under either policy; the latter, and only it, is reported as an unreachable
  share.
\<close>

theorem copy_stage_aborts_when_fatal:
  assumes "copy_ok env" and "as \<noteq> []" and "runCopies env opts sched as st = (st', c, par)"
    and "\<not> ShareUnreachable (esResult st)"
  shows "\<exists>new. Failures (esResult st') = Failures (esResult st) @ new
    \<and> (Aborted (esResult st') \<longleftrightarrow> list_ex (fatal opts) new)
    \<and> (ShareUnreachable (esResult st') \<longleftrightarrow> list_ex (\<lambda>f. errors_Is (flErr f) ErrShareUnreachable) new)"
proof -
  let ?s0 = "(on_tracker (SetPhase PhaseCopying) st, copy_counters0)"
  let ?P = "\<lambda>s. \<exists>new. Failures (esResult (fst s)) = Failures (esResult st) @ new
      \<and> (ccAborted (snd s) \<longleftrightarrow> list_ex (fatal opts) new)
      \<and> (ccShareGone (snd s) \<longleftrightarrow> list_ex (\<lambda>f. errors_Is (flErr f) ErrShareUnreachable) new)"
  obtain log where l: "plShared (copies_pool env opts sched as st) = replay (copy_start env) (copy_body env opts) log ?s0"
    using copies_linearise [OF assms(1)] by metis
  have P: "?P (plShared (copies_pool env opts sched as st))" unfolding l
    by (rule replay_invariant [where P = ?P]) (auto simp: copy_counters0_def intro!: copy_body_fatal)
  have u: "ShareUnreachable (esResult (fst (plShared (copies_pool env opts sched as st)))) = ShareUnreachable (esResult st)"
    unfolding l
  proof (rule replay_invariant [where P = "\<lambda>s. ShareUnreachable (esResult (fst s)) = ShareUnreachable (esResult st)"])
    show "ShareUnreachable (esResult (fst (fst (copy_body env opts c a s)))) = ShareUnreachable (esResult st)"
      if "ShareUnreachable (esResult (fst s)) = ShareUnreachable (esResult st)" for c a s
      using that by (cases rule: copy_body_cases [of env c a s opts]) auto
  qed simp_all
  obtain st1 cc where sh: "plShared (copies_pool env opts sched as st) = (st1, cc)" by fastforce
  have "list_ex (\<lambda>f. errors_Is (flErr f) ErrShareUnreachable) new \<Longrightarrow> list_ex (fatal opts) new" for new
    by (induction new) (auto simp: fatal_def)
  then show ?thesis using assms(2-4) P u sh unfolding runCopies_def copies_pool_def [symmetric]
    by (auto simp: Let_def split: if_splits)
qed

theorem copy_stage_aborts_when_fatal_witness:
  "\<exists>st' c par. runCopies sample_exec_env (sample_exec_opts\<lparr>xoOnError := ErrorPolicyAbort\<rparr>) [] [copy_of ''bad'', copy_of ''g'']
     sample_exec_state = (st', c, par) \<and> Aborted (esResult st') \<and> \<not> ShareUnreachable (esResult st')"
proof -
  let ?o = "sample_exec_opts\<lparr>xoOnError := ErrorPolicyAbort\<rparr>"
  let ?r = "runCopies sample_exec_env ?o [] [copy_of ''bad'', copy_of ''g''] sample_exec_state"
  obtain st' c par where r: "?r = (st', c, par)" by (metis prod_cases3)
  have "map flErr (Failures (esResult (fst ?r))) = [new_error ''denied'' [ErrPermission]]" by code_simp
  moreover have "\<not> ShareUnreachable (esResult sample_exec_state)" "Failures (esResult sample_exec_state) = []"
    by (simp_all add: sample_exec_state_def empty_exec_result_def)
  ultimately have "Aborted (esResult st') \<and> \<not> ShareUnreachable (esResult st')"
    using copy_stage_aborts_when_fatal [OF sample_copy_ok _ r] r by (auto simp: fatal_def map_eq_Cons_conv)
  with r show ?thesis by blast
qed

text \<open>
  cleared blockers fall out of the count. One file is removed to clear a path and one by the
  trailing pass; the result reports a single deleted file.
\<close>

theorem cleared_files_are_not_counted:
  "let p = plan_of [(delete_of ''x'')\<lparr>Unblock := True\<rparr>, mk_action ActionMkDir ''x'' ''replacing a file with a directory'', delete_of ''old''];
       st = sample_exec_state\<lparr>esFs := [''x'', ''old'']\<rparr>;
       r = fst (Execute sample_exec_env sample_exec_opts calm_schedule p st)
   in esFs r = [''x''] \<and> Failures (esResult r) = [] \<and> FilesDeleted (esResult r) = 1"
  by code_simp

end
