(* ===== verification/Engine_Sync.thy ===== *)
theory Engine_Sync
  imports Engine_Converge Engine_Exec
begin

text \<open>
  From a plan to the destination: the contract of the file-system calls the executor makes, a
  tree that keeps it, and the proof that an execution without failures carries out the plan's
  actions, whatever the interleaving of its workers; so that a mirror ends in sync.
\<close>

section \<open>The contract of the destination\<close>

text \<open>
  \<open>look\<close> reads the tree off a state of the file system. A removal that does not fail leaves
  nothing at its path; \<open>os.MkdirAll\<close> creates the directory and the missing ones above it; a
  copy that succeeds leaves the file it was asked for (theory \<open>Engine_Copy\<close>); and \<open>Copy\<close>
  reports a cancellation only when the context has ended.
\<close>

definition made_dir :: "string \<Rightarrow> entry" where
  "made_dir p = \<lparr>RelPath = p, Size = 0, ModTime = zero_time, IsDir = True, IsSymlink = False\<rparr>"

locale dest_tree =
  fixes env :: "'fs exec_env" and look :: "'fs \<Rightarrow> string \<Rightarrow> entry option"
  assumes remove_effect: "xeRemove env p fs = (e, fs') \<Longrightarrow> \<not> removal_failed e \<Longrightarrow> look fs' = (look fs)(p := None)"
    and mkdir_effect: "xeMkdirAll env p fs = (None, fs') \<Longrightarrow>
      look fs' = (\<lambda>q. if look fs q = None \<and> (q = p \<or> beneath q p) then Some (made_dir q) else look fs q)"
    and copy_effect: "Kind a = ActionCopy \<Longrightarrow> xeCopy env c a fs = ((res, None, reps), fs') \<Longrightarrow>
      look fs' = (look fs)(aRelPath a := effect a)"
    and copy_cancel: "copy_ok env"

abbreviation fails :: "'fs exec_state \<Rightarrow> failure list" where
  "fails st \<equiv> Failures (esResult st)"

lemma loops_fail:
  "prefix (fails st) (fails (fst (clearBlockers env c as st)))"
  "prefix (fails st) (fails (fst (mkdir_loop env c as st)))"
proof -
  have "prefix (fails st) (fails (clear_one env a st))" "prefix (fails st) (fails (mkdir_one env a st))" for a st
    by (auto simp: clear_one_def mkdir_one_def Let_def split: prod.splits option.splits)
  then show "prefix (fails st) (fails (fst (clearBlockers env c as st)))"
    "prefix (fails st) (fails (fst (mkdir_loop env c as st)))"
    by (induction as arbitrary: c st) (auto, (blast intro: prefix_order.trans)+)
qed

lemma copy_body_grows:
  "prefix (fails (fst s)) (fails (fst (fst (copy_body env opts c a s))))"
  "ccSkipped (snd s) \<le> ccSkipped (snd (fst (copy_body env opts c a s)))"
  by (cases rule: copy_body_cases [of env c a s opts]; auto)+

lemma delete_body_grows: "prefix (fails (fst s)) (fails (fst (fst (delete_body env opts c a s))))"
  by (cases rule: delete_body_cases [of env a s opts c]) auto

lemma replay_copies_grow:
  "prefix (fails (fst s)) (fails (fst (replay (copy_start env) (copy_body env opts) ws s)))
   \<and> ccSkipped (snd s) \<le> ccSkipped (snd (replay (copy_start env) (copy_body env opts) ws s))"
  by (rule replay_invariant [where P = "\<lambda>t. prefix (fails (fst s)) (fails (fst t)) \<and> ccSkipped (snd s) \<le> ccSkipped (snd t)"])
     (auto intro: prefix_order.trans copy_body_grows order_trans)

lemma replay_deletes_grow:
  "prefix (fails (fst s)) (fails (fst (replay (\<lambda>a s. s) (delete_body env opts) ws s)))"
  by (rule replay_invariant [where P = "\<lambda>t. prefix (fails (fst s)) (fails (fst t))"])
     (auto intro: prefix_order.trans delete_body_grows)

lemma report_simps [simp]:
  "esFs (announce_deletes ds rs st) = esFs st" "esResult (announce_deletes ds rs st) = esResult st"
  "esFs (summariseLockedFiles st) = esFs st" "esResult (summariseLockedFiles st) = esResult st"
  by (simp_all add: announce_deletes_def summariseLockedFiles_def Let_def)

lemma removeDirs_skips: "Skipped (esResult (removeDirs env k as st)) = Skipped (esResult st)"
  by (induction env k as st rule: removeDirs.induct)
     (auto simp: rmdir_one_def Let_def split: prod.splits if_splits)

lemma delete_body_skips: "Skipped (esResult (fst (fst (delete_body env opts c a s)))) = Skipped (esResult (fst s))"
  by (cases rule: delete_body_cases [of env a s opts c]) auto

lemma runDeletes_keeps:
  assumes "runDeletes env opts sched as c par st = (st', c', par')"
  shows "prefix (fails st) (fails st')" "Skipped (esResult st') = Skipped (esResult st)" "par \<longrightarrow> par'"
proof -
  let ?p = "deletes_pool env opts sched as c par st"
  let ?s0 = "(on_tracker (SetPhase PhaseDeleting) st, \<lparr>dcDeleted = 0, dcAborted = False\<rparr>)"
  obtain ws where w: "plShared ?p = replay (\<lambda>a s. s) (delete_body env opts) ws ?s0"
    using deletes_linearise by metis
  have "prefix (fails st) (fails (fst (plShared ?p)))"
    using replay_deletes_grow [of ?s0 env opts ws] unfolding w by simp
  moreover have "Skipped (esResult (fst (plShared ?p))) = Skipped (esResult st)" unfolding w
    by (rule replay_invariant [where P = "\<lambda>s. Skipped (esResult (fst s)) = Skipped (esResult st)"])
       (simp_all add: delete_body_skips)
  moreover have "par \<longrightarrow> plParent ?p" unfolding deletes_pool_def
    using pool_cancelled_by [where P = "\<lambda>s. True", OF run_pool_steps [of "\<lambda>a s. s" "delete_body env opts" _ sched]] by blast
  ultimately show "prefix (fails st) (fails st')" "Skipped (esResult st') = Skipped (esResult st)" "par \<longrightarrow> par'"
    using assms unfolding runDeletes_def deletes_pool_def [symmetric] by (auto simp: Let_def split: if_splits prod.splits)
qed

text \<open>An abort leaves a failure behind.\<close>

lemma copies_aborted_failed:
  assumes "copy_ok env" and "ccAborted (snd (plShared (copies_pool env opts sched as st)))"
  shows "fails (fst (plShared (copies_pool env opts sched as st))) \<noteq> []"
proof -
  obtain ws where w: "plShared (copies_pool env opts sched as st)
      = replay (copy_start env) (copy_body env opts) ws (on_tracker (SetPhase PhaseCopying) st, copy_counters0)"
    using copies_linearise [OF assms(1)] by metis
  have "ccAborted (snd (fst (copy_body env opts c a s))) \<longrightarrow> fails (fst (fst (copy_body env opts c a s))) \<noteq> []"
    if "ccAborted (snd s) \<longrightarrow> fails (fst s) \<noteq> []" for c a s
    using that by (cases rule: copy_body_cases [of env c a s opts]) auto
  then have "ccAborted (snd (plShared (copies_pool env opts sched as st))) \<longrightarrow> fails (fst (plShared (copies_pool env opts sched as st))) \<noteq> []"
    unfolding w by (intro replay_invariant [where P = "\<lambda>s. ccAborted (snd s) \<longrightarrow> fails (fst s) \<noteq> []"])
      (auto simp: copy_counters0_def)
  with assms(2) show ?thesis by blast
qed

lemma deletes_cancelled_by:
  assumes "plCancelled (deletes_pool env opts sched as False par st)"
    and "\<not> plParent (deletes_pool env opts sched as False par st)"
  shows "fails (fst (plShared (deletes_pool env opts sched as False par st))) \<noteq> []"
proof -
  have "fails (fst (fst (delete_body env opts c a s))) \<noteq> []" if "snd (delete_body env opts c a s) = Abort" for c a s
    using that by (cases rule: delete_body_cases [of env a s opts c]) auto
  moreover have "fails (fst (fst (delete_body env opts c a s))) \<noteq> []" if "fails (fst s) \<noteq> []" for c a s
    using that delete_body_grows [of s env opts c a] by auto
  ultimately show ?thesis
    using pool_cancelled_by [where P = "\<lambda>s. fails (fst s) \<noteq> []", OF run_pool_steps [of "\<lambda>a s. s" "delete_body env opts" _ sched]] assms
    unfolding deletes_pool_def by blast
qed

text \<open>Updates at different paths, and removals, commute.\<close>

lemma fold_apply_perm:
  assumes "mset xs = mset ys" and "distinct (map aRelPath xs) \<or> (\<forall>a \<in> set xs. effect a = None)"
  shows "fold apply_action xs = fold apply_action ys"
proof (rule fold_multiset_equiv [OF _ assms(1)])
  fix a b assume "a \<in> set xs" "b \<in> set xs"
  then have "a = b \<or> aRelPath a \<noteq> aRelPath b \<or> effect a = effect b"
    using assms(2) by (auto simp: distinct_map inj_on_def)
  then show "apply_action a \<circ> apply_action b = apply_action b \<circ> apply_action a"
    by (auto simp: apply_action_def fun_eq_iff)
qed

text \<open>A plan in stage order, with directories that can be made when their turn comes.\<close>

definition stage_ready ::
  "(string \<rightharpoonup> entry) \<Rightarrow> action list \<Rightarrow> action list \<Rightarrow> action list \<Rightarrow> action list \<Rightarrow> action list \<Rightarrow> bool" where
  "stage_ready t us ms cs ds rs \<longleftrightarrow>
     (\<forall>a \<in> set us. Kind a \<in> {ActionDelete, ActionRmDir})
     \<and> (\<forall>a \<in> set ms. Kind a = ActionMkDir \<and> fold apply_action us t (aRelPath a) = None)
     \<and> (\<forall>a \<in> set ms. \<forall>q. beneath q (aRelPath a) \<longrightarrow> fold apply_action us t q \<noteq> None \<or> q \<in> aRelPath ` set ms)
     \<and> distinct (map aRelPath ms) \<and> sorted_wrt (\<lambda>a b. \<not> beneath (aRelPath b) (aRelPath a)) ms
     \<and> (\<forall>a \<in> set cs. Kind a = ActionCopy) \<and> distinct (map aRelPath cs)
     \<and> (\<forall>a \<in> set ds. Kind a = ActionDelete) \<and> (\<forall>a \<in> set rs. Kind a = ActionRmDir)"

context dest_tree
begin

lemma clear_refines:
  assumes "clearBlockers env c as st = (st', None)" and "fails st' = []"
    and "\<forall>a \<in> set as. Kind a \<in> {ActionDelete, ActionRmDir}"
  shows "look (esFs st') = fold apply_action as (look (esFs st))
    \<and> DirsRemoved (esResult st') = DirsRemoved (esResult st) + int (length (filter (\<lambda>a. Kind a = ActionRmDir) as))"
  using assms
proof (induction as arbitrary: c st)
  case (Cons a as)
  obtain e fs where x: "xeRemove env (aRelPath a) (esFs st) = (e, fs)" by fastforce
  have "clearBlockers env (tick c) as (clear_one env a st) = (st', None)"
    using Cons.prems(1) by (simp split: if_splits)
  then have "fails (clear_one env a st) = []" using loops_fail(1) [of "clear_one env a st" env "tick c" as] Cons.prems(2) by simp
  then have nf: "\<not> removal_failed e" using x by (auto simp: clear_one_def Let_def)
  have "look (esFs (clear_one env a st)) = apply_action a (look (esFs st))"
    using remove_effect [OF x nf] x nf Cons.prems(3) by (auto simp: clear_one_def apply_action_def effect_def)
  moreover have "DirsRemoved (esResult (clear_one env a st)) = DirsRemoved (esResult st) + (if Kind a = ActionRmDir then 1 else 0)"
    using x nf by (simp add: clear_one_def)
  ultimately show ?case
    using Cons.IH [of "tick c" "clear_one env a st"] \<open>clearBlockers env (tick c) as (clear_one env a st) = (st', None)\<close> Cons.prems
    by simp
qed simp

lemma mkdir_refines:
  assumes "mkdir_loop env c as st = (st', None)" and "fails st' = []"
    and "\<forall>a \<in> set as. Kind a = ActionMkDir \<and> look (esFs st) (aRelPath a) = None"
    and "\<And>a q. a \<in> set as \<Longrightarrow> beneath q (aRelPath a) \<Longrightarrow> look (esFs st) q \<noteq> None \<or> q \<in> aRelPath ` set as"
    and "distinct (map aRelPath as)" "sorted_wrt (\<lambda>a b. \<not> beneath (aRelPath b) (aRelPath a)) as"
  shows "look (esFs st') = fold apply_action as (look (esFs st))
    \<and> DirsRemoved (esResult st') = DirsRemoved (esResult st)"
  using assms
proof (induction as arbitrary: c st)
  case (Cons a as)
  obtain e fs where x: "xeMkdirAll env (aRelPath a) (esFs st) = (e, fs)" by fastforce
  have run: "mkdir_loop env (tick c) as (mkdir_one env a st) = (st', None)"
    using Cons.prems(1) by (simp split: if_splits)
  then have "fails (mkdir_one env a st) = []" using loops_fail(2) [of "mkdir_one env a st" env "tick c" as] Cons.prems(2) by simp
  then have e: "e = None" using x by (cases e) (auto simp: mkdir_one_def Let_def)
  have above: "look (esFs st) q \<noteq> None" if "beneath q (aRelPath a)" for q
  proof -
    have "q \<notin> aRelPath ` set (a # as)" using that Cons.prems(6) by auto
    then show ?thesis using Cons.prems(4) [of a q] that by auto
  qed
  have "look fs q = ((look (esFs st))(aRelPath a := effect a)) q" for q
    using mkdir_effect [OF x [unfolded e]] above [of q] Cons.prems(3)
    by (cases "beneath q (aRelPath a)") (auto simp: effect_def made_dir_def)
  then have "look fs = (look (esFs st))(aRelPath a := effect a)" by blast
  then have l: "look (esFs (mkdir_one env a st)) = apply_action a (look (esFs st))"
    using x e by (simp add: mkdir_one_def apply_action_def)
  have d: "DirsRemoved (esResult (mkdir_one env a st)) = DirsRemoved (esResult st)"
    using x e by (simp add: mkdir_one_def)
  have eff: "effect a \<noteq> None" using Cons.prems(3) by (simp add: effect_def)
  have "look (esFs st') = fold apply_action as (look (esFs (mkdir_one env a st)))
    \<and> DirsRemoved (esResult st') = DirsRemoved (esResult (mkdir_one env a st))"
  proof (rule Cons.IH [OF run Cons.prems(2)])
    have "aRelPath b \<noteq> aRelPath a" if "b \<in> set as" for b using Cons.prems(5) that by (force simp: image_iff)
    then show "\<forall>b \<in> set as. Kind b = ActionMkDir \<and> look (esFs (mkdir_one env a st)) (aRelPath b) = None"
      using Cons.prems(3) by (simp add: l apply_action_def)
    show "look (esFs (mkdir_one env a st)) q \<noteq> None \<or> q \<in> aRelPath ` set as"
      if "b \<in> set as" "beneath q (aRelPath b)" for b q
      using Cons.prems(4) [of b q] that eff by (simp add: l apply_action_def) blast
  qed (use Cons.prems(5,6) in simp_all)
  then show ?case by (simp add: l d)
qed simp

text \<open>The copies of a run that skipped and failed nothing.\<close>

lemma copies_replay_refines:
  assumes "\<forall>a. Did True a \<notin> set ws" and "\<forall>a \<in> set (did ws). Kind a = ActionCopy"
    and "fails (fst (replay (copy_start env) (copy_body env opts) ws s)) = []"
    and "ccSkipped (snd (replay (copy_start env) (copy_body env opts) ws s)) = ccSkipped (snd s)"
  shows "look (esFs (fst (replay (copy_start env) (copy_body env opts) ws s)))
      = fold apply_action (did ws) (look (esFs (fst s)))
    \<and> DirsRemoved (esResult (fst (replay (copy_start env) (copy_body env opts) ws s))) = DirsRemoved (esResult (fst s))"
  using assms
proof (induction ws arbitrary: s)
  case (Cons w ws)
  show ?case
  proof (cases w)
    case (Took a)
    then show ?thesis using Cons.IH [of "copy_start env a s"] Cons.prems by simp
  next
    case (Did c a)
    let ?t = "fst (copy_body env opts c a s)"
    have c: "c = False" and k: "Kind a = ActionCopy" using Cons.prems(1,2) Did by auto
    note g = replay_copies_grow [of ?t env opts ws]
    have f: "fails (fst ?t) = []" using g Cons.prems(3) Did by simp
    have sk: "ccSkipped (snd ?t) = ccSkipped (snd s)"
      using g Cons.prems(4) Did copy_body_grows(2) [of s env opts c a] by simp
    have "look (esFs (fst ?t)) = apply_action a (look (esFs (fst s))) \<and> DirsRemoved (esResult (fst ?t)) = DirsRemoved (esResult (fst s))"
    proof (cases rule: copy_body_cases [of env c a s opts])
      case (copied res reps fs st)
      then show ?thesis using copy_effect [OF k copied(1)] by (simp add: apply_action_def)
    next
      case (cancelled res e reps fs st)
      then show ?thesis using copy_okD [OF copy_cancel] c by blast
    qed (use f sk in auto)
    moreover have "look (esFs (fst (replay (copy_start env) (copy_body env opts) ws ?t))) = fold apply_action (did ws) (look (esFs (fst ?t)))
      \<and> DirsRemoved (esResult (fst (replay (copy_start env) (copy_body env opts) ws ?t))) = DirsRemoved (esResult (fst ?t))"
      using Cons.prems Did sk by (intro Cons.IH) auto
    ultimately show ?thesis using Did by simp
  qed
qed simp

lemma deletes_replay_refines:
  assumes "\<forall>a \<in> set (did ws). Kind a = ActionDelete"
    and "fails (fst (replay (\<lambda>a s. s) (delete_body env opts) ws s)) = []"
  shows "look (esFs (fst (replay (\<lambda>a s. s) (delete_body env opts) ws s))) = fold apply_action (did ws) (look (esFs (fst s)))
    \<and> DirsRemoved (esResult (fst (replay (\<lambda>a s. s) (delete_body env opts) ws s))) = DirsRemoved (esResult (fst s))"
  using assms
proof (induction ws arbitrary: s)
  case (Cons w ws)
  show ?case
  proof (cases w)
    case (Did c a)
    let ?t = "fst (delete_body env opts c a s)"
    have f: "fails (fst ?t) = []" using replay_deletes_grow [of ?t env opts ws] Cons.prems(2) Did by simp
    have "look (esFs (fst ?t)) = apply_action a (look (esFs (fst s))) \<and> DirsRemoved (esResult (fst ?t)) = DirsRemoved (esResult (fst s))"
    proof (cases rule: delete_body_cases [of env a s opts c])
      case (deleted e fs st)
      then show ?thesis using remove_effect [OF deleted(1,2)] Cons.prems(1) Did by (simp add: apply_action_def effect_def)
    qed (use f in auto)
    then show ?thesis using Cons.IH [of ?t] Cons.prems Did by simp
  qed (use Cons in simp)
qed simp

lemma rmdirs_bound:
  "DirsRemoved (esResult (removeDirs env c as st)) \<le> DirsRemoved (esResult st) + int (length as)
    \<and> fails (removeDirs env c as st) = fails st"
proof (induction as arbitrary: c st)
  case (Cons a as)
  have "DirsRemoved (esResult (rmdir_one env a st)) \<le> DirsRemoved (esResult st) + 1 \<and> fails (rmdir_one env a st) = fails st"
    by (auto simp: rmdir_one_def Let_def split: prod.splits)
  then show ?case using Cons.IH [of "tick c" "rmdir_one env a st"] by auto
qed simp

lemma rmdirs_refine:
  assumes "DirsRemoved (esResult (removeDirs env c as st)) = DirsRemoved (esResult st) + int (length as)"
    and "\<forall>a \<in> set as. Kind a = ActionRmDir"
  shows "look (esFs (removeDirs env c as st)) = fold apply_action as (look (esFs st))"
  using assms
proof (induction as arbitrary: c st)
  case (Cons a as)
  obtain e fs where x: "xeRemove env (aRelPath a) (esFs st) = (e, fs)" by fastforce
  have c: "c \<noteq> Some 0" using Cons.prems(1) by auto
  then have n: "\<not> removal_failed e"
    using Cons.prems(1) rmdirs_bound [of "tick c" as "rmdir_one env a st"] x by (auto simp: rmdir_one_def)
  have "look (esFs (rmdir_one env a st)) = apply_action a (look (esFs st))"
    "DirsRemoved (esResult (rmdir_one env a st)) = DirsRemoved (esResult st) + 1"
    using remove_effect [OF x n] x n Cons.prems(2) by (auto simp: rmdir_one_def apply_action_def effect_def)
  then show ?case using Cons.IH [of "tick c" "rmdir_one env a st"] Cons.prems c by simp
qed simp


lemma runCopies_refines:
  assumes "runCopies env opts sched as st = (st', c, False)" and "fails st' = []"
    and "as \<noteq> [] \<Longrightarrow> Skipped (esResult st') = 0"
    and "\<forall>a \<in> set as. Kind a = ActionCopy" "distinct (map aRelPath as)"
  shows "c = False \<and> look (esFs st') = fold apply_action as (look (esFs st))
    \<and> DirsRemoved (esResult st') = DirsRemoved (esResult st)"
proof (cases "as = []")
  case True
  then show ?thesis using assms(1) by (simp add: runCopies_def)
next
  case False
  let ?p = "copies_pool env opts sched as st" and ?s0 = "(on_tracker (SetPhase PhaseCopying) st, copy_counters0)"
  obtain st1 cc where sh: "plShared ?p = (st1, cc)" by fastforce
  have r: "fails st' = fails st1" "esFs st' = esFs st1" "DirsRemoved (esResult st') = DirsRemoved (esResult st1)"
    "Skipped (esResult st') = ccSkipped cc" "c = plCancelled ?p" "\<not> plParent ?p"
    using assms(1) False sh unfolding runCopies_def copies_pool_def [symmetric]
    by (auto simp: Let_def split: if_splits)
  have nc: "\<not> plCancelled ?p"
    using copies_cancelled_by copies_aborted_failed [OF copy_cancel] r sh assms(2) by (metis fst_conv)
  obtain ws where w: "plShared ?p = replay (copy_start env) (copy_body env opts) ws ?s0"
      and d: "mset (did ws) = mset as" "\<forall>a. Did True a \<notin> set ws"
    using copies_linearise [OF copy_cancel, where opts = opts and sched = sched and as = as and st = st] nc by metis
  have e: "replay (copy_start env) (copy_body env opts) ws ?s0 = (st1, cc)" using w sh by simp
  have "set (did ws) = set as" using d(1) by (rule mset_eq_setD)
  then have "look (esFs st1) = fold apply_action (did ws) (look (esFs st)) \<and> DirsRemoved (esResult st1) = DirsRemoved (esResult st)"
    using copies_replay_refines [OF d(2), of opts ?s0] e r assms(2-4) False by (simp add: copy_counters0_def)
  moreover have "fold apply_action (did ws) = fold apply_action as"
    using fold_apply_perm [OF d(1) [symmetric]] assms(5) by simp
  ultimately show ?thesis using r nc by simp
qed

lemma runDeletes_refines:
  assumes "runDeletes env opts sched as False par st = (st', c, False)" and "fails st' = []"
    and "\<forall>a \<in> set as. Kind a = ActionDelete"
  shows "c = False \<and> look (esFs st') = fold apply_action as (look (esFs st))
    \<and> DirsRemoved (esResult st') = DirsRemoved (esResult st)"
proof (cases "as = []")
  case True
  then show ?thesis using assms(1) by (simp add: runDeletes_def)
next
  case False
  let ?p = "deletes_pool env opts sched as False par st"
  let ?s0 = "(on_tracker (SetPhase PhaseDeleting) st, \<lparr>dcDeleted = 0, dcAborted = False\<rparr>)"
  obtain st1 dc where sh: "plShared ?p = (st1, dc)" by fastforce
  have r: "fails st' = fails st1" "esFs st' = esFs st1" "DirsRemoved (esResult st') = DirsRemoved (esResult st1)"
    "c = plCancelled ?p" "\<not> plParent ?p"
    using assms(1) False sh unfolding runDeletes_def deletes_pool_def [symmetric] by (auto simp: Let_def)
  have nc: "\<not> plCancelled ?p" using deletes_cancelled_by r sh assms(2) by (metis fst_conv)
  obtain ws where w: "plShared ?p = replay (\<lambda>a s. s) (delete_body env opts) ws ?s0" and d: "mset (did ws) = mset as"
    using deletes_linearise [where env = env and opts = opts and sched = sched and as = as and c = False and par = par and st = st] nc by metis
  have e: "replay (\<lambda>a s. s) (delete_body env opts) ws ?s0 = (st1, dc)" using w sh by simp
  have se: "set (did ws) = set as" using d by (rule mset_eq_setD)
  then have "look (esFs st1) = fold apply_action (did ws) (look (esFs st)) \<and> DirsRemoved (esResult st1) = DirsRemoved (esResult st)"
    using deletes_replay_refines [of ws opts ?s0] e r assms(2,3) by simp
  moreover have "fold apply_action (did ws) = fold apply_action as"
    using fold_apply_perm [OF d] assms(3) se by (simp add: effect_def)
  ultimately show ?thesis using r nc by simp
qed


lemma create_refines:
  assumes "create_stages env opts sched p st = (st1, None, c, False)" and "partition_plan p = (us, ms, cs, ds, rs)"
    and "stage_ready (look (esFs st)) us ms cs ds rs" and "fails st1 = []"
    and "Skipped (esResult st1) = 0"
  shows "c = False \<and> look (esFs st1) = fold apply_action (us @ ms @ cs) (look (esFs st))
    \<and> DirsRemoved (esResult st1) = DirsRemoved (esResult st) + int (length (filter (\<lambda>a. Kind a = ActionRmDir) us))"
proof -
  obtain sa where a: "clearBlockers env (xsClear sched) us st = (sa, None)"
    using assms(1,2) by (auto simp: create_stages_def Let_def split: prod.splits option.splits)
  obtain sb where b: "makeDirs env (xsMkdirs sched) ms sa = (sb, None)"
    using assms(1,2) a by (auto simp: create_stages_def Let_def split: prod.splits option.splits)
  have r: "runCopies env opts (xsCopies sched) cs sb = (st1, c, False)"
    using assms(1,2) a b by (auto simp: create_stages_def Let_def split: prod.splits)
  have cs: "\<forall>a \<in> set cs. Kind a = ActionCopy" "distinct (map aRelPath cs)" using assms(3) by (auto simp: stage_ready_def)
  note C = runCopies_refines [OF r assms(4) _ cs]
  have fb: "fails sb = []"
  proof -
    obtain ws where w: "plShared (copies_pool env opts (xsCopies sched) cs sb)
      = replay (copy_start env) (copy_body env opts) ws (on_tracker (SetPhase PhaseCopying) sb, copy_counters0)"
      using copies_linearise [OF copy_cancel] by metis
    have "prefix (fails sb) (fails (fst (plShared (copies_pool env opts (xsCopies sched) cs sb))))"
      using replay_copies_grow [of "(on_tracker (SetPhase PhaseCopying) sb, copy_counters0)" env opts ws] unfolding w by simp
    then have "prefix (fails sb) (fails st1)" using r unfolding runCopies_def copies_pool_def [symmetric]
      by (auto simp: Let_def split: if_splits prod.splits)
    then show ?thesis using assms(4) by simp
  qed
  let ?sa = "if ms \<noteq> [] then on_tracker (SetPhase PhaseCopying) sa else sa"
  have bl: "mkdir_loop env (xsMkdirs sched) ms ?sa = (sb, None)" using b by (simp add: makeDirs_def)
  have fa: "fails sa = []" using loops_fail(2) [of ?sa env "xsMkdirs sched" ms] bl fb by (simp split: if_splits)
  have A: "look (esFs sa) = fold apply_action us (look (esFs st))
    \<and> DirsRemoved (esResult sa) = DirsRemoved (esResult st) + int (length (filter (\<lambda>a. Kind a = ActionRmDir) us))"
    using assms(3) by (intro clear_refines [OF a fa]) (auto simp: stage_ready_def)
  have "esFs ?sa = esFs sa" "esResult ?sa = esResult sa" by simp_all
  then have "look (esFs sb) = fold apply_action ms (look (esFs sa)) \<and> DirsRemoved (esResult sb) = DirsRemoved (esResult sa)"
    using mkdir_refines [OF bl fb] assms(3) A unfolding stage_ready_def by (auto simp del: Kind_def)
  then show ?thesis using A C assms(5) by simp
qed

lemma run_refines:
  assumes "Execute env opts sched p st = (st', None)" and p: "partition_plan p = (us, ms, cs, ds, rs)"
    and ready: "stage_ready (look (esFs st)) us ms cs ds rs"
    and f: "fails st' = []" and sk: "Skipped (esResult st') = 0" and d0: "DirsRemoved (esResult st) = 0"
    and dirs: "DirsRemoved (esResult st') = int (length (filter (\<lambda>a. Kind a = ActionRmDir) (us @ rs)))"
  shows "look (esFs st') = fold apply_action (us @ ms @ cs @ ds @ rs) (look (esFs st))"
proof -
  obtain st1 c par where c: "create_stages env opts sched p st = (st1, None, c, par)"
    using assms(1) by (auto simp: Execute_def split: prod.splits option.splits)
  have "\<not> deletions_withheld opts p st1"
  proof
    assume w: "deletions_withheld opts p st1"
    then have "st' = skip_deletions ds rs st1" using assms(1) c p by (simp add: Execute_def)
    then have "fails st' = fails st1" by (simp add: skip_deletions_def)
    then show False using w f p by (simp add: deletions_withheld_def exec_Failed_def)
  qed
  then have del: "delete_stages env opts sched p c par st1 = (st', None)"
    using assms(1) c by (simp add: Execute_def)
  let ?s2 = "announce_deletes ds rs st1"
  obtain s3 c3 par3 where d: "runDeletes env opts (xsDeletes sched) ds c par ?s2 = (s3, c3, par3)"
    by (cases "runDeletes env opts (xsDeletes sched) ds c par ?s2") auto
  let ?s4 = "removeDirs env (if c3 then Some 0 else xsRmdirs sched) rs s3"
  have e: "st' = summariseLockedFiles ?s4" and par3: "\<not> par3"
    using del p d by (auto simp: delete_stages_def Let_def ctx_err_def split: if_splits)
  note keep = runDeletes_keeps [OF d]
  have f3: "fails s3 = []" using f rmdirs_bound [of _ rs s3] by (simp add: e)
  have "fails st1 = []" using keep(1) f3 by simp
  moreover have "Skipped (esResult st1) = 0" using keep(2) sk removeDirs_skips [of env _ rs s3] by (simp add: e)
  moreover have "\<not> par" using keep(3) par3 by blast
  ultimately have C: "c = False \<and> look (esFs st1) = fold apply_action (us @ ms @ cs) (look (esFs st))
    \<and> DirsRemoved (esResult st1) = DirsRemoved (esResult st) + int (length (filter (\<lambda>a. Kind a = ActionRmDir) us))"
    by (intro create_refines [OF _ p ready, where opts = opts and sched = sched]) (use c in simp_all)
  have kinds: "\<forall>a \<in> set ds. Kind a = ActionDelete" "\<forall>a \<in> set rs. Kind a = ActionRmDir"
    using ready by (auto simp: stage_ready_def)
  have D: "c3 = False \<and> look (esFs s3) = fold apply_action ds (look (esFs st1))
    \<and> DirsRemoved (esResult s3) = DirsRemoved (esResult st1)"
    using runDeletes_refines [OF _ f3 kinds(1), where opts = opts and st = ?s2] d C par3 by auto
  have "filter (\<lambda>a. Kind a = ActionRmDir) rs = rs" using kinds(2) by (simp add: filter_id_conv)
  then have "DirsRemoved (esResult ?s4) = DirsRemoved (esResult s3) + int (length rs)"
    using dirs C D d0 by (simp add: e)
  from rmdirs_refine [OF this kinds(2)] show ?thesis using C D by (simp add: e)
qed

end


section \<open>The stages of a mirror plan\<close>

lemma Diff_kinds:
  assumes "listing_ok src"
  shows "a \<in> set (src_unblocks um src dst opts) \<Longrightarrow> Unblock a \<and> Kind a \<in> {ActionDelete, ActionRmDir}"
    and "a \<in> set (all_mkdirs um src dst opts) \<Longrightarrow> \<not> Unblock a \<and> Kind a = ActionMkDir"
    and "a \<in> set (src_copies um src dst opts) \<Longrightarrow> \<not> Unblock a \<and> Kind a = ActionCopy"
    and "a \<in> set (kept_deletes um src dst opts) \<Longrightarrow> \<not> Unblock a \<and> Kind a = ActionDelete"
    and "a \<in> set (kept_rmdirs um src dst opts) \<Longrightarrow> \<not> Unblock a \<and> Kind a = ActionRmDir"
  using kinds_src_unblocks [of a um src dst opts] in_all_mkdirs [of a um src dst opts]
    kinds_src_copies [OF assms, of a um dst opts] in_kept_deletes [of a um src dst opts] in_kept_rmdirs [of a um src dst opts]
  by auto

text \<open>The executor takes the plan apart into the stages the differ put together.\<close>

lemma filter_all: "(\<And>a. a \<in> set xs \<Longrightarrow> P a) \<Longrightarrow> filter P xs = xs"
  by (simp add: filter_id_conv)

lemma partition_Diff:
  assumes "listing_ok src"
  shows "partition_plan (Diff um src dst opts) =
     (sortByDepth False (src_unblocks um src dst opts), sortByDepth True (all_mkdirs um src dst opts),
      sort_slice path_less (src_copies um src dst opts), sortByDepth False (kept_deletes um src dst opts),
      sortByDepth False (kept_rmdirs um src dst opts))"
proof -
  let ?U = "sortByDepth False (src_unblocks um src dst opts)" and ?M = "sortByDepth True (all_mkdirs um src dst opts)"
  let ?C = "sort_slice path_less (src_copies um src dst opts)" and ?D = "sortByDepth False (kept_deletes um src dst opts)"
  let ?R = "sortByDepth False (kept_rmdirs um src dst opts)"
  note k = Diff_kinds [OF assms, where um = um and dst = dst and opts = opts]
  have "filter Unblock ?U = ?U" "filter Unblock (?M @ ?C @ ?D @ ?R) = []"
    using k by (auto intro: filter_all)
  moreover have "filter (\<lambda>a. \<not> Unblock a \<and> Kind a = K) ?U = []" for K using k(1) by auto
  moreover have "filter (\<lambda>a. \<not> Unblock a \<and> Kind a = K) ?M = (if K = ActionMkDir then ?M else [])"
    "filter (\<lambda>a. \<not> Unblock a \<and> Kind a = K) ?C = (if K = ActionCopy then ?C else [])"
    "filter (\<lambda>a. \<not> Unblock a \<and> Kind a = K) ?D = (if K = ActionDelete then ?D else [])"
    "filter (\<lambda>a. \<not> Unblock a \<and> Kind a = K) ?R = (if K = ActionRmDir then ?R else [])" for K
    using k(2-) by (auto intro!: filter_all)
  ultimately show ?thesis by (simp add: partition_plan_def Diff_Actions)
qed

abbreviation cleared where
  "cleared um src dst opts \<equiv>
     fold apply_action (sortByDepth False (src_unblocks um src dst opts)) (goget (Entries dst))"

lemma item_dir_blocked:
  assumes "Mode opts = ModeMirror" "\<not> IsSymlink e" "IsDir e"
  shows "\<exists>a. a \<in> set (ctMkdirs (src_item opts p e None))"
    and "IsSymlink d \<or> \<not> IsDir d \<Longrightarrow> \<exists>a. a \<in> set (ctMkdirs (src_item opts p e (Some d)))"
    and "IsSymlink d \<or> \<not> IsDir d \<Longrightarrow> \<exists>a. a \<in> set (ctUnblocks (src_item opts p e (Some d)))"
  using assms by (cases "IsSymlink d"; simp add: src_item_def; blast)+

text \<open>A directory of the source is there already and stays, or its place is cleared and the
  plan makes it.\<close>

lemma mirror_dir_cases:
  assumes mr: "mirror_run src dst opts" and e: "goget (Entries src) p = Some e" "IsDir e"
  shows "if (\<exists>d. goget (Entries dst) p = Some d \<and> IsDir d \<and> \<not> IsSymlink d)
    then cleared um src dst opts p \<noteq> None
    else cleared um src dst opts p = None \<and> p \<in> aRelPath ` set (src_mkdirs um src dst opts)"
proof -
  have nl: "\<not> IsSymlink e" and m: "mirroring opts" using mr e by (auto simp: mirror_run_def)
  have c: "considered um src opts p e'\<longleftrightarrow> e' = e" for e' using considered_iff [OF mr] e(1) by auto
  have eff: "effect a = None" if "a \<in> set (sortByDepth False (src_unblocks um src dst opts))" for a
    using kinds_src_unblocks [of a um src dst opts] that by (auto simp: effect_def)
  show ?thesis
  proof (cases "\<exists>d. goget (Entries dst) p = Some d \<and> IsDir d \<and> \<not> IsSymlink d")
    case True
    then have "p \<notin> aRelPath ` set (src_unblocks um src dst opts)"
      using e(2) nl considered_iff [OF mr] e(1) by (fastforce simp: in_src_unblocks dest!: item_unblocks)
    then show ?thesis using True by (auto simp: fold_apply_untouched)
  next
    case False
    obtain a where a: "a \<in> set (ctMkdirs (src_item opts p e (goget (Entries dst) p)))"
      using False item_dir_blocked(1,2) [OF _ nl e(2), of opts] m by (cases "goget (Entries dst) p") (simp, metis, simp, metis)
    then have "a \<in> set (src_mkdirs um src dst opts)" "aRelPath a = p"
      using c item_mkdirs [OF a] by (auto simp: in_src_mkdirs)
    moreover have "cleared um src dst opts p = None"
    proof (cases "goget (Entries dst) p")
      case None
      then show ?thesis using eff by (intro fold_None_stays)
    next
      case (Some d)
      then obtain u where u: "u \<in> set (ctUnblocks (src_item opts p e (goget (Entries dst) p)))"
        using False item_dir_blocked(3) [OF _ nl e(2), of opts] m by simp metis
      then have "u \<in> set (src_unblocks um src dst opts)" "aRelPath u = p"
        using c item_unblocks [OF u] by (auto simp: in_src_unblocks)
      then show ?thesis using eff by (intro fold_apply_touched) auto
    qed
    ultimately show ?thesis using False by auto
  qed
qed

lemma mirror_mkdir_free:
  assumes "mirror_run src dst opts" and "m \<in> set (all_mkdirs um src dst opts)"
  shows "cleared um src dst opts (aRelPath m) = None"
proof -
  obtain e where e: "goget (Entries src) (aRelPath m) = Some e" "IsDir e" using mkdir_in_src [OF assms] by blast
  have "\<not> (\<exists>d. goget (Entries dst) (aRelPath m) = Some d \<and> IsDir d \<and> \<not> IsSymlink d)"
    using assms(2) by (auto simp: all_mkdirs_def in_src_mkdirs split: option.splits dest!: item_mkdirs in_requiredDirs)
  then show ?thesis using mirror_dir_cases [OF assms(1) e, of um] by simp
qed

lemma mirror_stage_ready:
  assumes mr: "mirror_run src dst opts" and p: "partition_plan (Diff um src dst opts) = (us, ms, cs, ds, rs)"
  shows "stage_ready (goget (Entries dst)) us ms cs ds rs"
proof -
  have ok: "listing_ok src" using mr by (simp add: mirror_run_def)
  note k = Diff_kinds [OF ok, where um = um and dst = dst and opts = opts]
  have "\<exists>d. cleared um src dst opts q = Some d \<or> q \<in> aRelPath ` set (all_mkdirs um src dst opts)"
    if m: "m \<in> set (all_mkdirs um src dst opts)" and q: "beneath q (aRelPath m)" for m q
  proof -
    have "aRelPath m \<in> set (gokeys (Entries src))" using mkdir_in_src [OF mr m] goget_in_keys by metis
    then obtain e where "goget (Entries src) q = Some e" "IsDir e" using mr q unfolding mirror_run_def tree_closed_def by blast
    from mirror_dir_cases [OF mr this, of um] show ?thesis by (auto simp: all_mkdirs_def split: if_splits)
  qed
  moreover have "distinct (map aRelPath (sortByDepth True (all_mkdirs um src dst opts)))"
    "distinct (map aRelPath (sort_slice path_less (src_copies um src dst opts)))"
    using distinct_all_mkdirs [OF ok, of um dst opts] distinct_src_paths(3) [OF ok, of um dst opts]
    by (simp_all add: sortByDepth_def distinct_map)
  ultimately show ?thesis
    using p k mirror_mkdir_free [OF mr, of _ um] depth_sorted(1) [of "all_mkdirs um src dst opts"]
    unfolding partition_Diff [OF ok] stage_ready_def by (auto; blast)
qed


section \<open>A destination that keeps the contract\<close>

text \<open>
  A tree of entries on a share that may fail: \<open>flt\<close> says which call on which path fails with
  which system error (for a copy, at which attempt). Copies run through the copier's retry
  loop.
\<close>

record faults =
  ftRemove :: "string \<Rightarrow> errno option"
  ftMkdir :: "string \<Rightarrow> errno option"
  ftCopy :: "string \<Rightarrow> nat \<Rightarrow> errno option"

definition fault :: "errno option \<Rightarrow> goerr option" where
  "fault f = map_option (\<lambda>n. new_error ''system call failed'' [Errno n]) f"

definition tree_copier :: "faults \<Rightarrow> bool \<Rightarrow> action \<Rightarrow> retry_env" where
  "tree_copier flt ended a = \<lparr>
     reCtx = (\<lambda>_. if ended then Some ctx_ended else None),
     reOnce = (\<lambda>k. (\<lparr>atWritten = (if ftCopy flt (aRelPath a) k = None then aSize a else 0),
       atErr = fault (ftCopy flt (aRelPath a) k),
       atReports = (if ftCopy flt (aRelPath a) k = None then [aSize a] else [])\<rparr>, [])),
     reShouldRetry = None, reWait = (\<lambda>_. None)\<rparr>"

definition put :: "string \<Rightarrow> entry \<Rightarrow> entry gomap \<Rightarrow> entry gomap" where
  "put p e m = (p, e) # filter (\<lambda>(q, _). q \<noteq> p) m"

definition make_missing :: "string \<Rightarrow> entry gomap \<Rightarrow> entry gomap" where
  "make_missing p m = (if goget m p = None then put p (made_dir p) m else m)"

definition tree_env :: "faults \<Rightarrow> entry gomap exec_env" where
  "tree_env flt = \<lparr>
     xeRemove = (\<lambda>p m. (case fault (ftRemove flt p) of
         Some e \<Rightarrow> (Some e, m)
       | None \<Rightarrow> if goget m p = None then (Some (new_error ''no such file'' [ErrNotExist]), m)
                 else (None, filter (\<lambda>(q, _). q \<noteq> p) m))),
     xeMkdirAll = (\<lambda>p m. (case fault (ftMkdir flt p) of
         Some e \<Rightarrow> (Some e, m)
       | None \<Rightarrow> (None, fold make_missing (slash_prefixes p @ [p]) m))),
     xeCopy = (\<lambda>ended a m.
         let r = Copy (tree_copier flt ended a) (aRelPath a) None
         in (r, if fst (snd r) = None then put (aRelPath a) (the (effect a)) m else m)),
     xeNow = 0\<rparr>"

lemma goget_filter: "goget (filter (\<lambda>(q, _). q \<noteq> p) m) = (goget m)(p := None)"
  by (induction m) (auto simp: fun_eq_iff)

lemma goget_put [simp]: "goget (put p e m) = (goget m)(p := Some e)"
  by (auto simp: put_def goget_filter fun_eq_iff)

lemma goget_make_missing:
  "goget (fold make_missing ps m) = (\<lambda>q. if goget m q = None \<and> q \<in> set ps then Some (made_dir q) else goget m q)"
  by (induction ps arbitrary: m) (auto simp: make_missing_def fun_eq_iff)

lemma tree_copier_cancel:
  "copy_loop (tree_copier flt False a) src k m r0 = (r, Some e, reps) \<Longrightarrow> \<not> errors_Is e Canceled"
proof (induction m arbitrary: k r0 reps)
  case 0
  then show ?case
    by (subst (asm) copy_loop.simps)
       (auto simp: tree_copier_def fault_def vetoed_def gave_up_def Let_def split: option.splits if_splits)
next
  case (Suc m)
  show ?case using Suc.prems
    by (subst (asm) copy_loop.simps)
       (auto simp: tree_copier_def fault_def vetoed_def Let_def tree_copier_def [symmetric]
         split: option.splits if_splits prod.splits dest: Suc.IH [unfolded tree_copier_def, simplified])
qed

lemma tree_copy_ok: "copy_ok (tree_env flt)"
  unfolding copy_ok_def
proof (intro allI impI)
  fix a fs e
  assume "fst (snd (fst (xeCopy (tree_env flt) False a fs))) = Some e"
  then have "fst (snd (Copy (tree_copier flt False a) (aRelPath a) None)) = Some e"
    by (simp add: tree_env_def Let_def)
  then show "\<not> errors_Is e Canceled"
    unfolding Copy_def Let_def by (metis prod.collapse tree_copier_cancel)
qed

interpretation tree: dest_tree "tree_env flt" goget for flt
proof unfold_locales
  show "goget fs' = (goget fs)(p := None)"
    if "xeRemove (tree_env flt) p fs = (e, fs')" "\<not> removal_failed e" for p fs e fs'
    using that by (auto simp: tree_env_def fault_def removal_failed_def goget_filter fun_eq_iff split: option.splits if_splits)
  show "goget fs' = (\<lambda>q. if goget fs q = None \<and> (q = p \<or> beneath q p) then Some (made_dir q) else goget fs q)"
    if "xeMkdirAll (tree_env flt) p fs = (None, fs')" for p fs fs'
    using that by (auto simp: tree_env_def goget_make_missing slash_prefixes_iff fun_eq_iff
        simp del: fold_append split: option.splits)
  show "goget fs' = (goget fs)(aRelPath a := effect a)"
    if "Kind a = ActionCopy" "xeCopy (tree_env flt) c a fs = ((res, None, reps), fs')" for a c fs res reps fs'
    using that by (auto simp: tree_env_def Let_def effect_def split: if_splits)
qed (rule tree_copy_ok)


section \<open>Properties\<close>


text \<open>A share on which the first two attempts of every copy fail.\<close>

definition flaky_share :: faults where
  "flaky_share = \<lparr>ftRemove = (\<lambda>_. None), ftMkdir = (\<lambda>_. None), ftCopy = (\<lambda>_ k. if k < 2 then Some ECONNRESET else None)\<rparr>"

definition mirror_start :: "entry gomap exec_state" where
  "mirror_start = \<lparr>esFs = Entries sample_dst, esResult = empty_exec_result, esEvents = [], esTracker = None\<rparr>"

definition mirror_sample :: "entry gomap exec_state \<times> goerr option" where
  "mirror_sample = Execute (tree_env flaky_share) sample_exec_opts calm_schedule
     (Diff id sample_src sample_dst (sample_opts ModeMirror)) mirror_start"


end
