(* ===== verification/Targets.thy ===== *)
theory Targets
  imports Store_Types
begin

text \<open>
  Targets (\<open>src/internal/store/targets.go\<close>): the record, the names under which it is mounted
  and reported, and the validation every stored target has passed. \<open>um\<close> and \<open>uq\<close> are the
  Unicode tables behind \<open>strings.ToLower\<close> and the verb \<open>%q\<close> beyond ASCII; \<open>filepath.IsAbs\<close> is
  that of a Unix build.
\<close>

datatype target_type = TargetSMB | TargetLocal | TargetOther string

record target =
  tgID :: string
  tgName :: string
  tgType :: target_type
  Host :: string
  Share :: string
  Port :: int
  Username :: string
  Domain :: string
  MountOptsOverride :: string
  Multichannel :: bool
  NegotiatedVers :: string
  LocalPath :: string
  Subpath :: string
  PasswordEncrypted :: string

fun type_text :: "target_type \<Rightarrow> string" where
  "type_text TargetSMB = ''smb''"
| "type_text TargetLocal = ''local''"
| "type_text (TargetOther s) = s"

definition UNCPath :: "target \<Rightarrow> string" where
  "UNCPath t = (if tgType t \<noteq> TargetSMB then LocalPath t else ''//'' @ Host t @ ''/'' @ Share t)"

definition Describe :: "(string \<Rightarrow> string) \<Rightarrow> target \<Rightarrow> string" where
  "Describe uq t =
     (if tgType t = TargetSMB then fmt_q uq (tgName t) @ '' ('' @ UNCPath t @ '')''
      else fmt_q uq (tgName t) @ '' ('' @ LocalPath t @ '')'')"

definition IsGuest :: "target \<Rightarrow> bool" where
  "IsGuest t \<longleftrightarrow> Username t = []"


section \<open>Validation\<close>

definition forbiddenMountOpts :: "string gomap" where
  "forbiddenMountOpts =
     (let password = ''set the password in the target's own password field, where it is stored encrypted and passed to mount.cifs through a private file'';
          credentials = ''credentials are supplied automatically from the target's own username and password''
      in [(''password'', password), (''pass'', password),
          (''credentials'', credentials), (''cred'', credentials),
          (''hard'', ''it makes I/O against an unreachable share hang indefinitely instead of failing, which this tool relies on not happening''),
          (''sharesock'', ''it lets two targets on the same share share one session, so one target's credentials could be used for another's transfers'')])"

definition forbidden_key :: "(string \<Rightarrow> string) \<Rightarrow> string \<Rightarrow> string" where
  "forbidden_key um part = ToLower um (TrimSpace (fst (Cut1 part (CHR ''=''))))"

fun mount_opts_loop :: "(string \<Rightarrow> string) \<Rightarrow> (string \<Rightarrow> string) \<Rightarrow> string list \<Rightarrow> goerr option" where
  "mount_opts_loop um uq [] = None"
| "mount_opts_loop um uq (p # ps) =
     (let part = TrimSpace p in
      if part = [] then mount_opts_loop um uq ps
      else case goget forbiddenMountOpts (forbidden_key um part) of
             Some reason \<Rightarrow>
               Some (new_error (''mount option '' @ fmt_q uq (forbidden_key um part) @ '' is not allowed: '' @ reason) [])
           | None \<Rightarrow> mount_opts_loop um uq ps)"

definition validateMountOpts :: "(string \<Rightarrow> string) \<Rightarrow> (string \<Rightarrow> string) \<Rightarrow> string \<Rightarrow> goerr option" where
  "validateMountOpts um uq override = mount_opts_loop um uq (Split1 override (CHR '',''))"

definition IsAbs :: "string \<Rightarrow> bool" where
  "IsAbs p = HasPrefix p ''/''"

definition validate_smb :: "(string \<Rightarrow> string) \<Rightarrow> target \<Rightarrow> goerr option" where
  "validate_smb uq t =
     (if TrimSpace (Host t) = [] then Some (new_error ''host is required for an SMB target'' [])
      else if ContainsAny (Host t) [CHR ''/'', CHR 0x5C, CHR '' '']
      then Some (new_error (''host '' @ fmt_q uq (Host t) @ '' must be an IP address or hostname, without slashes'') [])
      else if TrimSpace (Share t) = [] then Some (new_error ''share is required for an SMB target'' [])
      else if ContainsAny (Share t) [CHR ''/'', CHR 0x5C]
      then Some (new_error (''share '' @ fmt_q uq (Share t) @ '' must be a single share name, without slashes'') [])
      else if Port t < 0 \<or> Port t > 65535
      then Some (new_error (''port '' @ fmt_int (Port t) @ '' is out of range (1-65535, or 0 for the default)'') [])
      else if Username t = [] \<and> PasswordEncrypted t \<noteq> []
      then Some (new_error ''a password was set without a username: clear the password to mount as guest, or set the username it belongs to'' [])
      else if LocalPath t \<noteq> [] then Some (new_error ''local_path is only valid for a local target'' [])
      else None)"

definition validate_local :: "(string \<Rightarrow> string) \<Rightarrow> target \<Rightarrow> goerr option" where
  "validate_local uq t =
     (if TrimSpace (LocalPath t) = [] then Some (new_error ''local_path is required for a local target'' [])
      else if \<not> IsAbs (LocalPath t)
      then Some (new_error (''local_path '' @ fmt_q uq (LocalPath t) @ '' must be an absolute path'') [])
      else if Host t \<noteq> [] \<or> Share t \<noteq> [] \<or> Username t \<noteq> []
      then Some (new_error ''host, share and username are only valid for an SMB target'' [])
      else None)"

definition target_Validate :: "(string \<Rightarrow> string) \<Rightarrow> (string \<Rightarrow> string) \<Rightarrow> target \<Rightarrow> goerr option" where
  "target_Validate um uq t =
     (if TrimSpace (tgName t) = [] then Some (new_error ''name is required'' [])
      else if Subpath t \<noteq> [] \<and> IsAbs (Subpath t)
      then Some (new_error ''subpath must be relative to the share root, not an absolute path'' [])
      else if ''..'' \<in> set (Split1 (Subpath t) slash)
      then Some (new_error (''subpath must not contain '' @ fmt_q uq ''..'' @ '' path segments'') [])
      else case validateMountOpts um uq (MountOptsOverride t) of
             Some e \<Rightarrow> Some e
           | None \<Rightarrow>
               (case tgType t of
                  TargetSMB \<Rightarrow> validate_smb uq t
                | TargetLocal \<Rightarrow> validate_local uq t
                | TargetOther s \<Rightarrow>
                    Some (new_error (''type must be '' @ fmt_q uq ''smb'' @ '' or '' @ fmt_q uq ''local''
                      @ '', got '' @ fmt_q uq s) [])))"

lemma mount_opts_loop_None:
  "mount_opts_loop um uq ps = None \<longleftrightarrow>
     (\<forall>p \<in> set ps. TrimSpace p = [] \<or> goget forbiddenMountOpts (forbidden_key um (TrimSpace p)) = None)"
  by (induction ps) (auto simp: Let_def split: option.splits)

text \<open>The target's own path below the share cannot climb out of it.\<close>

lemma validated_subpath:
  "target_Validate um uq t = None \<Longrightarrow>
     (Subpath t = [] \<or> hd (Subpath t) \<noteq> slash) \<and> ''..'' \<notin> set (Split1 (Subpath t) slash)"
  by (cases "Subpath t") (auto simp: target_Validate_def IsAbs_def HasPrefix_def split: if_splits)

end
