(* ===== verification/Mount_Options.thy ===== *)
theory Mount_Options
  imports Targets
begin

text \<open>
  Mount options and mount failures (\<open>src/internal/mountmgr/options.go\<close>, \<open>errors.go\<close>): the option
  string handed to \<open>mount.cifs\<close>, the SMB dialects to try, and the translation of what
  \<open>mount.cifs\<close> prints into a kind of failure.
\<close>

section \<open>The option list\<close>

record option_list =
  olOrder :: "string list"
  olByKey :: "string gomap"

definition newOptionList :: option_list where
  "newOptionList = \<lparr>olOrder = [], olByKey = []\<rparr>"

definition opt_put :: "string \<Rightarrow> string \<Rightarrow> option_list \<Rightarrow> option_list" where
  "opt_put key rendered o' =
     (let ord = (if goget (olByKey o') key = None then olOrder o' @ [key] else olOrder o')
      in o'\<lparr>olOrder := ord, olByKey := goput key rendered (olByKey o')\<rparr>)"

definition opt_set :: "string \<Rightarrow> string \<Rightarrow> option_list \<Rightarrow> option_list" where
  "opt_set key val = opt_put key (key @ ''='' @ val)"

definition opt_flag :: "string \<Rightarrow> option_list \<Rightarrow> option_list" where
  "opt_flag key = opt_put key key"

definition splitOptions :: "string \<Rightarrow> string list" where
  "splitOptions s = filter (\<lambda>p. p \<noteq> []) (map TrimSpace (Split1 s (CHR '','')))"

text \<open>The name of an option as it is written.\<close>

definition opt_key :: "string \<Rightarrow> string" where
  "opt_key part = TrimSpace (fst (Cut1 part (CHR ''='')))"

definition merge_one :: "string \<Rightarrow> option_list \<Rightarrow> option_list" where
  "merge_one part o' =
     (let key = opt_key part in
      if key = [] then o'
      else if snd (snd (Cut1 part (CHR ''=''))) then opt_put key part o'
      else opt_put key key o')"

definition merge :: "string \<Rightarrow> option_list \<Rightarrow> option_list" where
  "merge override o' = fold merge_one (splitOptions override) o'"

definition opt_parts :: "option_list \<Rightarrow> string list" where
  "opt_parts o' = map (\<lambda>k. case goget (olByKey o') k of Some r \<Rightarrow> r | None \<Rightarrow> []) (olOrder o')"

definition opt_String :: "option_list \<Rightarrow> string" where
  "opt_String o' = Join (opt_parts o') '',''"

record params =
  UID :: int
  GID :: int

definition default_options :: "target \<Rightarrow> params \<Rightarrow> string \<Rightarrow> bool \<Rightarrow> option_list" where
  "default_options t p dialect multichannel =
     (let opts = opt_set ''iocharset'' ''utf8'' (opt_set ''gid'' (fmt_int (GID p)) (opt_set ''uid'' (fmt_int (UID p))
                   (opt_set ''echo_interval'' ''2'' (opt_flag ''soft'' (opt_set ''actimeo'' ''30'' (opt_set ''cache'' ''loose''
                     (opt_set ''wsize'' ''4194304'' (opt_set ''rsize'' ''4194304'' (opt_set ''vers'' dialect newOptionList)))))))));
          opts = opt_flag ''nosharesock'' opts;
          opts = (if IsGuest t then opt_flag ''guest'' opts else opts);
          opts = (if multichannel then opt_flag ''multichannel'' opts else opts)
      in if Port t > 0 then opt_set ''port'' (fmt_int (Port t)) opts else opts)"

definition buildOptions :: "target \<Rightarrow> params \<Rightarrow> string \<Rightarrow> bool \<Rightarrow> string" where
  "buildOptions t p dialect multichannel =
     opt_String (merge (MountOptsOverride t) (default_options t p dialect multichannel))"


section \<open>Dialects\<close>

definition dialectLadder :: "string list" where
  "dialectLadder = [''3.1.1'', ''3.0'', ''2.1'']"

fun pinned_loop :: "string list \<Rightarrow> string option" where
  "pinned_loop [] = None"
| "pinned_loop (part # ps) =
     (let (k, v, found) = Cut1 part (CHR ''='')
      in if found \<and> TrimSpace k = ''vers'' then Some (TrimSpace v) else pinned_loop ps)"

definition pinnedDialect :: "string \<Rightarrow> string option" where
  "pinnedDialect override = pinned_loop (splitOptions override)"

definition dialectsFor :: "target \<Rightarrow> string list" where
  "dialectsFor t = (case pinnedDialect (MountOptsOverride t) of Some v \<Rightarrow> [v] | None \<Rightarrow> dialectLadder)"


section \<open>Failures\<close>

datatype failure_kind =
  KindAuth | KindShareMissing | KindUnreachable | KindTimeout | KindDialect | KindPermission | KindUnknown

fun kind_text :: "failure_kind \<Rightarrow> string" where
  "kind_text KindAuth = ''auth''"
| "kind_text KindShareMissing = ''share_missing''"
| "kind_text KindUnreachable = ''unreachable''"
| "kind_text KindTimeout = ''timeout''"
| "kind_text KindDialect = ''dialect''"
| "kind_text KindPermission = ''permission''"
| "kind_text KindUnknown = ''unknown''"

record mount_error =
  meSource :: string
  meKind :: failure_kind
  meErrno :: int
  meExitCode :: int
  meDetail :: string

text \<open>An error of a mount attempt: a \<open>*MountError\<close>, or any other.\<close>

datatype mount_failure = Classified mount_error | Unclassified goerr

definition em_dash :: string where
  "em_dash = [CHR 0xE2, CHR 0x80, CHR 0x94]"

definition newline :: char where
  "newline = CHR 0x0A"

definition firstLine :: "string \<Rightarrow> string" where
  "firstLine s =
     (case find (\<lambda>l. TrimSpace l \<noteq> []) (Split1 s newline) of Some l \<Rightarrow> TrimSpace l | None \<Rightarrow> TrimSpace s)"

definition MountError_Error :: "mount_error \<Rightarrow> string" where
  "MountError_Error e =
     (case meKind e of
        KindAuth \<Rightarrow> ''authentication failed for '' @ meSource e @ '' '' @ em_dash @ '' check the username, password and domain''
      | KindShareMissing \<Rightarrow> ''share '' @ meSource e @ '' does not exist on the server, or the account cannot see it''
      | KindUnreachable \<Rightarrow> ''cannot reach '' @ meSource e @ '' '' @ em_dash @ '' the host is down, or SMB (445/tcp) is blocked''
      | KindTimeout \<Rightarrow> ''mounting '' @ meSource e @ '' timed out''
      | KindDialect \<Rightarrow> ''the server rejected the connection settings for '' @ meSource e
                      @ '' (SMB version or mount options not supported)''
      | KindPermission \<Rightarrow> ''not permitted to mount '' @ meSource e @ '' '' @ em_dash @ '' the container needs the SYS_ADMIN capability''
      | KindUnknown \<Rightarrow>
          if meDetail e \<noteq> [] then ''mounting '' @ meSource e @ '' failed: '' @ firstLine (meDetail e)
          else ''mounting '' @ meSource e @ '' failed (exit status '' @ fmt_int (meExitCode e) @ '')'')"

definition failure_text :: "mount_failure \<Rightarrow> string" where
  "failure_text f = (case f of Classified e \<Rightarrow> MountError_Error e | Unclassified e \<Rightarrow> err_text e)"

definition DialectRetryable :: "mount_error \<Rightarrow> bool" where
  "DialectRetryable e \<longleftrightarrow> meKind e = KindDialect \<or> meKind e = KindUnknown"

definition kindForErrno :: "int \<Rightarrow> failure_kind" where
  "kindForErrno n =
     (if n = 13 then KindAuth
      else if n = 1 then KindPermission
      else if n \<in> {2, 6} then KindShareMissing
      else if n \<in> {110, 111, 112, 113} then KindUnreachable
      else if n \<in> {22, 95, 524} then KindDialect
      else KindUnknown)"

definition kindForText :: "(string \<Rightarrow> string) \<Rightarrow> string \<Rightarrow> failure_kind" where
  "kindForText um detail =
     (let d = ToLower um detail; says = list_ex (Contains d) in
      if says [''unable to find suitable address'', ''could not resolve address'', ''no address associated'',
               ''connection timed out'', ''host is down'', ''network is unreachable'', ''no route to host'']
      then KindUnreachable
      else if says [''permission denied'', ''password''] then KindAuth
      else if says [''operation not permitted'', ''must be superuser'', ''only root can''] then KindPermission
      else if says [''bad unc'', ''invalid argument''] then KindDialect
      else KindUnknown)"

text \<open>
  The regular expression \<open>mount error\s*\(?(\d+)\)?\<close>: the digits of its leftmost match. After
  the two words it skips white space and at most one parenthesis.
\<close>

definition is_digit :: "char \<Rightarrow> bool" where
  "is_digit c \<longleftrightarrow> (let n = (of_char c :: nat) in 48 \<le> n \<and> n \<le> 57)"

definition regexp_space :: "char \<Rightarrow> bool" where
  "regexp_space c \<longleftrightarrow> c \<in> {CHR 0x09, CHR 0x0A, CHR 0x0C, CHR 0x0D, CHR 0x20}"

definition errno_here :: "string \<Rightarrow> string option" where
  "errno_here s =
     (if prefix ''mount error'' s then
        let r = dropWhile regexp_space (drop 11 s);
            r = (case r of c # cs \<Rightarrow> if c = CHR ''('' then cs else r | [] \<Rightarrow> []);
            ds = takeWhile is_digit r
        in if ds = [] then None else Some ds
      else None)"

fun find_errno :: "string \<Rightarrow> string option" where
  "find_errno [] = None"
| "find_errno (c # cs) = (case errno_here (c # cs) of Some ds \<Rightarrow> Some ds | None \<Rightarrow> find_errno cs)"

definition classifyMountFailure ::
  "(string \<Rightarrow> string) \<Rightarrow> string \<Rightarrow> int \<Rightarrow> string \<Rightarrow> goerr option \<Rightarrow> mount_failure" where
  "classifyMountFailure um source exitCode detail ctxErr =
     (let e = \<lparr>meSource = source, meKind = KindUnknown, meErrno = 0, meExitCode = exitCode, meDetail = detail\<rparr> in
      case ctxErr of
        Some c \<Rightarrow>
          if errors_Is c DeadlineExceeded then Classified (e\<lparr>meKind := KindTimeout\<rparr>)
          else Unclassified (wrap (''mounting '' @ source @ '' was cancelled: '') c)
      | None \<Rightarrow>
          let e = (case find_errno detail of
                     None \<Rightarrow> e
                   | Some ds \<Rightarrow>
                       (case Atoi ds of None \<Rightarrow> e | Some n \<Rightarrow> e\<lparr>meErrno := n, meKind := kindForErrno n\<rparr>))
          in Classified (if meKind e = KindUnknown then e\<lparr>meKind := kindForText um detail\<rparr> else e))"

definition dialectRetryable :: "mount_failure \<Rightarrow> bool" where
  "dialectRetryable f = (case f of Classified e \<Rightarrow> DialectRetryable e | Unclassified _ \<Rightarrow> False)"

section \<open>What an option list holds\<close>

text \<open>
  The invariant of an option list: one rendering per key, named by it, without a comma; \<open>K\<close>
  holds of every key.
\<close>

definition opt_ok :: "(string \<Rightarrow> bool) \<Rightarrow> option_list \<Rightarrow> bool" where
  "opt_ok K o' \<longleftrightarrow> distinct (olOrder o') \<and> set (olOrder o') = set (gokeys (olByKey o'))
     \<and> (\<forall>k r. goget (olByKey o') k = Some r \<longrightarrow> opt_key r = k \<and> CHR '','' \<notin> set r \<and> K k)"

lemma Cut1_key: "c \<notin> set k \<Longrightarrow> Cut1 (k @ c # v) c = (k, v, True)" "c \<notin> set k \<Longrightarrow> Cut1 k c = (k, [], False)"
  by (induction k) auto

lemma opt_key_rendered:
  assumes "TrimSpace k = k" "CHR ''='' \<notin> set k"
  shows "opt_key (k @ ''='' @ v) = k" "opt_key k = k"
  using assms Cut1_key(1) [of "CHR ''=''" k v] Cut1_key(2) [of "CHR ''=''" k] by (simp_all add: opt_key_def)

lemma opt_put_ok:
  assumes "opt_ok K o'" "opt_key r = k" "CHR '','' \<notin> set r" "K k"
  shows "opt_ok K (opt_put k r o') \<and> set (olOrder (opt_put k r o')) = insert k (set (olOrder o'))"
proof -
  have "goget (olByKey o') k = None \<longleftrightarrow> k \<notin> set (olOrder o')"
    using assms(1) goget_None_iff by (auto simp: opt_ok_def)
  then show ?thesis
    using assms by (auto simp: opt_ok_def opt_put_def Let_def gm.get_put update_keys dom_update)
qed

lemma opt_ok_new: "opt_ok K newOptionList"
  by (simp add: opt_ok_def newOptionList_def)

lemma TrimSpace_subset: "c \<notin> set s \<Longrightarrow> c \<notin> set (TrimSpace s)"
  using set_mono_sublist [OF TrimSpace_sublist [of s]] by auto

lemma in_splitOptions:
  "p \<in> set (splitOptions s) \<Longrightarrow> TrimSpace p = p \<and> p \<noteq> [] \<and> CHR '','' \<notin> set p"
  by (auto simp: splitOptions_def TrimSpace_idem dest: Split1_no_sep TrimSpace_subset)

lemma merge_one_ok:
  assumes "opt_ok K o'" "p \<in> set (splitOptions s)" "K (opt_key p)"
  shows "opt_ok K (merge_one p o') \<and> set (olOrder o') \<subseteq> set (olOrder (merge_one p o'))"
proof -
  note p = in_splitOptions [OF assms(2)]
  obtain b a f where c: "Cut1 p (CHR ''='') = (b, a, f)" by (cases "Cut1 p (CHR ''='')")
  have k: "opt_key p = TrimSpace b" using c by (simp add: opt_key_def)
  show ?thesis
  proof (cases f)
    case True
    then show ?thesis using opt_put_ok [OF assms(1) refl _ assms(3)] p c assms(1) by (auto simp: merge_one_def Let_def)
  next
    case False
    then have "b = p" "CHR ''='' \<notin> set p" using Cut1_not_found [of p "CHR ''=''" b a] c by simp_all
    then have "opt_key p = p" using k p by simp
    then show ?thesis using opt_put_ok [OF assms(1) _ _ assms(3), of p] p c False by (auto simp: merge_one_def Let_def)
  qed
qed

lemma merge_ok:
  assumes "opt_ok K o'" "\<And>p. p \<in> set (splitOptions s) \<Longrightarrow> K (opt_key p)"
  shows "opt_ok K (merge s o') \<and> set (olOrder o') \<subseteq> set (olOrder (merge s o'))"
proof -
  have "opt_ok K (fold merge_one ps o') \<and> set (olOrder o') \<subseteq> set (olOrder (fold merge_one ps o'))"
    if "set ps \<subseteq> set (splitOptions s)" "opt_ok K o'" for ps o'
    using that
  proof (induction ps arbitrary: o')
    case (Cons p ps)
    then show ?case using merge_one_ok [of K o' p s] assms(2) [of p] Cons.IH [of "merge_one p o'"] by simp blast
  qed simp
  then show ?thesis using assms(1) by (simp add: merge_def)
qed

definition allowed_key :: "(string \<Rightarrow> string) \<Rightarrow> string \<Rightarrow> bool" where
  "allowed_key um k \<longleftrightarrow> goget forbiddenMountOpts (ToLower um k) = None"

lemma validated_keys:
  assumes "validateMountOpts um uq override = None" "p \<in> set (splitOptions override)"
  shows "allowed_key um (opt_key p)"
  using assms by (auto simp: validateMountOpts_def mount_opts_loop_None splitOptions_def allowed_key_def forbidden_key_def opt_key_def)

lemma dialect_no_comma: "d \<in> set (dialectsFor t) \<Longrightarrow> CHR '','' \<notin> set d"
proof -
  have "CHR '','' \<notin> set v" if "pinned_loop ps = Some v" "\<forall>p \<in> set ps. CHR '','' \<notin> set p" for ps v
    using that
  proof (induction ps)
    case (Cons p ps)
    then show ?case using Cut1_found [of p "CHR ''=''"] TrimSpace_subset
      by (fastforce simp: Let_def split: prod.splits if_splits)
  qed simp
  then show "d \<in> set (dialectsFor t) \<Longrightarrow> ?thesis"
    using in_splitOptions by (fastforce simp: dialectsFor_def dialectLadder_def pinnedDialect_def split: option.splits)
qed

definition own_keys :: "string list" where
  "own_keys = [''vers'', ''rsize'', ''wsize'', ''cache'', ''actimeo'', ''soft'', ''echo_interval'', ''uid'', ''gid'', ''iocharset'',
     ''nosharesock'', ''guest'', ''multichannel'', ''port'']"

lemma own_keys_fine:
  assumes "k \<in> set own_keys"
  shows "TrimSpace k = k" "CHR ''='' \<notin> set k" "CHR '','' \<notin> set k" "allowed_key um k"
proof -
  have *: "list_all (\<lambda>k. k \<noteq> [] \<and> list_all graphic k \<and> CHR ''='' \<notin> set k \<and> CHR '','' \<notin> set k \<and> is_ascii k
      \<and> goget forbiddenMountOpts (map ascii_lower k) = None) own_keys"
    by code_simp
  then have k: "k \<noteq> []" "list_all graphic k" "CHR ''='' \<notin> set k" "CHR '','' \<notin> set k" "is_ascii k"
      "goget forbiddenMountOpts (map ascii_lower k) = None"
    using assms unfolding list_all_iff by blast+
  then have "graphic (hd k)" "graphic (last k)" by (simp_all add: list_all_iff)
  then show "TrimSpace k = k" by (intro TrimSpace_graphic) blast
  show "CHR ''='' \<notin> set k" "CHR '','' \<notin> set k" "allowed_key um k"
    using k by (simp_all add: allowed_key_def ToLower_def)
qed

lemma opt_default_ok:
  assumes "opt_ok (allowed_key um) o'" "k \<in> set own_keys"
  shows "CHR '','' \<notin> set v \<Longrightarrow> opt_ok (allowed_key um) (opt_set k v o')" "opt_ok (allowed_key um) (opt_flag k o')"
proof -
  note f = own_keys_fine [OF assms(2)]
  show "CHR '','' \<notin> set v \<Longrightarrow> opt_ok (allowed_key um) (opt_set k v o')"
    using opt_put_ok [OF assms(1) opt_key_rendered(1) [OF f(1,2), of v]] f by (simp add: opt_set_def)
  show "opt_ok (allowed_key um) (opt_flag k o')"
    using opt_put_ok [OF assms(1) opt_key_rendered(2) [OF f(1,2)]] f by (simp add: opt_flag_def)
qed

lemma opt_has:
  "goget (olByKey (opt_put k r o')) j \<noteq> None \<longleftrightarrow> j = k \<or> goget (olByKey o') j \<noteq> None"
  by (simp add: opt_put_def Let_def gm.get_put)

lemma default_options_ok:
  assumes "CHR '','' \<notin> set dialect"
  shows "opt_ok (allowed_key um) (default_options t p dialect multichannel)
    \<and> {''soft'', ''nosharesock'', ''echo_interval'', ''vers''} \<subseteq> set (olOrder (default_options t p dialect multichannel))"
proof -
  have n: "CHR '','' \<notin> set (fmt_int z)" for z using fmt_int_chars by fastforce
  have if_ok: "(b \<Longrightarrow> opt_ok K x) \<Longrightarrow> opt_ok K y \<Longrightarrow> opt_ok K (if b then x else y)" for b K x y by simp
  have ok: "opt_ok (allowed_key um) (default_options t p dialect multichannel)"
    unfolding default_options_def Let_def
    by (intro if_ok opt_default_ok opt_ok_new assms n) (simp_all add: own_keys_def)
  have "goget (olByKey (default_options t p dialect multichannel)) k \<noteq> None"
    if "k \<in> {''soft'', ''nosharesock'', ''echo_interval'', ''vers''}" for k
    using that unfolding default_options_def Let_def opt_set_def opt_flag_def
    by (auto simp only: opt_has if_distrib [of olByKey] insert_iff empty_iff split: if_split)
  then have "k \<in> set (gokeys (olByKey (default_options t p dialect multichannel)))"
    if "k \<in> {''soft'', ''nosharesock'', ''echo_interval'', ''vers''}" for k
    using that unfolding in_keys_goget by blast
  then show ?thesis using ok unfolding opt_ok_def by blast
qed

lemma opt_parts_keys:
  assumes "opt_ok K o'"
  shows "map opt_key (opt_parts o') = olOrder o'" "p \<in> set (opt_parts o') \<Longrightarrow> CHR '','' \<notin> set p \<and> K (opt_key p)"
proof -
  have *: "\<exists>r. goget (olByKey o') k = Some r \<and> opt_key r = k \<and> CHR '','' \<notin> set r \<and> K k" if "k \<in> set (olOrder o')" for k
  proof -
    have "k \<in> set (gokeys (olByKey o'))" using assms that unfolding opt_ok_def by blast
    then obtain r where "goget (olByKey o') k = Some r" unfolding in_keys_goget ..
    with assms show ?thesis unfolding opt_ok_def by blast
  qed
  have "opt_key (case goget (olByKey o') k of Some r \<Rightarrow> r | None \<Rightarrow> []) = k" if "k \<in> set (olOrder o')" for k
    using * [OF that] by auto
  then show "map opt_key (opt_parts o') = olOrder o'"
    unfolding opt_parts_def map_map comp_def by (rule map_idI)
  assume "p \<in> set (opt_parts o')"
  then obtain k where k: "k \<in> set (olOrder o')" "p = (case goget (olByKey o') k of Some r \<Rightarrow> r | None \<Rightarrow> [])"
    by (auto simp: opt_parts_def)
  from * [OF k(1)] k(2) show "CHR '','' \<notin> set p \<and> K (opt_key p)" by auto
qed


section \<open>Properties\<close>


definition sample_target :: target where
  "sample_target = \<lparr>tgID = ''a1'', tgName = ''nas'', tgType = TargetSMB, Host = ''10.0.0.5'', Share = ''media'', Port = 0,
     Username = ''u'', Domain = [], MountOptsOverride = ''ro,vers=2.1'', Multichannel = False, NegotiatedVers = [],
     LocalPath = [], Subpath = ''a/b'', PasswordEncrypted = ''x''\<rparr>"


end
