(* ===== verification/Mount_Manager.thy ===== *)
theory Mount_Manager
  imports Mount_Options
begin

text \<open>
  The mount manager (\<open>src/internal/mountmgr/manager.go\<close>) and the health cache
  (\<open>src/internal/health/health.go\<close>): mounts on demand with reference counts, the SMB dialect
  ladder, the idle reaper and the teardown.

  Every operation first looks its entry up under the manager's lock (\<open>entryFor\<close>) and then works
  under the entry's own lock. Entries are Go pointers, so the manager has a heap of them and the
  map holds addresses: an entry that was looked up stays usable after the map has forgotten it.
  Each locked section is one step, and the steps of different callers interleave freely.
\<close>

section \<open>Health cache\<close>

datatype health = StateUnknown | StateHealthy | StateUnhealthy

record status =
  stState :: health
  stCheckedAt :: gotime
  stMessage :: string

definition health_Get :: "status gomap \<Rightarrow> string \<Rightarrow> status" where
  "health_Get m tid = (case goget m tid of Some s \<Rightarrow> s
     | None \<Rightarrow> \<lparr>stState = StateUnknown, stCheckedAt = zero_time, stMessage = []\<rparr>)"

definition SetHealthy :: "gotime \<Rightarrow> string \<Rightarrow> status gomap \<Rightarrow> status gomap" where
  "SetHealthy now tid = goput tid \<lparr>stState = StateHealthy, stCheckedAt = now, stMessage = []\<rparr>"

definition SetUnhealthy :: "gotime \<Rightarrow> string \<Rightarrow> string \<Rightarrow> status gomap \<Rightarrow> status gomap" where
  "SetUnhealthy now tid message = goput tid \<lparr>stState = StateUnhealthy, stCheckedAt = now, stMessage = message\<rparr>"

definition health_Delete :: "string \<Rightarrow> status gomap \<Rightarrow> status gomap" where
  "health_Delete tid = godel tid"


section \<open>The mounter\<close>

record mount_spec =
  spSource :: string
  spDir :: string
  spOptions :: string
  spCredsFile :: string
  spUsername :: string
  spPassword :: string
  spDomain :: string

record mount_info =
  miDir :: string
  miFSType :: string
  miSource :: string

text \<open>
  The interface \<open>Mounter\<close>, over a world \<open>'w\<close> that holds the kernel's mount table. \<open>StatFS\<close> may
  fail to answer within the timeout (\<open>None\<close>).
\<close>

record 'w mounter =
  mtMount :: "mount_spec \<Rightarrow> 'w \<Rightarrow> mount_failure option \<times> 'w"
  mtUnmount :: "string \<Rightarrow> bool \<Rightarrow> 'w \<Rightarrow> goerr option \<times> 'w"
  mtMounts :: "'w \<Rightarrow> goerr + mount_info list"
  mtStatFS :: "string \<Rightarrow> 'w \<Rightarrow> (goerr option) option"
  mtNeedsFile :: bool

record config =
  cfMountRoot :: string
  cfIdleGrace :: duration
  cfParams :: params

text \<open>
  What one call meets outside the manager: the clock, the context before each dialect (by the
  multichannel setting and the rung), the credentials lookup, the mountpoint directory and the
  credentials file.
\<close>

record call_env =
  caNow :: gotime
  caCtx :: "bool \<Rightarrow> nat \<Rightarrow> goerr option"
  caCreds :: "goerr + string"
  caPrepare :: "goerr option"
  caCredsFile :: "goerr + string"


section \<open>Mounting\<close>

definition mountOnce ::
  "'w mounter \<Rightarrow> config \<Rightarrow> call_env \<Rightarrow> target \<Rightarrow> string \<Rightarrow> string \<Rightarrow> string \<Rightarrow> bool \<Rightarrow> 'w \<Rightarrow> mount_failure option \<times> 'w" where
  "mountOnce mt cfg ca t dir dialect password multichannel w =
     (let spec = \<lparr>spSource = UNCPath t, spDir = dir, spOptions = buildOptions t (cfParams cfg) dialect multichannel,
                  spCredsFile = [], spUsername = [], spPassword = [], spDomain = []\<rparr> in
      if IsGuest t then mtMount mt spec w
      else
        let spec = spec\<lparr>spUsername := Username t, spPassword := password, spDomain := Domain t\<rparr> in
        if mtNeedsFile mt then
          (case caCredsFile ca of
             Inl e \<Rightarrow> (Some (Unclassified e), w)
           | Inr f \<Rightarrow> mtMount mt (spec\<lparr>spCredsFile := f\<rparr>) w)
        else mtMount mt spec w)"

fun dialect_loop ::
  "'w mounter \<Rightarrow> config \<Rightarrow> call_env \<Rightarrow> (string \<Rightarrow> string) \<Rightarrow> string \<Rightarrow> string \<Rightarrow> bool \<Rightarrow> nat \<Rightarrow> string list \<Rightarrow>
   mount_failure option \<Rightarrow> target \<Rightarrow> 'w \<Rightarrow> mount_failure option \<times> target \<times> 'w" where
  "dialect_loop mt cfg ca uq dir password mc k [] lastErr t w = (lastErr, t, w)"
| "dialect_loop mt cfg ca uq dir password mc k (d # ds) lastErr t w =
     (case caCtx ca mc k of
        Some e \<Rightarrow> (Some (Unclassified (wrap (''mounting '' @ Describe uq t @ '' was cancelled: '') e)), t, w)
      | None \<Rightarrow>
          (case mountOnce mt cfg ca t dir d password mc w of
             (None, w) \<Rightarrow> (None, t\<lparr>NegotiatedVers := d\<rparr>, w)
           | (Some f, w) \<Rightarrow>
               if dialectRetryable f then dialect_loop mt cfg ca uq dir password mc (Suc k) ds (Some f) t w
               else (Some f, t, w)))"

definition tryDialects ::
  "'w mounter \<Rightarrow> config \<Rightarrow> call_env \<Rightarrow> (string \<Rightarrow> string) \<Rightarrow> target \<Rightarrow> string \<Rightarrow> string \<Rightarrow> bool \<Rightarrow> 'w \<Rightarrow>
   mount_failure option \<times> target \<times> 'w" where
  "tryDialects mt cfg ca uq t dir password mc w =
     dialect_loop mt cfg ca uq dir password mc 0 (dialectsFor t) None t w"

definition mgr_mount ::
  "'w mounter \<Rightarrow> config \<Rightarrow> call_env \<Rightarrow> (string \<Rightarrow> string) \<Rightarrow> target \<Rightarrow> string \<Rightarrow> 'w \<Rightarrow> goerr option \<times> target \<times> 'w" where
  "mgr_mount mt cfg ca uq t dir w =
     (case caPrepare ca of
        Some e \<Rightarrow> (Some (wrap (''creating the mountpoint for '' @ Describe uq t @ '': '') e), t, w)
      | None \<Rightarrow>
          (case (if IsGuest t then Inr [] else caCreds ca) of
             Inl e \<Rightarrow> (Some (wrap (''reading the credentials for '' @ Describe uq t @ '': '') e), t, w)
           | Inr password \<Rightarrow>
               let (err, t1, w) = tryDialects mt cfg ca uq t dir password (Multichannel t) w;
                   (err, t1, w) =
                     (case err of
                        Some f \<Rightarrow> if Multichannel t \<and> dialectRetryable f
                                  then tryDialects mt cfg ca uq t1 dir password False w else (err, t1, w)
                      | None \<Rightarrow> (err, t1, w))
               in (map_option (\<lambda>f. new_error (''target '' @ fmt_q uq (tgName t) @ '': '' @ failure_text f)
                                     (case f of Classified e \<Rightarrow> [MountFailed (kind_text (meKind e)) (meDetail e)] | Unclassified e \<Rightarrow> err_chain e)) err, t1, w)))"

definition mountAt :: "'w mounter \<Rightarrow> string \<Rightarrow> 'w \<Rightarrow> goerr + mount_info option" where
  "mountAt mt dir w =
     (case mtMounts mt w of Inl e \<Rightarrow> Inl e | Inr ms \<Rightarrow> Inr (find (\<lambda>mi. miDir mi = dir) ms))"

definition forceUnmount :: "'w mounter \<Rightarrow> string \<Rightarrow> 'w \<Rightarrow> 'w" where
  "forceUnmount mt dir w = snd (mtUnmount mt dir True w)"

definition probe_ok :: "'w mounter \<Rightarrow> string \<Rightarrow> 'w \<Rightarrow> bool" where
  "probe_ok mt dir w \<longleftrightarrow> mtStatFS mt dir w = Some None"

record mount_entry =
  enRefs :: int
  enMounted :: bool
  enIdleSince :: gotime

definition new_entry :: mount_entry where
  "new_entry = \<lparr>enRefs = 0, enMounted = False, enIdleSince = zero_time\<rparr>"

definition ensureMounted ::
  "'w mounter \<Rightarrow> config \<Rightarrow> call_env \<Rightarrow> (string \<Rightarrow> string) \<Rightarrow> target \<Rightarrow> string \<Rightarrow> mount_entry \<Rightarrow> 'w \<Rightarrow>
   goerr option \<times> mount_entry \<times> 'w" where
  "ensureMounted mt cfg ca uq t dir e w =
     (let remount = (\<lambda>e w. case mgr_mount mt cfg ca uq t dir w of
            (Some err, _, w) \<Rightarrow> (Some err, e, w)
          | (None, _, w) \<Rightarrow> (None, e\<lparr>enMounted := True\<rparr>, w)) in
      case mountAt mt dir w of
        Inl err \<Rightarrow> (Some err, e, w)
      | Inr None \<Rightarrow> remount e w
      | Inr (Some existing) \<Rightarrow>
          if miSource existing \<noteq> UNCPath t then remount (e\<lparr>enMounted := False\<rparr>) (forceUnmount mt dir w)
          else if probe_ok mt dir w then (None, e\<lparr>enMounted := True\<rparr>, w)
          else remount (e\<lparr>enMounted := False\<rparr>) (forceUnmount mt dir w))"


section \<open>The manager\<close>

record 'w mgr =
  mgHeap :: "mount_entry list"
  mgEntries :: "nat gomap"
  mgHealth :: "status gomap"
  mgWorld :: 'w

definition entryFor :: "string \<Rightarrow> 'w mgr \<Rightarrow> nat \<times> 'w mgr" where
  "entryFor tid m =
     (case goget (mgEntries m) tid of
        Some a \<Rightarrow> (a, m)
      | None \<Rightarrow> (length (mgHeap m),
                 m\<lparr>mgHeap := mgHeap m @ [new_entry], mgEntries := goput tid (length (mgHeap m)) (mgEntries m)\<rparr>))"

definition mountpointFor :: "config \<Rightarrow> string \<Rightarrow> string" where
  "mountpointFor cfg tid = cfMountRoot cfg @ ''/'' @ tid"

text \<open>The sections under the lock of the entry at address \<open>a\<close>.\<close>

definition acquire_at ::
  "'w mounter \<Rightarrow> config \<Rightarrow> call_env \<Rightarrow> (string \<Rightarrow> string) \<Rightarrow> target \<Rightarrow> nat \<Rightarrow> 'w mgr \<Rightarrow> (goerr + string) \<times> 'w mgr" where
  "acquire_at mt cfg ca uq t a m =
     (let dir = mountpointFor cfg (tgID t);
          (err, e, w) = ensureMounted mt cfg ca uq t dir (mgHeap m ! a) (mgWorld m)
      in case err of
           Some x \<Rightarrow> (Inl x, m\<lparr>mgHeap := (mgHeap m)[a := e], mgWorld := w,
                                 mgHealth := SetUnhealthy (caNow ca) (tgID t) (err_text x) (mgHealth m)\<rparr>)
         | None \<Rightarrow> (Inr dir, m\<lparr>mgHeap := (mgHeap m)[a := e\<lparr>enRefs := enRefs e + 1\<rparr>], mgWorld := w,
                                 mgHealth := SetHealthy (caNow ca) (tgID t) (mgHealth m)\<rparr>))"

definition release_at :: "gotime \<Rightarrow> nat \<Rightarrow> 'w mgr \<Rightarrow> 'w mgr" where
  "release_at now a m =
     (let e = mgHeap m ! a;
          e = (if enRefs e > 0 then e\<lparr>enRefs := enRefs e - 1\<rparr> else e);
          e = (if enRefs e = 0 then e\<lparr>enIdleSince := now\<rparr> else e)
      in m\<lparr>mgHeap := (mgHeap m)[a := e]\<rparr>)"

definition unmountLocked ::
  "'w mounter \<Rightarrow> config \<Rightarrow> string \<Rightarrow> nat \<Rightarrow> 'w mgr \<Rightarrow> goerr option \<times> 'w mgr" where
  "unmountLocked mt cfg tid a m =
     (let dir = mountpointFor cfg tid;
          gone = (\<lambda>m. m\<lparr>mgHeap := (mgHeap m)[a := (mgHeap m ! a)\<lparr>enMounted := False\<rparr>]\<rparr>) in
      case mountAt mt dir (mgWorld m) of
        Inl e \<Rightarrow> (Some e, m)
      | Inr None \<Rightarrow> (None, gone m)
      | Inr (Some _) \<Rightarrow>
          (case mtUnmount mt dir False (mgWorld m) of
             (None, w) \<Rightarrow> (None, gone (m\<lparr>mgWorld := w\<rparr>))
           | (Some _, w) \<Rightarrow>
               (case mtUnmount mt dir True w of
                  (Some e, w) \<Rightarrow> (Some (wrap (''unmounting '' @ dir @ '': '') e), m\<lparr>mgWorld := w\<rparr>)
                | (None, w) \<Rightarrow> (None, gone (m\<lparr>mgWorld := w\<rparr>)))))"

definition unmount_at ::
  "'w mounter \<Rightarrow> config \<Rightarrow> string \<Rightarrow> nat \<Rightarrow> 'w mgr \<Rightarrow> goerr option \<times> 'w mgr" where
  "unmount_at mt cfg tid a m =
     (let refs = enRefs (mgHeap m ! a) in
      if refs > 0
      then (Some (new_error (''target is in use: '' @ fmt_int refs @ '' job(s) still using it'') [ErrInUse]), m)
      else unmountLocked mt cfg tid a m)"

definition reap_idle :: "config \<Rightarrow> gotime \<Rightarrow> mount_entry \<Rightarrow> bool" where
  "reap_idle cfg now e \<longleftrightarrow>
     enRefs e = 0 \<and> enMounted e \<and> enIdleSince e \<noteq> zero_time \<and> cfIdleGrace cfg \<le> time_Sub now (enIdleSince e)"

definition reap_at :: "'w mounter \<Rightarrow> config \<Rightarrow> gotime \<Rightarrow> string \<Rightarrow> nat \<Rightarrow> 'w mgr \<Rightarrow> 'w mgr" where
  "reap_at mt cfg now tid a m =
     (if reap_idle cfg now (mgHeap m ! a) then snd (unmountLocked mt cfg tid a m) else m)"

text \<open>\<open>Forget\<close> reads the count under the entry's lock, and deletes later under the manager's.\<close>

definition forget_allowed :: "string \<Rightarrow> 'w mgr \<Rightarrow> bool" where
  "forget_allowed tid m =
     (case goget (mgEntries m) tid of None \<Rightarrow> True | Some a \<Rightarrow> \<not> enRefs (mgHeap m ! a) > 0)"

definition forget_entry :: "string \<Rightarrow> 'w mgr \<Rightarrow> 'w mgr" where
  "forget_entry tid m = m\<lparr>mgEntries := godel tid (mgEntries m), mgHealth := health_Delete tid (mgHealth m)\<rparr>"


section \<open>The operations, undisturbed\<close>

definition Acquire ::
  "'w mounter \<Rightarrow> config \<Rightarrow> call_env \<Rightarrow> (string \<Rightarrow> string) \<Rightarrow> target \<Rightarrow> 'w mgr \<Rightarrow> (goerr + string) \<times> 'w mgr" where
  "Acquire mt cfg ca uq t m =
     (if tgType t \<noteq> TargetSMB
      then (Inl (new_error (''target '' @ Describe uq t @ '' is not an SMB target'') []), m)
      else let (a, m) = entryFor (tgID t) m in acquire_at mt cfg ca uq t a m)"

definition release :: "gotime \<Rightarrow> string \<Rightarrow> 'w mgr \<Rightarrow> 'w mgr" where
  "release now tid m = (let (a, m) = entryFor tid m in release_at now a m)"

definition Unmount :: "'w mounter \<Rightarrow> config \<Rightarrow> string \<Rightarrow> 'w mgr \<Rightarrow> goerr option \<times> 'w mgr" where
  "Unmount mt cfg tid m = (let (a, m) = entryFor tid m in unmount_at mt cfg tid a m)"

definition Forget :: "string \<Rightarrow> 'w mgr \<Rightarrow> 'w mgr" where
  "Forget tid m = (if forget_allowed tid m then forget_entry tid m else m)"

definition Refs :: "string \<Rightarrow> 'w mgr \<Rightarrow> int \<times> 'w mgr" where
  "Refs tid m = (let (a, m) = entryFor tid m in (enRefs (mgHeap m ! a), m))"

text \<open>One tick of the reaper: \<open>busy\<close> are the targets whose lock is held.\<close>

definition reapOnce :: "'w mounter \<Rightarrow> config \<Rightarrow> gotime \<Rightarrow> (string \<Rightarrow> bool) \<Rightarrow> 'w mgr \<Rightarrow> 'w mgr" where
  "reapOnce mt cfg now busy m =
     fold (\<lambda>tid m. let (a, m) = entryFor tid m in if busy tid then m else reap_at mt cfg now tid a m) (gokeys (mgEntries m)) m"

definition minReapInterval :: duration where "minReapInterval = 10000000"

definition reap_interval :: "config \<Rightarrow> duration" where
  "reap_interval cfg = max minReapInterval (cfIdleGrace cfg div 4)"

text \<open>\<open>Shutdown\<close>: a lazy detach of whatever is mounted, whether its entry is locked or not, until
  the deadline (\<open>left\<close> targets from now, if it comes).\<close>

fun shutdown_loop :: "'w mounter \<Rightarrow> config \<Rightarrow> (string \<Rightarrow> bool) \<Rightarrow> nat option \<Rightarrow> string list \<Rightarrow> 'w mgr \<Rightarrow> 'w mgr" where
  "shutdown_loop mt cfg busy left [] m = m"
| "shutdown_loop mt cfg busy left (tid # ids) m =
     (if left = Some 0 then m
      else
        let dir = mountpointFor cfg tid;
            (a, m) = entryFor tid m;
            m = (case mountAt mt dir (mgWorld m) of
                   Inr (Some _) \<Rightarrow>
                     let m = m\<lparr>mgWorld := forceUnmount mt dir (mgWorld m)\<rparr>
                     in if busy tid then m else m\<lparr>mgHeap := (mgHeap m)[a := (mgHeap m ! a)\<lparr>enMounted := False\<rparr>]\<rparr>
                 | _ \<Rightarrow> m)
        in shutdown_loop mt cfg busy (map_option (\<lambda>n. n - 1) left) ids m)"

definition mgr_Shutdown :: "'w mounter \<Rightarrow> config \<Rightarrow> (string \<Rightarrow> bool) \<Rightarrow> nat option \<Rightarrow> 'w mgr \<Rightarrow> 'w mgr" where
  "mgr_Shutdown mt cfg busy left m = shutdown_loop mt cfg busy left (gokeys (mgEntries m)) m"

definition leftover :: "config \<Rightarrow> mount_info \<Rightarrow> bool" where
  "leftover cfg mi \<longleftrightarrow> HasPrefix (miDir mi) (TrimSuffix (cfMountRoot cfg) ''/'' @ ''/'') \<and> miFSType mi = ''cifs''"

definition ReconcileStale :: "'w mounter \<Rightarrow> config \<Rightarrow> 'w \<Rightarrow> goerr option \<times> 'w" where
  "ReconcileStale mt cfg w =
     (case mtMounts mt w of
        Inl e \<Rightarrow> (Some e, w)
      | Inr ms \<Rightarrow> (None, fold (\<lambda>mi w. snd (mtUnmount mt (miDir mi) True w)) (filter (leftover cfg) ms) w))"


section \<open>Interleaving\<close>

text \<open>
  Callers between their lookup and their locked section, and the references handed out and not
  yet given back (each release function runs once, \<open>sync.Once\<close>). The flag says whether targets
  are deleted while the manager runs.
\<close>

datatype pending =
  PAcquire target nat | PRelease string nat | PUnmount string nat | PReap string nat | PForget string

record 'w mgr_state =
  msMgr :: "'w mgr"
  msPending :: "pending list"
  msHeld :: "string list"

abbreviation enter :: "pending \<Rightarrow> 'w mgr \<Rightarrow> 'w mgr_state \<Rightarrow> 'w mgr_state" where
  "enter p m s \<equiv> s\<lparr>msMgr := m, msPending := p # msPending s\<rparr>"

abbreviation leave :: "pending \<Rightarrow> 'w mgr \<Rightarrow> 'w mgr_state \<Rightarrow> 'w mgr_state" where
  "leave p m s \<equiv> s\<lparr>msMgr := m, msPending := remove1 p (msPending s)\<rparr>"

inductive mgr_step :: "'w mounter \<Rightarrow> config \<Rightarrow> (string \<Rightarrow> string) \<Rightarrow> bool \<Rightarrow> 'w mgr_state \<Rightarrow> 'w mgr_state \<Rightarrow> bool"
  for mt cfg uq deleting where
  acquire_lookup: "tgType t = TargetSMB \<Longrightarrow> entryFor (tgID t) (msMgr s) = (a, m) \<Longrightarrow>
     mgr_step mt cfg uq deleting s (enter (PAcquire t a) m s)"
| acquire_failed: "PAcquire t a \<in> set (msPending s) \<Longrightarrow> acquire_at mt cfg ca uq t a (msMgr s) = (Inl e, m) \<Longrightarrow>
     mgr_step mt cfg uq deleting s (leave (PAcquire t a) m s)"
| acquired: "PAcquire t a \<in> set (msPending s) \<Longrightarrow> acquire_at mt cfg ca uq t a (msMgr s) = (Inr dir, m) \<Longrightarrow>
     mgr_step mt cfg uq deleting s ((leave (PAcquire t a) m s)\<lparr>msHeld := tgID t # msHeld s\<rparr>)"
| release_lookup: "tid \<in> set (msHeld s) \<Longrightarrow> entryFor tid (msMgr s) = (a, m) \<Longrightarrow>
     mgr_step mt cfg uq deleting s ((enter (PRelease tid a) m s)\<lparr>msHeld := remove1 tid (msHeld s)\<rparr>)"
| released: "PRelease tid a \<in> set (msPending s) \<Longrightarrow>
     mgr_step mt cfg uq deleting s (leave (PRelease tid a) (release_at now a (msMgr s)) s)"
| unmount_lookup: "entryFor tid (msMgr s) = (a, m) \<Longrightarrow> mgr_step mt cfg uq deleting s (enter (PUnmount tid a) m s)"
| unmounted: "PUnmount tid a \<in> set (msPending s) \<Longrightarrow> unmount_at mt cfg tid a (msMgr s) = (e, m) \<Longrightarrow>
     mgr_step mt cfg uq deleting s (leave (PUnmount tid a) m s)"
| reap_lookup: "entryFor tid (msMgr s) = (a, m) \<Longrightarrow> mgr_step mt cfg uq deleting s (enter (PReap tid a) m s)"
| reap_skips: "PReap tid a \<in> set (msPending s) \<Longrightarrow> mgr_step mt cfg uq deleting s (leave (PReap tid a) (msMgr s) s)"
| reaped: "PReap tid a \<in> set (msPending s) \<Longrightarrow>
     mgr_step mt cfg uq deleting s (leave (PReap tid a) (reap_at mt cfg now tid a (msMgr s)) s)"
| forget_check: "deleting \<Longrightarrow> forget_allowed tid (msMgr s) \<Longrightarrow>
     mgr_step mt cfg uq deleting s (enter (PForget tid) (msMgr s) s)"
| forgotten: "PForget tid \<in> set (msPending s) \<Longrightarrow>
     mgr_step mt cfg uq deleting s (leave (PForget tid) (forget_entry tid (msMgr s)) s)"

definition mgr_start :: "'w \<Rightarrow> 'w mgr_state" where
  "mgr_start w = \<lparr>msMgr = \<lparr>mgHeap = [], mgEntries = [], mgHealth = [], mgWorld = w\<rparr>, msPending = [], msHeld = []\<rparr>"


section \<open>Reference counts\<close>

text \<open>Without deletions every address in a caller's hand is the one in the map, and an entry counts
  the references handed out plus the releases still waiting for its lock.\<close>

fun pend_ok :: "nat gomap \<Rightarrow> pending \<Rightarrow> bool" where
  "pend_ok ent (PAcquire t a) \<longleftrightarrow> goget ent (tgID t) = Some a"
| "pend_ok ent (PRelease tid a) \<longleftrightarrow> goget ent tid = Some a"
| "pend_ok ent (PUnmount tid a) \<longleftrightarrow> goget ent tid = Some a"
| "pend_ok ent (PReap tid a) \<longleftrightarrow> goget ent tid = Some a"
| "pend_ok ent (PForget tid) \<longleftrightarrow> False"

definition refs_due :: "'w mgr_state \<Rightarrow> string \<Rightarrow> nat \<Rightarrow> int" where
  "refs_due s tid a = int (count_list (msHeld s) tid) + int (count_list (msPending s) (PRelease tid a))"

definition mgr_inv :: "'w mgr_state \<Rightarrow> bool" where
  "mgr_inv s \<longleftrightarrow>
     (\<forall>i a. goget (mgEntries (msMgr s)) i = Some a \<longrightarrow>
        a < length (mgHeap (msMgr s)) \<and> enRefs (mgHeap (msMgr s) ! a) = refs_due s i a)
     \<and> (\<forall>i j a. goget (mgEntries (msMgr s)) i = Some a \<and> goget (mgEntries (msMgr s)) j = Some a \<longrightarrow> i = j)
     \<and> (\<forall>p \<in> set (msPending s). pend_ok (mgEntries (msMgr s)) p)
     \<and> (\<forall>i \<in> set (msHeld s). goget (mgEntries (msMgr s)) i \<noteq> None)"

lemma count_list_member: "x \<in> set xs \<Longrightarrow> 0 < count_list xs x"
  by (metis count_list_0_iff neq0_conv)

lemma count_remove1_int: "x \<in> set xs \<Longrightarrow> int (count_list (remove1 x xs) y) = int (count_list xs y) - (if x = y then 1 else 0)"
  by (induction xs) (auto simp: of_nat_diff Suc_le_eq dest: count_list_member)

lemma entryFor_cases:
  assumes "entryFor tid m = (a, m')"
  obtains (known) "goget (mgEntries m) tid = Some a" "m' = m"
  | (fresh) "goget (mgEntries m) tid = None" "a = length (mgHeap m)"
      "m' = m\<lparr>mgHeap := mgHeap m @ [new_entry], mgEntries := goput tid a (mgEntries m)\<rparr>"
  using assms by (auto simp: entryFor_def split: option.splits)

lemma pend_ok_put: "goget ent tid = None \<Longrightarrow> pend_ok ent p \<Longrightarrow> pend_ok (goput tid a ent) p"
  by (cases p) (auto simp: gm.get_put)

lemma inv_lookup:
  assumes "mgr_inv s" "entryFor tid (msMgr s) = (a, m)"
  shows "mgr_inv (s\<lparr>msMgr := m\<rparr>) \<and> goget (mgEntries m) tid = Some a"
  using assms(2)
proof (cases rule: entryFor_cases)
  case known
  then show ?thesis using assms(1) by simp
next
  case fresh
  have no: "count_list (msPending s) (PRelease tid x) = 0" for x
    using assms(1) fresh(1) by (force simp: mgr_inv_def count_list_0_iff)
  have "count_list (msHeld s) tid = 0"
    using assms(1) fresh(1) by (force simp: mgr_inv_def count_list_0_iff)
  with no have "refs_due s tid a = 0" by (simp add: refs_due_def)
  moreover have "refs_due (s\<lparr>msMgr := m\<rparr>) = refs_due s" by (simp add: refs_due_def fun_eq_iff)
  moreover have "x < length (mgHeap (msMgr s))" if "goget (mgEntries (msMgr s)) i = Some x" for i x
    using assms(1) that by (auto simp: mgr_inv_def)
  ultimately show ?thesis using assms(1) fresh pend_ok_put [OF fresh(1)]
    unfolding mgr_inv_def by (auto simp: gm.get_put nth_append new_entry_def dest!: less_not_refl2) (metis less_SucI)
qed

lemma inv_enter:
  assumes "mgr_inv (s\<lparr>msMgr := m\<rparr>)" "pend_ok (mgEntries m) p" "\<And>i a. p \<noteq> PRelease i a"
  shows "mgr_inv (enter p m s)"
proof -
  have "refs_due (enter p m s) = refs_due (s\<lparr>msMgr := m\<rparr>)" using assms(3) by (simp add: refs_due_def fun_eq_iff)
  then show ?thesis using assms(1,2) unfolding mgr_inv_def by simp
qed

lemma inv_enter_release:
  assumes "mgr_inv (s\<lparr>msMgr := m\<rparr>)" "goget (mgEntries m) tid = Some a" "tid \<in> set (msHeld s)"
  shows "mgr_inv ((enter (PRelease tid a) m s)\<lparr>msHeld := remove1 tid (msHeld s)\<rparr>)" (is "mgr_inv ?s")
proof -
  have "refs_due ?s i x = refs_due (s\<lparr>msMgr := m\<rparr>) i x" if "goget (mgEntries m) i = Some x" for i x
    using that assms(2) unfolding refs_due_def using count_remove1_int [OF assms(3), of i] by (auto simp del: count_list_remove1)
  then show ?thesis using assms(1,2) unfolding mgr_inv_def by (auto dest: in_set_remove1 [THEN iffD1] notin_set_remove1)
qed

text \<open>A locked section that leaves every count as it was.\<close>

definition same_refs :: "'w mgr \<Rightarrow> 'w mgr \<Rightarrow> bool" where
  "same_refs m m' \<longleftrightarrow> mgEntries m' = mgEntries m \<and> length (mgHeap m') = length (mgHeap m)
     \<and> (\<forall>a < length (mgHeap m). enRefs (mgHeap m' ! a) = enRefs (mgHeap m ! a))"

lemma inv_leave:
  assumes "mgr_inv s" "same_refs (msMgr s) m" "\<And>i a. p \<noteq> PRelease i a"
  shows "mgr_inv (leave p m s)"
proof -
  have "count_list (remove1 p xs) (PRelease i a) = count_list xs (PRelease i a)" for i a xs
    using assms(3) by (induction xs) auto
  then have "refs_due (leave p m s) = refs_due s" by (simp add: refs_due_def fun_eq_iff)
  then show ?thesis using assms(1,2) unfolding mgr_inv_def same_refs_def
    by (auto dest: notin_set_remove1)
qed

lemma dialect_loop_target: "dialect_loop mt cfg ca uq dir pw mc k ds l t w = (Some f, t', w') \<Longrightarrow> t' = t"
  by (induction mt cfg ca uq dir pw mc k ds l t w rule: dialect_loop.induct)
     (auto split: option.splits prod.splits if_splits)

lemma ensureMounted_refs: "ensureMounted mt cfg ca uq t dir e w = (r, e', w') \<Longrightarrow> enRefs e' = enRefs e"
  by (auto simp: ensureMounted_def Let_def split: sum.splits option.splits prod.splits if_splits)

lemma unmountLocked_refs: "same_refs m (snd (unmountLocked mt cfg tid a m))"
proof -
  have "enRefs ((mgHeap m)[a := (mgHeap m ! a)\<lparr>enMounted := False\<rparr>] ! x) = enRefs (mgHeap m ! x)"
    if "x < length (mgHeap m)" for x
    using that by (cases "x = a") auto
  then show ?thesis
    by (auto simp: unmountLocked_def same_refs_def Let_def split: sum.splits option.splits prod.splits)
qed

lemma inv_acquired:
  assumes inv: "mgr_inv s" and p: "PAcquire t a \<in> set (msPending s)"
    and r: "acquire_at mt cfg ca uq t a (msMgr s) = (Inr dir, m)"
  shows "mgr_inv ((leave (PAcquire t a) m s)\<lparr>msHeld := tgID t # msHeld s\<rparr>)" (is "mgr_inv ?s")
proof -
  have g: "goget (mgEntries (msMgr s)) (tgID t) = Some a" using inv p by (auto simp: mgr_inv_def)
  have inj: "x = a \<longleftrightarrow> i = tgID t" if "goget (mgEntries (msMgr s)) i = Some x" for i x
    using inv g that unfolding mgr_inv_def by (metis option.inject)
  obtain e w where e: "ensureMounted mt cfg ca uq t (mountpointFor cfg (tgID t)) (mgHeap (msMgr s) ! a) (mgWorld (msMgr s)) = (None, e, w)"
      and m: "mgHeap m = (mgHeap (msMgr s))[a := e\<lparr>enRefs := enRefs e + 1\<rparr>]" "mgEntries m = mgEntries (msMgr s)"
    using r by (auto simp: acquire_at_def Let_def split: prod.splits option.splits)
  have due: "refs_due ?s i x = refs_due s i x + (if i = tgID t then 1 else 0)" for i x
    by (simp add: refs_due_def count_remove1_int [OF p])
  have "enRefs (mgHeap m ! x) = refs_due ?s i x" if "goget (mgEntries (msMgr s)) i = Some x" for i x
    using that inj [OF that] inv due [of i x] ensureMounted_refs [OF e] by (cases "x = a") (auto simp: m mgr_inv_def)
  then show ?thesis using inv g unfolding mgr_inv_def by (auto simp: m dest: notin_set_remove1)
qed

lemma inv_released:
  assumes inv: "mgr_inv s" and p: "PRelease tid a \<in> set (msPending s)"
  shows "mgr_inv (leave (PRelease tid a) (release_at now a (msMgr s)) s)" (is "mgr_inv ?s")
proof -
  have g: "goget (mgEntries (msMgr s)) tid = Some a" using inv p by (auto simp: mgr_inv_def)
  have inj: "x = a \<longleftrightarrow> i = tid" if "goget (mgEntries (msMgr s)) i = Some x" for i x
    using inv g that unfolding mgr_inv_def by (metis option.inject)
  have pos: "0 < refs_due s tid a" using p by (simp add: refs_due_def count_list_0_iff zero_less_iff_neq_zero add_nonneg_pos)
  have due: "refs_due ?s i x = refs_due s i x - (if i = tid \<and> x = a then 1 else 0)" for i x
    unfolding refs_due_def using count_remove1_int [OF p, of "PRelease i x"] by (auto simp del: count_list_remove1)
  let ?h = "mgHeap (release_at now a (msMgr s))"
  have h: "length ?h = length (mgHeap (msMgr s))" "\<And>x. x \<noteq> a \<Longrightarrow> ?h ! x = mgHeap (msMgr s) ! x"
    "a < length (mgHeap (msMgr s)) \<Longrightarrow> 0 < enRefs (mgHeap (msMgr s) ! a) \<Longrightarrow> enRefs (?h ! a) = enRefs (mgHeap (msMgr s) ! a) - 1"
    by (auto simp: release_at_def Let_def)
  have "enRefs (?h ! x) = refs_due ?s i x" if "goget (mgEntries (msMgr s)) i = Some x" for i x
    using that inj [OF that] inv due [of i x] pos h(2,3) by (cases "x = a") (auto simp: mgr_inv_def)
  moreover have "mgEntries (release_at now a (msMgr s)) = mgEntries (msMgr s)" by (simp add: release_at_def Let_def)
  ultimately show ?thesis using inv g h(1) unfolding mgr_inv_def by (auto dest: notin_set_remove1)
qed

lemma same_refs_simps [simp]: "same_refs m m"
  by (simp add: same_refs_def)

lemma acquire_failed_refs:
  assumes "acquire_at mt cfg ca uq t a m = (Inl x, m')"
  shows "same_refs m m'"
proof -
  obtain e w where e: "ensureMounted mt cfg ca uq t (mountpointFor cfg (tgID t)) (mgHeap m ! a) (mgWorld m) = (Some x, e, w)"
      and m: "mgHeap m' = (mgHeap m)[a := e]" "mgEntries m' = mgEntries m"
    using assms by (auto simp: acquire_at_def Let_def split: prod.splits option.splits)
  have "enRefs ((mgHeap m)[a := e] ! i) = enRefs (mgHeap m ! i)" if "i < length (mgHeap m)" for i
    using that ensureMounted_refs [OF e] by (cases "i = a") auto
  then show ?thesis by (simp add: same_refs_def m)
qed

lemma mgr_inv_step: "mgr_step mt cfg uq False s s' \<Longrightarrow> mgr_inv s \<Longrightarrow> mgr_inv s'"
proof (induction rule: mgr_step.induct)
  case (unmounted tid a s e m)
  have "same_refs (msMgr s) m"
    using unmounted.hyps(2) unmountLocked_refs [of "msMgr s" mt cfg tid a] by (auto simp: unmount_at_def Let_def split: if_splits)
  then show ?case using unmounted.prems by (intro inv_leave) auto
next
  case (reaped tid a s now)
  have "same_refs (msMgr s) (reap_at mt cfg now tid a (msMgr s))" by (simp add: reap_at_def unmountLocked_refs)
  then show ?case using reaped.prems by (intro inv_leave) auto
next
  case (forgotten tid s)
  then show ?case by (auto simp: mgr_inv_def)
next
  case (reap_skips tid a s)
  then show ?case by (intro inv_leave) simp_all
qed (auto dest: inv_lookup intro!: inv_enter inv_enter_release inv_leave inv_acquired inv_released intro: acquire_failed_refs)

lemma mgr_inv_reachable: "(mgr_step mt cfg uq False)\<^sup>*\<^sup>* (mgr_start w) s \<Longrightarrow> mgr_inv s"
proof (induction rule: rtranclp_induct)
  case base
  show ?case by (simp add: mgr_inv_def mgr_start_def)
qed (rule mgr_inv_step)


section \<open>The contract of the mounter\<close>

text \<open>
  \<open>table\<close> reads the kernel's mount table off the world. A mount that succeeds adds its line, one
  that fails leaves the table alone, and an unmount that succeeds takes the only line of its
  directory away.
\<close>

abbreviation at_dir :: "string \<Rightarrow> mount_info list \<Rightarrow> mount_info list" where
  "at_dir dir ms \<equiv> filter (\<lambda>mi. miDir mi = dir) ms"

locale kernel_mounts =
  fixes mt :: "'w mounter" and table :: "'w \<Rightarrow> mount_info list"
  assumes mounts_table: "mtMounts mt w = Inr ms \<Longrightarrow> ms = table w"
    and mount_done: "mtMount mt spec w = (None, w') \<Longrightarrow>
      table w' = table w @ [\<lparr>miDir = spDir spec, miFSType = ''cifs'', miSource = spSource spec\<rparr>]"
    and mount_failed: "mtMount mt spec w = (Some f, w') \<Longrightarrow> table w' = table w"
    and unmount_done: "mtUnmount mt dir lz w = (None, w') \<Longrightarrow> length (at_dir dir (table w)) \<le> 1 \<Longrightarrow>
      table w' = filter (\<lambda>mi. miDir mi \<noteq> dir) (table w)"
begin

lemma mountOnce_table:
  assumes "mountOnce mt cfg ca t dir d pw mc w = (r, w')"
  shows "table w' = (case r of None \<Rightarrow> table w @ [\<lparr>miDir = dir, miFSType = ''cifs'', miSource = UNCPath t\<rparr>] | Some _ \<Rightarrow> table w)"
  using assms
  by (cases r) (auto simp: mountOnce_def Let_def dest: mount_done mount_failed split: if_splits sum.splits)

lemma dialect_loop_table:
  assumes "dialect_loop mt cfg ca uq dir pw mc k ds l t w = (r, t', w')" and "ds \<noteq> [] \<or> l \<noteq> None"
  shows "table w' = (case r of None \<Rightarrow> table w @ [\<lparr>miDir = dir, miFSType = ''cifs'', miSource = UNCPath t\<rparr>] | Some _ \<Rightarrow> table w)"
  using assms
proof (induction ds arbitrary: k l w)
  case (Cons d ds)
  obtain r1 w1 where m: "mountOnce mt cfg ca t dir d pw mc w = (r1, w1)" by fastforce
  note mountOnce_table [OF m]
  then show ?case using Cons m by (auto split: option.splits if_splits)
qed auto

lemma dialectsFor_nonempty: "dialectsFor t \<noteq> []"
  by (simp add: dialectsFor_def dialectLadder_def split: option.splits)

lemma mgr_mount_table:
  assumes "mgr_mount mt cfg ca uq t dir w = (None, t', w')"
  shows "table w' = table w @ [\<lparr>miDir = dir, miFSType = ''cifs'', miSource = UNCPath t\<rparr>]"
proof -
  obtain pw r1 t1 w1 where a: "tryDialects mt cfg ca uq t dir pw (Multichannel t) w = (r1, t1, w1)"
    and b: "(case r1 of Some f \<Rightarrow> if Multichannel t \<and> dialectRetryable f then tryDialects mt cfg ca uq t1 dir pw False w1 else (r1, t1, w1)
             | None \<Rightarrow> (r1, t1, w1)) = (None, t', w')"
    using assms by (auto simp: mgr_mount_def Let_def split: option.splits sum.splits prod.splits if_splits)
  note A = dialect_loop_table [OF a [unfolded tryDialects_def] disjI1 [OF dialectsFor_nonempty]]
  show ?thesis
  proof (cases r1)
    case (Some f)
    have "t1 = t" using a Some by (auto simp: tryDialects_def dest: dialect_loop_target)
    then have "tryDialects mt cfg ca uq t dir pw False w1 = (None, t', w')" using b Some by (simp split: if_splits)
    from dialect_loop_table [OF this [unfolded tryDialects_def] disjI1 [OF dialectsFor_nonempty]] show ?thesis
      using A Some by simp
  qed (use A b in simp)
qed

lemma find_at_dir: "at_dir dir ms = [mi] \<Longrightarrow> find (\<lambda>mi. miDir mi = dir) ms = Some mi"
  by (induction ms) (auto split: if_splits)

lemma ensureMounted_share:
  assumes "ensureMounted mt cfg ca uq t dir e w = (None, e', w')"
    and "length (at_dir dir (table w)) \<le> 1" and lazy: "\<And>w. fst (mtUnmount mt dir True w) = None"
  shows "enMounted e' \<and> (\<exists>mi. at_dir dir (table w') = [mi] \<and> miSource mi = UNCPath t)"
proof -
  obtain found where f: "mountAt mt dir w = Inr found" "found = find (\<lambda>mi. miDir mi = dir) (table w)"
    using assms(1) by (auto simp: ensureMounted_def mountAt_def Let_def dest!: mounts_table split: sum.splits)
  have re: "at_dir dir (table w') = at_dir dir (table v) @ [\<lparr>miDir = dir, miFSType = ''cifs'', miSource = UNCPath t\<rparr>]"
    if "mgr_mount mt cfg ca uq t dir v = (None, t', w')" for v t'
    using mgr_mount_table [OF that] by simp
  have gone: "at_dir dir (table (forceUnmount mt dir w)) = []"
    using unmount_done [of dir True w "forceUnmount mt dir w"] lazy [of w] assms(2)
    by (simp add: forceUnmount_def prod_eq_iff)
  show ?thesis
  proof (cases found)
    case None
    then have "at_dir dir (table w) = []" using f(2) by (auto simp: find_None_iff filter_empty_conv)
    then show ?thesis using assms(1) f None re by (auto simp: ensureMounted_def Let_def split: prod.splits option.splits)
  next
    case (Some mi)
    then have "mi \<in> set (at_dir dir (table w))" using f(2) by (auto simp: find_Some_iff)
    then have one: "at_dir dir (table w) = [mi]" using assms(2) by (cases "at_dir dir (table w)") auto
    show ?thesis
    proof (cases "miSource mi = UNCPath t \<and> probe_ok mt dir w")
      case True
      then show ?thesis using assms(1) f(1) Some one by (auto simp: ensureMounted_def Let_def)
    next
      case False
      obtain t' where "mgr_mount mt cfg ca uq t dir (forceUnmount mt dir w) = (None, t', w')" "enMounted e'"
        using assms(1) f(1) Some False
        by (auto simp: ensureMounted_def Let_def split: prod.splits option.splits if_splits)
      then show ?thesis using re gone by simp
    qed
  qed
qed

end


section \<open>Properties\<close>

text \<open>
  C28: a mount in use is kept. In every interleaving of acquisitions, releases, unmount requests
  and reaper ticks, as long as a reference is held the target's entry counts it: an unmount
  request is refused with \<open>ErrInUse\<close> and changes nothing, and the reaper does nothing either.
\<close>

theorem mounts_in_use_are_kept:
  assumes "(mgr_step mt cfg uq False)\<^sup>*\<^sup>* (mgr_start w) s" and "tid \<in> set (msHeld s)"
    and "goget (mgEntries (msMgr s)) tid = Some a"
  shows "enRefs (mgHeap (msMgr s) ! a) = refs_due s tid a \<and> 0 < refs_due s tid a
    \<and> (\<exists>e. unmount_at mt cfg tid a (msMgr s) = (Some e, msMgr s) \<and> errors_Is e ErrInUse)
    \<and> reap_at mt cfg now tid a (msMgr s) = msMgr s"
proof -
  have "0 < refs_due s tid a" using count_list_member [OF assms(2)] by (simp add: refs_due_def)
  moreover have "enRefs (mgHeap (msMgr s) ! a) = refs_due s tid a"
    using mgr_inv_reachable [OF assms(1)] assms(3) by (simp add: mgr_inv_def)
  ultimately show ?thesis by (simp add: unmount_at_def reap_at_def reap_idle_def)
qed

text \<open>A mounter over a plain table: \<open>ans\<close> is the server's answer to a mount, \<open>alive\<close> which
  directories still respond.\<close>

definition table_mounter :: "(mount_spec \<Rightarrow> mount_failure option) \<Rightarrow> (string \<Rightarrow> bool) \<Rightarrow> mount_info list mounter" where
  "table_mounter ans alive = \<lparr>
     mtMount = (\<lambda>spec w. case ans spec of Some f \<Rightarrow> (Some f, w)
        | None \<Rightarrow> (None, w @ [\<lparr>miDir = spDir spec, miFSType = ''cifs'', miSource = spSource spec\<rparr>])),
     mtUnmount = (\<lambda>dir lz w. (None, filter (\<lambda>mi. miDir mi \<noteq> dir) w)),
     mtMounts = Inr,
     mtStatFS = (\<lambda>dir w. if alive dir then Some None else None),
     mtNeedsFile = True\<rparr>"

interpretation plain_table: kernel_mounts "table_mounter ans alive" "\<lambda>w. w" for ans alive
  by unfold_locales (auto simp: table_mounter_def split: option.splits)

definition good_server :: "mount_info list mounter" where
  "good_server = table_mounter (\<lambda>_. None) (\<lambda>_. True)"

definition sample_config :: config where
  "sample_config = \<lparr>cfMountRoot = ''/mnt/smb'', cfIdleGrace = 60, cfParams = \<lparr>UID = 0, GID = 0\<rparr>\<rparr>"

definition sample_call :: call_env where
  "sample_call = \<lparr>caNow = 100, caCtx = (\<lambda>_ _. None), caCreds = Inr ''pw'', caPrepare = None, caCredsFile = Inr ''/c''\<rparr>"

definition guest_target :: "string \<Rightarrow> target" where
  "guest_target host = \<lparr>tgID = ''a1'', tgName = ''nas'', tgType = TargetSMB, Host = host, Share = ''media'', Port = 0,
     Username = [], Domain = [], MountOptsOverride = [], Multichannel = False, NegotiatedVers = [],
     LocalPath = [], Subpath = [], PasswordEncrypted = []\<rparr>"

definition held_state :: "mount_info list mgr_state" where
  "held_state = \<lparr>msMgr = snd (Acquire good_server sample_config sample_call id (guest_target ''h1'')
       (msMgr (mgr_start []))), msPending = [], msHeld = [''a1'']\<rparr>"

lemmas mount_eval = entryFor_def acquire_at_def ensureMounted_def mountAt_def mgr_mount_def tryDialects_def
  dialectsFor_def pinnedDialect_def splitOptions_def dialectLadder_def mountOnce_def good_server_def table_mounter_def
  sample_config_def sample_call_def guest_target_def mgr_start_def new_entry_def IsGuest_def mountpointFor_def
  UNCPath_def probe_ok_def forceUnmount_def TrimSpace_graphic

lemma sample_acquire:
  "fst (Acquire good_server sample_config sample_call id (guest_target ''h1'') (msMgr (mgr_start []))) = Inr ''/mnt/smb/a1''"
  by (simp add: Acquire_def mount_eval Let_def)

lemma held_reachable: "(mgr_step good_server sample_config id deleting)\<^sup>*\<^sup>* (mgr_start []) held_state"
proof -
  let ?t = "guest_target ''h1''" and ?m0 = "msMgr (mgr_start ([] :: mount_info list))"
  obtain a m where l: "entryFor (tgID ?t) ?m0 = (a, m)" by fastforce
  have ty: "tgType ?t = TargetSMB" by (simp add: guest_target_def)
  have "Acquire good_server sample_config sample_call id ?t ?m0 = acquire_at good_server sample_config sample_call id ?t a m"
    using l ty by (simp add: Acquire_def)
  then have "acquire_at good_server sample_config sample_call id ?t a m = (Inr ''/mnt/smb/a1'', msMgr held_state)"
    using sample_acquire by (simp add: held_state_def prod_eq_iff)
  then have "mgr_step good_server sample_config id deleting (enter (PAcquire ?t a) m (mgr_start []))
      ((leave (PAcquire ?t a) (msMgr held_state) (enter (PAcquire ?t a) m (mgr_start [])))
        \<lparr>msHeld := tgID ?t # msHeld (enter (PAcquire ?t a) m (mgr_start []))\<rparr>)"
    by (intro mgr_step.acquired) simp_all
  moreover have "(leave (PAcquire ?t a) (msMgr held_state) (enter (PAcquire ?t a) m (mgr_start [])))
      \<lparr>msHeld := tgID ?t # msHeld (enter (PAcquire ?t a) m (mgr_start []))\<rparr> = held_state"
    by (simp add: held_state_def mgr_start_def guest_target_def)
  ultimately show ?thesis
    using mgr_step.acquire_lookup [OF ty l] by (metis converse_rtranclp_into_rtranclp r_into_rtranclp)
qed

theorem mounts_in_use_are_kept_witness:
  "\<exists>e. unmount_at good_server sample_config ''a1'' 0 (msMgr held_state) = (Some e, msMgr held_state)"
proof -
  have "''a1'' \<in> set (msHeld held_state)" by (simp add: held_state_def)
  moreover have "goget (mgEntries (msMgr held_state)) ''a1'' = Some 0"
    by (simp add: held_state_def Acquire_def mount_eval Let_def)
  ultimately show ?thesis using mounts_in_use_are_kept [OF held_reachable] by blast
qed

text \<open>
  a target resolves to its own share. When \<open>Acquire\<close> succeeds, the one file system mounted at
  the target's directory is the share the target names now, whatever was mounted there before
  (stale, or the share of an earlier configuration), on any mounter that keeps its contract and
  whose lazy unmounts succeed.
\<close>

theorem acquire_hands_out_the_share:
  assumes "kernel_mounts mt table" and "Acquire mt cfg ca uq t m = (Inr dir, m')"
    and "length (at_dir (mountpointFor cfg (tgID t)) (table (mgWorld m))) \<le> 1"
    and "\<And>w. fst (mtUnmount mt (mountpointFor cfg (tgID t)) True w) = None"
  shows "dir = mountpointFor cfg (tgID t)
    \<and> (\<exists>mi. at_dir dir (table (mgWorld m')) = [mi] \<and> miSource mi = UNCPath t)"
proof -
  obtain a m1 where l: "entryFor (tgID t) m = (a, m1)" "acquire_at mt cfg ca uq t a m1 = (Inr dir, m')"
    using assms(2) by (auto simp: Acquire_def split: if_splits prod.splits)
  have "mgWorld m1 = mgWorld m" using l(1) by (auto simp: entryFor_def split: option.splits)
  then obtain e w where "ensureMounted mt cfg ca uq t (mountpointFor cfg (tgID t)) (mgHeap m1 ! a) (mgWorld m) = (None, e, w)"
      "mgWorld m' = w" "dir = mountpointFor cfg (tgID t)"
    using l(2) by (auto simp: acquire_at_def Let_def split: prod.splits option.splits)
  then show ?thesis using kernel_mounts.ensureMounted_share [OF assms(1) _ assms(3,4)] by blast
qed

theorem acquire_hands_out_the_share_witness:
  "\<exists>mi. at_dir ''/mnt/smb/a1'' (mgWorld (msMgr held_state)) = [mi] \<and> miSource mi = UNCPath (guest_target ''h1'')"
proof -
  let ?r = "Acquire good_server sample_config sample_call id (guest_target ''h1'') (msMgr (mgr_start []))"
  have d: "mountpointFor sample_config (tgID (guest_target ''h1'')) = ''/mnt/smb/a1''"
    by (simp add: mountpointFor_def sample_config_def guest_target_def)
  have "?r = (Inr ''/mnt/smb/a1'', msMgr held_state)" using sample_acquire by (simp add: held_state_def prod_eq_iff)
  from acquire_hands_out_the_share [OF plain_table.kernel_mounts_axioms this [unfolded good_server_def]]
  show ?thesis by (simp add: d mgr_start_def table_mounter_def)
qed


section \<open>Two corner cases\<close>

lemma step_then:
  assumes "mgr_step mt cfg uq d s s'" "(mgr_step mt cfg uq d)\<^sup>*\<^sup>* s' s''"
  shows "(mgr_step mt cfg uq d)\<^sup>*\<^sup>* s s''"
  using assms by (rule converse_rtranclp_into_rtranclp)

definition edited_state :: "mount_info list mgr_state" where
  "edited_state = \<lparr>msMgr = snd (acquire_at good_server sample_config sample_call id (guest_target ''h2'') 0 (msMgr held_state)),
     msPending = [], msHeld = [''a1'', ''a1'']\<rparr>"

text \<open>
  editing a busy target pulls its mount away. While a run holds target \<open>a1\<close>, mounted from the
  host it named, an acquisition with the edited target succeeds and leaves the share of the new
  host at the very directory the run is working in, with two references counted.
\<close>

theorem edited_target_swaps_the_share:
  "(mgr_step good_server sample_config id False)\<^sup>*\<^sup>* held_state edited_state
   \<and> map miSource (at_dir ''/mnt/smb/a1'' (mgWorld (msMgr held_state))) = [''//h1/media'']
   \<and> map miSource (at_dir ''/mnt/smb/a1'' (mgWorld (msMgr edited_state))) = [''//h2/media'']
   \<and> map enRefs (mgHeap (msMgr edited_state)) = [2]"
proof -
  let ?t = "guest_target ''h2''"
  have l: "entryFor (tgID ?t) (msMgr held_state) = (0, msMgr held_state)"
    by (simp add: held_state_def Acquire_def mount_eval Let_def)
  have a: "acquire_at good_server sample_config sample_call id ?t 0 (msMgr held_state) = (Inr ''/mnt/smb/a1'', msMgr edited_state)"
    by (simp add: edited_state_def held_state_def Acquire_def mount_eval Let_def)
  have ty: "tgType ?t = TargetSMB" and i: "tgID ?t = ''a1''" by (simp_all add: guest_target_def)
  let ?s = "enter (PAcquire ?t 0) (msMgr held_state) held_state"
  have "mgr_step good_server sample_config id False ?s ((leave (PAcquire ?t 0) (msMgr edited_state) ?s)\<lparr>msHeld := tgID ?t # msHeld ?s\<rparr>)"
    by (rule mgr_step.acquired) (use a in simp_all)
  moreover have "(leave (PAcquire ?t 0) (msMgr edited_state) ?s)\<lparr>msHeld := tgID ?t # msHeld ?s\<rparr> = edited_state"
    by (simp add: held_state_def edited_state_def i)
  ultimately have "(mgr_step good_server sample_config id False)\<^sup>*\<^sup>* held_state edited_state"
    using mgr_step.acquire_lookup [OF ty l] by (metis step_then r_into_rtranclp)
  then show ?thesis by (simp add: edited_state_def held_state_def Acquire_def mount_eval Let_def)
qed

text \<open>
  deleting a target can orphan its mount. \<open>Forget\<close> looks at the reference count and drops the
  entry later; an acquisition that had looked the entry up before then mounts on an entry the
  map no longer has. After its release nothing is pending and nothing is held, the share is
  still mounted, and no reaper tick will ever take it down.
\<close>

theorem forget_can_orphan_a_mount:
  "\<exists>s. (mgr_step good_server sample_config id True)\<^sup>*\<^sup>* (mgr_start []) s \<and> msPending s = [] \<and> msHeld s = []
     \<and> map miSource (mgWorld (msMgr s)) = [''//h1/media''] \<and> mgEntries (msMgr s) = [(''a1'', 1)]
     \<and> (\<forall>now. reap_at good_server sample_config now ''a1'' 1 (msMgr s) = msMgr s)"
proof -
  let ?t = "guest_target ''h1''" and ?step = "mgr_step good_server sample_config id True"
  define m1 m4 m5 :: "mount_info list mgr" where
    "m1 = \<lparr>mgHeap = [new_entry], mgEntries = [(''a1'', 0)], mgHealth = [], mgWorld = []\<rparr>"
    and "m4 = snd (acquire_at good_server sample_config sample_call id ?t 0 (forget_entry ''a1'' m1))"
    and "m5 = m4\<lparr>mgHeap := mgHeap m4 @ [new_entry], mgEntries := [(''a1'', 1)]\<rparr>"
  define s1 s2 s3 s4 s5 s6 where
    "s1 = \<lparr>msMgr = m1, msPending = [PAcquire ?t 0], msHeld = []\<rparr>"
    and "s2 = enter (PForget ''a1'') m1 s1"
    and "s3 = leave (PForget ''a1'') (forget_entry ''a1'' m1) s2"
    and "s4 = (leave (PAcquire ?t 0) m4 s3)\<lparr>msHeld := [''a1'']\<rparr>"
    and "s5 = (enter (PRelease ''a1'' 1) m5 s4)\<lparr>msHeld := []\<rparr>"
    and "s6 = leave (PRelease ''a1'' 1) (release_at 200 1 m5) s5"
  note states = s1_def s2_def s3_def s4_def s5_def s6_def and tg = guest_target_def
  have "entryFor ''a1'' (msMgr (mgr_start [])) = (0, m1)" by (simp add: m1_def mgr_start_def entryFor_def)
  then have 1: "?step (mgr_start []) s1"
    using mgr_step.acquire_lookup [of ?t "mgr_start []" 0 m1 good_server sample_config id True]
    by (simp add: tg states) (simp add: mgr_start_def)
  have 2: "?step s1 s2" using mgr_step.forget_check [of True "''a1''" s1]
    by (simp add: states forget_allowed_def m1_def new_entry_def)
  have 3: "?step s2 s3" using mgr_step.forgotten [of "''a1''" s2] by (simp add: states)
  have "acquire_at good_server sample_config sample_call id ?t 0 (msMgr s3) = (Inr ''/mnt/smb/a1'', m4)"
    by (simp add: states m1_def m4_def forget_entry_def mount_eval Let_def)
  then have 4: "?step s3 s4" using mgr_step.acquired [of ?t 0 s3] by (simp add: states tg)
  have m4: "mgHeap m4 = [\<lparr>enRefs = 1, enMounted = True, enIdleSince = zero_time\<rparr>]" "mgEntries m4 = []"
    "mgWorld m4 = [\<lparr>miDir = ''/mnt/smb/a1'', miFSType = ''cifs'', miSource = ''//h1/media''\<rparr>]"
    by (simp_all add: m4_def m1_def forget_entry_def mount_eval Let_def)
  have "entryFor ''a1'' (msMgr s4) = (1, m5)" using m4(1,2) by (simp add: states m5_def entryFor_def)
  then have 5: "?step s4 s5" using mgr_step.release_lookup [of "''a1''" s4 1 m5] by (simp add: states)
  have 6: "?step s5 s6" using mgr_step.released [of "''a1''" 1 s5 _ _ _ _ 200] by (simp add: states)
  have "?step\<^sup>*\<^sup>* (mgr_start []) s6" by (intro step_then [OF 1] step_then [OF 2] step_then [OF 3] step_then [OF 4] step_then [OF 5] step_then [OF 6]) simp
  moreover have "msPending s6 = []" "msHeld s6 = []" by (simp_all add: states)
  moreover have "map miSource (mgWorld (msMgr s6)) = [''//h1/media'']" "mgEntries (msMgr s6) = [(''a1'', 1)]"
    using m4 by (simp_all add: states m5_def release_at_def Let_def)
  moreover have "reap_at good_server sample_config now ''a1'' 1 (msMgr s6) = msMgr s6" for now
    using m4(1) by (simp add: states m5_def release_at_def reap_at_def reap_idle_def new_entry_def Let_def)
  ultimately show ?thesis by (intro exI [of _ s6]) simp
qed

end
