(* ===== verification/Mount_Exec.thy ===== *)
theory Mount_Exec
  imports Mount_Manager
begin

text \<open>
  The mounter that runs \<open>mount.cifs\<close> and \<open>umount\<close> and reads \<open>/proc/self/mountinfo\<close>
  (\<open>src/internal/mountmgr/mounter.go\<close>, with the credentials file of \<open>creds.go\<close>). What the
  commands do and print is a parameter. It provides the interface the manager relies on.
\<close>

section \<open>Fields of a line\<close>

text \<open>\<open>strings.Fields\<close>: the words between white space; \<open>acc\<close> is the word being read, backwards.\<close>

function fields_from :: "string \<Rightarrow> string \<Rightarrow> string list" where
  "fields_from acc [] = [rev acc]"
| "fields_from acc (c # cs) =
     (case leading white_space (c # cs) of
        Some w \<Rightarrow> rev acc # fields_from [] (drop (length w) (c # cs))
      | None \<Rightarrow> fields_from (c # acc) cs)"
  by pat_completeness auto
termination
  by (relation "measure (\<lambda>(acc, s). length s)") (auto dest!: leading_SomeD)

definition Fields :: "string \<Rightarrow> string list" where
  "Fields s = filter (\<lambda>f. f \<noteq> []) (fields_from [] s)"


section \<open>Octal escapes\<close>

text \<open>\<open>fmt.Sscanf(s, "%03o", &v)\<close> on a string without white space: an optional sign and the
  leading octal digits, of which there must be one.\<close>

definition is_octal :: "char \<Rightarrow> bool" where
  "is_octal c \<longleftrightarrow> (let n = (of_char c :: nat) in 48 \<le> n \<and> n \<le> 55)"

definition octal_value :: "string \<Rightarrow> nat" where
  "octal_value ds = foldl (\<lambda>v c. v * 8 + (of_char c - 48)) 0 ds"

definition sscanf_octal :: "string \<Rightarrow> int option" where
  "sscanf_octal s =
     (let (neg, r) = (case s of c # cs \<Rightarrow> if c = CHR ''-'' then (True, cs) else if c = CHR ''+'' then (False, cs) else (False, s)
                              | [] \<Rightarrow> (False, []));
          ds = takeWhile is_octal r
      in if ds = [] then None else Some (if neg then - int (octal_value ds) else int (octal_value ds)))"

definition backslash :: char where "backslash = CHR 0x5C"

function unescape_loop :: "string \<Rightarrow> string" where
  "unescape_loop [] = []"
| "unescape_loop (c # cs) =
     (if c = backslash \<and> 3 \<le> length cs
      then case sscanf_octal (take 3 cs) of
             Some v \<Rightarrow> char_of (nat (v mod 256)) # unescape_loop (drop 3 cs)
           | None \<Rightarrow> c # unescape_loop cs
      else c # unescape_loop cs)"
  by pat_completeness auto
termination by (relation "measure length") auto

definition unescapeMountField :: "string \<Rightarrow> string" where
  "unescapeMountField s = (if backslash \<notin> set s then s else unescape_loop s)"


section \<open>The mount table\<close>

definition parse_line :: "string \<Rightarrow> mount_info option" where
  "parse_line line =
     (let fs = Fields line; sep = length (takeWhile (\<lambda>f. f \<noteq> ''-'') fs)
      in if length fs < 7 then None
         else if length fs \<le> sep + 2 then None
         else Some \<lparr>miDir = unescapeMountField (fs ! 4), miFSType = fs ! (sep + 1),
                    miSource = unescapeMountField (fs ! (sep + 2))\<rparr>)"

text \<open>The lines the scanner delivers and its error at the end.\<close>

definition parseMountInfo :: "string list \<Rightarrow> goerr option \<Rightarrow> goerr + mount_info list" where
  "parseMountInfo lines err =
     (case err of
        Some e \<Rightarrow> Inl (wrap ''reading the kernel mount table: '' e)
      | None \<Rightarrow> Inr (List.map_filter parse_line lines))"


section \<open>The commands\<close>

text \<open>
  The outcome of a command: its error if it failed, whether it was abandoned at its deadline,
  its exit status (-1 if it never exited), its output, and the error of the caller's context.
\<close>

record cmd_result =
  crErr :: "goerr option"
  crAbandoned :: bool
  crExit :: int
  crStdout :: string
  crStderr :: string
  crCtx :: "goerr option"

type_synonym 'w commands = "string list \<Rightarrow> 'w \<Rightarrow> cmd_result \<times> 'w"

definition mount_argv :: "mount_spec \<Rightarrow> string list" where
  "mount_argv spec =
     (let opts = (if spCredsFile spec \<noteq> [] then ''credentials='' @ spCredsFile spec @ '','' @ spOptions spec else spOptions spec)
      in [''mount.cifs'', spSource spec, spDir spec, ''-o'', opts])"

definition exec_Mount ::
  "(string \<Rightarrow> string) \<Rightarrow> 'w commands \<Rightarrow> mount_spec \<Rightarrow> 'w \<Rightarrow> mount_failure option \<times> 'w" where
  "exec_Mount um run spec w =
     (let (r, w) = run (mount_argv spec) w in
      case crErr r of
        None \<Rightarrow> (None, w)
      | Some _ \<Rightarrow>
          if crAbandoned r then (Some (classifyMountFailure um (spSource spec) (- 1) [] (crCtx r)), w)
          else
            let detail = TrimSpace (crStderr r);
                detail = (if detail = [] then TrimSpace (crStdout r) else detail)
            in (Some (classifyMountFailure um (spSource spec) (crExit r) detail (crCtx r)), w))"

definition exec_Unmount :: "'w commands \<Rightarrow> string \<Rightarrow> bool \<Rightarrow> 'w \<Rightarrow> goerr option \<times> 'w" where
  "exec_Unmount run dir lz w =
     (let (r, w) = run (''umount'' # (if lz then [''-l''] else []) @ [dir]) w in
      case crErr r of
        None \<Rightarrow> (None, w)
      | Some e \<Rightarrow>
          if crAbandoned r then (Some e, w)
          else
            let detail = TrimSpace (crStderr r) in
            if Contains detail ''not mounted'' \<or> Contains detail ''not found'' then (None, w)
            else (Some (wrap (''unmounting '' @ dir @ '': '' @ detail @ '': '') e), w))"

definition ExecMounter ::
  "(string \<Rightarrow> string) \<Rightarrow> 'w commands \<Rightarrow> ('w \<Rightarrow> string list) \<Rightarrow> (string \<Rightarrow> 'w \<Rightarrow> goerr option option) \<Rightarrow> 'w mounter" where
  "ExecMounter um run lines statfs =
     \<lparr>mtMount = exec_Mount um run, mtUnmount = exec_Unmount run,
      mtMounts = (\<lambda>w. parseMountInfo (lines w) None), mtStatFS = statfs, mtNeedsFile = True\<rparr>"

lemma exec_Mount_cong:
  assumes "spSource spec = spSource spec'" "spDir spec = spDir spec'" "spOptions spec = spOptions spec'"
    "spCredsFile spec = spCredsFile spec'"
  shows "exec_Mount um run spec w = exec_Mount um run spec' w"
  unfolding exec_Mount_def mount_argv_def assms ..

text \<open>The credentials file as \<open>writeCredentialsFile\<close> writes it.\<close>

definition credentials_text :: "string \<Rightarrow> string \<Rightarrow> string \<Rightarrow> string" where
  "credentials_text username password domain =
     ''username='' @ username @ [newline] @ ''password='' @ password @ [newline]
     @ (if domain \<noteq> [] then ''domain='' @ domain @ [newline] else [])"


section \<open>Escaping and its inverse\<close>

text \<open>What the kernel writes: the bytes of a set as a backslash and three octal digits.\<close>

definition octal3 :: "char \<Rightarrow> string" where
  "octal3 c = (let n = (of_char c :: nat) in
     [char_of (48 + n div 64), char_of (48 + n div 8 mod 8), char_of (48 + n mod 8)])"

definition kernel_escape :: "char set \<Rightarrow> string \<Rightarrow> string" where
  "kernel_escape E s = concat (map (\<lambda>c. if c \<in> E then backslash # octal3 c else [c]) s)"

lemma sscanf_octal3: "sscanf_octal (octal3 c) = Some (int (of_char c))"
proof -
  define n where "n = (of_char c :: nat)"
  have n: "n < 256" by (simp add: n_def)
  have d: "n div 64 < 4" "n div 8 mod 8 < 8" "n mod 8 < 8" using n by (auto simp: less_mult_imp_div_less)
  have o: "is_octal (char_of (48 + k))" "(of_char (char_of (48 + k) :: char) :: nat) = 48 + k" if "k < 8" for k :: nat
    using that by (simp_all add: is_octal_def)
  have ne: "(char_of (48 + k) :: char) \<noteq> x" if "k < 8" "(of_char x :: nat) < 48" for k :: nat and x
    using o(2) [OF that(1)] that(2) by auto
  have "octal3 c = [char_of (48 + n div 64), char_of (48 + n div 8 mod 8), char_of (48 + n mod 8)]"
    by (simp add: octal3_def n_def Let_def)
  moreover have "char_of (48 + n div 64) \<noteq> CHR ''-''" "char_of (48 + n div 64) \<noteq> CHR ''+''"
    using ne [of "n div 64"] d(1) by auto
  moreover have "(n div 64) * 64 + (n div 8 mod 8) * 8 + n mod 8 = n"
  proof -
    have "(n div 64) * 8 + n div 8 mod 8 = n div 8" using div_mult2_eq [of n 8 8] by simp
    then have "((n div 64) * 8 + n div 8 mod 8) * 8 + n mod 8 = n" by simp
    then show ?thesis by (simp add: distrib_right)
  qed
  ultimately show ?thesis
    using d o [of "n div 64"] o [of "n div 8 mod 8"] o [of "n mod 8"]
    by (simp add: sscanf_octal_def octal_value_def n_def [symmetric])
qed

lemma unescape_escape:
  assumes "backslash \<in> E"
  shows "unescapeMountField (kernel_escape E s) = s"
proof -
  have "unescape_loop (kernel_escape E s) = s"
  proof (induction s)
    case (Cons c s)
    have l: "length (octal3 c) = 3" by (simp add: octal3_def Let_def)
    show ?case
    proof (cases "c \<in> E")
      case True
      have "take 3 (octal3 c @ r) = octal3 c" "drop 3 (octal3 c @ r) = r" for r using l by simp_all
      then show ?thesis using True Cons.IH l by (simp add: kernel_escape_def sscanf_octal3)
    next
      case False
      then have "c \<noteq> backslash" using assms by auto
      then show ?thesis using False Cons.IH by (simp add: kernel_escape_def)
    qed
  qed (simp add: kernel_escape_def)
  moreover have "unescape_loop s = s" if "backslash \<notin> set s" for s
    using that by (induction s) auto
  ultimately show ?thesis by (metis unescapeMountField_def)
qed

text \<open>
  the kernel's escaping is undone. Whatever set of bytes the kernel escapes in a field of the
  mount table, as long as the backslash is among them, reading the field gives the name back.
\<close>

theorem mount_fields_roundtrip:
  assumes "backslash \<in> E"
  shows "unescapeMountField (kernel_escape E s) = s"
  using assms by (rule unescape_escape)

theorem mount_fields_roundtrip_witness:
  "unescapeMountField (kernel_escape {backslash, CHR '' ''} ''/mnt/a b'') = ''/mnt/a b''"
  by (rule mount_fields_roundtrip) simp


section \<open>Reading the table back\<close>

definition no_space :: "string \<Rightarrow> bool" where
  "no_space s \<longleftrightarrow> s \<noteq> [] \<and> (\<forall>w \<in> set white_space. \<not> sublist w s)"

lemma white_space_facts:
  "list_all (\<lambda>w. CHR '' '' \<in> set w \<longrightarrow> w = '' '') white_space" "find (\<lambda>w. w = '' '') white_space = Some '' ''"
  by code_simp+

lemma space_alone: "w \<in> set white_space \<Longrightarrow> CHR '' '' \<in> set w \<Longrightarrow> w = '' ''"
  using white_space_facts(1) by (simp add: list_all_iff)

lemma white_space_prefix_free:
  "list_all (\<lambda>w. list_all (\<lambda>v. (prefix v w \<or> prefix w v) \<longrightarrow> v = w) white_space) white_space"
  by code_simp

lemma leading_white:
  assumes w: "w \<in> set white_space"
  shows "leading white_space (w @ r) = Some w"
proof -
  have "v = w" if "v \<in> set white_space" "prefix v (w @ r)" for v
  proof -
    have "prefix v w \<or> prefix w v" using prefix_same_cases [OF that(2)] by simp
    then show ?thesis using white_space_prefix_free w that(1) unfolding list_all_iff by blast
  qed
  moreover have "leading white_space (w @ r) \<noteq> None"
    using w white_space_ends [OF w] by (auto simp: leading_None_iff)
  ultimately show ?thesis by (metis leading_SomeD not_None_eq)
qed

lemma leading_space: "leading white_space (CHR '' '' # r) = Some '' ''"
  using leading_white [of "'' ''" r] white_space_facts(2) by (simp add: find_Some_iff) (metis nth_mem)

lemma leading_inside:
  assumes "\<forall>w \<in> set white_space. \<not> sublist w (c # v)"
  shows "leading white_space (c # v @ CHR '' '' # r) = None" "leading white_space (c # v) = None"
proof -
  have "\<not> prefix w (c # v @ CHR '' '' # r)" if w: "w \<in> set white_space" for w
  proof
    assume p: "prefix w (c # v @ CHR '' '' # r)"
    show False
    proof (cases "length w \<le> length (c # v)")
      case True
      then have "prefix w (c # v)" using p prefix_length_prefix [of w "(c # v) @ CHR '' '' # r" "c # v"] by simp
      then show False using assms w prefix_imp_sublist by blast
    next
      case False
      have "prefix ((c # v) @ '' '') ((c # v) @ CHR '' '' # r)" by simp
      then have "prefix ((c # v) @ '' '') w"
        using p False prefix_length_prefix [of "(c # v) @ '' ''" "(c # v) @ CHR '' '' # r" w] by simp
      then have "CHR '' '' \<in> set w" using set_mono_prefix by fastforce
      then show False using space_alone [OF w] \<open>prefix ((c # v) @ '' '') w\<close> by auto
    qed
  qed
  then show "leading white_space (c # v @ CHR '' '' # r) = None" unfolding leading_None_iff by blast
  show "leading white_space (c # v) = None"
    using assms prefix_imp_sublist unfolding leading_None_iff by blast
qed

lemma fields_word:
  assumes "\<forall>w \<in> set white_space. \<not> sublist w v"
  shows "fields_from acc (v @ CHR '' '' # r) = (rev acc @ v) # fields_from [] r" "fields_from acc v = [rev acc @ v]"
proof -
  have "fields_from acc (v @ CHR '' '' # r) = (rev acc @ v) # fields_from [] r \<and> fields_from acc v = [rev acc @ v]"
    using assms
  proof (induction v arbitrary: acc)
    case (Cons c v)
    have "\<forall>w \<in> set white_space. \<not> sublist w v" using Cons.prems by (simp add: sublist_Cons_right)
    then show ?case using Cons.IH leading_inside [OF Cons.prems] by simp
  qed (simp add: leading_space)
  then show "fields_from acc (v @ CHR '' '' # r) = (rev acc @ v) # fields_from [] r" "fields_from acc v = [rev acc @ v]" by blast+
qed

lemma Fields_Join:
  assumes "fs \<noteq> []" "\<And>f. f \<in> set fs \<Longrightarrow> no_space f"
  shows "Fields (Join fs '' '') = fs"
proof -
  have "fields_from [] (Join fs '' '') = fs" using assms
    by (induction fs "'' ''" rule: Join.induct) (simp_all add: fields_word no_space_def)
  then show ?thesis using assms(2) by (auto simp: Fields_def filter_id_conv no_space_def)
qed

text \<open>A line of the table: four fields, the directory, options, the separator, then the rest.\<close>

lemma parse_mount_line:
  assumes "backslash \<in> E" "length pre = 4" "''-'' \<notin> set (pre @ [kernel_escape E d] @ opts)"
    and "\<And>f. f \<in> set (pre @ [kernel_escape E d] @ opts @ [fs, kernel_escape E src] @ rest) \<Longrightarrow> no_space f"
  shows "parse_line (Join (pre @ [kernel_escape E d] @ opts @ [''-'', fs, kernel_escape E src] @ rest) '' '')
    = Some \<lparr>miDir = d, miFSType = fs, miSource = src\<rparr>"
proof -
  let ?l = "pre @ [kernel_escape E d] @ opts @ [''-'', fs, kernel_escape E src] @ rest"
  have "no_space ''-''"
    by (auto simp: no_space_def sublist_Cons_right prefix_Cons graphic_def dest: white_space_ends)
  then have F: "Fields (Join ?l '' '') = ?l" using assms(4) by (intro Fields_Join) auto
  have tw: "takeWhile (\<lambda>f. f \<noteq> ''-'') (xs @ ''-'' # ys) = xs" if "''-'' \<notin> set xs" for xs ys :: "string list"
    using that by (induction xs) auto
  have "takeWhile (\<lambda>f. f \<noteq> ''-'') ?l = pre @ [kernel_escape E d] @ opts"
    using tw [OF assms(3), of "[fs, kernel_escape E src] @ rest"] by simp
  then show ?thesis unfolding parse_line_def F Let_def
    using assms(2) by (simp add: nth_append unescape_escape [OF assms(1)])
qed


section \<open>The tools keep the mounter's contract\<close>

text \<open>
  What the system tools promise: \<open>mount.cifs\<close> adds a line to the table exactly when it succeeds;
  \<open>umount\<close> that succeeds, or finds nothing mounted, leaves no mount at its directory where there
  was at most one; and the lines of \<open>mountinfo\<close> read as the table.
\<close>

definition umount_fine :: "cmd_result \<Rightarrow> bool" where
  "umount_fine r \<longleftrightarrow> crErr r = None \<or> \<not> crAbandoned r
     \<and> (Contains (TrimSpace (crStderr r)) ''not mounted'' \<or> Contains (TrimSpace (crStderr r)) ''not found'')"

locale cifs_tools =
  fixes run :: "'w commands" and lines :: "'w \<Rightarrow> string list" and table :: "'w \<Rightarrow> mount_info list"
  assumes lines_table: "List.map_filter parse_line (lines w) = table w"
    and run_mount: "run [''mount.cifs'', src, dir, ''-o'', opts] w = (r, w') \<Longrightarrow>
      table w' = (if crErr r = None then table w @ [\<lparr>miDir = dir, miFSType = ''cifs'', miSource = src\<rparr>] else table w)"
    and run_umount: "run (''umount'' # flags @ [dir]) w = (r, w') \<Longrightarrow> umount_fine r \<Longrightarrow>
      length (at_dir dir (table w)) \<le> 1 \<Longrightarrow> table w' = filter (\<lambda>mi. miDir mi \<noteq> dir) (table w)"

sublocale cifs_tools \<subseteq> exec_mounter: kernel_mounts "ExecMounter um run lines statfs" table for um statfs
proof unfold_locales
  fix w w' ms spec f dir lz
  show "mtMounts (ExecMounter um run lines statfs) w = Inr ms \<Longrightarrow> ms = table w"
    by (simp add: ExecMounter_def parseMountInfo_def lines_table)
  show "mtMount (ExecMounter um run lines statfs) spec w = (None, w') \<Longrightarrow>
      table w' = table w @ [\<lparr>miDir = spDir spec, miFSType = ''cifs'', miSource = spSource spec\<rparr>]"
    using run_mount [of "spSource spec" "spDir spec" _ w]
    by (auto simp: ExecMounter_def exec_Mount_def mount_argv_def Let_def split: prod.splits option.splits if_splits)
  show "mtMount (ExecMounter um run lines statfs) spec w = (Some f, w') \<Longrightarrow> table w' = table w"
    using run_mount [of "spSource spec" "spDir spec" _ w]
    by (auto simp: ExecMounter_def exec_Mount_def mount_argv_def Let_def split: prod.splits option.splits if_splits)
  assume u: "mtUnmount (ExecMounter um run lines statfs) dir lz w = (None, w')" and one: "length (at_dir dir (table w)) \<le> 1"
  obtain r v where r: "run (''umount'' # (if lz then [''-l''] else []) @ [dir]) w = (r, v)" by fastforce
  have "umount_fine r \<and> v = w'"
    using u r by (auto simp: ExecMounter_def exec_Unmount_def umount_fine_def Let_def split: option.splits if_splits)
  then show "table w' = filter (\<lambda>mi. miDir mi \<noteq> dir) (table w)" using run_umount [OF r] one by blast
qed

text \<open>A kernel that writes such lines and tools over it; \<open>refuse\<close> is a server that answers with an
  error. Names that a line cannot hold are refused too.\<close>

definition escaped_bytes :: "char set" where
  "escaped_bytes = {CHR '' '', CHR 0x09, CHR 0x0A, backslash, CHR ''#''}"

definition printable :: "mount_info \<Rightarrow> bool" where
  "printable mi \<longleftrightarrow> miFSType mi = ''cifs'' \<and> no_space (kernel_escape escaped_bytes (miDir mi)) \<and> kernel_escape escaped_bytes (miDir mi) \<noteq> ''-''
     \<and> no_space (kernel_escape escaped_bytes (miSource mi))"

definition mount_line :: "mount_info \<Rightarrow> string" where
  "mount_line mi = Join ([''36'', ''35'', ''0:50'', ''/''] @ [kernel_escape escaped_bytes (miDir mi)] @ [''rw'']
     @ [''-'', miFSType mi, kernel_escape escaped_bytes (miSource mi)] @ [''rw'']) '' ''"

definition cmd_ok :: cmd_result where
  "cmd_ok = \<lparr>crErr = None, crAbandoned = False, crExit = 0, crStdout = [], crStderr = [], crCtx = None\<rparr>"

definition cmd_failed :: "string \<Rightarrow> cmd_result" where
  "cmd_failed detail = \<lparr>crErr = Some (new_error ''exit status 32'' []), crAbandoned = False, crExit = 32, crStdout = [],
     crStderr = detail, crCtx = None\<rparr>"

definition sim_run :: "(string \<Rightarrow> string option) \<Rightarrow> mount_info list commands" where
  "sim_run refuse argv w =
     (if argv \<noteq> [] \<and> hd argv = ''mount.cifs'' then
        let mi = \<lparr>miDir = argv ! 2, miFSType = ''cifs'', miSource = argv ! 1\<rparr>
        in case refuse (miSource mi) of
             Some detail \<Rightarrow> (cmd_failed detail, w)
           | None \<Rightarrow> if printable mi then (cmd_ok, w @ [mi]) else (cmd_failed ''mount error(22): Invalid argument'', w)
      else (cmd_ok, filter (\<lambda>mi. miDir mi \<noteq> last argv) w))"

lemma no_space_graphic: "s \<noteq> [] \<Longrightarrow> list_all graphic s \<Longrightarrow> no_space s"
proof -
  assume "s \<noteq> []" "list_all graphic s"
  moreover have "\<not> sublist w s" if "w \<in> set white_space" "list_all graphic s" for w
    using white_space_ends [OF that(1)] that(2) set_mono_sublist [of w s] hd_in_set [of w]
    by (metis list_all_iff subsetD)
  ultimately show "no_space s" by (simp add: no_space_def)
qed

lemma mount_line_parses:
  assumes "printable mi"
  shows "parse_line (mount_line mi) = Some mi"
proof -
  have words: "no_space f" if "f \<in> set [''36'', ''35'', ''0:50'', ''/'', ''rw'', ''cifs'']" for f
  proof -
    have "list_all (\<lambda>f. f \<noteq> [] \<and> list_all graphic f) [''36'', ''35'', ''0:50'', ''/'', ''rw'', ''cifs'']" by code_simp
    then show ?thesis using that no_space_graphic unfolding list_all_iff [of _ "[''36'', ''35'', ''0:50'', ''/'', ''rw'', ''cifs'']"] by blast
  qed
  have "parse_line (mount_line mi) = Some \<lparr>miDir = miDir mi, miFSType = miFSType mi, miSource = miSource mi\<rparr>"
    unfolding mount_line_def
  proof (rule parse_mount_line)
    show "no_space f" if "f \<in> set ([''36'', ''35'', ''0:50'', ''/''] @ [kernel_escape escaped_bytes (miDir mi)] @ [''rw'']
        @ [miFSType mi, kernel_escape escaped_bytes (miSource mi)] @ [''rw''])" for f
      using that words [of f] assms unfolding printable_def
      by (simp only: append_Cons append_Nil list.set insert_iff empty_iff) blast
  qed (use assms in \<open>auto simp: printable_def escaped_bytes_def\<close>)
  then show ?thesis by simp
qed

definition sim_lines :: "mount_info list \<Rightarrow> string list" where
  "sim_lines w = map mount_line (filter printable w)"

interpretation sim_tools: cifs_tools "sim_run refuse" sim_lines "filter printable" for refuse
proof unfold_locales
  fix w w' src dir opts r flags
  have "List.map_filter parse_line (map mount_line ms) = ms" if "list_all printable ms" for ms
    using that by (induction ms) (simp_all add: map_filter_simps mount_line_parses)
  then show "List.map_filter parse_line (sim_lines w) = filter printable w"
    by (simp add: sim_lines_def list_all_iff)
  show "sim_run refuse [''mount.cifs'', src, dir, ''-o'', opts] w = (r, w') \<Longrightarrow>
      filter printable w' = (if crErr r = None then filter printable w @ [\<lparr>miDir = dir, miFSType = ''cifs'', miSource = src\<rparr>]
        else filter printable w)"
    by (auto simp: sim_run_def cmd_ok_def cmd_failed_def Let_def split: option.splits if_splits)
  show "filter printable w' = filter (\<lambda>mi. miDir mi \<noteq> dir) (filter printable w)"
    if "sim_run refuse (''umount'' # flags @ [dir]) w = (r, w')"
    using that by (auto simp: sim_run_def conj_commute)
qed


section \<open>Properties\<close>

text \<open>
  the password stays off the command line. A mount attempt through \<open>mount.cifs\<close> runs the same
  command with the same outcome whatever the password is: it reaches the tool only through the
  credentials file.
\<close>

theorem password_not_in_argv:
  "mountOnce (ExecMounter um run lines statfs) cfg ca t dir dialect password multichannel w
   = mountOnce (ExecMounter um run lines statfs) cfg ca t dir dialect password' multichannel w"
proof (cases "caCredsFile ca")
  case (Inr f)
  let ?spec = "\<lparr>spSource = UNCPath t, spDir = dir, spOptions = buildOptions t (cfParams cfg) dialect multichannel,
    spCredsFile = f, spUsername = Username t, spPassword = password, spDomain = Domain t\<rparr>"
  have "exec_Mount um run ?spec w = exec_Mount um run (?spec\<lparr>spPassword := password'\<rparr>) w"
    by (rule exec_Mount_cong) simp_all
  then show ?thesis using Inr by (simp add: mountOnce_def ExecMounter_def Let_def)
qed (simp add: mountOnce_def ExecMounter_def Let_def)

text \<open>U+3000, the ideographic space, in a share's name.\<close>

definition wide_share :: string where
  "wide_share = ''//h1/a'' @ [CHR 0xE3, CHR 0x80, CHR 0x80] @ ''b''"

lemma fields_graphic: "graphic c \<Longrightarrow> fields_from acc (c # cs) = fields_from (c # acc) cs"
proof -
  assume g: "graphic c"
  have "\<not> prefix w (c # cs)" if "w \<in> set white_space" for w
    using white_space_ends [OF that] g by (cases w) auto
  then have "leading white_space (c # cs) = None" unfolding leading_None_iff by blast
  then show ?thesis by simp
qed

lemma fields_space: "fields_from acc (CHR '' '' # r) = rev acc # fields_from [] r"
  by (simp add: leading_space)

lemma fields_wide: "fields_from acc (CHR 0xE3 # CHR 0x80 # CHR 0x80 # r) = rev acc # fields_from [] r"
proof -
  have "[CHR 0xE3, CHR 0x80, CHR 0x80] \<in> set white_space" by (simp add: white_space_def)
  then show ?thesis using leading_white [of "[CHR 0xE3, CHR 0x80, CHR 0x80]" r] by simp
qed

text \<open>
  wide spaces break the table. The kernel escapes only some ASCII bytes, but the line is cut
  at every Unicode space, so a share with one in its name is listed under a truncated source and
  the next acquisition takes it for a foreign mount.
\<close>

theorem wide_space_truncates_the_source:
  "map_option miSource (parse_line (mount_line \<lparr>miDir = ''/mnt/smb/a1'', miFSType = ''cifs'', miSource = wide_share\<rparr>))
   = Some ''//h1/a''"
proof -
  let ?mi = "\<lparr>miDir = ''/mnt/smb/a1'', miFSType = ''cifs'', miSource = wide_share\<rparr>"
  have "mount_line ?mi = ''36 35 0:50 / /mnt/smb/a1 rw - cifs '' @ wide_share @ '' rw''"
    by (simp add: mount_line_def wide_share_def kernel_escape_def escaped_bytes_def backslash_def)
  then have "Fields (mount_line ?mi)
      = [''36'', ''35'', ''0:50'', ''/'', ''/mnt/smb/a1'', ''rw'', ''-'', ''cifs'', ''//h1/a'', ''b'', ''rw'']"
    by (simp add: Fields_def wide_share_def fields_graphic fields_space fields_wide graphic_def del: fields_from.simps(2))
  then show ?thesis by (simp add: parse_line_def unescapeMountField_def backslash_def)
qed

end
