(* ===== verification/Run_Outcome.thy ===== *)
theory Run_Outcome
  imports Engine_Exec
begin

text \<open>
  How a run is graded (\<open>src/internal/runner/runner.go\<close>): the status and summary of one
  destination from what its execution reported, and the status of the run from its
  destinations.
\<close>

section \<open>Locked files\<close>

definition allLocked :: "failure list \<Rightarrow> bool" where
  "allLocked failures \<longleftrightarrow> list_all (\<lambda>f. errors_Is (flErr f) ErrDestinationLocked) failures \<and> length failures > 0"

definition countLocked :: "failure list \<Rightarrow> int" where
  "countLocked failures = int (length (filter (\<lambda>f. errors_Is (flErr f) ErrDestinationLocked) failures))"

definition summariseLocked :: "failure list \<Rightarrow> string" where
  "summariseLocked failures =
     (let names = map flRelPath failures;
          (shown, suffix) =
            (if length names > 3 then (take 3 names, '' and '' @ fmt_nat (length names - 3) @ '' more'') else (names, []))
      in fmt_nat (length failures) @ '' file(s) were not copied because another process had them open (''
         @ Join shown '', '' @ suffix
         @ ''); everything else is in sync, and the next run will pick them up'')"

text \<open>The first three failures and the number of the rest; the dash is U+2014.\<close>

definition dash :: string where
  "dash = '' '' @ [CHR 0xE2, CHR 0x80, CHR 0x94] @ '' ''"

definition summarise :: "failure list \<Rightarrow> string" where
  "summarise failures =
     (let parts = map (\<lambda>f. flRelPath f @ '': '' @ err_text (flErr f)) (take 3 failures)
                  @ (if length failures > 3 then [''and '' @ fmt_nat (length failures - 3) @ '' more''] else [])
      in fmt_nat (length failures) @ '' file(s) failed'' @ dash @ Join parts ''; '')"


section \<open>One destination\<close>

definition classifyDestination :: "exec_result \<Rightarrow> plan \<Rightarrow> dest_status \<times> string \<times> bool" where
  "classifyDestination result p =
     (if ShareUnreachable result
      then (DestFailed, ''the destination stopped responding mid-run; it was abandoned'', False)
      else if Aborted result
      then (DestFailed, ''stopped after '' @ fmt_nat (length (Failures result))
              @ '' error(s); this job aborts on the first error'', False)
      else if DeletionsBlocked p \<and> length (Failures result) > 0
      then (DestFailed, BlockedReason p @ ''; also '' @ summarise (Failures result), True)
      else if DeletionsBlocked p then (DestSuccess, BlockedReason p, True)
      else if length (Failures result) > 0 \<and> allLocked (Failures result)
      then (DestSuccess, summariseLocked (Failures result), True)
      else if length (Failures result) > 0 then (DestFailed, summarise (Failures result), False)
      else if DeletionsSkipped result then (DestSuccess, ''deletions were skipped because copies failed'', True)
      else (DestSuccess, [], False))"

definition levelForDest :: "dest_status \<Rightarrow> event_level" where
  "levelForDest s = (if s = DestSuccess then LevelInfo else LevelError)"

text \<open>The status is \<open>None\<close> in the zero value, where nothing was decided.\<close>

record dest_outcome =
  doTarget :: string
  doStatus :: "dest_status option"
  doSummary :: string
  doUnavailable :: bool
  doDegraded :: bool
  doLocked :: int

definition blank_outcome :: dest_outcome where
  "blank_outcome = \<lparr>doTarget = [], doStatus = None, doSummary = [], doUnavailable = False, doDegraded = False, doLocked = 0\<rparr>"


section \<open>The run\<close>

record tally =
  tlSucceeded :: int
  tlFailed :: int
  tlSkipped :: int
  tlCancelled :: int
  tlDegraded :: int
  tlLocked :: int
  tlProblems :: "string list"
  tlAborted :: bool

definition tally0 :: tally where
  "tally0 = \<lparr>tlSucceeded = 0, tlFailed = 0, tlSkipped = 0, tlCancelled = 0, tlDegraded = 0, tlLocked = 0,
     tlProblems = [], tlAborted = False\<rparr>"

definition add_problem :: "string \<Rightarrow> tally \<Rightarrow> tally" where
  "add_problem s t = t\<lparr>tlProblems := tlProblems t @ [s]\<rparr>"

definition tally_one :: "unavailable_policy \<Rightarrow> dest_outcome \<Rightarrow> tally \<Rightarrow> tally" where
  "tally_one policy o1 t =
     (let t = (if doUnavailable o1 \<and> policy = PolicyAbort then t\<lparr>tlAborted := True\<rparr> else t);
          t = t\<lparr>tlLocked := tlLocked t + doLocked o1\<rparr>;
          t = (if doDegraded o1
               then add_problem (doTarget o1 @ '': '' @ doSummary o1) (t\<lparr>tlDegraded := tlDegraded t + 1\<rparr>) else t)
      in if doStatus o1 = Some DestSuccess then t\<lparr>tlSucceeded := tlSucceeded t + 1\<rparr>
         else if doStatus o1 = Some DestSkippedUnavailable
         then add_problem (doTarget o1 @ '' skipped (unavailable)'') (t\<lparr>tlSkipped := tlSkipped t + 1\<rparr>)
         else if doStatus o1 = Some DestCancelled then t\<lparr>tlCancelled := tlCancelled t + 1\<rparr>
         else add_problem (doTarget o1 @ '' failed: '' @ doSummary o1) (t\<lparr>tlFailed := tlFailed t + 1\<rparr>))"

definition run_summary :: "tally \<Rightarrow> string" where
  "run_summary t =
     fmt_int (tlSucceeded t) @ '' succeeded, '' @ fmt_int (tlFailed t) @ '' failed, '' @ fmt_int (tlSkipped t) @ '' skipped''
     @ (if tlLocked t > 0 then '', '' @ fmt_int (tlLocked t) @ '' file(s) locked'' else [])
     @ (if tlProblems t \<noteq> [] then dash @ Join (tlProblems t) ''; '' else [])"

definition run_grade :: "tally \<Rightarrow> run_status" where
  "run_grade t =
     (if tlAborted t then RunFailed
      else if tlCancelled t > 0 \<and> tlSucceeded t = 0 \<and> tlFailed t = 0 then RunCancelled
      else if tlSucceeded t = 0 then RunFailed
      else if tlFailed t > 0 \<or> tlSkipped t > 0 \<or> tlCancelled t > 0 \<or> tlDegraded t > 0 then RunPartial
      else RunSuccess)"

definition classifyRun :: "dest_outcome list \<Rightarrow> unavailable_policy \<Rightarrow> run_status \<times> string" where
  "classifyRun outcomes policy =
     (let t = fold (tally_one policy) outcomes tally0 in (run_grade t, run_summary t))"

definition levelFor :: "run_status \<Rightarrow> event_level" where
  "levelFor s = (if s = RunSuccess then LevelInfo else if s = RunPartial then LevelWarn else LevelError)"


section \<open>What the counters count\<close>

definition has_status :: "dest_status \<Rightarrow> dest_outcome \<Rightarrow> bool" where
  "has_status s o1 \<longleftrightarrow> doStatus o1 = Some s"

definition has_failed :: "dest_outcome \<Rightarrow> bool" where
  "has_failed o1 \<longleftrightarrow> \<not> has_status DestSuccess o1 \<and> \<not> has_status DestSkippedUnavailable o1 \<and> \<not> has_status DestCancelled o1"

definition plain_success :: "dest_outcome \<Rightarrow> bool" where
  "plain_success o1 \<longleftrightarrow> has_status DestSuccess o1 \<and> \<not> doDegraded o1"

definition run_stopped :: "unavailable_policy \<Rightarrow> dest_outcome list \<Rightarrow> bool" where
  "run_stopped policy os \<longleftrightarrow> policy = PolicyAbort \<and> list_ex doUnavailable os"

abbreviation how_many :: "('a \<Rightarrow> bool) \<Rightarrow> 'a list \<Rightarrow> int" where
  "how_many P xs \<equiv> int (length (filter P xs))"

lemma tally_counts:
  "tlSucceeded (fold (tally_one policy) os t) = tlSucceeded t + how_many (has_status DestSuccess) os"
  "tlSkipped (fold (tally_one policy) os t) = tlSkipped t + how_many (has_status DestSkippedUnavailable) os"
  "tlCancelled (fold (tally_one policy) os t) = tlCancelled t + how_many (has_status DestCancelled) os"
  "tlFailed (fold (tally_one policy) os t) = tlFailed t + how_many has_failed os"
  "tlDegraded (fold (tally_one policy) os t) = tlDegraded t + how_many doDegraded os"
  "tlAborted (fold (tally_one policy) os t) \<longleftrightarrow> tlAborted t \<or> policy = PolicyAbort \<and> list_ex doUnavailable os"
  by (induction os arbitrary: t)
    (auto simp: tally_one_def add_problem_def has_status_def has_failed_def Let_def)

lemma none_of: "filter P xs = [] \<longleftrightarrow> \<not> list_ex P xs"
  by (induction xs) auto

text \<open>Every outcome counts as a success, a skip, a cancellation or a failure.\<close>

lemma not_plain_iff:
  "\<not> list_all plain_success os \<longleftrightarrow>
     list_ex has_failed os \<or> list_ex (has_status DestSkippedUnavailable) os \<or> list_ex (has_status DestCancelled) os
     \<or> list_ex doDegraded os"
  by (induction os) (auto simp: plain_success_def has_failed_def has_status_def)


section \<open>Properties\<close>

text \<open>
  C9: how a run is graded. A job that aborts on an unavailable destination has failed when one
  was unavailable. Otherwise, if some destination succeeded, the run is a success when all of
  them did and none did less than asked, and partial when not; if none succeeded, it was
  cancelled when some destination was and none failed, and failed in every other case, also
  without any destination.
\<close>

theorem run_status_spec:
  "fst (classifyRun os policy) =
     (if run_stopped policy os then RunFailed
      else if list_ex (has_status DestSuccess) os
      then (if list_all plain_success os then RunSuccess else RunPartial)
      else if list_ex (has_status DestCancelled) os \<and> \<not> list_ex has_failed os then RunCancelled
      else RunFailed)"
  using not_plain_iff [of os]
  by (auto simp: classifyRun_def Let_def run_grade_def tally_counts tally0_def run_stopped_def none_of)

text \<open>
  a plain success says the whole plan was carried out. A destination is graded a success that
  is not degraded exactly when its execution was neither cut short nor aborted, recorded no
  failure, and no deletion was withheld by the plan or by the execution.
\<close>

theorem plain_success_iff:
  "classifyDestination result p = (DestSuccess, [], False) \<longleftrightarrow>
     \<not> ShareUnreachable result \<and> \<not> Aborted result \<and> Failures result = []
     \<and> \<not> DeletionsBlocked p \<and> \<not> DeletionsSkipped result"
  by (simp add: classifyDestination_def)

end
