(* ===== verification/Paths.thy ===== *)
theory Paths
  imports Prelude
begin

text \<open>
  Package \<open>path/filepath\<close> on Unix, as far as the storage layer and the configuration use it:
  \<open>Clean\<close> and \<open>Join\<close>, on the segments of a path.
\<close>

text \<open>The segments that remain, on a stack: empty ones and dots go, a double dot takes the segment
  before it away, and at the root it goes itself.\<close>

fun clean_push :: "bool \<Rightarrow> string \<Rightarrow> string list \<Rightarrow> string list" where
  "clean_push rooted seg st =
     (if seg = [] \<or> seg = ''.'' then st
      else if seg = ''..'' then
        (case st of
           [] \<Rightarrow> if rooted then [] else [''..'']
         | s # rest \<Rightarrow> if s = ''..'' then ''..'' # st else rest)
      else seg # st)"

definition clean_segs :: "bool \<Rightarrow> string list \<Rightarrow> string list \<Rightarrow> string list" where
  "clean_segs rooted segs st = fold (clean_push rooted) segs st"

definition Clean :: "string \<Rightarrow> string" where
  "Clean p =
     (if p = [] then ''.''
      else
        let rooted = (hd p = slash); body = Join (rev (clean_segs rooted (Split1 p slash) [])) ''/''
        in if rooted then slash # body else if body = [] then ''.'' else body)"

definition path_Join :: "string list \<Rightarrow> string" where
  "path_Join elems =
     (let es = filter (\<lambda>e. e \<noteq> []) elems in if es = [] then [] else Clean (Join es ''/''))"

definition plain_seg :: "string \<Rightarrow> bool" where
  "plain_seg s \<longleftrightarrow> s \<noteq> [] \<and> s \<noteq> ''.'' \<and> s \<noteq> ''..'' \<and> slash \<notin> set s"

lemma plain_dots: "plain_seg s \<Longrightarrow> s \<noteq> ''..''"
  by (simp add: plain_seg_def)

lemma clean_push_plain: "plain_seg s \<Longrightarrow> clean_push r s st = s # st"
  by (simp add: plain_seg_def)

lemma clean_segs_plain: "list_all plain_seg segs \<Longrightarrow> clean_segs r segs st = rev segs @ st"
  by (induction segs arbitrary: st) (simp_all add: clean_segs_def clean_push_plain del: clean_push.simps)

lemma clean_segs_append: "clean_segs r (xs @ ys) st = clean_segs r ys (clean_segs r xs st)"
  by (simp add: clean_segs_def)

lemma clean_segs_nil [simp]: "clean_segs r ([] # xs) st = clean_segs r xs st" "clean_segs r [] st = st"
  by (simp_all add: clean_segs_def)

text \<open>Below the root no double dot survives.\<close>

lemma clean_segs_rooted:
  "list_all plain_seg st \<Longrightarrow> (\<And>s. s \<in> set segs \<Longrightarrow> slash \<notin> set s) \<Longrightarrow> list_all plain_seg (clean_segs True segs st)"
proof (induction segs arbitrary: st)
  case (Cons seg segs)
  have "slash \<notin> set seg" using Cons.prems(2) by simp
  then have "list_all plain_seg (clean_push True seg st)"
    using Cons.prems(1) by (cases st) (simp_all add: plain_seg_def [of seg] plain_dots)
  then show ?case using Cons.IH Cons.prems(2) by (simp add: clean_segs_def del: clean_push.simps)
qed simp

lemma Split1_append: "Split1 (a @ c # b) c = Split1 a c @ Split1 b c"
proof (induction a)
  case (Cons x a)
  obtain w ws where "Split1 a c = w # ws" by (cases "Split1 a c") auto
  with Cons show ?case by simp
qed simp

abbreviation rooted_segs :: "string \<Rightarrow> string list" where
  "rooted_segs p \<equiv> rev (clean_segs True (Split1 p slash) [])"

lemma Clean_rooted: "hd p = slash \<Longrightarrow> p \<noteq> [] \<Longrightarrow> Clean p = slash # Join (rooted_segs p) ''/''"
  by (simp add: Clean_def Let_def)

lemma rooted_segs_plain: "list_all plain_seg (rooted_segs p)"
  using clean_segs_rooted [of "[]" "Split1 p slash"] Split1_no_sep [of _ p slash] by (simp add: list_all_iff)

lemma rooted_segs_Join: "list_all plain_seg ss \<Longrightarrow> rooted_segs (slash # Join ss ''/'') = ss"
proof (cases "ss = []")
  case False
  assume "list_all plain_seg ss"
  moreover from this False have "Split1 (Join ss ''/'') slash = ss"
    by (intro Split1_Join) (auto simp: list_all_iff plain_seg_def)
  ultimately show ?thesis by (simp add: clean_segs_plain)
qed simp

text \<open>A cleaned rooted path appended to a rooted path only adds segments.\<close>

lemma path_Join_rooted:
  assumes "root \<noteq> []" "hd root = slash"
  shows "path_Join [root, Clean (slash # sub)] = slash # Join (rooted_segs root @ rooted_segs (slash # sub)) ''/''"
proof -
  let ?s = "slash # Join (rooted_segs (slash # sub)) ''/''"
  have "path_Join [root, Clean (slash # sub)] = Clean (root @ slash # ?s)"
    using assms by (simp add: path_Join_def Clean_rooted)
  also have "\<dots> = slash # Join (rooted_segs (root @ slash # ?s)) ''/''"
    using assms by (intro Clean_rooted) auto
  also have "rooted_segs (root @ slash # ?s) = rooted_segs root @ rooted_segs (slash # sub)"
  proof -
    let ?q = "rooted_segs (slash # sub)"
    have "clean_segs True (Split1 ?s slash) st = clean_segs True (Split1 ?s slash) [] @ st" if "list_all plain_seg st" for st
    proof (cases "?q = []")
      case False
      then have "Split1 (Join ?q ''/'') slash = ?q"
        using rooted_segs_plain [of "slash # sub"] by (intro Split1_Join) (auto simp: list_all_iff plain_seg_def)
      then show ?thesis using rooted_segs_plain [of "slash # sub"] by (simp add: clean_segs_plain)
    qed simp
    from this [of "clean_segs True (Split1 root slash) []"]
    show ?thesis
      using rooted_segs_plain [of root] rooted_segs_Join [OF rooted_segs_plain [of "slash # sub"]]
      by (simp add: Split1_append clean_segs_append list_all_iff)
  qed
  finally show ?thesis .
qed

lemma Join_append: "ys \<noteq> [] \<Longrightarrow> xs \<noteq> [] \<Longrightarrow> Join (xs @ ys) sep = Join xs sep @ sep @ Join ys sep"
  by (induction xs sep rule: Join.induct) (auto simp: neq_Nil_conv)

lemma Join_last: "xs \<noteq> [] \<Longrightarrow> last xs \<noteq> [] \<Longrightarrow> last (Join xs sep) = last (last xs) \<and> Join xs sep \<noteq> []"
  by (induction xs sep rule: Join.induct) auto

text \<open>A path of a root: the root itself, cleaned, or one below it.\<close>

definition below :: "string \<Rightarrow> string \<Rightarrow> bool" where
  "below base path \<longleftrightarrow> path = Clean base \<or> HasPrefix path (TrimSuffix (Clean base) ''/'' @ ''/'')"

lemma more_segs_below:
  assumes "HasPrefix base ''/''" "list_all plain_seg ss"
  shows "below base (slash # Join (rooted_segs base @ ss) ''/'')"
proof -
  have r: "base \<noteq> []" "hd base = slash" using assms(1) by (cases base; simp add: HasPrefix_def)+
  let ?rs = "rooted_segs base"
  have c: "Clean base = slash # Join ?rs ''/''" using Clean_rooted r by simp
  show ?thesis
  proof (cases "ss = [] \<or> ?rs = []")
    case True
    then show ?thesis using c by (auto simp: below_def HasPrefix_def TrimSuffix_def)
  next
    case False
    have "plain_seg (last ?rs)" using rooted_segs_plain [of base] False last_in_set [of ?rs] by (simp only: list_all_iff) blast
    then have "last ?rs \<noteq> []" "last (last ?rs) \<noteq> slash"
      unfolding plain_seg_def using last_in_set [of "last ?rs"] by metis+
    then have "last (Join ?rs ''/'') \<noteq> slash \<and> Join ?rs ''/'' \<noteq> []"
      using False Join_last [of ?rs "''/''"] by metis
    then have "TrimSuffix (Clean base) ''/'' = Clean base"
      unfolding c by (auto simp: TrimSuffix_def suffix_def) (metis last_ConsR last_snoc)
    then show ?thesis using False by (simp add: below_def c Join_append HasPrefix_def)
  qed
qed

end
