(* ===== verification/Storage.thy ===== *)
theory Storage
  imports Mount_Manager Paths
begin

text \<open>
  The protocol-agnostic view of a target (\<open>src/internal/storage/storage.go\<close>) over the mount
  manager, with the bounded calls of \<open>src/internal/engine/bounded.go\<close> it makes: resolving a
  target to a local root, its health, and the listing of a root.
\<close>

section \<open>Bounded calls\<close>

text \<open>
  A call runs on its own goroutine; its answer is \<open>None\<close> when the context ends first, with the
  error \<open>ctx\<close>. The call may still take effect later, so it changes the world in both cases.
\<close>

definition bounded :: "string \<Rightarrow> goerr \<Rightarrow> (goerr + 'a) option \<Rightarrow> goerr + 'a" where
  "bounded what ctx r =
     (case r of Some v \<Rightarrow> v | None \<Rightarrow> Inl (wrap (what @ '' did not respond in time: '') ctx))"

text \<open>What the storage layer asks of the operating system: whether a path is a directory, and
  making one.\<close>

record 'w os_calls =
  osStat :: "string \<Rightarrow> 'w \<Rightarrow> (goerr + bool) option"
  osMkdirAll :: "string \<Rightarrow> 'w \<Rightarrow> (goerr + unit) option \<times> 'w"
  osCtx :: goerr

definition MkdirAllBounded :: "'w os_calls \<Rightarrow> string \<Rightarrow> 'w \<Rightarrow> goerr option \<times> 'w" where
  "MkdirAllBounded os path w =
     (case osMkdirAll os path w of (r, w) \<Rightarrow>
        (case bounded (''creating '' @ path) (osCtx os) r of Inl e \<Rightarrow> Some e | Inr _ \<Rightarrow> None, w))"

definition statBounded :: "'w os_calls \<Rightarrow> string \<Rightarrow> 'w \<Rightarrow> goerr option" where
  "statBounded os path w =
     (case osStat os path w of
        Some (Inr _) \<Rightarrow> None
      | Some (Inl e) \<Rightarrow> if errors_Is e ErrNotExist then Some (new_error ''does not exist'' [ErrPathNotExist]) else Some e
      | None \<Rightarrow> Some (wrap ''did not respond in time: '' (osCtx os)))"

text \<open>An \<open>os.Stat\<close> that is not bounded, as the local storage calls it; it is taken to return.\<close>

definition stat_now :: "'w os_calls \<Rightarrow> string \<Rightarrow> 'w \<Rightarrow> goerr + bool" where
  "stat_now os path w = (case osStat os path w of Some r \<Rightarrow> r | None \<Rightarrow> Inl (osCtx os))"

definition withSubpath :: "string \<Rightarrow> string \<Rightarrow> string" where
  "withSubpath root subpath = (if subpath = [] then root else path_Join [root, Clean (''/'' @ subpath)])"

definition joinSubpaths :: "string \<Rightarrow> string \<Rightarrow> string" where
  "joinSubpaths targetSubpath jobSubpath =
     (if targetSubpath = [] then jobSubpath
      else if jobSubpath = [] then targetSubpath
      else targetSubpath @ ''/'' @ jobSubpath)"


section \<open>A share\<close>

record smb =
  smTarget :: target
  smRoot :: string
  smHeld :: bool  \<comment> \<open>\<open>release != nil\<close>\<close>
  smCreate :: bool

definition smb_AllowCreate :: "smb \<Rightarrow> smb" where
  "smb_AllowCreate s = s\<lparr>smCreate := True\<rparr>"

text \<open>Giving the reference back: on the error paths of \<open>Resolve\<close> and in \<open>Release\<close>.\<close>

definition drop_ref :: "gotime \<Rightarrow> smb \<Rightarrow> 'w mgr \<Rightarrow> smb \<times> 'w mgr" where
  "drop_ref now s m = (s\<lparr>smHeld := False, smRoot := []\<rparr>, release now (tgID (smTarget s)) m)"

definition smb_Resolve ::
  "'w mounter \<Rightarrow> config \<Rightarrow> call_env \<Rightarrow> (string \<Rightarrow> string) \<Rightarrow> 'w os_calls \<Rightarrow> smb \<Rightarrow> 'w mgr \<Rightarrow>
   (goerr + string) \<times> smb \<times> 'w mgr" where
  "smb_Resolve mt cfg ca uq os s m =
     (if smHeld s then (Inr (smRoot s), s, m)
      else
        case Acquire mt cfg ca uq (smTarget s) m of
          (Inl e, m) \<Rightarrow> (Inl e, s, m)
        | (Inr mountRoot, m) \<Rightarrow>
            let sub = Subpath (smTarget s); root = withSubpath mountRoot sub;
                s = s\<lparr>smHeld := True, smRoot := root\<rparr>;
                where = '' on '' @ Describe uq (smTarget s) @ '': ''
            in if sub = [] then (Inr root, s, m)
               else
                 case statBounded os root (mgWorld m) of
                   None \<Rightarrow> (Inr root, s, m)
                 | Some e \<Rightarrow>
                     if smCreate s \<and> errors_Is e ErrPathNotExist then
                       (case MkdirAllBounded os root (mgWorld m) of
                          (Some mkErr, w) \<Rightarrow>
                            (Inl (wrap (''creating subpath '' @ fmt_q uq sub @ where) mkErr), drop_ref (caNow ca) s (m\<lparr>mgWorld := w\<rparr>))
                        | (None, w) \<Rightarrow> (Inr root, s, m\<lparr>mgWorld := w\<rparr>))
                     else (Inl (wrap (''subpath '' @ fmt_q uq sub @ where) e), drop_ref (caNow ca) s m))"

definition Probe :: "'w mounter \<Rightarrow> goerr \<Rightarrow> string \<Rightarrow> 'w \<Rightarrow> goerr option" where
  "Probe mt ctx dir w =
     (case mtStatFS mt dir w of
        Some e \<Rightarrow> e
      | None \<Rightarrow> Some (wrap (''checking '' @ dir @ '' did not respond in time: '') ctx))"

definition smb_Health ::
  "'w mounter \<Rightarrow> goerr \<Rightarrow> gotime \<Rightarrow> (string \<Rightarrow> string) \<Rightarrow> smb \<Rightarrow> 'w mgr \<Rightarrow> goerr option \<times> 'w mgr" where
  "smb_Health mt ctx now uq s m =
     (if \<not> smHeld s then (Some (new_error (Describe uq (smTarget s) @ '' is not mounted'') []), m)
      else
        case Probe mt ctx (smRoot s) (mgWorld m) of
          Some e \<Rightarrow>
            let e = wrap (Describe uq (smTarget s) @ '' is not responding: '') e
            in (Some e, m\<lparr>mgHealth := SetUnhealthy now (tgID (smTarget s)) (err_text e) (mgHealth m)\<rparr>)
        | None \<Rightarrow> (None, m\<lparr>mgHealth := SetHealthy now (tgID (smTarget s)) (mgHealth m)\<rparr>))"

definition smb_Release :: "gotime \<Rightarrow> smb \<Rightarrow> 'w mgr \<Rightarrow> smb \<times> 'w mgr" where
  "smb_Release now s m = (if smHeld s then drop_ref now s m else (s, m))"


section \<open>A local path\<close>

definition missingRootHint :: string where
  "missingRootHint = ''check that the host directory is bind-mounted into the container''"

record local_storage =
  lsTarget :: target
  lsCreate :: bool

definition local_AllowCreate :: "local_storage \<Rightarrow> local_storage" where
  "local_AllowCreate l = l\<lparr>lsCreate := True\<rparr>"

definition is_missing :: "goerr + bool \<Rightarrow> bool" where
  "is_missing r = (case r of Inl e \<Rightarrow> errors_Is e ErrNotExist | Inr _ \<Rightarrow> False)"

definition rootExists :: "'w os_calls \<Rightarrow> local_storage \<Rightarrow> 'w \<Rightarrow> bool" where
  "rootExists os l w = (case stat_now os (LocalPath (lsTarget l)) w of Inl _ \<Rightarrow> False | Inr _ \<Rightarrow> True)"

definition local_check ::
  "'w os_calls \<Rightarrow> (string \<Rightarrow> string) \<Rightarrow> local_storage \<Rightarrow> string \<Rightarrow> 'w \<Rightarrow> goerr option" where
  "local_check os uq l root w =
     (let name = Describe uq (lsTarget l) in
      case stat_now os root w of
        Inl e \<Rightarrow>
          if errors_Is e ErrNotExist
          then if root \<noteq> LocalPath (lsTarget l) \<and> rootExists os l w
               then Some (new_error (name @ '': '' @ root @ '' does not exist'') [ErrPathNotExist])
               else Some (new_error (name @ '' does not exist '' @ em_dash @ '' '' @ missingRootHint) [])
          else Some (wrap (name @ '': '' @ root @ '' is not readable: '') e)
      | Inr isDir \<Rightarrow>
          if \<not> isDir then Some (new_error (name @ '': '' @ root @ '' is a file, not a directory'') []) else None)"

definition local_Resolve ::
  "'w os_calls \<Rightarrow> (string \<Rightarrow> string) \<Rightarrow> gotime \<Rightarrow> local_storage \<Rightarrow> status gomap \<Rightarrow> 'w \<Rightarrow>
   (goerr + string) \<times> status gomap \<times> 'w" where
  "local_Resolve os uq now l health w =
     (let t = lsTarget l; root = withSubpath (LocalPath t) (Subpath t);
          (mkErr, w) =
            (if lsCreate l \<and> Subpath t \<noteq> [] \<and> root \<noteq> LocalPath t \<and> is_missing (stat_now os root w) \<and> rootExists os l w
             then MkdirAllBounded os root w else (None, w))
      in case mkErr of
           Some e \<Rightarrow> (Inl (wrap (''creating subpath '' @ fmt_q uq (Subpath t) @ '' on '' @ Describe uq t @ '': '') e), health, w)
         | None \<Rightarrow>
             (case local_check os uq l root w of
                Some e \<Rightarrow> (Inl e, SetUnhealthy now (tgID t) (err_text e) health, w)
              | None \<Rightarrow> (Inr root, SetHealthy now (tgID t) health, w)))"

definition local_Health ::
  "'w os_calls \<Rightarrow> (string \<Rightarrow> string) \<Rightarrow> gotime \<Rightarrow> local_storage \<Rightarrow> status gomap \<Rightarrow> 'w \<Rightarrow> goerr option \<times> status gomap" where
  "local_Health os uq now l health w =
     (let t = lsTarget l in
      case local_check os uq l (withSubpath (LocalPath t) (Subpath t)) w of
        Some e \<Rightarrow> (Some e, SetUnhealthy now (tgID t) (err_text e) health)
      | None \<Rightarrow> (None, SetHealthy now (tgID t) health))"


text \<open>Which storage a target has.\<close>

datatype storage = SMBStorage smb | LocalStorage local_storage

definition For :: "(string \<Rightarrow> string) \<Rightarrow> target \<Rightarrow> goerr + storage" where
  "For uq t =
     (case tgType t of
        TargetSMB \<Rightarrow> Inr (SMBStorage \<lparr>smTarget = t, smRoot = [], smHeld = False, smCreate = False\<rparr>)
      | TargetLocal \<Rightarrow> Inr (LocalStorage \<lparr>lsTarget = t, lsCreate = False\<rparr>)
      | TargetOther s \<Rightarrow> Inl (new_error (''target '' @ Describe uq t @ '' has unsupported type '' @ fmt_q uq s) []))"

text \<open>
  The listing of a root: \<open>names\<close> are what \<open>ReadDir(limit + 1)\<close> returned, in directory order, with
  the size and time \<open>Info\<close> gave for each if it worked.
\<close>

record list_entry =
  leName :: string
  leIsDir :: bool
  leSize :: int
  leModTime :: gotime

record raw_entry =
  reName :: string
  reIsDir :: bool
  reInfo :: "(int \<times> gotime) option"

definition list_entry_of :: "raw_entry \<Rightarrow> list_entry" where
  "list_entry_of n =
     (case reInfo n of
        Some (sz, mt) \<Rightarrow> \<lparr>leName = reName n, leIsDir = reIsDir n, leSize = sz, leModTime = mt\<rparr>
      | None \<Rightarrow> \<lparr>leName = reName n, leIsDir = reIsDir n, leSize = 0, leModTime = zero_time\<rparr>)"

definition listLimit :: nat where "listLimit = 200"

definition listDir ::
  "string \<Rightarrow> nat \<Rightarrow> goerr \<Rightarrow> (goerr + raw_entry list \<times> goerr option) option \<Rightarrow> goerr + list_entry list \<times> bool" where
  "listDir root limit ctx r =
     (case r of
        None \<Rightarrow> Inl (wrap (''listing '' @ root @ '' did not respond in time: '') ctx)
      | Some (Inl e) \<Rightarrow> Inl (wrap (''listing '' @ root @ '': '') e)
      | Some (Inr (names, err)) \<Rightarrow>
          (case err of
             Some e \<Rightarrow>
               if names = [] \<and> \<not> errors_Is e EOF then Inl (wrap (''listing '' @ root @ '': '') e)
               else Inr (sort_slice (\<lambda>a b. leName a < leName b) (map list_entry_of (take limit names)), limit < length names)
           | None \<Rightarrow> Inr (sort_slice (\<lambda>a b. leName a < leName b) (map list_entry_of (take limit names)), limit < length names)))"


section \<open>References are given back\<close>

text \<open>
  The contract of \<open>Storage\<close> a run relies on, over a world that counts references: a resolution
  that fails leaves the count alone, one that succeeds adds what the storage then holds, and its
  release takes exactly that away.
\<close>

locale storage_refs =
  fixes resolve :: "'s \<Rightarrow> 'm \<Rightarrow> (goerr + string) \<times> 's \<times> 'm"
    and rel :: "'s \<Rightarrow> 'm \<Rightarrow> 's \<times> 'm"
    and refs :: "'s \<Rightarrow> 'm \<Rightarrow> int"
    and weight :: "'s \<Rightarrow> int"
    and ok :: "'m \<Rightarrow> bool"
    and same :: "'s \<Rightarrow> 's \<Rightarrow> bool"
  assumes resolve_ok: "ok m \<Longrightarrow> resolve s m = (r, s', m') \<Longrightarrow> ok m' \<and> same s s'"
    and resolve_refs: "ok m \<Longrightarrow> resolve s m = (r, s', m') \<Longrightarrow> refs x m' = refs x m + (if same x s then weight s' - weight s else 0)"
    and resolve_fails: "resolve s m = (Inl e, s', m') \<Longrightarrow> weight s = 0 \<Longrightarrow> weight s' = 0"
    and release_ok: "ok m \<Longrightarrow> rel s m = (s', m') \<Longrightarrow> ok m' \<and> same s s' \<and> weight s' = 0"
    and release_refs: "ok m \<Longrightarrow> weight s \<le> refs s m \<Longrightarrow> rel s m = (s', m') \<Longrightarrow>
      refs x m' = refs x m - (if same x s then weight s else 0)"
    and weight_nonneg: "0 \<le> weight s"
    and same_cong: "same x s \<Longrightarrow> refs x m = refs s m" "same x y \<Longrightarrow> same y z \<Longrightarrow> same x z" "same x y \<Longrightarrow> same y x"
begin

lemma resolve_then_release:
  assumes "ok m" "weight s = 0" "0 \<le> refs s m" "resolve s m = (r, s', m')" "rel s' m' = (s'', m'')"
  shows "refs x m'' = refs x m" "weight s'' = 0" "ok m''"
proof -
  have k: "ok m'" "same s s'" using resolve_ok [OF assms(1,4)] by auto
  have "refs s' m' = refs s' m + weight s'"
    using resolve_refs [OF assms(1,4), of s'] k(2) same_cong(3) assms(2) by auto
  moreover have "refs s' m = refs s m" using k(2) same_cong(1) [of s s' m] by simp
  ultimately have le: "weight s' \<le> refs s' m'" using assms(3) by simp
  have "same x s' \<longleftrightarrow> same x s" using k(2) same_cong(2,3) by blast
  then show "refs x m'' = refs x m"
    using release_refs [OF k(1) le assms(5), of x] resolve_refs [OF assms(1,4), of x] assms(2) by auto
  show "weight s'' = 0" "ok m''" using release_ok [OF k(1) assms(5)] by auto
qed

end


text \<open>The references a target has in the manager.\<close>

definition mgr_refs :: "string \<Rightarrow> 'w mgr \<Rightarrow> int" where
  "mgr_refs tid m = (case goget (mgEntries m) tid of Some a \<Rightarrow> enRefs (mgHeap m ! a) | None \<Rightarrow> 0)"

definition mgr_ok :: "'w mgr \<Rightarrow> bool" where
  "mgr_ok m \<longleftrightarrow>
     (\<forall>i a. goget (mgEntries m) i = Some a \<longrightarrow> a < length (mgHeap m) \<and> 0 \<le> enRefs (mgHeap m ! a))
     \<and> (\<forall>i j a. goget (mgEntries m) i = Some a \<and> goget (mgEntries m) j = Some a \<longrightarrow> i = j)"

lemma entryFor_ok:
  assumes "mgr_ok m" "entryFor tid m = (a, m1)"
  shows "mgr_ok m1 \<and> goget (mgEntries m1) tid = Some a \<and> (\<forall>x. mgr_refs x m1 = mgr_refs x m) \<and> mgWorld m1 = mgWorld m"
  using assms(2)
proof (cases rule: entryFor_cases)
  case fresh
  have lt: "x < length (mgHeap m)" if "goget (mgEntries m) i = Some x" for i x
    using assms(1) that by (auto simp: mgr_ok_def)
  then have "goget (mgEntries m) i \<noteq> Some (length (mgHeap m))" for i by (metis less_irrefl)
  then have "mgr_ok m1" using assms(1) fresh lt
    unfolding mgr_ok_def by (auto simp: gm.get_put nth_append new_entry_def less_SucI)
  moreover have "mgr_refs x m1 = mgr_refs x m" for x
    using fresh lt [of x] by (auto simp: mgr_refs_def gm.get_put nth_append new_entry_def split: option.split)
  ultimately show ?thesis using fresh by (simp add: gm.get_put)
qed (use assms(1) in simp)

text \<open>Replacing the entry of one target.\<close>

lemma mgr_refs_update:
  assumes "mgr_ok m" "goget (mgEntries m) tid = Some a" "0 \<le> enRefs e"
    and m': "mgHeap m' = (mgHeap m)[a := e]" "mgEntries m' = mgEntries m"
  shows "mgr_ok m' \<and> mgr_refs x m' = (if x = tid then enRefs e else mgr_refs x m)"
proof -
  have a: "a < length (mgHeap m)" using assms(1,2) by (auto simp: mgr_ok_def)
  have inj: "b = a \<longleftrightarrow> i = tid" if "goget (mgEntries m) i = Some b" for i b
    using assms(1,2) that unfolding mgr_ok_def by (metis option.inject)
  have "mgr_ok m'" using assms(1,3) a unfolding mgr_ok_def m' by (auto simp: nth_list_update)
  moreover have "mgr_refs x m' = (if x = tid then enRefs e else mgr_refs x m)"
    using assms(2) a inj [of x] by (auto simp: mgr_refs_def m' nth_list_update split: option.split)
  ultimately show ?thesis ..
qed

lemma Acquire_refs:
  assumes "mgr_ok m" "Acquire mt cfg ca uq t m = (r, m')"
  shows "mgr_ok m' \<and> mgr_refs x m' = mgr_refs x m + (if x = tgID t \<and> \<not> isl r then 1 else 0)"
proof (cases "tgType t = TargetSMB")
  case True
  obtain a m1 where l: "entryFor (tgID t) m = (a, m1)" by fastforce
  note ok = entryFor_ok [OF assms(1) l]
  have g: "goget (mgEntries m1) (tgID t) = Some a" and k: "mgr_ok m1" using ok by auto
  obtain err e w where e: "ensureMounted mt cfg ca uq t (mountpointFor cfg (tgID t)) (mgHeap m1 ! a) (mgWorld m1) = (err, e, w)"
    by (metis prod_cases3)
  have pos: "0 \<le> enRefs e" using ensureMounted_refs [OF e] k g by (auto simp: mgr_ok_def)
  have refs: "mgr_refs (tgID t) m1 = enRefs e" using ensureMounted_refs [OF e] g by (simp add: mgr_refs_def)
  have r: "acquire_at mt cfg ca uq t a m1 = (r, m')" using assms(2) True l by (simp add: Acquire_def)
  show ?thesis
  proof (cases err)
    case None
    then have "mgHeap m' = (mgHeap m1)[a := e\<lparr>enRefs := enRefs e + 1\<rparr>]" "mgEntries m' = mgEntries m1" "\<not> isl r"
      using r e by (auto simp: acquire_at_def)
    then show ?thesis using mgr_refs_update [OF k g, of "e\<lparr>enRefs := enRefs e + 1\<rparr>" m' x] pos refs ok by auto
  next
    case (Some er)
    then have "mgHeap m' = (mgHeap m1)[a := e]" "mgEntries m' = mgEntries m1" "isl r"
      using r e by (auto simp: acquire_at_def)
    then show ?thesis using mgr_refs_update [OF k g, of e m' x] pos refs ok by auto
  qed
qed (use assms in \<open>auto simp: Acquire_def\<close>)

lemma release_refs:
  assumes "mgr_ok m"
  shows "mgr_ok (release now tid m)
    \<and> mgr_refs x (release now tid m) = mgr_refs x m - (if x = tid \<and> mgr_refs tid m > 0 then 1 else 0)"
proof -
  obtain a m1 where l: "entryFor tid m = (a, m1)" by fastforce
  note ok = entryFor_ok [OF assms l]
  have g: "goget (mgEntries m1) tid = Some a" and k: "mgr_ok m1" using ok by auto
  define e where "e = (let e = mgHeap m1 ! a; e = (if enRefs e > 0 then e\<lparr>enRefs := enRefs e - 1\<rparr> else e)
      in if enRefs e = 0 then e\<lparr>enIdleSince := now\<rparr> else e)"
  have u: "mgHeap (release now tid m) = (mgHeap m1)[a := e]" "mgEntries (release now tid m) = mgEntries m1"
    by (simp_all add: release_def l release_at_def e_def Let_def)
  have m1: "mgr_refs tid m1 = enRefs (mgHeap m1 ! a)" using g by (simp add: mgr_refs_def)
  have "0 \<le> enRefs (mgHeap m1 ! a)" using k g by (auto simp: mgr_ok_def)
  then have "0 \<le> enRefs e" "enRefs e = enRefs (mgHeap m1 ! a) - (if enRefs (mgHeap m1 ! a) > 0 then 1 else 0)"
    by (auto simp: e_def Let_def)
  then show ?thesis using mgr_refs_update [OF k g _ u, of x] ok m1 by auto
qed

lemma mgr_refs_world [simp]:
  "mgr_refs x (m\<lparr>mgWorld := w\<rparr>) = mgr_refs x m" "mgr_ok (m\<lparr>mgWorld := w\<rparr>) = mgr_ok m"
  by (simp_all add: mgr_refs_def mgr_ok_def split: option.split)


definition smb_weight :: "smb \<Rightarrow> int" where
  "smb_weight s = (if smHeld s then 1 else 0)"

lemma smb_Resolve_refs:
  assumes "mgr_ok m" "smb_Resolve mt cfg ca uq os s m = (r, s', m')"
  shows "mgr_ok m' \<and> smTarget s' = smTarget s \<and> (isl r \<longrightarrow> \<not> smHeld s') \<and> (\<not> isl r \<longrightarrow> smHeld s')
    \<and> mgr_refs x m' = mgr_refs x m + (if x = tgID (smTarget s) then smb_weight s' - smb_weight s else 0)"
proof (cases "smHeld s")
  case False
  obtain ra m1 where a: "Acquire mt cfg ca uq (smTarget s) m = (ra, m1)" by fastforce
  note acq = Acquire_refs [OF assms(1) a]
  have pos: "mgr_refs (tgID (smTarget s)) m \<ge> 0"
    using assms(1) by (auto simp: mgr_ok_def mgr_refs_def split: option.split)
  have rel: "mgr_ok (release now (tgID (smTarget s)) (m1\<lparr>mgWorld := w\<rparr>))
      \<and> mgr_refs x (release now (tgID (smTarget s)) (m1\<lparr>mgWorld := w\<rparr>)) = mgr_refs x m" if "\<not> isl ra" for now w
    using release_refs [of "m1\<lparr>mgWorld := w\<rparr>" now "tgID (smTarget s)" x] acq [of x] acq [of "tgID (smTarget s)"] pos that by auto
  have same: "m1\<lparr>mgWorld := mgWorld m1\<rparr> = m1" by simp
  show ?thesis
    using assms(2) False acq [of x] rel [of _ "mgWorld m1"] rel unfolding same
    by (auto simp: smb_Resolve_def a drop_ref_def smb_weight_def Let_def
        split: sum.splits option.splits prod.splits if_splits)
qed (use assms in \<open>auto simp: smb_Resolve_def\<close>)

interpretation share: storage_refs "smb_Resolve mt cfg ca uq os" "smb_Release now"
  "\<lambda>s. mgr_refs (tgID (smTarget s))" smb_weight mgr_ok "\<lambda>s s'. tgID (smTarget s) = tgID (smTarget s')"
  for mt :: "'w mounter" and cfg ca uq os now
proof unfold_locales
  fix s s' x :: smb and m m' :: "'w mgr" and r e
  show "mgr_ok m' \<and> tgID (smTarget s) = tgID (smTarget s')" if "mgr_ok m" "smb_Resolve mt cfg ca uq os s m = (r, s', m')"
    using smb_Resolve_refs [OF that] by simp
  show "mgr_refs (tgID (smTarget x)) m' = mgr_refs (tgID (smTarget x)) m
      + (if tgID (smTarget x) = tgID (smTarget s) then smb_weight s' - smb_weight s else 0)"
    if "mgr_ok m" "smb_Resolve mt cfg ca uq os s m = (r, s', m')"
    using smb_Resolve_refs [OF that, of "tgID (smTarget x)"] by simp
  show "smb_weight s' = 0" if "smb_Resolve mt cfg ca uq os s m = (Inl e, s', m')" "smb_weight s = 0"
    using that by (auto simp: smb_Resolve_def smb_weight_def drop_ref_def Let_def split: sum.splits option.splits prod.splits if_splits)
  show "mgr_ok m' \<and> tgID (smTarget s) = tgID (smTarget s') \<and> smb_weight s' = 0"
    if "mgr_ok m" "smb_Release now s m = (s', m')"
    using that release_refs [OF that(1)] by (auto simp: smb_Release_def drop_ref_def smb_weight_def split: if_splits)
  show "mgr_refs (tgID (smTarget x)) m' = mgr_refs (tgID (smTarget x)) m - (if tgID (smTarget x) = tgID (smTarget s) then smb_weight s else 0)"
    if "mgr_ok m" "smb_weight s \<le> mgr_refs (tgID (smTarget s)) m" "smb_Release now s m = (s', m')"
    using that(2,3) release_refs [OF that(1), of now "tgID (smTarget s)" "tgID (smTarget x)"]
    by (auto simp: smb_Release_def drop_ref_def smb_weight_def split: if_splits)
qed (auto simp: smb_weight_def)


section \<open>Properties\<close>

text \<open>
  C37: a target keeps to its root. Whatever the subpath of a target or of a job is, with double dots,
  slashes or dots in it, the resolved path is the root's own or lies below it.
\<close>

theorem subpath_stays_inside:
  assumes "HasPrefix root ''/''" "sub \<noteq> []"
  shows "withSubpath root sub = Clean root \<or> HasPrefix (withSubpath root sub) (TrimSuffix (Clean root) ''/'' @ ''/'')"
proof -
  have r: "root \<noteq> []" "hd root = slash" using assms(1) by (cases root; simp add: HasPrefix_def)+
  have "withSubpath root sub = slash # Join (rooted_segs root @ rooted_segs (slash # sub)) ''/''"
    using assms(2) path_Join_rooted [OF r, of sub] by (simp add: withSubpath_def)
  then show ?thesis using more_segs_below [OF assms(1) rooted_segs_plain] by (simp add: below_def)
qed

theorem subpath_stays_inside_witness:
  "withSubpath ''/mnt/a'' ''../../etc'' = Clean ''/mnt/a''
   \<or> HasPrefix (withSubpath ''/mnt/a'' ''../../etc'') (TrimSuffix (Clean ''/mnt/a'') ''/'' @ ''/'')"
proof -
  have "HasPrefix ''/mnt/a'' ''/''" "''../../etc'' \<noteq> ([] :: string)" by (simp_all add: HasPrefix_def)
  then show ?thesis by (rule subpath_stays_inside [of "''/mnt/a''" "''../../etc''"])
qed

text \<open>
  storage never leaks a mount. Whatever a resolution of a share meets (a failed mount, a missing
  or unreadable subpath, a folder that cannot be created), releasing the storage afterwards leaves
  the reference counts of all targets as they were before.
\<close>

theorem resolve_release_balances:
  assumes "mgr_ok m" "\<not> smHeld s" "smb_Resolve mt cfg ca uq os s m = (r, s', m')" "smb_Release now s' m' = (s'', m'')"
  shows "mgr_refs tid m'' = mgr_refs tid m \<and> \<not> smHeld s''"
proof -
  have "0 \<le> mgr_refs (tgID (smTarget s)) m"
    using assms(1) by (auto simp: mgr_ok_def mgr_refs_def split: option.split)
  moreover have "smb_weight s = 0" using assms(2) by (simp add: smb_weight_def)
  ultimately show ?thesis
    using share.resolve_then_release(1) [OF assms(1) _ _ assms(3,4), where x = "s\<lparr>smTarget := (smTarget s)\<lparr>tgID := tid\<rparr>\<rparr>"]
      share.resolve_then_release(2) [OF assms(1) _ _ assms(3,4)]
    by (auto simp: smb_weight_def split: if_splits)
qed

lemma stat_mkdir [simp]:
  "statBounded (os\<lparr>osMkdirAll := mk\<rparr>) = statBounded os" "stat_now (os\<lparr>osMkdirAll := mk\<rparr>) = stat_now os"
  by (simp_all add: statBounded_def stat_now_def fun_eq_iff cong: option.case_cong)

lemma check_mkdir [simp]:
  "rootExists (os\<lparr>osMkdirAll := mk\<rparr>) = rootExists os" "local_check (os\<lparr>osMkdirAll := mk\<rparr>) = local_check os"
proof -
  show r: "rootExists (os\<lparr>osMkdirAll := mk\<rparr>) = rootExists os" by (simp add: rootExists_def fun_eq_iff)
  show "local_check (os\<lparr>osMkdirAll := mk\<rparr>) = local_check os" by (intro ext) (simp only: local_check_def stat_mkdir r)
qed

lemma smb_Resolve_no_create:
  "\<not> smCreate s \<Longrightarrow> smb_Resolve mt cfg ca uq (os\<lparr>osMkdirAll := mk\<rparr>) s m = smb_Resolve mt cfg ca uq os s m"
  by (auto simp: smb_Resolve_def Let_def split: prod.split sum.split option.split)

lemma local_Resolve_no_create:
  "\<not> lsCreate l \<Longrightarrow> local_Resolve (os\<lparr>osMkdirAll := mk\<rparr>) uq now l h w = local_Resolve os uq now l h w"
  "\<not> lsCreate l \<Longrightarrow> snd (snd (local_Resolve os uq now l h w)) = w"
  by (auto simp: local_Resolve_def Let_def split: option.split)

text \<open>
  a folder is made only where that was allowed. Without \<open>AllowCreate\<close> the resolution of either
  kind of storage is the same whatever creating a directory would do, so it is never called.
\<close>

theorem nothing_created_unasked:
  "smb_Resolve mt cfg ca uq (os\<lparr>osMkdirAll := mk\<rparr>) (s\<lparr>smCreate := False\<rparr>) m
     = smb_Resolve mt cfg ca uq os (s\<lparr>smCreate := False\<rparr>) m
   \<and> local_Resolve (os\<lparr>osMkdirAll := mk\<rparr>) uq now (l\<lparr>lsCreate := False\<rparr>) h w
     = local_Resolve os uq now (l\<lparr>lsCreate := False\<rparr>) h w
   \<and> snd (snd (local_Resolve os uq now (l\<lparr>lsCreate := False\<rparr>) h w)) = w"
by (simp add: smb_Resolve_no_create local_Resolve_no_create)

text \<open>The witness of the balance: the manager of the mount theory's example, a subpath that is missing.\<close>

definition missing_subpath :: "mount_info list os_calls" where
  "missing_subpath = \<lparr>osStat = (\<lambda>p w. Some (Inl (new_error ''no such file'' [ErrNotExist]))),
     osMkdirAll = (\<lambda>p w. (Some (Inl (new_error ''read-only file system'' [])), w)), osCtx = new_error ''context deadline exceeded'' [DeadlineExceeded]\<rparr>"

definition first_use :: smb where
  "first_use = \<lparr>smTarget = (guest_target ''h1'')\<lparr>Subpath := ''backup''\<rparr>, smRoot = [], smHeld = False, smCreate = True\<rparr>"

definition first_try :: "(goerr + string) \<times> smb \<times> mount_info list mgr" where
  "first_try = smb_Resolve good_server sample_config sample_call id missing_subpath first_use (msMgr (mgr_start []))"

theorem resolve_release_balances_witness:
  "mgr_refs ''a1'' (snd (smb_Release 5 (fst (snd first_try)) (snd (snd first_try)))) = 0
   \<and> \<not> smHeld (fst (smb_Release 5 (fst (snd first_try)) (snd (snd first_try))))"
proof -
  have "mgr_ok (msMgr (mgr_start []))" "\<not> smHeld first_use" by (simp_all add: mgr_ok_def mgr_start_def first_use_def)
  moreover have "smb_Resolve good_server sample_config sample_call id missing_subpath first_use (msMgr (mgr_start []))
      = (fst first_try, fst (snd first_try), snd (snd first_try))" by (simp add: first_try_def)
  moreover have "mgr_refs ''a1'' (msMgr (mgr_start [])) = 0" by (simp add: mgr_refs_def mgr_start_def)
  ultimately show ?thesis using resolve_release_balances by (metis prod.collapse)
qed

end
