(* ===== verification/Jobs.thy ===== *)
theory Jobs
  imports Store_Types Paths
begin

text \<open>
  Job definitions and what makes them valid: \<open>src/internal/store/jobs.go\<close>, the filter rules of
  \<open>filters.go\<close> and \<open>global_filters.go\<close>, and the schedules of \<open>schedule.go\<close>. The cron library is a
  parameter.
\<close>

text \<open>A Go string type with named constants: one of them, or any other text.\<close>

datatype 'a goenum = Val 'a | Raw string

datatype compare_method = CompareFast | CompareContent

datatype filter_scope = ScopeJob | ScopeTarget

datatype filter_direction = FilterInclude | FilterExclude

datatype filter_source = SourceInline | SourceListFile | SourceJSONFile

datatype filter_error_policy = FilterFailRun | FilterIgnoreRule

abbreviation unset :: "'a goenum" where "unset \<equiv> Raw []"

definition or_default :: "'a \<Rightarrow> 'a goenum \<Rightarrow> 'a goenum" where
  "or_default d v = (if v = unset then Val d else v)"

text \<open>The first error of a sequence of checks with early return.\<close>

fun first_error :: "goerr option list \<Rightarrow> goerr option" where
  "first_error [] = None"
| "first_error (Some e # es) = Some e"
| "first_error (None # es) = first_error es"

lemma first_error_None [simp]: "first_error es = None \<longleftrightarrow> (\<forall>e \<in> set es. e = None)"
  by (induction es rule: first_error.induct) auto

abbreviation fail :: "string \<Rightarrow> goerr option" where "fail msg \<equiv> Some (new_error msg [])"
abbreviation reject_if :: "bool \<Rightarrow> string \<Rightarrow> goerr option" where "reject_if b msg \<equiv> (if b then fail msg else None)"

text \<open>The \<open>default\<close> branch of a switch over the constants.\<close>

definition known :: "(string \<Rightarrow> string) \<Rightarrow> string \<Rightarrow> 'a goenum \<Rightarrow> goerr option" where
  "known uq prefx v = (case v of Val _ \<Rightarrow> None | Raw s \<Rightarrow> fail (prefx @ '', got '' @ fmt_q uq s))"

lemma known_None [simp]: "known uq p v = None \<longleftrightarrow> (\<exists>x. v = Val x)"
  by (cases v) (auto simp: known_def)


section \<open>Filter rules\<close>

record filter_rule =
  frID :: string
  frScope :: "filter_scope goenum"
  frScopeTarget :: string
  frDirection :: "filter_direction goenum"
  frSource :: "filter_source goenum"
  frPatterns :: "string list"
  frFilePath :: string
  frJSONKey :: string
  frCaseSensitive :: bool
  frOnError :: "filter_error_policy goenum"

definition TargetRefPrefix :: string where "TargetRefPrefix = ''target://''"

definition ParseTargetRef :: "string \<Rightarrow> (string \<times> string) option" where
  "ParseTargetRef filePath =
     (if \<not> HasPrefix filePath TargetRefPrefix then None
      else
        let (targetID, path, found) = Cut1 (TrimPrefix filePath TargetRefPrefix) slash
        in if \<not> found \<or> targetID = [] \<or> path = [] then None else Some (targetID, path))"

definition rule_ApplyDefaults :: "filter_rule \<Rightarrow> filter_rule" where
  "rule_ApplyDefaults f =
     f\<lparr>frScope := or_default ScopeJob (frScope f), frOnError := or_default FilterFailRun (frOnError f)\<rparr>"

definition either :: "(string \<Rightarrow> string) \<Rightarrow> string list \<Rightarrow> string" where
  "either uq ts =
     (case map (fmt_q uq) ts of
        [a] \<Rightarrow> a | [a, b] \<Rightarrow> a @ '' or '' @ b | [a, b, c] \<Rightarrow> a @ '', '' @ b @ '' or '' @ c | _ \<Rightarrow> [])"

definition scope_check :: "(string \<Rightarrow> string) \<Rightarrow> filter_rule \<Rightarrow> goerr option" where
  "scope_check uq f =
     (case frScope f of
        Val ScopeJob \<Rightarrow>
          reject_if (frScopeTarget f \<noteq> []) (''scope_target_id is only valid when scope is '' @ fmt_q uq ''target'')
      | Val ScopeTarget \<Rightarrow>
          reject_if (frScopeTarget f = []) (''scope_target_id is required when scope is '' @ fmt_q uq ''target'')
      | Raw s \<Rightarrow> known uq (''scope must be '' @ either uq [''job'', ''target'']) (frScope f))"

definition source_check :: "(string \<Rightarrow> string) \<Rightarrow> filter_rule \<Rightarrow> goerr option" where
  "source_check uq f =
     (case frSource f of
        Val SourceInline \<Rightarrow>
          first_error [reject_if (frPatterns f = []) ''an inline rule needs at least one pattern'',
            reject_if (frFilePath f \<noteq> [] \<or> frJSONKey f \<noteq> []) ''file_path and json_key are only valid for a listfile or jsonfile rule'']
      | Val SourceListFile \<Rightarrow>
          first_error [reject_if (TrimSpace (frFilePath f) = []) ''a listfile rule needs file_path'',
            reject_if (frJSONKey f \<noteq> []) ''json_key is only valid for a jsonfile rule'']
      | Val SourceJSONFile \<Rightarrow>
          first_error [reject_if (TrimSpace (frFilePath f) = []) ''a jsonfile rule needs file_path'',
            reject_if (TrimSpace (frJSONKey f) = []) ''a jsonfile rule needs json_key, the dot-path to the pattern list inside the file'']
      | Raw s \<Rightarrow> known uq (''source must be '' @ either uq [''inline'', ''listfile'', ''jsonfile'']) (frSource f))"

definition rule_Validate :: "(string \<Rightarrow> string) \<Rightarrow> filter_rule \<Rightarrow> goerr option" where
  "rule_Validate uq f =
     first_error
       [scope_check uq f,
        known uq (''direction must be '' @ either uq [''include'', ''exclude'']) (frDirection f),
        known uq (''on_error must be '' @ either uq [''fail_run'', ''ignore_rule'']) (frOnError f),
        source_check uq f,
        (let ref = TrimSpace (frFilePath f) in
         reject_if (frSource f \<noteq> Val SourceInline \<and> HasPrefix ref TargetRefPrefix \<and> ParseTargetRef ref = None)
           (''file_path '' @ fmt_q uq (frFilePath f) @ '' is not a valid target reference; expected target://<target-id>/path/to/file''))]"

definition direction_text :: "filter_direction goenum \<Rightarrow> string" where
  "direction_text d = (case d of Val FilterInclude \<Rightarrow> ''include'' | Val FilterExclude \<Rightarrow> ''exclude'' | Raw s \<Rightarrow> s)"

definition rule_Describe :: "filter_rule \<Rightarrow> string" where
  "rule_Describe f =
     (case frSource f of
        Val SourceInline \<Rightarrow> direction_text (frDirection f) @ '' (inline, '' @ fmt_nat (length (frPatterns f)) @ '' pattern(s))''
      | Val SourceListFile \<Rightarrow> direction_text (frDirection f) @ '' (list file '' @ frFilePath f @ '')''
      | _ \<Rightarrow> direction_text (frDirection f) @ '' (JSON file '' @ frFilePath f @ '' key '' @ frJSONKey f @ '')'')"

record global_rule =
  grID :: string
  grSource :: "filter_source goenum"
  grPatterns :: "string list"
  grFilePath :: string
  grJSONKey :: string
  grCaseSensitive :: bool
  grOnError :: "filter_error_policy goenum"

definition AsFilterRule :: "global_rule \<Rightarrow> filter_rule" where
  "AsFilterRule g =
     \<lparr>frID = grID g, frScope = Val ScopeJob, frScopeTarget = [], frDirection = Val FilterExclude, frSource = grSource g,
      frPatterns = grPatterns g, frFilePath = grFilePath g, frJSONKey = grJSONKey g, frCaseSensitive = grCaseSensitive g,
      frOnError = grOnError g\<rparr>"

definition global_ApplyDefaults :: "global_rule \<Rightarrow> global_rule" where
  "global_ApplyDefaults g = g\<lparr>grOnError := or_default FilterFailRun (grOnError g)\<rparr>"

definition global_Validate :: "(string \<Rightarrow> string) \<Rightarrow> global_rule \<Rightarrow> goerr option" where
  "global_Validate uq g = rule_Validate uq (rule_ApplyDefaults (AsFilterRule g))"

definition global_Describe :: "global_rule \<Rightarrow> string" where
  "global_Describe g = ''global '' @ rule_Describe (AsFilterRule g)"


section \<open>Schedules\<close>

text \<open>\<open>Duration.String\<close>: the fraction of \<open>v\<close> in units of ten to the \<open>prec\<close>, without trailing zeros.\<close>

fun padded :: "nat \<Rightarrow> nat \<Rightarrow> string" where
  "padded 0 v = []"
| "padded (Suc n) v = padded n (v div 10) @ [digit_char (v mod 10)]"

definition fmtFrac :: "nat \<Rightarrow> nat \<Rightarrow> string" where
  "fmtFrac v prec =
     (let ds = rev (dropWhile (\<lambda>c. c = CHR ''0'') (rev (padded prec v))) in if ds = [] then [] else CHR ''.'' # ds)"

definition Duration_String :: "duration \<Rightarrow> string" where
  "Duration_String d =
     (let u = nat \<bar>d\<bar>; sign = (if d < 0 then ''-'' else []);
          unit = (\<lambda>prec name. fmt_nat (u div 10 ^ prec) @ fmtFrac u prec @ name)
      in if u = 0 then ''0s''
         else if u < 1000 then sign @ unit 0 ''ns''
         else if u < 1000000 then sign @ unit 3 ([CHR 0xC2, CHR 0xB5] @ ''s'')
         else if u < 1000000000 then sign @ unit 6 ''ms''
         else
           let secs = u div 1000000000; mins = secs div 60; hours = mins div 60;
               s = fmt_nat (secs mod 60) @ fmtFrac u 9 @ ''s''
           in sign @ (if mins = 0 then s
                      else if hours = 0 then fmt_nat (mins mod 60) @ ''m'' @ s
                      else fmt_nat hours @ ''h'' @ fmt_nat (mins mod 60) @ ''m'' @ s))"

text \<open>What the cron library gives for an expression: the delay of a constant schedule, and the
  first firing after an instant (the zero time: never).\<close>

record schedule =
  scDelay :: "duration option"
  scNext :: "gotime \<Rightarrow> gotime"

type_synonym cron = "string \<Rightarrow> goerr + schedule"

definition MinInterval :: duration where "MinInterval = 60000000000"

definition ParseSchedule :: "(string \<Rightarrow> string) \<Rightarrow> cron \<Rightarrow> string \<Rightarrow> goerr + schedule" where
  "ParseSchedule uq cron expr =
     (let trimmed = TrimSpace expr; dash = '' '' @ [CHR 0xE2, CHR 0x80, CHR 0x94] @ '' '' in
      if trimmed = [] then Inl (new_error ''a schedule is required'' [])
      else case cron trimmed of
        Inl e \<Rightarrow>
          Inl \<lparr>err_text = fmt_q uq trimmed @ '' is not a valid schedule: '' @ err_text e @ ''. Use five fields'' @ dash
                 @ ''minute hour day-of-month month day-of-week'' @ dash
                 @ ''for example '' @ fmt_q uq ''0 2 * * *'' @ '' for 2am daily, or a shorthand like '' @ fmt_q uq ''@daily''
                 @ '' or '' @ fmt_q uq ''@every 6h'', err_chain = err_chain e\<rparr>
      | Inr sc \<Rightarrow>
          (case scDelay sc of
             Some d \<Rightarrow>
               if d < MinInterval
               then Inl (new_error (fmt_q uq trimmed @ '' repeats every '' @ Duration_String d
                      @ '', which is more often than this can run. The shortest interval is '' @ Duration_String MinInterval) [])
               else Inr sc
           | None \<Rightarrow> Inr sc))"

definition NextRun :: "(string \<Rightarrow> string) \<Rightarrow> cron \<Rightarrow> string \<Rightarrow> gotime \<Rightarrow> goerr + gotime" where
  "NextRun uq cron expr after =
     (case ParseSchedule uq cron expr of Inl e \<Rightarrow> Inl e | Inr sc \<Rightarrow> Inr (scNext sc after))"


section \<open>Jobs\<close>

record job_destination =
  jdTarget :: string
  jdSubpath :: string

record job =
  jbID :: string
  jbName :: string
  jbSourceTarget :: string
  jbSourceSubpath :: string
  jbMode :: "sync_mode goenum"
  jbCompare :: "compare_method goenum"
  jbToleranceSec :: int
  jbIgnoreDSTHour :: bool
  jbWorkers :: int
  jbOnError :: "error_policy goenum"
  jbDeletePolicy :: "delete_policy goenum"
  jbLogEveryFile :: bool
  jbUnavailable :: "unavailable_policy goenum"
  jbPromptTimeoutSec :: int
  jbPromptFallback :: "prompt_fallback goenum"
  jbCreateDestDirs :: "create_dest_dirs goenum"
  jbParallel :: bool
  jbScheduleCron :: string
  jbEnabled :: bool
  jbNextRunAt :: gotime
  jbDestinations :: "job_destination list"
  jbFilters :: "filter_rule list"

definition MinPromptTimeoutSec :: int where "MinPromptTimeoutSec = 5"
definition MaxPromptTimeoutSec :: int where "MaxPromptTimeoutSec = 86400"
definition DefaultPromptTimeoutSec :: int where "DefaultPromptTimeoutSec = 600"
definition MinWorkers :: int where "MinWorkers = 1"
definition MaxWorkers :: int where "MaxWorkers = 16"

definition job_Tolerance :: "job \<Rightarrow> duration" where
  "job_Tolerance j = wrap64 (jbToleranceSec j * 1000000000)"

definition job_ApplyDefaults :: "job \<Rightarrow> job" where
  "job_ApplyDefaults j =
     j\<lparr>jbMode := or_default ModeMirror (jbMode j), jbCompare := or_default CompareFast (jbCompare j),
       jbWorkers := (if jbWorkers j = 0 then 1 else jbWorkers j),
       jbOnError := or_default ErrorPolicySkip (jbOnError j),
       jbDeletePolicy := or_default DeletePolicySkipDeletes (jbDeletePolicy j),
       jbToleranceSec := (if jbToleranceSec j = 0 then 2 else jbToleranceSec j),
       jbUnavailable := or_default PolicySkip (jbUnavailable j),
       jbPromptTimeoutSec := (if jbPromptTimeoutSec j = 0 then DefaultPromptTimeoutSec else jbPromptTimeoutSec j),
       jbPromptFallback := or_default FallbackSkip (jbPromptFallback j),
       jbCreateDestDirs := or_default CreateDirsAsk (jbCreateDestDirs j),
       jbFilters := map rule_ApplyDefaults (jbFilters j)\<rparr>"

definition ValidateSubpath :: "(string \<Rightarrow> string) \<Rightarrow> string \<Rightarrow> string \<Rightarrow> goerr option" where
  "ValidateSubpath uq field subpath =
     (if subpath = [] then None
      else if HasPrefix subpath ''/'' then fail (field @ '' must be relative to the target root, not an absolute path'')
      else if ''..'' \<in> set (Split1 subpath slash) then fail (field @ '' must not contain '' @ fmt_q uq ''..'' @ '' path segments'')
      else None)"

text \<open>\<open>strings.Trim\<close> with the slash as its cutset.\<close>

definition trim_slashes :: "string \<Rightarrow> string" where
  "trim_slashes s = rev (dropWhile (\<lambda>c. c = slash) (rev (dropWhile (\<lambda>c. c = slash) s)))"

definition overlaps :: "string \<Rightarrow> string \<Rightarrow> bool" where
  "overlaps a b =
     (let a = trim_slashes (Clean (''/'' @ a)); b = trim_slashes (Clean (''/'' @ b))
      in if a = b then True
         else if a = [] \<or> b = [] then True
         else HasPrefix a (b @ ''/'') \<or> HasPrefix b (a @ ''/''))"

definition hasDestination :: "job \<Rightarrow> string \<Rightarrow> bool" where
  "hasDestination j targetID \<longleftrightarrow> list_ex (\<lambda>d. jdTarget d = targetID) (jbDestinations j)"

fun check_destinations :: "(string \<Rightarrow> string) \<Rightarrow> job \<Rightarrow> string list \<Rightarrow> job_destination list \<Rightarrow> goerr option" where
  "check_destinations uq j seen [] = None"
| "check_destinations uq j seen (d # ds) =
     first_error
       [reject_if (jdTarget d = []) ''each destination needs a target'',
        ValidateSubpath uq ''dest_subpath'' (jdSubpath d),
        reject_if (jdTarget d = jbSourceTarget j \<and> overlaps (jbSourceSubpath j) (jdSubpath d))
          ''a job's destination must not be the same location as its source, or nested inside it'',
        reject_if (jdTarget d \<in> set seen)
          ''a job cannot have two destinations on the same target; use one destination per target'',
        check_destinations uq j (jdTarget d # seen) ds]"

fun check_filters :: "(string \<Rightarrow> string) \<Rightarrow> job \<Rightarrow> nat \<Rightarrow> filter_rule list \<Rightarrow> goerr option" where
  "check_filters uq j i [] = None"
| "check_filters uq j i (r # rs) =
     first_error
       [map_option (wrap (''filter rule '' @ fmt_nat (Suc i) @ '': '')) (rule_Validate uq r),
        reject_if (frScope r = Val ScopeTarget \<and> \<not> hasDestination j (frScopeTarget r))
          (''filter rule '' @ fmt_nat (Suc i) @ '' is scoped to target '' @ frScopeTarget r @ '', which is not a destination of this job''),
        check_filters uq j (Suc i) rs]"

definition check_mode :: "(string \<Rightarrow> string) \<Rightarrow> sync_mode goenum \<Rightarrow> goerr option" where
  "check_mode uq m =
     (if m = Raw ''twoway''
      then fail (''two-way sync is not supported (SPEC.md '' @ [CHR 0xC2, CHR 0xA7] @ ''14.1); use '' @ either uq [''mirror'', ''update''])
      else known uq (''mode must be '' @ either uq [''mirror'', ''update'']) m)"

definition check_compare :: "(string \<Rightarrow> string) \<Rightarrow> compare_method goenum \<Rightarrow> goerr option" where
  "check_compare uq c =
     (case c of
        Val CompareFast \<Rightarrow> None
      | Val CompareContent \<Rightarrow> fail (''compare '' @ fmt_q uq ''content'' @ '' is not implemented yet; use '' @ fmt_q uq ''fast'')
      | Raw s \<Rightarrow> known uq (''compare must be '' @ either uq [''fast'']) c)"

definition job_Validate :: "(string \<Rightarrow> string) \<Rightarrow> cron \<Rightarrow> job \<Rightarrow> goerr option" where
  "job_Validate uq cron j =
     first_error
       [reject_if (TrimSpace (jbName j) = []) ''name is required'',
        reject_if (jbSourceTarget j = []) ''a source target is required'',
        ValidateSubpath uq ''source_subpath'' (jbSourceSubpath j),
        check_mode uq (jbMode j),
        check_compare uq (jbCompare j),
        known uq (''on_error must be '' @ either uq [''skip'', ''abort'']) (jbOnError j),
        known uq (''delete_policy must be '' @ either uq [''skip_deletes'', ''proceed'']) (jbDeletePolicy j),
        (if jbScheduleCron j \<noteq> [] then case ParseSchedule uq cron (jbScheduleCron j) of Inl e \<Rightarrow> Some e | Inr _ \<Rightarrow> None else None),
        reject_if (jbWorkers j < MinWorkers \<or> jbWorkers j > MaxWorkers)
          (''workers must be between '' @ fmt_int MinWorkers @ '' and '' @ fmt_int MaxWorkers @ '', got '' @ fmt_int (jbWorkers j)),
        reject_if (jbToleranceSec j < 0) (''compare_tolerance_sec must not be negative, got '' @ fmt_int (jbToleranceSec j)),
        known uq (''unavailable_policy must be '' @ either uq [''skip'', ''abort'', ''prompt'']) (jbUnavailable j),
        known uq (''prompt_fallback must be '' @ either uq [''skip'', ''abort'']) (jbPromptFallback j),
        known uq (''create_dest_dirs must be '' @ either uq [''ask'', ''always'', ''never'']) (jbCreateDestDirs j),
        reject_if (jbPromptTimeoutSec j < MinPromptTimeoutSec \<or> jbPromptTimeoutSec j > MaxPromptTimeoutSec)
          (''prompt_timeout_sec must be between '' @ fmt_int MinPromptTimeoutSec @ '' and '' @ fmt_int MaxPromptTimeoutSec
             @ '', got '' @ fmt_int (jbPromptTimeoutSec j)),
        reject_if (jbDestinations j = []) ''at least one destination is required'',
        check_destinations uq j [] (jbDestinations j),
        check_filters uq j 0 (jbFilters j)]"

definition RefreshNextRun :: "(string \<Rightarrow> string) \<Rightarrow> cron \<Rightarrow> gotime \<Rightarrow> job \<Rightarrow> job" where
  "RefreshNextRun uq cron now j =
     (if \<not> jbEnabled j \<or> jbScheduleCron j = [] then j\<lparr>jbNextRunAt := zero_time\<rparr>
      else case NextRun uq cron (jbScheduleCron j) now of
             Inr next \<Rightarrow> j\<lparr>jbNextRunAt := next\<rparr>
           | Inl _ \<Rightarrow> j)"


section \<open>What a valid job has\<close>

definition relative_subpath :: "string \<Rightarrow> bool" where
  "relative_subpath s \<longleftrightarrow> \<not> HasPrefix s ''/'' \<and> ''..'' \<notin> set (Split1 s slash)"

lemma ValidateSubpath_None: "ValidateSubpath uq field s = None \<longleftrightarrow> relative_subpath s"
  by (auto simp: ValidateSubpath_def relative_subpath_def HasPrefix_def)

lemma check_destinations_None:
  "check_destinations uq j seen ds = None \<longleftrightarrow>
     distinct (map jdTarget ds) \<and> set (map jdTarget ds) \<inter> set seen = {}
     \<and> (\<forall>d \<in> set ds. jdTarget d \<noteq> [] \<and> relative_subpath (jdSubpath d)
          \<and> (jdTarget d = jbSourceTarget j \<longrightarrow> \<not> overlaps (jbSourceSubpath j) (jdSubpath d)))"
  by (induction ds arbitrary: seen) (auto simp: ValidateSubpath_None split: if_splits)

lemma check_filters_None:
  "check_filters uq j i rs = None \<longleftrightarrow>
     (\<forall>r \<in> set rs. rule_Validate uq r = None \<and> (frScope r = Val ScopeTarget \<longrightarrow> hasDestination j (frScopeTarget r)))"
  by (induction rs arbitrary: i) auto


text \<open>A rule a run can compile, for one of the job's destinations or for all of them.\<close>

definition rule_ok :: "job \<Rightarrow> filter_rule \<Rightarrow> bool" where
  "rule_ok j r \<longleftrightarrow>
     (frScope r = Val ScopeJob \<or> frScope r = Val ScopeTarget \<and> hasDestination j (frScopeTarget r))
     \<and> (\<exists>d. frDirection r = Val d) \<and> (\<exists>p. frOnError r = Val p)
     \<and> (frSource r = Val SourceInline \<and> frPatterns r \<noteq> []
        \<or> frSource r = Val SourceListFile \<and> TrimSpace (frFilePath r) \<noteq> []
        \<or> frSource r = Val SourceJSONFile \<and> TrimSpace (frFilePath r) \<noteq> [] \<and> TrimSpace (frJSONKey r) \<noteq> [])"

lemma rule_Validate_ok:
  assumes "rule_Validate uq r = None" "frScope r = Val ScopeTarget \<Longrightarrow> hasDestination j (frScopeTarget r)"
  shows "rule_ok j r"
proof -
  have v: "scope_check uq r = None" "source_check uq r = None" "\<exists>d. frDirection r = Val d" "\<exists>p. frOnError r = Val p"
    using assms(1) by (simp_all add: rule_Validate_def)
  have "frScope r = Val ScopeJob \<or> frScope r = Val ScopeTarget"
    using v(1) by (auto simp: scope_check_def known_def split: goenum.splits filter_scope.splits)
  moreover have "frSource r = Val SourceInline \<and> frPatterns r \<noteq> []
        \<or> frSource r = Val SourceListFile \<and> TrimSpace (frFilePath r) \<noteq> []
        \<or> frSource r = Val SourceJSONFile \<and> TrimSpace (frFilePath r) \<noteq> [] \<and> TrimSpace (frJSONKey r) \<noteq> []"
    using v(2) by (auto simp: source_check_def known_def split: goenum.splits filter_source.splits if_splits)
  ultimately show ?thesis using v(3,4) assms(2) by (auto simp: rule_ok_def)
qed

record job_settings =
  jsMode :: sync_mode
  jsOnError :: error_policy
  jsDeletePolicy :: delete_policy
  jsUnavailable :: unavailable_policy
  jsPromptFallback :: prompt_fallback
  jsCreateDestDirs :: create_dest_dirs

text \<open>The settings of a job as the runner switches on them.\<close>

definition settings_of :: "job \<Rightarrow> job_settings \<Rightarrow> bool" where
  "settings_of j st \<longleftrightarrow> jbMode j = Val (jsMode st) \<and> jbOnError j = Val (jsOnError st) \<and> jbDeletePolicy j = Val (jsDeletePolicy st)
     \<and> jbUnavailable j = Val (jsUnavailable st) \<and> jbPromptFallback j = Val (jsPromptFallback st)
     \<and> jbCreateDestDirs j = Val (jsCreateDestDirs st)"

section \<open>Properties\<close>

text \<open>
  a valid job is well-formed. Every setting of a job that passes validation is one of its
  constants, the worker count and the prompt timeout lie in their ranges, it has destinations,
  one per target and each at a relative path that does not climb, none at or around its source,
  its rules can be compiled and name its own destinations, and its schedule, if it has one,
  parses.
\<close>

theorem valid_job:
  assumes "job_Validate uq cron j = None"
  shows "(\<exists>st. settings_of j st) \<and> jbCompare j = Val CompareFast
    \<and> 1 \<le> jbWorkers j \<and> jbWorkers j \<le> 16 \<and> 0 \<le> jbToleranceSec j \<and> 5 \<le> jbPromptTimeoutSec j \<and> jbPromptTimeoutSec j \<le> 86400
    \<and> jbDestinations j \<noteq> [] \<and> distinct (map jdTarget (jbDestinations j)) \<and> relative_subpath (jbSourceSubpath j)
    \<and> list_all (\<lambda>d. relative_subpath (jdSubpath d)
         \<and> \<not> (jdTarget d = jbSourceTarget j \<and> overlaps (jbSourceSubpath j) (jdSubpath d))) (jbDestinations j)
    \<and> list_all (rule_ok j) (jbFilters j)
    \<and> (jbScheduleCron j = [] \<or> (\<exists>sc. ParseSchedule uq cron (jbScheduleCron j) = Inr sc))"
proof -
  have m: "\<exists>x. jbMode j = Val x" "\<exists>x. jbOnError j = Val x" "\<exists>x. jbDeletePolicy j = Val x" "\<exists>x. jbUnavailable j = Val x"
    "\<exists>x. jbPromptFallback j = Val x" "\<exists>x. jbCreateDestDirs j = Val x"
    using assms by (simp_all add: job_Validate_def check_mode_def split: if_splits)
  then obtain a b d e f g where "jbMode j = Val a" "jbOnError j = Val b" "jbDeletePolicy j = Val d" "jbUnavailable j = Val e"
    "jbPromptFallback j = Val f" "jbCreateDestDirs j = Val g" by blast
  then have "settings_of j \<lparr>jsMode = a, jsOnError = b, jsDeletePolicy = d, jsUnavailable = e, jsPromptFallback = f, jsCreateDestDirs = g\<rparr>"
    by (simp add: settings_of_def)
  moreover have "jbCompare j = Val CompareFast"
  proof -
    have "check_compare uq (jbCompare j) = None" using assms by (simp add: job_Validate_def)
    then show ?thesis by (auto simp: check_compare_def known_def split: goenum.splits compare_method.splits)
  qed
  moreover have "check_destinations uq j [] (jbDestinations j) = None" "check_filters uq j 0 (jbFilters j) = None"
    using assms by (simp_all add: job_Validate_def)
  then have "distinct (map jdTarget (jbDestinations j))"
    "list_all (\<lambda>d. relative_subpath (jdSubpath d) \<and> \<not> (jdTarget d = jbSourceTarget j \<and> overlaps (jbSourceSubpath j) (jdSubpath d))) (jbDestinations j)"
    "list_all (rule_ok j) (jbFilters j)"
    by (auto simp: check_destinations_None check_filters_None list_all_iff intro: rule_Validate_ok)
  moreover have "relative_subpath (jbSourceSubpath j)"
    using assms by (simp add: job_Validate_def ValidateSubpath_None)
  moreover have "jbScheduleCron j = [] \<or> (\<exists>sc. ParseSchedule uq cron (jbScheduleCron j) = Inr sc)"
    using assms by (auto simp: job_Validate_def split: sum.splits if_splits)
  moreover have "1 \<le> jbWorkers j \<and> jbWorkers j \<le> 16 \<and> 0 \<le> jbToleranceSec j \<and> 5 \<le> jbPromptTimeoutSec j \<and> jbPromptTimeoutSec j \<le> 86400
      \<and> jbDestinations j \<noteq> []"
    using assms by (simp add: job_Validate_def MinWorkers_def MaxWorkers_def MinPromptTimeoutSec_def MaxPromptTimeoutSec_def split: if_splits)
  ultimately show ?thesis by blast
qed

text \<open>A job as the API hands it over, with everything left out that has a default.\<close>

definition sample_job :: job where
  "sample_job = job_ApplyDefaults
     \<lparr>jbID = ''j1'', jbName = ''nightly'', jbSourceTarget = ''a1'', jbSourceSubpath = ''media'', jbMode = unset, jbCompare = unset,
      jbToleranceSec = 0, jbIgnoreDSTHour = False, jbWorkers = 0, jbOnError = unset, jbDeletePolicy = unset, jbLogEveryFile = False,
      jbUnavailable = unset, jbPromptTimeoutSec = 0, jbPromptFallback = unset, jbCreateDestDirs = unset, jbParallel = False,
      jbScheduleCron = [], jbEnabled = True, jbNextRunAt = zero_time,
      jbDestinations = [\<lparr>jdTarget = ''b2'', jdSubpath = ''backup''\<rparr>, \<lparr>jdTarget = ''a1'', jdSubpath = ''copy''\<rparr>],
      jbFilters = [\<lparr>frID = ''r1'', frScope = unset, frScopeTarget = [], frDirection = Val FilterExclude, frSource = Val SourceInline,
        frPatterns = [''*.tmp''], frFilePath = [], frJSONKey = [], frCaseSensitive = False, frOnError = unset\<rparr>]\<rparr>"

lemma sample_job_valid: "job_Validate id cron sample_job = None"
proof -
  have "TrimSpace ''nightly'' = ''nightly''" by (simp add: TrimSpace_graphic graphic_def)
  moreover have "TrimSpace [] = []" by (rule TrimSpace_graphic) simp
  moreover have "\<not> overlaps ''media'' ''copy''" by code_simp
  ultimately show ?thesis
    by (simp add: job_Validate_def sample_job_def job_ApplyDefaults_def rule_ApplyDefaults_def or_default_def
        ValidateSubpath_def check_mode_def check_compare_def known_def rule_Validate_def scope_check_def source_check_def
        HasPrefix_def TargetRefPrefix_def MinWorkers_def MaxWorkers_def MinPromptTimeoutSec_def MaxPromptTimeoutSec_def DefaultPromptTimeoutSec_def)
qed

theorem valid_job_witness: "1 \<le> jbWorkers sample_job \<and> distinct (map jdTarget (jbDestinations sample_job))"
  using valid_job [OF sample_job_valid] by blast

lemma check_tolerance:
  "check_destinations uq (j\<lparr>jbToleranceSec := n\<rparr>) seen ds = check_destinations uq j seen ds"
  "check_filters uq (j\<lparr>jbToleranceSec := n\<rparr>) i rs = check_filters uq j i rs"
proof -
  show "check_destinations uq (j\<lparr>jbToleranceSec := n\<rparr>) seen ds = check_destinations uq j seen ds"
    by (induction ds arbitrary: seen) simp_all
  show "check_filters uq (j\<lparr>jbToleranceSec := n\<rparr>) i rs = check_filters uq j i rs"
    by (induction rs arbitrary: i) (simp_all add: hasDestination_def)
qed

text \<open>
  an accepted tolerance can wrap. Validation sets no upper bound on the tolerance; from
  9223372037 seconds the duration is negative, so no two files ever compare as the same.
\<close>

theorem tolerance_can_wrap:
  "job_Validate id (\<lambda>e. Inl (new_error e [])) (sample_job\<lparr>jbToleranceSec := 9223372037\<rparr>) = None
   \<and> job_Tolerance (sample_job\<lparr>jbToleranceSec := 9223372037\<rparr>) < 0"
proof -
  have "job_Validate id cron (sample_job\<lparr>jbToleranceSec := 9223372037\<rparr>) = None" for cron
    using sample_job_valid [of cron] by (auto simp: job_Validate_def check_tolerance split: if_splits)
  then show ?thesis by (simp add: job_Tolerance_def wrap64_def)
qed

end
