(* ===== verification/Run_Progress.thy ===== *)
theory Run_Progress
  imports Engine_Exec
begin

text \<open>
  Progress of a run over its destinations (\<open>src/internal/runner/progress.go\<close>): one tracker per
  destination, the prompts and deadlines a user is shown, the plan as it is shown for
  confirmation, and the aggregate snapshot. Every method holds the mutex, so the operations are
  steps on one state.
\<close>

section \<open>The plan as it is shown\<close>

record dest_plan =
  dpTarget :: string
  dpMkDirs :: int
  dpCopies :: int
  dpDeletes :: int
  dpRmDirs :: int
  dpCopyBytes :: int
  dpReplaces :: int
  dpOverwrites :: int
  dpDeletionsBlocked :: bool
  dpBlockedReason :: string
  dpWithheldDeletes :: int
  dpWithheldRmDirs :: int
  dpConflicts :: "string list"

definition destPlanOf :: "string \<Rightarrow> plan \<Rightarrow> dest_plan" where
  "destPlanOf destID p =
     \<lparr>dpTarget = destID, dpMkDirs = MkDirs p, dpCopies = Copies p, dpDeletes = Deletes p, dpRmDirs = RmDirs p,
      dpCopyBytes = CopyBytes p, dpReplaces = Unblocks p, dpOverwrites = Overwrites p,
      dpDeletionsBlocked = DeletionsBlocked p, dpBlockedReason = BlockedReason p,
      dpWithheldDeletes = WithheldDeletes p, dpWithheldRmDirs = WithheldRmDirs p,
      dpConflicts = map (\<lambda>c. cRelPath c @ '': '' @ cReason c) (Conflicts p)\<rparr>"

definition planPathLimit :: nat where "planPathLimit = 2000"

record planned_action =
  paRelPath :: string
  paSize :: int
  paReason :: string
  paOverwrite :: bool

record dest_actions =
  daTarget :: string
  daMkDirs :: "string list"
  daCopies :: "planned_action list"
  daDeletes :: "planned_action list"
  daRmDirs :: "string list"
  daReplaces :: "planned_action list"
  daTruncated :: bool

definition shown_action :: "bool \<Rightarrow> action \<Rightarrow> planned_action" where
  "shown_action ow a = \<lparr>paRelPath = aRelPath a, paSize = aSize a, paReason = Reason a, paOverwrite = ow\<rparr>"

definition actions_step :: "action \<Rightarrow> dest_actions \<Rightarrow> dest_actions" where
  "actions_step a da =
     (if Unblock a then
        (if length (daReplaces da) < planPathLimit
         then da\<lparr>daReplaces := daReplaces da @ [shown_action False a]\<rparr> else da\<lparr>daTruncated := True\<rparr>)
      else case Kind a of
        ActionMkDir \<Rightarrow>
          if length (daMkDirs da) < planPathLimit
          then da\<lparr>daMkDirs := daMkDirs da @ [aRelPath a]\<rparr> else da\<lparr>daTruncated := True\<rparr>
      | ActionCopy \<Rightarrow>
          if length (daCopies da) < planPathLimit
          then da\<lparr>daCopies := daCopies da @ [shown_action (Overwrite a) a]\<rparr> else da\<lparr>daTruncated := True\<rparr>
      | ActionDelete \<Rightarrow>
          if length (daDeletes da) < planPathLimit
          then da\<lparr>daDeletes := daDeletes da @ [shown_action False a]\<rparr> else da\<lparr>daTruncated := True\<rparr>
      | ActionRmDir \<Rightarrow>
          if length (daRmDirs da) < planPathLimit
          then da\<lparr>daRmDirs := daRmDirs da @ [aRelPath a]\<rparr> else da\<lparr>daTruncated := True\<rparr>)"

definition actionsOf :: "string \<Rightarrow> plan option \<Rightarrow> dest_actions" where
  "actionsOf destID p =
     (let da = \<lparr>daTarget = destID, daMkDirs = [], daCopies = [], daDeletes = [], daRmDirs = [], daReplaces = [],
                daTruncated = False\<rparr>
      in case p of None \<Rightarrow> da | Some p \<Rightarrow> fold actions_step (Actions p) da)"


section \<open>State\<close>

record progress =
  pgStarted :: gotime
  pgPhase :: phase
  pgOrder :: "string list"
  pgTrackers :: "tracker gomap"
  pgStatuses :: "dest_status gomap"
  pgPlanned :: "bool gomap"
  pgPromptDeadlines :: "gotime gomap"
  pgPromptReasons :: "string gomap"
  pgPromptCanCreate :: "bool gomap"
  pgConfirmDeadline :: gotime
  pgPlans :: "dest_plan gomap"
  pgScannedFiles :: int
  pgScannedBytes :: int

definition newProgress :: "gotime \<Rightarrow> string list \<Rightarrow> progress" where
  "newProgress now ids =
     \<lparr>pgStarted = now, pgPhase = PhaseScanning, pgOrder = ids,
      pgTrackers = fold (\<lambda>i. goput i (NewTracker now)) ids [], pgStatuses = fold (\<lambda>i. goput i DestPending) ids [],
      pgPlanned = [], pgPromptDeadlines = [], pgPromptReasons = [], pgPromptCanCreate = [],
      pgConfirmDeadline = zero_time, pgPlans = [], pgScannedFiles = 0, pgScannedBytes = 0\<rparr>"

definition setPhase :: "phase \<Rightarrow> progress \<Rightarrow> progress" where
  "setPhase ph p = p\<lparr>pgPhase := ph\<rparr>"

definition setStatus :: "string \<Rightarrow> dest_status \<Rightarrow> progress \<Rightarrow> progress" where
  "setStatus d st p = p\<lparr>pgStatuses := goput d st (pgStatuses p)\<rparr>"

definition setPrompt :: "string \<Rightarrow> gotime \<Rightarrow> string \<Rightarrow> bool \<Rightarrow> progress \<Rightarrow> progress" where
  "setPrompt d deadline reason canCreate p =
     p\<lparr>pgPromptDeadlines := goput d deadline (pgPromptDeadlines p),
       pgPromptReasons := goput d reason (pgPromptReasons p),
       pgPromptCanCreate := (if canCreate then goput d True (pgPromptCanCreate p) else godel d (pgPromptCanCreate p))\<rparr>"

definition clearPrompt :: "string \<Rightarrow> progress \<Rightarrow> progress" where
  "clearPrompt d p =
     p\<lparr>pgPromptDeadlines := godel d (pgPromptDeadlines p), pgPromptReasons := godel d (pgPromptReasons p),
       pgPromptCanCreate := godel d (pgPromptCanCreate p)\<rparr>"

definition setConfirmDeadline :: "gotime \<Rightarrow> progress \<Rightarrow> progress" where
  "setConfirmDeadline deadline p = p\<lparr>pgConfirmDeadline := deadline\<rparr>"

definition setPlan :: "string \<Rightarrow> dest_plan \<Rightarrow> progress \<Rightarrow> progress" where
  "setPlan d dp p = p\<lparr>pgPlans := goput d dp (pgPlans p)\<rparr>"

definition markPlanned :: "string \<Rightarrow> progress \<Rightarrow> progress" where
  "markPlanned d p = p\<lparr>pgPlanned := goput d True (pgPlanned p)\<rparr>"

definition setScanProgress :: "int \<Rightarrow> int \<Rightarrow> progress \<Rightarrow> progress" where
  "setScanProgress files dirs p = p\<lparr>pgTrackers := map (\<lambda>(i, t). (i, SetScanProgress files dirs t)) (pgTrackers p)\<rparr>"

definition setSourceScan :: "int \<Rightarrow> int \<Rightarrow> progress \<Rightarrow> progress" where
  "setSourceScan files bytes p = p\<lparr>pgScannedFiles := files, pgScannedBytes := bytes\<rparr>"

definition sample_all :: "gotime \<Rightarrow> progress \<Rightarrow> progress" where
  "sample_all now p = p\<lparr>pgTrackers := map (\<lambda>(i, t). (i, Sample now t)) (pgTrackers p)\<rparr>"

text \<open>What an operation on one destination's tracker does to the run's progress.\<close>

definition on_dest :: "string \<Rightarrow> (tracker \<Rightarrow> tracker) \<Rightarrow> progress \<Rightarrow> progress" where
  "on_dest d f p = p\<lparr>pgTrackers := map (\<lambda>(i, t). (i, if i = d then f t else t)) (pgTrackers p)\<rparr>"


section \<open>Snapshot\<close>

record dest_snapshot =
  dsTarget :: string
  dsStatus :: "dest_status option"
  dsPromptDeadline :: gotime
  dsPromptReason :: string
  dsPromptCanCreate :: bool
  dsSnap :: snapshot

definition phaseRank :: "phase \<Rightarrow> nat" where
  "phaseRank ph =
     (case ph of PhaseScanning \<Rightarrow> 0 | PhasePlanning \<Rightarrow> 1 | PhaseCopying \<Rightarrow> 2 | PhaseDeleting \<Rightarrow> 3 | PhaseDone \<Rightarrow> 0)"

definition busiestPhase :: "phase \<Rightarrow> dest_snapshot list \<Rightarrow> phase" where
  "busiestPhase runPhase dests =
     fold (\<lambda>d best. if dsStatus d = Some DestRunning \<and> phaseRank (snPhase (dsSnap d)) > phaseRank best
                     then snPhase (dsSnap d) else best) dests runPhase"

record run_snapshot =
  rsPhase :: phase
  rsFilesTotal :: int
  rsFilesDone :: int
  rsFilesDeleted :: int
  rsFilesFailed :: int
  rsBytesTotal :: int
  rsBytesDone :: int
  rsThroughputBPS :: real
  rsETASeconds :: real
  rsElapsedSec :: real
  rsPendingDestinations :: int
  rsEstimatedPendingBytes :: int
  rsScannedFiles :: int
  rsScannedBytes :: int
  rsConfirmDeadline :: gotime
  rsDestinations :: "dest_snapshot list"
  rsInFlight :: "file_in_flight list"
  rsPlans :: "dest_plan list"

definition is_planned :: "progress \<Rightarrow> string \<Rightarrow> bool" where
  "is_planned p d \<longleftrightarrow> goget (pgPlanned p) d = Some True"

definition is_pending :: "progress \<Rightarrow> string \<Rightarrow> bool" where
  "is_pending p d \<longleftrightarrow> \<not> is_planned p d \<and> goget (pgStatuses p) d \<in> {Some DestPending, Some DestRunning}"

definition dest_snap :: "gotime \<Rightarrow> progress \<Rightarrow> string \<Rightarrow> dest_snapshot" where
  "dest_snap now p d =
     \<lparr>dsTarget = d, dsStatus = goget (pgStatuses p) d,
      dsPromptDeadline = (case goget (pgPromptDeadlines p) d of Some t \<Rightarrow> t | None \<Rightarrow> zero_time),
      dsPromptReason = (case goget (pgPromptReasons p) d of Some r \<Rightarrow> r | None \<Rightarrow> []),
      dsPromptCanCreate = (goget (pgPromptCanCreate p) d = Some True),
      dsSnap = Snapshot now (the (goget (pgTrackers p) d))\<rparr>"

text \<open>One turn of the loop over the destinations; the counter is the number planned so far.\<close>

definition snap_step :: "gotime \<Rightarrow> progress \<Rightarrow> string \<Rightarrow> run_snapshot \<times> int \<Rightarrow> run_snapshot \<times> int" where
  "snap_step now p d acc =
     (let (out, plannedCount) = acc; ds = dest_snap now p d; sn = dsSnap ds;
          out = out\<lparr>rsFilesTotal := rsFilesTotal out + snFilesTotal sn, rsFilesDone := rsFilesDone out + snFilesDone sn,
            rsFilesDeleted := rsFilesDeleted out + snFilesDeleted sn, rsFilesFailed := rsFilesFailed out + snFilesFailed sn,
            rsBytesTotal := rsBytesTotal out + snBytesTotal sn, rsBytesDone := rsBytesDone out + snBytesDone sn,
            rsThroughputBPS := rsThroughputBPS out + snThroughputBPS sn, rsInFlight := rsInFlight out @ snInFlight sn,
            rsPendingDestinations := rsPendingDestinations out + (if is_pending p d then 1 else 0),
            rsDestinations := rsDestinations out @ [ds],
            rsPlans := rsPlans out @ (case goget (pgPlans p) d of Some pl \<Rightarrow> [pl] | None \<Rightarrow> [])\<rparr>
      in (out, plannedCount + (if is_planned p d then 1 else 0)))"

definition blank_snapshot :: "gotime \<Rightarrow> progress \<Rightarrow> run_snapshot" where
  "blank_snapshot now p =
     \<lparr>rsPhase = pgPhase p, rsFilesTotal = 0, rsFilesDone = 0, rsFilesDeleted = 0, rsFilesFailed = 0,
      rsBytesTotal = 0, rsBytesDone = 0, rsThroughputBPS = 0, rsETASeconds = ETAUnknown,
      rsElapsedSec = Seconds (time_Sub now (pgStarted p)), rsPendingDestinations = 0, rsEstimatedPendingBytes = 0,
      rsScannedFiles = pgScannedFiles p, rsScannedBytes = pgScannedBytes p,
      rsConfirmDeadline = pgConfirmDeadline p, rsDestinations = [], rsInFlight = [], rsPlans = []\<rparr>"

text \<open>Go's integer division truncates towards zero.\<close>

definition quot64 :: "int \<Rightarrow> int \<Rightarrow> int" where
  "quot64 a b = (if (a < 0) = (b < 0) then \<bar>a\<bar> div \<bar>b\<bar> else - (\<bar>a\<bar> div \<bar>b\<bar>))"

definition run_snapshot_of :: "gotime \<Rightarrow> progress \<Rightarrow> run_snapshot" where
  "run_snapshot_of now p =
     (let (out, plannedCount) = fold (snap_step now p) (pgOrder p) (blank_snapshot now p, 0);
          out = (if pgPhase p \<noteq> PhaseDone then out\<lparr>rsPhase := busiestPhase (pgPhase p) (rsDestinations out)\<rparr> else out);
          out = (if rsPendingDestinations out > 0 \<and> plannedCount > 0
                 then let pending = rsPendingDestinations out;
                          est = quot64 (rsBytesTotal out) plannedCount * pending
                      in out\<lparr>rsEstimatedPendingBytes := est,
                             rsFilesTotal := rsFilesTotal out + quot64 (rsFilesTotal out) plannedCount * pending,
                             rsBytesTotal := rsBytesTotal out + est\<rparr>
                 else out)
      in if rsThroughputBPS out > 0
         then let r = rsBytesTotal out - rsBytesDone out; remaining = (if r < 0 then 0 else r)
              in out\<lparr>rsETASeconds := real_of_int remaining / rsThroughputBPS out\<rparr>
         else out)"


section \<open>Properties\<close>

text \<open>Appending to a list that stops growing at a limit.\<close>

definition capped :: "nat \<Rightarrow> 'a list \<Rightarrow> 'a \<Rightarrow> 'a list" where
  "capped n xs x = (if length xs < n then xs @ [x] else xs)"

lemma capped_take: "length xs \<le> n \<Longrightarrow> take n (capped n xs x @ ys) = take n (xs @ x # ys) \<and> length (capped n xs x) \<le> n"
  by (auto simp: capped_def take_Cons')

lemma actions_step_fields:
  "daReplaces (actions_step a da) = (if Unblock a then capped planPathLimit (daReplaces da) (shown_action False a) else daReplaces da)"
  "daMkDirs (actions_step a da) = (if \<not> Unblock a \<and> Kind a = ActionMkDir then capped planPathLimit (daMkDirs da) (aRelPath a) else daMkDirs da)"
  "daCopies (actions_step a da) = (if \<not> Unblock a \<and> Kind a = ActionCopy then capped planPathLimit (daCopies da) (shown_action (Overwrite a) a) else daCopies da)"
  "daDeletes (actions_step a da) = (if \<not> Unblock a \<and> Kind a = ActionDelete then capped planPathLimit (daDeletes da) (shown_action False a) else daDeletes da)"
  "daRmDirs (actions_step a da) = (if \<not> Unblock a \<and> Kind a = ActionRmDir then capped planPathLimit (daRmDirs da) (aRelPath a) else daRmDirs da)"
  by (cases "Kind a"; simp add: actions_step_def capped_def)+

text \<open>A list that is filled by a loop under a condition.\<close>

lemma fold_capped:
  assumes "\<And>a da. f (step a da) = (if P a then capped n (f da) (g a) else f da)" "length (f da) \<le> n"
  shows "f (fold step as da) = take n (f da @ map g (filter P as))"
  using assms(2)
proof (induction as arbitrary: da)
  case (Cons a as)
  have "length (f (step a da)) \<le> n" using Cons.prems capped_take [of "f da" n "g a" "[]"] by (simp add: assms(1))
  from Cons.IH [OF this] show ?case
    using capped_take [OF Cons.prems, of "g a" "map g (filter P as)"] by (simp add: assms(1) del: take_append)
qed simp

definition overfull :: "action list \<Rightarrow> dest_actions \<Rightarrow> bool" where
  "overfull as da \<longleftrightarrow>
     planPathLimit < length (daReplaces da) + length (filter Unblock as)
     \<or> planPathLimit < length (daMkDirs da) + length (filter (\<lambda>a. \<not> Unblock a \<and> Kind a = ActionMkDir) as)
     \<or> planPathLimit < length (daCopies da) + length (filter (\<lambda>a. \<not> Unblock a \<and> Kind a = ActionCopy) as)
     \<or> planPathLimit < length (daDeletes da) + length (filter (\<lambda>a. \<not> Unblock a \<and> Kind a = ActionDelete) as)
     \<or> planPathLimit < length (daRmDirs da) + length (filter (\<lambda>a. \<not> Unblock a \<and> Kind a = ActionRmDir) as)"

definition in_limits :: "dest_actions \<Rightarrow> bool" where
  "in_limits da \<longleftrightarrow> length (daReplaces da) \<le> planPathLimit \<and> length (daMkDirs da) \<le> planPathLimit
     \<and> length (daCopies da) \<le> planPathLimit \<and> length (daDeletes da) \<le> planPathLimit \<and> length (daRmDirs da) \<le> planPathLimit"

lemma step_truncates:
  assumes "in_limits da"
  shows "(daTruncated (actions_step a da) \<or> overfull as (actions_step a da)) = (daTruncated da \<or> overfull (a # as) da)"
    "in_limits (actions_step a da)"
  using assms by (cases "Kind a"; auto simp: actions_step_def overfull_def in_limits_def)+

lemma fold_truncates: "in_limits da \<Longrightarrow> daTruncated (fold actions_step as da) \<longleftrightarrow> daTruncated da \<or> overfull as da"
proof (induction as arbitrary: da)
  case Nil
  then show ?case by (simp add: overfull_def in_limits_def)
next
  case (Cons a as)
  then show ?case using step_truncates(1) [OF Cons.prems, of a as] step_truncates(2) [OF Cons.prems, of a] by simp
qed

text \<open>
  a preview shows the plan that will be executed. The lists shown for confirmation are the
  five stages into which the executor takes the same plan apart, in order and one entry per
  action, each cut at 2000 entries, and the listing says it is truncated exactly when one of
  them was cut.
\<close>

theorem preview_shows_the_plan:
  "case partition_plan p of (u, mk, c, d, r) \<Rightarrow>
     actionsOf destID (Some p) =
       \<lparr>daTarget = destID, daMkDirs = take planPathLimit (map aRelPath mk),
        daCopies = take planPathLimit (map (\<lambda>a. shown_action (Overwrite a) a) c),
        daDeletes = take planPathLimit (map (shown_action False) d), daRmDirs = take planPathLimit (map aRelPath r),
        daReplaces = take planPathLimit (map (shown_action False) u),
        daTruncated = list_ex (\<lambda>l. planPathLimit < length l) [u, mk, c, d, r]\<rparr>"
proof -
  let ?da = "\<lparr>daTarget = destID, daMkDirs = [], daCopies = [], daDeletes = [], daRmDirs = [], daReplaces = [], daTruncated = False\<rparr>"
  note f = actions_step_fields
  have "daTarget (fold actions_step as da) = daTarget da" for as da
    by (induction as arbitrary: da) (auto simp: actions_step_def split: action_kind.split)
  moreover have "in_limits ?da" by (simp add: in_limits_def)
  ultimately show ?thesis
    using fold_truncates [of ?da "Actions p"] fold_capped [of daReplaces actions_step, OF f(1), of ?da]
      fold_capped [of daMkDirs actions_step, OF f(2), of ?da] fold_capped [of daCopies actions_step, OF f(3), of ?da]
      fold_capped [of daDeletes actions_step, OF f(4), of ?da] fold_capped [of daRmDirs actions_step, OF f(5), of ?da]
    by (simp add: actionsOf_def partition_plan_def overfull_def)
qed

text \<open>The sum of a counter over the destinations.\<close>

definition over_dests :: "gotime \<Rightarrow> progress \<Rightarrow> (snapshot \<Rightarrow> 'a) \<Rightarrow> 'a :: comm_monoid_add" where
  "over_dests now p f = sum_list (map (\<lambda>d. f (Snapshot now (the (goget (pgTrackers p) d)))) (pgOrder p))"

lemma snap_fold:
  fixes acc :: "run_snapshot \<times> int" and ds now p
  defines "acc' \<equiv> fold (snap_step now p) ds acc" and "summed \<equiv> \<lambda>f. sum_list (map (\<lambda>d. f (Snapshot now (the (goget (pgTrackers p) d)))) ds)"
  shows "rsFilesTotal (fst acc') = rsFilesTotal (fst acc) + summed snFilesTotal"
    "rsFilesDone (fst acc') = rsFilesDone (fst acc) + summed snFilesDone"
    "rsBytesTotal (fst acc') = rsBytesTotal (fst acc) + summed snBytesTotal"
    "rsBytesDone (fst acc') = rsBytesDone (fst acc) + summed snBytesDone"
    "rsPendingDestinations (fst acc') = rsPendingDestinations (fst acc) + int (length (filter (is_pending p) ds))"
    "snd acc' = snd acc + int (length (filter (is_planned p) ds))"
    "rsDestinations (fst acc') = rsDestinations (fst acc) @ map (dest_snap now p) ds"
    "rsETASeconds (fst acc') = rsETASeconds (fst acc)"
  unfolding acc'_def summed_def
  by (induction ds arbitrary: acc) (simp_all add: snap_step_def dest_snap_def split_beta Let_def)

lemma snap_fold_rate:
  "rsThroughputBPS (fst (fold (snap_step now p) ds acc)) =
     rsThroughputBPS (fst acc) + sum_list (map (\<lambda>d. snThroughputBPS (Snapshot now (the (goget (pgTrackers p) d)))) ds)"
  by (induction ds arbitrary: acc) (simp_all add: snap_step_def dest_snap_def split_beta Let_def)

lemma quot64_div: "0 \<le> a \<Longrightarrow> 0 < b \<Longrightarrow> quot64 a b = a div b"
  by (simp add: quot64_def)

definition planned_count :: "progress \<Rightarrow> int" where
  "planned_count p = int (length (filter (is_planned p) (pgOrder p)))"

definition pending_count :: "progress \<Rightarrow> int" where
  "pending_count p = int (length (filter (is_pending p) (pgOrder p)))"

definition with_estimate :: "progress \<Rightarrow> int \<Rightarrow> int" where
  "with_estimate p n = (if pending_count p > 0 \<and> planned_count p > 0 then n + n div planned_count p * pending_count p else n)"

text \<open>
  the totals of a run. What was done is the sum over the destinations; the totals are the sums
  of the planned work plus, for each destination not planned yet, the mean of the planned ones,
  never less than the planned work itself; and a remaining time is given exactly when bytes are
  moving, and is never negative.
\<close>

theorem run_totals:
  assumes "\<And>d. d \<in> set (pgOrder p) \<Longrightarrow> 0 \<le> trFilesTotal (the (goget (pgTrackers p) d)) \<and> 0 \<le> trBytesTotal (the (goget (pgTrackers p) d))"
  shows "rsFilesDone (run_snapshot_of now p) = over_dests now p snFilesDone
    \<and> rsBytesDone (run_snapshot_of now p) = over_dests now p snBytesDone
    \<and> rsFilesTotal (run_snapshot_of now p) = with_estimate p (over_dests now p snFilesTotal)
    \<and> rsBytesTotal (run_snapshot_of now p) = with_estimate p (over_dests now p snBytesTotal)
    \<and> over_dests now p snBytesTotal \<le> rsBytesTotal (run_snapshot_of now p)
    \<and> (if over_dests now p snThroughputBPS > 0 then 0 \<le> rsETASeconds (run_snapshot_of now p)
       else rsETASeconds (run_snapshot_of now p) = ETAUnknown)"
proof -
  let ?acc = "fold (snap_step now p) (pgOrder p) (blank_snapshot now p, 0)"
  note f = snap_fold [of now p "pgOrder p" "(blank_snapshot now p, 0)"] snap_fold_rate [of now p "pgOrder p" "(blank_snapshot now p, 0)"]
  have nn: "0 \<le> over_dests now p snFilesTotal" "0 \<le> over_dests now p snBytesTotal"
    using assms unfolding over_dests_def by (auto simp: Snapshot_def intro!: sum_list_nonneg)
  have base: "rsFilesTotal (fst ?acc) = over_dests now p snFilesTotal" "rsBytesTotal (fst ?acc) = over_dests now p snBytesTotal"
    "rsFilesDone (fst ?acc) = over_dests now p snFilesDone" "rsBytesDone (fst ?acc) = over_dests now p snBytesDone"
    "rsPendingDestinations (fst ?acc) = pending_count p" "snd ?acc = planned_count p"
    "rsThroughputBPS (fst ?acc) = over_dests now p snThroughputBPS" "rsETASeconds (fst ?acc) = ETAUnknown"
    using f by (simp_all add: over_dests_def pending_count_def planned_count_def blank_snapshot_def)
  have est: "n \<le> with_estimate p n" if "0 \<le> n" for n
    using that by (auto simp: with_estimate_def intro!: mult_nonneg_nonneg pos_imp_zdiv_nonneg_iff [THEN iffD2])
  show ?thesis
    using base nn est [OF nn(2)]
    by (auto simp: run_snapshot_of_def split_beta Let_def with_estimate_def quot64_div)
qed

text \<open>One destination planned, one still to be planned.\<close>

definition two_dests :: progress where
  "two_dests = markPlanned ''a'' (on_dest ''a'' (SetTotals 1 10) (newProgress 0 [''a'', ''b'']))"

theorem run_totals_witness:
  "rsBytesTotal (run_snapshot_of 5 two_dests) = 20 \<and> rsETASeconds (run_snapshot_of 5 two_dests) = ETAUnknown"
proof -
  have t: "pgOrder two_dests = [''a'', ''b'']"
    "goget (pgTrackers two_dests) ''a'' = Some (SetTotals 1 10 (NewTracker 0))" "goget (pgTrackers two_dests) ''b'' = Some (NewTracker 0)"
    by (simp_all add: two_dests_def newProgress_def on_dest_def markPlanned_def)
  have "filter (is_planned two_dests) [''a'', ''b''] = [''a'']" "filter (is_pending two_dests) [''a'', ''b''] = [''b'']"
    by (simp_all add: is_planned_def is_pending_def two_dests_def newProgress_def on_dest_def markPlanned_def)
  moreover have "0 \<le> trFilesTotal (the (goget (pgTrackers two_dests) d)) \<and> 0 \<le> trBytesTotal (the (goget (pgTrackers two_dests) d))"
    if "d \<in> set (pgOrder two_dests)" for d
    using that by (auto simp: t SetTotals_def NewTracker_def)
  ultimately show ?thesis
    using run_totals [of two_dests 5]
    by (simp add: over_dests_def with_estimate_def planned_count_def pending_count_def t Snapshot_def SetTotals_def NewTracker_def)
qed

end
