(* ===== verification/Run_Registry.thy ===== *)
theory Run_Registry
  imports Jobs Run_Progress
begin

text \<open>
  Which runs are in progress (\<open>src/internal/runner/runner.go\<close>, \<open>gate.go\<close>): reserving a job,
  publishing its run, cancelling, the one-deep queue behind a run, finishing, shutting down, and
  the answers a run waits for. Each section under the runner's lock is one function; the steps
  of different callers interleave freely.
\<close>

section \<open>The gate\<close>

datatype prompt_action = PromptSkip | PromptRetry | PromptAbort | PromptCreate | PromptOther string

definition ValidPromptAction :: "prompt_action \<Rightarrow> bool" where
  "ValidPromptAction a = (case a of PromptOther _ \<Rightarrow> False | _ \<Rightarrow> True)"

text \<open>An open prompt is a channel with room for one answer.\<close>

record gate =
  gtPrompts :: "prompt_action option gomap"
  gtConfirmed :: bool

definition newGate :: gate where "newGate = \<lparr>gtPrompts = [], gtConfirmed = False\<rparr>"

definition gate_open :: "string \<Rightarrow> gate \<Rightarrow> gate" where
  "gate_open d g = g\<lparr>gtPrompts := goput d None (gtPrompts g)\<rparr>"

definition gate_close :: "string \<Rightarrow> gate \<Rightarrow> gate" where
  "gate_close d g = g\<lparr>gtPrompts := godel d (gtPrompts g)\<rparr>"

definition gate_answer :: "string \<Rightarrow> prompt_action \<Rightarrow> gate \<Rightarrow> goerr option \<times> gate" where
  "gate_answer d a g =
     (case goget (gtPrompts g) d of
        None \<Rightarrow> (Some (new_error ''that destination is not waiting for an answer'' [ErrNoSuchPrompt]), g)
      | Some None \<Rightarrow> (None, g\<lparr>gtPrompts := goput d (Some a) (gtPrompts g)\<rparr>)
      | Some (Some _) \<Rightarrow> (None, g))"

definition markConfirmed :: "gate \<Rightarrow> gate" where
  "markConfirmed g = (if gtConfirmed g then g else g\<lparr>gtConfirmed := True\<rparr>)"


section \<open>The registry\<close>

record handle =
  hdRunID :: string
  hdJobID :: string
  hdCtxDone :: bool  \<comment> \<open>whether \<open>cancel\<close> was called\<close>
  hdProgress :: progress
  hdCancelled :: bool
  hdPreview :: bool
  hdParked :: bool
  hdGate :: gate

record runner =
  rnActive :: "handle gomap"
  rnByJob :: "string gomap"
  rnQueued :: "bool gomap"
  rnClosing :: bool
  rnWait :: int  \<comment> \<open>the counter of the wait group\<close>

definition New :: runner where
  "New = \<lparr>rnActive = [], rnByJob = [], rnQueued = [], rnClosing = False, rnWait = 0\<rparr>"

definition is_queued :: "runner \<Rightarrow> string \<Rightarrow> bool" where
  "is_queued r jobID \<longleftrightarrow> goget (rnQueued r) jobID = Some True"

text \<open>\<open>start\<close>, section by section: reserve the job; give it back when the run could not be created;
  publish the run.\<close>

definition start_reserve :: "string \<Rightarrow> runner \<Rightarrow> goerr + runner" where
  "start_reserve jobID r =
     (if rnClosing r then Inl (new_error ''the server is shutting down'' [ErrShuttingDown])
      else if goget (rnByJob r) jobID \<noteq> None
      then Inl (new_error ''a run of this job is already in progress'' [ErrAlreadyRunning])
      else Inr (r\<lparr>rnByJob := goput jobID [] (rnByJob r)\<rparr>))"

definition start_failed :: "string \<Rightarrow> runner \<Rightarrow> runner" where
  "start_failed jobID r = r\<lparr>rnByJob := godel jobID (rnByJob r)\<rparr>"

definition new_handle :: "gotime \<Rightarrow> string \<Rightarrow> string \<Rightarrow> string list \<Rightarrow> bool \<Rightarrow> handle" where
  "new_handle now runID jobID destIDs preview =
     \<lparr>hdRunID = runID, hdJobID = jobID, hdCtxDone = False, hdProgress = newProgress now destIDs,
      hdCancelled = False, hdPreview = preview, hdParked = False, hdGate = newGate\<rparr>"

definition start_publish :: "handle \<Rightarrow> runner \<Rightarrow> runner" where
  "start_publish h r =
     r\<lparr>rnWait := rnWait r + 1, rnActive := goput (hdRunID h) h (rnActive r),
       rnByJob := goput (hdJobID h) (hdRunID h) (rnByJob r)\<rparr>"

text \<open>What the database answers to one \<open>start\<close>: each target's lookup, and the new run's ID
  for the trigger it was asked to record.\<close>

record start_db =
  sdTarget :: "string \<Rightarrow> goerr option"
  sdCreate :: "run_trigger \<Rightarrow> goerr + string"

definition destTargetIDs :: "job \<Rightarrow> string list" where
  "destTargetIDs j = map jdTarget (jbDestinations j)"

definition start :: "(string \<Rightarrow> string) \<Rightarrow> start_db \<Rightarrow> gotime \<Rightarrow> job \<Rightarrow> bool \<Rightarrow> run_trigger \<Rightarrow> runner \<Rightarrow> (goerr + string) \<times> runner" where
  "start uq db now j preview trigger r =
     (if jbDestinations j = [] then (Inl (new_error ''this job has no destination'' []), r)
      else case sdTarget db (jbSourceTarget j) of
        Some e \<Rightarrow> (Inl (wrap (''loading the source target of job '' @ fmt_q uq (jbName j) @ '': '') e), r)
      | None \<Rightarrow>
          (case List.map_filter (sdTarget db) (destTargetIDs j) of
             e # _ \<Rightarrow> (Inl (wrap (''loading a destination target of job '' @ fmt_q uq (jbName j) @ '': '') e), r)
           | [] \<Rightarrow>
               (case start_reserve (jbID j) r of
                  Inl e \<Rightarrow> (Inl e, r)
                | Inr r \<Rightarrow>
                    (case sdCreate db trigger of
                       Inl e \<Rightarrow> (Inl e, start_failed (jbID j) r)
                     | Inr runID \<Rightarrow> (Inr runID, start_publish (new_handle now runID (jbID j) (destTargetIDs j) preview) r)))))"

definition QueueNext :: "string \<Rightarrow> runner \<Rightarrow> bool \<times> runner" where
  "QueueNext jobID r =
     (if goget (rnByJob r) jobID = None then (False, r)
      else if is_queued r jobID then (False, r)
      else (True, r\<lparr>rnQueued := goput jobID True (rnQueued r)\<rparr>))"

definition cancel_handle :: "handle \<Rightarrow> handle" where
  "cancel_handle h = h\<lparr>hdCancelled := True, hdCtxDone := True\<rparr>"

definition run_Cancel :: "string \<Rightarrow> runner \<Rightarrow> goerr option \<times> runner" where
  "run_Cancel runID r =
     (case goget (rnActive r) runID of
        None \<Rightarrow> (Some (new_error ''that run is not in progress'' [ErrNotRunning]), r)
      | Some h \<Rightarrow> (None, r\<lparr>rnActive := goput runID (cancel_handle h) (rnActive r)\<rparr>))"

definition ActiveForJob :: "string \<Rightarrow> runner \<Rightarrow> bool" where
  "ActiveForJob jobID r \<longleftrightarrow> goget (rnByJob r) jobID \<noteq> None"

definition wasCancelled :: "string \<Rightarrow> runner \<Rightarrow> bool" where
  "wasCancelled runID r = (case goget (rnActive r) runID of Some h \<Rightarrow> hdCancelled h | None \<Rightarrow> False)"

text \<open>\<open>finish\<close> also says whether a queued run is to be started.\<close>

definition finish :: "string \<Rightarrow> string \<Rightarrow> runner \<Rightarrow> bool \<times> runner" where
  "finish runID jobID r =
     (is_queued r jobID \<and> \<not> rnClosing r,
      r\<lparr>rnActive := godel runID (rnActive r), rnByJob := godel jobID (rnByJob r), rnQueued := godel jobID (rnQueued r)\<rparr>)"

definition shutdown_begin :: "runner \<Rightarrow> runner" where
  "shutdown_begin r =
     r\<lparr>rnClosing := True, rnQueued := [], rnActive := map (\<lambda>(i, h). (i, cancel_handle h)) (rnActive r)\<rparr>"

definition wait_done :: "runner \<Rightarrow> runner" where
  "wait_done r = r\<lparr>rnWait := rnWait r - 1\<rparr>"

definition on_handle :: "string \<Rightarrow> (handle \<Rightarrow> handle) \<Rightarrow> runner \<Rightarrow> runner" where
  "on_handle runID f r =
     (case goget (rnActive r) runID of None \<Rightarrow> r | Some h \<Rightarrow> r\<lparr>rnActive := goput runID (f h) (rnActive r)\<rparr>)"

definition AnswerPrompt :: "(string \<Rightarrow> string) \<Rightarrow> string \<Rightarrow> string \<Rightarrow> prompt_action \<Rightarrow> runner \<Rightarrow> goerr option \<times> runner" where
  "AnswerPrompt uq runID d a r =
     (case a of
        PromptOther s \<Rightarrow>
          (Some (new_error (''action must be '' @ fmt_q uq ''skip'' @ '', '' @ fmt_q uq ''retry'' @ '' or '' @ fmt_q uq ''abort''
             @ '', got '' @ fmt_q uq s) []), r)
      | _ \<Rightarrow>
          (case goget (rnActive r) runID of
             None \<Rightarrow> (Some (new_error ''that run is not in progress'' [ErrNotRunning]), r)
           | Some h \<Rightarrow>
               let (e, g) = gate_answer d a (hdGate h) in (e, on_handle runID (\<lambda>h. h\<lparr>hdGate := g\<rparr>) r)))"

definition Confirm :: "string \<Rightarrow> runner \<Rightarrow> goerr option \<times> runner" where
  "Confirm runID r =
     (case goget (rnActive r) runID of
        None \<Rightarrow> (Some (new_error ''that run is not in progress'' [ErrNotRunning]), r)
      | Some h \<Rightarrow>
          if \<not> hdPreview h then (Some (new_error ''that run is not waiting to be confirmed'' [ErrNotAwaitingConfirm]), r)
          else (None, on_handle runID (\<lambda>h. h\<lparr>hdGate := markConfirmed (hdGate h)\<rparr>) r))"

definition AwaitingConfirmation :: "string \<Rightarrow> runner \<Rightarrow> string \<times> bool" where
  "AwaitingConfirmation jobID r =
     (case goget (rnByJob r) jobID of
        None \<Rightarrow> ([], False)
      | Some runID \<Rightarrow>
          if runID = [] then ([], False)
          else case goget (rnActive r) runID of
                 None \<Rightarrow> ([], False)
               | Some h \<Rightarrow> if \<not> hdPreview h then ([], False) else (runID, hdParked h))"


section \<open>Interleaving\<close>

text \<open>
  The callers between two locked sections: jobs reserved and not yet created, runs created and not
  yet published, the goroutines of published runs, and the goroutines that will start a queued
  run. \<open>rgReturned\<close> says that \<open>Shutdown\<close> has returned without an error. Run IDs are random and taken
  never to repeat. The flag says whether creating a run in the database can fail.
\<close>

record reg_state =
  rgRunner :: runner
  rgStarting :: "string list"
  rgCreated :: "(string \<times> string) list"
  rgRunning :: "(string \<times> string) list"
  rgDequeued :: "string list"
  rgIssued :: "string list"
  rgReturned :: bool

definition reg_start :: reg_state where
  "reg_start = \<lparr>rgRunner = New, rgStarting = [], rgCreated = [], rgRunning = [], rgDequeued = [], rgIssued = [], rgReturned = False\<rparr>"

inductive reg_step :: "bool \<Rightarrow> reg_state \<Rightarrow> reg_state \<Rightarrow> bool" for failing where
  reserved: "start_reserve j (rgRunner s) = Inr r \<Longrightarrow>
     reg_step failing s (s\<lparr>rgRunner := r, rgStarting := j # rgStarting s\<rparr>)"
| created: "j \<in> set (rgStarting s) \<Longrightarrow> run \<notin> set (rgIssued s) \<Longrightarrow> run \<noteq> [] \<Longrightarrow>
     reg_step failing s (s\<lparr>rgStarting := remove1 j (rgStarting s), rgCreated := (run, j) # rgCreated s, rgIssued := run # rgIssued s\<rparr>)"
| not_created: "failing \<Longrightarrow> j \<in> set (rgStarting s) \<Longrightarrow>
     reg_step failing s (s\<lparr>rgRunner := start_failed j (rgRunner s), rgStarting := remove1 j (rgStarting s)\<rparr>)"
| published: "(run, j) \<in> set (rgCreated s) \<Longrightarrow>
     reg_step failing s (s\<lparr>rgRunner := start_publish (new_handle now run j ds pv) (rgRunner s),
       rgCreated := remove1 (run, j) (rgCreated s), rgRunning := (run, j) # rgRunning s\<rparr>)"
| queued: "QueueNext j (rgRunner s) = (b, r) \<Longrightarrow> reg_step failing s (s\<lparr>rgRunner := r\<rparr>)"
| cancelled: "run_Cancel run (rgRunner s) = (e, r) \<Longrightarrow> reg_step failing s (s\<lparr>rgRunner := r\<rparr>)"
| finished: "(run, j) \<in> set (rgRunning s) \<Longrightarrow> finish run j (rgRunner s) = (dq, r) \<Longrightarrow>
     reg_step failing s (s\<lparr>rgRunner := wait_done r, rgRunning := remove1 (run, j) (rgRunning s),
       rgDequeued := (if dq then j # rgDequeued s else rgDequeued s)\<rparr>)"
| dequeued: "j \<in> set (rgDequeued s) \<Longrightarrow> start_reserve j (rgRunner s) = Inr r \<Longrightarrow>
     reg_step failing s (s\<lparr>rgRunner := r, rgStarting := j # rgStarting s, rgDequeued := remove1 j (rgDequeued s)\<rparr>)"
| dropped: "j \<in> set (rgDequeued s) \<Longrightarrow> reg_step failing s (s\<lparr>rgDequeued := remove1 j (rgDequeued s)\<rparr>)"
| shutdown_starts: "reg_step failing s (s\<lparr>rgRunner := shutdown_begin (rgRunner s)\<rparr>)"
| shutdown_returns: "rnClosing (rgRunner s) \<Longrightarrow> rnWait (rgRunner s) = 0 \<Longrightarrow> reg_step failing s (s\<lparr>rgReturned := True\<rparr>)"

text \<open>The invariant, over the lists, the job of each active run and the run of each busy job.\<close>

definition jobs_of :: "runner \<Rightarrow> string \<Rightarrow> string option" where
  "jobs_of r run = map_option hdJobID (goget (rnActive r) run)"

definition busy :: "reg_state \<Rightarrow> string list" where
  "busy s = rgStarting s @ map snd (rgCreated s) @ map snd (rgRunning s)"

definition run_ids :: "reg_state \<Rightarrow> string list" where
  "run_ids s = map fst (rgCreated s) @ map fst (rgRunning s)"

definition reg_inv :: "reg_state \<Rightarrow> bool" where
  "reg_inv s \<longleftrightarrow>
     distinct (busy s) \<and> set (busy s) = dom (goget (rnByJob (rgRunner s)))
     \<and> distinct (run_ids s) \<and> set (run_ids s) \<subseteq> set (rgIssued s)
     \<and> Map.graph (jobs_of (rgRunner s)) = set (rgRunning s)
     \<and> (\<forall>p \<in> set (rgRunning s). goget (rnByJob (rgRunner s)) (snd p) = Some (fst p))
     \<and> rnWait (rgRunner s) = int (length (rgRunning s))"

lemma reg_invI:
  assumes "distinct (busy s)" "set (busy s) = dom (goget (rnByJob (rgRunner s)))" "distinct (run_ids s)"
    "set (run_ids s) \<subseteq> set (rgIssued s)" "Map.graph (jobs_of (rgRunner s)) = set (rgRunning s)"
    "\<And>p. p \<in> set (rgRunning s) \<Longrightarrow> goget (rnByJob (rgRunner s)) (snd p) = Some (fst p)"
    "rnWait (rgRunner s) = int (length (rgRunning s))"
  shows "reg_inv s"
  using assms by (simp add: reg_inv_def)

lemma reg_invD:
  assumes "reg_inv s"
  shows "distinct (busy s)" "set (busy s) = dom (goget (rnByJob (rgRunner s)))" "distinct (run_ids s)"
    "set (run_ids s) \<subseteq> set (rgIssued s)" "Map.graph (jobs_of (rgRunner s)) = set (rgRunning s)"
    "\<And>p. p \<in> set (rgRunning s) \<Longrightarrow> goget (rnByJob (rgRunner s)) (snd p) = Some (fst p)"
    "rnWait (rgRunner s) = int (length (rgRunning s))"
  using assms by (simp_all add: reg_inv_def)

text \<open>Lists with the same elements, and a list with one element less.\<close>

lemma distinct_permuted: "mset xs = mset ys \<Longrightarrow> distinct ys \<Longrightarrow> distinct xs \<and> set xs = set ys"
  using mset_eq_imp_distinct_iff mset_eq_setD by blast

lemma distinct_without:
  assumes "mset ys = add_mset j (mset xs)" "distinct ys"
  shows "distinct xs \<and> set xs = set ys - {j} \<and> j \<in> set ys"
proof -
  have "distinct (j # xs) \<and> set (j # xs) = set ys" using distinct_permuted [of "j # xs" ys] assms by simp
  then show ?thesis by auto
qed

lemma mset_map_remove1: "x \<in> set xs \<Longrightarrow> mset (map f xs) = add_mset (f x) (mset (map f (remove1 x xs)))"
  by (induction xs) auto

lemma inv_reserved:
  assumes "reg_inv s" "start_reserve j (rgRunner s) = Inr r"
  shows "reg_inv (s\<lparr>rgRunner := r, rgStarting := j # rgStarting s, rgDequeued := dq\<rparr>)" (is "reg_inv ?s")
proof -
  note i = reg_invD [OF assms(1)]
  have r: "goget (rnByJob (rgRunner s)) j = None" "r = rgRunner s\<lparr>rnByJob := goput j [] (rnByJob (rgRunner s))\<rparr>"
    using assms(2) by (auto simp: start_reserve_def split: if_splits)
  have b: "busy ?s = j # busy s" "run_ids ?s = run_ids s" by (simp_all add: busy_def run_ids_def)
  have g: "goget (rnByJob r) = (goget (rnByJob (rgRunner s)))(j \<mapsto> [])" by (simp add: r(2) gm.get_put fun_eq_iff)
  show ?thesis
  proof (rule reg_invI)
    show "distinct (busy ?s)" unfolding b using i(1,2) r(1) by auto
    show "set (busy ?s) = dom (goget (rnByJob (rgRunner ?s)))" unfolding b using i(2) g by simp
    show "goget (rnByJob (rgRunner ?s)) (snd p) = Some (fst p)" if "p \<in> set (rgRunning ?s)" for p
      using that i(6) [of p] r(1) g by auto
  qed (use i in \<open>simp_all add: run_ids_def r(2) jobs_of_def [abs_def]\<close>)
qed

lemma inv_created:
  assumes "reg_inv s" "j \<in> set (rgStarting s)" "run \<notin> set (rgIssued s)"
  shows "reg_inv (s\<lparr>rgStarting := remove1 j (rgStarting s), rgCreated := (run, j) # rgCreated s, rgIssued := run # rgIssued s\<rparr>)" (is "reg_inv ?s")
proof -
  note i = reg_invD [OF assms(1)]
  have "mset (busy ?s) = mset (busy s)"
    using mset_map_remove1 [OF assms(2), of id] by (simp add: busy_def)
  note b = distinct_permuted [OF this i(1)]
  have r: "run_ids ?s = run # run_ids s" by (simp add: run_ids_def)
  show ?thesis
  proof (rule reg_invI)
    show "distinct (run_ids ?s)" unfolding r using i(3,4) assms(3) by auto
    show "set (run_ids ?s) \<subseteq> set (rgIssued ?s)" unfolding r using i(4) by auto
  qed (use i b in simp_all)
qed

lemma inv_not_created:
  assumes "reg_inv s" "j \<in> set (rgStarting s)"
  shows "reg_inv (s\<lparr>rgRunner := start_failed j (rgRunner s), rgStarting := remove1 j (rgStarting s)\<rparr>)" (is "reg_inv ?s")
proof -
  note i = reg_invD [OF assms(1)]
  have "mset (busy s) = add_mset j (mset (busy ?s))"
    using mset_map_remove1 [OF assms(2), of id] by (simp add: busy_def)
  note b = distinct_without [OF this i(1)]
  have g: "goget (rnByJob (rgRunner ?s)) = (goget (rnByJob (rgRunner s)))(j := None)"
    by (simp add: start_failed_def AList.delete_conv')
  have "snd p \<noteq> j" if "p \<in> set (rgRunning s)" for p using i(1) assms(2) that by (auto simp: busy_def)
  then show ?thesis using i b g
    by (intro reg_invI) (simp_all add: run_ids_def start_failed_def jobs_of_def [abs_def])
qed

lemma inv_published:
  assumes "reg_inv s" "(run, j) \<in> set (rgCreated s)"
  shows "reg_inv (s\<lparr>rgRunner := start_publish (new_handle now run j ds pv) (rgRunner s),
       rgCreated := remove1 (run, j) (rgCreated s), rgRunning := (run, j) # rgRunning s\<rparr>)" (is "reg_inv ?s")
proof -
  note i = reg_invD [OF assms(1)]
  have "mset (busy ?s) = mset (busy s)" "mset (run_ids ?s) = mset (run_ids s)"
    using mset_map_remove1 [OF assms(2), of snd] mset_map_remove1 [OF assms(2), of fst] by (simp_all add: busy_def run_ids_def)
  note b = distinct_permuted [OF this(1) i(1)] distinct_permuted [OF this(2) i(3)]
  have n: "run \<notin> fst ` set (rgRunning s)" using i(3) assms(2) by (force simp: run_ids_def)
  have o: "snd p \<noteq> j" if "p \<in> set (rgRunning s)" for p using i(1) assms(2) that by (force simp: busy_def)
  have "j \<in> set (busy s)" using assms(2) by (force simp: busy_def)
  have g: "goget (rnByJob (rgRunner ?s)) = (goget (rnByJob (rgRunner s)))(j \<mapsto> run)"
    "jobs_of (rgRunner ?s) = (jobs_of (rgRunner s))(run \<mapsto> j)" "rnWait (rgRunner ?s) = rnWait (rgRunner s) + 1"
    by (auto simp: start_publish_def new_handle_def gm.get_put jobs_of_def fun_eq_iff)
  have "{e \<in> set (rgRunning s). fst e \<noteq> run} = set (rgRunning s)" using n by force
  then have "Map.graph (jobs_of (rgRunner ?s)) = set (rgRunning ?s)"
    unfolding g(2) graph_map_upd graph_fun_upd_None i(5) by simp
  moreover have "goget (rnByJob (rgRunner ?s)) (snd p) = Some (fst p)" if "p \<in> set (rgRunning ?s)" for p
    using that o [of p] i(6) [of p] unfolding g by auto
  moreover have "set (busy ?s) = dom (goget (rnByJob (rgRunner ?s)))"
    unfolding g(1) using b(1) i(2) \<open>j \<in> set (busy s)\<close> by auto
  ultimately show ?thesis using i b g(3) by (intro reg_invI) auto
qed

lemma inv_finished:
  assumes "reg_inv s" "(run, j) \<in> set (rgRunning s)" "finish run j (rgRunner s) = (dq, r)"
  shows "reg_inv (s\<lparr>rgRunner := wait_done r, rgRunning := remove1 (run, j) (rgRunning s), rgDequeued := d\<rparr>)" (is "reg_inv ?s")
proof -
  note i = reg_invD [OF assms(1)]
  have "mset (busy s) = add_mset j (mset (busy ?s))" "mset (run_ids s) = add_mset run (mset (run_ids ?s))"
    using mset_map_remove1 [OF assms(2), of snd] mset_map_remove1 [OF assms(2), of fst] by (simp_all add: busy_def run_ids_def)
  note b = distinct_without [OF this(1) i(1)] distinct_without [OF this(2) i(3)]
  have d: "distinct (map snd (rgRunning s))" "distinct (map fst (rgRunning s))"
    using i(1,3) by (simp_all add: busy_def run_ids_def)
  then have set: "set (remove1 (run, j) (rgRunning s)) = set (rgRunning s) - {(run, j)}"
    by (simp add: distinct_map set_remove1_eq)
  have same: "snd p = j \<longleftrightarrow> p = (run, j)" "fst p = run \<longleftrightarrow> p = (run, j)" if "p \<in> set (rgRunning s)" for p
    using that assms(2) d inj_onD [of snd "set (rgRunning s)" p "(run, j)"] inj_onD [of fst "set (rgRunning s)" p "(run, j)"]
    by (auto simp: distinct_map)
  have g: "goget (rnByJob (rgRunner ?s)) = (goget (rnByJob (rgRunner s)))(j := None)"
    "jobs_of (rgRunner ?s) = (jobs_of (rgRunner s))(run := None)" "rnWait (rgRunner ?s) = rnWait (rgRunner s) - 1"
    using assms(3) by (auto simp: finish_def wait_done_def AList.delete_conv' jobs_of_def fun_eq_iff)
  have "{e \<in> set (rgRunning s). fst e \<noteq> run} = set (rgRunning s) - {(run, j)}" using same(2) by blast
  then have "Map.graph (jobs_of (rgRunner ?s)) = set (rgRunning ?s)"
    unfolding g(2) graph_fun_upd_None i(5) using set by simp
  moreover have "goget (rnByJob (rgRunner ?s)) (snd p) = Some (fst p)" if "p \<in> set (rgRunning ?s)" for p
    using that same(1) [of p] i(6) [of p] unfolding g using set by auto
  moreover have "int (length (remove1 (run, j) (rgRunning s))) = int (length (rgRunning s)) - 1"
    using assms(2) length_pos_if_in_set [OF assms(2)] by (simp add: length_remove1 int_ops(6) Suc_le_eq)
  ultimately show ?thesis using i b g by (intro reg_invI) auto
qed

text \<open>Steps that leave the jobs and the runs as they are.\<close>

lemma inv_same:
  assumes "reg_inv s" "rnByJob r = rnByJob (rgRunner s)" "jobs_of r = jobs_of (rgRunner s)" "rnWait r = rnWait (rgRunner s)"
  shows "reg_inv (s\<lparr>rgRunner := r\<rparr>)"
  using reg_invD [OF assms(1)] assms(2-4) by (intro reg_invI) (simp_all add: busy_def run_ids_def)

lemma map_of_cancel: "goget (map (\<lambda>(i, h). (i, cancel_handle h)) m) run = map_option cancel_handle (goget m run)"
  by (induction m) auto

lemma cancel_handle_job [simp]: "hdJobID (cancel_handle h) = hdJobID h"
  by (simp add: cancel_handle_def)

lemma jobs_unchanged:
  "QueueNext j r = (b, r') \<Longrightarrow> jobs_of r' = jobs_of r \<and> rnByJob r' = rnByJob r \<and> rnWait r' = rnWait r \<and> rnClosing r' = rnClosing r"
  "run_Cancel run r = (e, r') \<Longrightarrow> jobs_of r' = jobs_of r \<and> rnByJob r' = rnByJob r \<and> rnWait r' = rnWait r \<and> rnClosing r' = rnClosing r"
  "jobs_of (shutdown_begin r) = jobs_of r \<and> rnByJob (shutdown_begin r) = rnByJob r \<and> rnWait (shutdown_begin r) = rnWait r"
  by (auto simp: QueueNext_def run_Cancel_def shutdown_begin_def jobs_of_def fun_eq_iff gm.get_put map_of_cancel option.map_comp comp_def
      split: if_splits option.splits)

lemma inv_frame: "reg_inv (s\<lparr>rgReturned := b\<rparr>) = reg_inv s" "reg_inv (s\<lparr>rgDequeued := ds\<rparr>) = reg_inv s"
  by (simp_all add: reg_inv_def busy_def run_ids_def)

lemma reg_inv_step: "reg_step failing s s' \<Longrightarrow> reg_inv s \<Longrightarrow> reg_inv s'"
proof (induction rule: reg_step.induct)
  case (reserved j s r)
  then show ?case using inv_reserved [of s j r "rgDequeued s"] by simp
next
  case (dequeued j s r)
  then show ?case using inv_reserved [of s j r "remove1 j (rgDequeued s)"] by simp
next
  case (finished run j s dq r)
  then show ?case by (intro inv_finished)
next
  case (queued j s b r)
  then show ?case using jobs_unchanged(1) inv_same by metis
next
  case (cancelled run s e r)
  then show ?case using jobs_unchanged(2) inv_same by metis
next
  case (shutdown_starts s)
  then show ?case using jobs_unchanged(3) inv_same by metis
next
  case (created j s run)
  then show ?case by (intro inv_created)
next
  case (not_created j s)
  then show ?case by (intro inv_not_created)
next
  case (published run j s now ds pv)
  then show ?case by (intro inv_published)
qed (simp_all only: inv_frame)

lemma reg_inv_reachable: "(reg_step failing)\<^sup>*\<^sup>* reg_start s \<Longrightarrow> reg_inv s"
proof (induction rule: rtranclp_induct)
  case base
  show ?case by (simp add: reg_inv_def reg_start_def busy_def run_ids_def New_def jobs_of_def [abs_def])
next
  case (step s s')
  then show ?case using reg_inv_step by blast
qed


lemma active_running: "reg_inv s \<Longrightarrow> goget (rnActive (rgRunner s)) run = Some h \<Longrightarrow> (run, hdJobID h) \<in> set (rgRunning s)"
  using reg_invD(5) [of s] by (auto simp: Map.graph_def jobs_of_def)

definition queue_ok :: "runner \<Rightarrow> bool" where
  "queue_ok r \<longleftrightarrow> (\<forall>j. is_queued r j \<longrightarrow> ActiveForJob j r)"

lemma queue_step: "reg_step False s s' \<Longrightarrow> queue_ok (rgRunner s) \<Longrightarrow> queue_ok (rgRunner s')"
  by (induction rule: reg_step.induct)
    (auto simp: queue_ok_def is_queued_def ActiveForJob_def start_reserve_def start_publish_def QueueNext_def run_Cancel_def
      finish_def wait_done_def shutdown_begin_def gm.get_put AList.delete_conv' split: if_splits option.splits)

lemma queue_reachable: "(reg_step False)\<^sup>*\<^sup>* reg_start s \<Longrightarrow> queue_ok (rgRunner s)"
proof (induction rule: rtranclp_induct)
  case base
  show ?case by (simp add: queue_ok_def reg_start_def New_def is_queued_def)
qed (blast intro: queue_step)

definition quiet :: "reg_state \<Rightarrow> bool" where
  "quiet s \<longleftrightarrow> rnClosing (rgRunner s) \<and> rgStarting s = [] \<and> rgCreated s = [] \<and> rgRunning s = []"

lemma quiet_step: "reg_step failing s s' \<Longrightarrow> quiet s \<Longrightarrow> quiet s'"
  by (induction rule: reg_step.induct)
    (auto simp: quiet_def start_reserve_def QueueNext_def run_Cancel_def shutdown_begin_def split: if_splits option.splits)

lemma quiet_steps: "(reg_step failing)\<^sup>*\<^sup>* s s' \<Longrightarrow> quiet s \<Longrightarrow> quiet s'"
  by (induction rule: rtranclp_induct) (auto intro: quiet_step)


section \<open>Properties\<close>


text \<open>
  a queued run is served or dropped, never both and never neither. As long as creating runs
  does not fail, a job with a queued run is busy; when its run finishes, the queued one is started
  unless the server is closing, and the slot is free again in either case.
\<close>

theorem queue_slot_is_served:
  assumes "(reg_step False)\<^sup>*\<^sup>* reg_start s" "is_queued (rgRunner s) j"
  shows "j \<in> set (busy s) \<and> fst (finish run j (rgRunner s)) = (\<not> rnClosing (rgRunner s))
    \<and> \<not> is_queued (snd (finish run j (rgRunner s))) j"
proof -
  have "ActiveForJob j (rgRunner s)" using queue_reachable [OF assms(1)] assms(2) by (simp add: queue_ok_def)
  then have "j \<in> set (busy s)" using reg_invD(2) [OF reg_inv_reachable [OF assms(1)]] by (auto simp: ActiveForJob_def)
  then show ?thesis using assms(2) by (simp add: finish_def is_queued_def AList.delete_conv')
qed

text \<open>
  shutdown is final, if no start is under way. Once the server is closing, its wait group is at
  zero and no start lies between its reservation and its publication, no run is ever active again.
\<close>

theorem shutdown_is_final:
  assumes "(reg_step failing)\<^sup>*\<^sup>* reg_start s" "rnClosing (rgRunner s)" "rnWait (rgRunner s) = 0"
    and "rgStarting s = []" "rgCreated s = []" "(reg_step failing)\<^sup>*\<^sup>* s s'"
  shows "rnActive (rgRunner s') = [] \<and> \<not> ActiveForJob j (rgRunner s')"
proof -
  have inv: "reg_inv s" using assms(1) by (rule reg_inv_reachable)
  have "quiet s" using reg_invD(7) [OF inv] assms(2-5) by (simp add: quiet_def)
  then have q: "quiet s'" using quiet_steps assms(6) by blast
  have inv': "reg_inv s'" using reg_inv_reachable rtranclp_trans [OF assms(1,6)] by blast
  have "goget (rnActive (rgRunner s')) run = None" for run
    using active_running [OF inv', of run] q by (cases "goget (rnActive (rgRunner s')) run") (auto simp: quiet_def)
  then have "rnActive (rgRunner s') = []" by (metis map_of_eq_empty_iff ext)
  moreover have "\<not> ActiveForJob j (rgRunner s')"
    using reg_invD(2) [OF inv'] q by (auto simp: ActiveForJob_def quiet_def busy_def)
  ultimately show ?thesis ..
qed

text \<open>A run of job \<open>j\<close> with another one queued behind it.\<close>

definition reserved_state :: reg_state where
  "reserved_state = reg_start\<lparr>rgRunner := New\<lparr>rnByJob := [(''j'', [])]\<rparr>, rgStarting := [''j'']\<rparr>"

lemma reserved_reachable: "(reg_step failing)\<^sup>*\<^sup>* reg_start reserved_state"
proof -
  have "start_reserve ''j'' (rgRunner reg_start) = Inr (New\<lparr>rnByJob := [(''j'', [])]\<rparr>)"
    by (simp add: start_reserve_def reg_start_def New_def)
  from reg_step.reserved [OF this] show ?thesis by (auto simp: reserved_state_def reg_start_def)
qed

definition running_state :: reg_state where
  "running_state = reserved_state\<lparr>rgStarting := [], rgRunning := [(''r'', ''j'')], rgIssued := [''r''],
     rgRunner := start_publish (new_handle 0 ''r'' ''j'' [''d''] False) (rgRunner reserved_state)\<rparr>"

lemma running_reachable: "(reg_step failing)\<^sup>*\<^sup>* reg_start running_state"
proof -
  let ?c = "reserved_state\<lparr>rgStarting := [], rgCreated := [(''r'', ''j'')], rgIssued := [''r'']\<rparr>"
  have "reg_step failing reserved_state ?c"
    using reg_step.created [of "''j''" reserved_state "''r''" failing] by (simp add: reserved_state_def reg_start_def)
  moreover have "reg_step failing ?c running_state"
    using reg_step.published [of "''r''" "''j''" ?c failing 0 "[''d'']" False]
    by (simp add: running_state_def reserved_state_def reg_start_def)
  ultimately show ?thesis using reserved_reachable by (meson rtranclp.rtrancl_into_rtrancl)
qed


definition queued_state :: reg_state where
  "queued_state = running_state\<lparr>rgRunner := (rgRunner running_state)\<lparr>rnQueued := [(''j'', True)]\<rparr>\<rparr>"

theorem queue_slot_is_served_witness: "fst (finish ''r'' ''j'' (rgRunner queued_state))"
proof -
  have "QueueNext ''j'' (rgRunner running_state) = (True, rgRunner queued_state)"
    by (simp add: QueueNext_def queued_state_def running_state_def reserved_state_def reg_start_def start_publish_def new_handle_def New_def is_queued_def)
  from reg_step.queued [OF this] have "(reg_step False)\<^sup>*\<^sup>* reg_start queued_state"
    using running_reachable by (metis queued_state_def rtranclp.rtrancl_into_rtrancl reg_state.select_convs(1) reg_state.surjective reg_state.update_convs(1))
  moreover have "is_queued (rgRunner queued_state) ''j''" by (simp add: is_queued_def queued_state_def)
  moreover have "\<not> rnClosing (rgRunner queued_state)"
    by (simp add: queued_state_def running_state_def reserved_state_def reg_start_def start_publish_def New_def)
  ultimately show ?thesis using queue_slot_is_served [of queued_state "''j''" "''r''"] by blast
qed

theorem shutdown_is_final_witness: "rnActive (rgRunner (reg_start\<lparr>rgRunner := shutdown_begin New\<rparr>)) = []"
proof -
  let ?s = "reg_start\<lparr>rgRunner := shutdown_begin New\<rparr>"
  have "reg_step False reg_start ?s" using reg_step.shutdown_starts [of False reg_start] by (simp add: reg_start_def)
  then have "(reg_step False)\<^sup>*\<^sup>* reg_start ?s" by simp
  from shutdown_is_final [OF this _ _ _ _ rtranclp.rtrancl_refl] show ?thesis
    by (simp add: shutdown_begin_def New_def reg_start_def)
qed

text \<open>
  a failed start strands the queue. A trigger that arrives while a start waits for the database
  is queued behind it; when creating the run then fails, the job is free again but the slot stays
  taken, with no run left that will serve it.
\<close>

theorem failed_start_strands_the_queue:
  "\<exists>s. (reg_step True)\<^sup>*\<^sup>* reg_start s \<and> is_queued (rgRunner s) ''j'' \<and> busy s = [] \<and> rgDequeued s = []
     \<and> \<not> ActiveForJob ''j'' (rgRunner s)"
proof -
  let ?q = "reserved_state\<lparr>rgRunner := (rgRunner reserved_state)\<lparr>rnQueued := [(''j'', True)]\<rparr>\<rparr>"
  let ?f = "?q\<lparr>rgRunner := start_failed ''j'' (rgRunner ?q), rgStarting := remove1 ''j'' (rgStarting ?q)\<rparr>"
  have "QueueNext ''j'' (rgRunner reserved_state) = (True, rgRunner ?q)"
    by (simp add: QueueNext_def reserved_state_def reg_start_def New_def is_queued_def)
  then have "reg_step True reserved_state ?q" using reg_step.queued [of "''j''" reserved_state True "rgRunner ?q" True] by simp
  moreover have "reg_step True ?q ?f"
    by (rule reg_step.not_created) (simp_all add: reserved_state_def)
  ultimately have "(reg_step True)\<^sup>*\<^sup>* reg_start ?f" using reserved_reachable [of True] by (meson rtranclp.rtrancl_into_rtrancl)
  moreover have "is_queued (rgRunner ?f) ''j'' \<and> busy ?f = [] \<and> rgDequeued ?f = [] \<and> \<not> ActiveForJob ''j'' (rgRunner ?f)"
    by (simp add: is_queued_def busy_def ActiveForJob_def start_failed_def reserved_state_def reg_start_def New_def)
  ultimately show ?thesis by blast
qed

text \<open>
  shutdown can miss a start. A start that has reserved its job and is still creating its run is
  not counted by the wait group, so \<open>Shutdown\<close> returns; the run is published afterwards, active and
  not cancelled.
\<close>

theorem shutdown_can_miss_a_start:
  "\<exists>s h. (reg_step False)\<^sup>*\<^sup>* reg_start s \<and> rgReturned s \<and> goget (rnActive (rgRunner s)) ''r'' = Some h
     \<and> \<not> hdCancelled h \<and> \<not> hdCtxDone h"
proof -
  let ?a = "reserved_state\<lparr>rgRunner := shutdown_begin (rgRunner reserved_state)\<rparr>"
  let ?b = "?a\<lparr>rgReturned := True\<rparr>"
  let ?c = "?b\<lparr>rgStarting := remove1 ''j'' (rgStarting ?b), rgCreated := (''r'', ''j'') # rgCreated ?b, rgIssued := ''r'' # rgIssued ?b\<rparr>"
  let ?h = "new_handle 0 ''r'' ''j'' [''d''] False"
  let ?d = "?c\<lparr>rgRunner := start_publish ?h (rgRunner ?c), rgCreated := remove1 (''r'', ''j'') (rgCreated ?c), rgRunning := (''r'', ''j'') # rgRunning ?c\<rparr>"
  have "reg_step False reserved_state ?a" by (rule reg_step.shutdown_starts)
  moreover have "reg_step False ?a ?b"
    by (rule reg_step.shutdown_returns) (simp_all add: shutdown_begin_def reserved_state_def New_def)
  moreover have "reg_step False ?b ?c" by (rule reg_step.created) (simp_all add: reserved_state_def reg_start_def)
  moreover have "reg_step False ?c ?d" by (rule reg_step.published) simp
  ultimately have "(reg_step False)\<^sup>*\<^sup>* reg_start ?d" using reserved_reachable [of False] by (meson rtranclp.rtrancl_into_rtrancl)
  moreover have "rgReturned ?d \<and> goget (rnActive (rgRunner ?d)) ''r'' = Some ?h \<and> \<not> hdCancelled ?h \<and> \<not> hdCtxDone ?h"
    by (simp add: start_publish_def new_handle_def gm.get_put)
  ultimately show ?thesis by blast
qed

end
