(* ===== verification/Run_Events.thy ===== *)
theory Run_Events
  imports Engine_Exec
begin

text \<open>
  The event buffer of a run (\<open>src/internal/runner/events.go\<close>): events are kept until there are
  500 of them or someone flushes, and then go to the database in one batch. A batch the
  database refuses is lost to it. Each method is a step under the buffer's lock.
\<close>

record run_event =
  reLevel :: event_level
  reDest :: string
  rePath :: string
  reMessage :: string

record event_buffer =
  ebPending :: "run_event list"
  ebBatches :: "(run_event list \<times> bool) list"  \<comment> \<open>the batches handed to \<open>AppendEvents\<close> and whether it worked\<close>

definition newEventBuffer :: event_buffer where
  "newEventBuffer = \<lparr>ebPending = [], ebBatches = []\<rparr>"

definition flushThreshold :: nat where "flushThreshold = 500"

definition Flush :: "bool \<Rightarrow> event_buffer \<Rightarrow> event_buffer" where
  "Flush ok b =
     (let batch = ebPending b; b = b\<lparr>ebPending := []\<rparr>
      in if batch = [] then b else b\<lparr>ebBatches := ebBatches b @ [(batch, ok)]\<rparr>)"

definition AddFor :: "bool \<Rightarrow> string \<Rightarrow> event \<Rightarrow> event_buffer \<Rightarrow> event_buffer" where
  "AddFor ok d ev b =
     (let b = b\<lparr>ebPending := ebPending b @ [\<lparr>reLevel = evLevel ev, reDest = d, rePath = evRelPath ev, reMessage = evMessage ev\<rparr>]\<rparr>
      in if length (ebPending b) \<ge> flushThreshold then Flush ok b else b)"

definition Add :: "bool \<Rightarrow> event \<Rightarrow> event_buffer \<Rightarrow> event_buffer" where
  "Add ok = AddFor ok []"

datatype slog_level = SlogInfo | SlogWarn | SlogError

definition levelToSlog :: "event_level \<Rightarrow> slog_level" where
  "levelToSlog l = (case l of LevelError \<Rightarrow> SlogError | LevelWarn \<Rightarrow> SlogWarn | LevelInfo \<Rightarrow> SlogInfo)"


section \<open>Properties\<close>

datatype buffer_op = OpAdd string event | OpFlush

fun buffer_step :: "buffer_op \<times> bool \<Rightarrow> event_buffer \<Rightarrow> event_buffer" where
  "buffer_step (OpAdd d ev, ok) = AddFor ok d ev"
| "buffer_step (OpFlush, ok) = Flush ok"

fun recorded :: "buffer_op \<Rightarrow> run_event list" where
  "recorded (OpAdd d ev) = [\<lparr>reLevel = evLevel ev, reDest = d, rePath = evRelPath ev, reMessage = evMessage ev\<rparr>]"
| "recorded OpFlush = []"

text \<open>What the buffer stands for: the batches in order, and then what is still pending.\<close>

definition all_events :: "event_buffer \<Rightarrow> run_event list" where
  "all_events b = concat (map fst (ebBatches b)) @ ebPending b"

lemma buffer_step_events:
  "all_events (buffer_step opk b) = all_events b @ recorded (fst opk)"
  "length (ebPending b) < flushThreshold \<Longrightarrow> length (ebPending (buffer_step opk b)) < flushThreshold"
  by (cases opk rule: buffer_step.cases; auto simp: all_events_def AddFor_def Flush_def Let_def flushThreshold_def)+

text \<open>
  the event buffer is a log. Whatever the sequence of events and flushes, the batches handed to
  the database followed by what is pending are exactly the events added, in their order and each
  once, and fewer than 500 of them are pending.
\<close>

theorem event_buffer_is_a_log:
  "all_events (fold buffer_step ops newEventBuffer) = concat (map (recorded \<circ> fst) ops)
   \<and> length (ebPending (fold buffer_step ops newEventBuffer)) < 500"
proof -
  have "all_events (fold buffer_step ops b) = all_events b @ concat (map (recorded \<circ> fst) ops)
      \<and> (length (ebPending b) < flushThreshold \<longrightarrow> length (ebPending (fold buffer_step ops b)) < flushThreshold)" for b
    by (induction ops arbitrary: b) (auto simp: buffer_step_events)
  from this [of newEventBuffer] show ?thesis by (simp add: newEventBuffer_def all_events_def flushThreshold_def)
qed

end
