(* ===== verification/Filter_Chain.thy ===== *)
theory Filter_Chain
  imports Scope "HOL-Library.Word"
begin

text \<open>
  Package \<open>filter\<close>: compiled patterns (\<^verbatim>\<open>src/internal/filter/pattern.go\<close>) and the
  include/exclude chain built from them (\<^verbatim>\<open>src/internal/filter/chain.go\<close>).

  The glob engine (\<^verbatim>\<open>github.com/bmatcuk/doublestar\<close>) is not part of the repository: its
  two entry points, and the Unicode tables behind \<open>strings.ToLower\<close>, are the fields of the
  record \<open>glob_env\<close>, an argument of every definition that uses them. \<open>glob_match\<close>
  returns \<open>None\<close> where \<open>doublestar.Match\<close> returns an error. No theorem below assumes
  anything about them.
\<close>

record glob_env =
  validate_pattern :: "string \<Rightarrow> bool"
  glob_match :: "string \<Rightarrow> string \<Rightarrow> bool option"
  unicode_lower :: "string \<Rightarrow> string"


section \<open>Patterns\<close>

record pattern =
  raw :: string
  glob :: string
  anchored :: bool
  dirOnly :: bool
  caseSensitive :: bool

datatype filter_error =
    EmptyPattern
  | SelectsNothing string
  | InvalidPattern string
  | InRule string filter_error

definition Compile :: "glob_env \<Rightarrow> string \<Rightarrow> bool \<Rightarrow> filter_error + pattern" where
  "Compile ge rw cs =
     (let t0 = TrimSpace rw
      in if t0 = [] then Inl EmptyPattern
         else
           let dir = HasSuffix t0 ''/'';
               t1 = (if dir then TrimSuffix t0 ''/'' else t0);
               explicitlyAnchored = HasPrefix t1 ''/'';
               t2 = (if explicitlyAnchored then TrimPrefix t1 ''/'' else t1)
           in if t2 = [] then Inl (SelectsNothing rw)
              else
                let anch = (if \<not> explicitlyAnchored \<and> \<not> Contains t2 ''/'' then False
                            else explicitlyAnchored);
                    g = (if cs then t2 else ToLower (unicode_lower ge) t2)
                in if \<not> validate_pattern ge g then Inl (InvalidPattern rw)
                   else Inr \<lparr>raw = rw, glob = g, anchored = anch, dirOnly = dir,
                             caseSensitive = cs\<rparr>)"

text \<open>\<open>err == nil && ok\<close> for a call of \<open>doublestar.Match\<close>.\<close>

definition glob_ok :: "glob_env \<Rightarrow> string \<Rightarrow> string \<Rightarrow> bool" where
  "glob_ok ge g s \<longleftrightarrow> glob_match ge g s = Some True"

definition Match :: "glob_env \<Rightarrow> pattern \<Rightarrow> string \<Rightarrow> bool \<Rightarrow> bool" where
  "Match ge p relPath isDir =
     (if dirOnly p \<and> \<not> isDir then False
      else
        let candidate = (if caseSensitive p then relPath else ToLower (unicode_lower ge) relPath)
        in if anchored p then glob_ok ge (glob p) candidate
           else if glob_ok ge (glob p) candidate then True
           else list_ex (glob_ok ge (glob p)) (slash_suffixes candidate))"

definition MatchesAncestor :: "glob_env \<Rightarrow> pattern \<Rightarrow> string \<Rightarrow> bool" where
  "MatchesAncestor ge p relPath = list_ex (\<lambda>d. Match ge p d True) (slash_prefixes relPath)"

lemma MatchesAncestor_iff:
  "MatchesAncestor ge p relPath \<longleftrightarrow> (\<exists>d. beneath d relPath \<and> Match ge p d True)"
  by (auto simp: MatchesAncestor_def list_ex_iff path_simps)

lemma Match_file_imp_dir: "Match ge p relPath False \<Longrightarrow> Match ge p relPath True"
  by (auto simp: Match_def Let_def split: if_splits)


section \<open>Rules\<close>

datatype direction = Include | Exclude

text \<open>The counters are \<open>uint64\<close>, so a tally wraps at \<open>2 ^ 64\<close>.\<close>

record rule =
  rID :: string
  Description :: string
  Direction :: direction
  Patterns :: "pattern list"
  admitted :: "64 word"
  excluded :: "64 word"

definition clone :: "rule \<Rightarrow> rule" where
  "clone r = \<lparr>rID = rID r, Description = Description r, Direction = Direction r,
              Patterns = Patterns r, admitted = 0, excluded = 0\<rparr>"

definition matches :: "glob_env \<Rightarrow> rule \<Rightarrow> string \<Rightarrow> bool \<Rightarrow> bool" where
  "matches ge r relPath isDir =
     list_ex (\<lambda>p. Match ge p relPath isDir \<or> MatchesAncestor ge p relPath) (Patterns r)"

definition count :: "bool \<Rightarrow> rule \<Rightarrow> rule" where
  "count adm r = (if adm then r\<lparr>admitted := admitted r + 1\<rparr> else r\<lparr>excluded := excluded r + 1\<rparr>)"

definition PatternCount :: "rule \<Rightarrow> nat" where
  "PatternCount r = length (Patterns r)"

fun compile_patterns :: "glob_env \<Rightarrow> string \<Rightarrow> bool \<Rightarrow> string list \<Rightarrow> filter_error + pattern list" where
  "compile_patterns ge description cs [] = Inr []"
| "compile_patterns ge description cs (rw # rws) =
     (let line = TrimSpace rw
      in if line = [] \<or> HasPrefix line ''#'' then compile_patterns ge description cs rws
         else case Compile ge line cs of
                Inl e \<Rightarrow> Inl (InRule description e)
              | Inr p \<Rightarrow>
                  (case compile_patterns ge description cs rws of
                     Inl e \<Rightarrow> Inl e
                   | Inr ps \<Rightarrow> Inr (p # ps)))"

definition CompileRule ::
  "glob_env \<Rightarrow> string \<Rightarrow> string \<Rightarrow> direction \<Rightarrow> string list \<Rightarrow> bool \<Rightarrow> filter_error + rule" where
  "CompileRule ge i description dir patterns cs =
     (case compile_patterns ge description cs patterns of
        Inl e \<Rightarrow> Inl e
      | Inr ps \<Rightarrow> Inr \<lparr>rID = i, Description = description, Direction = dir, Patterns = ps,
                       admitted = 0, excluded = 0\<rparr>)"


section \<open>Chains\<close>

record chain =
  includeRules :: "rule list"
  excludeRules :: "rule list"
  degraded :: bool
  degradedReason :: string

text \<open>A pointer to a rule of a chain: its list and position.\<close>

datatype rule_ref = Inc nat | Exc nat

definition NewChain :: "rule list \<Rightarrow> chain" where
  "NewChain rules =
     \<lparr>includeRules = filter (\<lambda>r. Direction r = Include) (map clone rules),
      excludeRules = filter (\<lambda>r. Direction r \<noteq> Include) (map clone rules),
      degraded = False, degradedReason = []\<rparr>"

definition MarkDegraded :: "string \<Rightarrow> chain \<Rightarrow> chain" where
  "MarkDegraded reason c =
     c\<lparr>degraded := True,
       degradedReason := (if degradedReason c = [] then reason else degradedReason c)\<rparr>"

text \<open>A nil chain is \<open>None\<close>.\<close>

definition chain_Degraded :: "chain option \<Rightarrow> bool \<times> string" where
  "chain_Degraded c = (case c of None \<Rightarrow> (False, []) | Some ch \<Rightarrow> (degraded ch, degradedReason ch))"

definition chain_Empty :: "chain \<Rightarrow> bool" where
  "chain_Empty c \<longleftrightarrow> includeRules c = [] \<and> excludeRules c = []"

text \<open>The position of the first rule that matches: the \<open>for ... break\<close> loops.\<close>

fun first_match :: "glob_env \<Rightarrow> string \<Rightarrow> bool \<Rightarrow> rule list \<Rightarrow> nat option" where
  "first_match ge relPath isDir [] = None"
| "first_match ge relPath isDir (r # rs) =
     (if matches ge r relPath isDir then Some 0
      else map_option Suc (first_match ge relPath isDir rs))"

definition decide :: "glob_env \<Rightarrow> chain option \<Rightarrow> string \<Rightarrow> bool \<Rightarrow> bool \<times> rule_ref option" where
  "decide ge co relPath isDir =
     (case co of
        None \<Rightarrow> (True, None)
      | Some c \<Rightarrow>
          if chain_Empty c then (True, None)
          else
            let matchedInclude = first_match ge relPath isDir (includeRules c)
            in if includeRules c \<noteq> [] \<and> matchedInclude = None then (False, None)
               else case first_match ge relPath isDir (excludeRules c) of
                      Some j \<Rightarrow> (False, Some (Exc j))
                    | None \<Rightarrow> (True, map_option Inc matchedInclude))"

fun count_ref :: "bool \<Rightarrow> rule_ref \<Rightarrow> chain \<Rightarrow> chain" where
  "count_ref adm (Inc i) c = c\<lparr>includeRules := (includeRules c)[i := count adm (includeRules c ! i)]\<rparr>"
| "count_ref adm (Exc i) c = c\<lparr>excludeRules := (excludeRules c)[i := count adm (excludeRules c ! i)]\<rparr>"

definition Explain :: "glob_env \<Rightarrow> chain option \<Rightarrow> string \<Rightarrow> bool \<Rightarrow> (bool \<times> rule_ref option) \<times> chain option" where
  "Explain ge co relPath isDir =
     (let (adm, r) = decide ge co relPath isDir
      in ((adm, r), (case r of None \<Rightarrow> co | Some ref \<Rightarrow> map_option (count_ref adm ref) co)))"

definition chain_Admits :: "glob_env \<Rightarrow> chain option \<Rightarrow> string \<Rightarrow> bool \<Rightarrow> bool \<times> chain option" where
  "chain_Admits ge co relPath isDir =
     (let (adm, r) = decide ge co relPath isDir
      in (adm, (case r of None \<Rightarrow> co | Some ref \<Rightarrow> map_option (count_ref adm ref) co)))"

definition chain_PrunesDir :: "glob_env \<Rightarrow> chain option \<Rightarrow> string \<Rightarrow> bool \<times> chain option" where
  "chain_PrunesDir ge co relPath =
     (case co of
        None \<Rightarrow> (False, None)
      | Some c \<Rightarrow>
          (case first_match ge relPath True (excludeRules c) of
             Some j \<Rightarrow> (True, Some (count_ref False (Exc j) c))
           | None \<Rightarrow> (False, Some c)))"

record counts =
  cRuleID :: string
  cDescription :: string
  cDirection :: direction
  cAdmitted :: "64 word"
  cExcluded :: "64 word"

definition Counts :: "chain option \<Rightarrow> counts list" where
  "Counts co =
     (case co of
        None \<Rightarrow> []
      | Some c \<Rightarrow>
          map (\<lambda>r. \<lparr>cRuleID = rID r, cDescription = Description r, cDirection = Direction r,
                    cAdmitted = admitted r, cExcluded = excluded r\<rparr>)
            (includeRules c @ excludeRules c))"

text \<open>The chain as the engine sees it.\<close>

definition chain_matcher :: "glob_env \<Rightarrow> chain option \<Rightarrow> matcher" where
  "chain_matcher ge co =
     \<lparr>Admits = (\<lambda>p isDir. fst (chain_Admits ge co p isDir)),
      PrunesDir = (\<lambda>d. fst (chain_PrunesDir ge co d)),
      Degraded = chain_Degraded co\<rparr>"


section \<open>What a pattern and a rule select\<close>

lemma slash_suffixes_iff: "q \<in> set (slash_suffixes s) \<longleftrightarrow> (\<exists>d. s = d @ slash # q)"
proof
  assume "q \<in> set (slash_suffixes s)"
  then obtain i where "i < length s" "s ! i = slash" "q = drop (Suc i) s"
    by (auto simp: slash_suffixes_def)
  then have "s = take i s @ slash # q" by (metis id_take_nth_drop)
  then show "\<exists>d. s = d @ slash # q" by blast
next
  assume "\<exists>d. s = d @ slash # q"
  then obtain d where s: "s = d @ slash # q" by blast
  then have "length d < length s" "s ! length d = slash" "drop (Suc (length d)) s = q" by auto
  then show "q \<in> set (slash_suffixes s)"
    unfolding slash_suffixes_def by (simp add: image_iff) metis
qed

lemma Match_unanchored_iff:
  "\<not> anchored p \<Longrightarrow> Match ge p s isDir \<longleftrightarrow>
     (dirOnly p \<longrightarrow> isDir)
     \<and> (let cand = (if caseSensitive p then s else ToLower (unicode_lower ge) s)
        in glob_ok ge (glob p) cand
           \<or> (\<exists>d q. cand = d @ slash # q \<and> glob_ok ge (glob p) q))"
  by (simp add: Match_def Let_def list_ex_iff Bex_def slash_suffixes_iff) blast

lemma matches_beneath:
  assumes "matches ge r d True" and "beneath d p"
  shows "matches ge r p isDir"
proof -
  obtain pt where pt: "pt \<in> set (Patterns r)" and m: "Match ge pt d True \<or> MatchesAncestor ge pt d"
    using assms(1) by (auto simp: matches_def list_ex_iff)
  have "MatchesAncestor ge pt p"
    using m assms(2) beneath_trans by (auto simp: MatchesAncestor_iff)
  with pt show ?thesis by (auto simp: matches_def list_ex_iff)
qed

lemma matches_clone [simp]: "matches ge (clone r) = matches ge r"
  by (simp add: matches_def clone_def fun_eq_iff)

lemma matches_count [simp]: "matches ge (count adm r) = matches ge r"
  by (simp add: matches_def count_def fun_eq_iff)

lemma Direction_clone [simp]: "Direction (clone r) = Direction r"
  by (simp add: clone_def)

lemma clone_count [simp]: "clone (count adm r) = clone r"
  by (simp add: clone_def count_def)


section \<open>What a chain decides\<close>

lemma first_match_None [simp]:
  "first_match ge p isDir rs = None \<longleftrightarrow> (\<forall>r \<in> set rs. \<not> matches ge r p isDir)"
  by (induction rs) auto

lemma first_match_SomeD:
  "first_match ge p isDir rs = Some i \<Longrightarrow>
     i < length rs \<and> matches ge (rs ! i) p isDir \<and> (\<forall>j < i. \<not> matches ge (rs ! j) p isDir)"
proof (induction rs arbitrary: i)
  case Nil
  then show ?case by simp
next
  case (Cons r rs)
  show ?case
  proof (cases "matches ge r p isDir")
    case True
    with Cons.prems show ?thesis by simp
  next
    case False
    with Cons.prems obtain k where k: "first_match ge p isDir rs = Some k" "i = Suc k" by auto
    with Cons.IH [OF k(1)] False show ?thesis
      by (auto simp: less_Suc_eq_0_disj)
  qed
qed

lemma first_match_list_update [simp]:
  "i < length rs \<Longrightarrow> first_match ge p isDir (rs[i := count adm (rs ! i)]) = first_match ge p isDir rs"
  by (induction rs arbitrary: i) (auto split: nat.splits)

text \<open>The evaluation order of the filter, as a predicate on the rule lists.\<close>

definition in_scope :: "glob_env \<Rightarrow> chain option \<Rightarrow> string \<Rightarrow> bool \<Rightarrow> bool" where
  "in_scope ge co p isDir \<longleftrightarrow>
     (case co of
        None \<Rightarrow> True
      | Some c \<Rightarrow>
          (includeRules c = [] \<or> (\<exists>r \<in> set (includeRules c). matches ge r p isDir))
          \<and> \<not> (\<exists>r \<in> set (excludeRules c). matches ge r p isDir))"

lemma decide_fst: "fst (decide ge co p isDir) = in_scope ge co p isDir"
  by (auto simp: decide_def in_scope_def chain_Empty_def Let_def
        split: option.splits dest!: first_match_SomeD)

lemma decide_rule_ref:
  "decide ge (Some c) p isDir = (adm, Some ref) \<Longrightarrow>
     (case ref of
        Inc i \<Rightarrow> adm \<and> i < length (includeRules c) \<and> matches ge (includeRules c ! i) p isDir
      | Exc j \<Rightarrow> \<not> adm \<and> j < length (excludeRules c) \<and> matches ge (excludeRules c ! j) p isDir)"
  by (auto simp: decide_def Let_def split: if_splits option.splits rule_ref.splits
        dest!: first_match_SomeD)

lemma Admits_fst: "fst (chain_Admits ge co p isDir) = in_scope ge co p isDir"
  by (simp add: chain_Admits_def case_prod_beta decide_fst)

lemma PrunesDir_fst:
  "fst (chain_PrunesDir ge co d) \<longleftrightarrow>
     (\<exists>c. co = Some c \<and> (\<exists>r \<in> set (excludeRules c). matches ge r d True))"
  by (auto simp: chain_PrunesDir_def split: option.splits dest!: first_match_SomeD)

interpretation chain_scope: scope_matcher
  "\<lambda>p isDir. fst (chain_Admits ge co p isDir)" "\<lambda>d. fst (chain_PrunesDir ge co d)" for ge co
  using matches_beneath
  by unfold_locales (fastforce simp: Admits_fst PrunesDir_fst in_scope_def)+

text \<open>
  A chain without its tallies. Verdicts depend on it alone, and no query changes it.
\<close>

definition erase :: "chain \<Rightarrow> chain" where
  "erase c = c\<lparr>includeRules := map clone (includeRules c), excludeRules := map clone (excludeRules c)\<rparr>"

lemma in_scope_erase: "in_scope ge (map_option erase co) p isDir = in_scope ge co p isDir"
  by (cases co) (simp_all add: in_scope_def erase_def)

lemma erase_count_ref [simp]: "erase (count_ref adm ref c) = erase c"
proof (cases ref)
  case (Inc i)
  then show ?thesis
    by (cases "i < length (includeRules c)") (simp_all add: erase_def map_update list_update_beyond list_update_same_conv)
next
  case (Exc i)
  then show ?thesis
    by (cases "i < length (excludeRules c)") (simp_all add: erase_def map_update list_update_beyond list_update_same_conv)
qed

lemma erase_Admits: "map_option erase (snd (chain_Admits ge co p isDir)) = map_option erase co"
  by (cases co) (auto simp: chain_Admits_def case_prod_beta split: option.splits)

lemma erase_PrunesDir: "map_option erase (snd (chain_PrunesDir ge co d)) = map_option erase co"
  by (cases co) (auto simp: chain_PrunesDir_def simp del: count_ref.simps split: option.splits)


section \<open>Tallies\<close>

text \<open>A sequence of queries against one chain, as the differ makes them.\<close>

fun Admits_seq :: "glob_env \<Rightarrow> chain \<Rightarrow> (string \<times> bool) list \<Rightarrow> chain" where
  "Admits_seq ge c [] = c"
| "Admits_seq ge c ((p, isDir) # qs) =
     (case snd (chain_Admits ge (Some c) p isDir) of
        None \<Rightarrow> c
      | Some c' \<Rightarrow> Admits_seq ge c' qs)"

definition tally :: "chain \<Rightarrow> 64 word" where
  "tally c = sum_list (map (\<lambda>r. admitted r + excluded r) (includeRules c @ excludeRules c))"

lemma sum_list_count:
  "i < length rs \<Longrightarrow>
     sum_list (map (\<lambda>r. admitted r + excluded r) (rs[i := count adm (rs ! i)]))
     = sum_list (map (\<lambda>r. admitted r + excluded r) rs) + (1 :: 64 word)"
  by (induction rs arbitrary: i) (auto simp: count_def algebra_simps split: nat.splits)

lemma chain_Admits_Some:
  "chain_Admits ge (Some c) p isDir =
     (in_scope ge (Some c) p isDir,
      Some (case snd (decide ge (Some c) p isDir) of
              None \<Rightarrow> c | Some ref \<Rightarrow> count_ref (in_scope ge (Some c) p isDir) ref c))"
  by (auto simp: chain_Admits_def case_prod_beta decide_fst split: option.splits)

lemma decide_erase: "snd (decide ge (Some (erase c)) p isDir) = snd (decide ge (Some c) p isDir)"
proof -
  have fm: "first_match ge p isDir (map clone rs) = first_match ge p isDir rs" for rs
    by (induction rs) auto
  show ?thesis by (simp add: decide_def erase_def chain_Empty_def fm cong: option.case_cong)
qed

lemma decide_erase_eq: "erase c = erase c' \<Longrightarrow> snd (decide ge (Some c) p isDir) = snd (decide ge (Some c') p isDir)"
  by (metis decide_erase)

lemma tally_Admits:
  "tally (the (snd (chain_Admits ge (Some c) p isDir))) =
     tally c + (if snd (decide ge (Some c) p isDir) = None then 0 else 1)"
proof (cases "snd (decide ge (Some c) p isDir)")
  case None
  then show ?thesis by (simp add: chain_Admits_Some)
next
  case (Some ref)
  then have d: "decide ge (Some c) p isDir = (in_scope ge (Some c) p isDir, Some ref)"
    by (simp add: prod_eq_iff decide_fst)
  have "tally (count_ref (in_scope ge (Some c) p isDir) ref c) = tally c + 1"
    using decide_rule_ref [OF d]
    by (cases ref) (auto simp: tally_def sum_list_count algebra_simps)
  with Some show ?thesis by (simp add: chain_Admits_Some)
qed

lemma erase_Admits_Some: "erase (the (snd (chain_Admits ge (Some c) p isDir))) = erase c"
  by (simp add: chain_Admits_Some split: option.splits)

lemma Admits_seq_Cons:
  "Admits_seq ge c ((p, isDir) # qs) = Admits_seq ge (the (snd (chain_Admits ge (Some c) p isDir))) qs"
  by (simp add: chain_Admits_Some)

declare Admits_seq.simps(2) [simp del]

lemma erase_Admits_seq: "erase (Admits_seq ge c qs) = erase c"
  by (induction qs arbitrary: c) (auto simp: Admits_seq_Cons erase_Admits_Some)

lemma tally_Admits_seq:
  "tally (Admits_seq ge c qs) =
     tally c + of_nat (length (filter (\<lambda>(p, isDir). snd (decide ge (Some c) p isDir) \<noteq> None) qs))"
proof (induction qs arbitrary: c)
  case Nil
  then show ?case by simp
next
  case (Cons q qs)
  obtain p isDir where q: "q = (p, isDir)" by (cases q)
  have "snd (decide ge (Some (the (snd (chain_Admits ge (Some c) p isDir)))) p' d')
        = snd (decide ge (Some c) p' d')" for p' d'
    by (rule decide_erase_eq) (rule erase_Admits_Some)
  then show ?case
    by (simp add: q Admits_seq_Cons Cons.IH tally_Admits algebra_simps)
qed

lemma tally_NewChain [simp]: "tally (NewChain rules) = 0"
proof -
  have "sum_list (map (\<lambda>r. admitted r + excluded r) (filter P (map clone rules))) = (0 :: 64 word)" for P
    by (induction rules) (auto simp: clone_def)
  then show ?thesis by (simp add: tally_def NewChain_def)
qed


section \<open>Compiling patterns\<close>

lemma compile_patterns_app:
  "compile_patterns ge d cs (xs @ ys) =
     (case compile_patterns ge d cs xs of
        Inl e \<Rightarrow> Inl e
      | Inr ps \<Rightarrow> (case compile_patterns ge d cs ys of Inl e \<Rightarrow> Inl e | Inr qs \<Rightarrow> Inr (ps @ qs)))"
  by (induction xs) (auto simp: Let_def split: sum.splits)

lemma HasSuffix_snoc [simp]: "HasSuffix (xs @ [c]) [d] \<longleftrightarrow> c = d"
  by (auto simp: HasSuffix_def)

lemma HasSuffix_last: "xs \<noteq> [] \<Longrightarrow> HasSuffix xs [d] \<longleftrightarrow> last xs = d"
  by (metis HasSuffix_snoc append_butlast_last_id)

lemma HasPrefix_hd: "HasPrefix xs [d] \<longleftrightarrow> xs \<noteq> [] \<and> hd xs = d"
  by (cases xs) (auto simp: HasPrefix_def)

lemma TrimSuffix_snoc [simp]: "TrimSuffix (xs @ [c]) [c] = xs"
  by (simp add: TrimSuffix_def)

lemma TrimPrefix_Cons [simp]: "TrimPrefix (c # xs) [c] = xs"
  by (simp add: TrimPrefix_def)

lemma Compile_parts:
  assumes body: "body \<noteq> []" "hd body \<noteq> slash" "last body \<noteq> slash"
    and rw: "rw = (if anch then ''/'' else []) @ body @ (if dir then ''/'' else [])"
    and trim: "TrimSpace rw = rw"
  shows "Compile ge rw cs =
     (let g = (if cs then body else ToLower (unicode_lower ge) body)
      in if validate_pattern ge g
         then Inr \<lparr>raw = rw, glob = g, anchored = anch, dirOnly = dir, caseSensitive = cs\<rparr>
         else Inl (InvalidPattern rw))"
proof -
  let ?t1 = "(if anch then ''/'' else []) @ body"
  have ne: "rw \<noteq> []" and t1ne: "?t1 \<noteq> []" using body rw by auto
  have lst: "last ?t1 \<noteq> slash" using body by auto
  have d: "HasSuffix rw ''/'' = dir"
    using lst t1ne by (cases dir) (simp_all add: rw HasSuffix_last flip: append_assoc)
  have t1: "(if dir then TrimSuffix rw ''/'' else rw) = ?t1"
    by (cases dir) (simp_all add: rw flip: append_assoc)
  have a: "HasPrefix ?t1 ''/'' = anch" using body by (cases anch) (simp_all add: HasPrefix_hd)
  have t2: "(if anch then TrimPrefix ?t1 ''/'' else ?t1) = body" by (cases anch) simp_all
  show ?thesis
    using ne body(1) unfolding Compile_def trim Let_def d t1 a t2 by auto
qed


section \<open>Properties\<close>

text \<open>
  C26: \<open>PrunesDir\<close> and \<open>Admits\<close> agree. When a chain prunes a directory, neither the
  directory nor any path beneath it is in scope, whatever else the chain holds: skipping
  the subtree during a walk hides no path the comparison would have considered.
\<close>

theorem PrunesDir_agrees_with_Admits:
  assumes "fst (chain_PrunesDir ge co d)"
  shows "\<not> fst (chain_Admits ge co d True)
       \<and> (\<forall>p isDir. beneath d p \<longrightarrow> \<not> fst (chain_Admits ge co p isDir))"
  using assms chain_scope.prune_self chain_scope.prune_beneath by blast

theorem PrunesDir_agrees_with_Admits_witness:
  "\<exists>ge co. fst (chain_PrunesDir ge co ''cache'')
     \<and> \<not> fst (chain_Admits ge co ''cache/x'' False)"
proof -
  let ?ge = "\<lparr>validate_pattern = (\<lambda>_. True), glob_match = (\<lambda>g s. Some (g = s)), unicode_lower = id\<rparr>"
  let ?p = "\<lparr>raw = ''cache/'', glob = ''cache'', anchored = False, dirOnly = True, caseSensitive = True\<rparr>"
  let ?r = "\<lparr>rID = ''1'', Description = ''caches'', Direction = Exclude, Patterns = [?p],
             admitted = 0, excluded = 0\<rparr>"
  let ?co = "Some (NewChain [?r])"
  have pr: "fst (chain_PrunesDir ?ge ?co ''cache'')"
    by (simp add: PrunesDir_fst NewChain_def clone_def matches_def Match_def glob_ok_def)
  have "beneath ''cache'' ''cache/x''" by (simp add: beneath_def)
  with PrunesDir_agrees_with_Admits [OF pr] pr show ?thesis by blast
qed

text \<open>
  the evaluation order. A path is in scope exactly when some include rule matches it
  (or there is no include rule) and no exclude rule matches it; a nil chain admits
  everything. The loops with their early exits compute that predicate.
\<close>

theorem Admits_evaluation_order:
  "fst (chain_Admits ge co p isDir) =
     (case co of
        None \<Rightarrow> True
      | Some c \<Rightarrow>
          (includeRules c = [] \<or> (\<exists>r \<in> set (includeRules c). matches ge r p isDir))
          \<and> (\<forall>r \<in> set (excludeRules c). \<not> matches ge r p isDir))"
  by (cases co) (auto simp: Admits_fst in_scope_def)

theorem Admits_evaluation_order_witness:
  "fst (chain_Admits \<lparr>validate_pattern = (\<lambda>_. True), glob_match = (\<lambda>_ _. None), unicode_lower = id\<rparr>
     (Some (NewChain [])) ''a'' False)"
  using Admits_evaluation_order [of "\<lparr>validate_pattern = (\<lambda>_. True), glob_match = (\<lambda>_ _. None),
      unicode_lower = id\<rparr>" "Some (NewChain [])" "''a''" False]
  by (simp add: NewChain_def)

text \<open>
  counting is only counting. After any sequence of queries every verdict is the one the
  fresh chain gives, and the per-rule tallies add up (modulo \<open>2 ^ 64\<close>) to the number of
  queries that one rule decided: each decided path is counted once.
\<close>

theorem Admits_tallies_once:
  "fst (chain_Admits ge (Some (Admits_seq ge (NewChain rules) qs)) p isDir)
     = fst (chain_Admits ge (Some (NewChain rules)) p isDir)
   \<and> tally (Admits_seq ge (NewChain rules) qs)
     = of_nat (length (filter (\<lambda>(q, d). snd (decide ge (Some (NewChain rules)) q d) \<noteq> None) qs))"
proof
  have "in_scope ge (Some (Admits_seq ge (NewChain rules) qs)) p isDir
        = in_scope ge (Some (NewChain rules)) p isDir"
    using in_scope_erase [of ge "Some (Admits_seq ge (NewChain rules) qs)"]
      in_scope_erase [of ge "Some (NewChain rules)"]
    by (simp add: erase_Admits_seq)
  then show "fst (chain_Admits ge (Some (Admits_seq ge (NewChain rules) qs)) p isDir)
     = fst (chain_Admits ge (Some (NewChain rules)) p isDir)"
    by (simp add: Admits_fst)
qed (simp add: tally_Admits_seq)

text \<open>
  pattern syntax. For a body without a leading or trailing slash, a leading slash anchors
  the pattern, a trailing slash restricts it to directories, both are stripped, and the rest
  is the glob, lowered unless the rule is case sensitive; the glob engine's verdict decides
  between success and the error.
\<close>

theorem Compile_syntax:
  assumes "body \<noteq> []" and "hd body \<noteq> slash" and "last body \<noteq> slash"
    and "TrimSpace ((if anch then ''/'' else []) @ body @ (if dir then ''/'' else []))
         = (if anch then ''/'' else []) @ body @ (if dir then ''/'' else [])"
  shows "Compile ge ((if anch then ''/'' else []) @ body @ (if dir then ''/'' else [])) cs =
     (let g = (if cs then body else ToLower (unicode_lower ge) body)
      in if validate_pattern ge g
         then Inr \<lparr>raw = (if anch then ''/'' else []) @ body @ (if dir then ''/'' else []),
                   glob = g, anchored = anch, dirOnly = dir, caseSensitive = cs\<rparr>
         else Inl (InvalidPattern ((if anch then ''/'' else []) @ body @ (if dir then ''/'' else []))))"
  by (rule Compile_parts [OF assms(1-3) refl assms(4)])

theorem Compile_syntax_witness:
  "Compile \<lparr>validate_pattern = (\<lambda>_. True), glob_match = (\<lambda>_ _. None), unicode_lower = id\<rparr> ''/a/'' True
   = Inr \<lparr>raw = ''/a/'', glob = ''a'', anchored = True, dirOnly = True, caseSensitive = True\<rparr>"
proof -
  have "TrimSpace ''/a/'' = ''/a/''" by code_simp
  then show ?thesis
    using Compile_syntax [of "''a''" True True
        "\<lparr>validate_pattern = (\<lambda>_. True), glob_match = (\<lambda>_ _. None), unicode_lower = id\<rparr>" True]
    by simp
qed

text \<open>
  a pattern without a leading slash matches at any depth: what a case-sensitive
  unanchored pattern selects at the sync root it also selects under every directory, and a
  rule that matches a directory matches everything beneath it.
\<close>

theorem unanchored_matches_any_depth:
  assumes "\<not> anchored p" and "caseSensitive p" and "Match ge p q isDir"
  shows "Match ge p (d @ ''/'' @ q) isDir"
proof -
  have "glob_ok ge (glob p) q \<or> (\<exists>d' q'. q = d' @ slash # q' \<and> glob_ok ge (glob p) q')"
    and dir: "dirOnly p \<longrightarrow> isDir"
    using assms(3) Match_unanchored_iff [OF assms(1), of ge q isDir] assms(2) by auto
  then have "\<exists>d' q'. d @ slash # q = d' @ slash # q' \<and> glob_ok ge (glob p) q'"
    by (metis append.assoc append_Cons)
  with dir show ?thesis
    using Match_unanchored_iff [OF assms(1), of ge "d @ ''/'' @ q" isDir] assms(2) by simp
qed

theorem unanchored_matches_any_depth_witness:
  "Match \<lparr>validate_pattern = (\<lambda>_. True), glob_match = (\<lambda>g s. Some (g = s)), unicode_lower = id\<rparr>
     \<lparr>raw = ''a'', glob = ''a'', anchored = False, dirOnly = False, caseSensitive = True\<rparr>
     (''x/y'' @ ''/'' @ ''a'') False"
  by (rule unanchored_matches_any_depth) (simp_all add: Match_def glob_ok_def)

end
