(* ===== verification/Filter_Files.thy ===== *)
theory Filter_Files
  imports Store_Types
begin

text \<open>
  Patterns from files (\<^verbatim>\<open>src/internal/filter/jsonkey.go\<close>): the plain list, and the dot-path
  query into a JSON document. The decoded document is a value of \<open>json\<close>; what
  \<open>json.Unmarshal\<close> makes of the bytes is an argument, and an object is a Go map, so its members
  have distinct names in no particular order.
\<close>

datatype json =
    JNull
  | JBool bool
  | JNumber string
  | JString string
  | JArray "json list"
  | JObject "(string \<times> json) list"

section \<open>Plain lists\<close>

abbreviation newline_char :: char where "newline_char \<equiv> CHR 0x0A"
abbreviation cr :: string where "cr \<equiv> [CHR 0x0D]"

definition clean_line :: "string \<Rightarrow> string" where
  "clean_line line = TrimSpace (TrimSuffix line cr)"

definition ParseList :: "string \<Rightarrow> string list" where
  "ParseList document =
     filter (\<lambda>line. \<not> (line = [] \<or> HasPrefix line ''#'')) (map clean_line (Split1 document newline_char))"

definition splitKeys :: "string \<Rightarrow> string list" where
  "splitKeys key = filter (\<lambda>line. line \<noteq> []) (map clean_line (Split1 key newline_char))"


section \<open>Dot paths\<close>

definition wildcardSegment :: string where "wildcardSegment = ''*''"

definition jsonTypeName :: "json \<Rightarrow> string" where
  "jsonTypeName v =
     (case v of JNull \<Rightarrow> ''null'' | JBool _ \<Rightarrow> ''a boolean'' | JNumber _ \<Rightarrow> ''a number'' | JString _ \<Rightarrow> ''a string''
      | JArray _ \<Rightarrow> ''a list'' | JObject _ \<Rightarrow> ''an object'')"

definition sorted_members :: "(string \<times> json) list \<Rightarrow> json list" where
  "sorted_members m = map (\<lambda>name. the (map_of m name)) (sort_Strings (map fst m))"

text \<open>
  One node of the walk and one segment: the nodes it leads to. An error is only reported when the
  key is not lenient; otherwise the node is dropped.
\<close>

definition step_node :: "(string \<Rightarrow> string) \<Rightarrow> string \<Rightarrow> bool \<Rightarrow> string \<Rightarrow> string \<Rightarrow> string \<Rightarrow> json \<Rightarrow> goerr + json list" where
  "step_node uq key lenient parent where segment node =
     (let miss = (\<lambda>msg. if lenient then Inr [] else Inl (new_error (''key '' @ fmt_q uq key @ msg) []))
      in case node of
           JObject m \<Rightarrow>
             if segment = wildcardSegment then Inr (sorted_members m)
             else (case map_of m segment of
                     None \<Rightarrow> miss ('' does not exist in the file (no '' @ fmt_q uq where @ '')'')
                   | Some v \<Rightarrow> Inr [v])
         | JArray xs \<Rightarrow>
             if segment = wildcardSegment then Inr xs
             else (case Atoi segment of
                     None \<Rightarrow> miss ('': '' @ fmt_q uq parent @ '' is an array, so '' @ fmt_q uq segment @ '' must be a number'')
                   | Some i \<Rightarrow>
                       if i < 0 \<or> i \<ge> int (length xs)
                       then miss ('': index '' @ fmt_int i @ '' is out of range, the array has '' @ fmt_nat (length xs) @ '' entries'')
                       else Inr [xs ! nat i])
         | _ \<Rightarrow> miss ('': '' @ fmt_q uq parent @ '' is not an object or an array''))"

fun step_nodes :: "(json \<Rightarrow> goerr + json list) \<Rightarrow> json list \<Rightarrow> goerr + json list" where
  "step_nodes f [] = Inr []"
| "step_nodes f (n # ns) =
     (case f n of
        Inl e \<Rightarrow> Inl e
      | Inr xs \<Rightarrow> (case step_nodes f ns of Inl e \<Rightarrow> Inl e | Inr ys \<Rightarrow> Inr (xs @ ys)))"

fun walk_key :: "(string \<Rightarrow> string) \<Rightarrow> string \<Rightarrow> bool \<Rightarrow> string list \<Rightarrow> string list \<Rightarrow> json list \<Rightarrow> goerr + json list" where
  "walk_key uq key lenient walked [] current = Inr current"
| "walk_key uq key lenient walked (segment # segments) current =
     (if segment = [] then Inl (new_error (''key '' @ fmt_q uq key @ '' has an empty path segment'') [])
      else
        let parent = Join walked ''.''; walked = walked @ [segment]; where = Join walked ''.''
        in case step_nodes (step_node uq key lenient parent where segment) current of
             Inl e \<Rightarrow> Inl e
           | Inr next \<Rightarrow> walk_key uq key lenient walked segments next)"

fun collect_items :: "(string \<Rightarrow> string) \<Rightarrow> string \<Rightarrow> bool \<Rightarrow> nat \<Rightarrow> json list \<Rightarrow> goerr + string list" where
  "collect_items uq key lenient i [] = Inr []"
| "collect_items uq key lenient i (item # items) =
     (case item of
        JString text \<Rightarrow>
          (case collect_items uq key lenient (Suc i) items of Inl e \<Rightarrow> Inl e | Inr ts \<Rightarrow> Inr (text # ts))
      | _ \<Rightarrow>
          if lenient then collect_items uq key lenient (Suc i) items
          else Inl (new_error (''key '' @ fmt_q uq key @ '': entry '' @ fmt_nat i @ '' is '' @ jsonTypeName item
                 @ '', but every entry must be a string'') []))"

fun collectPatterns :: "(string \<Rightarrow> string) \<Rightarrow> string \<Rightarrow> bool \<Rightarrow> json list \<Rightarrow> goerr + string list" where
  "collectPatterns uq key lenient [] = Inr []"
| "collectPatterns uq key lenient (node # nodes) =
     (case (case node of
              JString text \<Rightarrow> Inr [text]
            | JArray items \<Rightarrow> collect_items uq key lenient 0 items
            | _ \<Rightarrow> if lenient then Inr []
                   else Inl (new_error (''key '' @ fmt_q uq key @ '' holds '' @ jsonTypeName node
                          @ '', but it must be a list of patterns or a single pattern'') [])) of
        Inl e \<Rightarrow> Inl e
      | Inr ts \<Rightarrow> (case collectPatterns uq key lenient nodes of Inl e \<Rightarrow> Inl e | Inr us \<Rightarrow> Inr (ts @ us)))"

definition patternsAtOneKey :: "(string \<Rightarrow> string) \<Rightarrow> json \<Rightarrow> string \<Rightarrow> goerr + string list" where
  "patternsAtOneKey uq root key =
     (let segments = Split1 key (CHR ''.''); lenient = wildcardSegment \<in> set segments
      in case walk_key uq key lenient [] segments [root] of
           Inl e \<Rightarrow> Inl e
         | Inr nodes \<Rightarrow> collectPatterns uq key lenient nodes)"

fun union_keys :: "(string \<Rightarrow> goerr + string list) \<Rightarrow> string list \<Rightarrow> string list \<Rightarrow> goerr + string list" where
  "union_keys f [] patterns = Inr patterns"
| "union_keys f (k # ks) patterns =
     (case f k of
        Inl e \<Rightarrow> Inl e
      | Inr found \<Rightarrow> union_keys f ks (fold (\<lambda>p ps. if p \<in> set ps then ps else ps @ [p]) found patterns))"

definition PatternsAtKey :: "(string \<Rightarrow> string) \<Rightarrow> (string \<Rightarrow> goerr + json) \<Rightarrow> string \<Rightarrow> string \<Rightarrow> goerr + string list" where
  "PatternsAtKey uq Unmarshal document key =
     (case Unmarshal document of
        Inl e \<Rightarrow> Inl (wrap ''the file is not valid JSON: '' e)
      | Inr root \<Rightarrow>
          if splitKeys key = [] then Inl (new_error ''no key given: a jsonfile rule needs at least one dot-path key'' [])
          else union_keys (patternsAtOneKey uq root) (splitKeys key) [])"


section \<open>What a key selects\<close>

text \<open>
  The meaning of a key, node by node: the values a segment leads to, the values a path leads to,
  depth first, and the strings a value contributes.
\<close>

definition selects :: "string \<Rightarrow> json \<Rightarrow> json list" where
  "selects segment node =
     (case node of
        JObject m \<Rightarrow> if segment = wildcardSegment then sorted_members m
                     else (case map_of m segment of None \<Rightarrow> [] | Some v \<Rightarrow> [v])
      | JArray xs \<Rightarrow> if segment = wildcardSegment then xs
                     else (case Atoi segment of
                             Some i \<Rightarrow> if 0 \<le> i \<and> i < int (length xs) then [xs ! nat i] else []
                           | None \<Rightarrow> [])
      | _ \<Rightarrow> [])"

fun query :: "string list \<Rightarrow> json \<Rightarrow> json list" where
  "query [] node = [node]"
| "query (s # ss) node = concat (map (query ss) (selects s node))"

definition texts :: "json \<Rightarrow> string list" where
  "texts v =
     (case v of JString t \<Rightarrow> [t]
      | JArray xs \<Rightarrow> concat (map (\<lambda>x. case x of JString t \<Rightarrow> [t] | _ \<Rightarrow> []) xs)
      | _ \<Rightarrow> [])"

text \<open>A value that is a pattern or a list of nothing but patterns.\<close>

definition pattern_value :: "json \<Rightarrow> bool" where
  "pattern_value v =
     (case v of JString t \<Rightarrow> True
      | JArray xs \<Rightarrow> list_all (\<lambda>x. case x of JString t \<Rightarrow> True | _ \<Rightarrow> False) xs
      | _ \<Rightarrow> False)"

lemma step_node_lenient: "step_node uq key True parent where segment node = Inr (selects segment node)"
  by (auto simp: step_node_def selects_def Let_def split: json.splits option.splits)

lemma step_node_strict:
  assumes "segment \<noteq> wildcardSegment"
  shows "step_node uq key False parent where segment node = Inr xs \<longleftrightarrow> xs = selects segment node \<and> xs \<noteq> []"
    and "length (selects segment node) \<le> 1"
  using assms by (auto simp: step_node_def selects_def Let_def split: json.splits option.splits)

lemma step_nodes_lenient: "step_nodes (\<lambda>n. Inr (f n)) ns = Inr (concat (map f ns))"
  by (induction ns) auto

lemma walk_key_lenient:
  "[] \<notin> set segments \<Longrightarrow>
     walk_key uq key True walked segments current = Inr (concat (map (query segments) current))"
proof (induction segments arbitrary: walked current)
  case Nil
  show ?case by (simp add: concat_map_singleton)
next
  case (Cons s ss)
  have "concat (map (query ss) (concat (map (selects s) current))) = concat (map (query (s # ss)) current)"
    by (induction current) auto
  then show ?case using Cons by (auto simp: step_node_lenient [abs_def] step_nodes_lenient Let_def fun_eq_iff query.simps(2) [abs_def])
qed

lemma walk_key_empty_segment: "[] \<in> set segments \<Longrightarrow> \<exists>e. walk_key uq key lenient walked segments current = Inl e"
  by (induction segments arbitrary: walked current) (auto simp: Let_def split: sum.splits)

lemma query_strict_length: "wildcardSegment \<notin> set ss \<Longrightarrow> length (query ss node) \<le> 1"
proof (induction ss arbitrary: node)
  case (Cons s ss)
  have s: "s \<noteq> wildcardSegment" using Cons.prems by auto
  consider "selects s node = []" | v where "selects s node = [v]"
    using step_node_strict(2) [OF s, of node] by (cases "selects s node") auto
  then show ?case by cases (use Cons in auto)
qed simp

lemma walk_key_strict:
  "wildcardSegment \<notin> set segments \<Longrightarrow> [] \<notin> set segments \<Longrightarrow>
     walk_key uq key False walked segments [node] = Inr xs \<longleftrightarrow> xs = query segments node \<and> xs \<noteq> []"
proof (induction segments arbitrary: walked node)
  case (Cons s ss)
  have s: "s \<noteq> wildcardSegment" "s \<noteq> []" using Cons.prems by auto
  show ?case
  proof (cases "selects s node")
    case Nil
    have "\<exists>e. step_node uq key False parent where s node = Inl e" for parent "where"
      using step_node_strict(1) [OF s(1), of uq key parent "where" node] Nil
      by (cases "step_node uq key False parent where s node") auto
    then show ?thesis using Nil s(2) by (auto simp: Let_def split: sum.splits) (metis Inl_Inr_False)+
  next
    case (Cons v vs)
    then have v: "selects s node = [v]" using step_node_strict(2) [OF s(1), of node] by auto
    have "step_node uq key False parent where s node = Inr [v]" for parent "where"
      using step_node_strict(1) [OF s(1), of uq key parent "where" node "[v]"] v by simp
    then show ?thesis using v s(2) Cons.IH Cons.prems by (simp add: Let_def)
  qed
qed auto

text \<open>Sequencing in the error type.\<close>

lemma bind_Inr_iff: "(case r of Inl e \<Rightarrow> Inl e | Inr x \<Rightarrow> g x) = Inr y \<longleftrightarrow> (\<exists>x. r = Inr x \<and> g x = Inr y)"
  by (cases r) auto

lemma collect_items_iff:
  "collect_items uq key lenient i xs = Inr ts \<longleftrightarrow>
     (lenient \<or> list_all (\<lambda>x. case x of JString t \<Rightarrow> True | _ \<Rightarrow> False) xs)
     \<and> ts = concat (map (\<lambda>x. case x of JString t \<Rightarrow> [t] | _ \<Rightarrow> []) xs)"
  by (induction xs arbitrary: i ts) (auto simp: bind_Inr_iff split: json.split)

lemma collectPatterns_iff:
  "collectPatterns uq key lenient nodes = Inr ts \<longleftrightarrow>
     (lenient \<or> list_all pattern_value nodes) \<and> ts = concat (map texts nodes)"
  by (induction nodes arbitrary: ts)
    (auto simp: bind_Inr_iff texts_def pattern_value_def collect_items_iff split: json.split)

declare collectPatterns.simps [simp del]

text \<open>What one key selects, and the rule of a whole key field.\<close>

definition key_selects :: "json \<Rightarrow> string \<Rightarrow> string list \<Rightarrow> bool" where
  "key_selects root key ps \<longleftrightarrow>
     (let segments = Split1 key (CHR ''.'') in
      [] \<notin> set segments
      \<and> (if wildcardSegment \<in> set segments then ps = concat (map texts (query segments root))
         else \<exists>v. query segments root = [v] \<and> pattern_value v \<and> ps = texts v))"

lemma singleton_if_short: "length xs \<le> 1 \<Longrightarrow> xs \<noteq> [] \<longleftrightarrow> (\<exists>x. xs = [x])"
  by (cases xs) auto

lemma patternsAtOneKey_iff: "patternsAtOneKey uq root key = Inr ps \<longleftrightarrow> key_selects root key ps"
proof -
  let ?s = "Split1 key (CHR ''.'')"
  consider "[] \<in> set ?s" | "[] \<notin> set ?s" "wildcardSegment \<in> set ?s" | "[] \<notin> set ?s" "wildcardSegment \<notin> set ?s" by blast
  then show ?thesis
  proof cases
    case 1
    then show ?thesis
      using walk_key_empty_segment [OF 1, of uq key "wildcardSegment \<in> set ?s" "[]" "[root]"]
      by (auto simp: patternsAtOneKey_def key_selects_def Let_def)
  next
    case 2
    then show ?thesis by (auto simp: patternsAtOneKey_def key_selects_def Let_def walk_key_lenient collectPatterns_iff)
  next
    case 3
    note w = walk_key_strict [OF 3(2,1), of uq key "[]" root] and q = singleton_if_short [OF query_strict_length [OF 3(2), of root]]
    show ?thesis
    proof (cases "walk_key uq key False [] ?s [root]")
      case (Inl e)
      then show ?thesis using w [of "query ?s root"] 3 by (auto simp: patternsAtOneKey_def key_selects_def Let_def)
    next
      case (Inr xs)
      then show ?thesis using w [of xs] q 3 by (auto simp: patternsAtOneKey_def key_selects_def Let_def collectPatterns_iff)
    qed
  qed
qed

text \<open>Dropping later duplicates.\<close>

definition firsts :: "string list \<Rightarrow> string list" where
  "firsts xs = rev (remdups (rev xs))"

lemma fold_firsts: "fold (\<lambda>p ps. if p \<in> set ps then ps else ps @ [p]) ys (firsts xs) = firsts (xs @ ys)"
proof (induction ys arbitrary: xs)
  case (Cons y ys)
  have "(if y \<in> set (firsts xs) then firsts xs else firsts xs @ [y]) = firsts (xs @ [y])"
    by (simp add: firsts_def)
  then show ?case using Cons [of "xs @ [y]"] by simp
qed simp

lemma union_keys_iff:
  "union_keys f ks (firsts xs) = Inr ps \<longleftrightarrow>
     (\<exists>fs. list_all2 (\<lambda>k found. f k = Inr found) ks fs \<and> ps = firsts (xs @ concat fs))"
proof (induction ks arbitrary: xs)
  case (Cons k ks)
  show ?case
  proof (cases "f k")
    case (Inr found)
    then show ?thesis using Cons [of "xs @ found"] by (auto simp: fold_firsts list_all2_Cons1)
  qed (simp add: list_all2_Cons1)
qed auto


section \<open>Properties\<close>

text \<open>
  a JSON rule selects what its keys mean. Extracting patterns succeeds exactly when the file
  decodes, a key is given, and each key selects something it may: a key with a wildcard selects
  the strings among the values its path leads to, children that lack the path or hold something
  else left out; a key without one must lead to a value that is a string or a list of strings.
  The result is the union in the order of the keys, without repetitions.
\<close>

theorem json_rule_spec:
  "PatternsAtKey uq Unmarshal document key = Inr ps \<longleftrightarrow>
     (\<exists>root found. Unmarshal document = Inr root \<and> splitKeys key \<noteq> []
        \<and> list_all2 (key_selects root) (splitKeys key) found \<and> ps = firsts (concat found))"
  using union_keys_iff [of "patternsAtOneKey uq _" "splitKeys key" "[]" ps]
  by (auto simp: PatternsAtKey_def patternsAtOneKey_iff firsts_def split: sum.splits)

text \<open>A pattern that survives on a line of its own.\<close>

definition plain_pattern :: "string \<Rightarrow> bool" where
  "plain_pattern p \<longleftrightarrow> p \<noteq> [] \<and> TrimSpace p = p \<and> \<not> HasPrefix p ''#'' \<and> newline_char \<notin> set p"

lemma TrimSpace_ends: "TrimSpace p = p \<Longrightarrow> \<not> HasSuffix p cr"
proof
  assume t: "TrimSpace p = p" and "HasSuffix p cr"
  then obtain q where q: "p = q @ cr" by (auto simp: HasSuffix_def suffix_def)
  have "leading (map rev white_space) (rev p) = None"
    by (subst t [symmetric]) (simp add: TrimSpace_def trim_leading_done)
  moreover have "cr \<in> set (map rev white_space)" by code_simp
  ultimately show False unfolding leading_None_iff q by auto
qed

lemma clean_line_plain: "plain_pattern p \<Longrightarrow> e \<in> {[], cr} \<Longrightarrow> clean_line (p @ e) = p"
  using TrimSpace_ends [of p] by (auto simp: clean_line_def plain_pattern_def TrimSuffix_def HasSuffix_def)

text \<open>
  a list file gives its lines. A list of patterns written one per line, with either line ending,
  is read back exactly.
\<close>

theorem list_file_roundtrip:
  assumes "ps \<noteq> []" and "list_all plain_pattern ps" and "e \<in> {[], cr}"
  shows "ParseList (Join (map (\<lambda>p. p @ e) ps) [newline_char]) = ps"
proof -
  have "newline_char \<notin> set (p @ e)" if "p \<in> set ps" for p
    using assms(2,3) that by (auto simp: plain_pattern_def list_all_iff)
  then have "Split1 (Join (map (\<lambda>p. p @ e) ps) [newline_char]) newline_char = map (\<lambda>p. p @ e) ps"
    using assms(1) by (intro Split1_Join) auto
  moreover have "map clean_line (map (\<lambda>p. p @ e) ps) = ps"
    unfolding map_map comp_def by (rule map_idI) (use assms(2,3) clean_line_plain in \<open>auto simp only: list_all_iff\<close>)
  ultimately have "ParseList (Join (map (\<lambda>p. p @ e) ps) [newline_char]) = filter (\<lambda>line. \<not> (line = [] \<or> HasPrefix line ''#'')) ps"
    by (simp only: ParseList_def)
  also have "\<dots> = ps" using assms(2) by (auto simp: filter_id_conv list_all_iff plain_pattern_def)
  finally show ?thesis .
qed

theorem list_file_roundtrip_witness:
  "ParseList (''*.tmp'' @ [CHR 0x0D, CHR 0x0A] @ ''/cache/'' @ [CHR 0x0D]) = [''*.tmp'', ''/cache/'']"
proof -
  have "list_all plain_pattern [''*.tmp'', ''/cache/'']"
    by (simp add: plain_pattern_def TrimSpace_graphic graphic_def HasPrefix_def)
  then show ?thesis using list_file_roundtrip [of "[''*.tmp'', ''/cache/'']" cr] by simp
qed

end
