(* ===== verification/Run_Site.thy ===== *)
theory Run_Site
  imports Storage Jobs Filter_Chain Filter_Files
begin

text \<open>
  What a run reaches its targets through (\<^verbatim>\<open>src/internal/runner/runner.go\<close>, \<open>resolveWith\<close>): the
  methods of \<open>Storage\<close> on either kind of target, and the record of everything outside the
  program that a run asks.
\<close>

text \<open>
  The mount tools, the operating system, reading a file, the glob engine, the JSON decoder and
  the database. Every answer is a function of its question and the world, so the theorems hold
  for every answer.
\<close>

record 'w site =
  stMounter :: "'w mounter"
  stConfig :: config
  stCall :: call_env
  stQuote :: "string \<Rightarrow> string"
  stOs :: "'w os_calls"
  stReadFile :: "string \<Rightarrow> 'w \<Rightarrow> (goerr + string) option"
  stGlob :: glob_env
  stUnmarshal :: "string \<Rightarrow> goerr + json"
  stTargets :: "string \<Rightarrow> goerr + target"
  stGlobals :: "goerr + global_rule list"

section \<open>The interface\<close>

primrec storage_target :: "storage \<Rightarrow> target" where
  "storage_target (SMBStorage s) = smTarget s"
| "storage_target (LocalStorage l) = lsTarget l"

primrec storage_AllowCreate :: "storage \<Rightarrow> storage" where
  "storage_AllowCreate (SMBStorage s) = SMBStorage (smb_AllowCreate s)"
| "storage_AllowCreate (LocalStorage l) = LocalStorage (local_AllowCreate l)"

primrec storage_Resolve :: "'w site \<Rightarrow> storage \<Rightarrow> 'w mgr \<Rightarrow> (goerr + string) \<times> storage \<times> 'w mgr" where
  "storage_Resolve S (SMBStorage s) m =
     (case smb_Resolve (stMounter S) (stConfig S) (stCall S) (stQuote S) (stOs S) s m of (r, s, m) \<Rightarrow> (r, SMBStorage s, m))"
| "storage_Resolve S (LocalStorage l) m =
     (case local_Resolve (stOs S) (stQuote S) (caNow (stCall S)) l (mgHealth m) (mgWorld m) of
        (r, h, w) \<Rightarrow> (r, LocalStorage l, m\<lparr>mgHealth := h, mgWorld := w\<rparr>))"

primrec storage_Health :: "'w site \<Rightarrow> storage \<Rightarrow> 'w mgr \<Rightarrow> goerr option \<times> 'w mgr" where
  "storage_Health S (SMBStorage s) m =
     smb_Health (stMounter S) (osCtx (stOs S)) (caNow (stCall S)) (stQuote S) s m"
| "storage_Health S (LocalStorage l) m =
     (case local_Health (stOs S) (stQuote S) (caNow (stCall S)) l (mgHealth m) (mgWorld m) of
        (e, h) \<Rightarrow> (e, m\<lparr>mgHealth := h\<rparr>))"

primrec storage_Release :: "gotime \<Rightarrow> storage \<Rightarrow> 'w mgr \<Rightarrow> storage \<times> 'w mgr" where
  "storage_Release now (SMBStorage s) m = (case smb_Release now s m of (s, m) \<Rightarrow> (SMBStorage s, m))"
| "storage_Release now (LocalStorage l) m = (LocalStorage l, m)"

primrec storage_weight :: "storage \<Rightarrow> int" where
  "storage_weight (SMBStorage s) = smb_weight s"
| "storage_weight (LocalStorage l) = 0"

lemma mgr_refs_health [simp]:
  "mgr_refs x (m\<lparr>mgHealth := h, mgWorld := w\<rparr>) = mgr_refs x m" "mgr_ok (m\<lparr>mgHealth := h, mgWorld := w\<rparr>) = mgr_ok m"
  "mgr_refs x (m\<lparr>mgHealth := h\<rparr>) = mgr_refs x m" "mgr_ok (m\<lparr>mgHealth := h\<rparr>) = mgr_ok m"
  by (simp_all add: mgr_refs_def mgr_ok_def split: option.split)

text \<open>Both kinds of storage keep the contract on references.\<close>

interpretation target: storage_refs "storage_Resolve S" "storage_Release now"
  "\<lambda>s. mgr_refs (tgID (storage_target s))" storage_weight mgr_ok "\<lambda>s s'. tgID (storage_target s) = tgID (storage_target s')"
  for S :: "'w site" and now
proof unfold_locales
  fix s s' x :: storage and m m' :: "'w mgr" and r e
  show "mgr_ok m' \<and> tgID (storage_target s) = tgID (storage_target s')"
    if "mgr_ok m" "storage_Resolve S s m = (r, s', m')"
    using that by (cases s) (auto split: prod.splits dest: smb_Resolve_refs)
  show "mgr_refs (tgID (storage_target x)) m' = mgr_refs (tgID (storage_target x)) m
      + (if tgID (storage_target x) = tgID (storage_target s) then storage_weight s' - storage_weight s else 0)"
    if "mgr_ok m" "storage_Resolve S s m = (r, s', m')"
    using that by (cases s) (auto split: prod.splits dest: smb_Resolve_refs [where x = "tgID (storage_target x)"])
  show "storage_weight s' = 0" if "storage_Resolve S s m = (Inl e, s', m')" "storage_weight s = 0"
    using that by (cases s) (auto split: prod.splits dest: share.resolve_fails)
  show "mgr_ok m' \<and> tgID (storage_target s) = tgID (storage_target s') \<and> storage_weight s' = 0"
    if "mgr_ok m" "storage_Release now s m = (s', m')"
    using that by (cases s) (auto split: prod.splits dest: share.release_ok)
  show "mgr_refs (tgID (storage_target x)) m' = mgr_refs (tgID (storage_target x)) m
      - (if tgID (storage_target x) = tgID (storage_target s) then storage_weight s else 0)"
    if ok: "mgr_ok m" and le: "storage_weight s \<le> mgr_refs (tgID (storage_target s)) m" and rel: "storage_Release now s m = (s', m')"
  proof (cases s)
    case (SMBStorage b)
    obtain b' where "smb_Release now b m = (b', m')" using rel SMBStorage by (auto split: prod.splits)
    then show ?thesis
      using share.release_refs [OF ok, of b now b' m' "b\<lparr>smTarget := storage_target x\<rparr>"] le SMBStorage by simp
  qed (use rel in auto)
  show "0 \<le> storage_weight s" by (cases s) (simp_all add: smb_weight_def)
qed auto


section \<open>Resolving\<close>

definition resolveWith :: "'w site \<Rightarrow> target \<Rightarrow> string \<Rightarrow> bool \<Rightarrow> 'w mgr \<Rightarrow> (goerr + string \<times> storage) \<times> 'w mgr" where
  "resolveWith S t subpath create m =
     (let scoped = t\<lparr>Subpath := joinSubpaths (Subpath t) subpath\<rparr>
      in case For (stQuote S) scoped of
           Inl e \<Rightarrow> (Inl e, m)
         | Inr st \<Rightarrow>
             let st = (if create then storage_AllowCreate st else st)
             in case storage_Resolve S st m of
                  (Inl e, st, m) \<Rightarrow> (Inl e, m)
                | (Inr root, st, m) \<Rightarrow> (Inr (root, st), m))"

abbreviation resolve :: "'w site \<Rightarrow> target \<Rightarrow> string \<Rightarrow> 'w mgr \<Rightarrow> (goerr + string \<times> storage) \<times> 'w mgr" where
  "resolve S t subpath \<equiv> resolveWith S t subpath False"

definition release_storage :: "'w site \<Rightarrow> storage \<Rightarrow> 'w mgr \<Rightarrow> 'w mgr" where
  "release_storage S st m = snd (storage_Release (caNow (stCall S)) st m)"

lemma For_fresh: "For uq t = Inr st \<Longrightarrow> storage_weight st = 0 \<and> storage_target st = t"
  by (auto simp: For_def smb_weight_def split: target_type.splits)

lemma AllowCreate_same [simp]:
  "storage_weight (storage_AllowCreate st) = storage_weight st" "storage_target (storage_AllowCreate st) = storage_target st"
  by (cases st; simp add: smb_AllowCreate_def local_AllowCreate_def smb_weight_def)+

text \<open>A failed resolution leaves every count alone; a successful one adds what its storage holds.\<close>

lemma resolveWith_refs:
  assumes "mgr_ok m" "resolveWith S t sub create m = (r, m')"
  shows "mgr_ok m'"
    and "mgr_refs x m' = mgr_refs x m + (case r of Inl _ \<Rightarrow> 0 | Inr (_, st) \<Rightarrow> if x = tgID t then storage_weight st else 0)"
    and "r = Inr (root, st) \<Longrightarrow> tgID (storage_target st) = tgID t"
proof -
  let ?t = "t\<lparr>Subpath := joinSubpaths (Subpath t) sub\<rparr>"
  have "mgr_ok m' \<and> mgr_refs x m' = mgr_refs x m + (case r of Inl _ \<Rightarrow> 0 | Inr (_, st) \<Rightarrow> if x = tgID t then storage_weight st else 0)
     \<and> (\<forall>root st. r = Inr (root, st) \<longrightarrow> tgID (storage_target st) = tgID t)"
  proof (cases "For (stQuote S) ?t")
    case (Inl e)
    then show ?thesis using assms by (auto simp: resolveWith_def Let_def)
  next
    case (Inr st)
    define st1 where "st1 = (if create then storage_AllowCreate st else st)"
    have f: "storage_weight st1 = 0" "storage_target st1 = ?t" using For_fresh [OF Inr] by (auto simp: st1_def)
    obtain q st2 m2 where q: "storage_Resolve S st1 m = (q, st2, m2)" by (metis prod_cases3)
    let ?x = "LocalStorage \<lparr>lsTarget = t\<lparr>tgID := x\<rparr>, lsCreate = False\<rparr>"
    have m2: "m' = m2" "r = (case q of Inl e \<Rightarrow> Inl e | Inr root \<Rightarrow> Inr (root, st2))"
      using assms(2) Inr q by (auto simp: resolveWith_def st1_def [symmetric] Let_def split: sum.splits)
    have "mgr_refs x m2 = mgr_refs x m + (if x = tgID t then storage_weight st2 else 0)"
      using target.resolve_refs [OF assms(1) q, of ?x] f by simp
    moreover have "isl q \<longrightarrow> storage_weight st2 = 0"
      using target.resolve_fails [of S st1 m _ st2 m2] q f(1) by (cases q) auto
    ultimately show ?thesis
      using target.resolve_ok [OF assms(1) q] m2 f(2) by (auto split: sum.splits)
  qed
  then show "mgr_ok m'"
    and "mgr_refs x m' = mgr_refs x m + (case r of Inl _ \<Rightarrow> 0 | Inr (_, st) \<Rightarrow> if x = tgID t then storage_weight st else 0)"
    and "r = Inr (root, st) \<Longrightarrow> tgID (storage_target st) = tgID t" by auto
qed

lemma release_storage_refs:
  assumes "mgr_ok m" "storage_weight st \<le> mgr_refs (tgID (storage_target st)) m"
  shows "mgr_ok (release_storage S st m)"
    and "mgr_refs x (release_storage S st m) = mgr_refs x m - (if x = tgID (storage_target st) then storage_weight st else 0)"
proof -
  obtain st' m' where r: "storage_Release (caNow (stCall S)) st m = (st', m')" by fastforce
  let ?x = "LocalStorage \<lparr>lsTarget = (storage_target st)\<lparr>tgID := x\<rparr>, lsCreate = False\<rparr>"
  show "mgr_ok (release_storage S st m)" using target.release_ok [OF assms(1) r] r by (simp add: release_storage_def)
  show "mgr_refs x (release_storage S st m) = mgr_refs x m - (if x = tgID (storage_target st) then storage_weight st else 0)"
    using target.release_refs [OF assms(1,2) r, of ?x] r by (simp add: release_storage_def)
qed

text \<open>A resolution without leave to create calls nothing that makes a directory.\<close>

abbreviation with_mkdir :: "(string \<Rightarrow> 'w \<Rightarrow> (goerr + unit) option \<times> 'w) \<Rightarrow> 'w site \<Rightarrow> 'w site" where
  "with_mkdir mk S \<equiv> S\<lparr>stOs := (stOs S)\<lparr>osMkdirAll := mk\<rparr>\<rparr>"

lemma For_no_create: "For uq t = Inr st \<Longrightarrow> (case st of SMBStorage s \<Rightarrow> \<not> smCreate s | LocalStorage l \<Rightarrow> \<not> lsCreate l)"
  by (auto simp: For_def split: target_type.splits)

lemma resolve_no_create: "resolve (with_mkdir mk S) t sub m = resolve S t sub m"
proof (cases "For (stQuote S) (t\<lparr>Subpath := joinSubpaths (Subpath t) sub\<rparr>)")
  case (Inr st)
  have "storage_Resolve (with_mkdir mk S) st m = storage_Resolve S st m"
    using For_no_create [OF Inr] by (cases st) (simp_all add: smb_Resolve_no_create local_Resolve_no_create)
  then show ?thesis using Inr by (simp add: resolveWith_def)
qed (simp add: resolveWith_def)

end
