(* ===== verification/Run_Store.thy ===== *)
theory Run_Store
  imports Jobs
begin

text \<open>
  The tables of runs (\<^verbatim>\<open>src/internal/store/runs.go\<close>) and of run events
  (\<^verbatim>\<open>events.go\<close>). A table is the list of its rows in the order of their insertion; a
  statement either fails as a whole, with the error given to the operation, or changes the rows
  its condition selects. Times are stored as text, and the queries compare the texts.
\<close>

section \<open>Times as text\<close>

text \<open>
  \<open>formatTime\<close> writes RFC 3339 in UTC with the fraction of the second cut of its trailing zeros,
  and none when it is zero; \<open>Z\<close> ends it. Down to the second the texts have a fixed width in the
  years 0 to 9999, so their order is that of the seconds, then of the texts that follow.
\<close>

definition frac_text :: "gotime \<Rightarrow> string" where
  "frac_text t = fmtFrac (nat (t mod 1000000000)) 9 @ ''Z''"

definition stored_before :: "gotime \<Rightarrow> gotime \<Rightarrow> bool" where
  "stored_before t u \<longleftrightarrow>
     t div 1000000000 < u div 1000000000
     \<or> t div 1000000000 = u div 1000000000 \<and> go_string_less (frac_text t) (frac_text u)"

abbreviation stored_le :: "gotime \<Rightarrow> gotime \<Rightarrow> bool" where
  "stored_le t u \<equiv> \<not> stored_before u t"

text \<open>\<open>Time.Truncate\<close> to the second.\<close>

definition truncate_second :: "gotime \<Rightarrow> gotime" where
  "truncate_second t = t - t mod 1000000000"

lemma padded_zero: "padded n 0 = replicate n (CHR ''0'')"
proof (induction n)
  case (Suc n)
  have "digit_char 0 = CHR ''0''" by code_simp
  then show ?case using Suc by (simp add: replicate_append_same)
qed simp

lemma frac_text_whole: "t mod 1000000000 = 0 \<Longrightarrow> frac_text t = ''Z''"
proof -
  have "dropWhile (\<lambda>c. c = CHR ''0'') (replicate n (CHR ''0'')) = []" for n by (induction n) auto
  then show "t mod 1000000000 = 0 \<Longrightarrow> frac_text t = ''Z''" by (simp add: frac_text_def fmtFrac_def padded_zero Let_def)
qed

lemma stored_whole:
  assumes "t mod 1000000000 = 0" "u mod 1000000000 = 0"
  shows "stored_before t u \<longleftrightarrow> t < u"
proof -
  have "t = 1000000000 * (t div 1000000000)" "u = 1000000000 * (u div 1000000000)" using assms by (simp_all add: mult_div_mod_eq [symmetric] flip: minus_mod_eq_mult_div)
  then have "t < u \<longleftrightarrow> t div 1000000000 < u div 1000000000" by linarith
  then show ?thesis using assms by (simp add: stored_before_def frac_text_whole go_string_less_def)
qed


lemma padded_zeros: "\<forall>c \<in> set (padded n v). c = CHR ''0'' \<Longrightarrow> v mod 10 ^ n = 0"
proof (induction n arbitrary: v)
  case (Suc n)
  have "digit_char (v mod 10) = CHR ''0''" using Suc.prems by simp
  then have "v mod 10 = 0" using of_char_digit [of "v mod 10"] by simp
  moreover have "v div 10 mod 10 ^ n = 0" using Suc by simp
  ultimately show ?case using mod_mult2_eq [of v 10 "10 ^ n"] by simp
qed simp

lemma frac_text_part:
  assumes "t mod 1000000000 \<noteq> 0"
  shows "hd (frac_text t) = CHR ''.'' \<and> frac_text t \<noteq> []"
proof -
  let ?v = "nat (t mod 1000000000)"
  have "0 < t mod 1000000000" "t mod 1000000000 < 1000000000" using assms pos_mod_bound [of 1000000000 t] by (simp_all add: order_less_le)
  then have "0 < ?v" "?v < 10 ^ 9" by simp_all
  then have "?v mod 10 ^ 9 \<noteq> 0" by simp
  then have "rev (dropWhile (\<lambda>c. c = CHR ''0'') (rev (padded 9 ?v))) \<noteq> []"
    using padded_zeros [of 9 ?v] by (auto simp: dropWhile_eq_Nil_conv)
  then show ?thesis by (auto simp: frac_text_def fmtFrac_def Let_def)
qed

lemma stored_within_second:
  assumes "u mod 1000000000 = 0" "t mod 1000000000 \<noteq> 0" "t div 1000000000 = u div 1000000000"
  shows "stored_before t u"
proof -
  have "go_string_less (frac_text t) ''Z''" using frac_text_part [OF assms(2)] by (cases "frac_text t") (simp_all add: go_string_less_def)
  then show ?thesis using assms by (simp add: stored_before_def frac_text_whole)
qed


section \<open>Runs\<close>

record run_destination =
  rdRunID :: string
  rdTarget :: string
  rdStatus :: dest_status
  rdFilesTotal :: int
  rdFilesDone :: int
  rdFilesDeleted :: int
  rdBytesTotal :: int
  rdBytesDone :: int
  rdStartedAt :: "gotime option"
  rdFinishedAt :: "gotime option"
  rdSummary :: string

record run_row =
  rrID :: string
  rrJobID :: string
  rrTrigger :: run_trigger
  rrStatus :: run_status
  rrStartedAt :: gotime
  rrFinishedAt :: "gotime option"
  rrFilesScanned :: int
  rrBytesTotal :: int
  rrSummary :: string

definition run_Terminal :: "run_status \<Rightarrow> bool" where
  "run_Terminal s = (case s of RunSuccess \<Rightarrow> True | RunPartial \<Rightarrow> True | RunFailed \<Rightarrow> True | RunCancelled \<Rightarrow> True | _ \<Rightarrow> False)"

definition run_Active :: "run_status \<Rightarrow> bool" where
  "run_Active s \<longleftrightarrow> \<not> run_Terminal s"

record run_tables =
  rtRuns :: "run_row list"
  rtDests :: "run_destination list"

text \<open>\<open>UPDATE\<close> with a \<open>WHERE\<close> clause, and what a statement that fails leaves.\<close>

definition update_where :: "('r \<Rightarrow> bool) \<Rightarrow> ('r \<Rightarrow> 'r) \<Rightarrow> 'r list \<Rightarrow> 'r list" where
  "update_where P f rows = map (\<lambda>r. if P r then f r else r) rows"

definition sql_exec :: "goerr option \<Rightarrow> string \<Rightarrow> ('db \<Rightarrow> 'db) \<Rightarrow> 'db \<Rightarrow> goerr option \<times> 'db" where
  "sql_exec fault what f db = (case fault of Some e \<Rightarrow> (Some (wrap (what @ '': '') e), db) | None \<Rightarrow> (None, f db))"

text \<open>\<open>checkAffected\<close> when no row was changed; it speaks of a target whatever the table.\<close>

definition missing_row :: "string \<Rightarrow> goerr" where
  "missing_row i = new_error (''target '' @ i @ '': not found'') [ErrNotFound]"

definition pending_dest :: "string \<Rightarrow> string \<Rightarrow> run_destination" where
  "pending_dest runID d =
     \<lparr>rdRunID = runID, rdTarget = d, rdStatus = DestPending, rdFilesTotal = 0, rdFilesDone = 0, rdFilesDeleted = 0,
      rdBytesTotal = 0, rdBytesDone = 0, rdStartedAt = None, rdFinishedAt = None, rdSummary = []\<rparr>"

text \<open>
  The keys of the tables: a run's ID, and a run with a target. An insertion that repeats one fails,
  and the transaction with it.
\<close>

definition CreateRun ::
  "goerr option \<Rightarrow> goerr + string \<Rightarrow> gotime \<Rightarrow> string \<Rightarrow> run_trigger \<Rightarrow> string list \<Rightarrow> run_tables \<Rightarrow> (goerr + run_row) \<times> run_tables" where
  "CreateRun fault newID now jobID trigger destIDs db =
     (case newID of
        Inl e \<Rightarrow> (Inl e, db)
      | Inr runID \<Rightarrow>
          let run = \<lparr>rrID = runID, rrJobID = jobID, rrTrigger = trigger, rrStatus = RunRunning, rrStartedAt = now,
                     rrFinishedAt = None, rrFilesScanned = 0, rrBytesTotal = 0, rrSummary = []\<rparr>;
              what = ''starting a run of job '' @ jobID @ '': '';
              taken = (runID \<in> rrID ` set (rtRuns db) \<or> \<not> distinct destIDs
                       \<or> runID \<in> rdRunID ` {r \<in> set (rtDests db). rdTarget r \<in> set destIDs})
          in case fault of
               Some e \<Rightarrow> (Inl (wrap what e), db)
             | None \<Rightarrow>
                 if taken then (Inl (new_error (what @ ''UNIQUE constraint failed'') []), db)
                 else (Inr run, db\<lparr>rtRuns := rtRuns db @ [run], rtDests := rtDests db @ map (pending_dest runID) destIDs\<rparr>))"

definition on_run :: "string \<Rightarrow> (run_row \<Rightarrow> run_row) \<Rightarrow> run_tables \<Rightarrow> run_tables" where
  "on_run runID f db = db\<lparr>rtRuns := update_where (\<lambda>r. rrID r = runID) f (rtRuns db)\<rparr>"

definition on_run_dest :: "string \<Rightarrow> string \<Rightarrow> (run_destination \<Rightarrow> run_destination) \<Rightarrow> run_tables \<Rightarrow> run_tables" where
  "on_run_dest runID d f db = db\<lparr>rtDests := update_where (\<lambda>r. rdRunID r = runID \<and> rdTarget r = d) f (rtDests db)\<rparr>"

definition SetRunScanTotals :: "goerr option \<Rightarrow> string \<Rightarrow> int \<Rightarrow> int \<Rightarrow> run_tables \<Rightarrow> goerr option \<times> run_tables" where
  "SetRunScanTotals fault runID files bytes =
     sql_exec fault (''recording scan totals for run '' @ runID)
       (on_run runID (\<lambda>r. r\<lparr>rrFilesScanned := files, rrBytesTotal := bytes\<rparr>))"

definition FinishRun :: "goerr option \<Rightarrow> gotime \<Rightarrow> string \<Rightarrow> run_status \<Rightarrow> string \<Rightarrow> run_tables \<Rightarrow> goerr option \<times> run_tables" where
  "FinishRun fault now runID st summary =
     sql_exec fault (''finishing run '' @ runID)
       (on_run runID (\<lambda>r. r\<lparr>rrStatus := st, rrFinishedAt := Some now, rrSummary := summary\<rparr>))"

definition StartRunDestination ::
  "goerr option \<Rightarrow> gotime \<Rightarrow> string \<Rightarrow> string \<Rightarrow> int \<Rightarrow> int \<Rightarrow> run_tables \<Rightarrow> goerr option \<times> run_tables" where
  "StartRunDestination fault now runID d files bytes =
     sql_exec fault (''starting destination '' @ d @ '' of run '' @ runID)
       (on_run_dest runID d (\<lambda>r. r\<lparr>rdStatus := DestRunning, rdStartedAt := Some now, rdFilesTotal := files, rdBytesTotal := bytes\<rparr>))"

definition UpdateRunDestinationProgress ::
  "goerr option \<Rightarrow> string \<Rightarrow> string \<Rightarrow> int \<Rightarrow> int \<Rightarrow> int \<Rightarrow> run_tables \<Rightarrow> goerr option \<times> run_tables" where
  "UpdateRunDestinationProgress fault runID d files deleted bytes =
     sql_exec fault (''updating progress for destination '' @ d @ '' of run '' @ runID)
       (on_run_dest runID d (\<lambda>r. r\<lparr>rdFilesDone := files, rdFilesDeleted := deleted, rdBytesDone := bytes\<rparr>))"

definition SetRunDestinationStatus ::
  "goerr option \<Rightarrow> string \<Rightarrow> string \<Rightarrow> dest_status \<Rightarrow> run_tables \<Rightarrow> goerr option \<times> run_tables" where
  "SetRunDestinationStatus fault runID d st =
     sql_exec fault (''recording the state of destination '' @ d @ '' in run '' @ runID)
       (on_run_dest runID d (\<lambda>r. r\<lparr>rdStatus := st\<rparr>))"

definition SetRunStatus :: "goerr option \<Rightarrow> string \<Rightarrow> run_status \<Rightarrow> run_tables \<Rightarrow> goerr option \<times> run_tables" where
  "SetRunStatus fault runID st =
     sql_exec fault (''recording the state of run '' @ runID) (on_run runID (\<lambda>r. r\<lparr>rrStatus := st\<rparr>))"

definition FinishRunDestination ::
  "goerr option \<Rightarrow> gotime \<Rightarrow> string \<Rightarrow> string \<Rightarrow> dest_status \<Rightarrow> string \<Rightarrow> run_tables \<Rightarrow> goerr option \<times> run_tables" where
  "FinishRunDestination fault now runID d st summary =
     sql_exec fault (''finishing destination '' @ d @ '' of run '' @ runID)
       (on_run_dest runID d (\<lambda>r. r\<lparr>rdStatus := st, rdFinishedAt := Some now, rdSummary := summary\<rparr>))"

definition runDestinations :: "string \<Rightarrow> run_tables \<Rightarrow> run_destination list" where
  "runDestinations runID db = filter (\<lambda>r. rdRunID r = runID) (rtDests db)"

definition GetRun :: "goerr option \<Rightarrow> string \<Rightarrow> run_tables \<Rightarrow> goerr + run_row \<times> run_destination list" where
  "GetRun fault runID db =
     (case fault of
        Some e \<Rightarrow> Inl (wrap (''loading run '' @ runID @ '': '') e)
      | None \<Rightarrow>
          (case find (\<lambda>r. rrID r = runID) (rtRuns db) of
             None \<Rightarrow> Inl (new_error (''run '' @ runID @ '': not found'') [ErrNotFound])
           | Some r \<Rightarrow> Inr (r, runDestinations runID db)))"

definition page_limit :: "nat \<Rightarrow> nat \<Rightarrow> int \<Rightarrow> nat" where
  "page_limit default_limit most n = (if n \<le> 0 \<or> n > int most then default_limit else nat n)"

definition ListRuns :: "string \<Rightarrow> run_status option \<Rightarrow> int \<Rightarrow> run_tables \<Rightarrow> (run_row \<times> run_destination list) list" where
  "ListRuns jobID st limit db =
     map (\<lambda>r. (r, runDestinations (rrID r) db))
       (take (page_limit 100 500 limit)
          (sort_slice (\<lambda>a b. stored_before (rrStartedAt b) (rrStartedAt a)
               \<or> \<not> stored_before (rrStartedAt a) (rrStartedAt b) \<and> rrID a < rrID b)
             (filter (\<lambda>r. (jobID = [] \<or> rrJobID r = jobID) \<and> (st = None \<or> st = Some (rrStatus r))) (rtRuns db))))"

text \<open>
  The three statements of the reconciliation, without a transaction around them; a fault stops it
  where it is.
\<close>

definition fail_running :: "gotime \<Rightarrow> run_tables \<Rightarrow> run_tables" where
  "fail_running now db =
     db\<lparr>rtRuns := update_where (\<lambda>r. rrStatus r = RunRunning)
          (\<lambda>r. r\<lparr>rrStatus := RunFailed, rrFinishedAt := Some now, rrSummary := ''the server stopped while this run was in progress''\<rparr>)
          (rtRuns db)\<rparr>"

definition cancel_parked :: "gotime \<Rightarrow> run_tables \<Rightarrow> run_tables" where
  "cancel_parked now db =
     db\<lparr>rtRuns := update_where (\<lambda>r. rrStatus r = RunAwaitingConfirmation)
          (\<lambda>r. r\<lparr>rrStatus := RunCancelled, rrFinishedAt := Some now,
                  rrSummary := ''the server stopped while this run was waiting to be confirmed; nothing was copied''\<rparr>)
          (rtRuns db)\<rparr>"

definition fail_open_dests :: "gotime \<Rightarrow> run_tables \<Rightarrow> run_tables" where
  "fail_open_dests now db =
     db\<lparr>rtDests := update_where (\<lambda>r. rdStatus r \<in> {DestRunning, DestPending, DestAwaitingPrompt})
          (\<lambda>r. r\<lparr>rdStatus := DestFailed, rdFinishedAt := Some now\<rparr>) (rtDests db)\<rparr>"

definition count_status :: "run_status \<Rightarrow> run_tables \<Rightarrow> nat" where
  "count_status st db = length (filter (\<lambda>r. rrStatus r = st) (rtRuns db))"

definition ReconcileInterruptedRuns ::
  "(nat \<Rightarrow> goerr option) \<Rightarrow> gotime \<Rightarrow> run_tables \<Rightarrow> (goerr + nat) \<times> run_tables" where
  "ReconcileInterruptedRuns fault now db =
     (let what = ''reconciling interrupted runs''; n = count_status RunRunning db in
      case sql_exec (fault 0) what (fail_running now) db of
        (Some e, db) \<Rightarrow> (Inl e, db)
      | (None, db) \<Rightarrow>
          let p = count_status RunAwaitingConfirmation db in
          (case sql_exec (fault 1) what (cancel_parked now) db of
             (Some e, db) \<Rightarrow> (Inl e, db)
           | (None, db) \<Rightarrow>
               (case sql_exec (fault 2) what (fail_open_dests now) db of
                  (Some e, db) \<Rightarrow> (Inl e, db)
                | (None, db) \<Rightarrow> (Inr (n + p), db))))"


section \<open>Events\<close>

record event_row =
  erID :: nat
  erRunID :: string
  erTS :: gotime
  erLevel :: event_level
  erDest :: string
  erRelPath :: string
  erMessage :: string

text \<open>The table, and the number the next row gets.\<close>

record event_table =
  etRows :: "event_row list"
  etNext :: nat

definition stamped :: "gotime \<Rightarrow> event_row \<Rightarrow> event_row" where
  "stamped now e = (if erTS e = zero_time then e\<lparr>erTS := now\<rparr> else e)"

definition insert_event :: "gotime \<Rightarrow> event_row \<Rightarrow> event_table \<Rightarrow> event_table" where
  "insert_event now e t = t\<lparr>etRows := etRows t @ [(stamped now e)\<lparr>erID := etNext t\<rparr>], etNext := etNext t + 1\<rparr>"

definition AppendEvent :: "goerr option \<Rightarrow> gotime \<Rightarrow> event_row \<Rightarrow> event_table \<Rightarrow> goerr option \<times> event_table" where
  "AppendEvent fault now e = sql_exec fault (''writing a run event for run '' @ erRunID e) (insert_event now e)"

definition AppendEvents :: "goerr option \<Rightarrow> gotime \<Rightarrow> event_row list \<Rightarrow> event_table \<Rightarrow> goerr option \<times> event_table" where
  "AppendEvents fault now es t =
     (if es = [] then (None, t) else sql_exec fault ''writing run events'' (fold (insert_event now) es) t)"

record event_filter =
  efRunID :: string
  efJobID :: string
  efLevel :: "event_level option"
  efDest :: string
  efSince :: gotime
  efNewest :: bool
  efLimit :: int
  efOffset :: int

definition event_matches :: "event_filter \<Rightarrow> run_tables \<Rightarrow> event_row \<Rightarrow> bool" where
  "event_matches f db e \<longleftrightarrow>
     (efJobID f = [] \<or> (\<exists>r \<in> set (rtRuns db). rrID r = erRunID e \<and> rrJobID r = efJobID f))
     \<and> (efRunID f = [] \<or> erRunID e = efRunID f)
     \<and> (efLevel f = None \<or> efLevel f = Some (erLevel e))
     \<and> (efDest f = [] \<or> erDest e = efDest f)
     \<and> (efSince f = zero_time \<or> stored_le (efSince f) (erTS e))"

definition ListEvents :: "event_filter \<Rightarrow> run_tables \<Rightarrow> event_table \<Rightarrow> event_row list" where
  "ListEvents f db t =
     (let rows = filter (event_matches f db) (etRows t);
          ordered = (if efNewest f
             then sort_slice (\<lambda>a b. stored_before (erTS b) (erTS a) \<or> \<not> stored_before (erTS a) (erTS b) \<and> erID b < erID a) rows
             else sort_slice (\<lambda>a b. erID a < erID b) rows)
      in take (page_limit 200 1000 (efLimit f)) (drop (nat (max (efOffset f) 0)) ordered))"

definition CountEventsByLevel :: "string \<Rightarrow> event_table \<Rightarrow> event_level \<Rightarrow> nat option" where
  "CountEventsByLevel runID t l =
     (let n = length (filter (\<lambda>e. erRunID e = runID \<and> erLevel e = l) (etRows t)) in if n = 0 then None else Some n)"


section \<open>Properties\<close>

definition dest_open :: "dest_status \<Rightarrow> bool" where
  "dest_open s \<longleftrightarrow> s \<in> {DestRunning, DestPending, DestAwaitingPrompt}"

text \<open>What the reconciliation makes of one row.\<close>

definition settled_run :: "gotime \<Rightarrow> run_row \<Rightarrow> run_row" where
  "settled_run now r =
     (case rrStatus r of
        RunRunning \<Rightarrow> r\<lparr>rrStatus := RunFailed, rrFinishedAt := Some now, rrSummary := ''the server stopped while this run was in progress''\<rparr>
      | RunAwaitingConfirmation \<Rightarrow> r\<lparr>rrStatus := RunCancelled, rrFinishedAt := Some now,
          rrSummary := ''the server stopped while this run was waiting to be confirmed; nothing was copied''\<rparr>
      | _ \<Rightarrow> r)"

definition settled_dest :: "gotime \<Rightarrow> run_destination \<Rightarrow> run_destination" where
  "settled_dest now r = (if dest_open (rdStatus r) then r\<lparr>rdStatus := DestFailed, rdFinishedAt := Some now\<rparr> else r)"

lemma reconcile_runs:
  "rtRuns (cancel_parked now (fail_running now db)) = map (settled_run now) (rtRuns db)"
  by (auto simp: cancel_parked_def fail_running_def update_where_def settled_run_def split: run_status.split)

lemma reconcile_count:
  "count_status RunRunning db + count_status RunAwaitingConfirmation (fail_running now db)
     = length (filter (\<lambda>r. run_Active (rrStatus r)) (rtRuns db))"
proof -
  have "length (filter (\<lambda>r. rrStatus r = RunRunning) rs)
      + length (filter (\<lambda>r. rrStatus r = RunAwaitingConfirmation) (update_where (\<lambda>r. rrStatus r = RunRunning) (\<lambda>r. r\<lparr>rrStatus := RunFailed,
           rrFinishedAt := Some now, rrSummary := ''the server stopped while this run was in progress''\<rparr>) rs))
    = length (filter (\<lambda>r. run_Active (rrStatus r)) rs)" for rs
    by (induction rs) (auto simp: update_where_def run_Active_def run_Terminal_def split: run_status.split)
  then show ?thesis by (simp add: count_status_def fail_running_def)
qed

text \<open>
  nothing is left open by a restart. The reconciliation at startup closes every run and every
  destination that was still open, running ones as failed and parked ones as cancelled, leaves the
  closed rows exactly as they were, and counts the runs it closed.
\<close>

theorem restart_leaves_nothing_open:
  "ReconcileInterruptedRuns (\<lambda>_. None) now db =
     (Inr (length (filter (\<lambda>r. run_Active (rrStatus r)) (rtRuns db))),
      db\<lparr>rtRuns := map (settled_run now) (rtRuns db), rtDests := map (settled_dest now) (rtDests db)\<rparr>)
   \<and> list_all (\<lambda>r. run_Terminal (rrStatus r)) (map (settled_run now) (rtRuns db))
   \<and> list_all (\<lambda>r. \<not> dest_open (rdStatus r)) (map (settled_dest now) (rtDests db))"
proof -
  have 1: "ReconcileInterruptedRuns (\<lambda>_. None) now db =
      (Inr (count_status RunRunning db + count_status RunAwaitingConfirmation (fail_running now db)),
       fail_open_dests now (cancel_parked now (fail_running now db)))"
    by (simp add: ReconcileInterruptedRuns_def sql_exec_def)
  have 2: "fail_open_dests now (cancel_parked now (fail_running now db))
      = db\<lparr>rtRuns := map (settled_run now) (rtRuns db), rtDests := map (settled_dest now) (rtDests db)\<rparr>"
  proof (rule run_tables.equality)
    have "rtRuns (fail_open_dests now x) = rtRuns x" for x by (simp add: fail_open_dests_def)
    then show "rtRuns (fail_open_dests now (cancel_parked now (fail_running now db)))
        = rtRuns (db\<lparr>rtRuns := map (settled_run now) (rtRuns db), rtDests := map (settled_dest now) (rtDests db)\<rparr>)"
      by (simp only: reconcile_runs) simp
    have "rtDests (cancel_parked now (fail_running now db)) = rtDests db" by (simp add: cancel_parked_def fail_running_def)
    then show "rtDests (fail_open_dests now (cancel_parked now (fail_running now db)))
        = rtDests (db\<lparr>rtRuns := map (settled_run now) (rtRuns db), rtDests := map (settled_dest now) (rtDests db)\<rparr>)"
      by (simp add: fail_open_dests_def update_where_def settled_dest_def [abs_def] dest_open_def)
  qed simp
  have 3: "run_Terminal (rrStatus (settled_run now r))" for r
    by (cases "rrStatus r") (simp_all add: settled_run_def run_Terminal_def)
  have 4: "\<not> dest_open (rdStatus (settled_dest now r))" for r by (simp add: settled_dest_def dest_open_def)
  show ?thesis unfolding 1 2 reconcile_count list_all_length using 3 4 by simp
qed

text \<open>
  a lower time bound loses events. When the bound is a whole second, no event later in the same
  second is listed: its text sorts before the bound's, because the point before a fraction comes
  before the letter that ends a whole second.
\<close>

theorem since_bound_drops_events:
  assumes "efSince f mod 1000000000 = 0" "efSince f \<noteq> zero_time"
    and "efSince f < erTS e" "erTS e < efSince f + 1000000000"
  shows "\<not> event_matches f db e"
proof -
  have "erTS e div 1000000000 = efSince f div 1000000000" "erTS e mod 1000000000 \<noteq> 0"
    using assms(3,4) int_div_pos_eq [of "erTS e" 1000000000 "efSince f div 1000000000" "erTS e - efSince f"]
      int_mod_pos_eq [of "erTS e" 1000000000 "efSince f div 1000000000" "erTS e - efSince f"]
      div_mult_mod_eq [of "efSince f" 1000000000] assms(1) by simp_all
  then show ?thesis using assms(2) stored_within_second [OF assms(1)] by (simp add: event_matches_def)
qed

theorem since_bound_drops_events_witness:
  "\<not> event_matches \<lparr>efRunID = [], efJobID = [], efLevel = None, efDest = [], efSince = 1000000000, efNewest = False, efLimit = 0, efOffset = 0\<rparr>
     \<lparr>rtRuns = [], rtDests = []\<rparr> \<lparr>erID = 1, erRunID = ''r'', erTS = 1500000000, erLevel = LevelError, erDest = [], erRelPath = [], erMessage = ''x''\<rparr>"
  by (rule since_bound_drops_events) (simp_all add: zero_time_def)

end
