(* ===== verification/Run_Filters.thy ===== *)
theory Run_Filters
  imports Run_Site Engine_Exec Engine_Diff_Props Engine_Scan
begin

text \<open>
  The filters of a run (\<^verbatim>\<open>src/internal/runner/filters.go\<close>): reading rule files, compiling the
  global and the job's rules once, and building one chain per destination and one that may prune
  the shared walk of the source.
\<close>

section \<open>One rule\<close>

fun filter_error_text :: "(string \<Rightarrow> string) \<Rightarrow> filter_error \<Rightarrow> string" where
  "filter_error_text uq EmptyPattern = ''empty pattern''"
| "filter_error_text uq (SelectsNothing s) = ''pattern '' @ fmt_q uq s @ '' selects nothing''"
| "filter_error_text uq (InvalidPattern s) = ''pattern '' @ fmt_q uq s @ '' is not valid''"
| "filter_error_text uq (InRule d e) = ''rule '' @ d @ '': '' @ filter_error_text uq e"

definition ReadFileBounded :: "'w site \<Rightarrow> string \<Rightarrow> 'w \<Rightarrow> goerr + string" where
  "ReadFileBounded S path w = bounded (''reading '' @ path) (osCtx (stOs S)) (stReadFile S path w)"

definition readRuleFile :: "'w site \<Rightarrow> string \<Rightarrow> 'w mgr \<Rightarrow> (goerr + string) \<times> 'w mgr" where
  "readRuleFile S filePath m =
     (case ParseTargetRef (TrimSpace filePath) of
        None \<Rightarrow> (ReadFileBounded S filePath (mgWorld m), m)
      | Some (targetID, relPath) \<Rightarrow>
          (case stTargets S targetID of
             Inl e \<Rightarrow> (Inl (wrap (''the rule file lives on target '' @ targetID @ '', which could not be loaded: '') e), m)
           | Inr t \<Rightarrow>
               (case resolve S t [] m of
                  (Inl e, m) \<Rightarrow> (Inl (wrap (''the rule file lives on '' @ Describe (stQuote S) t @ '', which is unavailable: '') e), m)
                | (Inr (dir, st), m) \<Rightarrow>
                    let cleaned = Clean (''/'' @ relPath);
                        r = (if ''..'' \<in> set (Split1 cleaned slash)
                             then Inl (new_error (''the rule file path must not contain '' @ fmt_q (stQuote S) ''..'' @ '' path segments'') [])
                             else ReadFileBounded S (path_Join [dir, cleaned]) (mgWorld m))
                    in (r, release_storage S st m))))"

definition rulePatterns :: "'w site \<Rightarrow> filter_rule \<Rightarrow> 'w mgr \<Rightarrow> (goerr + string list) \<times> 'w mgr" where
  "rulePatterns S r m =
     (if frSource r = Val SourceInline then (Inr (frPatterns r), m)
      else case readRuleFile S (frFilePath r) m of
             (Inl e, m) \<Rightarrow> (Inl e, m)
           | (Inr body, m) \<Rightarrow>
               (if frSource r = Val SourceListFile then Inr (ParseList body)
                else PatternsAtKey (stQuote S) (stUnmarshal S) body (frJSONKey r), m))"

definition compileRule :: "'w site \<Rightarrow> filter_rule \<Rightarrow> 'w mgr \<Rightarrow> (goerr + rule) \<times> 'w mgr" where
  "compileRule S r m =
     (case rulePatterns S r m of
        (Inl e, m) \<Rightarrow> (Inl e, m)
      | (Inr patterns, m) \<Rightarrow>
          (case CompileRule (stGlob S) (frID r) (rule_Describe r)
                  (if frDirection r = Val FilterInclude then Include else Exclude) patterns (frCaseSensitive r) of
             Inl e \<Rightarrow> Inl (new_error (filter_error_text (stQuote S) e) [])
           | Inr built \<Rightarrow> Inr built, m))"


section \<open>All rules\<close>

record resolved =
  rvRule :: "rule option"
  rvScope :: "filter_scope goenum"
  rvTarget :: string
  rvDropped :: string

definition rule_label :: "global_rule list \<Rightarrow> filter_rule list \<Rightarrow> nat \<Rightarrow> string" where
  "rule_label globals filters i =
     (if i < length globals
      then ''global filter rule '' @ fmt_nat (i + 1) @ '' ('' @ global_Describe (globals ! i) @ '')''
      else let n = i - length globals in ''filter rule '' @ fmt_nat (n + 1) @ '' ('' @ rule_Describe (filters ! n) @ '')'')"

definition drop_event :: "string \<Rightarrow> goerr \<Rightarrow> event" where
  "drop_event label e =
     \<lparr>evLevel = LevelWarn, evRelPath = [], evMessage = ''ignoring '' @ label @ '': '' @ err_text e @ '' '' @ em_dash
        @ '' deletions are disabled for this run because the filter is now narrower than configured''\<rparr>"

definition drop_reason :: "string \<Rightarrow> goerr \<Rightarrow> string" where
  "drop_reason label e = label @ '': '' @ err_text e"

definition empty_events :: "bool \<Rightarrow> string \<Rightarrow> rule \<Rightarrow> event list" where
  "empty_events is_global label built =
     (if PatternCount built = 0
      then [\<lparr>evLevel = (if is_global then LevelError else LevelWarn), evRelPath = [],
             evMessage = label @ '' resolved to no patterns; it matches nothing''\<rparr>] else [])"

definition add_resolved :: "resolved \<Rightarrow> (goerr + resolved list \<times> string) \<times> 'r \<Rightarrow> (goerr + resolved list \<times> string) \<times> 'r" where
  "add_resolved c r = (case r of (Inl e, rest) \<Rightarrow> (Inl e, rest) | (Inr (cs, d), rest) \<Rightarrow> (Inr (c # cs, d), rest))"

text \<open>
  The loop over the rules, from position \<open>i\<close>: a rule that cannot be compiled fails the run or is
  dropped, and the first one dropped is the reason of the degradation.
\<close>

fun compile_rules ::
  "'w site \<Rightarrow> (nat \<Rightarrow> string) \<Rightarrow> nat \<Rightarrow> nat \<Rightarrow> filter_rule list \<Rightarrow> string \<Rightarrow> event list \<Rightarrow> 'w mgr \<Rightarrow>
   (goerr + resolved list \<times> string) \<times> event list \<times> 'w mgr" where
  "compile_rules S label nglobals i [] degr events m = (Inr ([], degr), events, m)"
| "compile_rules S label nglobals i (r # rs) degr events m =
     (case compileRule S r m of
        (Inl e, m) \<Rightarrow>
          if frOnError r = Val FilterFailRun then (Inl (wrap (label i @ '': '') e), events, m)
          else add_resolved \<lparr>rvRule = None, rvScope = frScope r, rvTarget = frScopeTarget r, rvDropped = drop_reason (label i) e\<rparr>
                 (compile_rules S label nglobals (Suc i) rs (if degr = [] then drop_reason (label i) e else degr)
                    (events @ [drop_event (label i) e]) m)
      | (Inr built, m) \<Rightarrow>
          add_resolved \<lparr>rvRule = Some built, rvScope = frScope r, rvTarget = frScopeTarget r, rvDropped = []\<rparr>
            (compile_rules S label nglobals (Suc i) rs degr (events @ empty_events (i < nglobals) (label i) built) m))"

definition build_chain :: "resolved list \<Rightarrow> string \<Rightarrow> (resolved \<Rightarrow> bool) \<Rightarrow> chain" where
  "build_chain compiled degr included =
     (let ch = NewChain (List.map_filter rvRule (filter included compiled))
      in if degr \<noteq> [] then MarkDegraded degr ch else ch)"

definition for_dest :: "string \<Rightarrow> resolved \<Rightarrow> bool" where
  "for_dest d c \<longleftrightarrow> rvScope c \<noteq> Val ScopeTarget \<or> rvTarget c = d"

definition for_walk :: "resolved \<Rightarrow> bool" where
  "for_walk c \<longleftrightarrow> rvScope c = Val ScopeJob"

definition all_rules :: "global_rule list \<Rightarrow> job \<Rightarrow> filter_rule list" where
  "all_rules globals j = map AsFilterRule globals @ jbFilters j"

definition resolveChains ::
  "'w site \<Rightarrow> job \<Rightarrow> event list \<Rightarrow> 'w mgr \<Rightarrow> (goerr + chain gomap \<times> chain) \<times> event list \<times> 'w mgr" where
  "resolveChains S j events m =
     (case stGlobals S of
        Inl e \<Rightarrow> (Inl (wrap ''loading the global filter rules: '' e), events, m)
      | Inr globals \<Rightarrow>
          let rules = all_rules globals j; dests = map jdTarget (jbDestinations j)
          in if rules = [] then (Inr (fold (\<lambda>d. goput d (NewChain [])) dests [], NewChain []), events, m)
             else case compile_rules S (rule_label globals (jbFilters j)) (length globals) 0 rules [] events m of
                    (Inl e, rest) \<Rightarrow> (Inl e, rest)
                  | (Inr (compiled, degr), rest) \<Rightarrow>
                      (Inr (fold (\<lambda>d. goput d (build_chain compiled degr (for_dest d))) dests [],
                            build_chain compiled degr for_walk), rest))"


section \<open>What was compiled\<close>

lemma chains_of:
  "goget (fold (\<lambda>d. goput d (f d)) ds m) d = (if d \<in> set ds then Some (f d) else goget m d)"
  by (induction ds arbitrary: m) (auto simp: gm.get_put)

text \<open>
  Both outcomes of \<open>resolveChains\<close> with a filter are the same construction; without rules the
  compiled list is empty.
\<close>

lemma resolveChains_cases:
  assumes "resolveChains S j events m = (Inr (chs, prune), rest)"
  obtains globals compiled degr where "stGlobals S = Inr globals"
    "compile_rules S (rule_label globals (jbFilters j)) (length globals) 0 (all_rules globals j) [] events m
       = (Inr (compiled, degr), rest)"
    "\<And>d. goget chs d = (if d \<in> jdTarget ` set (jbDestinations j) then Some (build_chain compiled degr (for_dest d)) else None)"
    "prune = build_chain compiled degr for_walk"
proof -
  obtain globals where g: "stGlobals S = Inr globals" using assms by (cases "stGlobals S") (auto simp: resolveChains_def)
  show thesis
  proof (cases "all_rules globals j = []")
    case True
    have e: "build_chain [] [] inc = NewChain []" for inc by (simp add: build_chain_def List.map_filter_simps)
    show thesis by (rule that [OF g, of "[]" "[]"])
      (use assms g True in \<open>auto simp: resolveChains_def chains_of Let_def e\<close>)
  next
    case False
    obtain q rest' where q: "compile_rules S (rule_label globals (jbFilters j)) (length globals) 0 (all_rules globals j) [] events m = (q, rest')"
      by (meson surj_pair)
    obtain compiled degr where "q = Inr (compiled, degr)" using assms g False q by (cases q) (auto simp: resolveChains_def Let_def)
    then show thesis by (intro that [OF g, of compiled degr])
      (use assms g False q in \<open>auto simp: resolveChains_def chains_of Let_def\<close>)
  qed
qed

lemma add_resolved_Inr: "add_resolved c r = (Inr (cs, d), rest) \<longleftrightarrow> (\<exists>cs'. r = (Inr (cs', d), rest) \<and> cs = c # cs')"
  by (auto simp: add_resolved_def split: prod.splits sum.splits)

lemma drop_reason_nonempty [simp]: "drop_reason l e \<noteq> []"
  by (simp add: drop_reason_def)

text \<open>Without a reason for degradation every rule was compiled.\<close>

definition compiled_as :: "'w site \<Rightarrow> bool \<Rightarrow> filter_rule \<Rightarrow> resolved \<Rightarrow> bool" where
  "compiled_as S healthy r c \<longleftrightarrow> rvScope c = frScope r \<and> rvTarget c = frScopeTarget r
     \<and> (healthy \<longrightarrow> (\<exists>b m m'. rvRule c = Some b \<and> compileRule S r m = (Inr b, m')))"

lemma compile_rules_Inr:
  assumes "compile_rules S label n i rs degr events m = (Inr (cs, d), rest)"
  shows "list_all2 (compiled_as S (d = [])) rs cs \<and> (d = [] \<longrightarrow> degr = [])"
  using assms
proof (induction rs arbitrary: i degr events m cs)
  case (Cons r rs)
  obtain q m1 where q: "compileRule S r m = (q, m1)" by fastforce
  show ?case
  proof (cases q)
    case (Inl e)
    then obtain cs' where c: "cs = \<lparr>rvRule = None, rvScope = frScope r, rvTarget = frScopeTarget r, rvDropped = drop_reason (label i) e\<rparr> # cs'"
      "compile_rules S label n (Suc i) rs (if degr = [] then drop_reason (label i) e else degr) (events @ [drop_event (label i) e]) m1
         = (Inr (cs', d), rest)"
      using Cons.prems q by (auto simp: add_resolved_Inr split: if_splits)
    have "d \<noteq> []" using Cons.IH [OF c(2)] by (auto split: if_splits)
    then show ?thesis using c(1) Cons.IH [OF c(2)] by (simp add: compiled_as_def)
  next
    case (Inr b)
    then obtain cs' where c: "cs = \<lparr>rvRule = Some b, rvScope = frScope r, rvTarget = frScopeTarget r, rvDropped = []\<rparr> # cs'"
      "compile_rules S label n (Suc i) rs degr (events @ empty_events (i < n) (label i) b) m1 = (Inr (cs', d), rest)"
      using Cons.prems q by (auto simp: add_resolved_Inr)
    show ?thesis using c(1) Cons.IH [OF c(2)] q Inr by (auto simp: compiled_as_def)
  qed
qed auto

lemma build_chain_rules:
  "excludeRules (build_chain cs degr inc) = filter (\<lambda>r. Direction r \<noteq> Include) (map clone (List.map_filter rvRule (filter inc cs)))"
  "degraded (build_chain cs degr inc) \<longleftrightarrow> degr \<noteq> []"
  by (simp_all add: build_chain_def NewChain_def MarkDegraded_def Let_def)

lemma resolveChains_chain:
  assumes "resolveChains S j events m = (Inr (chs, prune), rest)" and "goget chs d = Some c"
  shows "\<exists>globals compiled degr. stGlobals S = Inr globals \<and> prune = build_chain compiled degr for_walk
    \<and> c = build_chain compiled degr (for_dest d)
    \<and> compile_rules S (rule_label globals (jbFilters j)) (length globals) 0 (all_rules globals j) [] events m = (Inr (compiled, degr), rest)"
proof (rule resolveChains_cases [OF assms(1)])
  fix globals compiled degr
  assume "stGlobals S = Inr globals" "prune = build_chain compiled degr for_walk"
    "compile_rules S (rule_label globals (jbFilters j)) (length globals) 0 (all_rules globals j) [] events m = (Inr (compiled, degr), rest)"
    "\<And>d. goget chs d = (if d \<in> jdTarget ` set (jbDestinations j) then Some (build_chain compiled degr (for_dest d)) else None)"
  then show ?thesis using assms(2) by (intro exI [of _ globals] exI [of _ compiled] exI [of _ degr]) (auto split: if_splits)
qed

lemma set_map_filter: "set (List.map_filter f xs) = {y. \<exists>x \<in> set xs. f x = Some y}"
  by (induction xs) (auto simp: List.map_filter_simps split: option.splits)

lemma walk_rules_subset:
  "set (excludeRules (build_chain cs degr for_walk)) \<subseteq> set (excludeRules (build_chain cs degr (for_dest d)))"
  by (auto simp: build_chain_rules set_map_filter for_walk_def for_dest_def intro!: imageI)

lemma compiled_rules_of:
  assumes "list_all2 (compiled_as S True) rs cs"
  shows "\<exists>built. list_all2 (\<lambda>r b. \<exists>m m'. compileRule S r m = (Inr b, m')) rs built
    \<and> (\<forall>d. List.map_filter rvRule (filter (for_dest d) cs)
           = map snd (filter (\<lambda>(r, b). frScope r \<noteq> Val ScopeTarget \<or> frScopeTarget r = d) (zip rs built)))"
  using assms
proof (induction rule: list_all2_induct)
  case Nil
  show ?case by (intro exI [of _ "[]"]) (simp add: List.map_filter_simps)
next
  case (Cons r rs c cs)
  obtain b where b: "rvRule c = Some b" "\<exists>m m'. compileRule S r m = (Inr b, m')" using Cons.hyps(1) by (auto simp: compiled_as_def)
  obtain built where bs: "list_all2 (\<lambda>r b. \<exists>m m'. compileRule S r m = (Inr b, m')) rs built"
    "\<And>d. List.map_filter rvRule (filter (for_dest d) cs)
       = map snd (filter (\<lambda>(r, b). frScope r \<noteq> Val ScopeTarget \<or> frScopeTarget r = d) (zip rs built))"
    using Cons.IH by blast
  have "for_dest d c \<longleftrightarrow> frScope r \<noteq> Val ScopeTarget \<or> frScopeTarget r = d" for d
    using Cons.hyps(1) by (simp add: compiled_as_def for_dest_def)
  then show ?case using b bs by (intro exI [of _ "b # built"]) (auto simp: List.map_filter_simps)
qed

text \<open>Reading rule files gives every mount back.\<close>

lemma readRuleFile_refs:
  assumes "mgr_ok m" "readRuleFile S f m = (r, m')"
  shows "mgr_ok m' \<and> mgr_refs x m' = mgr_refs x m"
proof (cases "ParseTargetRef (TrimSpace f)")
  case (Some ref)
  obtain tid rel where ref: "ref = (tid, rel)" by fastforce
  show ?thesis
  proof (cases "stTargets S tid")
    case (Inr t)
    obtain q m1 where q: "resolve S t [] m = (q, m1)" by fastforce
    note refs = resolveWith_refs [OF assms(1) q]
    show ?thesis
    proof (cases q)
      case (Inl e)
      then show ?thesis using assms(2) Some ref Inr q refs(1) refs(2) [of x] by (auto simp: readRuleFile_def)
    next
      case (Inr rs)
      obtain dir st where rs: "rs = (dir, st)" by fastforce
      have t: "tgID (storage_target st) = tgID t" using refs(3) Inr rs by blast
      have "0 \<le> mgr_refs (tgID t) m" using assms(1) by (auto simp: mgr_ok_def mgr_refs_def split: option.split)
      then have le: "storage_weight st \<le> mgr_refs (tgID (storage_target st)) m1" using refs(2) [of "tgID t"] Inr rs t by simp
      have "m' = release_storage S st m1" using assms(2) Some ref \<open>stTargets S tid = Inr t\<close> q Inr rs by (auto simp: readRuleFile_def Let_def)
      then show ?thesis using release_storage_refs [OF refs(1) le, where S = S] refs(2) [of x] Inr rs t by auto
    qed
  qed (use assms Some ref in \<open>auto simp: readRuleFile_def\<close>)
qed (use assms in \<open>auto simp: readRuleFile_def\<close>)

lemma compileRule_refs: "mgr_ok m \<Longrightarrow> compileRule S r m = (q, m') \<Longrightarrow> mgr_ok m' \<and> mgr_refs x m' = mgr_refs x m"
  by (auto simp: compileRule_def rulePatterns_def dest: readRuleFile_refs split: prod.splits sum.splits if_splits)

lemma compile_rules_refs:
  "mgr_ok m \<Longrightarrow> compile_rules S label n i rs degr events m = (q, events', m') \<Longrightarrow> mgr_ok m' \<and> mgr_refs x m' = mgr_refs x m"
proof (induction rs arbitrary: i degr events m q)
  case (Cons r rs)
  obtain b m1 where b: "compileRule S r m = (b, m1)" by fastforce
  note m1 = compileRule_refs [OF Cons.prems(1) b]
  have rest: "snd (add_resolved c z) = snd z" for c and z :: "(goerr + resolved list \<times> string) \<times> event list \<times> 'a mgr"
    by (auto simp: add_resolved_def split: prod.splits sum.splits)
  obtain d' ev' q' where "(m' = m1) \<or> compile_rules S label n (Suc i) rs d' ev' m1 = (q', events', m')"
    using Cons.prems(2) b rest by (cases b) (auto split: if_splits, (metis prod.collapse snd_conv)+)
  then show ?case using m1 [of x] Cons.IH [of m1] m1 by auto
qed simp

lemma resolveChains_refs:
  "mgr_ok m \<Longrightarrow> resolveChains S j events m = (r, events', m') \<Longrightarrow> mgr_ok m' \<and> mgr_refs x m' = mgr_refs x m"
  by (auto simp: resolveChains_def Let_def dest: compile_rules_refs split: sum.splits prod.splits if_splits)


section \<open>Properties\<close>

text \<open>
  pruning the shared walk hides nothing a destination wants. A directory that the job's walk of
  the source skips is one that the chain of no destination admits, nor anything beneath it.
\<close>

theorem shared_walk_hides_nothing:
  assumes "resolveChains S j events m = (Inr (chs, prune), rest)" and "goget chs d = Some c"
    and "fst (chain_PrunesDir ge (Some prune) dir)"
  shows "\<not> fst (chain_Admits ge (Some c) dir True) \<and> (\<forall>p isDir. beneath dir p \<longrightarrow> \<not> fst (chain_Admits ge (Some c) p isDir))"
proof -
  obtain compiled degr where c: "prune = build_chain compiled degr for_walk" "c = build_chain compiled degr (for_dest d)"
    using resolveChains_chain [OF assms(1,2)] by blast
  have "fst (chain_PrunesDir ge (Some c) dir)"
    using assms(3) c walk_rules_subset [of compiled degr d] by (auto simp: PrunesDir_fst)
  then show ?thesis using chain_scope.prune_self chain_scope.prune_beneath by blast
qed

text \<open>
  C5: files are only deleted under the whole filter. When a plan made with a destination's chain
  holds a trailing removal, then every rule of the job and every global one was read and
  compiled, and the chain consists of exactly those that apply to the destination, in order.
\<close>

theorem deletions_need_the_whole_filter:
  assumes "resolveChains S j events m = (Inr (chs, prune), rest)" and "goget chs d = Some c" and "listing_ok src"
    and "a \<in> set (Actions (Diff um src dst (opts\<lparr>Filter := Some (chain_matcher ge (Some c))\<rparr>)))"
    and "Kind a \<in> {ActionDelete, ActionRmDir}" and "\<not> Unblock a"
  shows "\<exists>globals built. stGlobals S = Inr globals
     \<and> list_all2 (\<lambda>r b. \<exists>m m'. compileRule S r m = (Inr b, m')) (all_rules globals j) built
     \<and> c = NewChain (map snd (filter (\<lambda>(r, b). frScope r \<noteq> Val ScopeTarget \<or> frScopeTarget r = d) (zip (all_rules globals j) built)))"
proof -
  let ?opts = "opts\<lparr>Filter := Some (chain_matcher ge (Some c))\<rparr>"
  obtain globals compiled degr where g: "stGlobals S = Inr globals" and c: "c = build_chain compiled degr (for_dest d)"
      and cr: "compile_rules S (rule_label globals (jbFilters j)) (length globals) 0 (all_rules globals j) [] events m = (Inr (compiled, degr), rest)"
    using resolveChains_chain [OF assms(1,2)] by blast
  have "mirroring ?opts" "blocked_reason src dst ?opts = []" using trailing_removal [OF assms(4,3,5,6)] by auto
  then have "\<not> degraded c" by (auto simp: blocked_reason_def deletionGuard_passes chain_matcher_def chain_Degraded_def)
  then have "degr = []" using c build_chain_rules(2) by blast
  moreover have "list_all2 (compiled_as S True) (all_rules globals j) compiled"
    using compile_rules_Inr [OF cr] \<open>degr = []\<close> by simp
  ultimately obtain built where b: "list_all2 (\<lambda>r b. \<exists>m m'. compileRule S r m = (Inr b, m')) (all_rules globals j) built"
    "List.map_filter rvRule (filter (for_dest d) compiled)
       = map snd (filter (\<lambda>(r, b). frScope r \<noteq> Val ScopeTarget \<or> frScopeTarget r = d) (zip (all_rules globals j) built))"
    using compiled_rules_of [of S "all_rules globals j" compiled] by blast
  have "c = NewChain (List.map_filter rvRule (filter (for_dest d) compiled))" using c \<open>degr = []\<close> by (simp add: build_chain_def)
  then have "c = NewChain (map snd (filter (\<lambda>(r, b). frScope r \<noteq> Val ScopeTarget \<or> frScopeTarget r = d) (zip (all_rules globals j) built)))"
    unfolding b(2) .
  then show ?thesis using g b(1) by (intro exI conjI)
qed

text \<open>A site whose rules are inline, a job that excludes one directory, and a mirror plan under its chain.\<close>

definition quiet_os :: "mount_info list os_calls" where
  "quiet_os = \<lparr>osStat = (\<lambda>p w. Some (Inr True)), osMkdirAll = (\<lambda>p w. (Some (Inr ()), w)), osCtx = new_error ''context canceled'' [Canceled]\<rparr>"

definition plain_glob :: glob_env where
  "plain_glob = \<lparr>validate_pattern = (\<lambda>_. True), glob_match = (\<lambda>g s. Some (g = s)), unicode_lower = id\<rparr>"

definition sample_site :: "mount_info list site" where
  "sample_site = \<lparr>stMounter = good_server, stConfig = sample_config, stCall = sample_call, stQuote = id, stOs = quiet_os,
     stReadFile = (\<lambda>p w. None), stGlob = plain_glob, stUnmarshal = (\<lambda>s. Inr JNull),
     stTargets = (\<lambda>i. Inr ((guest_target ''h1'')\<lparr>tgID := i\<rparr>)), stGlobals = Inr []\<rparr>"

definition cache_rule :: rule where
  "cache_rule = \<lparr>rID = ''r1'', Description = ''exclude (inline, 1 pattern(s))'', Direction = Exclude,
     Patterns = [\<lparr>raw = ''cache'', glob = ''cache'', anchored = False, dirOnly = False, caseSensitive = True\<rparr>], admitted = 0, excluded = 0\<rparr>"

definition cached_job :: job where
  "cached_job = sample_job\<lparr>jbFilters := [\<lparr>frID = ''r1'', frScope = Val ScopeJob, frScopeTarget = [], frDirection = Val FilterExclude,
     frSource = Val SourceInline, frPatterns = [''cache''], frFilePath = [], frJSONKey = [], frCaseSensitive = True, frOnError = Val FilterFailRun\<rparr>]\<rparr>"

lemma cached_compile: "compileRule sample_site (hd (jbFilters cached_job)) m = (Inr cache_rule, m)"
proof -
  have "TrimSpace ''cache'' = ''cache''" by (simp add: TrimSpace_graphic graphic_def)
  moreover have "fmt_nat 1 = ''1''" by code_simp
  ultimately show ?thesis
    by (simp add: compileRule_def rulePatterns_def cached_job_def CompileRule_def Compile_def Contains_def HasPrefix_def HasSuffix_def
        sample_site_def plain_glob_def cache_rule_def rule_Describe_def direction_text_def sublist_def suffix_def Let_def digit_char_def)
qed

lemma cached_chains:
  "resolveChains sample_site cached_job [] m =
     (Inr ([(''b2'', NewChain [cache_rule]), (''a1'', NewChain [cache_rule])], NewChain [cache_rule]), [], m)"
proof -
  have "compile_rules sample_site l 0 0 (jbFilters cached_job) [] [] m
      = (Inr ([\<lparr>rvRule = Some cache_rule, rvScope = Val ScopeJob, rvTarget = [], rvDropped = []\<rparr>], []), [], m)" for l
    using cached_compile [of m] by (simp add: cached_job_def add_resolved_def empty_events_def PatternCount_def cache_rule_def)
  moreover have "map jdTarget (jbDestinations cached_job) = [''b2'', ''a1'']"
    by (simp add: cached_job_def sample_job_def job_ApplyDefaults_def)
  moreover have "jbFilters cached_job \<noteq> []" by (simp add: cached_job_def)
  ultimately show ?thesis
    by (simp add: resolveChains_def all_rules_def sample_site_def build_chain_def for_dest_def for_walk_def List.map_filter_simps)
qed

theorem shared_walk_hides_nothing_witness:
  "\<not> fst (chain_Admits plain_glob (Some (NewChain [cache_rule])) ''cache'' True)"
proof -
  have "fst (chain_PrunesDir plain_glob (Some (NewChain [cache_rule])) ''cache'')"
    by (simp add: PrunesDir_fst NewChain_def cache_rule_def clone_def matches_def Match_def glob_ok_def plain_glob_def)
  then show ?thesis using shared_walk_hides_nothing [OF cached_chains, of "''a1''"] by simp
qed

theorem deletions_need_the_whole_filter_witness:
  "\<exists>built. list_all2 (\<lambda>r b. \<exists>m m'. compileRule sample_site r m = (Inr b, m')) (all_rules [] cached_job) built \<and> built \<noteq> []"
proof -
  let ?src = "empty_result\<lparr>Entries := [(''a'', file_entry ''a'' 1 10)]\<rparr>"
  let ?dst = "empty_result\<lparr>Entries := [(''a'', file_entry ''a'' 1 10), (''b'', file_entry ''b'' 1 10)]\<rparr>"
  let ?opts = "(sample_opts ModeMirror)\<lparr>Filter := Some (chain_matcher plain_glob (Some (NewChain [cache_rule])))\<rparr>"
  have "listing_ok ?src" by code_simp
  moreover have "Actions (Diff id ?src ?dst ?opts) = [(mk_action ActionDelete ''b'' ''not present at the source'')\<lparr>aSize := 1\<rparr>]"
    by code_simp
  ultimately show ?thesis
    using deletions_need_the_whole_filter [OF cached_chains, where d = "''a1''" and c = "NewChain [cache_rule]" and src = ?src
        and dst = ?dst and um = id and opts = "sample_opts ModeMirror" and ge = plain_glob]
    by (fastforce simp: mk_action_def all_rules_def sample_site_def cached_job_def)
qed

end
