(* ===== verification/Run_Avail.thy ===== *)
theory Run_Avail
  imports Run_Site Run_Store Run_Registry Run_Events Run_Outcome Run_Filters
begin

text \<open>
  The availability gate of a destination (\<^verbatim>\<open>src/internal/runner/runner.go\<close>,
  \<open>resolveDestination\<close> and \<open>askAboutDestination\<close>; \<^verbatim>\<open>gate.go\<close>, \<open>waitForPrompt\<close>): resolving
  it, skipping it, aborting, or asking a person, and what is recorded on each way.
\<close>

section \<open>What a run works on\<close>

text \<open>
  A wait ends with an answer, with its timer, or with the run's context. A destination has a list
  of them, one per prompt in order; when the list is used up, nobody answers any more.
\<close>

datatype reply = Answered prompt_action | NoAnswer | Ended

text \<open>
  Everything a run meets: the site, the job, the clock, the faults of the database's statements,
  when the user cancels, the answers, and the engine's outcomes. A moment is a number that
  grows with every statement and every look at the context, so a fault or a cancellation can
  come at any of them.
\<close>

record 'w run_env =
  veSite :: "'w site"
  veRunID :: string
  veJob :: job
  vePreview :: bool
  veFault :: "nat \<Rightarrow> goerr option"
  veNow :: "nat \<Rightarrow> gotime"
  veCancelAt :: "nat \<Rightarrow> bool"
  veReplies :: "string \<Rightarrow> reply list"
  veConfirm :: reply
  veScan :: "(string \<Rightarrow> bool) \<Rightarrow> string \<Rightarrow> 'w \<Rightarrow> goerr + scan_result"
  veExec :: "string \<Rightarrow> string \<Rightarrow> 'w exec_env"
  veSched :: "string \<Rightarrow> exec_schedule"
  veTally :: "chain \<Rightarrow> chain"

datatype notice = Notify string | Forget

text \<open>\<open>xrStopped\<close> is \<open>ctx.Err() != nil\<close>; \<open>xrCancelled\<close> is the flag a user's cancellation sets.\<close>

record 'w run_state =
  xrMgr :: "'w mgr"
  xrProgress :: progress
  xrGate :: gate
  xrParked :: bool
  xrEvents :: event_buffer
  xrDb :: run_tables
  xrClock :: nat
  xrStopped :: bool
  xrCancelled :: bool
  xrNotes :: "notice list"
  xrPlans :: "(string \<times> plan) list"

definition on_progress :: "(progress \<Rightarrow> progress) \<Rightarrow> 'w run_state \<Rightarrow> 'w run_state" where
  "on_progress f st = st\<lparr>xrProgress := f (xrProgress st)\<rparr>"

text \<open>A statement of the database; an error is only logged.\<close>

definition db_write ::
  "'w run_env \<Rightarrow> (goerr option \<Rightarrow> gotime \<Rightarrow> run_tables \<Rightarrow> goerr option \<times> run_tables) \<Rightarrow> 'w run_state \<Rightarrow> 'w run_state" where
  "db_write E f st =
     st\<lparr>xrDb := snd (f (veFault E (xrClock st)) (veNow E (xrClock st)) (xrDb st)), xrClock := xrClock st + 1\<rparr>"

definition log_event :: "'w run_env \<Rightarrow> string \<Rightarrow> event \<Rightarrow> 'w run_state \<Rightarrow> 'w run_state" where
  "log_event E d ev st =
     st\<lparr>xrEvents := AddFor (veFault E (xrClock st) = None) d ev (xrEvents st), xrClock := xrClock st + 1\<rparr>"

abbreviation says :: "'w run_env \<Rightarrow> string \<Rightarrow> event_level \<Rightarrow> string \<Rightarrow> string \<Rightarrow> 'w run_state \<Rightarrow> 'w run_state" where
  "says E d l rel msg \<equiv> log_event E d \<lparr>evLevel = l, evRelPath = rel, evMessage = msg\<rparr>"

definition flush_events :: "'w run_env \<Rightarrow> 'w run_state \<Rightarrow> 'w run_state" where
  "flush_events E st =
     st\<lparr>xrEvents := Flush (veFault E (xrClock st) = None) (xrEvents st), xrClock := xrClock st + 1\<rparr>"

definition add_note :: "notice \<Rightarrow> 'w run_state \<Rightarrow> 'w run_state" where
  "add_note n st = st\<lparr>xrNotes := xrNotes st @ [n]\<rparr>"

definition on_gate :: "(gate \<Rightarrow> gate) \<Rightarrow> 'w run_state \<Rightarrow> 'w run_state" where
  "on_gate f st = st\<lparr>xrGate := f (xrGate st)\<rparr>"

text \<open>A look at \<open>ctx.Err()\<close>, before which the user may have cancelled.\<close>

definition look_ctx :: "'w run_env \<Rightarrow> 'w run_state \<Rightarrow> bool \<times> 'w run_state" where
  "look_ctx E st =
     (let c = veCancelAt E (xrClock st);
          st = st\<lparr>xrClock := xrClock st + 1, xrCancelled := (xrCancelled st \<or> c), xrStopped := (xrStopped st \<or> c)\<rparr>
      in (xrStopped st, st))"

definition stop_run :: "'w run_state \<Rightarrow> 'w run_state" where
  "stop_run st = st\<lparr>xrStopped := True\<rparr>"

text \<open>What the context ending during a wait means for the state: someone stopped the run.\<close>

definition after_wait :: "reply \<Rightarrow> 'w run_state \<Rightarrow> 'w run_state" where
  "after_wait r st =
     (if r = Ended then st\<lparr>xrStopped := True, xrCancelled := (xrCancelled st \<or> \<not> xrStopped st)\<rparr> else st)"

definition with_mgr :: "('w mgr \<Rightarrow> 'a \<times> 'w mgr) \<Rightarrow> 'w run_state \<Rightarrow> 'a \<times> 'w run_state" where
  "with_mgr f st = (case f (xrMgr st) of (r, m) \<Rightarrow> (r, st\<lparr>xrMgr := m\<rparr>))"


section \<open>Asking\<close>

fun waitForPrompt :: "reply \<Rightarrow> prompt_fallback goenum \<Rightarrow> prompt_action \<times> bool" where
  "waitForPrompt (Answered a) fallback = (a, True)"
| "waitForPrompt NoAnswer fallback = (if fallback = Val FallbackAbort then PromptAbort else PromptSkip, False)"
| "waitForPrompt Ended fallback = (PromptSkip, False)"

fun action_text :: "prompt_action \<Rightarrow> string" where
  "action_text PromptSkip = ''skip''"
| "action_text PromptRetry = ''retry''"
| "action_text PromptAbort = ''abort''"
| "action_text PromptCreate = ''create''"
| "action_text (PromptOther s) = s"

fun fallback_text :: "prompt_fallback goenum \<Rightarrow> string" where
  "fallback_text (Val FallbackSkip) = ''skip''"
| "fallback_text (Val FallbackAbort) = ''abort''"
| "fallback_text (Raw s) = s"

definition prompt_timeout :: "job \<Rightarrow> duration" where
  "prompt_timeout j = wrap64 (jbPromptTimeoutSec j * 1000000000)"

definition notifyPrompt :: string where
  "notifyPrompt = ''target_unavailable_prompt''"

definition askAboutDestination ::
  "'w run_env \<Rightarrow> string \<Rightarrow> string \<Rightarrow> bool \<Rightarrow> reply \<Rightarrow> 'w run_state \<Rightarrow> (prompt_action \<times> bool) \<times> 'w run_state" where
  "askAboutDestination E d message canCreate r st =
     (let j = veJob E;
          st = on_gate (gate_open d) st;
          deadline = veNow E (xrClock st) + prompt_timeout j;
          st = on_progress (setPrompt d deadline message canCreate \<circ> setStatus d DestAwaitingPrompt) st;
          st = db_write E (\<lambda>e now. SetRunDestinationStatus e (veRunID E) d DestAwaitingPrompt) st;
          st = says E d LevelWarn [] (message @ '' '' @ em_dash @ '' waiting up to '' @ fmt_int (jbPromptTimeoutSec j)
                 @ ''s for a decision; with no answer this destination will '' @ fallback_text (jbPromptFallback j)) st;
          st = add_note (Notify notifyPrompt) st;
          (action, answered) = waitForPrompt r (jbPromptFallback j);
          st = on_progress (clearPrompt d) (on_gate (gate_close d) (after_wait r st));
          (stopped, st) = (if answered then (True, st) else look_ctx E st);
          st = (if answered then says E d LevelInfo [] (''answered '' @ fmt_q (stQuote (veSite E)) (action_text action) @ '' for this destination'') st
                else if \<not> stopped
                then says E d LevelWarn [] (''no answer after '' @ fmt_int (jbPromptTimeoutSec j) @ ''s; falling back to ''
                       @ fallback_text (jbPromptFallback j)) st
                else st)
      in ((action, answered), st))"


section \<open>The gate\<close>

definition destFailed :: "'w run_env \<Rightarrow> string \<Rightarrow> string \<Rightarrow> 'w run_state \<Rightarrow> dest_outcome \<times> 'w run_state" where
  "destFailed E d message st =
     (let st = says E d LevelError [] message st;
          st = on_progress (setStatus d DestFailed) st;
          st = db_write E (\<lambda>e now. FinishRunDestination e now (veRunID E) d DestFailed message) st
      in (blank_outcome\<lparr>doTarget := d, doStatus := Some DestFailed, doSummary := message\<rparr>, st))"

definition mayCreate :: "'w run_env \<Rightarrow> bool" where
  "mayCreate E \<longleftrightarrow> \<not> vePreview E \<and> jbCreateDestDirs (veJob E) = Val CreateDirsAlways"

definition mayAsk :: "'w run_env \<Rightarrow> bool" where
  "mayAsk E \<longleftrightarrow> \<not> vePreview E \<and> jbCreateDestDirs (veJob E) = Val CreateDirsAsk"

definition missing_folder :: "goerr \<Rightarrow> bool" where
  "missing_folder e \<longleftrightarrow> errors_Is e ErrPathNotExist"

definition gate_message :: "'w run_env \<Rightarrow> target \<Rightarrow> goerr \<Rightarrow> string" where
  "gate_message E t e =
     (if missing_folder e \<and> vePreview E
      then ''the destination folder does not exist yet and a preview creates nothing; ''
           @ ''it will be made when the job actually runs: '' @ err_text e
      else if missing_folder e \<and> mayAsk E
      then ''the destination folder does not exist yet: '' @ err_text e
      else ''destination '' @ Describe (stQuote (veSite E)) t @ '' is unavailable: '' @ err_text e)"

text \<open>How the gate ends: with a root, with an outcome, or with another turn of its loop.\<close>

datatype gate_end = Reached string storage | Refused dest_outcome | Again

definition refuse_abort :: "'w run_env \<Rightarrow> string \<Rightarrow> string \<Rightarrow> 'w run_state \<Rightarrow> gate_end \<times> 'w run_state" where
  "refuse_abort E d message st =
     (let st = says E d LevelError [] (message @ '' '' @ em_dash @ '' this job aborts on an unavailable destination'') st;
          (failed, st) = destFailed E d message st
      in (Refused (failed\<lparr>doUnavailable := True\<rparr>), stop_run st))"

definition refuse_skip :: "'w run_env \<Rightarrow> string \<Rightarrow> string \<Rightarrow> 'w run_state \<Rightarrow> gate_end \<times> 'w run_state" where
  "refuse_skip E d message st =
     (let st = says E d LevelWarn [] (message @ '' '' @ em_dash @ '' skipping it and continuing'') st;
          st = on_progress (setStatus d DestSkippedUnavailable) st;
          st = db_write E (\<lambda>e now. FinishRunDestination e now (veRunID E) d DestSkippedUnavailable message) st
      in (Refused (blank_outcome\<lparr>doTarget := d, doStatus := Some DestSkippedUnavailable, doSummary := message,
            doUnavailable := True\<rparr>), st))"

definition refuse :: "'w run_env \<Rightarrow> unavailable_policy goenum \<Rightarrow> string \<Rightarrow> string \<Rightarrow> 'w run_state \<Rightarrow> gate_end \<times> 'w run_state" where
  "refuse E policy d message st =
     (if policy = Val PolicyAbort then refuse_abort E d message st else refuse_skip E d message st)"

text \<open>One pass with creation allowed.\<close>

definition create_folder :: "'w run_env \<Rightarrow> job_destination \<Rightarrow> target \<Rightarrow> 'w run_state \<Rightarrow> gate_end \<times> 'w run_state" where
  "create_folder E dest t st =
     (let d = jdTarget dest;
          st = says E d LevelInfo [] (''creating the destination folder at your request: '' @ jdSubpath dest) st
      in case with_mgr (resolveWith (veSite E) t (jdSubpath dest) True) st of
           (Inr (dir, stg), st) \<Rightarrow> (Reached dir stg, st)
         | (Inl e, st) \<Rightarrow>
             let st = says E d LevelError [] (''could not create the destination folder: '' @ err_text e) st
             in refuse_skip E d (''the destination folder could not be created: '' @ err_text e) st)"

definition timeout_note :: "'w run_env \<Rightarrow> string" where
  "timeout_note E =
     '' '' @ em_dash @ '' no answer within '' @ fmt_int (jbPromptTimeoutSec (veJob E)) @ ''s, falling back to ''
     @ fallback_text (jbPromptFallback (veJob E))"

definition cancelled_outcome :: "string \<Rightarrow> dest_outcome" where
  "cancelled_outcome d = blank_outcome\<lparr>doTarget := d, doStatus := Some DestCancelled\<rparr>"

text \<open>What is done with the answer to a prompt.\<close>

definition obey ::
  "'w run_env \<Rightarrow> job_destination \<Rightarrow> target \<Rightarrow> string \<Rightarrow> bool \<Rightarrow> prompt_action \<times> bool \<Rightarrow> 'w run_state \<Rightarrow> gate_end \<times> 'w run_state" where
  "obey E dest t message canCreate aa st =
     (let d = jdTarget dest; (action, answered) = aa;
          noted = (if answered then message else message @ timeout_note E)
      in case action of
           PromptRetry \<Rightarrow> (Again, says E d LevelInfo [] ''retrying the destination at your request'' st)
         | PromptCreate \<Rightarrow>
             if \<not> canCreate
             then (Again, says E d LevelWarn [] (''there is no folder to create here '' @ em_dash
                            @ '' the destination could not be reached at all; retrying'') st)
             else create_folder E dest t st
         | PromptAbort \<Rightarrow> refuse E (Val PolicyAbort) d noted st
         | _ \<Rightarrow> refuse E (Val PolicySkip) d noted st)"

definition ask ::
  "'w run_env \<Rightarrow> job_destination \<Rightarrow> target \<Rightarrow> string \<Rightarrow> bool \<Rightarrow> reply \<Rightarrow> 'w run_state \<Rightarrow> gate_end \<times> 'w run_state" where
  "ask E dest t message canCreate r st =
     (let d = jdTarget dest; (aa, st) = askAboutDestination E d message canCreate r st; (stopped, st) = look_ctx E st
      in if stopped then (Refused (cancelled_outcome d), on_progress (setStatus d DestCancelled) st)
         else obey E dest t message canCreate aa st)"

text \<open>
  One turn of the loop. It asks when the job prompts, and about a missing folder when the job may
  ask for it.
\<close>

definition gate_turn ::
  "'w run_env \<Rightarrow> job_destination \<Rightarrow> target \<Rightarrow> reply \<Rightarrow> 'w run_state \<Rightarrow> gate_end \<times> 'w run_state" where
  "gate_turn E dest t r st =
     (case with_mgr (resolveWith (veSite E) t (jdSubpath dest) (mayCreate E)) st of
        (Inr (dir, stg), st) \<Rightarrow> (Reached dir stg, st)
      | (Inl e, st) \<Rightarrow>
          let message = gate_message E t e; canCreate = (missing_folder e \<and> mayAsk E);
              policy = jbUnavailable (veJob E)
          in if policy = Val PolicyPrompt \<or> canCreate then ask E dest t message canCreate r st
             else refuse E policy (jdTarget dest) message st)"

fun gate_loop ::
  "'w run_env \<Rightarrow> job_destination \<Rightarrow> target \<Rightarrow> reply list \<Rightarrow> 'w run_state \<Rightarrow> gate_end \<times> 'w run_state" where
  "gate_loop E dest t [] st = gate_turn E dest t NoAnswer st"
| "gate_loop E dest t (r # rs) st =
     (case gate_turn E dest t r st of (Again, st) \<Rightarrow> gate_loop E dest t rs st | ended \<Rightarrow> ended)"

definition resolveDestination :: "'w run_env \<Rightarrow> job_destination \<Rightarrow> target \<Rightarrow> 'w run_state \<Rightarrow> gate_end \<times> 'w run_state" where
  "resolveDestination E dest t st = gate_loop E dest t (veReplies E (jdTarget dest)) st"

end
