(* ===== verification/Run_Pipeline.thy ===== *)
theory Run_Pipeline
  imports Run_Avail Engine_Diff
begin

text \<open>
  The pipeline of one run (\<^verbatim>\<open>src/internal/runner/runner.go\<close>, \<open>execute\<close>): resolve the filters and
  the source, scan the source once, plan every destination and execute each, or hold the plans of
  a preview until they are confirmed, and record how it ended. The destinations are taken one
  after another, the code's default; the opt-in goroutine per destination and the ticker that
  flushes counters in between are not part of the model.
\<close>

section \<open>Planning one destination\<close>

record planned_dest =
  pdDest :: job_destination
  pdChain :: chain
  pdRoot :: string
  pdStorage :: "storage option"  \<comment> \<open>the storage whose release it owes\<close>
  pdPlan :: "plan option"
  pdOutcome :: "dest_outcome option"

definition pd_of :: "job_destination \<Rightarrow> chain \<Rightarrow> planned_dest" where
  "pd_of dest c = \<lparr>pdDest = dest, pdChain = c, pdRoot = [], pdStorage = None, pdPlan = None, pdOutcome = None\<rparr>"

abbreviation pdTarget :: "planned_dest \<Rightarrow> string" where
  "pdTarget p \<equiv> jdTarget (pdDest p)"

abbreviation prunes :: "'w run_env \<Rightarrow> chain \<Rightarrow> string \<Rightarrow> bool" where
  "prunes E c d \<equiv> fst (chain_PrunesDir (stGlob (veSite E)) (Some c) d)"

text \<open>The differ looks at the mode only to ask whether it mirrors.\<close>

definition mode_of :: "sync_mode goenum \<Rightarrow> sync_mode" where
  "mode_of m = (if m = Val ModeMirror then ModeMirror else ModeUpdate)"

definition diff_options_of :: "'w run_env \<Rightarrow> target \<Rightarrow> chain \<Rightarrow> diff_options" where
  "diff_options_of E t c =
     \<lparr>Mode = mode_of (jbMode (veJob E)), Tolerance = job_Tolerance (veJob E), IgnoreDSTHour = jbIgnoreDSTHour (veJob E),
      CaseInsensitiveDest = (tgType t = TargetSMB), Filter = Some (chain_matcher (stGlob (veSite E)) (Some c))\<rparr>"

definition tell_links :: "'w run_env \<Rightarrow> string \<Rightarrow> string \<Rightarrow> string list \<Rightarrow> 'w run_state \<Rightarrow> 'w run_state" where
  "tell_links E d msg links = fold (\<lambda>l. says E d LevelWarn l msg) links"

definition counts_message :: "'w run_env \<Rightarrow> counts \<Rightarrow> string" where
  "counts_message E c =
     ''filter '' @ fmt_q (stQuote (veSite E)) (cDescription c) @ '': admitted '' @ fmt_nat (unat (cAdmitted c))
     @ '', excluded '' @ fmt_nat (unat (cExcluded c))"

definition plan_message :: "plan \<Rightarrow> string" where
  "plan_message p =
     ''plan: '' @ fmt_int (MkDirs p) @ '' directories to create, '' @ fmt_int (Copies p) @ '' files to copy (''
     @ fmt_int (CopyBytes p) @ '' bytes), '' @ fmt_int (Deletes p) @ '' to delete, '' @ fmt_int (RmDirs p)
     @ '' directories to remove''"

definition tell_plan :: "'w run_env \<Rightarrow> string \<Rightarrow> chain \<Rightarrow> plan \<Rightarrow> 'w run_state \<Rightarrow> 'w run_state" where
  "tell_plan E d c p st =
     (let st = fold (\<lambda>x. says E d LevelWarn (cRelPath x) (cReason x)) (Conflicts p) st;
          st = fold (\<lambda>x. says E d LevelInfo [] (counts_message E x)) (Counts (Some (veTally E c))) st;
          st = says E d LevelInfo [] (plan_message p) st
      in if DeletionsBlocked p then says E d LevelError [] (BlockedReason p) st else st)"

definition show_plan :: "string \<Rightarrow> plan \<Rightarrow> progress \<Rightarrow> progress" where
  "show_plan d p = markPlanned d \<circ> on_dest d (SetTotals (Copies p) (CopyBytes p)) \<circ> setPlan d (destPlanOf d p)"

definition fail_dest :: "'w run_env \<Rightarrow> planned_dest \<Rightarrow> string \<Rightarrow> 'w run_state \<Rightarrow> planned_dest \<times> 'w run_state" where
  "fail_dest E p message st =
     (case destFailed E (pdTarget p) message st of (failed, st) \<Rightarrow> (p\<lparr>pdOutcome := Some failed\<rparr>, st))"

text \<open>From the scan of the destination on.\<close>

definition compare_dest :: "'w run_env \<Rightarrow> scan_result \<Rightarrow> target \<Rightarrow> planned_dest \<Rightarrow> scan_result \<Rightarrow> 'w run_state \<Rightarrow> planned_dest \<times> 'w run_state" where
  "compare_dest E src t p dst st =
     (let d = pdTarget p; c = pdChain p;
          st = tell_links E d ''found a symlink at the destination: nothing is written through it'' (Symlinks dst) st;
          pl = Diff (unicode_lower (stGlob (veSite E))) src dst (diff_options_of E t c)
      in (p\<lparr>pdPlan := Some pl\<rparr>, on_progress (show_plan d pl) (tell_plan E d c pl st)))"

definition scan_dest :: "'w run_env \<Rightarrow> scan_result \<Rightarrow> target \<Rightarrow> planned_dest \<Rightarrow> 'w run_state \<Rightarrow> planned_dest \<times> 'w run_state" where
  "scan_dest E src t p st =
     (let d = pdTarget p; st = on_progress (setStatus d DestRunning) st
      in case veScan E (prunes E (pdChain p)) (pdRoot p) (mgWorld (xrMgr st)) of
           Inr dst \<Rightarrow> compare_dest E src t p dst st
         | Inl e \<Rightarrow>
             let (stopped, st) = look_ctx E st
             in if stopped
                then (p\<lparr>pdOutcome := Some (cancelled_outcome d)\<rparr>, on_progress (setStatus d DestCancelled) st)
                else fail_dest E p (''scanning the destination failed: '' @ err_text e) st)"

definition planOneDestination ::
  "'w run_env \<Rightarrow> scan_result \<Rightarrow> chain \<Rightarrow> job_destination \<Rightarrow> 'w run_state \<Rightarrow> planned_dest \<times> 'w run_state" where
  "planOneDestination E src c dest st =
     (let d = jdTarget dest; p = pd_of dest c
      in case stTargets (veSite E) d of
           Inl e \<Rightarrow> fail_dest E p (''the destination target could not be loaded: '' @ err_text e) st
         | Inr t \<Rightarrow>
             (case resolveDestination E dest t st of
                (Reached dir stg, st) \<Rightarrow> scan_dest E src t (p\<lparr>pdRoot := dir, pdStorage := Some stg\<rparr>) st
              | (Refused o1, st) \<Rightarrow> (p\<lparr>pdOutcome := Some o1\<rparr>, st)
              | (Again, st) \<Rightarrow> (p, st)))"

definition publishPlan :: "planned_dest \<Rightarrow> 'w run_state \<Rightarrow> 'w run_state" where
  "publishPlan p st =
     (case pdPlan p of None \<Rightarrow> st | Some pl \<Rightarrow> st\<lparr>xrPlans := xrPlans st @ [(pdTarget p, pl)]\<rparr>)"

text \<open>The API's question, while the run is in this process.\<close>

definition PlanFor :: "'w run_state \<Rightarrow> dest_actions list" where
  "PlanFor st = map (\<lambda>(d, pl). actionsOf d (Some pl)) (xrPlans st)"


section \<open>Executing one destination\<close>

text \<open>The executor compares its two policies with one value each.\<close>

definition exec_options_of :: "job \<Rightarrow> exec_options" where
  "exec_options_of j =
     \<lparr>xoWorkers = jbWorkers j,
      xoOnError = (if jbOnError j = Val ErrorPolicyAbort then ErrorPolicyAbort else ErrorPolicySkip),
      xoDeletePolicy = (if jbDeletePolicy j = Val DeletePolicySkipDeletes then DeletePolicySkipDeletes else DeletePolicyProceed),
      xoLogEveryFile = jbLogEveryFile j\<rparr>"

definition empty_exec :: exec_result where
  "empty_exec = \<lparr>DirsCreated = 0, FilesCopied = 0, TotalBytes = 0, FilesDeleted = 0, DirsRemoved = 0, Skipped = 0,
     Failures = [], DeletionsSkipped = False, Aborted = False, ShareUnreachable = False\<rparr>"

definition dest_message :: "dest_status \<Rightarrow> exec_result \<Rightarrow> string" where
  "dest_message s r =
     ''destination '' @ dest_status_text s @ '': '' @ fmt_int (FilesCopied r) @ '' copied ('' @ fmt_int (TotalBytes r)
     @ '' bytes), '' @ fmt_int (FilesDeleted r) @ '' deleted, '' @ fmt_int (Skipped r) @ '' skipped, ''
     @ fmt_nat (length (Failures r)) @ '' failed''"

text \<open>The engine works on the world under the manager, on the run's tracker and through its sink.\<close>

definition run_engine ::
  "'w run_env \<Rightarrow> string \<Rightarrow> planned_dest \<Rightarrow> plan \<Rightarrow> 'w run_state \<Rightarrow> (exec_result \<times> goerr option) \<times> 'w run_state" where
  "run_engine E srcRoot p pl st =
     (let d = pdTarget p;
          (xs, e) = Execute (veExec E srcRoot (pdRoot p)) (exec_options_of (veJob E)) (veSched E d) pl
                      \<lparr>esFs = mgWorld (xrMgr st), esResult = empty_exec, esEvents = [], esTracker = goget (pgTrackers (xrProgress st)) d\<rparr>;
          st = st\<lparr>xrMgr := (xrMgr st)\<lparr>mgWorld := esFs xs\<rparr>\<rparr>;
          st = (case esTracker xs of None \<Rightarrow> st | Some tr \<Rightarrow> on_progress (on_dest d (\<lambda>_. tr)) st);
          st = fold (log_event E d) (esEvents xs) st
      in ((esResult xs, e), st))"

definition was_cancelled :: "goerr option \<Rightarrow> bool" where
  "was_cancelled e = (case e of None \<Rightarrow> False | Some e \<Rightarrow> errors_Is e Canceled)"

definition settle_dest ::
  "'w run_env \<Rightarrow> string \<Rightarrow> plan \<Rightarrow> exec_result \<Rightarrow> 'w run_state \<Rightarrow> dest_outcome \<times> 'w run_state" where
  "settle_dest E d pl result st =
     (let (s, summary, degr) = classifyDestination result pl;
          st = says E d (levelForDest s) [] (dest_message s result) st;
          st = on_progress (setStatus d s) st;
          st = db_write E (\<lambda>e now. FinishRunDestination e now (veRunID E) d s summary) st
      in (blank_outcome\<lparr>doTarget := d, doStatus := Some s, doSummary := summary, doDegraded := degr,
            doLocked := countLocked (Failures result)\<rparr>, st))"

definition executeOneDestination ::
  "'w run_env \<Rightarrow> string \<Rightarrow> planned_dest \<Rightarrow> plan \<Rightarrow> 'w run_state \<Rightarrow> dest_outcome \<times> 'w run_state" where
  "executeOneDestination E srcRoot p pl st =
     (let d = pdTarget p;
          st = db_write E (\<lambda>e now. StartRunDestination e now (veRunID E) d (Copies pl) (CopyBytes pl)) st;
          st = on_progress (setStatus d DestRunning) st;
          ((result, e), st) = run_engine E srcRoot p pl st;
          (_, st) = look_ctx E st
      in if xrCancelled st \<or> was_cancelled e
         then (cancelled_outcome d,
               db_write E (\<lambda>e now. FinishRunDestination e now (veRunID E) d DestCancelled ''the run was cancelled'')
                 (on_progress (setStatus d DestCancelled) st))
         else settle_dest E d pl result st)"

definition executeInto :: "'w run_env \<Rightarrow> string \<Rightarrow> planned_dest \<Rightarrow> 'w run_state \<Rightarrow> planned_dest \<times> 'w run_state" where
  "executeInto E srcRoot p st =
     (case (pdOutcome p, pdPlan p) of
        (None, Some pl) \<Rightarrow> (case executeOneDestination E srcRoot p pl st of (o1, st) \<Rightarrow> (p\<lparr>pdOutcome := Some o1\<rparr>, st))
      | _ \<Rightarrow> (p, st))"


section \<open>All destinations\<close>

definition unavailableEarlierPlanned :: "planned_dest list \<Rightarrow> bool" where
  "unavailableEarlierPlanned ps \<longleftrightarrow> list_ex (\<lambda>p. case pdOutcome p of None \<Rightarrow> False | Some o1 \<Rightarrow> doUnavailable o1) ps"

definition not_attempted_message :: string where
  "not_attempted_message = ''not attempted: an earlier destination was unavailable and this job aborts''"

definition not_attempted :: "job_destination \<Rightarrow> planned_dest" where
  "not_attempted dest =
     (pd_of dest (NewChain []))\<lparr>pdOutcome := Some ((cancelled_outcome (jdTarget dest))\<lparr>doSummary := not_attempted_message\<rparr>)\<rparr>"

definition chain_for :: "chain gomap \<Rightarrow> string \<Rightarrow> chain" where
  "chain_for chs d = (case goget chs d of Some c \<Rightarrow> c | None \<Rightarrow> NewChain [])"

text \<open>One destination: planned, published and, except in a preview, executed.\<close>

definition work_on ::
  "'w run_env \<Rightarrow> string \<Rightarrow> scan_result \<Rightarrow> chain gomap \<Rightarrow> job_destination \<Rightarrow> 'w run_state \<Rightarrow> planned_dest \<times> 'w run_state" where
  "work_on E srcRoot src chs dest st =
     (let (p, st) = planOneDestination E src (chain_for chs (jdTarget dest)) dest st; st = publishPlan p st
      in if vePreview E then (p, st) else executeInto E srcRoot p st)"

fun planDestinations ::
  "'w run_env \<Rightarrow> string \<Rightarrow> scan_result \<Rightarrow> chain gomap \<Rightarrow> job_destination list \<Rightarrow> planned_dest list \<Rightarrow> 'w run_state \<Rightarrow>
   planned_dest list \<times> 'w run_state" where
  "planDestinations E srcRoot src chs [] ps st = (ps, st)"
| "planDestinations E srcRoot src chs (dest # dests) ps st =
     (if ps \<noteq> [] \<and> jbUnavailable (veJob E) = Val PolicyAbort \<and> unavailableEarlierPlanned ps
      then planDestinations E srcRoot src chs dests (ps @ [not_attempted dest]) st
      else case work_on E srcRoot src chs dest st of
             (p, st) \<Rightarrow> planDestinations E srcRoot src chs dests (ps @ [p]) st)"

fun executePlanned :: "'w run_env \<Rightarrow> string \<Rightarrow> planned_dest list \<Rightarrow> 'w run_state \<Rightarrow> planned_dest list \<times> 'w run_state" where
  "executePlanned E srcRoot [] st = ([], st)"
| "executePlanned E srcRoot (p # ps) st =
     (let (p, st) = executeInto E srcRoot p st; (ps, st) = executePlanned E srcRoot ps st in (p # ps, st))"

definition outcomesOf :: "planned_dest list \<Rightarrow> dest_outcome list" where
  "outcomesOf ps = map (\<lambda>p. case pdOutcome p of Some o1 \<Rightarrow> o1 | None \<Rightarrow> blank_outcome) ps"

definition release_one :: "'w run_env \<Rightarrow> storage \<Rightarrow> 'w run_state \<Rightarrow> 'w run_state" where
  "release_one E stg st = st\<lparr>xrMgr := release_storage (veSite E) stg (xrMgr st)\<rparr>"

definition releaseAll :: "'w run_env \<Rightarrow> planned_dest list \<Rightarrow> 'w run_state \<Rightarrow> 'w run_state" where
  "releaseAll E ps st = fold (release_one E) (List.map_filter pdStorage ps) st"


section \<open>How a run ends\<close>

definition finish_dests :: "'w run_env \<Rightarrow> string list \<Rightarrow> dest_status \<Rightarrow> string \<Rightarrow> 'w run_state \<Rightarrow> 'w run_state" where
  "finish_dests E ds s summary =
     fold (\<lambda>d. db_write E (\<lambda>e now. FinishRunDestination e now (veRunID E) d s summary)) ds"

definition finish_run :: "'w run_env \<Rightarrow> run_status \<Rightarrow> string \<Rightarrow> 'w run_state \<Rightarrow> 'w run_state" where
  "finish_run E s summary = db_write E (\<lambda>e now. FinishRun e now (veRunID E) s summary)"

definition failRun :: "'w run_env \<Rightarrow> string \<Rightarrow> 'w run_state \<Rightarrow> 'w run_state" where
  "failRun E message st =
     finish_run E RunFailed message
       (finish_dests E (destTargetIDs (veJob E)) DestFailed message (says E [] LevelError [] message st))"

definition cancel_message :: string where "cancel_message = ''the run was cancelled''"

definition cancelRun :: "'w run_env \<Rightarrow> 'w run_state \<Rightarrow> 'w run_state" where
  "cancelRun E st =
     finish_run E RunCancelled cancel_message
       (finish_dests E (destTargetIDs (veJob E)) DestCancelled cancel_message (says E [] LevelWarn [] cancel_message st))"

definition abandon_message :: string where
  "abandon_message = ''the previewed plan was not confirmed; nothing was changed''"

definition abandonPreview :: "'w run_env \<Rightarrow> planned_dest list \<Rightarrow> 'w run_state \<Rightarrow> 'w run_state" where
  "abandonPreview E ps st =
     finish_run E RunCancelled abandon_message
       (says E [] LevelInfo [] abandon_message
         (finish_dests E (map pdTarget (filter (\<lambda>p. pdOutcome p = None) ps)) DestCancelled abandon_message st))"

text \<open>Parking: the wait ends with the confirmation, with its timer, or with the context.\<close>

definition awaitConfirmation :: "'w run_env \<Rightarrow> 'w run_state \<Rightarrow> bool \<times> 'w run_state" where
  "awaitConfirmation E st =
     (let j = veJob E;
          deadline = veNow E (xrClock st) + prompt_timeout j;
          st = on_progress (setConfirmDeadline deadline) (st\<lparr>xrParked := True\<rparr>);
          st = db_write E (\<lambda>e now. SetRunStatus e (veRunID E) RunAwaitingConfirmation) st;
          st = says E [] LevelInfo [] (''preview ready: waiting up to '' @ fmt_int (jbPromptTimeoutSec j)
                 @ ''s for confirmation; nothing has been changed'') st;
          st = flush_events E st
      in case veConfirm E of
           Answered _ \<Rightarrow>
             let st = db_write E (\<lambda>e now. SetRunStatus e (veRunID E) RunRunning) (on_gate markConfirmed st);
                 st = says E [] LevelInfo [] ''confirmed: executing the previewed plan'' st
             in (True, st\<lparr>xrParked := False\<rparr>)
         | NoAnswer \<Rightarrow>
             (False, (says E [] LevelWarn [] (''no confirmation within '' @ fmt_int (jbPromptTimeoutSec j)
                @ ''s: cancelling the run without changing anything'') st)\<lparr>xrParked := False\<rparr>)
         | Ended \<Rightarrow> (False, (after_wait Ended st)\<lparr>xrParked := False\<rparr>))"

definition flush_one :: "'w run_env \<Rightarrow> dest_snapshot \<Rightarrow> 'w run_state \<Rightarrow> 'w run_state" where
  "flush_one E ds st =
     (if dsStatus ds = Some DestPending \<or> dsStatus ds = Some DestSkippedUnavailable then st
      else db_write E (\<lambda>e now. UpdateRunDestinationProgress e (veRunID E) (dsTarget ds)
             (snFilesDone (dsSnap ds)) (snFilesDeleted (dsSnap ds)) (snBytesDone (dsSnap ds))) st)"

definition flushProgress :: "'w run_env \<Rightarrow> 'w run_state \<Rightarrow> 'w run_state" where
  "flushProgress E st =
     fold (flush_one E) (rsDestinations (run_snapshot_of (veNow E (xrClock st)) (xrProgress st))) st"

definition wind_up :: "'w run_env \<Rightarrow> 'w run_state \<Rightarrow> 'w run_state" where
  "wind_up E st = flushProgress E (on_progress (setPhase PhaseDone) st)"

definition notifyRunStarted :: string where "notifyRunStarted = ''run_started''"
definition notifyRunCompleted :: string where "notifyRunCompleted = ''run_completed''"
definition notifyRunFailed :: string where "notifyRunFailed = ''run_failed''"

definition announce :: "string \<Rightarrow> 'w run_state \<Rightarrow> 'w run_state" where
  "announce event st = add_note Forget (add_note (Notify event) st)"

text \<open>The grade asks of the policy only whether it aborts.\<close>

definition policy_of :: "job \<Rightarrow> unavailable_policy" where
  "policy_of j = (if jbUnavailable j = Val PolicyAbort then PolicyAbort else PolicySkip)"

definition conclude :: "'w run_env \<Rightarrow> dest_outcome list \<Rightarrow> 'w run_state \<Rightarrow> 'w run_state" where
  "conclude E outcomes st =
     (let (s, summary) = classifyRun outcomes (policy_of (veJob E));
          st = says E [] (levelFor s) [] (''run '' @ run_status_text s @ '' across '' @ fmt_nat (length outcomes)
                 @ '' destination(s): '' @ summary) st;
          st = finish_run E s summary st
      in announce (if s = RunFailed then notifyRunFailed else notifyRunCompleted) st)"

definition finalise :: "'w run_env \<Rightarrow> planned_dest list \<Rightarrow> 'w run_state \<Rightarrow> 'w run_state" where
  "finalise E ps st =
     (let (_, st) = look_ctx E (wind_up E st)
      in if xrCancelled st then announce notifyRunCompleted (cancelRun E st) else conclude E (outcomesOf ps) st)"

text \<open>A preview that was not confirmed.\<close>

definition give_up :: "'w run_env \<Rightarrow> planned_dest list \<Rightarrow> 'w run_state \<Rightarrow> 'w run_state" where
  "give_up E ps st =
     (let (_, st) = look_ctx E (wind_up E st)
      in if xrCancelled st then cancelRun E st else abandonPreview E ps st)"

text \<open>Steps 4 to 7, with the release of what the plans hold on every way out.\<close>

definition after_scan :: "'w run_env \<Rightarrow> string \<Rightarrow> scan_result \<Rightarrow> chain gomap \<Rightarrow> 'w run_state \<Rightarrow> 'w run_state" where
  "after_scan E srcRoot src chs st =
     (let (ps, st) = planDestinations E srcRoot src chs (jbDestinations (veJob E)) [] st
      in if \<not> vePreview E then releaseAll E ps (finalise E ps st)
         else case awaitConfirmation E st of
                (False, st) \<Rightarrow> releaseAll E ps (give_up E ps st)
              | (True, st) \<Rightarrow>
                  (case executePlanned E srcRoot ps st of (ps, st) \<Rightarrow> releaseAll E ps (finalise E ps st)))"

definition pruned_suffix :: "scan_result \<Rightarrow> string" where
  "pruned_suffix r =
     (if Pruned r = [] then [] else '', '' @ fmt_nat (length (Pruned r)) @ '' director(y/ies) pruned by filters'')"

definition tell_scan :: "'w run_env \<Rightarrow> scan_result \<Rightarrow> 'w run_state \<Rightarrow> 'w run_state" where
  "tell_scan E r st =
     (let st = says E [] LevelInfo [] (''source scan complete: '' @ fmt_int (Files r) @ '' files / '' @ fmt_int (Dirs r)
                 @ '' dirs / '' @ fmt_int (Bytes r) @ '' bytes'' @ pruned_suffix r) st;
          st = tell_links E [] ''skipped a symlink at the source: symlinks are not synced in this version'' (Symlinks r) st;
          st = tell_links E [] ''the file disappeared from the source during the scan'' (Vanished r) st
      in fold (\<lambda>e. says E [] LevelError (seRelPath e) (''could not read at the source: '' @ err_text (seErr e))) (Errors r) st)"

text \<open>Step 3, with the release of the source when the run returns.\<close>

definition with_source :: "'w run_env \<Rightarrow> string \<Rightarrow> chain gomap \<Rightarrow> chain \<Rightarrow> 'w run_state \<Rightarrow> 'w run_state" where
  "with_source E srcRoot chs prune st =
     (let st = on_progress (setPhase PhaseScanning) st
      in case veScan E (prunes E prune) srcRoot (mgWorld (xrMgr st)) of
           Inl e \<Rightarrow>
             let (stopped, st) = look_ctx E st
             in if stopped then cancelRun E st else failRun E (''scanning the source failed: '' @ err_text e) st
         | Inr src \<Rightarrow>
             let st = on_progress (setSourceScan (Files src) (Bytes src)) st;
                 st = tell_scan E src st;
                 st = db_write E (\<lambda>e now. SetRunScanTotals e (veRunID E) (Files src) (Bytes src)) st
             in after_scan E srcRoot src chs st)"

definition start_message :: "'w run_env \<Rightarrow> target \<Rightarrow> string" where
  "start_message E t =
     ''run started: '' @ Describe (stQuote (veSite E)) t @ '' '' @ [CHR 0xE2, CHR 0x86, CHR 0x92] @ '' ''
     @ fmt_nat (length (jbDestinations (veJob E))) @ '' destination(s), mode ''
     @ (case jbMode (veJob E) of Val ModeMirror \<Rightarrow> ''mirror'' | Val ModeUpdate \<Rightarrow> ''update'' | Raw s \<Rightarrow> s)"

definition execute :: "'w run_env \<Rightarrow> target \<Rightarrow> 'w run_state \<Rightarrow> 'w run_state" where
  "execute E srcTarget st =
     (let st = says E [] LevelInfo [] (start_message E srcTarget) st;
          (r, evs, m) = resolveChains (veSite E) (veJob E) [] (xrMgr st);
          st = fold (log_event E []) evs (st\<lparr>xrMgr := m\<rparr>);
          st = (case r of
                  Inl e \<Rightarrow> failRun E (''filters could not be resolved: '' @ err_text e) st
                | Inr (chs, prune) \<Rightarrow>
                    (case with_mgr (resolve (veSite E) srcTarget (jbSourceSubpath (veJob E))) st of
                       (Inl e, st) \<Rightarrow> failRun E (''source unavailable: '' @ err_text e) st
                     | (Inr (srcRoot, stg), st) \<Rightarrow> release_one E stg (with_source E srcRoot chs prune st)))
      in flush_events E st)"

end
