(* ===== verification/Run_Effects.thy ===== *)
theory Run_Effects
  imports Run_Pipeline
begin

text \<open>
  What the steps of a run may change: the rows of the run and no other, its context, which only
  ever ends, and the manager of mounts. \<open>touched E D\<close> is the relation between the states before
  and after steps that work on the destinations in \<open>D\<close>; every function of the pipeline is in it.
\<close>

named_theorems run_steps

section \<open>The relation\<close>

definition row_step :: "'w run_env \<Rightarrow> string set \<Rightarrow> run_destination \<Rightarrow> run_destination \<Rightarrow> bool" where
  "row_step E D r r' \<longleftrightarrow> rdRunID r' = rdRunID r \<and> rdTarget r' = rdTarget r \<and> (rdRunID r \<noteq> veRunID E \<longrightarrow> r' = r)
     \<and> (rdTarget r \<notin> D \<longrightarrow> rdStatus r' = rdStatus r \<and> rdFinishedAt r' = rdFinishedAt r)"

definition run_step :: "'w run_env \<Rightarrow> run_row \<Rightarrow> run_row \<Rightarrow> bool" where
  "run_step E r r' \<longleftrightarrow> rrID r' = rrID r \<and> (rrID r \<noteq> veRunID E \<longrightarrow> r' = r)"

definition touched_db :: "'w run_env \<Rightarrow> string set \<Rightarrow> run_tables \<Rightarrow> run_tables \<Rightarrow> bool" where
  "touched_db E D db db' \<longleftrightarrow> list_all2 (run_step E) (rtRuns db) (rtRuns db') \<and> list_all2 (row_step E D) (rtDests db) (rtDests db')"

definition touched :: "'w run_env \<Rightarrow> string set \<Rightarrow> 'w run_state \<Rightarrow> 'w run_state \<Rightarrow> bool" where
  "touched E D st st' \<longleftrightarrow> touched_db E D (xrDb st) (xrDb st')
     \<and> (xrStopped st \<longrightarrow> xrStopped st') \<and> (xrCancelled st \<longrightarrow> xrCancelled st')
     \<and> ((xrCancelled st \<longrightarrow> xrStopped st) \<longrightarrow> xrCancelled st' \<longrightarrow> xrStopped st')"

lemma touched_db_refl [simp]: "touched_db E D db db"
  by (simp add: touched_db_def row_step_def run_step_def list_all2_same)

lemma touched_db_trans: "touched_db E D a b \<Longrightarrow> touched_db E D b c \<Longrightarrow> touched_db E D a c"
  unfolding touched_db_def
  by (intro conjI; elim conjE; erule (1) list_all2_trans [rotated]; simp add: row_step_def run_step_def)

lemma touched_refl [simp]: "touched E D st st"
  by (simp add: touched_def)

lemma touched_trans: "touched E D a b \<Longrightarrow> touched E D b c \<Longrightarrow> touched E D a c"
  using touched_db_trans unfolding touched_def by blast

lemma touched_mono: "touched E D a b \<Longrightarrow> D \<subseteq> D' \<Longrightarrow> touched E D' a b"
  unfolding touched_def touched_db_def row_step_def
  by (intro conjI; elim conjE; (erule list_all2_mono)?; auto)


section \<open>Statements\<close>

text \<open>A statement that changes what such a step may change.\<close>

definition own_stmt ::
  "'w run_env \<Rightarrow> string set \<Rightarrow> (goerr option \<Rightarrow> gotime \<Rightarrow> run_tables \<Rightarrow> goerr option \<times> run_tables) \<Rightarrow> bool" where
  "own_stmt E D f \<longleftrightarrow> (\<forall>e now db. touched_db E D db (snd (f e now db)))"

lemma sql_exec_snd: "snd (sql_exec e what f db) = (case e of None \<Rightarrow> f db | Some _ \<Rightarrow> db)"
  by (simp add: sql_exec_def split: option.split)

lemma own_dest:
  assumes "\<And>r. row_step E D r (f r) \<or> rdRunID r \<noteq> veRunID E \<or> rdTarget r \<noteq> d"
  shows "touched_db E D db (on_run_dest (veRunID E) d f db)"
  using assms by (auto simp: touched_db_def on_run_dest_def update_where_def list_all2_map2 list_all2_same row_step_def run_step_def)

lemma own_run: "(\<And>r. rrID (f r) = rrID r) \<Longrightarrow> touched_db E D db (on_run (veRunID E) f db)"
  by (auto simp: touched_db_def on_run_def update_where_def list_all2_map2 list_all2_same row_step_def run_step_def)

lemma own_stmts [run_steps]:
  "d \<in> D \<Longrightarrow> own_stmt E D (\<lambda>e now. FinishRunDestination e now (veRunID E) d s summary)"
  "d \<in> D \<Longrightarrow> own_stmt E D (\<lambda>e now. StartRunDestination e now (veRunID E) d n b)"
  "d \<in> D \<Longrightarrow> own_stmt E D (\<lambda>e now. SetRunDestinationStatus e (veRunID E) d s)"
  "own_stmt E D (\<lambda>e now. UpdateRunDestinationProgress e (veRunID E) x n k b)"
  "own_stmt E D (\<lambda>e now. FinishRun e now (veRunID E) rs summary)"
  "own_stmt E D (\<lambda>e now. SetRunStatus e (veRunID E) rs)"
  "own_stmt E D (\<lambda>e now. SetRunScanTotals e (veRunID E) n b)"
  by (auto simp: own_stmt_def FinishRunDestination_def StartRunDestination_def SetRunDestinationStatus_def
      UpdateRunDestinationProgress_def FinishRun_def SetRunStatus_def SetRunScanTotals_def sql_exec_snd row_step_def
      split: option.split intro!: own_dest own_run)


section \<open>Steps\<close>

lemma prim_mgr [simp]:
  "xrMgr (on_progress f st) = xrMgr st" "xrMgr (db_write E w st) = xrMgr st" "xrMgr (log_event E d ev st) = xrMgr st"
  "xrMgr (flush_events E st) = xrMgr st" "xrMgr (add_note n st) = xrMgr st" "xrMgr (on_gate g st) = xrMgr st"
  "xrMgr (snd (look_ctx E st)) = xrMgr st" "xrMgr (stop_run st) = xrMgr st" "xrMgr (after_wait r st) = xrMgr st"
  by (simp_all add: on_progress_def db_write_def log_event_def flush_events_def add_note_def on_gate_def look_ctx_def
      stop_run_def after_wait_def Let_def)

lemma prim_db [simp]:
  "xrDb (on_progress f st) = xrDb st" "xrDb (log_event E d ev st) = xrDb st"
  "xrDb (flush_events E st) = xrDb st" "xrDb (add_note n st) = xrDb st" "xrDb (on_gate g st) = xrDb st"
  "xrDb (snd (look_ctx E st)) = xrDb st" "xrDb (stop_run st) = xrDb st" "xrDb (after_wait r st) = xrDb st"
  "xrDb (snd (with_mgr h st)) = xrDb st"
  by (simp_all add: on_progress_def log_event_def flush_events_def add_note_def on_gate_def look_ctx_def
      stop_run_def after_wait_def with_mgr_def Let_def split: prod.split)

lemma prim_ctx [simp]:
  "xrStopped (on_progress f st) = xrStopped st" "xrStopped (db_write E w st) = xrStopped st"
  "xrStopped (log_event E d ev st) = xrStopped st" "xrStopped (flush_events E st) = xrStopped st"
  "xrStopped (add_note n st) = xrStopped st" "xrStopped (on_gate g st) = xrStopped st"
  "xrStopped (snd (with_mgr h st)) = xrStopped st" "xrStopped (stop_run st)" "xrStopped (snd (look_ctx E st)) = fst (look_ctx E st)"
  "xrCancelled (on_progress f st) = xrCancelled st" "xrCancelled (db_write E w st) = xrCancelled st"
  "xrCancelled (log_event E d ev st) = xrCancelled st" "xrCancelled (flush_events E st) = xrCancelled st"
  "xrCancelled (add_note n st) = xrCancelled st" "xrCancelled (on_gate g st) = xrCancelled st"
  "xrCancelled (snd (with_mgr h st)) = xrCancelled st" "xrCancelled (stop_run st) = xrCancelled st"
  by (simp_all add: on_progress_def db_write_def log_event_def flush_events_def add_note_def on_gate_def look_ctx_def
      stop_run_def with_mgr_def Let_def split: prod.split)

text \<open>Each primitive extends a sequence of such steps.\<close>

lemma prim_touched [run_steps]:
  assumes "touched E D s0 st"
  shows "touched E D s0 (on_progress f st)" "touched E D s0 (log_event E d ev st)" "touched E D s0 (flush_events E st)"
    "touched E D s0 (add_note n st)" "touched E D s0 (on_gate g st)" "touched E D s0 (snd (look_ctx E st))"
    "touched E D s0 (stop_run st)" "touched E D s0 (after_wait r st)" "touched E D s0 (snd (with_mgr h st))"
    "touched E D s0 (st\<lparr>xrMgr := m\<rparr>)" "touched E D s0 (st\<lparr>xrParked := b\<rparr>)" "touched E D s0 (st\<lparr>xrPlans := ps\<rparr>)"
    "own_stmt E D w \<Longrightarrow> touched E D s0 (db_write E w st)"
  using assms touched_db_trans [of E D "xrDb s0" "xrDb st"]
  by (auto simp: touched_def look_ctx_def after_wait_def db_write_def own_stmt_def Let_def)

lemma fold_touched:
  assumes "touched E D s0 st" "\<And>x st. touched E D s0 st \<Longrightarrow> x \<in> set xs \<Longrightarrow> touched E D s0 (f x st)"
  shows "touched E D s0 (fold f xs st)"
  using assms by (induction xs arbitrary: st) auto

lemma look_ctx_pair [simp]: "(case look_ctx E st of (a, b) \<Rightarrow> g a b) = g (fst (look_ctx E st)) (snd (look_ctx E st))"
  by (simp add: case_prod_unfold)

lemma ask_touched [run_steps]:
  "touched E D s0 st \<Longrightarrow> d \<in> D \<Longrightarrow> touched E D s0 (snd (askAboutDestination E d msg can r st))"
  by (auto simp: askAboutDestination_def Let_def case_prod_unfold intro!: run_steps)

lemma refuse_touched [run_steps]:
  assumes "touched E D s0 st" "d \<in> D"
  shows "touched E D s0 (snd (destFailed E d msg st))" "touched E D s0 (snd (refuse E policy d msg st))"
    "touched E D s0 (snd (refuse_skip E d msg st))"
  using assms
  by (auto simp: destFailed_def refuse_def refuse_abort_def refuse_skip_def Let_def case_prod_unfold intro!: run_steps)

lemma create_touched [run_steps]:
  assumes "touched E D s0 st" "jdTarget dest \<in> D"
  shows "touched E D s0 (snd (create_folder E dest t st))"
proof -
  let ?st = "says E (jdTarget dest) LevelInfo [] (''creating the destination folder at your request: '' @ jdSubpath dest) st"
  obtain r st1 where w: "with_mgr (resolveWith (veSite E) t (jdSubpath dest) True) ?st = (r, st1)" by fastforce
  have "touched E D s0 st1"
    using prim_touched(9) [OF prim_touched(2) [OF assms(1)]] w by (metis snd_conv)
  then show ?thesis using w assms(2) by (cases r) (auto simp: create_folder_def Let_def intro!: run_steps)
qed

lemma obey_touched [run_steps]:
  assumes "touched E D s0 st" "jdTarget dest \<in> D"
  shows "touched E D s0 (snd (obey E dest t msg can aa st))"
  using assms by (cases aa; cases "fst aa"; auto simp: obey_def Let_def intro!: run_steps)

lemma gate_turn_touched [run_steps]:
  assumes "touched E D s0 st" "jdTarget dest \<in> D"
  shows "touched E D s0 (snd (gate_turn E dest t r st))"
proof -
  obtain q st1 where w: "with_mgr (resolveWith (veSite E) t (jdSubpath dest) (mayCreate E)) st = (q, st1)" by fastforce
  have "touched E D s0 st1" using prim_touched(9) [OF assms(1)] w by (metis snd_conv)
  then show ?thesis using w assms(2)
    by (cases q) (auto simp: gate_turn_def ask_def Let_def case_prod_unfold intro!: run_steps)
qed

lemma gate_loop_touched:
  "touched E D s0 st \<Longrightarrow> jdTarget dest \<in> D \<Longrightarrow> touched E D s0 (snd (gate_loop E dest t rs st))"
proof (induction rs arbitrary: st)
  case (Cons r rs)
  obtain g st1 where g: "gate_turn E dest t r st = (g, st1)" by fastforce
  then have "touched E D s0 st1" using gate_turn_touched [OF Cons.prems] by (metis snd_conv)
  then show ?case using g Cons by (cases g) auto
qed (simp add: gate_turn_touched)

lemma resolveDestination_touched [run_steps]:
  "touched E D s0 st \<Longrightarrow> jdTarget dest \<in> D \<Longrightarrow> touched E D s0 (snd (resolveDestination E dest t st))"
  by (simp add: resolveDestination_def gate_loop_touched)



section \<open>The pipeline\<close>

lemma fail_dest_touched [run_steps]:
  "touched E D s0 st \<Longrightarrow> pdTarget p \<in> D \<Longrightarrow> touched E D s0 (snd (fail_dest E p msg st))"
  by (auto simp: fail_dest_def case_prod_unfold intro: run_steps)

lemma tell_touched [run_steps]:
  assumes "touched E D s0 st"
  shows "touched E D s0 (tell_links E d msg links st)" "touched E D s0 (tell_plan E d c pl st)" "touched E D s0 (tell_scan E r st)"
    "touched E D s0 (fold (log_event E d) evs st)"
  using assms by (auto simp: tell_links_def tell_plan_def tell_scan_def Let_def intro!: fold_touched run_steps)

lemma scan_dest_touched [run_steps]:
  "touched E D s0 st \<Longrightarrow> pdTarget p \<in> D \<Longrightarrow> touched E D s0 (snd (scan_dest E src t p st))"
  by (auto simp: scan_dest_def compare_dest_def Let_def split: sum.split intro!: run_steps)

lemma planOneDestination_touched [run_steps]:
  assumes "touched E D s0 st" "jdTarget dest \<in> D"
  shows "touched E D s0 (snd (planOneDestination E src c dest st))"
proof (cases "stTargets (veSite E) (jdTarget dest)")
  case (Inr t)
  obtain g st1 where g: "resolveDestination E dest t st = (g, st1)" by fastforce
  then have "touched E D s0 st1" using resolveDestination_touched [OF assms] by (metis snd_conv)
  then show ?thesis using g Inr assms(2)
    by (cases g) (auto simp: planOneDestination_def pd_of_def Let_def intro!: run_steps)
qed (use assms in \<open>auto simp: planOneDestination_def pd_of_def Let_def intro!: run_steps\<close>)

lemma publishPlan_touched [run_steps]: "touched E D s0 st \<Longrightarrow> touched E D s0 (publishPlan p st)"
  by (auto simp: publishPlan_def split: option.split intro: run_steps)

lemma run_engine_touched [run_steps]: "touched E D s0 st \<Longrightarrow> touched E D s0 (snd (run_engine E root1 p pl st))"
  by (auto simp: run_engine_def Let_def case_prod_unfold split: option.split intro!: run_steps)

lemma settle_dest_touched [run_steps]:
  "touched E D s0 st \<Longrightarrow> d \<in> D \<Longrightarrow> touched E D s0 (snd (settle_dest E d pl result st))"
  by (auto simp: settle_dest_def Let_def case_prod_unfold intro!: run_steps)

lemma executeOneDestination_touched [run_steps]:
  "touched E D s0 st \<Longrightarrow> pdTarget p \<in> D \<Longrightarrow> touched E D s0 (snd (executeOneDestination E root1 p pl st))"
  by (auto simp: executeOneDestination_def Let_def case_prod_unfold intro!: run_steps)

lemma executeInto_touched [run_steps]:
  "touched E D s0 st \<Longrightarrow> pdTarget p \<in> D \<Longrightarrow> touched E D s0 (snd (executeInto E root1 p st))"
  by (auto simp: executeInto_def case_prod_unfold split: option.split intro!: run_steps)

lemma pdTarget_kept [simp]:
  "pdTarget (pd_of dest c) = jdTarget dest" "pdTarget (fst (fail_dest E p msg st)) = pdTarget p"
  "pdTarget (fst (compare_dest E src t p dst st)) = pdTarget p" "pdTarget (fst (scan_dest E src t p st)) = pdTarget p"
  "pdTarget (fst (executeInto E root1 p st)) = pdTarget p"
  by (auto simp: pd_of_def fail_dest_def compare_dest_def scan_dest_def executeInto_def Let_def case_prod_unfold
      split: sum.split option.split)

lemma planOne_target [simp]: "pdTarget (fst (planOneDestination E src c dest st)) = jdTarget dest"
  by (auto simp: planOneDestination_def pd_of_def Let_def fail_dest_def case_prod_unfold split: sum.split gate_end.split)

lemma work_on_touched [run_steps]:
  assumes "touched E D s0 st" "jdTarget dest \<in> D"
  shows "touched E D s0 (snd (work_on E root1 src chs dest st))"
  using assms by (auto simp: work_on_def Let_def case_prod_unfold intro!: run_steps)

lemma work_on_target [simp]: "pdTarget (fst (work_on E root1 src chs dest st)) = jdTarget dest"
  by (auto simp: work_on_def Let_def case_prod_unfold)

lemma planDestinations_touched [run_steps]:
  assumes "touched E D s0 st" "jdTarget ` set dests \<subseteq> D"
  shows "touched E D s0 (snd (planDestinations E root1 src chs dests ps st))"
  using assms
proof (induction dests arbitrary: ps st)
  case (Cons dest dests)
  then have "touched E D s0 (snd (work_on E root1 src chs dest st))" "jdTarget ` set dests \<subseteq> D" by (auto intro: run_steps)
  then show ?case using Cons by (auto simp: case_prod_unfold)
qed simp

lemma planDestinations_targets:
  "map pdTarget (fst (planDestinations E root1 src chs dests ps st)) = map pdTarget ps @ map jdTarget dests"
  by (induction dests arbitrary: ps st) (auto simp: case_prod_unfold not_attempted_def pd_of_def)

lemma executePlanned_touched [run_steps]:
  assumes "touched E D s0 st" "pdTarget ` set ps \<subseteq> D"
  shows "touched E D s0 (snd (executePlanned E root1 ps st))"
  using assms by (induction ps arbitrary: st) (auto simp: Let_def case_prod_unfold intro: run_steps)

lemma executePlanned_targets: "map pdTarget (fst (executePlanned E root1 ps st)) = map pdTarget ps"
  by (induction ps arbitrary: st) (auto simp: Let_def case_prod_unfold)

lemma release_touched [run_steps]:
  assumes "touched E D s0 st"
  shows "touched E D s0 (release_one E stg st)" "touched E D s0 (releaseAll E ps st)"
  using assms by (auto simp: releaseAll_def release_one_def intro!: fold_touched run_steps)

lemma finish_touched [run_steps]:
  assumes "touched E D s0 st"
  shows "set ds \<subseteq> D \<Longrightarrow> touched E D s0 (finish_dests E ds s summary st)" "touched E D s0 (finish_run E rs summary st)"
    "touched E D s0 (flushProgress E st)" "touched E D s0 (snd (awaitConfirmation E st))"
  using assms
  by (auto simp: finish_dests_def finish_run_def flushProgress_def flush_one_def awaitConfirmation_def Let_def
      split: reply.split intro!: fold_touched run_steps)

lemma end_touched [run_steps]:
  assumes "touched E D s0 st" "set (destTargetIDs (veJob E)) \<subseteq> D"
  shows "touched E D s0 (failRun E msg st)" "touched E D s0 (cancelRun E st)"
    "pdTarget ` set ps \<subseteq> D \<Longrightarrow> touched E D s0 (abandonPreview E ps st)"
    "touched E D s0 (conclude E os st)" "touched E D s0 (wind_up E st)"
  using assms
  by (auto simp: failRun_def cancelRun_def abandonPreview_def conclude_def announce_def wind_up_def Let_def case_prod_unfold
      image_subset_iff intro!: run_steps)

lemma after_scan_touched [run_steps]:
  assumes "touched E D s0 st" "set (destTargetIDs (veJob E)) \<subseteq> D"
  shows "touched E D s0 (snd (let (ps, st) = planDestinations E root1 src chs (jbDestinations (veJob E)) [] st in (ps, st)))"
    and "touched E D s0 (after_scan E root1 src chs st)"
proof -
  obtain ps st1 where p: "planDestinations E root1 src chs (jbDestinations (veJob E)) [] st = (ps, st1)" by fastforce
  have d: "jdTarget ` set (jbDestinations (veJob E)) \<subseteq> D" using assms(2) by (simp add: destTargetIDs_def)
  have t: "touched E D s0 st1" using planDestinations_touched [OF assms(1) d, of root1 src chs "[]"] p by simp
  have "map pdTarget ps = map jdTarget (jbDestinations (veJob E))"
    using planDestinations_targets [of E root1 src chs "jbDestinations (veJob E)" "[]" st] p by simp
  then have ps: "pdTarget ` set ps \<subseteq> D" using d by (metis list.set_map)
  show "touched E D s0 (snd (let (ps, st) = planDestinations E root1 src chs (jbDestinations (veJob E)) [] st in (ps, st)))"
    using p t by simp
  show "touched E D s0 (after_scan E root1 src chs st)"
    using p t ps assms(2) finish_touched(4) [OF t]
    by (auto simp: after_scan_def finalise_def give_up_def announce_def Let_def case_prod_unfold split: bool.split intro!: run_steps)
qed

lemma with_source_touched [run_steps]:
  "touched E D s0 st \<Longrightarrow> set (destTargetIDs (veJob E)) \<subseteq> D \<Longrightarrow> touched E D s0 (with_source E root1 chs prune st)"
  by (auto simp: with_source_def Let_def split: sum.split intro!: run_steps)

lemma execute_touched:
  assumes "set (destTargetIDs (veJob E)) \<subseteq> D"
  shows "touched E D st (execute E t st)"
proof -
  have w: "touched E D s0 (snd (with_mgr h x))" if "touched E D s0 x" for s0 h and x :: "'a run_state" using that by (rule run_steps)
  show ?thesis using assms
    by (auto simp: execute_def Let_def case_prod_unfold split: sum.split intro!: run_steps)
qed

end
