(* ===== verification/Run_Books.thy ===== *)
theory Run_Books
  imports Run_Effects
begin

text \<open>
  What a run leaves in the database: how its own row and the rows of its destinations end,
  whatever happened on the way, and that it touches no other row.
\<close>

named_theorems books

section \<open>Rows that are closed\<close>

definition dest_recorded :: "'w run_env \<Rightarrow> string \<Rightarrow> dest_status \<Rightarrow> run_tables \<Rightarrow> bool" where
  "dest_recorded E d s db \<longleftrightarrow>
     list_all (\<lambda>r. rdRunID r = veRunID E \<and> rdTarget r = d \<longrightarrow> rdStatus r = s \<and> rdFinishedAt r \<noteq> None) (rtDests db)"

definition run_recorded :: "'w run_env \<Rightarrow> run_status \<Rightarrow> run_tables \<Rightarrow> bool" where
  "run_recorded E s db \<longleftrightarrow>
     list_all (\<lambda>r. rrID r = veRunID E \<longrightarrow> rrStatus r = s \<and> rrFinishedAt r \<noteq> None) (rtRuns db)"

definition reliable :: "'w run_env \<Rightarrow> bool" where
  "reliable E \<longleftrightarrow> (\<forall>n. veFault E n = None)"

lemma list_all_update: "(\<And>r. C r \<Longrightarrow> P (f r)) \<Longrightarrow> (\<And>r. \<not> C r \<Longrightarrow> P r) \<Longrightarrow> list_all P (update_where C f rows)"
  by (induction rows) (simp_all add: update_where_def)

lemma finish_dest_db:
  "xrDb (db_write E (\<lambda>e now. FinishRunDestination e now (veRunID E) d s summary) st) =
     (case veFault E (xrClock st) of
        None \<Rightarrow> on_run_dest (veRunID E) d (\<lambda>r. r\<lparr>rdStatus := s, rdFinishedAt := Some (veNow E (xrClock st)), rdSummary := summary\<rparr>) (xrDb st)
      | Some _ \<Rightarrow> xrDb st)"
  by (simp add: db_write_def FinishRunDestination_def sql_exec_snd)

lemma finish_run_db:
  "xrDb (finish_run E s summary st) =
     (case veFault E (xrClock st) of
        None \<Rightarrow> on_run (veRunID E) (\<lambda>r. r\<lparr>rrStatus := s, rrFinishedAt := Some (veNow E (xrClock st)), rrSummary := summary\<rparr>) (xrDb st)
      | Some _ \<Rightarrow> xrDb st)"
  by (simp add: finish_run_def db_write_def FinishRun_def sql_exec_snd)

lemma recorded_write [books]:
  "reliable E \<Longrightarrow> dest_recorded E d s (xrDb (db_write E (\<lambda>e now. FinishRunDestination e now (veRunID E) d s summary) st))"
  by (simp add: dest_recorded_def reliable_def finish_dest_db on_run_dest_def list_all_update)

lemma recorded_rewrite:
  "dest_recorded E d s (xrDb st) \<Longrightarrow> dest_recorded E d s (xrDb (db_write E (\<lambda>e now. FinishRunDestination e now (veRunID E) x s summary) st))"
  by (auto simp: dest_recorded_def finish_dest_db on_run_dest_def update_where_def list_all_iff split: option.split)

lemma recorded_touched:
  assumes "touched E D st st'" "d \<notin> D" "dest_recorded E d s (xrDb st)"
  shows "dest_recorded E d s (xrDb st')"
proof -
  have "list_all2 (row_step E D) (rtDests (xrDb st)) (rtDests (xrDb st'))" using assms(1) by (simp add: touched_def touched_db_def)
  then show ?thesis using assms(2,3) unfolding dest_recorded_def
    by (induction rule: list_all2_induct) (auto simp: row_step_def)
qed

lemma run_recorded_finish [books]: "reliable E \<Longrightarrow> run_recorded E s (xrDb (finish_run E s summary st))"
  by (simp add: run_recorded_def reliable_def finish_run_db on_run_def list_all_update)

lemma recorded_finish_run [simp]: "dest_recorded E d s (xrDb (finish_run E rs summary st)) = dest_recorded E d s (xrDb st)"
  by (simp add: dest_recorded_def finish_run_db on_run_def split: option.split)

lemma recorded_all:
  assumes "reliable E" "d \<in> set ds"
  shows "dest_recorded E d s (xrDb (finish_dests E ds s summary st))"
proof -
  have keep: "dest_recorded E d s (xrDb (finish_dests E ds s summary st))" if "dest_recorded E d s (xrDb st)" for ds st
    using that by (induction ds arbitrary: st) (auto simp: finish_dests_def recorded_rewrite)
  show ?thesis using assms(2)
  proof (induction ds arbitrary: st)
    case (Cons x ds)
    let ?st = "db_write E (\<lambda>e now. FinishRunDestination e now (veRunID E) x s summary) st"
    have e: "finish_dests E (x # ds) s summary st = finish_dests E ds s summary ?st" by (simp add: finish_dests_def)
    show ?case
    proof (cases "d = x")
      case True
      then show ?thesis unfolding e using recorded_write [OF assms(1)] by (intro keep) blast
    qed (use Cons in \<open>simp add: e\<close>)
  qed simp
qed


section \<open>The outcome of a destination\<close>

text \<open>
  An outcome is settled when the destination's row says the same and is closed; a destination
  that was stopped while it was planned is the exception.
\<close>

definition dest_settled :: "'w run_env \<Rightarrow> dest_outcome \<Rightarrow> 'w run_state \<Rightarrow> bool" where
  "dest_settled E o1 st \<longleftrightarrow>
     (\<exists>s. doStatus o1 = Some s \<and> (\<not> dest_open s \<and> dest_recorded E (doTarget o1) s (xrDb st) \<or> s = DestCancelled \<and> xrStopped st))"

lemma settled_touched: "dest_settled E o1 st \<Longrightarrow> touched E D st st' \<Longrightarrow> doTarget o1 \<notin> D \<Longrightarrow> dest_settled E o1 st'"
  unfolding dest_settled_def using recorded_touched by (metis touched_def)

lemma closed_statuses [simp]:
  "\<not> dest_open DestFailed" "\<not> dest_open DestSkippedUnavailable" "\<not> dest_open DestCancelled" "\<not> dest_open DestSuccess"
  by (simp_all add: dest_open_def)

lemma destFailed_settled [books]:
  "reliable E \<Longrightarrow> dest_settled E (fst (destFailed E d msg st)) (snd (destFailed E d msg st))"
  by (simp add: destFailed_def dest_settled_def Let_def recorded_write)

lemma destFailed_target [simp]: "doTarget (fst (destFailed E d msg st)) = d"
  by (simp add: destFailed_def Let_def)

definition gate_settled :: "'w run_env \<Rightarrow> string \<Rightarrow> gate_end \<times> 'w run_state \<Rightarrow> bool" where
  "gate_settled E d g \<longleftrightarrow> (case fst g of Refused o1 \<Rightarrow> doTarget o1 = d \<and> dest_settled E o1 (snd g) | _ \<Rightarrow> True)"

lemma refuse_settled [books]:
  assumes "reliable E"
  shows "gate_settled E d (refuse E policy d msg st)" "gate_settled E d (refuse_skip E d msg st)"
proof -
  show skip: "gate_settled E d (refuse_skip E d msg st)" for st
    using assms by (simp add: refuse_skip_def gate_settled_def dest_settled_def Let_def recorded_write)
  have "gate_settled E d (refuse_abort E d msg st)" for st
    using assms by (simp add: refuse_abort_def destFailed_def gate_settled_def dest_settled_def Let_def recorded_write)
  then show "gate_settled E d (refuse E policy d msg st)" using skip by (simp add: refuse_def)
qed

lemma create_settled [books]: "reliable E \<Longrightarrow> gate_settled E (jdTarget dest) (create_folder E dest t st)"
  by (auto simp: create_folder_def gate_settled_def [of _ _ "(Reached a b, c)" for a b c] Let_def case_prod_unfold
      split: sum.split intro: books)

lemma gate_settled_simps [simp]:
  "gate_settled E d (Reached a b, st)" "gate_settled E d (Again, st)"
  by (simp_all add: gate_settled_def)

lemma obey_settled [books]: "reliable E \<Longrightarrow> gate_settled E (jdTarget dest) (obey E dest t msg can aa st)"
  by (cases aa; cases "fst aa"; auto simp: obey_def Let_def intro: books)

lemma gate_turn_settled [books]:
  assumes "reliable E"
  shows "gate_settled E (jdTarget dest) (gate_turn E dest t r st)"
proof -
  have c: "gate_settled E d (Refused (cancelled_outcome d), on_progress f (snd (look_ctx E st)))" if "fst (look_ctx E st)" for d f st
    using that by (simp add: gate_settled_def cancelled_outcome_def dest_settled_def)
  then have a: "gate_settled E (jdTarget dest) (ask E dest t msg can r st)" for msg can st
    using assms by (auto simp: ask_def Let_def case_prod_unfold intro: books)
  show ?thesis using assms
    by (auto simp: gate_turn_def Let_def case_prod_unfold split: sum.split intro: books a)
qed

lemma gate_loop_settled: "reliable E \<Longrightarrow> gate_settled E (jdTarget dest) (gate_loop E dest t rs st)"
proof (induction rs arbitrary: st)
  case (Cons r rs)
  have "gate_settled E (jdTarget dest) (gate_turn E dest t r st)" using Cons.prems by (rule books)
  then show ?case using Cons by (auto split: prod.split gate_end.split)
qed (auto intro: books)

text \<open>The loop always comes to an end: a prompt nobody answers is not answered with a retry.\<close>

lemma ask_action [simp]: "fst (askAboutDestination E d msg can r st) = waitForPrompt r (jbPromptFallback (veJob E))"
  by (simp add: askAboutDestination_def Let_def case_prod_unfold)

lemma refuse_ends [simp]: "fst (refuse E policy d msg st) \<noteq> Again"
  by (simp add: refuse_def refuse_abort_def refuse_skip_def Let_def case_prod_unfold)

lemma gate_turn_unanswered: "fst (gate_turn E dest t NoAnswer st) \<noteq> Again"
proof -
  have "fst (ask E dest t msg can NoAnswer st) \<noteq> Again" for msg can st
    by (simp add: ask_def obey_def Let_def case_prod_unfold)
  then show ?thesis by (simp add: gate_turn_def Let_def case_prod_unfold split: sum.split)
qed

lemma gate_ends: "fst (resolveDestination E dest t st) \<noteq> Again"
proof -
  have "fst (gate_loop E dest t rs st) \<noteq> Again" for rs
    by (induction rs arbitrary: st) (auto simp: gate_turn_unanswered split: prod.split gate_end.split)
  then show ?thesis by (simp add: resolveDestination_def)
qed



section \<open>The destinations of a run\<close>

definition skipped_over :: "'w run_env \<Rightarrow> planned_dest \<Rightarrow> bool" where
  "skipped_over E p \<longleftrightarrow> jbUnavailable (veJob E) = Val PolicyAbort \<and> p = not_attempted (pdDest p)"

text \<open>A destination of which the pipeline has taken care, or which a preview still holds.\<close>

definition dest_done :: "'w run_env \<Rightarrow> 'w run_state \<Rightarrow> planned_dest \<Rightarrow> bool" where
  "dest_done E st p \<longleftrightarrow>
     (case pdOutcome p of
        Some o1 \<Rightarrow> doTarget o1 = pdTarget p \<and> (dest_settled E o1 st \<or> skipped_over E p)
      | None \<Rightarrow> pdPlan p \<noteq> None)"

lemma dest_done_touched: "dest_done E st p \<Longrightarrow> touched E D st st' \<Longrightarrow> pdTarget p \<notin> D \<Longrightarrow> dest_done E st' p"
  by (auto simp: dest_done_def split: option.splits dest: settled_touched)

lemma others_done:
  assumes "touched E D st st'" "\<forall>p \<in> set ps. dest_done E st p" "D \<inter> pdTarget ` set ps = {}"
  shows "\<forall>p \<in> set ps. dest_done E st' p"
proof
  fix p assume "p \<in> set ps"
  then show "dest_done E st' p" using assms by (intro dest_done_touched [OF _ assms(1)]) auto
qed

lemma fail_dest_done [books]: "reliable E \<Longrightarrow> dest_done E (snd (fail_dest E p msg st)) (fst (fail_dest E p msg st))"
  using destFailed_settled [of E "pdTarget p" msg st] by (auto simp: dest_done_def fail_dest_def case_prod_unfold)

lemma scan_dest_done [books]:
  assumes "reliable E" "pdOutcome p = None"
  shows "dest_done E (snd (scan_dest E src t p st)) (fst (scan_dest E src t p st))"
proof -
  have "dest_done E (on_progress f (snd (look_ctx E st))) (p\<lparr>pdOutcome := Some (cancelled_outcome (pdTarget p))\<rparr>)"
    if "fst (look_ctx E st)" for f st
    using that by (simp add: dest_done_def dest_settled_def cancelled_outcome_def blank_outcome_def)
  then show ?thesis using assms
    by (auto simp: scan_dest_def compare_dest_def Let_def dest_done_def [of _ _ "p\<lparr>pdPlan := x\<rparr>" for x] split: sum.split intro: books)
qed

lemma planOne_done [books]:
  assumes "reliable E"
  shows "dest_done E (snd (planOneDestination E src c dest st)) (fst (planOneDestination E src c dest st))"
proof (cases "stTargets (veSite E) (jdTarget dest)")
  case (Inl e)
  then show ?thesis using assms by (auto simp: planOneDestination_def Let_def intro: books)
next
  case (Inr t)
  obtain g st1 where g: "resolveDestination E dest t st = (g, st1)" by fastforce
  have "gate_settled E (jdTarget dest) (g, st1)" "g \<noteq> Again"
    using gate_loop_settled [OF assms, of dest t "veReplies E (jdTarget dest)" st] gate_ends [of E dest t st] g
    by (simp_all add: resolveDestination_def)
  then show ?thesis using g Inr scan_dest_done [OF assms, of "pd_of dest c\<lparr>pdRoot := x, pdStorage := y\<rparr>" for x y]
    by (cases g) (auto simp: planOneDestination_def Let_def gate_settled_def pd_of_def dest_done_def [of E st1])
qed

lemma executeOne_settled [books]:
  assumes "reliable E"
  shows "dest_settled E (fst (executeOneDestination E root1 p pl st)) (snd (executeOneDestination E root1 p pl st))
     \<and> doTarget (fst (executeOneDestination E root1 p pl st)) = pdTarget p"
proof -
  have "fst (classifyDestination r pl) \<in> {DestSuccess, DestFailed}" for r by (simp add: classifyDestination_def)
  then have "\<not> dest_open (fst (classifyDestination r pl))" for r by (metis closed_statuses insertE singletonD)
  then show ?thesis using recorded_write [OF assms]
    by (simp add: executeOneDestination_def settle_dest_def dest_settled_def Let_def case_prod_unfold cancelled_outcome_def blank_outcome_def)
qed

lemma executeInto_done [books]:
  assumes "reliable E" "dest_done E st p"
  shows "dest_done E (snd (executeInto E root1 p st)) (fst (executeInto E root1 p st))
     \<and> pdOutcome (fst (executeInto E root1 p st)) \<noteq> None"
proof (cases "pdOutcome p")
  case None
  then obtain pl where "pdPlan p = Some pl" using assms(2) by (auto simp: dest_done_def)
  then show ?thesis using None executeOne_settled [OF assms(1), of root1 p pl st]
    by (auto simp: executeInto_def dest_done_def case_prod_unfold)
qed (use assms(2) in \<open>simp add: executeInto_def\<close>)

definition all_done :: "'w run_env \<Rightarrow> planned_dest list \<times> 'w run_state \<Rightarrow> bool" where
  "all_done E r \<longleftrightarrow> (\<forall>p \<in> set (fst r). dest_done E (snd r) p)"

definition executed :: "planned_dest list \<Rightarrow> bool" where
  "executed ps \<longleftrightarrow> (\<forall>p \<in> set ps. pdOutcome p \<noteq> None)"

lemma work_on_done [books]:
  assumes "reliable E"
  shows "dest_done E (snd (work_on E root1 src chs dest st)) (fst (work_on E root1 src chs dest st))
     \<and> (vePreview E \<or> pdOutcome (fst (work_on E root1 src chs dest st)) \<noteq> None)"
proof -
  let ?q = "planOneDestination E src (chain_for chs (jdTarget dest)) dest st"
  have "dest_done E (publishPlan (fst ?q) (snd ?q)) (fst ?q)"
    using planOne_done [OF assms, of src "chain_for chs (jdTarget dest)" dest st] publishPlan_touched [of E "{}" "snd ?q" "snd ?q" "fst ?q"]
    by (auto intro: dest_done_touched [where D = "{}"])
  from this executeInto_done [OF assms this, of root1] show ?thesis by (simp add: work_on_def Let_def case_prod_unfold)
qed

lemma not_attempted_done: "jbUnavailable (veJob E) = Val PolicyAbort \<Longrightarrow> dest_done E st (not_attempted dest)"
  by (simp add: dest_done_def skipped_over_def not_attempted_def pd_of_def cancelled_outcome_def blank_outcome_def)

lemma not_attempted_target [simp]: "pdTarget (not_attempted dest) = jdTarget dest" "pdOutcome (not_attempted dest) \<noteq> None"
  by (simp_all add: not_attempted_def pd_of_def)

lemma planDestinations_done:
  assumes "reliable E" "\<forall>p \<in> set ps. dest_done E st p" "distinct (map pdTarget ps @ map jdTarget dests)"
    "vePreview E \<or> executed ps"
  shows "all_done E (planDestinations E root1 src chs dests ps st)
     \<and> (vePreview E \<or> executed (fst (planDestinations E root1 src chs dests ps st)))"
  using assms(2-)
proof (induction dests arbitrary: ps st)
  case (Cons dest dests)
  let ?w = "work_on E root1 src chs dest st"
  have d: "distinct (map pdTarget (ps @ [x]) @ map jdTarget dests)" if "pdTarget x = jdTarget dest" for x
    using Cons.prems(2) that by simp
  have na: "\<forall>p \<in> set (ps @ [not_attempted dest]). dest_done E st p" if "jbUnavailable (veJob E) = Val PolicyAbort"
    using Cons.prems(1) not_attempted_done [OF that] by simp
  have "touched E {jdTarget dest} st (snd ?w)" by (rule work_on_touched) simp_all
  from others_done [OF this, of ps] have "\<forall>p \<in> set ps. dest_done E (snd ?w) p" using Cons.prems(1,2) by simp
  then have w: "\<forall>p \<in> set (ps @ [fst ?w]). dest_done E (snd ?w) p" using work_on_done [OF assms(1)] by auto
  have e: "vePreview E \<or> executed (ps @ [x])" if "vePreview E \<or> pdOutcome x \<noteq> None" for x
    using Cons.prems(3) that by (auto simp: executed_def)
  have e1: "vePreview E \<or> executed (ps @ [fst ?w])" using work_on_done [OF assms(1)] by (intro e) blast
  have e2: "vePreview E \<or> executed (ps @ [not_attempted dest])" using not_attempted_target(2) by (intro e) blast
  show ?case
  proof (cases "ps \<noteq> [] \<and> jbUnavailable (veJob E) = Val PolicyAbort \<and> unavailableEarlierPlanned ps")
    case True
    then show ?thesis using Cons.IH [OF na d e2] by simp
  next
    case False
    then show ?thesis using Cons.IH [OF w d e1] by (simp only: planDestinations.simps if_False case_prod_unfold work_on_target)
  qed
qed (auto simp: all_done_def)

lemma executePlanned_done:
  assumes "reliable E" "\<forall>p \<in> set ps. dest_done E st p" "distinct (map pdTarget ps)"
  shows "all_done E (executePlanned E root1 ps st) \<and> executed (fst (executePlanned E root1 ps st))"
  using assms(2-)
proof (induction ps arbitrary: st)
  case (Cons p ps)
  let ?q = "executeInto E root1 p st"
  have h: "dest_done E (snd ?q) (fst ?q)" "pdOutcome (fst ?q) \<noteq> None"
    using executeInto_done [OF assms(1), of st p root1] Cons.prems by auto
  have "touched E {pdTarget p} st (snd ?q)" by (rule executeInto_touched) simp_all
  then have rest: "\<forall>x \<in> set ps. dest_done E (snd ?q) x" "distinct (map pdTarget ps)"
    using Cons.prems others_done [of E "{pdTarget p}" st "snd ?q" ps] by simp_all
  have "touched E (pdTarget ` set ps) (snd ?q) (snd (executePlanned E root1 ps (snd ?q)))"
    by (rule executePlanned_touched) simp_all
  then have "dest_done E (snd (executePlanned E root1 ps (snd ?q))) (fst ?q)"
    using h(1) Cons.prems(2) by (intro dest_done_touched [OF h(1)]) auto
  then show ?case
    using Cons.IH [OF rest] h(2) by (auto simp: all_done_def executed_def Let_def case_prod_unfold)
qed (simp_all add: all_done_def executed_def)



section \<open>The end of a run\<close>

definition all_closed :: "'w run_env \<Rightarrow> run_tables \<Rightarrow> bool" where
  "all_closed E db \<longleftrightarrow> list_all (\<lambda>d. \<exists>s. \<not> dest_open s \<and> dest_recorded E d s db) (destTargetIDs (veJob E))"

definition cut_short :: "'w run_env \<Rightarrow> 'w run_state \<Rightarrow> bool" where
  "cut_short E st \<longleftrightarrow> xrStopped st \<and> \<not> xrCancelled st \<or> jbUnavailable (veJob E) = Val PolicyAbort"

definition run_closed :: "'w run_env \<Rightarrow> 'w run_state \<Rightarrow> bool" where
  "run_closed E st \<longleftrightarrow> (\<exists>s. run_Terminal s \<and> run_recorded E s (xrDb st)) \<and> (all_closed E (xrDb st) \<or> cut_short E st)"

lemma terminal [simp]: "run_Terminal RunFailed" "run_Terminal RunCancelled" "run_Terminal RunSuccess" "run_Terminal RunPartial"
  by (simp_all add: run_Terminal_def)

lemma closed_cong: "xrDb st' = xrDb st \<Longrightarrow> xrStopped st' = xrStopped st \<Longrightarrow> xrCancelled st' = xrCancelled st \<Longrightarrow> run_closed E st' = run_closed E st"
  by (simp add: run_closed_def cut_short_def)

lemma closed_prims [simp]:
  "run_closed E (add_note n st) = run_closed E st" "run_closed E (flush_events E' st) = run_closed E st"
  "run_closed E (release_one E' stg st) = run_closed E st" "run_closed E (announce ev st) = run_closed E st"
  by (rule closed_cong; simp add: release_one_def announce_def)+

lemma closed_release [simp]: "run_closed E (releaseAll E' ps st) = run_closed E st"
proof -
  have "run_closed E (fold (release_one E') xs st) = run_closed E st" for xs by (induction xs arbitrary: st) auto
  then show ?thesis by (simp add: releaseAll_def)
qed

lemma finish_all_closes:
  assumes "reliable E" "run_Terminal rs" "\<not> dest_open s"
  shows "run_closed E (finish_run E rs msg (finish_dests E (destTargetIDs (veJob E)) s msg st))"
  using recorded_all [OF assms(1)] run_recorded_finish [OF assms(1)] assms(2,3)
  by (auto simp: run_closed_def all_closed_def list_all_iff)

lemma failRun_closes [books]: "reliable E \<Longrightarrow> run_closed E (failRun E msg st)"
  unfolding failRun_def by (rule finish_all_closes) simp_all

lemma cancelRun_closes [books]: "reliable E \<Longrightarrow> run_closed E (cancelRun E st)"
  unfolding cancelRun_def by (rule finish_all_closes) simp_all

lemma graded_terminal: "run_Terminal (fst (classifyRun os policy))"
  by (simp add: classifyRun_def run_grade_def Let_def)

text \<open>A destination that was taken care of has a closed row, unless the run was cut short.\<close>

lemma done_closed:
  assumes "dest_done E st p" "pdOutcome p \<noteq> None" "\<not> xrStopped st" "jbUnavailable (veJob E) \<noteq> Val PolicyAbort"
  shows "\<exists>s. \<not> dest_open s \<and> dest_recorded E (pdTarget p) s (xrDb st)"
  using assms by (fastforce simp: dest_done_def dest_settled_def skipped_over_def)

lemma conclude_ctx [simp]:
  "xrStopped (conclude E os st) = xrStopped st" "xrCancelled (conclude E os st) = xrCancelled st"
  by (simp_all add: conclude_def announce_def finish_run_def Let_def case_prod_unfold)

lemma conclude_recorded [simp]: "dest_recorded E d s (xrDb (conclude E os st)) = dest_recorded E d s (xrDb st)"
  by (simp add: conclude_def announce_def Let_def case_prod_unfold)

lemma conclude_run [books]: "reliable E \<Longrightarrow> run_recorded E (fst (classifyRun os (policy_of (veJob E)))) (xrDb (conclude E os st))"
  by (simp add: conclude_def announce_def Let_def case_prod_unfold run_recorded_finish)

lemma targets_listed: "map pdTarget ps = destTargetIDs j \<Longrightarrow> d \<in> set (destTargetIDs j) \<Longrightarrow> \<exists>p \<in> set ps. pdTarget p = d"
  by (metis image_iff list.set_map)

lemma conclude_closes:
  assumes "reliable E" "all_done E (ps, st)" "executed ps" "map pdTarget ps = destTargetIDs (veJob E)" "\<not> xrCancelled st"
  shows "run_closed E (conclude E (outcomesOf ps) st)"
proof -
  have "all_closed E (xrDb st) \<or> cut_short E st"
    using targets_listed [OF assms(4)] done_closed [of E st] assms(2,3,5)
    by (fastforce simp: all_closed_def cut_short_def all_done_def executed_def list_all_iff)
  then have "all_closed E (xrDb (conclude E (outcomesOf ps) st)) \<or> cut_short E (conclude E (outcomesOf ps) st)"
    by (simp add: all_closed_def cut_short_def)
  then show ?thesis using conclude_run [OF assms(1)] graded_terminal unfolding run_closed_def by blast
qed

text \<open>Winding up changes counters and the phase alone.\<close>

lemma wind_up_touched: "touched E {} st (wind_up E st)"
  unfolding wind_up_def by (intro finish_touched(3) prim_touched(1) touched_refl)

lemma all_done_touched: "all_done E (ps, st) \<Longrightarrow> touched E {} st st' \<Longrightarrow> all_done E (ps, st')"
  using others_done [of E "{}" st st' ps] by (simp add: all_done_def)

lemma wound_up:
  assumes "all_done E (ps, st)"
  shows "all_done E (ps, snd (look_ctx E (wind_up E st)))"
  by (rule all_done_touched [OF assms]) (intro prim_touched(6) wind_up_touched)

lemma finalise_closes:
  assumes "reliable E" "all_done E (ps, st)" "executed ps" "map pdTarget ps = destTargetIDs (veJob E)"
  shows "run_closed E (finalise E ps st)"
  using conclude_closes [OF assms(1) wound_up [OF assms(2)] assms(3,4)] cancelRun_closes [OF assms(1)]
  by (simp add: finalise_def Let_def)

lemma abandon_closes:
  assumes "reliable E" "all_done E (ps, st)" "map pdTarget ps = destTargetIDs (veJob E)" "distinct (map pdTarget ps)" "\<not> xrCancelled st"
  shows "run_closed E (abandonPreview E ps st)"
proof -
  let ?open = "map pdTarget (filter (\<lambda>p. pdOutcome p = None) ps)"
  let ?st = "finish_dests E ?open DestCancelled abandon_message st"
  have t: "touched E (set ?open) st ?st" by (rule finish_touched) simp_all
  have ctx: "xrStopped ?st = xrStopped st" "xrCancelled ?st = xrCancelled st"
  proof -
    have "xrStopped (finish_dests E ds s m st) = xrStopped st \<and> xrCancelled (finish_dests E ds s m st) = xrCancelled st" for ds s m st
      by (induction ds arbitrary: st) (simp_all add: finish_dests_def)
    then show "xrStopped ?st = xrStopped st" "xrCancelled ?st = xrCancelled st" by simp_all
  qed
  have "\<exists>s. \<not> dest_open s \<and> dest_recorded E (pdTarget p) s (xrDb ?st)"
    if p: "p \<in> set ps" and n: "\<not> xrStopped st" "jbUnavailable (veJob E) \<noteq> Val PolicyAbort" for p
  proof (cases "pdOutcome p")
    case None
    then have "pdTarget p \<in> set ?open" using p by simp
    from recorded_all [OF assms(1) this] show ?thesis using closed_statuses(3) by blast
  next
    case (Some o1)
    have i: "inj_on pdTarget (set ps)" using assms(4) by (simp add: distinct_map)
    have "pdTarget q \<noteq> pdTarget p" if "q \<in> set ps" "pdOutcome q = None" for q
      using inj_onD [OF i _ that(1) p] that(2) Some by auto
    then have "pdTarget p \<notin> set ?open" by fastforce
    moreover obtain s where "\<not> dest_open s" "dest_recorded E (pdTarget p) s (xrDb st)"
      using done_closed [of E st p] assms(2) p n Some unfolding all_done_def by auto
    ultimately show ?thesis using recorded_touched [OF t] by blast
  qed
  then have "all_closed E (xrDb ?st) \<or> cut_short E ?st"
    using targets_listed [OF assms(3)] assms(5) by (fastforce simp: all_closed_def cut_short_def list_all_iff ctx)
  then have "all_closed E (xrDb (abandonPreview E ps st)) \<or> cut_short E (abandonPreview E ps st)"
    by (simp add: all_closed_def cut_short_def abandonPreview_def finish_run_def [of E RunCancelled abandon_message]
        recorded_finish_run [unfolded finish_run_def])
  moreover have "run_recorded E RunCancelled (xrDb (abandonPreview E ps st))"
    unfolding abandonPreview_def by (rule run_recorded_finish [OF assms(1)])
  ultimately show ?thesis using terminal(2) unfolding run_closed_def by blast
qed

lemma give_up_closes:
  assumes "reliable E" "all_done E (ps, st)" "map pdTarget ps = destTargetIDs (veJob E)" "distinct (map pdTarget ps)"
  shows "run_closed E (give_up E ps st)"
  using abandon_closes [OF assms(1) wound_up [OF assms(2)] assms(3,4)] cancelRun_closes [OF assms(1)]
  by (simp add: give_up_def Let_def)

lemma awaited:
  assumes "all_done E (ps, st)"
  shows "all_done E (ps, snd (awaitConfirmation E st))"
  by (rule all_done_touched [OF assms]) (intro finish_touched(4) touched_refl)

lemma after_scan_closes [books]:
  assumes "reliable E" "distinct (destTargetIDs (veJob E))"
  shows "run_closed E (after_scan E root1 src chs st)"
proof -
  obtain ps st1 where p: "planDestinations E root1 src chs (jbDestinations (veJob E)) [] st = (ps, st1)" by fastforce
  have t: "map pdTarget ps = destTargetIDs (veJob E)"
    using planDestinations_targets [of E root1 src chs "jbDestinations (veJob E)" "[]" st] p by (simp add: destTargetIDs_def)
  have d: "all_done E (ps, st1)" "vePreview E \<or> executed ps"
    using planDestinations_done [OF assms(1), of "[]" st "jbDestinations (veJob E)" root1 src chs] p assms(2)
    by (auto simp: destTargetIDs_def executed_def)
  show ?thesis
  proof (cases "vePreview E")
    case False
    then show ?thesis using finalise_closes [OF assms(1) d(1) _ t] d(2) p by (simp add: after_scan_def)
  next
    case True
    obtain ok st2 where w: "awaitConfirmation E st1 = (ok, st2)" by fastforce
    have d2: "all_done E (ps, st2)" using awaited [OF d(1)] w by simp
    obtain qs st3 where q: "executePlanned E root1 ps st2 = (qs, st3)" by fastforce
    have "all_done E (qs, st3)" "executed qs"
      using executePlanned_done [OF assms(1), of ps st2 root1] d2 q t assms(2) by (auto simp: all_done_def)
    moreover have "map pdTarget qs = destTargetIDs (veJob E)" using executePlanned_targets [of E root1 ps st2] q t by simp
    ultimately show ?thesis using finalise_closes [OF assms(1), of qs st3] give_up_closes [OF assms(1) d2 t] assms(2) True p w q t
      by (cases ok) (simp_all add: after_scan_def)
  qed
qed

lemma with_source_closes [books]:
  assumes "reliable E" "distinct (destTargetIDs (veJob E))"
  shows "run_closed E (with_source E root1 chs prune st)"
  using assms by (auto simp: with_source_def Let_def split: sum.split intro: books)



section \<open>Properties\<close>

lemma release_fields [simp]:
  "xrDb (releaseAll E ps x) = xrDb x" "xrCancelled (releaseAll E ps x) = xrCancelled x" "xrStopped (releaseAll E ps x) = xrStopped x"
proof -
  have "xrDb (fold (release_one E) xs x) = xrDb x \<and> xrCancelled (fold (release_one E) xs x) = xrCancelled x
      \<and> xrStopped (fold (release_one E) xs x) = xrStopped x" for xs by (induction xs arbitrary: x) (auto simp: release_one_def)
  then show "xrDb (releaseAll E ps x) = xrDb x" "xrCancelled (releaseAll E ps x) = xrCancelled x"
    "xrStopped (releaseAll E ps x) = xrStopped x" by (simp_all add: releaseAll_def)
qed

lemma cancelRun_ctx [simp]: "xrCancelled (cancelRun E x) = xrCancelled x"
proof -
  have "xrCancelled (finish_dests E ds s m y) = xrCancelled y" for ds s m y by (induction ds arbitrary: y) (simp_all add: finish_dests_def)
  then show ?thesis by (simp add: cancelRun_def finish_run_def)
qed

lemma execute_closes:
  assumes "reliable E" "distinct (destTargetIDs (veJob E))"
  shows "run_closed E (execute E t st)"
proof -
  obtain r evs m where c: "resolveChains (veSite E) (veJob E) [] (xrMgr (says E [] LevelInfo [] (start_message E t) st)) = (r, evs, m)"
    using prod_cases3 by blast
  then show ?thesis using assms
    by (cases r) (auto simp: execute_def Let_def split: prod.split sum.split intro: books)
qed


text \<open>
  a run touches its own rows only. In the tables of runs and of their destinations, the rows of
  every other run are after an execution what they were before it, faults or none, and no row is
  added or removed.
\<close>

theorem run_touches_its_own_rows:
  "list_all2 (\<lambda>r r'. rrID r' = rrID r \<and> (rrID r = veRunID E \<or> r' = r)) (rtRuns (xrDb st)) (rtRuns (xrDb (execute E t st)))
   \<and> list_all2 (\<lambda>r r'. rdRunID r' = rdRunID r \<and> rdTarget r' = rdTarget r \<and> (rdRunID r = veRunID E \<or> r' = r))
       (rtDests (xrDb st)) (rtDests (xrDb (execute E t st)))"
  using execute_touched [of E UNIV st t]
  by (auto simp: touched_def touched_db_def run_step_def row_step_def elim: list_all2_mono)



text \<open>A run whose destination targets cannot be loaded.\<close>

definition idle_exec :: "mount_info list exec_env" where
  "idle_exec = \<lparr>xeRemove = (\<lambda>p fs. (None, fs)), xeMkdirAll = (\<lambda>p fs. (None, fs)),
     xeCopy = (\<lambda>c a fs. ((\<lparr>BytesCopied = 0, Attempts = 1\<rparr>, None, []), fs)), xeNow = 0\<rparr>"

definition sample_run_env :: "mount_info list run_env" where
  "sample_run_env =
     \<lparr>veSite = sample_site\<lparr>stTargets := (\<lambda>_. Inl (new_error ''no such target'' []))\<rparr>, veRunID = ''run1'', veJob = cached_job,
      vePreview = False, veFault = (\<lambda>_. None), veNow = int, veCancelAt = (\<lambda>_. False), veReplies = (\<lambda>_. []),
      veConfirm = NoAnswer, veScan = (\<lambda>_ _ _. Inr empty_result), veExec = (\<lambda>_ _. idle_exec),
      veSched = (\<lambda>_. \<lparr>xsClear = None, xsMkdirs = None, xsCopies = [], xsDeletes = [], xsRmdirs = None, xsEnd = False\<rparr>),
      veTally = id\<rparr>"

definition sample_run_state :: "mount_info list run_state" where
  "sample_run_state =
     \<lparr>xrMgr = msMgr (mgr_start []), xrProgress = newProgress 0 [''b2'', ''a1''], xrGate = newGate, xrParked = False,
      xrEvents = newEventBuffer,
      xrDb = snd (CreateRun None (Inr ''run1'') 0 ''j1'' TriggerManual [''b2'', ''a1''] \<lparr>rtRuns = [], rtDests = []\<rparr>),
      xrClock = 0, xrStopped = False, xrCancelled = False, xrNotes = [], xrPlans = []\<rparr>"

lemma sample_dests: "jbDestinations cached_job = [\<lparr>jdTarget = ''b2'', jdSubpath = ''backup''\<rparr>, \<lparr>jdTarget = ''a1'', jdSubpath = ''copy''\<rparr>]"
  by (simp add: cached_job_def sample_job_def job_ApplyDefaults_def)

lemma sample_env_simps [simp]:
  "veFault sample_run_env n = None" "veRunID sample_run_env = ''run1''" "veJob sample_run_env = cached_job"
  "\<not> vePreview sample_run_env" "\<not> veCancelAt sample_run_env n"
  "stTargets (veSite sample_run_env) d = Inl (new_error ''no such target'' [])"
  by (simp_all add: sample_run_env_def)


lemma wind_up_ctx: "xrCancelled (wind_up E st) = xrCancelled st"
proof -
  have "xrCancelled (fold (flush_one E) xs st) = xrCancelled st" for xs and st :: "'a run_state"
    by (induction xs arbitrary: st) (simp_all add: flush_one_def)
  then show ?thesis by (simp add: wind_up_def flushProgress_def)
qed


end
