(* ===== verification/Run_Mounts.thy ===== *)
theory Run_Mounts
  imports Run_Books
begin

text \<open>
  The mount references of a run: what its plans hold while it is under way, and that every way
  out gives all of them back.
\<close>

section \<open>What a step holds\<close>

lemma refs_nonneg: "mgr_ok m \<Longrightarrow> 0 \<le> mgr_refs x m"
  by (auto simp: mgr_ok_def mgr_refs_def split: option.split)

definition held_by :: "string \<Rightarrow> storage \<Rightarrow> int" where
  "held_by x stg = (if x = tgID (storage_target stg) then storage_weight stg else 0)"

lemma held_by_nonneg: "0 \<le> held_by x stg"
  by (cases stg) (simp_all add: held_by_def smb_weight_def)

text \<open>From a manager in order, the step leaves it in order, with \<open>w x\<close> more references to \<open>x\<close>.\<close>

definition holds :: "(string \<Rightarrow> int) \<Rightarrow> 'w run_state \<Rightarrow> 'w run_state \<Rightarrow> bool" where
  "holds w st st' \<longleftrightarrow>
     (mgr_ok (xrMgr st) \<longrightarrow> mgr_ok (xrMgr st') \<and> (\<forall>x. mgr_refs x (xrMgr st') = mgr_refs x (xrMgr st) + w x))"

definition holds_none :: "string \<Rightarrow> int" where
  "holds_none x = 0"

lemma holds_same: "xrMgr st' = xrMgr st \<Longrightarrow> holds holds_none st st'" "xrMgr st' = xrMgr st \<Longrightarrow> holds (\<lambda>_. 0) st st'"
  by (simp_all add: holds_def holds_none_def)

lemma holds_trans: "holds v a b \<Longrightarrow> holds w b c \<Longrightarrow> holds (\<lambda>x. v x + w x) a c"
  by (auto simp: holds_def)

lemma holds_after: "holds w a b \<Longrightarrow> xrMgr b' = xrMgr b \<Longrightarrow> holds w a b'"
  by (simp add: holds_def)

lemma holds_before: "holds w a b \<Longrightarrow> xrMgr a = xrMgr a' \<Longrightarrow> holds w a' b"
  by (simp add: holds_def)

lemma holds_resolve:
  assumes "with_mgr (resolveWith S t sub create) st = (r, st')"
  shows "holds (case r of Inl _ \<Rightarrow> holds_none | Inr (_, stg) \<Rightarrow> (\<lambda>x. held_by x stg)) st st'"
proof -
  obtain m' where m: "resolveWith S t sub create (xrMgr st) = (r, m')" "st' = st\<lparr>xrMgr := m'\<rparr>"
    using assms by (auto simp: with_mgr_def split: prod.splits)
  show ?thesis unfolding holds_def
    using resolveWith_refs(1,2) [OF _ m(1)] resolveWith_refs(3) [OF _ m(1)] m(2)
    by (cases r) (auto simp: holds_none_def held_by_def split: prod.split)
qed

text \<open>The steps of the gate that do not resolve leave the manager alone.\<close>

lemma ask_mgr [simp]: "xrMgr (snd (askAboutDestination E d msg can r st)) = xrMgr st"
  by (simp add: askAboutDestination_def Let_def case_prod_unfold)

lemma refuse_mgr [simp]:
  "xrMgr (snd (destFailed E d msg st)) = xrMgr st" "xrMgr (snd (refuse E policy d msg st)) = xrMgr st"
  "xrMgr (snd (refuse_skip E d msg st)) = xrMgr st"
  by (simp_all add: destFailed_def refuse_def refuse_abort_def refuse_skip_def Let_def case_prod_unfold)

definition gate_holds :: "'w run_state \<Rightarrow> gate_end \<times> 'w run_state \<Rightarrow> bool" where
  "gate_holds st g \<longleftrightarrow> holds (case fst g of Reached _ stg \<Rightarrow> (\<lambda>x. held_by x stg) | _ \<Rightarrow> holds_none) st (snd g)"

lemma gate_holds_before: "gate_holds st g \<Longrightarrow> xrMgr st = xrMgr st' \<Longrightarrow> gate_holds st' g"
  unfolding gate_holds_def using holds_before by blast

lemma create_holds: "gate_holds st (create_folder E dest t st)"
proof -
  let ?st = "says E (jdTarget dest) LevelInfo [] (''creating the destination folder at your request: '' @ jdSubpath dest) st"
  obtain r st1 where w: "with_mgr (resolveWith (veSite E) t (jdSubpath dest) True) ?st = (r, st1)" by fastforce
  have "gate_holds ?st (create_folder E dest t st)"
    using holds_resolve [OF w] w
    by (cases r) (auto simp: create_folder_def gate_holds_def refuse_skip_def Let_def intro: holds_after)
  then show ?thesis by (rule gate_holds_before) simp
qed

lemma refuse_holds: "gate_holds st (refuse E policy d msg st)"
proof -
  have "fst (refuse E policy d msg st) \<noteq> Reached a b" for a b
    by (simp add: refuse_def refuse_abort_def refuse_skip_def Let_def case_prod_unfold)
  then show ?thesis unfolding gate_holds_def
    by (cases "fst (refuse E policy d msg st)") (auto intro: holds_same)
qed

lemma obey_holds: "gate_holds st (obey E dest t msg can aa st)"
  using refuse_holds create_holds
  by (cases aa; cases "fst aa") (auto simp: obey_def Let_def gate_holds_def [of st "(Again, x)" for x] intro: holds_same)

lemma gate_turn_holds: "gate_holds st (gate_turn E dest t r st)"
proof -
  obtain q st1 where w: "with_mgr (resolveWith (veSite E) t (jdSubpath dest) (mayCreate E)) st = (q, st1)" by fastforce
  show ?thesis
  proof (cases q)
    case (Inr x)
    then show ?thesis using holds_resolve [OF w] w by (auto simp: gate_turn_def gate_holds_def split: prod.split)
  next
    case (Inl e)
    have h: "holds holds_none st st1" using holds_resolve [OF w] Inl by simp
    have ask: "gate_holds st1 (ask E dest t msg can r st1)" for msg can
    proof -
      let ?st2 = "snd (look_ctx E (snd (askAboutDestination E (jdTarget dest) msg can r st1)))"
      have "gate_holds ?st2 (obey E dest t msg can aa ?st2)" for aa by (rule obey_holds)
      then have "gate_holds st1 (obey E dest t msg can aa ?st2)" for aa by (rule gate_holds_before) simp
      then show ?thesis by (auto simp: ask_def Let_def case_prod_unfold gate_holds_def [of st1 "(Refused a, x)" for a x] intro: holds_same)
    qed
    have "gate_holds st1 (gate_turn E dest t r st)" using w Inl ask refuse_holds by (auto simp: gate_turn_def Let_def)
    from holds_trans [OF h this [unfolded gate_holds_def]] show ?thesis unfolding gate_holds_def by (simp add: holds_none_def holds_def)
  qed
qed

lemma gate_loop_holds: "gate_holds st (gate_loop E dest t rs st)"
proof (induction rs arbitrary: st)
  case (Cons r rs)
  obtain g st1 where g: "gate_turn E dest t r st = (g, st1)" by fastforce
  have t: "gate_holds st (g, st1)" using gate_turn_holds [of st E dest t r] g by simp
  show ?case
  proof (cases g)
    case Again
    then have "holds holds_none st st1" using t by (simp add: gate_holds_def)
    from holds_trans [OF this Cons.IH [of st1, unfolded gate_holds_def]] show ?thesis
      using g Again by (simp add: gate_holds_def holds_none_def holds_def)
  qed (use g t in auto)
qed (simp add: gate_turn_holds)


section \<open>What the plans hold\<close>

definition plan_holds :: "string \<Rightarrow> planned_dest \<Rightarrow> int" where
  "plan_holds x p = (case pdStorage p of None \<Rightarrow> 0 | Some stg \<Rightarrow> held_by x stg)"

lemma fold_mgr: "(\<And>x st. xrMgr (f x st) = xrMgr st) \<Longrightarrow> xrMgr (fold f xs st) = xrMgr st"
  by (induction xs arbitrary: st) simp_all

lemma tell_mgr [simp]:
  "xrMgr (tell_links E d msg links st) = xrMgr st" "xrMgr (tell_plan E d c pl st) = xrMgr st" "xrMgr (tell_scan E r st) = xrMgr st"
  "xrMgr (fold (log_event E d) evs st) = xrMgr st"
  by (simp_all add: tell_links_def tell_plan_def tell_scan_def Let_def fold_mgr)

lemma scan_dest_mgr [simp]:
  "xrMgr (snd (fail_dest E p msg st)) = xrMgr st" "xrMgr (snd (scan_dest E src t p st)) = xrMgr st"
  by (simp_all add: scan_dest_def compare_dest_def fail_dest_def Let_def case_prod_unfold split: sum.split)

lemma kept_storage [simp]:
  "pdStorage (fst (fail_dest E p msg st)) = pdStorage p" "pdStorage (fst (scan_dest E src t p st)) = pdStorage p"
  "pdStorage (fst (executeInto E root1 p st)) = pdStorage p" "pdStorage (pd_of dest c) = None"
  "pdStorage (not_attempted dest) = None"
  by (auto simp: scan_dest_def compare_dest_def fail_dest_def executeInto_def pd_of_def not_attempted_def Let_def case_prod_unfold
      split: sum.split option.split)

lemma planOne_holds:
  "holds (\<lambda>x. plan_holds x (fst (planOneDestination E src c dest st))) st (snd (planOneDestination E src c dest st))"
proof (cases "stTargets (veSite E) (jdTarget dest)")
  case (Inl e)
  then show ?thesis by (auto simp: planOneDestination_def plan_holds_def Let_def intro: holds_same)
next
  case (Inr t)
  obtain g st1 where g: "resolveDestination E dest t st = (g, st1)" by fastforce
  then have "gate_holds st (g, st1)" using gate_loop_holds [of st E dest t "veReplies E (jdTarget dest)"]
    by (simp only: resolveDestination_def)
  then have h: "holds (case g of Reached _ stg \<Rightarrow> (\<lambda>x. held_by x stg) | _ \<Rightarrow> holds_none) st st1" by (simp add: gate_holds_def)
  then show ?thesis using g Inr
    by (cases g) (auto simp: planOneDestination_def plan_holds_def Let_def holds_none_def [abs_def] pd_of_def intro: holds_after)
qed

lemma publish_mgr [simp]: "xrMgr (publishPlan p st) = xrMgr st"
  by (simp add: publishPlan_def split: option.split)

text \<open>The engine changes the world under the manager and nothing of its books.\<close>

lemma mgr_world [simp]: "mgr_ok (m\<lparr>mgWorld := w\<rparr>) = mgr_ok m" "mgr_refs x (m\<lparr>mgWorld := w\<rparr>) = mgr_refs x m"
  by (simp_all add: mgr_ok_def mgr_refs_def split: option.split)

lemma run_engine_holds: "holds holds_none st (snd (run_engine E root1 p pl st))"
  by (auto simp: run_engine_def holds_def holds_none_def Let_def case_prod_unfold split: option.split)

lemma executeInto_holds: "holds holds_none st (snd (executeInto E root1 p st))"
proof -
  have "holds holds_none st (snd (executeOneDestination E root1 p pl st))" for pl
  proof -
    let ?st = "on_progress (setStatus (pdTarget p) DestRunning)
      (db_write E (\<lambda>e now. StartRunDestination e now (veRunID E) (pdTarget p) (Copies pl) (CopyBytes pl)) st)"
    have "holds holds_none st (snd (run_engine E root1 p pl ?st))" by (rule holds_before [OF run_engine_holds]) simp
    then show ?thesis
      by (auto simp: executeOneDestination_def settle_dest_def Let_def case_prod_unfold intro: holds_after)
  qed
  then show ?thesis by (auto simp: executeInto_def case_prod_unfold intro: holds_same split: option.split)
qed

lemma work_on_holds:
  "holds (\<lambda>x. plan_holds x (fst (work_on E root1 src chs dest st))) st (snd (work_on E root1 src chs dest st))"
proof -
  obtain p st1 where p: "planOneDestination E src (chain_for chs (jdTarget dest)) dest st = (p, st1)" by fastforce
  have h: "holds (\<lambda>x. plan_holds x p) st (publishPlan p st1)"
    using planOne_holds [of E src "chain_for chs (jdTarget dest)" dest st] p by (auto intro: holds_after)
  from holds_trans [OF h executeInto_holds [of "publishPlan p st1" E root1 p]] h show ?thesis
    using p by (auto simp: work_on_def holds_none_def plan_holds_def Let_def case_prod_unfold)
qed

definition plans_hold :: "planned_dest list \<Rightarrow> string \<Rightarrow> int" where
  "plans_hold ps x = sum_list (map (plan_holds x) ps)"

lemma planDestinations_holds:
  "holds (\<lambda>x. plans_hold (fst (planDestinations E root1 src chs dests ps st)) x - plans_hold ps x) st
     (snd (planDestinations E root1 src chs dests ps st))"
proof (induction dests arbitrary: ps st)
  case Nil
  show ?case by (simp add: holds_def)
next
  case (Cons dest dests)
  have na: "plan_holds x (not_attempted dest) = 0" for x by (simp add: plan_holds_def)
  show ?case
  proof (cases "ps \<noteq> [] \<and> jbUnavailable (veJob E) = Val PolicyAbort \<and> unavailableEarlierPlanned ps")
    case True
    then show ?thesis using Cons.IH [of "ps @ [not_attempted dest]" st] na by (simp add: plans_hold_def)
  next
    case False
    obtain p st1 where w: "work_on E root1 src chs dest st = (p, st1)" by fastforce
    have "holds (plan_holds' p) st st1" if "plan_holds' = (\<lambda>p x. plan_holds x p)" for plan_holds'
      using work_on_holds [of E root1 src chs dest st] w that by simp
    then have h: "holds (\<lambda>x. plan_holds x p) st st1" by simp
    have e: "planDestinations E root1 src chs (dest # dests) ps st = planDestinations E root1 src chs dests (ps @ [p]) st1"
      using False w by (simp only: planDestinations.simps if_False prod.case)
    show ?thesis using holds_trans [OF h Cons.IH [of "ps @ [p]" st1]] unfolding e by (simp add: plans_hold_def)
  qed
qed

lemma executePlanned_holds:
  "holds holds_none st (snd (executePlanned E root1 ps st)) \<and> plans_hold (fst (executePlanned E root1 ps st)) = plans_hold ps"
proof (induction ps arbitrary: st)
  case (Cons p ps)
  from holds_trans [OF executeInto_holds conjunct1 [OF Cons.IH]] Cons.IH show ?case
    by (auto simp: Let_def case_prod_unfold holds_none_def [abs_def] plans_hold_def plan_holds_def fun_eq_iff)
qed (auto intro: holds_same)


section \<open>Giving back\<close>

lemma releases:
  assumes "mgr_ok (xrMgr st)" "\<And>x. sum_list (map (held_by x) stgs) \<le> mgr_refs x (xrMgr st)"
  shows "mgr_ok (xrMgr (fold (release_one E) stgs st))
     \<and> (\<forall>x. mgr_refs x (xrMgr (fold (release_one E) stgs st)) = mgr_refs x (xrMgr st) - sum_list (map (held_by x) stgs))"
  using assms
proof (induction stgs arbitrary: st)
  case (Cons stg stgs)
  let ?st = "release_one E stg st"
  have n: "0 \<le> sum_list (map (held_by x) stgs)" for x by (rule sum_list_nonneg) (auto simp: held_by_nonneg)
  have "storage_weight stg \<le> mgr_refs (tgID (storage_target stg)) (xrMgr st)"
    using Cons.prems(2) [of "tgID (storage_target stg)"] n [of "tgID (storage_target stg)"]
    by (simp add: held_by_def [of _ stg])
  from release_storage_refs [OF Cons.prems(1) this, where S = "veSite E"]
  have r: "mgr_ok (xrMgr ?st)" "mgr_refs x (xrMgr ?st) = mgr_refs x (xrMgr st) - held_by x stg" for x
    by (simp_all add: release_one_def held_by_def)
  have "sum_list (map (held_by x) stgs) \<le> mgr_refs x (xrMgr ?st)" for x using Cons.prems(2) [of x] r(2) [of x] by simp
  from Cons.IH [OF r(1) this] show ?case using r(2) by simp
qed simp_all

lemma releaseAll_holds:
  assumes "holds (plans_hold ps) st0 st" "mgr_ok (xrMgr st0)"
  shows "holds holds_none st0 (releaseAll E ps st)"
proof -
  have s: "sum_list (map (held_by x) (List.map_filter pdStorage ps)) = plans_hold ps x" for x
    by (induction ps) (auto simp: plans_hold_def plan_holds_def List.map_filter_simps split: option.split)
  have m: "mgr_ok (xrMgr st)" "mgr_refs x (xrMgr st) = mgr_refs x (xrMgr st0) + plans_hold ps x" for x
    using assms by (auto simp: holds_def)
  have "sum_list (map (held_by x) (List.map_filter pdStorage ps)) \<le> mgr_refs x (xrMgr st)" for x
    using m(2) [of x] refs_nonneg [OF assms(2), of x] s by simp
  from releases [OF m(1) this] show ?thesis using m(2) s by (simp add: holds_def holds_none_def releaseAll_def)
qed



section \<open>The whole run\<close>

lemma finish_mgr [simp]:
  "xrMgr (finish_dests E ds s summary st) = xrMgr st" "xrMgr (finish_run E rs summary st) = xrMgr st"
  "xrMgr (announce ev st) = xrMgr st" "xrMgr (wind_up E st) = xrMgr st"
  by (simp_all add: finish_dests_def finish_run_def announce_def wind_up_def flushProgress_def flush_one_def fold_mgr)

lemma end_mgr [simp]:
  "xrMgr (failRun E msg st) = xrMgr st" "xrMgr (cancelRun E st) = xrMgr st" "xrMgr (abandonPreview E ps st) = xrMgr st"
  "xrMgr (conclude E os st) = xrMgr st"
  by (simp_all add: failRun_def cancelRun_def abandonPreview_def conclude_def Let_def case_prod_unfold)

lemma phase_mgr [simp]:
  "xrMgr (finalise E ps st) = xrMgr st" "xrMgr (give_up E ps st) = xrMgr st" "xrMgr (snd (awaitConfirmation E st)) = xrMgr st"
  by (simp_all add: finalise_def give_up_def awaitConfirmation_def Let_def case_prod_unfold split: reply.split)

lemma after_scan_holds:
  assumes "mgr_ok (xrMgr st)"
  shows "holds holds_none st (after_scan E root1 src chs st)"
proof -
  obtain ps st1 where p: "planDestinations E root1 src chs (jbDestinations (veJob E)) [] st = (ps, st1)" by fastforce
  have h: "holds (plans_hold ps) st st1"
    using planDestinations_holds [of E root1 src chs "jbDestinations (veJob E)" "[]" st] p by (simp add: plans_hold_def [abs_def])
  obtain ok st2 where w: "awaitConfirmation E st1 = (ok, st2)" by fastforce
  then have m2: "xrMgr st2 = xrMgr st1" using phase_mgr(3) [of E st1] by simp
  obtain qs st3 where q: "executePlanned E root1 ps st2 = (qs, st3)" by fastforce
  have e: "holds holds_none st2 st3" "plans_hold qs = plans_hold ps" using executePlanned_holds [of st2 E root1 ps] q by simp_all
  have "holds (\<lambda>x. plans_hold ps x + holds_none x) st st3" by (rule holds_trans [OF holds_after [OF h m2] e(1)])
  then have "holds (plans_hold qs) st st3" unfolding e(2) holds_def holds_none_def by simp
  then have "holds holds_none st (releaseAll E qs (finalise E qs st3))"
    by (rule releaseAll_holds [OF holds_after assms]) simp
  moreover have "holds holds_none st (releaseAll E ps (finalise E ps st1))" "holds holds_none st (releaseAll E ps (give_up E ps st2))"
    by (rule releaseAll_holds [OF holds_after [OF h] assms]; simp add: m2)+
  ultimately show ?thesis using p w q by (cases ok) (auto simp: after_scan_def)
qed

lemma with_source_holds:
  assumes "mgr_ok (xrMgr st)"
  shows "holds holds_none st (with_source E root1 chs prune st)"
proof (cases "veScan E (prunes E prune) root1 (mgWorld (xrMgr st))")
  case (Inl e)
  then show ?thesis by (auto simp: with_source_def Let_def intro: holds_same)
next
  case (Inr src)
  let ?st = "db_write E (\<lambda>e now. SetRunScanTotals e (veRunID E) (Files src) (Bytes src))
    (tell_scan E src (on_progress (setSourceScan (Files src) (Bytes src)) (on_progress (setPhase PhaseScanning) st)))"
  have "holds holds_none ?st (after_scan E root1 src chs ?st)" using assms by (intro after_scan_holds) simp
  then have "holds holds_none st (after_scan E root1 src chs ?st)" by (rule holds_before) simp
  then show ?thesis using Inr by (simp add: with_source_def Let_def)
qed

text \<open>
  C15: a run gives back every mount it used. However it ends, and whatever the mount tools, the
  operating system and the engine answered, after a run every target has exactly the references it
  had before: those of its source, of its destinations and of the targets of its rule files are
  released.
\<close>

theorem run_gives_back_its_mounts:
  assumes "mgr_ok (xrMgr st)"
  shows "mgr_ok (xrMgr (execute E t st)) \<and> mgr_refs x (xrMgr (execute E t st)) = mgr_refs x (xrMgr st)"
proof -
  let ?st0 = "says E [] LevelInfo [] (start_message E t) st"
  obtain r evs m where c: "resolveChains (veSite E) (veJob E) [] (xrMgr ?st0) = (r, evs, m)" using prod_cases3 by blast
  have m: "mgr_ok m" "mgr_refs x m = mgr_refs x (xrMgr st)" for x
    using resolveChains_refs [OF _ c, of x] assms by simp_all
  let ?st1 = "fold (log_event E []) evs (?st0\<lparr>xrMgr := m\<rparr>)"
  have m1: "xrMgr ?st1 = m" by simp
  obtain q st2 where w: "with_mgr (resolve (veSite E) t (jbSourceSubpath (veJob E))) ?st1 = (q, st2)" by fastforce
  note h = holds_resolve [OF w]
  show ?thesis
  proof (cases r)
    case (Inl e)
    then show ?thesis using c m by (simp add: execute_def Let_def)
  next
    case r: (Inr cp)
    obtain chs prune where cp: "cp = (chs, prune)" by fastforce
    show ?thesis
    proof (cases q)
      case (Inl e)
      then show ?thesis using c r cp w h m m1 by (simp add: execute_def Let_def holds_def holds_none_def)
    next
      case (Inr a)
      obtain root1 stg where a: "a = (root1, stg)" by fastforce
      have h2: "mgr_ok (xrMgr st2)" "mgr_refs x (xrMgr st2) = mgr_refs x m + held_by x stg" for x
        using h m1 m(1) Inr a by (simp_all add: holds_def)
      let ?st3 = "with_source E root1 chs prune st2"
      have h3: "mgr_ok (xrMgr ?st3)" "mgr_refs x (xrMgr ?st3) = mgr_refs x (xrMgr st2)" for x
        using with_source_holds [OF h2(1), of E root1 chs prune] h2(1) by (simp_all add: holds_def holds_none_def)
      have "execute E t st = flush_events E (fold (release_one E) [stg] ?st3)"
        using c r cp w Inr a by (simp add: execute_def Let_def)
      moreover have "sum_list (map (held_by x) [stg]) \<le> mgr_refs x (xrMgr ?st3)" for x
        using h2(2) [of x] h3(2) [of x] refs_nonneg [OF m(1), of x] by simp
      ultimately show ?thesis using releases [OF h3(1), of "[stg]" E] h3(2) h2(2) m(2) by simp
    qed
  qed
qed

theorem run_gives_back_its_mounts_witness:
  "mgr_refs ''a1'' (xrMgr (execute sample_run_env (guest_target ''h1'') sample_run_state)) = 0"
proof -
  have "xrMgr sample_run_state = \<lparr>mgHeap = [], mgEntries = [], mgHealth = [], mgWorld = []\<rparr>"
    by (simp add: sample_run_state_def mgr_start_def)
  then show ?thesis
    using run_gives_back_its_mounts [of sample_run_state sample_run_env "guest_target ''h1''" "''a1''"] by (simp add: mgr_ok_def mgr_refs_def)
qed

end
