(* ===== verification/Run_Preview.thy ===== *)
theory Run_Preview
  imports Run_Mounts
begin

text \<open>
  What a run does not do: a preview that is not confirmed changes nothing, no run makes a
  destination folder it was not told to make, and a prompt nobody answers ends in the fallback the
  job names. That something is not done is stated as independence: the run is the same whatever
  the call would have done.
\<close>

section \<open>Another file system\<close>

abbreviation elsewhere ::
  "(string \<Rightarrow> 'w \<Rightarrow> (goerr + unit) option \<times> 'w) \<Rightarrow> (string \<Rightarrow> string \<Rightarrow> 'w exec_env) \<Rightarrow> 'w run_env \<Rightarrow> 'w run_env" where
  "elsewhere mk x E \<equiv> E\<lparr>veSite := with_mkdir mk (veSite E), veExec := x\<rparr>"

lemmas deep_congs = sum.case_cong prod.case_cong gate_end.case_cong option.case_cong if_cong

lemma prim_elsewhere [simp]:
  "db_write (elsewhere mk x E) f st = db_write E f st" "log_event (elsewhere mk x E) d ev st = log_event E d ev st"
  "flush_events (elsewhere mk x E) st = flush_events E st" "look_ctx (elsewhere mk x E) st = look_ctx E st"
  by (simp_all add: db_write_def log_event_def flush_events_def look_ctx_def)

lemma prim_elsewhere_fun [simp]: "log_event (elsewhere mk x E) = log_event E" "db_write (elsewhere mk x E) = db_write E"
  by (intro ext, simp)+

lemma gate_elsewhere [simp]:
  "askAboutDestination (elsewhere mk x E) d msg can r st = askAboutDestination E d msg can r st"
  "destFailed (elsewhere mk x E) d msg st = destFailed E d msg st"
  "refuse_skip (elsewhere mk x E) d msg st = refuse_skip E d msg st"
  "mayCreate (elsewhere mk x E) = mayCreate E" "mayAsk (elsewhere mk x E) = mayAsk E"
  "gate_message (elsewhere mk x E) t e = gate_message E t e" "timeout_note (elsewhere mk x E) = timeout_note E"
  by (simp_all add: askAboutDestination_def destFailed_def refuse_skip_def mayCreate_def mayAsk_def gate_message_def timeout_note_def Let_def
      cong: deep_congs)

lemma refuse_elsewhere [simp]: "refuse (elsewhere mk x E) policy d msg st = refuse E policy d msg st"
  by (simp add: refuse_def refuse_abort_def)

lemma obey_elsewhere:
  assumes "\<not> (can \<and> fst aa = PromptCreate)"
  shows "obey (elsewhere mk x E) dest t msg can aa st = obey E dest t msg can aa st"
  using assms by (cases aa; cases "fst aa"; simp add: obey_def Let_def cong: deep_congs)

lemma resolve_elsewhere: "with_mgr (resolve (veSite (elsewhere mk x E)) t sub) st = with_mgr (resolve (veSite E) t sub) st"
  by (simp add: with_mgr_def resolve_no_create)

definition not_told :: "'w run_env \<Rightarrow> reply \<Rightarrow> bool" where
  "not_told E r \<longleftrightarrow> \<not> mayCreate E \<and> (mayAsk E \<longrightarrow> r \<noteq> Answered PromptCreate)"

lemma waited_create: "fst (waitForPrompt r f) = PromptCreate \<Longrightarrow> r = Answered PromptCreate"
  by (cases r) (auto split: if_splits)

lemma gate_turn_elsewhere:
  assumes "not_told E r"
  shows "gate_turn (elsewhere mk x E) dest t r st = gate_turn E dest t r st"
proof -
  have a: "ask (elsewhere mk x E) dest t msg can r st = ask E dest t msg can r st" if "can \<longrightarrow> mayAsk E" for msg can st
  proof -
    have "\<not> (can \<and> fst (fst (askAboutDestination E d msg can r st)) = PromptCreate)" for d
      using that assms waited_create by (auto simp: not_told_def)
    then show ?thesis by (simp add: ask_def Let_def case_prod_unfold obey_elsewhere cong: deep_congs)
  qed
  have "mayCreate E = False" using assms by (simp add: not_told_def)
  then show ?thesis
    by (simp add: gate_turn_def resolve_elsewhere [simplified] a Let_def cong: deep_congs)
qed

definition no_folder :: "'w run_env \<Rightarrow> bool" where
  "no_folder E \<longleftrightarrow> vePreview E \<or>
     jbCreateDestDirs (veJob E) \<noteq> Val CreateDirsAlways
     \<and> (jbCreateDestDirs (veJob E) = Val CreateDirsAsk \<longrightarrow> (\<forall>d. Answered PromptCreate \<notin> set (veReplies E d)))"

lemma not_told_replies: "no_folder E \<Longrightarrow> r \<in> set (veReplies E d) \<or> r = NoAnswer \<Longrightarrow> not_told E r"
  by (auto simp: no_folder_def not_told_def mayCreate_def mayAsk_def)

lemma resolveDestination_elsewhere:
  assumes "no_folder E"
  shows "resolveDestination (elsewhere mk x E) dest t st = resolveDestination E dest t st"
proof -
  have "gate_loop (elsewhere mk x E) dest t rs st = gate_loop E dest t rs st" if "set rs \<subseteq> set (veReplies E (jdTarget dest))" for rs
    using that
  proof (induction rs arbitrary: st)
    case Nil
    have "not_told E NoAnswer" using assms not_told_replies by blast
    then show ?case by (simp add: gate_turn_elsewhere)
  next
    case (Cons r rs)
    have "not_told E r" using assms Cons.prems not_told_replies [of E r "jdTarget dest"] by simp
    then show ?case using Cons by (simp add: gate_turn_elsewhere split: prod.split gate_end.split)
  qed
  then show ?thesis by (simp add: resolveDestination_def)
qed

lemma plan_elsewhere [simp]:
  "tell_links (elsewhere mk x E) d msg links st = tell_links E d msg links st"
  "tell_plan (elsewhere mk x E) d c pl st = tell_plan E d c pl st" "tell_scan (elsewhere mk x E) r st = tell_scan E r st"
  "fail_dest (elsewhere mk x E) p msg st = fail_dest E p msg st"
  "diff_options_of (elsewhere mk x E) t c = diff_options_of E t c"
  by (simp_all add: tell_links_def tell_plan_def tell_scan_def counts_message_def [abs_def] fail_dest_def diff_options_of_def Let_def)

lemma scan_dest_elsewhere [simp]: "scan_dest (elsewhere mk x E) src t p st = scan_dest E src t p st"
  by (simp add: scan_dest_def compare_dest_def Let_def cong: deep_congs)

lemma planOne_elsewhere:
  "no_folder E \<Longrightarrow> planOneDestination (elsewhere mk x E) src c dest st = planOneDestination E src c dest st"
  by (simp add: planOneDestination_def resolveDestination_elsewhere Let_def cong: deep_congs)

lemma executeInto_elsewhere: "veExec E = x \<Longrightarrow> executeInto (elsewhere mk x E) root1 p st = executeInto E root1 p st"
  by (simp add: executeInto_def executeOneDestination_def run_engine_def settle_dest_def Let_def cong: deep_congs)

lemma planDestinations_elsewhere:
  assumes "no_folder E" "veExec E = x \<or> vePreview E"
  shows "planDestinations (elsewhere mk x E) root1 src chs dests ps st = planDestinations E root1 src chs dests ps st"
proof -
  have "work_on (elsewhere mk x E) root1 src chs dest st = work_on E root1 src chs dest st" for dest st
    using assms(2) executeInto_elsewhere [of E x mk root1]
    by (elim disjE; simp add: work_on_def planOne_elsewhere [OF assms(1)] Let_def cong: deep_congs)
  then show ?thesis by (induction dests arbitrary: ps st) (simp_all cong: deep_congs)
qed

lemma executePlanned_elsewhere: "veExec E = x \<Longrightarrow> executePlanned (elsewhere mk x E) root1 ps st = executePlanned E root1 ps st"
  by (induction ps arbitrary: st) (simp_all add: executeInto_elsewhere cong: deep_congs)

lemma end_elsewhere [simp]:
  "finish_dests (elsewhere mk x E) ds s summary st = finish_dests E ds s summary st"
  "finish_run (elsewhere mk x E) rs summary st = finish_run E rs summary st"
  "failRun (elsewhere mk x E) msg st = failRun E msg st" "cancelRun (elsewhere mk x E) st = cancelRun E st"
  "abandonPreview (elsewhere mk x E) ps st = abandonPreview E ps st" "conclude (elsewhere mk x E) os st = conclude E os st"
  "wind_up (elsewhere mk x E) st = wind_up E st" "awaitConfirmation (elsewhere mk x E) st = awaitConfirmation E st"
  by (simp_all add: finish_dests_def finish_run_def failRun_def cancelRun_def abandonPreview_def conclude_def wind_up_def
      flushProgress_def flush_one_def [abs_def] awaitConfirmation_def Let_def case_prod_unfold
      cong: deep_congs reply.case_cong)

lemma finalise_elsewhere [simp]:
  "finalise (elsewhere mk x E) ps st = finalise E ps st" "give_up (elsewhere mk x E) ps st = give_up E ps st"
  by (simp_all add: finalise_def give_up_def Let_def cong: deep_congs)

lemma release_elsewhere [simp]: "releaseAll (elsewhere mk x E) ps st = releaseAll E ps st"
  "release_one (elsewhere mk x E) stg st = release_one E stg st"
  by (simp_all add: releaseAll_def release_one_def [abs_def] release_storage_def)

text \<open>Reading rule files resolves targets without leave to create.\<close>

lemma compile_elsewhere: "compile_rules (with_mkdir mk S) label n i rs degr events m = compile_rules S label n i rs degr events m"
proof -
  have "readRuleFile (with_mkdir mk S) path m = readRuleFile S path m" for path m
    by (simp add: readRuleFile_def resolve_no_create ReadFileBounded_def release_storage_def Let_def cong: deep_congs)
  then have "compileRule (with_mkdir mk S) r m = compileRule S r m" for r m
    by (simp add: compileRule_def rulePatterns_def cong: deep_congs)
  then show ?thesis by (induction rs arbitrary: i degr events m) (simp_all cong: deep_congs)
qed

lemma resolveChains_elsewhere: "resolveChains (with_mkdir mk S) j events m = resolveChains S j events m"
  by (simp add: resolveChains_def compile_elsewhere Let_def cong: deep_congs)

definition unconfirmed :: "'w run_env \<Rightarrow> bool" where
  "unconfirmed E \<longleftrightarrow> vePreview E \<and> (veConfirm E = NoAnswer \<or> veConfirm E = Ended)"

lemma await_unconfirmed: "unconfirmed E \<Longrightarrow> \<not> fst (awaitConfirmation E st)"
  by (auto simp: unconfirmed_def awaitConfirmation_def Let_def)

lemma after_scan_elsewhere:
  assumes "no_folder E" "veExec E = x \<or> unconfirmed E"
  shows "after_scan (elsewhere mk x E) root1 src chs st = after_scan E root1 src chs st"
proof -
  have p: "planDestinations (elsewhere mk x E) root1 src chs ds ps st = planDestinations E root1 src chs ds ps st" for ds ps st
    using assms by (intro planDestinations_elsewhere) (auto simp: unconfirmed_def)
  show ?thesis
  proof (cases "unconfirmed E")
    case True
    then have "vePreview E" "\<And>st. fst (awaitConfirmation E st) = False" using await_unconfirmed by (auto simp: unconfirmed_def)
    then show ?thesis by (simp add: after_scan_def p case_prod_unfold cong: deep_congs)
  next
    case False
    then have "veExec E = x" using assms(2) by simp
    then show ?thesis by (simp add: after_scan_def p executePlanned_elsewhere cong: deep_congs bool.case_cong)
  qed
qed

lemma execute_elsewhere:
  assumes "no_folder E" "veExec E = x \<or> unconfirmed E"
  shows "execute (elsewhere mk x E) t st = execute E t st"
proof -
  have "with_source (elsewhere mk x E) root1 chs prune st = with_source E root1 chs prune st" for root1 chs prune st
    using after_scan_elsewhere [OF assms] by (simp add: with_source_def Let_def cong: deep_congs)
  then show ?thesis by (simp add: execute_def start_message_def resolveChains_elsewhere resolve_elsewhere [simplified] Let_def cong: deep_congs)
qed


section \<open>Properties\<close>

text \<open>
  C12: a preview that is not confirmed changes nothing. When nobody confirms the plan, or the run is
  stopped first, the run is the same whatever the engine's calls and the creation of a directory
  would have done: none of them is made.
\<close>

theorem unconfirmed_preview_changes_nothing:
  assumes "vePreview E" and "veConfirm E = NoAnswer \<or> veConfirm E = Ended"
  shows "execute (E\<lparr>veSite := with_mkdir mk (veSite E), veExec := x\<rparr>) t st = execute E t st"
  using assms execute_elsewhere [of E x mk t st] by (simp add: no_folder_def unconfirmed_def)

theorem unconfirmed_preview_changes_nothing_witness:
  "\<forall>mk x. execute (sample_run_env\<lparr>vePreview := True, veSite := with_mkdir mk (veSite sample_run_env), veExec := x\<rparr>)
      (guest_target ''h1'') sample_run_state
    = execute (sample_run_env\<lparr>vePreview := True\<rparr>) (guest_target ''h1'') sample_run_state"
proof (intro allI)
  fix mk and x :: "string \<Rightarrow> string \<Rightarrow> mount_info list exec_env"
  have "veConfirm sample_run_env = NoAnswer" by (simp add: sample_run_env_def)
  then show "execute (sample_run_env\<lparr>vePreview := True, veSite := with_mkdir mk (veSite sample_run_env), veExec := x\<rparr>)
      (guest_target ''h1'') sample_run_state
    = execute (sample_run_env\<lparr>vePreview := True\<rparr>) (guest_target ''h1'') sample_run_state"
    using unconfirmed_preview_changes_nothing [where E = "sample_run_env\<lparr>vePreview := True\<rparr>" and mk = mk and x = x] by simp
qed

text \<open>
  C16: folders are made only when told. A run creates no directory when it resolves its targets
  unless its job creates missing folders always, or asks and somebody answered that it should;
  a preview does so in no case, also when it is confirmed.
\<close>

theorem folders_are_made_only_when_told:
  assumes "vePreview E
     \<or> jbCreateDestDirs (veJob E) \<noteq> Val CreateDirsAlways
       \<and> (jbCreateDestDirs (veJob E) = Val CreateDirsAsk \<longrightarrow> (\<forall>d. Answered PromptCreate \<notin> set (veReplies E d)))"
  shows "execute (E\<lparr>veSite := with_mkdir mk (veSite E)\<rparr>) t st = execute E t st"
  using assms execute_elsewhere [of E "veExec E" mk t st] by (simp add: no_folder_def)

theorem folders_are_made_only_when_told_witness:
  "\<forall>mk. execute (sample_run_env\<lparr>veSite := with_mkdir mk (veSite sample_run_env)\<rparr>) (guest_target ''h1'') sample_run_state
    = execute sample_run_env (guest_target ''h1'') sample_run_state"
proof (intro allI)
  fix mk
  have "veReplies sample_run_env d = []" for d by (simp add: sample_run_env_def)
  moreover have "jbCreateDestDirs cached_job \<noteq> Val CreateDirsAlways"
    by (simp add: cached_job_def sample_job_def job_ApplyDefaults_def or_default_def)
  ultimately show "execute (sample_run_env\<lparr>veSite := with_mkdir mk (veSite sample_run_env)\<rparr>) (guest_target ''h1'') sample_run_state
    = execute sample_run_env (guest_target ''h1'') sample_run_state"
    by (intro folders_are_made_only_when_told) simp
qed

text \<open>
  a prompt nobody answers ends in the fallback. When a destination cannot be resolved, the job
  prompts, and nobody ever answers, the gate does not wait on: the destination is failed and the
  run stopped when the fallback aborts, and otherwise skipped.
\<close>

theorem unanswered_prompt_falls_back:
  assumes "veReplies E (jdTarget dest) = []" and "jbUnavailable (veJob E) = Val PolicyPrompt"
    and "\<forall>n. \<not> veCancelAt E n" and "\<not> xrStopped st"
    and "resolveWith (veSite E) t (jdSubpath dest) (mayCreate E) (xrMgr st) = (Inl e, m)"
    and "resolveDestination E dest t st = (g, st')"
  shows "\<exists>o1. g = Refused o1 \<and> doUnavailable o1
     \<and> doStatus o1 = Some (if jbPromptFallback (veJob E) = Val FallbackAbort then DestFailed else DestSkippedUnavailable)
     \<and> (xrStopped st' \<longleftrightarrow> jbPromptFallback (veJob E) = Val FallbackAbort)"
proof -
  let ?st1 = "st\<lparr>xrMgr := m\<rparr>" and ?f = "jbPromptFallback (veJob E)"
  have w: "with_mgr (resolveWith (veSite E) t (jdSubpath dest) (mayCreate E)) st = (Inl e, ?st1)"
    using assms(5) by (simp add: with_mgr_def)
  have quiet: "\<not> fst (look_ctx E x)" "xrStopped (snd (look_ctx E x)) = xrStopped x" if "\<not> xrStopped x" for x
    using that assms(3) by (simp_all add: look_ctx_def)
  have asked: "xrStopped (snd (askAboutDestination E d msg can NoAnswer x)) = xrStopped x" if "\<not> xrStopped x" for d msg can x
    using that quiet by (simp add: askAboutDestination_def Let_def case_prod_unfold after_wait_def)
  let ?msg = "gate_message E t e" and ?can = "missing_folder e \<and> mayAsk E"
  let ?a = "askAboutDestination E (jdTarget dest) ?msg ?can NoAnswer ?st1"
  let ?x = "snd (look_ctx E (snd ?a))"
  have x: "\<not> fst (look_ctx E (snd ?a))" "\<not> xrStopped ?x"
    using asked [of ?st1 "jdTarget dest" ?msg ?can] assms(4) quiet [of "snd ?a"] by simp_all
  have "(g, st') = obey E dest t ?msg ?can (fst ?a) ?x"
    using assms(1,2,6) w x(1) by (simp add: resolveDestination_def gate_turn_def ask_def Let_def case_prod_unfold)
  then have g: "(g, st') = refuse E (if ?f = Val FallbackAbort then Val PolicyAbort else Val PolicySkip) (jdTarget dest)
      (?msg @ timeout_note E) ?x"
    by (simp add: obey_def Let_def split: if_splits)
  show ?thesis
  proof (cases "?f = Val FallbackAbort")
    case True
    then show ?thesis using g by (simp add: refuse_def refuse_abort_def destFailed_def Let_def)
  next
    case False
    then show ?thesis using g x(2) by (simp add: refuse_def refuse_skip_def Let_def)
  qed
qed

theorem unanswered_prompt_falls_back_witness:
  "\<exists>o1. fst (resolveDestination (sample_run_env\<lparr>veJob := cached_job\<lparr>jbUnavailable := Val PolicyPrompt, jbPromptFallback := Val FallbackAbort\<rparr>\<rparr>)
        \<lparr>jdTarget = ''b2'', jdSubpath = ''backup''\<rparr> ((guest_target ''h1'')\<lparr>tgType := TargetOther ''nfs''\<rparr>) sample_run_state) = Refused o1
     \<and> doStatus o1 = Some DestFailed"
proof -
  let ?E = "sample_run_env\<lparr>veJob := cached_job\<lparr>jbUnavailable := Val PolicyPrompt, jbPromptFallback := Val FallbackAbort\<rparr>\<rparr>"
  let ?d = "\<lparr>jdTarget = ''b2'', jdSubpath = ''backup''\<rparr>" and ?t = "(guest_target ''h1'')\<lparr>tgType := TargetOther ''nfs''\<rparr>"
  obtain g st' where g: "resolveDestination ?E ?d ?t sample_run_state = (g, st')" by fastforce
  obtain e where e: "resolveWith (veSite ?E) ?t (jdSubpath ?d) (mayCreate ?E) (xrMgr sample_run_state) = (Inl e, xrMgr sample_run_state)"
    by (simp add: resolveWith_def For_def Let_def)
  have "veReplies ?E (jdTarget ?d) = []" "\<not> xrStopped sample_run_state" by (simp_all add: sample_run_env_def sample_run_state_def)
  from unanswered_prompt_falls_back [OF this(1) _ _ this(2) e g] show ?thesis using g by auto
qed

end
