(* ===== verification/Scheduler.thy ===== *)
theory Scheduler
  imports Run_Registry Run_Store
begin

text \<open>
  Firing jobs on their schedules (\<^verbatim>\<open>src/internal/scheduler/scheduler.go\<close>, and the queries
  \<open>DueJobs\<close> and \<open>SetNextRun\<close> of \<^verbatim>\<open>src/internal/store/schedule.go\<close>). The jobs table is a list
  of jobs; a next firing of the zero time is stored as the empty text. The runner is reached
  through its two methods, and what it must keep of them is a locale, which the registry
  interprets.
\<close>

section \<open>The jobs table\<close>

definition is_due :: "gotime \<Rightarrow> job \<Rightarrow> bool" where
  "is_due now j \<longleftrightarrow> jbEnabled j \<and> jbScheduleCron j \<noteq> [] \<and> jbNextRunAt j \<noteq> zero_time \<and> stored_le (jbNextRunAt j) (truncate_second now)"

definition DueJobs :: "goerr option \<Rightarrow> gotime \<Rightarrow> job list \<Rightarrow> goerr + job list" where
  "DueJobs fault now jobs =
     (case fault of
        Some e \<Rightarrow> Inl (wrap ''looking for scheduled jobs that are due: '' e)
      | None \<Rightarrow> Inr (sort_slice (\<lambda>a b. stored_before (jbNextRunAt a) (jbNextRunAt b)) (filter (is_due now) jobs)))"

definition SetNextRun :: "goerr option \<Rightarrow> string \<Rightarrow> gotime \<Rightarrow> job list \<Rightarrow> goerr option \<times> job list" where
  "SetNextRun fault jobID nxt jobs =
     sql_exec fault (''recording the next run time of job '' @ jobID)
       (update_where (\<lambda>j. jbID j = jobID) (\<lambda>j. j\<lparr>jbNextRunAt := nxt\<rparr>)) jobs"


section \<open>The scheduler\<close>

record 'r run_api =
  raStartScheduled :: "job \<Rightarrow> 'r \<Rightarrow> (goerr + string) \<times> 'r"
  raActiveForJob :: "string \<Rightarrow> 'r \<Rightarrow> bool"

datatype sched_line =
    CannotLook goerr
  | Missed string
  | Unparsable string goerr
  | NotRecorded string goerr
  | StillGoing string
  | StartedBefore string
  | CouldNotStart string goerr
  | Started string string

record 'r sched_state =
  sxJobs :: "job list"
  sxRunner :: 'r
  sxLog :: "sched_line list"

text \<open>The cron library, the answers of the database, and how \<open>%q\<close> writes a text.\<close>

record sched_env =
  seCron :: cron
  seDueFault :: "goerr option"
  seSetFault :: "string \<Rightarrow> goerr option"
  seQuote :: "string \<Rightarrow> string"

definition log_line :: "sched_line \<Rightarrow> 'r sched_state \<Rightarrow> 'r sched_state" where
  "log_line l st = st\<lparr>sxLog := sxLog st @ [l]\<rparr>"

definition reschedule :: "sched_env \<Rightarrow> gotime \<Rightarrow> job \<Rightarrow> 'r sched_state \<Rightarrow> bool \<times> 'r sched_state" where
  "reschedule env now j st =
     (let (fine, nxt, st) =
            (case NextRun (seQuote env) (seCron env) (jbScheduleCron j) now of
               Inr nxt \<Rightarrow> (True, nxt, st)
             | Inl e \<Rightarrow> (False, zero_time, log_line (Unparsable (jbID j) e) st));
          (err, jobs) = SetNextRun (seSetFault env (jbID j)) (jbID j) nxt (sxJobs st);
          st = st\<lparr>sxJobs := jobs\<rparr>
      in case err of Some e \<Rightarrow> (False, log_line (NotRecorded (jbID j) e) st) | None \<Rightarrow> (fine, st))"

definition fire :: "'r run_api \<Rightarrow> sched_env \<Rightarrow> gotime \<Rightarrow> job \<Rightarrow> 'r sched_state \<Rightarrow> 'r sched_state" where
  "fire api env now j st =
     (let (fine, st) = reschedule env now j st in
      if \<not> fine then st
      else if raActiveForJob api (jbID j) (sxRunner st) then log_line (StillGoing (jbID j)) st
      else
        let (r, rn) = raStartScheduled api j (sxRunner st); st = st\<lparr>sxRunner := rn\<rparr>
        in case r of
             Inl e \<Rightarrow> log_line (if errors_Is e ErrAlreadyRunning then StartedBefore (jbID j) else CouldNotStart (jbID j) e) st
           | Inr runID \<Rightarrow> log_line (Started runID (jbID j)) st)"

definition Tick :: "'r run_api \<Rightarrow> sched_env \<Rightarrow> gotime \<Rightarrow> 'r sched_state \<Rightarrow> 'r sched_state" where
  "Tick api env now st =
     (case DueJobs (seDueFault env) now (sxJobs st) of
        Inl e \<Rightarrow> log_line (CannotLook e) st
      | Inr due \<Rightarrow> fold (fire api env now) due st)"

definition catchUpMissed :: "sched_env \<Rightarrow> gotime \<Rightarrow> 'r sched_state \<Rightarrow> 'r sched_state" where
  "catchUpMissed env now st =
     (case DueJobs (seDueFault env) now (sxJobs st) of
        Inl e \<Rightarrow> log_line (CannotLook e) st
      | Inr due \<Rightarrow> fold (\<lambda>j st. snd (reschedule env now j (log_line (Missed (jbID j)) st))) due st)"


section \<open>What is due\<close>

lemma truncate_le: "truncate_second t \<le> t" "truncate_second t mod 1000000000 = 0"
  by (simp_all add: truncate_second_def minus_mod_eq_mult_div)

lemma due_whole_second:
  assumes "t mod 1000000000 = 0"
  shows "stored_le t (truncate_second now) \<longleftrightarrow> t \<le> now"
proof -
  have "stored_le t (truncate_second now) \<longleftrightarrow> t \<le> truncate_second now"
    using stored_whole [OF truncate_le(2) assms] by auto
  also have "\<dots> \<longleftrightarrow> t \<le> now"
  proof
    assume "t \<le> now"
    then have "t div 1000000000 \<le> now div 1000000000" by (rule zdiv_mono1) simp
    then show "t \<le> truncate_second now"
      using assms div_mult_mod_eq [of t 1000000000] by (simp add: truncate_second_def minus_mod_eq_mult_div)
  qed (use truncate_le(1) [of now] in linarith)
  finally show ?thesis .
qed

text \<open>
  What the cron library promises of \<open>Next\<close>: a firing strictly later, on a whole second, or the
  zero time.
\<close>

definition cron_ok :: "cron \<Rightarrow> bool" where
  "cron_ok cron \<longleftrightarrow> (\<forall>e sc t. cron e = Inr sc \<longrightarrow> scNext sc t = zero_time \<or> t < scNext sc t \<and> scNext sc t mod 1000000000 = 0)"

lemma NextRun_later:
  "cron_ok cron \<Longrightarrow> NextRun uq cron e now = Inr nxt \<Longrightarrow> nxt = zero_time \<or> now < nxt \<and> nxt mod 1000000000 = 0"
  by (auto simp: cron_ok_def NextRun_def ParseSchedule_def Let_def split: sum.splits option.splits if_splits)

lemma not_due_later: "nxt = zero_time \<or> now < nxt \<and> nxt mod 1000000000 = 0 \<Longrightarrow> \<not> is_due now (j\<lparr>jbNextRunAt := nxt\<rparr>)"
  using due_whole_second [of "nxt" now] by (auto simp: is_due_def)

text \<open>The jobs a rescheduling leaves: those of that ID have moved on, the others are untouched.\<close>

definition undue :: "gotime \<Rightarrow> string list \<Rightarrow> job list \<Rightarrow> job list \<Rightarrow> bool" where
  "undue now ids jobs jobs' \<longleftrightarrow>
     (\<forall>j \<in> set jobs'. if jbID j \<in> set ids then \<not> is_due now j else j \<in> set jobs)"

lemma undue_refl: "undue now [] jobs jobs"
  by (simp add: undue_def)

lemma undue_step:
  assumes "undue now ids jobs jobs1" "nxt = zero_time \<or> now < nxt \<and> nxt mod 1000000000 = 0"
  shows "undue now (i # ids) jobs (update_where (\<lambda>j. jbID j = i) (\<lambda>j. j\<lparr>jbNextRunAt := nxt\<rparr>) jobs1)"
  using assms(1) not_due_later [OF assms(2)] unfolding undue_def update_where_def by fastforce

lemma SetNextRun_ok: "SetNextRun None i nxt jobs = (None, update_where (\<lambda>j. jbID j = i) (\<lambda>j. j\<lparr>jbNextRunAt := nxt\<rparr>) jobs)"
  by (simp add: SetNextRun_def sql_exec_def)

lemma log_line_simps [simp]: "sxJobs (log_line l st) = sxJobs st" "sxRunner (log_line l st) = sxRunner st" "sxLog (log_line l st) = sxLog st @ [l]"
  by (simp_all add: log_line_def)

lemma reschedule_runner [simp]: "sxRunner (snd (reschedule env now j st)) = sxRunner st"
  by (auto simp: reschedule_def Let_def split: sum.split option.split prod.split)

lemma reschedule_jobs:
  assumes "cron_ok (seCron env)" "seSetFault env = (\<lambda>_. None)" "undue now ids jobs (sxJobs st)"
  shows "undue now (jbID j # ids) jobs (sxJobs (snd (reschedule env now j st)))"
proof (cases "NextRun (seQuote env) (seCron env) (jbScheduleCron j) now")
  case (Inl e)
  then show ?thesis using undue_step [OF assms(3), of zero_time] assms(2) by (simp add: reschedule_def SetNextRun_ok)
next
  case (Inr nxt)
  then show ?thesis using undue_step [OF assms(3) NextRun_later [OF assms(1) Inr]] assms(2) by (simp add: reschedule_def SetNextRun_ok)
qed

lemma fire_jobs: "sxJobs (fire api env now j st) = sxJobs (snd (reschedule env now j st))"
  by (auto simp: fire_def Let_def split: prod.split sum.split)

lemma fold_undue:
  assumes "\<And>j st ids. undue now ids jobs (sxJobs st) \<Longrightarrow> undue now (jbID j # ids) jobs (sxJobs (f j st))"
  shows "undue now ids jobs (sxJobs st) \<Longrightarrow> undue now (map jbID (rev due) @ ids) jobs (sxJobs (fold f due st))"
proof (induction due arbitrary: st ids)
  case (Cons j due)
  then show ?case using Cons.IH [OF assms [OF Cons.prems, of j]] by simp
qed simp

lemma nothing_due:
  assumes "undue now ids jobs jobs'" "\<And>j. j \<in> set jobs \<Longrightarrow> is_due now j \<Longrightarrow> jbID j \<in> set ids"
  shows "filter (is_due now) jobs' = []"
  using assms unfolding undue_def filter_empty_conv by metis

lemma all_fired:
  assumes "\<And>j st ids. undue now ids (sxJobs st0) (sxJobs st) \<Longrightarrow> undue now (jbID j # ids) (sxJobs st0) (sxJobs (f j st))"
    and "DueJobs None now (sxJobs st0) = Inr due"
  shows "filter (is_due now) (sxJobs (fold f due st0)) = []"
proof (rule nothing_due [OF fold_undue [OF assms(1) undue_refl]])
  show "jbID j \<in> set (map jbID (rev due) @ [])" if "j \<in> set (sxJobs st0)" "is_due now j" for j
    using assms(2) that by (auto simp: DueJobs_def)
qed


section \<open>The runner's contract\<close>

text \<open>
  What the scheduler relies on: a start of a job that is already going fails, one that works leaves
  the job going, and no start ends another run.
\<close>

definition is_start :: "string \<Rightarrow> sched_line \<Rightarrow> bool" where
  "is_start k l = (case l of Started _ k' \<Rightarrow> k' = k | _ \<Rightarrow> False)"

definition starts :: "string \<Rightarrow> sched_line list \<Rightarrow> nat" where
  "starts k ls = length (filter (is_start k) ls)"

lemma starts_simps [simp]: "starts k [] = 0" "starts k (l # ls) = (if is_start k l then 1 else 0) + starts k ls"
  "starts k (ls @ ls') = starts k ls + starts k ls'"
  by (simp_all add: starts_def)

locale run_starter =
  fixes startr :: "job \<Rightarrow> 'r \<Rightarrow> (goerr + string) \<times> 'r"
    and act :: "string \<Rightarrow> 'r \<Rightarrow> bool"
  assumes start_active: "startr j r = (Inr i, r') \<Longrightarrow> act (jbID j) r'"
    and start_keeps: "startr j r = (q, r') \<Longrightarrow> act x r \<Longrightarrow> act x r'"
begin

abbreviation api :: "'r run_api" where "api \<equiv> \<lparr>raStartScheduled = startr, raActiveForJob = act\<rparr>"

lemma reschedule_starts: "starts k (sxLog (snd (reschedule env now j st))) = starts k (sxLog st)"
  by (auto simp: reschedule_def is_start_def Let_def split: sum.split option.split prod.split)

lemma fire_potential:
  "starts k (sxLog (fire api env now j st)) + (if act k (sxRunner (fire api env now j st)) then 0 else 1)
     \<le> starts k (sxLog st) + (if act k (sxRunner st) then 0 else 1)"
proof -
  obtain fine st1 where r: "reschedule env now j st = (fine, st1)" by fastforce
  have st1: "starts k (sxLog st1) = starts k (sxLog st)" "sxRunner st1 = sxRunner st"
    using reschedule_starts [of k env now j st] reschedule_runner [of env now j st] r by simp_all
  obtain q rn where q: "startr j (sxRunner st1) = (q, rn)" by fastforce
  consider "\<not> fine" | "fine" "act (jbID j) (sxRunner st1)" | e where "fine" "\<not> act (jbID j) (sxRunner st1)" "q = Inl e"
    | i where "fine" "\<not> act (jbID j) (sxRunner st1)" "q = Inr i" by (cases q) auto
  then show ?thesis
  proof cases
    case 3
    then show ?thesis using r q st1 start_keeps [OF q, of k] by (auto simp: fire_def is_start_def)
  next
    case 4
    then show ?thesis using r q st1 start_keeps [OF q, of k] start_active [OF q [unfolded 4(3)]]
      by (auto simp: fire_def is_start_def)
  qed (use r st1 in \<open>simp_all add: fire_def is_start_def\<close>)
qed

lemma Tick_potential:
  "starts k (sxLog (Tick api env now st)) \<le> starts k (sxLog st) + (if act k (sxRunner st) then 0 else 1)"
proof -
  have "starts k (sxLog (fold (fire api env now) due st)) + (if act k (sxRunner (fold (fire api env now) due st)) then 0 else 1)
      \<le> starts k (sxLog st) + (if act k (sxRunner st) then 0 else 1)" for due
  proof (induction due arbitrary: st)
    case (Cons j due)
    show ?case using order_trans [OF Cons [of "fire api env now j st"] fire_potential [of k env now j st]] by simp
  qed simp
  then have "starts k (sxLog (fold (fire api env now) due st)) \<le> starts k (sxLog st) + (if act k (sxRunner st) then 0 else 1)" for due
    using le_trans [OF le_add1] by blast
  then show ?thesis by (cases "DueJobs (seDueFault env) now (sxJobs st)") (simp_all add: Tick_def is_start_def)
qed

end

definition registry_api :: "(string \<Rightarrow> string) \<Rightarrow> start_db \<Rightarrow> gotime \<Rightarrow> runner run_api" where
  "registry_api uq db now = \<lparr>raStartScheduled = (\<lambda>j. start uq db now j False TriggerSchedule), raActiveForJob = ActiveForJob\<rparr>"

lemma start_cases:
  assumes "start uq db now j pv tr r = (q, r')"
  shows "(isl q \<and> (\<forall>x. goget (rnByJob r') x = goget (rnByJob r) x))
    \<or> (\<not> isl q \<and> goget (rnByJob r') (jbID j) \<noteq> None \<and> (\<forall>x. x \<noteq> jbID j \<longrightarrow> goget (rnByJob r') x = goget (rnByJob r) x))"
proof -
  consider "isl q" "r' = r"
    | r1 where "start_reserve (jbID j) r = Inr r1" "isl q" "r' = start_failed (jbID j) r1"
    | r1 i where "start_reserve (jbID j) r = Inr r1" "q = Inr i" "r' = start_publish (new_handle now i (jbID j) (destTargetIDs j) pv) r1"
  proof (cases "jbDestinations j = [] \<or> sdTarget db (jbSourceTarget j) \<noteq> None \<or> List.map_filter (sdTarget db) (destTargetIDs j) \<noteq> []")
    case True
    then have "isl q" "r' = r" using assms unfolding start_def by (auto split: if_splits option.splits list.splits)
    then show ?thesis by (rule that(1))
  next
    case False
    then have e: "start uq db now j pv tr r =
        (case start_reserve (jbID j) r of
           Inl e \<Rightarrow> (Inl e, r)
         | Inr r \<Rightarrow> (case sdCreate db tr of
              Inl e \<Rightarrow> (Inl e, start_failed (jbID j) r)
            | Inr runID \<Rightarrow> (Inr runID, start_publish (new_handle now runID (jbID j) (destTargetIDs j) pv) r)))"
      by (simp add: start_def)
    show ?thesis
    proof (cases "start_reserve (jbID j) r")
      case (Inl er)
      then have "q = Inl er" "r' = r" using assms e by simp_all
      then show ?thesis using that(1) by simp
    next
      case (Inr r1)
      show ?thesis
      proof (cases "sdCreate db tr")
        case (Inl er)
        then have "q = Inl er" "r' = start_failed (jbID j) r1" using assms e \<open>_ = Inr r1\<close> by simp_all
        then show ?thesis using that(2) [OF Inr] by simp
      next
        case (Inr i)
        then have "q = Inr i" "r' = start_publish (new_handle now i (jbID j) (destTargetIDs j) pv) r1"
          using assms e \<open>_ = Inr r1\<close> by simp_all
        then show ?thesis using that(3) \<open>_ = Inr r1\<close> by blast
      qed
    qed
  qed
  moreover have "goget (rnByJob r) (jbID j) = None \<and> rnByJob r1 = goput (jbID j) [] (rnByJob r)" if "start_reserve (jbID j) r = Inr r1" for r1
    using that by (auto simp: start_reserve_def split: if_splits)
  ultimately show ?thesis
    by cases (auto simp: start_failed_def start_publish_def new_handle_def gm.get_put AList.delete_conv')
qed

interpretation registry: run_starter "\<lambda>j. start uq db now j False TriggerSchedule" ActiveForJob for uq db now
proof unfold_locales
  fix j r i r' q x
  show "ActiveForJob (jbID j) r'" if "start uq db now j False TriggerSchedule r = (Inr i, r')"
    using start_cases [OF that] by (auto simp: ActiveForJob_def)
  show "ActiveForJob x r'" if "start uq db now j False TriggerSchedule r = (q, r')" "ActiveForJob x r"
    using start_cases [OF that(1)] that(2) by (cases "x = jbID j") (auto simp: ActiveForJob_def)
qed


section \<open>Properties\<close>

text \<open>
  a tick starts a job at most once. Over the registry of runs, the starts a tick logs for one job
  are at most one, and none when a run of the job is already going, whatever the database and the
  cron library answer.
\<close>

theorem tick_starts_once:
  "starts k (sxLog (Tick (registry_api uq db now') env now st))
     \<le> starts k (sxLog st) + (if ActiveForJob k (sxRunner st) then 0 else 1)"
  unfolding registry_api_def by (rule registry.Tick_potential)

text \<open>
  a firing is used up. When the jobs table can be written, no job is due any more after a tick or
  a catch-up at that instant, also when its run could not be started or its schedule no longer
  parses; and the catch-up starts nothing.
\<close>

theorem firings_are_used_up:
  assumes "cron_ok (seCron env)" "seDueFault env = None" "seSetFault env = (\<lambda>_. None)"
  shows "filter (is_due now) (sxJobs (Tick api env now st)) = []
    \<and> filter (is_due now) (sxJobs (catchUpMissed env now st)) = [] \<and> sxRunner (catchUpMissed env now st) = sxRunner st"
proof (intro conjI)
  obtain due where d: "DueJobs None now (sxJobs st) = Inr due" by (simp add: DueJobs_def)
  show "filter (is_due now) (sxJobs (Tick api env now st)) = []"
    unfolding Tick_def assms(2) d sum.case
    by (rule all_fired [OF _ d]) (simp only: fire_jobs reschedule_jobs [OF assms(1,3)])
  show "filter (is_due now) (sxJobs (catchUpMissed env now st)) = []"
    unfolding catchUpMissed_def assms(2) d sum.case
    by (rule all_fired [OF _ d]) (simp only: log_line_simps reschedule_jobs [OF assms(1,3)])
  have "sxRunner (fold (\<lambda>j st. snd (reschedule env now j (log_line (Missed (jbID j)) st))) js st) = sxRunner st" for js
    by (induction js arbitrary: st) simp_all
  then show "sxRunner (catchUpMissed env now st) = sxRunner st"
    by (simp add: catchUpMissed_def split: sum.split)
qed

text \<open>
  no due job is passed over silently. When the due jobs could be read, each of them has a line in
  the log after the tick: started, refused, still going, or with a schedule that could not be
  parsed or recorded.
\<close>

definition line_job :: "sched_line \<Rightarrow> string option" where
  "line_job l = (case l of CannotLook _ \<Rightarrow> None | Missed k \<Rightarrow> Some k | Unparsable k _ \<Rightarrow> Some k | NotRecorded k _ \<Rightarrow> Some k
     | StillGoing k \<Rightarrow> Some k | StartedBefore k \<Rightarrow> Some k | CouldNotStart k _ \<Rightarrow> Some k | Started _ k \<Rightarrow> Some k)"

lemma reschedule_log:
  "set (sxLog st) \<subseteq> set (sxLog (snd (reschedule env now j st)))
   \<and> (fst (reschedule env now j st) \<or> Some (jbID j) \<in> line_job ` set (sxLog (snd (reschedule env now j st))))"
  by (auto simp: reschedule_def line_job_def Let_def image_Un split: sum.split option.split prod.split)

lemma fire_log:
  "set (sxLog st) \<subseteq> set (sxLog (fire api env now j st)) \<and> Some (jbID j) \<in> line_job ` set (sxLog (fire api env now j st))"
proof -
  obtain fine st1 where r: "reschedule env now j st = (fine, st1)" by fastforce
  show ?thesis using reschedule_log [of st env now j] r
    by (cases fine) (auto simp: fire_def line_job_def image_Un Let_def split: prod.split sum.split)
qed

theorem due_jobs_are_logged:
  assumes "seDueFault env = None"
  shows "(Some \<circ> jbID) ` set (filter (is_due now) (sxJobs st)) \<subseteq> line_job ` set (sxLog (Tick api env now st))"
proof -
  have "set (sxLog st) \<subseteq> set (sxLog (fold (fire api env now) js st))
      \<and> (Some \<circ> jbID) ` set js \<subseteq> line_job ` set (sxLog (fold (fire api env now) js st))" for js
  proof (induction js arbitrary: st)
    case (Cons j js)
    show ?case using fire_log [of st api env now j] Cons [of "fire api env now j st"] by auto
  qed simp
  from this [of "sort_slice (\<lambda>a b. stored_before (jbNextRunAt a) (jbNextRunAt b)) (filter (is_due now) (sxJobs st))"]
  show ?thesis using assms by (simp add: Tick_def DueJobs_def)
qed

text \<open>
  truncation decides by time. For a firing on a whole second, as the cron library gives them, the
  comparison of the stored texts with the truncated instant is the comparison of the instants.
\<close>

theorem due_exactly_when_reached:
  assumes "jbNextRunAt j mod 1000000000 = 0" "jbNextRunAt j \<noteq> zero_time"
  shows "is_due now j \<longleftrightarrow> jbEnabled j \<and> jbScheduleCron j \<noteq> [] \<and> jbNextRunAt j \<le> now"
  using due_whole_second [OF assms(1)] assms(2) by (simp add: is_due_def)

text \<open>A job every minute, due a second ago, and the schedule the cron library gives for it.\<close>

definition every_minute :: cron where
  "every_minute e = Inr \<lparr>scDelay = Some 60000000000, scNext = (\<lambda>t. (t div 60000000000 + 1) * 60000000000)\<rparr>"

definition minute_job :: job where
  "minute_job = sample_job\<lparr>jbScheduleCron := ''@every 1m'', jbNextRunAt := 120000000000\<rparr>"

definition minute_env :: sched_env where
  "minute_env = \<lparr>seCron = every_minute, seDueFault = None, seSetFault = (\<lambda>_. None), seQuote = id\<rparr>"

definition minute_state :: "runner sched_state" where
  "minute_state = \<lparr>sxJobs = [minute_job], sxRunner = New, sxLog = []\<rparr>"

lemma every_minute_ok: "cron_ok every_minute"
proof -
  have "t < (t div 60000000000 + 1) * 60000000000" for t :: int
    using div_mult_mod_eq [of t 60000000000] pos_mod_bound [of 60000000000 t] by (simp add: distrib_right)
  moreover have "(k * 60000000000) mod 1000000000 = (0 :: int)" for k
    by (simp add: mod_eq_0_iff_dvd dvd_mult)
  ultimately show ?thesis by (auto simp: cron_ok_def every_minute_def)
qed

lemma minute_due: "is_due 121500000000 minute_job"
  using due_whole_second [of 120000000000 121500000000]
  by (simp add: is_due_def minute_job_def sample_job_def job_ApplyDefaults_def zero_time_def)

theorem firings_are_used_up_witness:
  "filter (is_due 121500000000) (sxJobs (Tick (registry_api id \<lparr>sdTarget = (\<lambda>_. None), sdCreate = (\<lambda>_. Inr ''r1'')\<rparr> 0) minute_env 121500000000 minute_state)) = []"
  using firings_are_used_up [of minute_env 121500000000 "registry_api id \<lparr>sdTarget = (\<lambda>_. None), sdCreate = (\<lambda>_. Inr ''r1'')\<rparr> 0" minute_state]
    every_minute_ok by (simp add: minute_env_def)

theorem due_jobs_are_logged_witness:
  "Some ''j1'' \<in> line_job ` set (sxLog (Tick (registry_api id \<lparr>sdTarget = (\<lambda>_. None), sdCreate = (\<lambda>_. Inr ''r1'')\<rparr> 0) minute_env 121500000000 minute_state))"
proof -
  have "jbID minute_job = ''j1''" by (simp add: minute_job_def sample_job_def job_ApplyDefaults_def)
  then have "Some ''j1'' \<in> (Some \<circ> jbID) ` set (filter (is_due 121500000000) (sxJobs minute_state))"
    using minute_due by (simp add: minute_state_def)
  then show ?thesis
    using due_jobs_are_logged [of minute_env 121500000000 minute_state "registry_api id \<lparr>sdTarget = (\<lambda>_. None), sdCreate = (\<lambda>_. Inr ''r1'')\<rparr> 0"]
    by (auto simp: minute_env_def)
qed

theorem due_exactly_when_reached_witness: "is_due 120000000000 minute_job"
  using due_exactly_when_reached [of minute_job 120000000000]
  by (simp add: minute_job_def sample_job_def job_ApplyDefaults_def zero_time_def)

end
