(* ===== verification/Webhooks.thy ===== *)
theory Webhooks
  imports Run_Store
begin

text \<open>
  The table of outbound callbacks (\<^verbatim>\<open>src/internal/store/webhooks.go\<close>): their validation, the
  statements on the table, and the rows a fresh installation is seeded with.
\<close>

section \<open>Webhooks\<close>

record webhook =
  whID :: string
  whJobID :: string
  whURL :: string
  whEvents :: "string list"
  whSecret :: string
  whEnabled :: bool
  whFormat :: string
  whMinInterval :: int
  whCreatedAt :: gotime
  whUpdatedAt :: gotime

definition FormatJSON :: string where "FormatJSON = ''json''"
definition FormatCN4M :: string where "FormatCN4M = ''cn4m''"
definition FormatDiscord :: string where "FormatDiscord = ''discord''"

definition BestEffort :: "webhook \<Rightarrow> bool" where
  "BestEffort w \<longleftrightarrow> whFormat w = FormatCN4M \<or> whFormat w = FormatDiscord"


definition KnownEvents :: "string list" where
  "KnownEvents = [''run_started'', ''progress'', ''target_unavailable_prompt'', ''run_completed'', ''run_failed'']"

definition Subscribes :: "webhook \<Rightarrow> string \<Rightarrow> bool" where
  "Subscribes w event \<longleftrightarrow> whEnabled w \<and> (whEvents w = [] \<or> event \<in> set (whEvents w))"

text \<open>\<open>url.Parse\<close> is an argument: the scheme and the host it finds, or why it does not parse.\<close>

definition format_ok :: "string \<Rightarrow> bool" where
  "format_ok f \<longleftrightarrow> f \<in> {FormatJSON, FormatCN4M, FormatDiscord}"

definition bad_event :: "webhook \<Rightarrow> string option" where
  "bad_event w = find (\<lambda>e. e \<notin> set KnownEvents) (whEvents w)"

definition url_error :: "(string \<Rightarrow> string) \<Rightarrow> (string \<Rightarrow> goerr + string \<times> string) \<Rightarrow> string \<Rightarrow> goerr option" where
  "url_error uq parse trimmed =
     (if trimmed = [] then Some (new_error ''a callback URL is required'' [])
      else case parse trimmed of
        Inl e \<Rightarrow> Some (wrap (fmt_q uq trimmed @ '' is not a valid URL: '') e)
      | Inr (scheme, host) \<Rightarrow>
          if scheme \<noteq> ''http'' \<and> scheme \<noteq> ''https''
          then Some (new_error (''the callback URL must start with http:// or https://, got '' @ fmt_q uq scheme) [])
          else if host = [] then Some (new_error (fmt_q uq trimmed @ '' has no host'') []) else None)"

definition webhook_Validate :: "(string \<Rightarrow> string) \<Rightarrow> (string \<Rightarrow> goerr + string \<times> string) \<Rightarrow> webhook \<Rightarrow> goerr option" where
  "webhook_Validate uq parse w =
     (case url_error uq parse (TrimSpace (whURL w)) of
        Some e \<Rightarrow> Some e
      | None \<Rightarrow>
          (case bad_event w of
             Some e \<Rightarrow> Some (new_error (fmt_q uq e @ '' is not an event this sends; choose from '' @ Join KnownEvents '', '') [])
           | None \<Rightarrow>
               if whMinInterval w < 0
               then Some (new_error (''min_interval_sec must not be negative, got '' @ fmt_int (whMinInterval w)) [])
               else if \<not> format_ok (whFormat w)
               then Some (new_error (''format must be '' @ fmt_q uq FormatJSON @ '', '' @ fmt_q uq FormatCN4M @ '' or ''
                            @ fmt_q uq FormatDiscord @ '', got '' @ fmt_q uq (whFormat w)) [])
               else None))"

definition webhook_ApplyDefaults :: "webhook \<Rightarrow> webhook" where
  "webhook_ApplyDefaults w =
     w\<lparr>whURL := TrimSpace (whURL w), whMinInterval := (if whMinInterval w = 0 then 30 else whMinInterval w),
       whFormat := (if whFormat w = [] then FormatJSON else whFormat w)\<rparr>"


section \<open>The table\<close>

definition hook_order :: "webhook \<Rightarrow> webhook \<Rightarrow> bool" where
  "hook_order a b \<longleftrightarrow> stored_before (whCreatedAt a) (whCreatedAt b)
     \<or> \<not> stored_before (whCreatedAt b) (whCreatedAt a) \<and> go_string_less (whID a) (whID b)"

definition ListWebhooks :: "webhook list \<Rightarrow> webhook list" where
  "ListWebhooks db = sort_slice hook_order db"

definition WebhooksFor :: "string \<Rightarrow> webhook list \<Rightarrow> webhook list" where
  "WebhooksFor jobID db = sort_slice hook_order (filter (\<lambda>w. whEnabled w \<and> (whJobID w = jobID \<and> jobID \<noteq> [] \<or> whJobID w = [])) db)"

definition CreateWebhook ::
  "(string \<Rightarrow> string) \<Rightarrow> (string \<Rightarrow> goerr + string \<times> string) \<Rightarrow> goerr option \<Rightarrow> goerr + string \<Rightarrow> gotime \<Rightarrow> webhook \<Rightarrow>
   webhook list \<Rightarrow> (goerr + webhook) \<times> webhook list" where
  "CreateWebhook uq parse fault newID now w db =
     (let w = webhook_ApplyDefaults w in
      case webhook_Validate uq parse w of
        Some e \<Rightarrow> (Inl e, db)
      | None \<Rightarrow>
          (case newID of
             Inl e \<Rightarrow> (Inl e, db)
           | Inr i \<Rightarrow>
               let w = w\<lparr>whID := i, whCreatedAt := now, whUpdatedAt := now\<rparr>
               in case fault of
                    Some e \<Rightarrow> (Inl (wrap ''creating a webhook: '' e), db)
                  | None \<Rightarrow> (Inr w, db @ [w])))"

text \<open>An empty secret leaves the stored one.\<close>

definition with_settings :: "gotime \<Rightarrow> webhook \<Rightarrow> webhook \<Rightarrow> webhook" where
  "with_settings now w r =
     r\<lparr>whJobID := whJobID w, whURL := whURL w, whEvents := whEvents w, whEnabled := whEnabled w, whMinInterval := whMinInterval w,
       whFormat := whFormat w, whSecret := (if whSecret w = [] then whSecret r else whSecret w), whUpdatedAt := now\<rparr>"

definition UpdateWebhook ::
  "(string \<Rightarrow> string) \<Rightarrow> (string \<Rightarrow> goerr + string \<times> string) \<Rightarrow> goerr option \<Rightarrow> gotime \<Rightarrow> string \<Rightarrow> webhook \<Rightarrow>
   webhook list \<Rightarrow> goerr option \<times> webhook list" where
  "UpdateWebhook uq parse fault now i w db =
     (let w = webhook_ApplyDefaults w in
      case webhook_Validate uq parse w of
        Some e \<Rightarrow> (Some e, db)
      | None \<Rightarrow>
          (case fault of
             Some e \<Rightarrow> (Some (wrap (''updating webhook '' @ i @ '': '') e), db)
           | None \<Rightarrow>
               if i \<notin> whID ` set db then (Some (missing_row i), db)
               else (None, update_where (\<lambda>r. whID r = i) (with_settings now w) db)))"

definition DeleteWebhook :: "goerr option \<Rightarrow> string \<Rightarrow> webhook list \<Rightarrow> goerr option \<times> webhook list" where
  "DeleteWebhook fault i db =
     (case fault of
        Some e \<Rightarrow> (Some (wrap (''deleting webhook '' @ i @ '': '') e), db)
      | None \<Rightarrow> if i \<notin> whID ` set db then (Some (missing_row i), db) else (None, filter (\<lambda>r. whID r \<noteq> i) db))"

text \<open>The callbacks a fresh database starts with: made only when there is none of their format.\<close>

definition cn4m_seed :: "string \<Rightarrow> webhook" where
  "cn4m_seed url =
     \<lparr>whID = [], whJobID = [], whURL = url, whEvents = [''run_started'', ''progress'', ''run_completed'', ''run_failed''],
      whSecret = [], whEnabled = True, whFormat = FormatCN4M, whMinInterval = 5, whCreatedAt = zero_time, whUpdatedAt = zero_time\<rparr>"

definition discord_seed :: "string \<Rightarrow> webhook" where
  "discord_seed url =
     \<lparr>whID = [], whJobID = [], whURL = url, whEvents = [''run_completed'', ''run_failed''],
      whSecret = [], whEnabled = True, whFormat = FormatDiscord, whMinInterval = 0, whCreatedAt = zero_time, whUpdatedAt = zero_time\<rparr>"

definition ensure_hook ::
  "(string \<Rightarrow> string) \<Rightarrow> (string \<Rightarrow> goerr + string \<times> string) \<Rightarrow> goerr option \<Rightarrow> goerr + string \<Rightarrow> gotime \<Rightarrow> webhook \<Rightarrow>
   webhook list \<Rightarrow> (goerr + bool) \<times> webhook list" where
  "ensure_hook uq parse fault newID now seed db =
     (if list_ex (\<lambda>r. whFormat r = whFormat seed) db then (Inr False, db)
      else case CreateWebhook uq parse fault newID now seed db of
             (Inl e, db) \<Rightarrow> (Inl e, db)
           | (Inr _, db) \<Rightarrow> (Inr True, db))"

definition EnsureCN4MWebhook where
  "EnsureCN4MWebhook uq parse fault newID now url = ensure_hook uq parse fault newID now (cn4m_seed url)"

definition EnsureDiscordWebhook where
  "EnsureDiscordWebhook uq parse fault newID now url = ensure_hook uq parse fault newID now (discord_seed url)"

definition CN4MWebhookURL :: "webhook list \<Rightarrow> string option" where
  "CN4MWebhookURL db = map_option whURL (find (\<lambda>r. whFormat r = FormatCN4M) db)"


section \<open>Properties\<close>

text \<open>What a step changes in the table. An identifier is new, since it is random.\<close>

inductive hook_step ::
  "(string \<Rightarrow> string) \<Rightarrow> (string \<Rightarrow> goerr + string \<times> string) \<Rightarrow> webhook list \<Rightarrow> webhook list \<Rightarrow> bool"
  for uq :: "string \<Rightarrow> string" and parse :: "string \<Rightarrow> goerr + string \<times> string" where
  made: "i \<notin> whID ` set db \<Longrightarrow> hook_step uq parse db (snd (CreateWebhook uq parse fault (Inr i) now w db))"
| changed: "hook_step uq parse db (snd (UpdateWebhook uq parse fault now i w db))"
| removed: "hook_step uq parse db (snd (DeleteWebhook fault i db))"
| seeded: "i \<notin> whID ` set db \<Longrightarrow> hook_step uq parse db (snd (ensure_hook uq parse fault (Inr i) now seed db))"

definition hook_fine :: "(string \<Rightarrow> string) \<Rightarrow> (string \<Rightarrow> goerr + string \<times> string) \<Rightarrow> webhook \<Rightarrow> bool" where
  "hook_fine uq parse w \<longleftrightarrow> webhook_Validate uq parse w = None \<and> whURL w = TrimSpace (whURL w)"

definition hooks_ok :: "(string \<Rightarrow> string) \<Rightarrow> (string \<Rightarrow> goerr + string \<times> string) \<Rightarrow> webhook list \<Rightarrow> bool" where
  "hooks_ok uq parse db \<longleftrightarrow> distinct (map whID db) \<and> (\<forall>w \<in> set db. hook_fine uq parse w)"

lemma Validate_cong:
  "whURL v = whURL w \<Longrightarrow> whEvents v = whEvents w \<Longrightarrow> whMinInterval v = whMinInterval w \<Longrightarrow> whFormat v = whFormat w \<Longrightarrow>
   webhook_Validate uq parse v = webhook_Validate uq parse w"
  by (simp add: webhook_Validate_def bad_event_def cong: if_cong option.case_cong)

lemma defaults_trimmed: "whURL (webhook_ApplyDefaults w) = TrimSpace (whURL (webhook_ApplyDefaults w))"
  by (simp add: webhook_ApplyDefaults_def TrimSpace_idem)

lemma defaults_fine:
  "webhook_Validate uq parse (webhook_ApplyDefaults w) = None \<Longrightarrow> whURL v = whURL (webhook_ApplyDefaults w) \<Longrightarrow>
   whEvents v = whEvents (webhook_ApplyDefaults w) \<Longrightarrow> whMinInterval v = whMinInterval (webhook_ApplyDefaults w) \<Longrightarrow>
   whFormat v = whFormat (webhook_ApplyDefaults w) \<Longrightarrow> hook_fine uq parse v"
  using Validate_cong [of v "webhook_ApplyDefaults w"] defaults_trimmed [of w] by (simp add: hook_fine_def)

lemma create_cases:
  "snd (CreateWebhook uq parse fault (Inr i) now w db) = db
   \<or> (\<exists>v. CreateWebhook uq parse fault (Inr i) now w db = (Inr v, db @ [v]) \<and> whID v = i \<and> hook_fine uq parse v)"
proof -
  let ?v = "(webhook_ApplyDefaults w)\<lparr>whID := i, whCreatedAt := now, whUpdatedAt := now\<rparr>"
  have "webhook_Validate uq parse (webhook_ApplyDefaults w) = None \<Longrightarrow> hook_fine uq parse ?v"
    by (rule defaults_fine [of uq parse w]) simp_all
  then show ?thesis by (auto simp: CreateWebhook_def Let_def split: option.split)
qed

lemma map_update_where: "(\<And>r. g (f r) = g r) \<Longrightarrow> map g (update_where P f rows) = map g rows"
  by (simp add: update_where_def)

lemma hooks_ok_step: "hook_step uq parse db db' \<Longrightarrow> hooks_ok uq parse db \<Longrightarrow> hooks_ok uq parse db'"
proof (induction rule: hook_step.induct)
  case (made i db fault now w)
  then show ?case using create_cases [of uq parse fault i now w db] by (auto simp: hooks_ok_def)
next
  case (changed db fault now i w)
  have "hook_fine uq parse (with_settings now (webhook_ApplyDefaults w) r)" if "webhook_Validate uq parse (webhook_ApplyDefaults w) = None" for r
    by (rule defaults_fine [OF that]) (simp_all add: with_settings_def)
  then have fine: "webhook_Validate uq parse (webhook_ApplyDefaults w) = None \<Longrightarrow> \<forall>r \<in> set db. hook_fine uq parse r \<Longrightarrow>
      \<forall>r \<in> set (update_where P (with_settings now (webhook_ApplyDefaults w)) db). hook_fine uq parse r" for P
    by (auto simp: update_where_def)
  have ids: "map whID (update_where P (with_settings now v) db) = map whID db" for P v
    by (rule map_update_where) (simp add: with_settings_def)
  show ?case using changed fine by (simp add: UpdateWebhook_def hooks_ok_def Let_def ids split: option.split)
next
  case (removed db fault i)
  then show ?case by (auto simp: DeleteWebhook_def hooks_ok_def distinct_map_filter split: option.split)
next
  case (seeded i db fault now seed)
  then show ?case using create_cases [of uq parse fault i now seed db]
    by (auto simp: ensure_hook_def hooks_ok_def split: prod.split sum.split)
qed

lemma valid_hook:
  assumes "webhook_Validate uq parse w = None"
  shows "url_error uq parse (TrimSpace (whURL w)) = None" "set (whEvents w) \<subseteq> set KnownEvents" "0 \<le> whMinInterval w" "format_ok (whFormat w)"
  using assms by (auto simp: webhook_Validate_def bad_event_def find_None_iff split: option.splits if_splits)

lemma valid_url:
  "url_error uq parse u = None \<Longrightarrow> \<exists>scheme host. parse u = Inr (scheme, host) \<and> scheme \<in> {''http'', ''https''} \<and> host \<noteq> []"
  by (auto simp: url_error_def split: if_splits sum.splits prod.splits)

text \<open>
  the table of callbacks holds only valid rows. Whatever is created, changed, removed or
  seeded, every row has an http or https address with a host and no surrounding space, known
  events, an interval that is not negative, a known format, and its own identifier.
\<close>

theorem stored_hooks_are_valid:
  assumes "(hook_step uq parse)\<^sup>*\<^sup>* [] db"
  shows "distinct (map whID db)
    \<and> (\<forall>w. w \<in> set db \<longrightarrow> set (whEvents w) \<subseteq> set KnownEvents \<and> 0 \<le> whMinInterval w \<and> format_ok (whFormat w)
         \<and> TrimSpace (whURL w) = whURL w
         \<and> (\<exists>scheme host. parse (whURL w) = Inr (scheme, host) \<and> scheme \<in> {''http'', ''https''} \<and> host \<noteq> []))"
proof -
  have ok: "hooks_ok uq parse db"
    using assms by (induction rule: rtranclp_induct) (auto simp: hooks_ok_def [of _ _ "[]"] intro: hooks_ok_step)
  show ?thesis
  proof (intro conjI allI impI)
    show "distinct (map whID db)" using ok by (simp add: hooks_ok_def)
    fix w assume "w \<in> set db"
    then have v: "webhook_Validate uq parse w = None" and t: "whURL w = TrimSpace (whURL w)" using ok by (auto simp: hooks_ok_def hook_fine_def)
    note v = valid_hook [OF v]
    show "set (whEvents w) \<subseteq> set KnownEvents" "0 \<le> whMinInterval w" "format_ok (whFormat w)" "TrimSpace (whURL w) = whURL w"
      "\<exists>scheme host. parse (whURL w) = Inr (scheme, host) \<and> scheme \<in> {''http'', ''https''} \<and> host \<noteq> []"
      using v valid_url [of uq parse "whURL w"] t by simp_all
  qed
qed

definition sample_hook :: "string \<Rightarrow> string \<Rightarrow> webhook" where
  "sample_hook i fmt =
     \<lparr>whID = i, whJobID = [], whURL = ''http://h'', whEvents = [], whSecret = [], whEnabled = True, whFormat = fmt,
      whMinInterval = 30, whCreatedAt = 0, whUpdatedAt = 0\<rparr>"

definition sample_url :: "string \<Rightarrow> goerr + string \<times> string" where
  "sample_url u = Inr (''http'', ''h'')"

lemma trimmed_sample: "TrimSpace ''http://h'' = ''http://h''"
  by (rule TrimSpace_graphic) (simp_all add: graphic_def)

theorem stored_hooks_are_valid_witness:
  "TrimSpace (whURL (sample_hook ''1'' FormatJSON)) = whURL (sample_hook ''1'' FormatJSON)"
proof -
  have "(hook_step id sample_url)\<^sup>*\<^sup>* [] [sample_hook ''1'' FormatJSON]"
  proof (rule r_into_rtranclp)
    have "CreateWebhook id sample_url None (Inr ''1'') 0 (sample_hook [] FormatJSON) [] = (Inr (sample_hook ''1'' FormatJSON), [sample_hook ''1'' FormatJSON])"
      by (simp add: CreateWebhook_def webhook_ApplyDefaults_def sample_hook_def webhook_Validate_def url_error_def
          sample_url_def trimmed_sample bad_event_def format_ok_def FormatJSON_def Let_def)
    then show "hook_step id sample_url [] [sample_hook ''1'' FormatJSON]"
      using hook_step.made [of "''1''" "[]" id sample_url None 0 "sample_hook [] FormatJSON"] by simp
  qed
  then show ?thesis using stored_hooks_are_valid [of id sample_url "[sample_hook ''1'' FormatJSON]"] by simp
qed

text \<open>
  a form that never received a secret cannot erase it, and the environment cannot undo an
  edit. Saving a callback with an empty secret leaves the stored one; and seeding a callback
  from the environment changes no row that is there, adds at most one, and adds none when there
  is one of its format, wherever that one points.
\<close>

theorem settings_survive:
  assumes "whSecret w = []"
  shows "map whSecret (snd (UpdateWebhook uq parse fault now i w db)) = map whSecret db
    \<and> take (length db) (snd (ensure_hook uq parse fault newID now seed db)) = db
    \<and> length (snd (ensure_hook uq parse fault newID now seed db)) \<le> length db + 1
    \<and> (whFormat seed \<in> whFormat ` set db \<longrightarrow> ensure_hook uq parse fault newID now seed db = (Inr False, db))"
proof -
  have "map whSecret (update_where P (with_settings now (webhook_ApplyDefaults w)) db) = map whSecret db" for P
    using assms by (intro map_update_where) (simp add: with_settings_def webhook_ApplyDefaults_def)
  then have "map whSecret (snd (UpdateWebhook uq parse fault now i w db)) = map whSecret db"
    by (simp add: UpdateWebhook_def Let_def split: option.split)
  moreover have "take (length db) (snd (CreateWebhook uq parse fault newID now seed db)) = db
      \<and> length (snd (CreateWebhook uq parse fault newID now seed db)) \<le> length db + 1"
    by (simp add: CreateWebhook_def Let_def split: option.split sum.split)
  moreover have "whFormat seed \<in> whFormat ` set db \<Longrightarrow> list_ex (\<lambda>r. whFormat r = whFormat seed) db"
    by (auto simp: list_ex_iff)
  ultimately show ?thesis
    by (auto simp: ensure_hook_def split: prod.split sum.split)
qed

theorem settings_survive_witness:
  "snd (ensure_hook id sample_url None (Inr ''2'') 0 (discord_seed ''http://d'') [sample_hook ''1'' FormatDiscord]) = [sample_hook ''1'' FormatDiscord]"
  using settings_survive [of "sample_hook ''1'' FormatDiscord" id sample_url None 0 "''1''" "[sample_hook ''1'' FormatDiscord]" "Inr ''2''" "discord_seed ''http://d''"]
  by (simp add: sample_hook_def discord_seed_def)

end
