(* ===== verification/Status.thy ===== *)
theory Status
  imports Complex_Main Run_Progress Run_Store
begin

text \<open>
  The status of a run as software outside the program reads it
  (\<^verbatim>\<open>src/internal/runner/status.go\<close>): one shape, built from the rows of the run and, while the run
  is going on, from its live snapshot. The polling endpoint serves it and the callbacks carry it.
\<close>

section \<open>The payload\<close>

text \<open>A value of the payload. A field of Go type \<open>float64\<close> is a real.\<close>

datatype jvalue =
  JStr string | JInt int | JReal real | JTime gotime | JObjs "(string \<times> jvalue) list list"

type_synonym payload = "jvalue gomap"

definition phase_text :: "phase \<Rightarrow> string" where
  "phase_text p =
     (case p of PhaseScanning \<Rightarrow> ''scanning'' | PhasePlanning \<Rightarrow> ''planning'' | PhaseCopying \<Rightarrow> ''copying''
      | PhaseDeleting \<Rightarrow> ''deleting'' | PhaseDone \<Rightarrow> ''done'')"

text \<open>\<open>int(d.Seconds())\<close>, which truncates towards zero.\<close>

definition whole_seconds :: "duration \<Rightarrow> int" where
  "whole_seconds d = quot64 d 1000000000"

definition run_fields :: "gotime \<Rightarrow> run_row \<Rightarrow> payload" where
  "run_fields now run =
     [(''run_id'', JStr (rrID run)), (''job_id'', JStr (rrJobID run)), (''status'', JStr (run_status_text (rrStatus run))),
      (''trigger'', JStr (trigger_text (rrTrigger run))), (''started_at'', JTime (rrStartedAt run))]
     @ (case rrFinishedAt run of
          Some t \<Rightarrow> [(''finished_at'', JTime t), (''elapsed_sec'', JInt (whole_seconds (time_Sub t (rrStartedAt run))))]
        | None \<Rightarrow> [(''elapsed_sec'', JInt (whole_seconds (time_Sub now (rrStartedAt run))))])
     @ (if rrSummary run \<noteq> [] then [(''last_error'', JStr (rrSummary run))] else [])"

definition current_file :: "file_in_flight \<Rightarrow> payload" where
  "current_file f = [(''relpath'', JStr (ffRelPath f)), (''pct'', JReal (ffPercent f)), (''eta_sec'', JReal (ffETASeconds f))]"

definition live_fields :: "run_snapshot \<Rightarrow> payload" where
  "live_fields s =
     [(''phase'', JStr (phase_text (rsPhase s))), (''files_done'', JInt (rsFilesDone s)), (''files_total'', JInt (rsFilesTotal s)),
      (''bytes_done'', JInt (rsBytesDone s)), (''bytes_total'', JInt (rsBytesTotal s)),
      (''throughput_bps'', JReal (rsThroughputBPS s)), (''scanned_files'', JInt (rsScannedFiles s)),
      (''scanned_bytes'', JInt (rsScannedBytes s)), (''eta_sec'', JReal (rsETASeconds s)),
      (''current_files'', JObjs (map current_file (rsInFlight s)))]"

definition closed_fields :: "run_row \<Rightarrow> run_destination list \<Rightarrow> payload" where
  "closed_fields run ds =
     [(''files_done'', JInt (sum_list (map rdFilesDone ds))), (''files_total'', JInt (sum_list (map rdFilesTotal ds))),
      (''bytes_done'', JInt (sum_list (map rdBytesDone ds))), (''bytes_total'', JInt (sum_list (map rdBytesTotal ds))),
      (''current_files'', JObjs []), (''scanned_files'', JInt (rrFilesScanned run)),
      (''scanned_bytes'', JInt (rrBytesTotal run)), (''throughput_bps'', JInt 0), (''eta_sec'', JInt (- 1))]"

text \<open>The live counters of each destination; of two with one target the later wins.\<close>

definition live_dests :: "run_snapshot option \<Rightarrow> dest_snapshot gomap" where
  "live_dests snap = (case snap of None \<Rightarrow> [] | Some s \<Rightarrow> fold (\<lambda>d. goput (dsTarget d) d) (rsDestinations s) [])"

definition live_status :: "dest_status option \<Rightarrow> string" where
  "live_status s = (case s of None \<Rightarrow> [] | Some s \<Rightarrow> dest_status_text s)"

definition dest_entry :: "(string \<Rightarrow> string) option \<Rightarrow> dest_snapshot gomap \<Rightarrow> run_destination \<Rightarrow> payload" where
  "dest_entry nameFor live d =
     (''target'', JStr (case nameFor of None \<Rightarrow> rdTarget d | Some f \<Rightarrow> f (rdTarget d)))
     # (case goget live (rdTarget d) of
          None \<Rightarrow>
            [(''status'', JStr (dest_status_text (rdStatus d))), (''files_done'', JInt (rdFilesDone d)),
             (''files_total'', JInt (rdFilesTotal d)), (''bytes_done'', JInt (rdBytesDone d)),
             (''bytes_total'', JInt (rdBytesTotal d)), (''eta_sec'', JReal (- 1))]
        | Some s \<Rightarrow>
            [(''status'', JStr (live_status (dsStatus s))), (''files_done'', JInt (snFilesDone (dsSnap s))),
             (''files_total'', JInt (snFilesTotal (dsSnap s))), (''bytes_done'', JInt (snBytesDone (dsSnap s))),
             (''bytes_total'', JInt (snBytesTotal (dsSnap s))), (''eta_sec'', JReal (snETASeconds (dsSnap s)))])"

definition errors_count :: "run_destination list \<Rightarrow> int" where
  "errors_count ds = int (length (filter (\<lambda>d. rdSummary d \<noteq> []) ds))"

definition StatusPayload ::
  "gotime \<Rightarrow> run_row \<times> run_destination list \<Rightarrow> run_snapshot option \<Rightarrow> (string \<Rightarrow> string) option \<Rightarrow> payload" where
  "StatusPayload now run snap nameFor =
     run_fields now (fst run)
     @ (case snap of Some s \<Rightarrow> live_fields s | None \<Rightarrow> closed_fields (fst run) (snd run))
     @ [(''destinations'', JObjs (map (dest_entry nameFor (live_dests snap)) (snd run))),
        (''errors_count'', JInt (errors_count (snd run)))]"


section \<open>Reading it\<close>

definition stringField :: "payload \<Rightarrow> string \<Rightarrow> string" where
  "stringField p key = (case goget p key of Some (JStr s) \<Rightarrow> s | _ \<Rightarrow> [])"

definition floatField :: "payload \<Rightarrow> string \<Rightarrow> real" where
  "floatField p key = (case goget p key of Some (JReal r) \<Rightarrow> r | Some (JInt i) \<Rightarrow> real_of_int i | _ \<Rightarrow> 0)"

text \<open>\<open>int(v)\<close> of a float truncates towards zero.\<close>

definition trunc_real :: "real \<Rightarrow> int" where
  "trunc_real r = (if r < 0 then - \<lfloor>- r\<rfloor> else \<lfloor>r\<rfloor>)"

definition intField :: "payload \<Rightarrow> string \<Rightarrow> int" where
  "intField p key = (case goget p key of Some (JInt i) \<Rightarrow> i | Some (JReal r) \<Rightarrow> trunc_real r | _ \<Rightarrow> 0)"

text \<open>What the entries of the destinations say, together.\<close>

definition entries :: "payload \<Rightarrow> payload list" where
  "entries p = (case goget p ''destinations'' of Some (JObjs es) \<Rightarrow> es | _ \<Rightarrow> [])"

definition entries_sum :: "payload \<Rightarrow> string \<Rightarrow> int" where
  "entries_sum p key = sum_list (map (\<lambda>e. intField e key) (entries p))"


section \<open>Properties\<close>

text \<open>A reader that uses none of the optional keys finds every key it may look for.\<close>

definition documented_keys :: "string list" where
  "documented_keys =
     [''run_id'', ''job_id'', ''status'', ''trigger'', ''started_at'', ''elapsed_sec'', ''files_done'', ''files_total'',
      ''bytes_done'', ''bytes_total'', ''throughput_bps'', ''scanned_files'', ''scanned_bytes'', ''eta_sec'',
      ''current_files'', ''destinations'', ''errors_count'']"

lemma documented_present: "set documented_keys \<subseteq> set (gokeys (StatusPayload now run snap nm))"
  by (cases snap; cases "rrFinishedAt (fst run)")
    (simp_all add: StatusPayload_def run_fields_def live_fields_def closed_fields_def documented_keys_def)

lemma payload_status: "stringField (StatusPayload now run snap nm) ''status'' = run_status_text (rrStatus (fst run))"
  by (simp add: StatusPayload_def run_fields_def stringField_def)

lemma payload_last_error: "stringField (StatusPayload now run snap nm) ''last_error'' = rrSummary (fst run)"
  by (cases snap; cases "rrFinishedAt (fst run)")
    (simp_all add: StatusPayload_def run_fields_def stringField_def live_fields_def closed_fields_def)

lemma payload_counters:
  "goget (StatusPayload now run (Some s) nm) ''files_done'' = Some (JInt (rsFilesDone s))"
  "goget (StatusPayload now run (Some s) nm) ''bytes_done'' = Some (JInt (rsBytesDone s))"
  "goget (StatusPayload now run None nm) ''files_done'' = Some (JInt (sum_list (map rdFilesDone (snd run))))"
  "goget (StatusPayload now run None nm) ''bytes_done'' = Some (JInt (sum_list (map rdBytesDone (snd run))))"
  by (cases "rrFinishedAt (fst run)"; simp add: StatusPayload_def run_fields_def live_fields_def closed_fields_def)+

lemma payload_entries: "entries (StatusPayload now run snap nm) = map (dest_entry nm (live_dests snap)) (snd run)"
  by (cases snap; cases "rrFinishedAt (fst run)")
    (simp_all add: StatusPayload_def run_fields_def live_fields_def closed_fields_def entries_def)

lemma live_dests_get:
  "distinct (map dsTarget ds) \<Longrightarrow> d \<in> set ds \<Longrightarrow> goget (fold (\<lambda>d. goput (dsTarget d) d) ds m) (dsTarget d) = Some d"
proof (induction ds arbitrary: m)
  case (Cons a ds)
  have other: "goget (fold (\<lambda>d. goput (dsTarget d) d) ds m) k = goget m k" if "k \<notin> dsTarget ` set ds" for k m
    using that by (induction ds arbitrary: m) (auto simp: gm.get_put)
  show ?case
  proof (cases "d = a")
    case True
    then show ?thesis using Cons.prems other [of "dsTarget a" "goput (dsTarget a) a m"] by (auto simp: gm.get_put)
  next
    case False
    then show ?thesis using Cons by simp
  qed
qed simp

lemma entry_counters:
  "goget live (rdTarget d) = None \<Longrightarrow> intField (dest_entry nm live d) ''files_done'' = rdFilesDone d
     \<and> intField (dest_entry nm live d) ''bytes_done'' = rdBytesDone d"
  "goget live (rdTarget d) = Some s \<Longrightarrow> intField (dest_entry nm live d) ''files_done'' = snFilesDone (dsSnap s)
     \<and> intField (dest_entry nm live d) ''bytes_done'' = snBytesDone (dsSnap s)"
  by (simp_all add: intField_def dest_entry_def)

lemma blank_fields:
  "rsDestinations (blank_snapshot now p) = []" "rsFilesDone (blank_snapshot now p) = 0" "rsBytesDone (blank_snapshot now p) = 0"
  by (simp_all add: blank_snapshot_def)

lemma snapshot_parts:
  "rsDestinations (run_snapshot_of now p) = rsDestinations (fst (fold (snap_step now p) (pgOrder p) (blank_snapshot now p, 0)))"
  "rsFilesDone (run_snapshot_of now p) = rsFilesDone (fst (fold (snap_step now p) (pgOrder p) (blank_snapshot now p, 0)))"
  "rsBytesDone (run_snapshot_of now p) = rsBytesDone (fst (fold (snap_step now p) (pgOrder p) (blank_snapshot now p, 0)))"
  by (simp_all add: run_snapshot_of_def split_beta Let_def)

lemma snapshot_dests: "rsDestinations (run_snapshot_of now p) = map (dest_snap now p) (pgOrder p)"
  using snap_fold(7) [of now p "pgOrder p" "(blank_snapshot now p, 0)"] by (simp add: snapshot_parts blank_fields)

lemma snapshot_done:
  "rsFilesDone (run_snapshot_of now p) = sum_list (map (\<lambda>d. snFilesDone (dsSnap (dest_snap now p d))) (pgOrder p))"
  "rsBytesDone (run_snapshot_of now p) = sum_list (map (\<lambda>d. snBytesDone (dsSnap (dest_snap now p d))) (pgOrder p))"
  using snap_fold(2,4) [of now p "pgOrder p" "(blank_snapshot now p, 0)"]
  by (simp_all add: snapshot_parts blank_fields dest_snap_def)

text \<open>
  the status of a run has one shape, and its parts agree. Every documented field is there for
  every run, live or finished; and the files and bytes done of the destinations add up to those
  of the run, in a finished run from its rows and in a live one from the snapshot of the progress
  of its destinations.
\<close>

theorem status_entries_add_up:
  fixes now t :: gotime and nm :: "(string \<Rightarrow> string) option"
  assumes "distinct (pgOrder p)" "map rdTarget (snd run) = pgOrder p" "snap \<in> {None, Some (run_snapshot_of t p)}"
  defines "out \<equiv> StatusPayload now run snap nm"
  shows "set documented_keys \<subseteq> set (gokeys out)
    \<and> entries_sum out ''files_done'' = intField out ''files_done''
    \<and> entries_sum out ''bytes_done'' = intField out ''bytes_done''"
proof (intro conjI)
  show "set documented_keys \<subseteq> set (gokeys out)" unfolding out_def by (rule documented_present)
  have live: "goget (live_dests (Some (run_snapshot_of t p))) d = Some (dest_snap t p d)" if "d \<in> set (pgOrder p)" for d
    using live_dests_get [of "map (dest_snap t p) (pgOrder p)" "dest_snap t p d" "[]"] that assms(1)
    by (simp add: live_dests_def snapshot_dests dest_snap_def comp_def)
  have sums: "sum_list (map (\<lambda>d. intField (dest_entry nm (live_dests (Some (run_snapshot_of t p))) d) k) (snd run))
      = sum_list (map (\<lambda>d. f (dsSnap (dest_snap t p d))) (pgOrder p))"
    if "\<And>d s. goget (live_dests (Some (run_snapshot_of t p))) (rdTarget d) = Some s
      \<Longrightarrow> intField (dest_entry nm (live_dests (Some (run_snapshot_of t p))) d) k = f (dsSnap s)" for k f
  proof -
    have "map (\<lambda>d. intField (dest_entry nm (live_dests (Some (run_snapshot_of t p))) d) k) (snd run)
        = map (\<lambda>d. f (dsSnap (dest_snap t p (rdTarget d)))) (snd run)"
      using assms(2) by (intro map_cong refl that live) (metis image_eqI list.set_map)
    also have "\<dots> = map (\<lambda>d. f (dsSnap (dest_snap t p d))) (pgOrder p)"
      by (simp flip: assms(2))
    finally show ?thesis by simp
  qed
  note f = sums [of "''files_done''" snFilesDone] and b = sums [of "''bytes_done''" snBytesDone]
  have none: "goget (live_dests None) d = None" for d by (simp add: live_dests_def)
  show "entries_sum out ''files_done'' = intField out ''files_done''"
    using assms(3) f by (auto simp: out_def entries_sum_def payload_entries comp_def entry_counters none snapshot_done
        payload_counters intField_def [of "StatusPayload _ _ _ _"])
  show "entries_sum out ''bytes_done'' = intField out ''bytes_done''"
    using assms(3) b by (auto simp: out_def entries_sum_def payload_entries comp_def entry_counters none snapshot_done
        payload_counters intField_def [of "StatusPayload _ _ _ _"])
qed

definition sample_row :: run_row where
  "sample_row =
     \<lparr>rrID = ''r'', rrJobID = ''j'', rrTrigger = TriggerManual, rrStatus = RunRunning, rrStartedAt = 0, rrFinishedAt = None,
      rrFilesScanned = 0, rrBytesTotal = 0, rrSummary = []\<rparr>"

theorem status_entries_add_up_witness:
  "entries_sum (StatusPayload 5 (sample_row, [pending_dest ''r'' ''a'', pending_dest ''r'' ''b'']) (Some (run_snapshot_of 5 two_dests)) None)
     ''bytes_done'' = intField (StatusPayload 5 (sample_row, [pending_dest ''r'' ''a'', pending_dest ''r'' ''b''])
     (Some (run_snapshot_of 5 two_dests)) None) ''bytes_done''"
proof -
  have "pgOrder two_dests = [''a'', ''b'']" by (simp add: two_dests_def newProgress_def on_dest_def markPlanned_def SetTotals_def)
  then show ?thesis
    using status_entries_add_up [of two_dests "(sample_row, [pending_dest ''r'' ''a'', pending_dest ''r'' ''b''])"
        "Some (run_snapshot_of 5 two_dests)" 5 5 None]
    by (simp add: pending_dest_def)
qed

text \<open>The phase is the exception: it is there only while the run is live.\<close>

lemma finished_status_has_no_phase: "''phase'' \<notin> set (gokeys (StatusPayload now run None nm))"
  by (cases "rrFinishedAt (fst run)") (auto simp: StatusPayload_def run_fields_def closed_fields_def)

end
