(* ===== verification/Callbacks.thy ===== *)
theory Callbacks
  imports Status Run_Outcome
begin

text \<open>
  The body of a callback in the three formats: the status itself as JSON, the form cn4m accepts
  (\<^verbatim>\<open>src/internal/notify/cn4m.go\<close>), and a line for a chat channel
  (\<^verbatim>\<open>src/internal/notify/discord.go\<close>). Texts are bytes in UTF-8.
\<close>

section \<open>Events and texts\<close>

definition EventRunStarted :: string where "EventRunStarted = ''run_started''"
definition EventProgress :: string where "EventProgress = ''progress''"
definition EventPrompt :: string where "EventPrompt = ''target_unavailable_prompt''"
definition EventRunCompleted :: string where "EventRunCompleted = ''run_completed''"
definition EventRunFailed :: string where "EventRunFailed = ''run_failed''"

lemmas event_names = EventRunStarted_def EventProgress_def EventPrompt_def EventRunCompleted_def EventRunFailed_def

text \<open>\<open>strings.Cut\<close> at a separator of several bytes.\<close>

fun Cut :: "string \<Rightarrow> string \<Rightarrow> string \<times> string \<times> bool" where
  "Cut [] sep = ([], [], sep = [])"
| "Cut (c # cs) sep =
     (if HasPrefix (c # cs) sep then ([], drop (length sep) (c # cs), True)
      else (case Cut cs sep of (b, a, f) \<Rightarrow> (c # b, a, f)))"

definition ellipsis :: string where "ellipsis = [CHR 0xE2, CHR 0x80, CHR 0xA6]"

text \<open>The limit counts bytes, the ellipsis not among them.\<close>

definition truncate :: "string \<Rightarrow> nat \<Rightarrow> string" where
  "truncate s most =
     (let s = TrimSpace (map (\<lambda>c. if c = CHR 0x0A then CHR '' '' else c) s) in
      if length s \<le> most then s else take (most - 1) s @ ellipsis)"

text \<open>
  The verbs \<open>%.0f\<close> and \<open>%.1f\<close> of a number that is not negative: the nearest decimal, and of two
  the even one. \<open>rnd\<close>, here and below, is the rounding of an exact result to a \<open>float64\<close>.
\<close>

definition round_even :: "real \<Rightarrow> int" where
  "round_even x =
     (let k = \<lfloor>x\<rfloor>; r = x - real_of_int k in if r < 1/2 then k else if r > 1/2 then k + 1 else if even k then k else k + 1)"

definition fmt_f0 :: "real \<Rightarrow> string" where
  "fmt_f0 x = fmt_int (round_even x)"

definition fmt_f1 :: "real \<Rightarrow> string" where
  "fmt_f1 x = (let k = round_even (x * 10) in fmt_int (k div 10) @ ''.'' @ fmt_int (k mod 10))"


section \<open>Progress\<close>

definition perSecond :: "(real \<Rightarrow> real) \<Rightarrow> real \<Rightarrow> string" where
  "perSecond rnd bps =
     (if bps \<ge> 1000000000 then fmt_f1 (rnd (bps / 1000000000)) @ '' GB/s''
      else if bps \<ge> 1000000 then fmt_f0 (rnd (bps / 1000000)) @ '' MB/s''
      else if bps \<ge> 1000 then fmt_f0 (rnd (bps / 1000)) @ '' KB/s''
      else fmt_f0 bps @ '' B/s'')"

definition pct_of :: "(real \<Rightarrow> real) \<Rightarrow> real \<Rightarrow> real \<Rightarrow> int" where
  "pct_of rnd done1 total1 =
     (let pct = trunc_real (rnd (rnd (done1 / total1) * 100)) in if pct < 0 then 0 else if pct > 100 then 100 else pct)"

definition percentDone :: "(real \<Rightarrow> real) \<Rightarrow> payload \<Rightarrow> int option" where
  "percentDone rnd p =
     (let get = (\<lambda>k. rnd (floatField p k)) in
      if get ''bytes_total'' > 0 then Some (pct_of rnd (get ''bytes_done'') (get ''bytes_total''))
      else if get ''files_total'' > 0 then Some (pct_of rnd (get ''files_done'') (get ''files_total''))
      else None)"

definition progressDetail :: "(real \<Rightarrow> real) \<Rightarrow> payload \<Rightarrow> string" where
  "progressDetail rnd p =
     (let parts = (case percentDone rnd p of Some pct \<Rightarrow> [fmt_int pct @ ''%''] | None \<Rightarrow> []);
          bps = floatField p ''throughput_bps'';
          parts = parts @ (if bps > 0 then [perSecond rnd bps] else [])
      in if parts = [] then [] else '': '' @ Join parts '', '')"


section \<open>cn4m\<close>

definition AppName :: string where "AppName = ''cascade''"

definition levelWorking :: string where "levelWorking = ''working''"
definition levelProgress :: string where "levelProgress = ''progress''"
definition levelOK :: string where "levelOK = ''ok''"
definition levelWarning :: string where "levelWarning = ''warning''"
definition levelBlocked :: string where "levelBlocked = ''blocked''"
definition levelError :: string where "levelError = ''error''"

lemmas level_names = levelWorking_def levelProgress_def levelOK_def levelWarning_def levelBlocked_def levelError_def

definition cn4mLevel :: "string \<Rightarrow> payload \<Rightarrow> string" where
  "cn4mLevel event p =
     (if event = EventRunStarted then levelWorking
      else if event = EventProgress then levelProgress
      else if event = EventPrompt then levelBlocked
      else if event = EventRunFailed then levelError
      else if event = EventRunCompleted then
        (let s = stringField p ''status'' in
         if s = ''success'' then levelOK else if s = ''failed'' then levelError else levelWarning)
      else levelWorking)"

definition failed_message :: "payload \<Rightarrow> string" where
  "failed_message p =
     (let last1 = stringField p ''last_error'' in
      if last1 \<noteq> [] then ''Sync Failed: '' @ truncate last1 160 else ''Sync Failed'')"

definition completed_message :: "payload \<Rightarrow> string" where
  "completed_message p =
     (let files = fmt_int (intField p ''files_done''); s = stringField p ''status''; errs = intField p ''errors_count'' in
      if s = ''success'' then ''Sync Complete: '' @ files @ '' files''
      else if s = ''cancelled'' then ''Sync Cancelled: '' @ files @ '' files copied''
      else if s = ''failed'' then failed_message p
      else if errs > 0 then ''Sync Incomplete: '' @ files @ '' files, '' @ fmt_int errs @ '' destination errors''
      else ''Sync Incomplete: '' @ files @ '' files'')"

definition cn4mMessage :: "(real \<Rightarrow> real) \<Rightarrow> string \<Rightarrow> payload \<Rightarrow> string" where
  "cn4mMessage rnd event p =
     (if event = EventRunStarted then ''Sync Started''
      else if event = EventProgress then ''Sync in Progress'' @ progressDetail rnd p
      else if event = EventPrompt then ''Sync Paused: waiting on an unreachable destination''
      else if event = EventRunCompleted then completed_message p
      else if event = EventRunFailed then failed_message p
      else ''Sync: '' @ event)"

text \<open>\<open>url.Values.Encode\<close>: the keys in order, each value escaped.\<close>

definition unreserved :: "char \<Rightarrow> bool" where
  "unreserved c \<longleftrightarrow>
     (let n = of_char c :: nat in 97 \<le> n \<and> n \<le> 122 \<or> 65 \<le> n \<and> n \<le> 90 \<or> 48 \<le> n \<and> n \<le> 57
        \<or> c = CHR ''-'' \<or> c = CHR ''_'' \<or> c = CHR ''.'' \<or> c = CHR ''~'')"

definition hex_upper :: "nat \<Rightarrow> char" where
  "hex_upper n = char_of (if n < 10 then 48 + n else 55 + n)"

definition escape_char :: "char \<Rightarrow> string" where
  "escape_char c =
     (if unreserved c then [c] else if c = CHR '' '' then ''+''
      else [CHR ''%'', hex_upper (of_char c div 16), hex_upper (of_char c mod 16)])"

definition QueryEscape :: "string \<Rightarrow> string" where
  "QueryEscape s = concat (map escape_char s)"

definition form_Encode :: "(string \<times> string) list \<Rightarrow> string" where
  "form_Encode kvs = Join (map (\<lambda>(k, v). QueryEscape k @ ''='' @ QueryEscape v) kvs) ''&''"

definition cn4mForm :: "(real \<Rightarrow> real) \<Rightarrow> string \<Rightarrow> payload \<Rightarrow> (string \<times> string) list" where
  "cn4mForm rnd event p =
     [(''app'', AppName), (''level'', cn4mLevel event p), (''message'', cn4mMessage rnd event p)]"


section \<open>Discord\<close>

definition discordSync :: string where "discordSync = [CHR 0xF0, CHR 0x9F, CHR 0x94, CHR 0x84]"
definition discordOK :: string where "discordOK = [CHR 0xE2, CHR 0x9C, CHR 0x85]"
definition discordWarning :: string where "discordWarning = [CHR 0xE2, CHR 0x9A, CHR 0xA0, CHR 0xEF, CHR 0xB8, CHR 0x8F]"
definition discordFailed :: string where "discordFailed = [CHR 0xE2, CHR 0x9D, CHR 0x8C]"
definition discordStopped :: string where "discordStopped = [CHR 0xE2, CHR 0x8F, CHR 0xB9, CHR 0xEF, CHR 0xB8, CHR 0x8F]"

definition shortReason :: "string \<Rightarrow> string" where
  "shortReason summary =
     (case Cut summary dash of (counts, _, found) \<Rightarrow> if found then TrimSpace counts else truncate summary 200)"

definition run_outcome_text :: "payload \<Rightarrow> int \<Rightarrow> string" where
  "run_outcome_text p files =
     (let summary = stringField p ''last_error'' in if summary = [] then fmt_int files @ '' file(s)'' else shortReason summary)"

definition discord_line :: "string \<Rightarrow> string \<Rightarrow> string \<Rightarrow> string" where
  "discord_line icon verb rest = discordSync @ '' '' @ icon @ '' **Sync '' @ verb @ ''**'' @ rest"

definition discord_completed :: "payload \<Rightarrow> string" where
  "discord_completed p =
     (let files = intField p ''files_done''; s = stringField p ''status''; rest = dash @ run_outcome_text p files in
      if s = ''success'' then discord_line discordOK ''complete'' rest
      else if s = ''cancelled'' then discord_line discordStopped ''cancelled'' rest
      else if s = ''failed'' then discord_line discordFailed ''failed'' rest
      else discord_line discordWarning ''incomplete'' rest)"

definition discordContent :: "(real \<Rightarrow> real) \<Rightarrow> string \<Rightarrow> payload \<Rightarrow> string" where
  "discordContent rnd event p =
     (if event = EventRunCompleted then discord_completed p
      else if event = EventRunFailed then
        (let last1 = stringField p ''last_error'' in
         discord_line discordFailed ''failed'' (if last1 \<noteq> [] then dash @ shortReason last1 else []))
      else if event = EventRunStarted then discordSync @ '' **Sync started**''
      else if event = EventPrompt then
        discord_line discordWarning ''waiting'' (dash @ ''a destination is unreachable and the run is asking what to do'')
      else if event = EventProgress then discordSync @ '' **Sync in progress**'' @ progressDetail rnd p
      else discordSync @ '' Sync: '' @ event)"


section \<open>Properties\<close>

subsection \<open>What a receiver decodes\<close>

text \<open>The receiving side of a form, as the media type defines it.\<close>

definition hex_value :: "char \<Rightarrow> nat option" where
  "hex_value c =
     (let n = of_char c :: nat in
      if 48 \<le> n \<and> n \<le> 57 then Some (n - 48) else if 65 \<le> n \<and> n \<le> 70 then Some (n - 55)
      else if 97 \<le> n \<and> n \<le> 102 then Some (n - 87) else None)"

fun unescape_query :: "string \<Rightarrow> string option" where
  "unescape_query [] = Some []"
| "unescape_query (c # cs) =
     (if c = CHR ''%'' then
        (case cs of
           a # b # rest \<Rightarrow>
             (case (hex_value a, hex_value b) of
                (Some x, Some y) \<Rightarrow> map_option ((#) (char_of (16 * x + y))) (unescape_query rest)
              | _ \<Rightarrow> None)
         | _ \<Rightarrow> None)
      else map_option ((#) (if c = CHR ''+'' then CHR '' '' else c)) (unescape_query cs))"

definition decode_pair :: "string \<Rightarrow> (string \<times> string) option" where
  "decode_pair s =
     (case Cut1 s (CHR ''='') of (k, v, _) \<Rightarrow>
        (case (unescape_query k, unescape_query v) of (Some k, Some v) \<Rightarrow> Some (k, v) | _ \<Rightarrow> None))"

definition decode_form :: "string \<Rightarrow> (string \<times> string) option list" where
  "decode_form s = map decode_pair (Split1 s (CHR ''&''))"

lemma hex_upper_value: "n < 16 \<Longrightarrow> hex_value (hex_upper n) = Some n"
  by (simp add: hex_value_def hex_upper_def Let_def)

lemma hex_upper_plain: "n < 16 \<Longrightarrow> hex_upper n \<noteq> CHR ''&'' \<and> hex_upper n \<noteq> CHR ''=''"
proof -
  assume "n < 16"
  then have "of_char (hex_upper n) \<noteq> (38 :: nat) \<and> of_char (hex_upper n) \<noteq> (61 :: nat)" by (simp add: hex_upper_def)
  moreover have "of_char (CHR ''&'') = (38 :: nat)" "of_char (CHR ''='') = (61 :: nat)" by simp_all
  ultimately show ?thesis by metis
qed

lemma char_nibbles: "(of_char c :: nat) div 16 < 16 \<and> (of_char c :: nat) mod 16 < 16 \<and> char_of (16 * ((of_char c :: nat) div 16) + of_char c mod 16) = c"
proof -
  have "(of_char c :: nat) < 256" using of_char_mod_256 [of c, where 'a = nat] mod_less_divisor [of 256 "of_char c :: nat"] by simp
  then show ?thesis by (simp add: less_mult_imp_div_less)
qed

lemma unescape_char: "unescape_query (escape_char c @ rest) = map_option ((#) c) (unescape_query rest)"
proof (cases "unreserved c")
  case True
  have "c \<noteq> CHR ''%''" "c \<noteq> CHR ''+''" using True by (auto simp: unreserved_def Let_def)
  then show ?thesis using True by (simp add: escape_char_def)
next
  case False
  show ?thesis
  proof (cases "c = CHR '' ''")
    case True
    then show ?thesis using False by (simp add: escape_char_def)
  next
    case not_space: False
    then show ?thesis using False char_nibbles [of c] by (simp add: escape_char_def hex_upper_value)
  qed
qed

lemma unescape_escape_query: "unescape_query (QueryEscape s) = Some s"
  by (induction s) (simp_all add: QueryEscape_def unescape_char)

lemma escaped_plain: "CHR ''&'' \<notin> set (QueryEscape s) \<and> CHR ''='' \<notin> set (QueryEscape s)"
proof -
  have "c \<noteq> CHR ''&'' \<and> c \<noteq> CHR ''=''" if "c \<in> set (escape_char d)" for c d
  proof (cases "unreserved d")
    case True
    moreover have "\<not> unreserved (CHR ''&'')" "\<not> unreserved (CHR ''='')" by (simp_all add: unreserved_def)
    ultimately show ?thesis using that by (auto simp: escape_char_def)
  next
    case False
    then show ?thesis using that char_nibbles [of d] hex_upper_plain by (auto simp: escape_char_def split: if_splits)
  qed
  then show ?thesis by (auto simp: QueryEscape_def)
qed

lemma Cut1_at: "c \<notin> set k \<Longrightarrow> Cut1 (k @ c # v) c = (k, v, True)"
  by (induction k) auto

lemma decode_pair_escaped: "decode_pair (QueryEscape k @ ''='' @ QueryEscape v) = Some (k, v)"
  using Cut1_at [of "CHR ''=''" "QueryEscape k" "QueryEscape v"] escaped_plain [of k]
  by (simp add: decode_pair_def unescape_escape_query)

text \<open>
  a receiver reads what was meant. Decoding the form of an event gives back the three fields,
  the message byte for byte, whatever the run's last error or the names in it hold.
\<close>

theorem form_roundtrip: "decode_form (form_Encode (cn4mForm rnd event p)) = map Some (cn4mForm rnd event p)"
proof -
  let ?kvs = "cn4mForm rnd event p" and ?enc = "\<lambda>(k, v). QueryEscape k @ ''='' @ QueryEscape v"
  have "Split1 (form_Encode ?kvs) (CHR ''&'') = map ?enc ?kvs"
    unfolding form_Encode_def by (rule Split1_Join) (use escaped_plain in \<open>auto simp: cn4mForm_def\<close>)
  moreover have "decode_pair \<circ> ?enc = Some" using decode_pair_escaped by (auto simp: fun_eq_iff)
  ultimately show ?thesis by (simp add: decode_form_def)
qed


subsection \<open>What a person reads\<close>

lemma Cut_before:
  assumes "b \<notin> set pre" "a \<noteq> b"
  shows "Cut (pre @ a # b # sep @ rest) (a # b # sep) = (pre, rest, True)"
  using assms
proof (induction pre)
  case (Cons c pre)
  have "\<not> HasPrefix (c # pre @ a # b # sep @ rest) (a # b # sep)"
    using Cons.prems by (cases pre) (auto simp: HasPrefix_def)
  then show ?case using Cons by simp
qed (simp add: HasPrefix_def)

lemma Cut_none: "b \<notin> set s \<Longrightarrow> Cut s (a # b # sep) = (s, [], False)"
proof (induction s)
  case (Cons c s)
  have "\<not> HasPrefix (c # s) (a # b # sep)" using Cons.prems by (cases s) (auto simp: HasPrefix_def)
  then show ?case using Cons by simp
qed simp

text \<open>The counts of a run, as the summary starts.\<close>

definition run_counts :: "tally \<Rightarrow> string" where
  "run_counts t =
     fmt_int (tlSucceeded t) @ '' succeeded, '' @ fmt_int (tlFailed t) @ '' failed, '' @ fmt_int (tlSkipped t) @ '' skipped''
     @ (if tlLocked t > 0 then '', '' @ fmt_int (tlLocked t) @ '' file(s) locked'' else [])"

lemma run_summary_counts: "run_summary t = run_counts t @ (if tlProblems t = [] then [] else dash @ Join (tlProblems t) ''; '')"
  by (simp add: run_summary_def run_counts_def)

definition plain_byte :: "char \<Rightarrow> bool" where
  "plain_byte c \<longleftrightarrow> 32 \<le> (of_char c :: nat) \<and> (of_char c :: nat) < 127"

lemma counts_plain: "list_all plain_byte (run_counts t)"
proof -
  have "list_all plain_byte (fmt_int z)" for z
    using fmt_int_chars [of _ z] by (fastforce simp: list_all_iff plain_byte_def)
  then show ?thesis by (simp add: run_counts_def plain_byte_def)
qed

lemma counts_ends: "graphic (hd (run_counts t)) \<and> graphic (last (run_counts t))"
proof -
  have "graphic (hd (fmt_int z)) \<and> fmt_int z \<noteq> []" for z
    using fmt_int_chars [of "hd (fmt_int z)" z] fmt_nat_nonempty by (auto simp: fmt_int_def graphic_def)
  then show ?thesis by (simp add: run_counts_def graphic_def)
qed

lemma counts_trimmed: "TrimSpace (run_counts t) = run_counts t"
  by (rule TrimSpace_graphic) (use counts_ends in blast)

lemma dash_bytes: "dash = CHR '' '' # CHR 0xE2 # [CHR 0x80, CHR 0x94, CHR '' '']"
  by (simp add: dash_def)

lemma counts_no_dash: "CHR 0xE2 \<notin> set (run_counts t)"
  using counts_plain [of t] by (auto simp: list_all_iff plain_byte_def)

lemma truncate_short: "list_all plain_byte s \<Longrightarrow> TrimSpace s = s \<Longrightarrow> length s \<le> n \<Longrightarrow> truncate s n = s"
proof -
  assume s: "list_all plain_byte s" "TrimSpace s = s" "length s \<le> n"
  have "map (\<lambda>c. if c = CHR 0x0A then CHR '' '' else c) s = s"
    using s(1) by (intro map_idI) (auto simp: list_all_iff plain_byte_def)
  then show ?thesis using s by (simp add: truncate_def)
qed

text \<open>The symbol and the word of each outcome.\<close>

definition chat_verdict :: "run_status \<Rightarrow> string \<times> string" where
  "chat_verdict s =
     (case s of RunSuccess \<Rightarrow> (discordOK, ''complete'') | RunFailed \<Rightarrow> (discordFailed, ''failed'')
      | RunCancelled \<Rightarrow> (discordStopped, ''cancelled'') | _ \<Rightarrow> (discordWarning, ''incomplete''))"

text \<open>
  a chat line holds the counts of a run and nothing after them. Whatever the problems of the
  destinations say, the line for a completed run is the symbol and the word of its status, then the
  counts of its summary: no identifier of a target, no path and no error text reaches the channel.
\<close>

theorem chat_line_holds_only_counts:
  assumes "rrSummary (fst run) = run_summary t" "length (run_counts t) \<le> 200"
  shows "discordContent rnd EventRunCompleted (StatusPayload now run snap nm)
    = discord_line (fst (chat_verdict (rrStatus (fst run)))) (snd (chat_verdict (rrStatus (fst run)))) (dash @ run_counts t)"
proof -
  have "shortReason (run_summary t) = run_counts t"
  proof (cases "tlProblems t = []")
    case True
    then show ?thesis using Cut_none [OF counts_no_dash] truncate_short [OF counts_plain counts_trimmed assms(2)]
      by (simp add: shortReason_def run_summary_counts dash_bytes)
  next
    case False
    then show ?thesis using Cut_before [OF counts_no_dash, of "CHR '' ''" t "[CHR 0x80, CHR 0x94, CHR '' '']" "Join (tlProblems t) ''; ''"]
      by (simp add: shortReason_def run_summary_counts dash_bytes counts_trimmed)
  qed
  moreover have "run_summary t \<noteq> []" by (simp add: run_summary_counts run_counts_def)
  ultimately have "run_outcome_text (StatusPayload now run snap nm) f = run_counts t" for f
    by (simp add: run_outcome_text_def payload_last_error assms(1))
  then show ?thesis
    by (cases "rrStatus (fst run)")
      (simp_all add: discordContent_def discord_completed_def payload_status chat_verdict_def Let_def)
qed

definition sample_tally :: tally where
  "sample_tally = tally0\<lparr>tlFailed := 1, tlProblems := [''9fc0 failed: /mnt is unavailable'']\<rparr>"

theorem chat_line_holds_only_counts_witness:
  "discordContent id EventRunCompleted
     (StatusPayload 0 (sample_row\<lparr>rrStatus := RunFailed, rrSummary := run_summary sample_tally\<rparr>, []) None None)
     = discord_line discordFailed ''failed'' (dash @ ''0 succeeded, 1 failed, 0 skipped'')"
proof -
  have c: "run_counts sample_tally = ''0 succeeded, 1 failed, 0 skipped''" by code_simp
  then show ?thesis
    using chat_line_holds_only_counts [of "(sample_row\<lparr>rrStatus := RunFailed, rrSummary := run_summary sample_tally\<rparr>, [])" sample_tally]
    by (simp add: chat_verdict_def)
qed

text \<open>
  green means a clean run. The suite view shows the level \<open>ok\<close> exactly for the completion of
  a run whose status is success, the error level exactly for a failed one, and every event is
  shown at a level the receiver knows.
\<close>

theorem green_means_success:
  "(cn4mLevel event (StatusPayload now run snap nm) = levelOK \<longleftrightarrow> event = EventRunCompleted \<and> rrStatus (fst run) = RunSuccess)
   \<and> (cn4mLevel event (StatusPayload now run snap nm) = levelError \<longleftrightarrow>
        event = EventRunFailed \<or> event = EventRunCompleted \<and> rrStatus (fst run) = RunFailed)
   \<and> cn4mLevel event (StatusPayload now run snap nm)
       \<in> {levelWorking, levelProgress, levelOK, levelWarning, levelBlocked, levelError}"
  by (cases "rrStatus (fst run)") (auto simp: cn4mLevel_def payload_status level_names event_names Let_def)

text \<open>
  the percentage is sane. For any rounding that is monotone and exact on 0, 1 and 100, it lies
  between 0 and 100, is 100 once everything is done and 0 while nothing is, and is there whenever
  a total is known.
\<close>

theorem percentage_is_sane:
  assumes "mono rnd" "rnd 0 = 0" "rnd 1 = 1" "rnd 100 = 100" "0 < t"
  shows "0 \<le> pct_of rnd d t \<and> pct_of rnd d t \<le> 100
    \<and> (t \<le> d \<longrightarrow> pct_of rnd d t = 100) \<and> (d \<le> 0 \<longrightarrow> pct_of rnd d t = 0)"
proof -
  have full: "100 \<le> rnd (rnd (d / t) * 100)" if "t \<le> d"
  proof -
    have "1 \<le> rnd (d / t)" using monoD [OF assms(1), of 1 "d / t"] that assms by (simp add: field_simps)
    then show ?thesis using monoD [OF assms(1), of 100 "rnd (d / t) * 100"] assms(4) by simp
  qed
  have none: "rnd (rnd (d / t) * 100) \<le> 0" if "d \<le> 0"
  proof -
    have "rnd (d / t) \<le> 0" using monoD [OF assms(1), of "d / t" 0] that assms by (simp add: field_simps)
    then show ?thesis using monoD [OF assms(1), of "rnd (d / t) * 100" 0] assms(2) by simp
  qed
  have "trunc_real x \<le> 0" if "x \<le> 0" for x
    using that by (auto simp: trunc_real_def)
  moreover have "100 \<le> trunc_real x" if "100 \<le> x" for x
    using that by (auto simp: trunc_real_def le_floor_iff)
  ultimately show ?thesis using full none by (force simp: pct_of_def Let_def)
qed

theorem percentage_is_sane_witness: "pct_of id 5 5 = 100"
  using percentage_is_sane [of id 5 5] by (simp add: mono_def)

text \<open>A shortened text can be longer than its limit by two bytes, and can end inside a character.\<close>

lemma truncate_exceeds: "length (truncate ''abcdef'' 5) = 7"
  by code_simp

lemma truncate_splits_characters: "truncate [CHR ''a'', CHR 0xC3, CHR 0xA9, CHR ''b''] 3 = [CHR ''a'', CHR 0xC3] @ ellipsis"
  by code_simp

end
