(* ===== verification/Notifier.thy ===== *)
theory Notifier
  imports Webhooks Callbacks Targets
begin

text \<open>
  The delivery of callbacks (\<^verbatim>\<open>src/internal/notify/notify.go\<close>): one queue and one worker per
  webhook, the throttle of progress events, the back-off of optional receivers, signing, and
  retries. A receiver's answers, the key of a stored secret and the HMAC are arguments.
\<close>

section \<open>State\<close>

record delivery =
  dvHook :: webhook
  dvEvent :: string
  dvRunID :: string
  dvPayload :: payload

record outage =
  ogFailures :: int
  ogRetryAt :: gotime

text \<open>A lane is a channel of 256 places with the goroutine that drains it.\<close>

record lane =
  lnQueue :: "delivery list"
  lnBusy :: "delivery option"
  lnAlive :: bool

record notifier =
  ntLanes :: "lane gomap"
  ntStopped :: bool
  ntLastProgress :: "gotime gomap"
  ntDown :: "outage gomap"

definition newNotifier :: notifier where
  "newNotifier = \<lparr>ntLanes = [], ntStopped = False, ntLastProgress = [], ntDown = []\<rparr>"

definition queueDepth :: nat where "queueDepth = 256"

section \<open>Throttle and back-off\<close>

definition outageBackoffStart :: duration where "outageBackoffStart = 60000000000"
definition outageBackoffMax :: duration where "outageBackoffMax = 1800000000000"

definition progress_key :: "webhook \<Rightarrow> string \<Rightarrow> string" where
  "progress_key hook runID = whID hook @ [CHR 0x00] @ runID"

definition min_interval :: "webhook \<Rightarrow> duration" where
  "min_interval hook = wrap64 (whMinInterval hook * 1000000000)"

definition progressDue :: "gotime \<Rightarrow> webhook \<Rightarrow> string \<Rightarrow> notifier \<Rightarrow> bool \<times> notifier" where
  "progressDue now hook runID n =
     (let key = progress_key hook runID in
      case goget (ntLastProgress n) key of
        Some prev \<Rightarrow>
          if time_Sub now prev < min_interval hook then (False, n)
          else (True, n\<lparr>ntLastProgress := goput key now (ntLastProgress n)\<rparr>)
      | None \<Rightarrow> (True, n\<lparr>ntLastProgress := goput key now (ntLastProgress n)\<rparr>))"

definition backedOff :: "gotime \<Rightarrow> webhook \<Rightarrow> notifier \<Rightarrow> bool" where
  "backedOff now hook n = (case goget (ntDown n) (whID hook) of None \<Rightarrow> False | Some og \<Rightarrow> now < ogRetryAt og)"

definition outage_wait :: "int \<Rightarrow> duration" where
  "outage_wait failures =
     (let w = wrap64 (outageBackoffStart * 2 ^ nat (min (failures - 1) 8)) in if w > outageBackoffMax then outageBackoffMax else w)"

definition noteOutcome :: "gotime \<Rightarrow> webhook \<Rightarrow> bool \<Rightarrow> notifier \<Rightarrow> notifier" where
  "noteOutcome now hook ok n =
     (if \<not> BestEffort hook then n
      else if ok then n\<lparr>ntDown := godel (whID hook) (ntDown n)\<rparr>
      else let f = (case goget (ntDown n) (whID hook) of None \<Rightarrow> 0 | Some og \<Rightarrow> ogFailures og) + 1
           in n\<lparr>ntDown := goput (whID hook) \<lparr>ogFailures = f, ogRetryAt = now + outage_wait f\<rparr> (ntDown n)\<rparr>)"

definition notifier_Forget :: "string \<Rightarrow> notifier \<Rightarrow> notifier" where
  "notifier_Forget runID n =
     n\<lparr>ntLastProgress := filter (\<lambda>(key, _). \<not> (length key > length runID \<and> drop (length key - length runID) key = runID))
          (ntLastProgress n)\<rparr>"


section \<open>Queueing\<close>

text \<open>The locked half of \<open>enqueue\<close> finds or makes the lane; the send follows outside the lock.\<close>

definition new_lane :: lane where
  "new_lane = \<lparr>lnQueue = [], lnBusy = None, lnAlive = True\<rparr>"

definition lane_enter :: "delivery \<Rightarrow> notifier \<Rightarrow> bool \<times> notifier" where
  "lane_enter d n =
     (if ntStopped n then (False, n)
      else case goget (ntLanes n) (whID (dvHook d)) of
             Some _ \<Rightarrow> (True, n)
           | None \<Rightarrow> (True, n\<lparr>ntLanes := goput (whID (dvHook d)) new_lane (ntLanes n)\<rparr>))"

definition lane_send :: "delivery \<Rightarrow> notifier \<Rightarrow> bool \<times> notifier" where
  "lane_send d n =
     (case goget (ntLanes n) (whID (dvHook d)) of
        None \<Rightarrow> (False, n)
      | Some l \<Rightarrow>
          if length (lnQueue l) < queueDepth
          then (True, n\<lparr>ntLanes := goput (whID (dvHook d)) (l\<lparr>lnQueue := lnQueue l @ [d]\<rparr>) (ntLanes n)\<rparr>)
          else (False, n))"

definition enqueue :: "delivery \<Rightarrow> notifier \<Rightarrow> bool \<times> notifier" where
  "enqueue d n = (case lane_enter d n of (False, n) \<Rightarrow> (False, n) | (True, n) \<Rightarrow> lane_send d n)"

definition delivery_of :: "webhook \<Rightarrow> string \<Rightarrow> string \<Rightarrow> payload \<Rightarrow> delivery" where
  "delivery_of hook runID event p =
     \<lparr>dvHook = hook, dvEvent = event, dvRunID = runID, dvPayload = goput ''event'' (JStr event) p\<rparr>"

definition notify_hook :: "gotime \<Rightarrow> string \<Rightarrow> string \<Rightarrow> payload \<Rightarrow> webhook \<Rightarrow> notifier \<Rightarrow> notifier" where
  "notify_hook now runID event p hook n =
     (if \<not> Subscribes hook event then n
      else
        let (due, n) = (if event = EventProgress then progressDue now hook runID n else (True, n))
        in if \<not> due then n
           else if BestEffort hook \<and> backedOff now hook n then n
           else snd (enqueue (delivery_of hook runID event p) n))"

definition notifier_Notify ::
  "gotime \<Rightarrow> goerr + webhook list \<Rightarrow> string \<Rightarrow> string \<Rightarrow> payload \<Rightarrow> notifier \<Rightarrow> notifier" where
  "notifier_Notify now hooks runID event p n =
     (case hooks of Inl _ \<Rightarrow> n | Inr hooks \<Rightarrow> fold (notify_hook now runID event p) hooks n)"

definition notifier_stop :: "notifier \<Rightarrow> notifier" where
  "notifier_stop n = n\<lparr>ntStopped := True\<rparr>"


section \<open>One delivery\<close>

definition maxAttempts :: nat where "maxAttempts = 3"

definition retry_backoff :: "nat \<Rightarrow> duration" where
  "retry_backoff k = (if k = 0 then 0 else if k = 1 then 2000000000 else 8000000000)"

record http_request =
  hqURL :: string
  hqBody :: string
  hqContentType :: string
  hqUserAgent :: string
  hqSignature :: "string option"

text \<open>
  \<open>peBuild\<close>: why no request can be made of an address. \<open>peSend k\<close>: the status, or the error, an
  attempt gets. \<open>peQuits k\<close>: the context or the stop channel ends the wait before attempt \<open>k\<close>.
\<close>

record post_env =
  peBuild :: "string \<Rightarrow> goerr option"
  peDecrypt :: "string \<Rightarrow> goerr + string"
  peHmac :: "string \<Rightarrow> string \<Rightarrow> string"
  peSend :: "nat \<Rightarrow> http_request \<Rightarrow> goerr + int"
  peQuits :: "nat \<Rightarrow> bool"
  peMarshal :: "payload \<Rightarrow> goerr + string"
  peRound :: "real \<Rightarrow> real"

definition bodyFor :: "post_env \<Rightarrow> webhook \<Rightarrow> string \<Rightarrow> payload \<Rightarrow> goerr + string \<times> string" where
  "bodyFor P hook event p =
     (if whFormat hook = FormatCN4M
      then Inr (form_Encode (cn4mForm (peRound P) event p), ''application/x-www-form-urlencoded'')
      else case peMarshal P (if whFormat hook = FormatDiscord then [(''content'', JStr (discordContent (peRound P) event p))] else p) of
             Inl e \<Rightarrow> Inl e
           | Inr b \<Rightarrow> Inr (b, ''application/json''))"

definition post_once :: "post_env \<Rightarrow> nat \<Rightarrow> webhook \<Rightarrow> string \<Rightarrow> string \<Rightarrow> (goerr + int) \<times> http_request list" where
  "post_once P k hook body contentType =
     (case peBuild P (whURL hook) of
        Some e \<Rightarrow> (Inl (wrap ''building the request: '' e), [])
      | None \<Rightarrow>
          (let r = \<lparr>hqURL = whURL hook, hqBody = body, hqContentType = contentType, hqUserAgent = ''cn4m-cascade'', hqSignature = None\<rparr> in
           if whSecret hook = [] then (peSend P k r, [r])
           else case peDecrypt P (whSecret hook) of
                  Inl e \<Rightarrow> (Inl (wrap ''the signing secret could not be read: '' e), [])
                | Inr secret \<Rightarrow>
                    (let r = r\<lparr>hqSignature := Some (peHmac P secret body)\<rparr> in (peSend P k r, [r]))))"

text \<open>A client error other than 408 and 429 ends the attempts.\<close>

definition final_status :: "int \<Rightarrow> bool" where
  "final_status s \<longleftrightarrow> 400 \<le> s \<and> s < 500 \<and> s \<noteq> 408 \<and> s \<noteq> 429"

datatype delivered = Accepted | Undelivered goerr | Abandoned

fun attempts :: "post_env \<Rightarrow> webhook \<Rightarrow> string \<Rightarrow> string \<Rightarrow> nat \<Rightarrow> nat \<Rightarrow> goerr \<Rightarrow> delivered \<times> http_request list" where
  "attempts P hook body ct k 0 lastErr = (Undelivered lastErr, [])"
| "attempts P hook body ct k (Suc n) lastErr =
     (if retry_backoff k > 0 \<and> peQuits P k then (Abandoned, [])
      else case post_once P k hook body ct of
        (Inl e, rs) \<Rightarrow> (case attempts P hook body ct (Suc k) n e of (v, rs') \<Rightarrow> (v, rs @ rs'))
      | (Inr s, rs) \<Rightarrow>
          if 200 \<le> s \<and> s < 300 then (Accepted, rs)
          else let e = new_error (''the receiver answered '' @ fmt_int s) []
               in if final_status s then (Undelivered e, rs)
                  else (case attempts P hook body ct (Suc k) n e of (v, rs') \<Rightarrow> (v, rs @ rs')))"

definition undelivered_message :: "delivery \<Rightarrow> goerr \<Rightarrow> string" where
  "undelivered_message d e =
     ''could not deliver the '' @ dvEvent d @ '' callback to '' @ whURL (dvHook d) @ '': '' @ err_text e"

text \<open>What a delivery records against the run, what it sends, and what it leaves noted.\<close>

definition deliver :: "post_env \<Rightarrow> gotime \<Rightarrow> delivery \<Rightarrow> notifier \<Rightarrow> string option \<times> http_request list \<times> notifier" where
  "deliver P now d n =
     (case bodyFor P (dvHook d) (dvEvent d) (dvPayload d) of
        Inl _ \<Rightarrow> (None, [], n)
      | Inr (b, ct) \<Rightarrow>
          (case attempts P (dvHook d) b ct 0 maxAttempts (new_error [] []) of
             (Accepted, rs) \<Rightarrow> (None, rs, noteOutcome now (dvHook d) True n)
           | (Abandoned, rs) \<Rightarrow> (None, rs, n)
           | (Undelivered e, rs) \<Rightarrow>
               if BestEffort (dvHook d) then (None, rs, noteOutcome now (dvHook d) False n)
               else (if dvRunID d = [] then None else Some (undelivered_message d e), rs, n)))"

section \<open>The lanes at work\<close>

text \<open>
  What may happen to the lanes, in any order: producers enter and send, workers take from their
  lane and finish what they took, the notifier is stopped, and a worker ends, with the context or
  when it has drained its lane after the stop. \<open>nsSent\<close> and \<open>nsServed\<close> log what was accepted by
  a lane and what a worker is done with; \<open>cancelled\<close> is whether the context may end.
\<close>

record note_state =
  nsN :: notifier
  nsSending :: "delivery list"
  nsSent :: "delivery list"
  nsServed :: "delivery list"

definition note_start :: note_state where
  "note_start = \<lparr>nsN = newNotifier, nsSending = [], nsSent = [], nsServed = []\<rparr>"

definition with_lane :: "string \<Rightarrow> lane \<Rightarrow> notifier \<Rightarrow> notifier" where
  "with_lane i l n = n\<lparr>ntLanes := goput i l (ntLanes n)\<rparr>"

definition lane_take :: "lane \<Rightarrow> lane option" where
  "lane_take l =
     (if \<not> lnAlive l then None
      else case (lnBusy l, lnQueue l) of (None, d # q) \<Rightarrow> Some (l\<lparr>lnQueue := q, lnBusy := Some d\<rparr>) | _ \<Rightarrow> None)"

definition lane_quits :: "bool \<Rightarrow> notifier \<Rightarrow> lane \<Rightarrow> bool" where
  "lane_quits cancelled n l \<longleftrightarrow> lnAlive l \<and> lnBusy l = None \<and> (cancelled \<or> ntStopped n \<and> lnQueue l = [])"

text \<open>The worker of one lane.\<close>

inductive lane_work :: "bool \<Rightarrow> string \<Rightarrow> note_state \<Rightarrow> note_state \<Rightarrow> bool" for cancelled :: bool and i :: string where
  took: "goget (ntLanes (nsN s)) i = Some l \<Longrightarrow> lane_take l = Some l' \<Longrightarrow>
    lane_work cancelled i s (s\<lparr>nsN := with_lane i l' (nsN s)\<rparr>)"
| served: "goget (ntLanes (nsN s)) i = Some l \<Longrightarrow> lnBusy l = Some d \<Longrightarrow>
    lane_work cancelled i s
      (s\<lparr>nsN := snd (snd (deliver P now d (with_lane i (l\<lparr>lnBusy := None\<rparr>) (nsN s)))), nsServed := nsServed s @ [d]\<rparr>)"
| quit: "goget (ntLanes (nsN s)) i = Some l \<Longrightarrow> lane_quits cancelled (nsN s) l \<Longrightarrow>
    lane_work cancelled i s (s\<lparr>nsN := with_lane i (l\<lparr>lnAlive := False\<rparr>) (nsN s)\<rparr>)"

inductive note_step :: "bool \<Rightarrow> note_state \<Rightarrow> note_state \<Rightarrow> bool" for cancelled :: bool where
  entered: "lane_enter d (nsN s) = (True, n) \<Longrightarrow> note_step cancelled s (s\<lparr>nsN := n, nsSending := d # nsSending s\<rparr>)"
| sent: "d \<in> set (nsSending s) \<Longrightarrow> lane_send d (nsN s) = (True, n) \<Longrightarrow>
    note_step cancelled s (s\<lparr>nsN := n, nsSending := remove1 d (nsSending s), nsSent := nsSent s @ [d]\<rparr>)"
| dropped: "d \<in> set (nsSending s) \<Longrightarrow> lane_send d (nsN s) = (False, n) \<Longrightarrow>
    note_step cancelled s (s\<lparr>nsN := n, nsSending := remove1 d (nsSending s)\<rparr>)"
| worked: "lane_work cancelled i s s' \<Longrightarrow> note_step cancelled s s'"
| throttled: "note_step cancelled s (s\<lparr>nsN := snd (progressDue now hook runID (nsN s))\<rparr>)"
| forgot: "note_step cancelled s (s\<lparr>nsN := notifier_Forget runID (nsN s)\<rparr>)"
| stopped: "note_step cancelled s (s\<lparr>nsN := notifier_stop (nsN s)\<rparr>)"

inductive_cases lane_workE: "lane_work cancelled i s s'"

text \<open>The deliveries of one webhook, and what of them a lane still holds.\<close>

definition of_hook :: "string \<Rightarrow> delivery list \<Rightarrow> delivery list" where
  "of_hook i ds = filter (\<lambda>d. whID (dvHook d) = i) ds"

definition held_by_lane :: "lane option \<Rightarrow> delivery list" where
  "held_by_lane l = (case l of None \<Rightarrow> [] | Some l \<Rightarrow> (case lnBusy l of None \<Rightarrow> [] | Some d \<Rightarrow> [d]) @ lnQueue l)"

definition lanes_ok :: "note_state \<Rightarrow> bool" where
  "lanes_ok s \<longleftrightarrow>
     (\<forall>i. of_hook i (nsSent s) = of_hook i (nsServed s) @ held_by_lane (goget (ntLanes (nsN s)) i)
        \<and> (\<forall>l. goget (ntLanes (nsN s)) i = Some l \<longrightarrow> length (lnQueue l) \<le> queueDepth))"

lemma of_hook_simps [simp]:
  "of_hook i [] = []" "of_hook i (xs @ ys) = of_hook i xs @ of_hook i ys" "of_hook i (d # ds) = (if whID (dvHook d) = i then d # of_hook i ds else of_hook i ds)"
  by (simp_all add: of_hook_def)

lemma noteOutcome_lanes [simp]: "ntLanes (noteOutcome now hook ok n) = ntLanes n" "ntStopped (noteOutcome now hook ok n) = ntStopped n"
  by (simp_all add: noteOutcome_def Let_def)

lemma deliver_lanes [simp]: "ntLanes (snd (snd (deliver P now d n))) = ntLanes n" "ntStopped (snd (snd (deliver P now d n))) = ntStopped n"
  by (simp_all add: deliver_def split: sum.split prod.split delivered.split)

lemma other_lanes [simp]:
  "ntLanes (snd (progressDue now hook runID n)) = ntLanes n" "ntLanes (notifier_Forget runID n) = ntLanes n" "ntLanes (notifier_stop n) = ntLanes n"
  by (simp_all add: progressDue_def notifier_Forget_def notifier_stop_def Let_def split: option.split)

lemma with_lane_get [simp]:
  "goget (ntLanes (with_lane i l n)) j = (if j = i then Some l else goget (ntLanes n) j)" "ntStopped (with_lane i l n) = ntStopped n"
  by (simp_all add: with_lane_def gm.get_put)

lemma held_by_new [simp]: "held_by_lane (Some new_lane) = []" "held_by_lane None = []"
  by (simp_all add: held_by_lane_def new_lane_def)

lemma lane_enter_lanes:
  assumes "lane_enter d n = (True, n')"
  shows "held_by_lane (goget (ntLanes n') i) = held_by_lane (goget (ntLanes n) i)"
    "goget (ntLanes n') i = Some l \<Longrightarrow> goget (ntLanes n) i = Some l \<or> l = new_lane"
  using assms by (auto simp: lane_enter_def gm.get_put split: if_splits option.splits)

lemma lane_send_True:
  assumes "lane_send d n = (True, n')"
  obtains l where "goget (ntLanes n) (whID (dvHook d)) = Some l" "length (lnQueue l) < queueDepth"
    "n' = with_lane (whID (dvHook d)) (l\<lparr>lnQueue := lnQueue l @ [d]\<rparr>) n"
  using assms by (auto simp: lane_send_def with_lane_def split: option.splits if_splits)

lemma lane_send_False: "lane_send d n = (False, n') \<Longrightarrow> n' = n"
  by (auto simp: lane_send_def split: option.splits if_splits)

lemma lane_take_Some:
  assumes "lane_take l = Some l'"
  obtains d where "lnAlive l" "lnBusy l = None" "lnQueue l = d # lnQueue l'" "lnBusy l' = Some d" "lnAlive l'"
  using assms by (auto simp: lane_take_def split: if_splits option.splits list.splits)

lemma lanes_okD:
  assumes "lanes_ok s" "goget (ntLanes (nsN s)) i = Some l"
  shows "length (lnQueue l) \<le> queueDepth" "of_hook i (nsSent s) = of_hook i (nsServed s) @ held_by_lane (Some l)"
  using assms(1) [unfolded lanes_ok_def, rule_format, of i] assms(2) by simp_all

lemma held_of_hook: "lanes_ok s \<Longrightarrow> goget (ntLanes (nsN s)) i = Some l \<Longrightarrow> d \<in> set (held_by_lane (Some l)) \<Longrightarrow> whID (dvHook d) = i"
proof -
  assume "lanes_ok s" "goget (ntLanes (nsN s)) i = Some l" and d: "d \<in> set (held_by_lane (Some l))"
  then have "of_hook i (nsSent s) = of_hook i (nsServed s) @ held_by_lane (Some l)" by (auto simp: lanes_ok_def)
  then have "d \<in> set (of_hook i (nsSent s))" using d by simp
  then show ?thesis by (simp add: of_hook_def)
qed

lemma lanes_ok_work: "lane_work cancelled i s s' \<Longrightarrow> lanes_ok s \<Longrightarrow> lanes_ok s'"
proof (induction rule: lane_work.induct)
  case (took s l l')
  from took.hyps(2) show ?case
  proof (rule lane_take_Some)
    fix d assume t: "lnAlive l" "lnBusy l = None" "lnQueue l = d # lnQueue l'" "lnBusy l' = Some d"
    then have "held_by_lane (Some l') = held_by_lane (Some l)" by (simp add: held_by_lane_def)
    moreover have "length (lnQueue l') \<le> queueDepth" using lanes_okD(1) [OF took.prems took.hyps(1)] t(3) by simp
    ultimately show ?thesis using took by (auto simp: lanes_ok_def)
  qed
next
  case (served s l d P now)
  have "whID (dvHook d) = i" using held_of_hook [OF served.prems served.hyps(1), of d] served.hyps(2) by (simp add: held_by_lane_def)
  then show ?case using served by (auto simp: lanes_ok_def held_by_lane_def)
next
  case (quit s l)
  then show ?case by (auto simp: lanes_ok_def held_by_lane_def)
qed

lemma lanes_ok_step: "note_step cancelled s s' \<Longrightarrow> lanes_ok s \<Longrightarrow> lanes_ok s'"
proof (induction rule: note_step.induct)
  case (entered d s n)
  then show ?case using lane_enter_lanes [OF entered.hyps] by (force simp: lanes_ok_def new_lane_def)
next
  case (sent d s n)
  from sent.hyps(2) obtain l where l: "goget (ntLanes (nsN s)) (whID (dvHook d)) = Some l" "length (lnQueue l) < queueDepth"
    and n: "n = with_lane (whID (dvHook d)) (l\<lparr>lnQueue := lnQueue l @ [d]\<rparr>) (nsN s)" by (rule lane_send_True)
  have "of_hook (whID (dvHook d)) (nsSent s) = of_hook (whID (dvHook d)) (nsServed s) @ held_by_lane (Some l)"
    using sent.prems l(1) by (auto simp: lanes_ok_def)
  then show ?case using sent.prems l by (auto simp: lanes_ok_def n held_by_lane_def)
next
  case (dropped d s n)
  then show ?case using lane_send_False [OF dropped.hyps(2)] by (simp add: lanes_ok_def)
next
  case (worked i s s')
  then show ?case using lanes_ok_work by blast
qed (simp_all add: lanes_ok_def)

lemma lanes_ok_reachable: "(note_step cancelled)\<^sup>*\<^sup>* note_start s \<Longrightarrow> lanes_ok s"
proof (induction rule: rtranclp_induct)
  case base
  show ?case by (simp add: lanes_ok_def note_start_def newNotifier_def)
next
  case (step y z)
  then show ?case using lanes_ok_step by blast
qed


definition sample_delivery :: delivery where
  "sample_delivery = delivery_of (sample_hook ''1'' FormatJSON) ''r'' EventRunStarted []"

definition lane_with :: "delivery list \<Rightarrow> delivery option \<Rightarrow> bool \<Rightarrow> notifier" where
  "lane_with q b alive = newNotifier\<lparr>ntLanes := [(''1'', \<lparr>lnQueue = q, lnBusy = b, lnAlive = alive\<rparr>)]\<rparr>"

lemma sample_hook_id [simp]: "whID (dvHook sample_delivery) = ''1''"
  by (simp add: sample_delivery_def delivery_of_def sample_hook_def)

lemma sample_entered: "note_step c note_start (note_start\<lparr>nsN := lane_with [] None True, nsSending := [sample_delivery]\<rparr>)"
proof -
  have "lane_enter sample_delivery (nsN note_start) = (True, lane_with [] None True)"
    by (simp add: lane_enter_def note_start_def newNotifier_def lane_with_def new_lane_def)
  from note_step.entered [OF this, of c] show ?thesis by (simp add: note_start_def)
qed

definition sample_queued :: note_state where
  "sample_queued = \<lparr>nsN = lane_with [sample_delivery] None True, nsSending = [], nsSent = [sample_delivery], nsServed = []\<rparr>"

lemma queued_reachable: "(note_step c)\<^sup>*\<^sup>* note_start sample_queued"
proof -
  let ?s = "note_start\<lparr>nsN := lane_with [] None True, nsSending := [sample_delivery]\<rparr>"
  have "lane_send sample_delivery (nsN ?s) = (True, lane_with [sample_delivery] None True)"
    by (simp add: lane_send_def lane_with_def queueDepth_def)
  then have "note_step c ?s sample_queued"
    using note_step.sent [of sample_delivery ?s "lane_with [sample_delivery] None True" c] by (simp add: sample_queued_def note_start_def)
  then show ?thesis using sample_entered [of c] by (rule converse_rtranclp_into_rtranclp [rotated, OF r_into_rtranclp])
qed



subsection \<open>Stopping\<close>

definition lane_weight :: "string \<Rightarrow> note_state \<Rightarrow> nat" where
  "lane_weight i s =
     (case goget (ntLanes (nsN s)) i of
        None \<Rightarrow> 0
      | Some l \<Rightarrow> 2 * length (lnQueue l) + (case lnBusy l of None \<Rightarrow> 0 | Some _ \<Rightarrow> 1) + (if lnAlive l then 1 else 0))"

lemma lane_work_weight: "lane_work c i s s' \<Longrightarrow> lane_weight i s' < lane_weight i s"
  by (induction rule: lane_work.induct) (auto simp: lane_weight_def lane_quits_def elim: lane_take_Some)

text \<open>What the worker of one lane keeps while nothing is sent to it.\<close>

definition lane_inv :: "string \<Rightarrow> delivery list \<Rightarrow> note_state \<Rightarrow> bool" where
  "lane_inv i sent s \<longleftrightarrow> nsSent s = sent \<and> ntStopped (nsN s) \<and> lanes_ok s
     \<and> (\<exists>l. goget (ntLanes (nsN s)) i = Some l \<and> (lnAlive l \<or> lnBusy l = None \<and> lnQueue l = []))"

lemma lane_inv_work: "lane_work False i s s' \<Longrightarrow> lane_inv i sent s \<Longrightarrow> lane_inv i sent s'"
proof -
  assume w: "lane_work False i s s'" and inv: "lane_inv i sent s"
  have "lanes_ok s'" using lanes_ok_work [OF w] inv by (simp add: lane_inv_def)
  with w inv show ?thesis
    by (elim lane_workE) (auto simp: lane_inv_def lane_quits_def elim: lane_take_Some)
qed

lemma lane_stuck:
  assumes "lane_inv i sent s" "\<And>s'. \<not> lane_work False i s s'"
  shows "\<exists>l. goget (ntLanes (nsN s)) i = Some l \<and> \<not> lnAlive l \<and> of_hook i (nsServed s) = of_hook i sent"
proof -
  obtain l where l: "goget (ntLanes (nsN s)) i = Some l" "lnAlive l \<or> lnBusy l = None \<and> lnQueue l = []"
    and ok: "lanes_ok s" "nsSent s = sent" "ntStopped (nsN s)" using assms(1) by (auto simp: lane_inv_def)
  have busy: "lnBusy l = None" using lane_work.served [OF l(1)] assms(2) by (cases "lnBusy l") blast+
  have "lane_take l = None" using lane_work.took [OF l(1)] assms(2) by (cases "lane_take l") blast+
  then have "\<not> lnAlive l \<or> lnQueue l = []" using busy by (auto simp: lane_take_def split: list.splits)
  moreover have "\<not> lane_quits False (nsN s) l" using lane_work.quit [OF l(1)] assms(2) by blast
  ultimately have "\<not> lnAlive l" "lnQueue l = []" using busy ok(3) l(2) by (auto simp: lane_quits_def)
  moreover have "of_hook i sent = of_hook i (nsServed s) @ held_by_lane (Some l)" using ok l(1) by (force simp: lanes_ok_def)
  ultimately show ?thesis using l(1) busy by (simp add: held_by_lane_def)
qed

lemma lane_inv_works: "(lane_work False i ^^ k) s s' \<Longrightarrow> lane_inv i sent s \<Longrightarrow> lane_inv i sent s' \<and> k + lane_weight i s' \<le> lane_weight i s"
proof (induction k arbitrary: s')
  case (Suc k)
  then obtain t where t: "(lane_work False i ^^ k) s t" "lane_work False i t s'" by auto
  then show ?case using Suc lane_inv_work [OF t(2)] lane_work_weight [OF t(2)] by fastforce
qed simp


definition sample_post :: post_env where
  "sample_post =
     \<lparr>peBuild = (\<lambda>_. None), peDecrypt = (\<lambda>s. Inr (''key of '' @ s)), peHmac = (\<lambda>k b. k @ b), peSend = (\<lambda>k r. Inr 200),
      peQuits = (\<lambda>_. False), peMarshal = (\<lambda>_. Inr ''{}''), peRound = id\<rparr>"


text \<open>
  A producer that entered before the stop can send after the worker has drained the lane and
  ended: the lane accepts a delivery nobody will make.
\<close>

lemma late_send_is_lost:
  "\<exists>s. (note_step False)\<^sup>*\<^sup>* note_start s \<and> nsSent s = [sample_delivery] \<and> nsServed s = []
     \<and> goget (ntLanes (nsN s)) ''1'' = Some \<lparr>lnQueue = [sample_delivery], lnBusy = None, lnAlive = False\<rparr>"
proof -
  let ?s1 = "note_start\<lparr>nsN := lane_with [] None True, nsSending := [sample_delivery]\<rparr>"
  let ?s2 = "?s1\<lparr>nsN := notifier_stop (lane_with [] None True)\<rparr>"
  let ?s3 = "?s2\<lparr>nsN := notifier_stop (lane_with [] None False)\<rparr>"
  let ?s4 = "?s3\<lparr>nsN := notifier_stop (lane_with [sample_delivery] None False), nsSending := [], nsSent := [sample_delivery]\<rparr>"
  note [simp] = note_start_def notifier_stop_def lane_with_def newNotifier_def with_lane_def
  have "note_step False note_start ?s1" by (rule sample_entered)
  moreover have "note_step False ?s1 ?s2" using note_step.stopped [of False ?s1] by simp
  moreover have "lane_work False ''1'' ?s2 ?s3" using lane_work.quit [of ?s2 "''1''" "\<lparr>lnQueue = [], lnBusy = None, lnAlive = True\<rparr>" False] by (simp add: lane_quits_def)
  then have "note_step False ?s2 ?s3" by (rule note_step.worked)
  moreover have "lane_send sample_delivery (nsN ?s3) = (True, notifier_stop (lane_with [sample_delivery] None False))"
    by (simp add: lane_send_def queueDepth_def)
  then have "note_step False ?s3 ?s4" using note_step.sent [of sample_delivery ?s3 _ False] by simp
  ultimately have "(note_step False)\<^sup>*\<^sup>* note_start ?s4" by (meson rtranclp.rtrancl_into_rtrancl rtranclp.rtrancl_refl)
  then show ?thesis by (intro exI [of _ ?s4]) simp
qed

end
