(* ===== verification/Notify_Bounds.thy ===== *)
theory Notify_Bounds
  imports Notifier
begin

text \<open>
  What the notifier (\<^verbatim>\<open>src/internal/notify/notify.go\<close>) promises to receivers and to runs: the
  spacing of progress events, the bounds of the back-off, signing, who is told what, and the
  runner's side of it (\<^verbatim>\<open>src/internal/runner/runner.go\<close>).
\<close>

section \<open>Throttle and back-off: what they bound\<close>

text \<open>The progress events let through, with their key, their instant and their hook's interval.\<close>

fun due_log :: "(gotime \<times> webhook \<times> string) list \<Rightarrow> notifier \<Rightarrow> (string \<times> gotime \<times> duration) list" where
  "due_log [] n = []"
| "due_log ((now, hook, runID) # cs) n =
     (case progressDue now hook runID n of
        (True, n) \<Rightarrow> (progress_key hook runID, now, min_interval hook) # due_log cs n
      | (False, n) \<Rightarrow> due_log cs n)"

definition of_key :: "string \<Rightarrow> (string \<times> gotime \<times> duration) list \<Rightarrow> (gotime \<times> duration) list" where
  "of_key k ls = map snd (filter (\<lambda>e. fst e = k) ls)"

definition spaced :: "gotime \<times> duration \<Rightarrow> gotime \<times> duration \<Rightarrow> bool" where
  "spaced a b \<longleftrightarrow> snd b \<le> fst b - fst a \<or> snd b < 0"

lemma time_Sub_ge: "0 \<le> d \<Longrightarrow> d \<le> 9223372036854775807 \<Longrightarrow> d \<le> time_Sub t u \<Longrightarrow> d \<le> t - u"
  by (auto simp: time_Sub_def Let_def split: if_splits)

lemma due_spaced:
  assumes "progressDue now hook runID n = (True, n')" "goget (ntLastProgress n) (progress_key hook runID) = Some t"
  shows "spaced (t, d) (now, min_interval hook)"
proof -
  have "min_interval hook \<le> time_Sub now t" using assms by (auto simp: progressDue_def Let_def split: if_splits)
  moreover have "min_interval hook \<le> 9223372036854775807" using wrap64_range [of "whMinInterval hook * 1000000000"] by (simp add: min_interval_def in_int64_def)
  ultimately show ?thesis using time_Sub_ge [of "min_interval hook" now t] by (auto simp: spaced_def)
qed

lemma due_log_spaced:
  "successively spaced ((case goget (ntLastProgress n) k of None \<Rightarrow> [] | Some t \<Rightarrow> [(t, d)]) @ of_key k (due_log cs n))"
proof (induction cs n arbitrary: d rule: due_log.induct)
  case (1 n)
  then show ?case by (simp add: of_key_def split: option.split)
next
  case (2 now hook runID cs n)
  obtain due n' where p: "progressDue now hook runID n = (due, n')" by (cases "progressDue now hook runID n")
  show ?case
  proof (cases due)
    case False
    then have "n' = n" using p by (auto simp: progressDue_def Let_def split: option.splits if_splits)
    then show ?thesis using 2(2) [OF p [symmetric]] False p by simp
  next
    case True
    then have n': "ntLastProgress n' = goput (progress_key hook runID) now (ntLastProgress n)"
      using p by (auto simp: progressDue_def Let_def split: option.splits if_splits)
    have ih: "successively spaced ((case goget (ntLastProgress n') k of None \<Rightarrow> [] | Some t \<Rightarrow> [(t, d)]) @ of_key k (due_log cs n'))" for d
      using 2(1) [OF p [symmetric]] True by simp
    show ?thesis
    proof (cases "progress_key hook runID = k")
      case same: True
      have "successively spaced ((now, min_interval hook) # of_key k (due_log cs n'))"
        using ih [of "min_interval hook"] same by (simp add: n' gm.get_put)
      then show ?thesis using due_spaced [of now hook runID n n' _ d] p True same
        by (auto simp: of_key_def successively_Cons split: option.split)
    next
      case other: False
      then show ?thesis using ih [of d] p True by (simp add: n' gm.get_put of_key_def)
    qed
  qed
qed

text \<open>
  progress callbacks are throttled. Of the progress events of one run, two that follow one
  another to one webhook are at least the webhook's interval apart, whatever else is asked in
  between and in whatever order the instants come.
\<close>

theorem progress_is_throttled: "successively spaced (of_key k (due_log calls newNotifier))"
  using due_log_spaced [where n = newNotifier and k = k and d = 0 and cs = calls] by (simp add: newNotifier_def)

text \<open>An interval of 292 years or more is validated but overflows, and throttles nothing.\<close>

lemma huge_interval_throttles_nothing:
  "webhook_Validate id sample_url ((sample_hook ''1'' FormatJSON)\<lparr>whMinInterval := 9223372037\<rparr>) = None
   \<and> min_interval ((sample_hook ''1'' FormatJSON)\<lparr>whMinInterval := 9223372037\<rparr>) < 0"
proof
  show "webhook_Validate id sample_url ((sample_hook ''1'' FormatJSON)\<lparr>whMinInterval := 9223372037\<rparr>) = None"
    by (simp add: webhook_Validate_def sample_hook_def url_error_def sample_url_def trimmed_sample bad_event_def format_ok_def)
  show "min_interval ((sample_hook ''1'' FormatJSON)\<lparr>whMinInterval := 9223372037\<rparr>) < 0" by (simp add: min_interval_def) code_simp
qed

text \<open>The back-off as it is described: a minute, doubled with each failure, up to half an hour.\<close>

definition described_wait :: "nat \<Rightarrow> duration" where
  "described_wait k = min 1800000000000 (60000000000 * 2 ^ (k - 1))"

lemma outage_wait_described: "0 < k \<Longrightarrow> outage_wait (int k) = described_wait k"
proof (cases "k \<le> 8")
  case True
  assume "0 < k"
  then have "k \<in> {1, 2, 3, 4, 5, 6, 7, 8}" using True by auto
  then show ?thesis
    by (auto simp: outage_wait_def described_wait_def outageBackoffStart_def outageBackoffMax_def Let_def wrap64_id in_int64_def)
next
  case False
  have "(2::int) ^ 5 \<le> 2 ^ (k - 1)" using False by (intro power_increasing) auto
  then have "described_wait k = 1800000000000" by (simp add: described_wait_def)
  moreover have "nat (min (int k - 1) 8) = (if k = 8 then 7 else 8)" using False by auto
  ultimately show ?thesis using False
    by (auto simp: outage_wait_def outageBackoffStart_def outageBackoffMax_def Let_def wrap64_id in_int64_def)
qed

definition failed_in_a_row :: "(gotime \<times> bool) list \<Rightarrow> nat" where
  "failed_in_a_row xs = length (takeWhile (\<lambda>x. \<not> snd x) (rev xs))"

text \<open>
  an absent receiver is left alone, and not for long. After any outcomes of the deliveries to
  an optional receiver, it is backed off exactly when the last ones failed, until the described
  wait after the last of them, which is between one minute and thirty; one success ends it.
\<close>

theorem outage_is_bounded:
  fixes xs :: "(gotime \<times> bool) list"
  assumes "BestEffort h"
  defines "n \<equiv> fold (\<lambda>(t, ok). noteOutcome t h ok) xs newNotifier"
  defines "k \<equiv> failed_in_a_row xs"
  shows "goget (ntDown n) (whID h) = (if k = 0 then None else Some \<lparr>ogFailures = int k, ogRetryAt = fst (last xs) + described_wait k\<rparr>)
    \<and> 60000000000 \<le> described_wait k \<and> described_wait k \<le> 1800000000000"
proof
  show "60000000000 \<le> described_wait k \<and> described_wait k \<le> 1800000000000" by (simp add: described_wait_def)
  show "goget (ntDown n) (whID h) = (if k = 0 then None else Some \<lparr>ogFailures = int k, ogRetryAt = fst (last xs) + described_wait k\<rparr>)"
    unfolding n_def k_def
  proof (induction xs rule: rev_induct)
    case Nil
    then show ?case by (simp add: failed_in_a_row_def newNotifier_def)
  next
    case (snoc x xs)
    obtain t ok where x: "x = (t, ok)" by (cases x)
    have "outage_wait (int (failed_in_a_row xs) + 1) = described_wait (Suc (failed_in_a_row xs))"
      using outage_wait_described [of "Suc (failed_in_a_row xs)"] by (simp add: add.commute)
    then show ?case using snoc assms(1)
      by (auto simp: x noteOutcome_def failed_in_a_row_def gm.get_put AList.delete_conv' Let_def add.commute split: if_splits)
  qed
qed

theorem outage_is_bounded_witness:
  "ntDown (fold (\<lambda>(t, ok). noteOutcome t (sample_hook ''1'' FormatCN4M) ok) [(0, True), (5, False), (9, False)] newNotifier)
     = [(''1'', \<lparr>ogFailures = 2, ogRetryAt = 9 + 120000000000\<rparr>)]
   \<and> (60000000000::int) \<le> described_wait 2"
proof
  have b: "BestEffort (sample_hook ''1'' FormatCN4M)" by (simp add: BestEffort_def sample_hook_def)
  show "(60000000000::int) \<le> described_wait 2"
    using outage_is_bounded [OF b, of "[(0, True), (5, False), (9, False)]"] by (simp add: failed_in_a_row_def numeral_2_eq_2)
  show "ntDown (fold (\<lambda>(t, ok). noteOutcome t (sample_hook ''1'' FormatCN4M) ok) [(0, True), (5, False), (9, False)] newNotifier)
     = [(''1'', \<lparr>ogFailures = 2, ogRetryAt = 9 + 120000000000\<rparr>)]"
    using b outage_wait_described [of 1] outage_wait_described [of 2]
    by (simp add: noteOutcome_def newNotifier_def sample_hook_def described_wait_def)
qed

section \<open>What a request carries\<close>

definition signed_properly :: "post_env \<Rightarrow> webhook \<Rightarrow> http_request \<Rightarrow> bool" where
  "signed_properly P hook r \<longleftrightarrow> hqURL r = whURL hook
     \<and> hqSignature r = (if whSecret hook = [] then None
          else case peDecrypt P (whSecret hook) of Inr key \<Rightarrow> Some (peHmac P key (hqBody r)) | Inl _ \<Rightarrow> None)
     \<and> (whSecret hook = [] \<or> hqSignature r \<noteq> None)"

lemma signed_properlyD:
  "signed_properly P hook r \<Longrightarrow> hqURL r = whURL hook
     \<and> (if whSecret hook = [] then hqSignature r = None
        else \<exists>key. peDecrypt P (whSecret hook) = Inr key \<and> hqSignature r = Some (peHmac P key (hqBody r)))"
  by (auto simp: signed_properly_def split: if_splits sum.splits)

lemma post_once_signed: "list_all (signed_properly P hook) (snd (post_once P k hook b ct)) \<and> length (snd (post_once P k hook b ct)) \<le> 1"
  by (simp add: post_once_def signed_properly_def Let_def split: option.split sum.split)

lemma attempts_signed:
  "list_all (signed_properly P hook) (snd (attempts P hook b ct k n e)) \<and> length (snd (attempts P hook b ct k n e)) \<le> n"
proof (induction P hook b ct k n e rule: attempts.induct)
  case (2 P hook b ct k n e)
  obtain v rs where p: "post_once P k hook b ct = (v, rs)" by (cases "post_once P k hook b ct")
  have rs: "list_all (signed_properly P hook) rs" "length rs \<le> 1" using post_once_signed [of P hook k b ct] by (simp_all add: p)
  show ?case
  proof (cases v)
    case (Inl e')
    then show ?thesis using "2.IH"(1) [OF _ p [symmetric] Inl] rs by (fastforce simp: p split: prod.split)
  next
    case (Inr s)
    then show ?thesis using "2.IH"(2) [OF _ p [symmetric] Inr _ refl] rs by (fastforce simp: p Let_def split: prod.split)
  qed
qed simp

lemma attempts_verdict: "fst (attempts P hook b ct k n e) = Accepted \<Longrightarrow>
  \<exists>j r s. peSend P j r = Inr s \<and> 200 \<le> s \<and> s < 300 \<and> r \<in> set (snd (attempts P hook b ct k n e))"
proof (induction P hook b ct k n e rule: attempts.induct)
  case (2 P hook b ct k n e)
  obtain v rs where p: "post_once P k hook b ct = (v, rs)" by (cases "post_once P k hook b ct")
  have run: "retry_backoff k > 0 \<and> peQuits P k \<Longrightarrow> False" using "2.prems" by auto
  show ?case
  proof (cases v)
    case (Inl e')
    then show ?thesis using "2.IH"(1) [OF _ p [symmetric] Inl] "2.prems" run by (fastforce simp: p split: prod.splits if_splits)
  next
    case (Inr s)
    have sent: "\<exists>r. rs = [r] \<and> peSend P k r = Inr s"
      using p Inr by (auto simp: post_once_def Let_def split: option.splits sum.splits if_splits)
    show ?thesis
    proof (cases "200 \<le> s \<and> s < 300")
      case True
      then show ?thesis using sent Inr run by (force simp: p)
    next
      case False
      then show ?thesis using "2.IH"(2) [OF _ p [symmetric] Inr False refl] "2.prems" run Inr
        by (fastforce simp: p Let_def split: prod.splits if_splits)
    qed
  qed
qed simp

text \<open>
  C18: no callback with a secret leaves unsigned, and none is sent more than three times. Every
  request of a delivery goes to the webhook's own address; when the webhook has a secret it bears
  the HMAC of exactly the body it carries under the key that was read, and when the key cannot be
  read nothing is sent.
\<close>

theorem requests_are_signed:
  "list_all (\<lambda>r. hqURL r = whURL (dvHook d)
       \<and> (if whSecret (dvHook d) = [] then hqSignature r = None
          else \<exists>key. peDecrypt P (whSecret (dvHook d)) = Inr key \<and> hqSignature r = Some (peHmac P key (hqBody r))))
     (fst (snd (deliver P now d n)))
   \<and> length (fst (snd (deliver P now d n))) \<le> 3"
proof -
  have "list_all (signed_properly P (dvHook d)) (fst (snd (deliver P now d n))) \<and> length (fst (snd (deliver P now d n))) \<le> 3"
    using attempts_signed [of P "dvHook d" _ _ 0 maxAttempts "new_error [] []"]
    by (auto simp: deliver_def maxAttempts_def split: sum.split prod.split delivered.split) (metis snd_conv)+
  then show ?thesis unfolding list_all_iff using signed_properlyD by blast
qed

text \<open>
  a receiver's trouble stays its own. A delivery changes nothing but the back-off of its own
  webhook; to an optional receiver it never leaves a line in the run's log, and to any other it
  leaves one exactly when it gave up, and nothing else anywhere.
\<close>

theorem delivery_trouble_is_contained:
  "ntLanes (snd (snd (deliver P now d n))) = ntLanes n
   \<and> ntLastProgress (snd (snd (deliver P now d n))) = ntLastProgress n
   \<and> (if BestEffort (dvHook d)
      then fst (deliver P now d n) = None \<and> (\<forall>i. i = whID (dvHook d) \<or> goget (ntDown (snd (snd (deliver P now d n)))) i = goget (ntDown n) i)
      else snd (snd (deliver P now d n)) = n)
   \<and> (fst (deliver P now d n) = None \<or> (\<exists>e. fst (deliver P now d n) = Some (undelivered_message d e) \<and> dvRunID d \<noteq> []))"
  by (auto simp: deliver_def noteOutcome_def gm.get_put AList.delete_conv' Let_def split: sum.split prod.split delivered.split)


section \<open>Who is told\<close>

text \<open>What the notifier relies on: the callbacks for a job are the enabled ones of the job and of all jobs.\<close>

definition applies :: "string \<Rightarrow> webhook \<Rightarrow> bool" where
  "applies jobID w \<longleftrightarrow> whEnabled w \<and> (whJobID w = [] \<or> whJobID w = jobID)"

locale callback_source =
  fixes rows :: "'db \<Rightarrow> webhook list" and for_job :: "string \<Rightarrow> 'db \<Rightarrow> webhook list"
  assumes for_job_rows: "set (for_job j db) = {w \<in> set (rows db). applies j w}"
    and for_job_distinct: "distinct (map whID (rows db)) \<Longrightarrow> distinct (map whID (for_job j db))"
begin

lemma for_job_enabled: "w \<in> set (for_job j db) \<Longrightarrow> whEnabled w"
  using for_job_rows by (auto simp: applies_def)

end

interpretation cs: callback_source "\<lambda>db. db" WebhooksFor
proof unfold_locales
  fix j and db :: "webhook list"
  show "set (WebhooksFor j db) = {w \<in> set db. applies j w}"
    by (auto simp: WebhooksFor_def set_sort_slice applies_def)
  assume "distinct (map whID db)"
  then show "distinct (map whID (WebhooksFor j db))"
    by (simp add: WebhooksFor_def distinct_map_sort_slice distinct_map_filter)
qed

abbreviation queue_of :: "notifier \<Rightarrow> string \<Rightarrow> delivery list" where
  "queue_of n i \<equiv> (case goget (ntLanes n) i of None \<Rightarrow> [] | Some l \<Rightarrow> lnQueue l)"

lemma enqueue_queue:
  "queue_of (snd (enqueue d n)) i = queue_of n i \<or> whID (dvHook d) = i \<and> queue_of (snd (enqueue d n)) i = queue_of n i @ [d]"
  by (auto simp: enqueue_def lane_enter_def lane_send_def gm.get_put new_lane_def split: option.split)

lemma notify_hook_queue:
  "queue_of (notify_hook now r event p w n) i = queue_of n i
   \<or> whID w = i \<and> Subscribes w event \<and> queue_of (notify_hook now r event p w n) i = queue_of n i @ [delivery_of w r event p]"
proof -
  obtain b n' where b: "(if event = EventProgress then progressDue now w r n else (True, n)) = (b, n')" by fastforce
  then have "ntLanes n' = ntLanes n" by (metis other_lanes(1) snd_conv)
  then show ?thesis using enqueue_queue [of "delivery_of w r event p" n' i]
    by (auto simp: notify_hook_def b delivery_of_def)
qed

context callback_source
begin

lemma told_queue:
  assumes "distinct (map whID (rows db))"
  shows "queue_of (fold (notify_hook now r event p) (for_job j db) n) i = queue_of n i
    \<or> (\<exists>w \<in> set (rows db). whID w = i \<and> applies j w \<and> Subscribes w event
         \<and> queue_of (fold (notify_hook now r event p) (for_job j db) n) i = queue_of n i @ [delivery_of w r event p])"
proof -
  have "queue_of (fold (notify_hook now r event p) ws n) i = queue_of n i
    \<or> (\<exists>w \<in> set ws. whID w = i \<and> Subscribes w event \<and> queue_of (fold (notify_hook now r event p) ws n) i = queue_of n i @ [delivery_of w r event p])"
    if "distinct (map whID ws)" for ws
    using that
  proof (induction ws arbitrary: n)
    case (Cons w ws)
    have rest: "queue_of (fold (notify_hook now r event p) ws m) i = queue_of m i" if "whID w = i" for m
      using Cons.IH [of m] Cons.prems that by auto (metis image_eqI)
    show ?case using Cons.IH [of "notify_hook now r event p w n"] Cons.prems notify_hook_queue [of now r event p w n i] rest by auto
  qed simp
  from this [OF for_job_distinct [OF assms, of j]] show ?thesis
    using for_job_rows [of j db] by auto
qed

end

text \<open>
  only those who asked are told, once. An event of a job adds to a webhook's queue nothing,
  or one delivery at its end, with the payload and the event in it; and only when the webhook is
  enabled, is subscribed to the event, and is for that job or for all.
\<close>

theorem only_subscribers_are_told:
  fixes now :: gotime and n :: notifier and p :: payload and j r event :: string
  assumes "distinct (map whID db)"
  defines "n' \<equiv> notifier_Notify now (Inr (WebhooksFor j db)) r event p n"
  shows "queue_of n' i = queue_of n i
    \<or> (\<exists>w \<in> set db. whID w = i \<and> whEnabled w \<and> whJobID w \<in> {[], j} \<and> (whEvents w = [] \<or> event \<in> set (whEvents w))
         \<and> queue_of n' i = queue_of n i @ [delivery_of w r event p])"
  using cs.told_queue [OF assms(1), where now = now and j = j and r = r and event = event and p = p and n = n and i = i]
  by (auto simp: n'_def notifier_Notify_def applies_def Subscribes_def)

theorem only_subscribers_are_told_witness:
  "queue_of (notifier_Notify 0 (Inr (WebhooksFor ''j'' [(sample_hook ''1'' FormatJSON)\<lparr>whEnabled := False\<rparr>])) ''r'' EventProgress [] newNotifier) ''1'' = []"
  using only_subscribers_are_told [of "[(sample_hook ''1'' FormatJSON)\<lparr>whEnabled := False\<rparr>]" 0 "''j''" "''r''" EventProgress "[]" newNotifier "''1''"]
  by (simp add: newNotifier_def sample_hook_def)

section \<open>The runner's side\<close>

text \<open>
  \<open>notify\<close> and \<open>notifyProgress\<close> of \<^verbatim>\<open>src/internal/runner/runner.go\<close>: a lifecycle event carries
  the status, from the row as the database has it now or, when that fails, as the run holds it; a
  progress event carries what the live snapshot alone tells.
\<close>

definition target_names :: "(string \<Rightarrow> goerr + target) \<Rightarrow> string \<Rightarrow> string" where
  "target_names getTarget i = (case getTarget i of Inr t \<Rightarrow> tgName t | Inl _ \<Rightarrow> i)"

definition lifecycle_payload ::
  "gotime \<Rightarrow> (string \<Rightarrow> goerr + target) \<Rightarrow> goerr option \<Rightarrow> run_tables \<Rightarrow> run_row \<times> run_destination list \<Rightarrow> progress option \<Rightarrow> payload" where
  "lifecycle_payload now getTarget fault db run pg =
     (let fresh = (case GetRun fault (rrID (fst run)) db of Inr r \<Rightarrow> r | Inl _ \<Rightarrow> run)
      in StatusPayload now fresh (map_option (run_snapshot_of now) pg) (Some (target_names getTarget)))"

definition runner_notify ::
  "gotime \<Rightarrow> (string \<Rightarrow> goerr + target) \<Rightarrow> goerr option \<Rightarrow> run_tables \<Rightarrow> run_row \<times> run_destination list \<Rightarrow> progress option \<Rightarrow>
   string \<Rightarrow> webhook list \<Rightarrow> notifier \<Rightarrow> notifier" where
  "runner_notify now getTarget fault db run pg event hooks n =
     notifier_Notify now (Inr (WebhooksFor (rrJobID (fst run)) hooks)) (rrID (fst run)) event
       (lifecycle_payload now getTarget fault db run pg) n"

definition progress_payload :: "string \<Rightarrow> string \<Rightarrow> run_snapshot \<Rightarrow> payload" where
  "progress_payload runID jobID s =
     [(''run_id'', JStr runID), (''job_id'', JStr jobID), (''status'', JStr (run_status_text RunRunning)),
      (''phase'', JStr (phase_text (rsPhase s))), (''files_done'', JInt (rsFilesDone s)), (''files_total'', JInt (rsFilesTotal s)),
      (''bytes_done'', JInt (rsBytesDone s)), (''bytes_total'', JInt (rsBytesTotal s)),
      (''throughput_bps'', JReal (rsThroughputBPS s)), (''eta_sec'', JReal (rsETASeconds s)),
      (''elapsed_sec'', JInt (trunc_real (rsElapsedSec s)))]"

definition runner_notifyProgress :: "gotime \<Rightarrow> string \<Rightarrow> string \<Rightarrow> progress option \<Rightarrow> webhook list \<Rightarrow> notifier \<Rightarrow> notifier" where
  "runner_notifyProgress now runID jobID pg hooks n =
     (case pg of
        None \<Rightarrow> n
      | Some p \<Rightarrow> notifier_Notify now (Inr (WebhooksFor jobID hooks)) runID EventProgress (progress_payload runID jobID (run_snapshot_of now p)) n)"

text \<open>The body of a progress event is not the status with an event: the documented shape is cut.\<close>

lemma progress_payload_lacks_fields:
  "set documented_keys - set (gokeys (progress_payload r j s))
   = {''trigger'', ''started_at'', ''scanned_files'', ''scanned_bytes'', ''current_files'', ''destinations'', ''errors_count''}"
  by (auto simp: documented_keys_def progress_payload_def)



end
