(* ===== verification/Accounts.thy ===== *)
theory Accounts
  imports Run_Store
begin

text \<open>
  What proves who a caller is: the admin password, the sessions and the settings
  (\<^verbatim>\<open>src/internal/store/auth.go\<close>), the trigger tokens of jobs
  (\<^verbatim>\<open>src/internal/store/triggers.go\<close>), and the box that keeps credentials encrypted at rest
  (\<^verbatim>\<open>src/internal/secrets/secrets.go\<close>). Hashing, key derivation, the cipher, Base64 and random
  bytes are arguments.
\<close>

record crypto =
  crSha :: "string \<Rightarrow> string"
  crKdf :: "string \<Rightarrow> string \<Rightarrow> int \<Rightarrow> nat \<Rightarrow> goerr + string"
  crEnc :: "string \<Rightarrow> string"
  crDec :: "string \<Rightarrow> goerr + string"

definition hashToken :: "crypto \<Rightarrow> string \<Rightarrow> string" where
  "hashToken C token = crSha C token"


section \<open>Credentials at rest\<close>

text \<open>A cipher sealed under the derived key: its nonce size, \<open>Seal\<close> and \<open>Open\<close>.\<close>

record aead =
  adNonce :: nat
  adSeal :: "string \<Rightarrow> string \<Rightarrow> string"
  adOpen :: "string \<Rightarrow> string \<Rightarrow> string option"

definition ErrUndecryptable :: goerr where
  "ErrUndecryptable = new_error (''credentials cannot be decrypted '' @ [CHR 0xE2, CHR 0x80, CHR 0x94]
     @ '' ENCRYPTION_KEY may have changed since they were saved'') []"

definition NewBox :: "(string \<Rightarrow> goerr + string) \<Rightarrow> (string \<Rightarrow> goerr + aead) \<Rightarrow> string \<Rightarrow> goerr + aead" where
  "NewBox derive cipher encryptionKey =
     (if encryptionKey = [] then Inl (new_error ''encryption key is empty'' [])
      else case derive encryptionKey of
             Inl e \<Rightarrow> Inl (wrap ''deriving encryption key: '' e)
           | Inr key \<Rightarrow> cipher key)"

definition Encrypt :: "crypto \<Rightarrow> aead \<Rightarrow> goerr + string \<Rightarrow> string \<Rightarrow> goerr + string" where
  "Encrypt C b random plaintext =
     (if plaintext = [] then Inr []
      else case random of
             Inl e \<Rightarrow> Inl (wrap ''generating nonce: '' e)
           | Inr nonce \<Rightarrow> Inr (crEnc C (nonce @ adSeal b nonce plaintext)))"

definition Decrypt :: "crypto \<Rightarrow> aead \<Rightarrow> string \<Rightarrow> goerr + string" where
  "Decrypt C b encoded =
     (if encoded = [] then Inr []
      else case crDec C encoded of
             Inl _ \<Rightarrow> Inl ErrUndecryptable
           | Inr raw \<Rightarrow>
               (if length raw < adNonce b then Inl ErrUndecryptable
                else case adOpen b (take (adNonce b) raw) (drop (adNonce b) raw) of
                       None \<Rightarrow> Inl ErrUndecryptable
                     | Some plain \<Rightarrow> Inr plain))"


section \<open>Settings and the admin password\<close>

type_synonym settings = "string gomap"

definition GetSetting :: "goerr option \<Rightarrow> (string \<Rightarrow> string) \<Rightarrow> string \<Rightarrow> settings \<Rightarrow> goerr + string option" where
  "GetSetting fault uq key db =
     (case fault of Some e \<Rightarrow> Inl (wrap (''reading setting '' @ fmt_q uq key @ '': '') e) | None \<Rightarrow> Inr (goget db key))"

definition SetSetting :: "goerr option \<Rightarrow> (string \<Rightarrow> string) \<Rightarrow> string \<Rightarrow> string \<Rightarrow> settings \<Rightarrow> goerr option \<times> settings" where
  "SetSetting fault uq key v db =
     (case fault of Some e \<Rightarrow> (Some (wrap (''writing setting '' @ fmt_q uq key @ '': '') e), db) | None \<Rightarrow> (None, goput key v db))"

definition settingPasswordHash :: string where "settingPasswordHash = ''admin_password_hash''"
definition settingPasswordSalt :: string where "settingPasswordSalt = ''admin_password_salt''"
definition settingPasswordIter :: string where "settingPasswordIter = ''admin_password_iter''"
definition pbkdf2Iterations :: int where "pbkdf2Iterations = 600000"
definition pbkdf2KeyLen :: nat where "pbkdf2KeyLen = 32"

lemmas setting_names = settingPasswordHash_def settingPasswordSalt_def settingPasswordIter_def

definition AdminPasswordSet :: "settings \<Rightarrow> bool" where
  "AdminPasswordSet db \<longleftrightarrow> goget db settingPasswordHash \<noteq> None"

text \<open>The three settings are written in one transaction, which a failure anywhere rolls back.\<close>

definition SetAdminPassword ::
  "crypto \<Rightarrow> goerr + string \<Rightarrow> goerr option \<Rightarrow> string \<Rightarrow> settings \<Rightarrow> goerr option \<times> settings" where
  "SetAdminPassword C salt fault password db =
     (case salt of
        Inl e \<Rightarrow> (Some (wrap ''generating a password salt: '' e), db)
      | Inr salt \<Rightarrow>
          (case crKdf C password salt pbkdf2Iterations pbkdf2KeyLen of
             Inl e \<Rightarrow> (Some (wrap ''hashing the admin password: '' e), db)
           | Inr key \<Rightarrow>
               (case fault of
                  Some e \<Rightarrow> (Some (wrap ''storing the admin password: '' e), db)
                | None \<Rightarrow>
                    (None, goput settingPasswordHash (crEnc C key)
                       (goput settingPasswordIter (fmt_int pbkdf2Iterations) (goput settingPasswordSalt (crEnc C salt) db))))))"

text \<open>\<open>Sscanf\<close> with \<open>%d\<close>: leading blanks, a sign, the digits that follow.\<close>

definition digit :: "char \<Rightarrow> bool" where
  "digit c \<longleftrightarrow> 48 \<le> (of_char c :: nat) \<and> (of_char c :: nat) \<le> 57"

definition scan_int :: "string \<Rightarrow> int option" where
  "scan_int s =
     (let s = dropWhile (\<lambda>c. c = CHR '' '') s;
          neg = (case s of c # _ \<Rightarrow> c = CHR ''-'' | [] \<Rightarrow> False);
          body = (case s of c # cs \<Rightarrow> if c = CHR ''-'' \<or> c = CHR ''+'' then cs else s | [] \<Rightarrow> s)
      in case takeWhile digit body of
           [] \<Rightarrow> None
         | ds \<Rightarrow> (case parse_digits 0 ds of
                    None \<Rightarrow> None
                  | Some n \<Rightarrow> let z = (if neg then - int n else int n) in if in_int64 z then Some z else None))"

definition setting_or_empty :: "string \<Rightarrow> settings \<Rightarrow> string" where
  "setting_or_empty key db = (case goget db key of Some v \<Rightarrow> v | None \<Rightarrow> [])"

definition VerifyAdminPassword :: "crypto \<Rightarrow> (string \<Rightarrow> string) \<Rightarrow> goerr option \<Rightarrow> string \<Rightarrow> settings \<Rightarrow> goerr + bool" where
  "VerifyAdminPassword C uq fault password db =
     (case GetSetting fault uq settingPasswordHash db of
        Inl e \<Rightarrow> Inl e
      | Inr None \<Rightarrow> Inl (new_error ''no admin password has been set'' [])
      | Inr (Some encHash) \<Rightarrow>
          (case crDec C encHash of
             Inl e \<Rightarrow> Inl (wrap ''the stored admin password hash is corrupt: '' e)
           | Inr want \<Rightarrow>
               (case crDec C (setting_or_empty settingPasswordSalt db) of
                  Inl e \<Rightarrow> Inl (wrap ''the stored admin password salt is corrupt: '' e)
                | Inr salt \<Rightarrow>
                    (let bad = Inl (new_error (''the stored admin password iteration count is corrupt: ''
                           @ fmt_q uq (setting_or_empty settingPasswordIter db)) []) in
                     case scan_int (setting_or_empty settingPasswordIter db) of
                       None \<Rightarrow> bad
                     | Some iter \<Rightarrow>
                         (if iter \<le> 0 then bad
                          else case crKdf C password salt iter (length want) of
                                 Inl e \<Rightarrow> Inl (wrap ''hashing the admin password: '' e)
                               | Inr got \<Rightarrow> Inr (got = want))))))"


section \<open>Sessions\<close>

record session_row =
  ssHash :: string
  ssCreatedAt :: gotime
  ssExpiresAt :: gotime
  ssLastSeenAt :: gotime

definition SessionTTL :: duration where "SessionTTL = 604800000000000"

definition CreateSession ::
  "crypto \<Rightarrow> goerr + string \<Rightarrow> goerr option \<Rightarrow> gotime \<Rightarrow> session_row list \<Rightarrow> (goerr + string \<times> gotime) \<times> session_row list" where
  "CreateSession C random fault now db =
     (case random of
        Inl e \<Rightarrow> (Inl (wrap ''generating a session token: '' e), db)
      | Inr token \<Rightarrow>
          (case fault of
             Some e \<Rightarrow> (Inl (wrap ''creating a session: '' e), db)
           | None \<Rightarrow>
               (Inr (token, now + SessionTTL),
                db @ [\<lparr>ssHash = hashToken C token, ssCreatedAt = now, ssExpiresAt = now + SessionTTL, ssLastSeenAt = now\<rparr>])))"

text \<open>The second fault is that of the refresh, which is ignored.\<close>

definition LookupSession ::
  "crypto \<Rightarrow> goerr option \<Rightarrow> goerr option \<Rightarrow> gotime \<Rightarrow> string \<Rightarrow> session_row list \<Rightarrow> (goerr + bool) \<times> session_row list" where
  "LookupSession C fault refresh now token db =
     (if token = [] then (Inr False, db)
      else case fault of
             Some e \<Rightarrow> (Inl (wrap ''looking up a session: '' e), db)
           | None \<Rightarrow>
               (case find (\<lambda>r. ssHash r = hashToken C token) db of
                  None \<Rightarrow> (Inr False, db)
                | Some r \<Rightarrow>
                    if \<not> now < ssExpiresAt r then (Inr False, db)
                    else (Inr True, if refresh \<noteq> None then db
                            else update_where (\<lambda>r. ssHash r = hashToken C token) (\<lambda>r. r\<lparr>ssLastSeenAt := now\<rparr>) db)))"

definition DeleteSession :: "crypto \<Rightarrow> goerr option \<Rightarrow> string \<Rightarrow> session_row list \<Rightarrow> goerr option \<times> session_row list" where
  "DeleteSession C fault token db = sql_exec fault ''deleting a session'' (filter (\<lambda>r. ssHash r \<noteq> hashToken C token)) db"

definition DeleteAllSessions :: "goerr option \<Rightarrow> session_row list \<Rightarrow> goerr option \<times> session_row list" where
  "DeleteAllSessions fault db = sql_exec fault ''deleting sessions'' (\<lambda>_. []) db"

definition PurgeExpiredSessions :: "goerr option \<Rightarrow> gotime \<Rightarrow> session_row list \<Rightarrow> goerr option \<times> session_row list" where
  "PurgeExpiredSessions fault now db =
     sql_exec fault ''purging expired sessions'' (filter (\<lambda>r. stored_before now (ssExpiresAt r))) db"


section \<open>Trigger tokens\<close>

text \<open>The columns of the table of jobs that matter here. The hash is unique.\<close>

record token_row =
  trJob :: string
  trHash :: "string option"
  trUpdatedAt :: gotime

definition set_token :: "string option \<Rightarrow> gotime \<Rightarrow> string \<Rightarrow> token_row list \<Rightarrow> token_row list" where
  "set_token h now j = update_where (\<lambda>r. trJob r = j) (\<lambda>r. r\<lparr>trHash := h, trUpdatedAt := now\<rparr>)"

definition IssueTriggerToken ::
  "crypto \<Rightarrow> goerr + string \<Rightarrow> goerr option \<Rightarrow> gotime \<Rightarrow> string \<Rightarrow> token_row list \<Rightarrow> (goerr + string) \<times> token_row list" where
  "IssueTriggerToken C random fault now j db =
     (case random of
        Inl e \<Rightarrow> (Inl (wrap ''generating a trigger token: '' e), db)
      | Inr token \<Rightarrow>
          (case fault of
             Some e \<Rightarrow> (Inl (wrap (''storing the trigger token of job '' @ j @ '': '') e), db)
           | None \<Rightarrow> if j \<notin> trJob ` set db then (Inl (missing_row j), db)
                     else (Inr token, set_token (Some (hashToken C token)) now j db)))"

definition RevokeTriggerToken :: "goerr option \<Rightarrow> gotime \<Rightarrow> string \<Rightarrow> token_row list \<Rightarrow> goerr option \<times> token_row list" where
  "RevokeTriggerToken fault now j db =
     (case fault of
        Some e \<Rightarrow> (Some (wrap (''revoking the trigger token of job '' @ j @ '': '') e), db)
      | None \<Rightarrow> if j \<notin> trJob ` set db then (Some (missing_row j), db) else (None, set_token None now j db))"

definition HasTriggerToken :: "goerr option \<Rightarrow> string \<Rightarrow> token_row list \<Rightarrow> goerr + bool" where
  "HasTriggerToken fault j db =
     (case fault of
        Some e \<Rightarrow> Inl (wrap (''checking the trigger token of job '' @ j @ '': '') e)
      | None \<Rightarrow> (case find (\<lambda>r. trJob r = j) db of
                   None \<Rightarrow> Inl (wrap2 ErrNotFound (''job '' @ j @ '': '') (new_error ''not found'' []))
                 | Some r \<Rightarrow> Inr (trHash r \<noteq> None)))"

text \<open>The job is then loaded with its destinations and rules.\<close>

definition JobForTriggerToken ::
  "crypto \<Rightarrow> goerr option \<Rightarrow> (string \<Rightarrow> goerr + 'j) \<Rightarrow> string \<Rightarrow> token_row list \<Rightarrow> goerr + 'j" where
  "JobForTriggerToken C fault getJob token db =
     (if token = [] then Inl (new_error ''not found'' [ErrNotFound])
      else case fault of
             Some e \<Rightarrow> Inl (wrap ''looking up a trigger token: '' e)
           | None \<Rightarrow> (case find (\<lambda>r. trHash r = Some (hashToken C token)) db of
                        None \<Rightarrow> Inl (new_error ''not found'' [ErrNotFound])
                      | Some r \<Rightarrow> getJob (trJob r)))"


section \<open>Properties\<close>

subsection \<open>Round trips\<close>

text \<open>
  what is stored encrypted is read back. A cipher that opens what it sealed, with nonces of
  its own size, and a Base64 that decodes what it encoded, give every plaintext back, the empty
  one without being encrypted; and a text that does not open is an error of its own, never a
  wrong plaintext.
\<close>

theorem box_roundtrip:
  assumes "\<And>x. crDec C (crEnc C x) = Inr x" "\<And>x. crEnc C x = [] \<longleftrightarrow> x = []" "length nonce = adNonce b" "0 < adNonce b"
    and "\<And>p. adOpen b nonce (adSeal b nonce p) = Some p"
  shows "(case Encrypt C b (Inr nonce) p of Inl _ \<Rightarrow> False | Inr s \<Rightarrow> Decrypt C b s = Inr p \<and> (s = [] \<longleftrightarrow> p = []))
    \<and> (adOpen b (take (adNonce b) raw) (drop (adNonce b) raw) = None \<longrightarrow> raw \<noteq> [] \<longrightarrow> Decrypt C b (crEnc C raw) = Inl ErrUndecryptable)"
  using assms by (auto simp: Encrypt_def Decrypt_def)

definition plain_crypto :: crypto where
  "plain_crypto = \<lparr>crSha = id, crKdf = (\<lambda>p s i n. Inr (take n (p @ s @ replicate n (CHR ''0'')))), crEnc = id, crDec = Inr\<rparr>"

definition plain_aead :: aead where
  "plain_aead = \<lparr>adNonce = 2, adSeal = (\<lambda>n p. n @ p), adOpen = (\<lambda>n c. if take 2 c = n then Some (drop 2 c) else None)\<rparr>"

theorem box_roundtrip_witness: "Decrypt plain_crypto plain_aead ''ababsecret'' = Inr ''secret''"
  using box_roundtrip [of plain_crypto "''ab''" plain_aead "''secret''" "''x''"]
  by (simp add: plain_crypto_def plain_aead_def Encrypt_def)

lemma fmt_nat_digit: "list_all digit (fmt_nat n)"
  using fmt_nat_digits by (auto simp: list_all_iff digit_def)

lemma scan_fmt_int:
  assumes "0 \<le> z" "in_int64 z"
  shows "scan_int (fmt_int z) = Some z"
proof -
  have ds: "list_all digit (fmt_nat (nat z))" "fmt_nat (nat z) \<noteq> []" using fmt_nat_digit fmt_nat_nonempty by simp_all
  then obtain d ds' where f: "fmt_nat (nat z) = d # ds'" "digit d" by (cases "fmt_nat (nat z)") auto
  then have "d \<noteq> CHR '' ''" "d \<noteq> CHR ''-''" "d \<noteq> CHR ''+''" by (auto simp: digit_def)
  moreover have tw: "takeWhile digit ds' = ds'" using ds(1) by (simp add: f list_all_iff takeWhile_eq_all_conv)
  ultimately show ?thesis using assms parse_digits_fmt_nat [of "nat z"] f
    by (simp add: scan_int_def fmt_int_def Let_def tw del: parse_digits.simps)
qed

text \<open>
  changing the admin password is all or nothing. Whatever fails, either nothing is changed, so
  the old password is still the one that is verified, or exactly the passwords with the same
  derived key as the new one are accepted from then on.
\<close>

theorem password_change_is_atomic:
  assumes "\<And>x. crDec C (crEnc C x) = Inr x" "\<And>p s i n. crKdf C p s i n = Inr (kdf p s i n)" "\<And>p s i n. length (kdf p s i n) = n"
    and "SetAdminPassword C salt fault p db = (r, db')"
  shows "if r = None
    then \<exists>s. salt = Inr s \<and> VerifyAdminPassword C uq None q db' = Inr (kdf q s 600000 32 = kdf p s 600000 32)
      \<and> AdminPasswordSet db'
    else db' = db"
proof -
  have "scan_int (fmt_int 600000) = Some 600000" by (rule scan_fmt_int) (simp_all add: in_int64_def)
  then show ?thesis using assms
    by (auto simp: SetAdminPassword_def VerifyAdminPassword_def GetSetting_def setting_or_empty_def gm.get_put setting_names
        pbkdf2Iterations_def pbkdf2KeyLen_def AdminPasswordSet_def Let_def split: sum.splits option.splits)
qed

theorem password_change_is_atomic_witness:
  "VerifyAdminPassword plain_crypto id None ''secret'' (snd (SetAdminPassword plain_crypto (Inr ''salt'') None ''secret'' [])) = Inr True"
proof -
  let ?kdf = "\<lambda>p s (i :: int) n. take n (p @ s @ replicate n (CHR ''0''))"
  have "SetAdminPassword plain_crypto (Inr ''salt'') None ''secret'' [] = (None, snd (SetAdminPassword plain_crypto (Inr ''salt'') None ''secret'' []))"
    by (simp add: SetAdminPassword_def plain_crypto_def)
  from password_change_is_atomic [OF _ _ _ this, of ?kdf id "''secret''"] show ?thesis
    by (simp add: plain_crypto_def)
qed


subsection \<open>Sessions\<close>

datatype session_op = Opened gotime string | Seen gotime string | Closed string | ClosedAll | Purged gotime

fun session_apply :: "crypto \<Rightarrow> session_op \<Rightarrow> session_row list \<Rightarrow> session_row list" where
  "session_apply C (Opened t tok) db = snd (CreateSession C (Inr tok) None t db)"
| "session_apply C (Seen t tok) db = snd (LookupSession C None None t tok db)"
| "session_apply C (Closed tok) db = snd (DeleteSession C None tok db)"
| "session_apply C ClosedAll db = snd (DeleteAllSessions None db)"
| "session_apply C (Purged t) db = snd (PurgeExpiredSessions None t db)"

definition issued :: "crypto \<Rightarrow> session_op list \<Rightarrow> session_row \<Rightarrow> bool" where
  "issued C ops r \<longleftrightarrow>
     (\<exists>pre t0 tok post. ops = pre @ Opened t0 tok # post \<and> Closed tok \<notin> set post \<and> ClosedAll \<notin> set post
        \<and> ssHash r = hashToken C tok \<and> ssExpiresAt r = t0 + SessionTTL)"

lemma issued_later:
  assumes "issued C ops r" "\<And>tok. op = Closed tok \<Longrightarrow> ssHash r \<noteq> hashToken C tok" "op \<noteq> ClosedAll"
  shows "issued C (ops @ [op]) r"
proof -
  from assms(1) obtain pre t0 tok post where r: "ops = pre @ Opened t0 tok # post" "Closed tok \<notin> set post" "ClosedAll \<notin> set post"
    "ssHash r = hashToken C tok" "ssExpiresAt r = t0 + SessionTTL" by (auto simp: issued_def)
  have "ops @ [op] = pre @ Opened t0 tok # (post @ [op])" "Closed tok \<notin> set (post @ [op])" "ClosedAll \<notin> set (post @ [op])"
    using r assms(2) [of tok] assms(3) by auto
  then show ?thesis unfolding issued_def using r(4,5) by blast
qed

lemma issued_seen: "issued C ops (r\<lparr>ssLastSeenAt := t\<rparr>) = issued C ops r"
  by (simp add: issued_def)

lemma rows_issued: "list_all (issued C ops) (fold (session_apply C) ops [])"
proof (induction ops rule: rev_induct)
  case (snoc op ops)
  note keep = issued_later [of C ops _ op]
  show ?case
  proof (cases op)
    case (Opened t tok)
    have new: "issued C (ops @ [Opened t tok]) \<lparr>ssHash = hashToken C tok, ssCreatedAt = t, ssExpiresAt = t + SessionTTL, ssLastSeenAt = t\<rparr>"
      unfolding issued_def by (rule exI [of _ ops]) auto
    show ?thesis using snoc new keep Opened by (simp add: CreateSession_def list_all_iff)
  next
    case (Seen t tok)
    then show ?thesis using snoc keep
      by (auto simp: LookupSession_def list_all_iff update_where_def issued_seen split: option.split)
  next
    case (Closed tok)
    then show ?thesis using snoc keep by (auto simp: DeleteSession_def sql_exec_def list_all_iff)
  next
    case ClosedAll
    then show ?thesis by (simp add: DeleteAllSessions_def sql_exec_def)
  next
    case (Purged t)
    then show ?thesis using snoc keep by (auto simp: PurgeExpiredSessions_def sql_exec_def list_all_iff)
  qed
qed simp

lemma live_session:
  assumes "inj (crSha C)" "fst (LookupSession C fault refresh now tok (fold (session_apply C) ops [])) = Inr True"
  shows "\<exists>pre t0 post. ops = pre @ Opened t0 tok # post \<and> now < t0 + 604800000000000
    \<and> Closed tok \<notin> set post \<and> ClosedAll \<notin> set post"
proof -
  let ?db = "fold (session_apply C) ops []"
  obtain r where r: "find (\<lambda>r. ssHash r = hashToken C tok) ?db = Some r" "now < ssExpiresAt r"
    using assms(2) by (auto simp: LookupSession_def split: if_splits option.splits)
  then have "r \<in> set ?db" "ssHash r = hashToken C tok" by (auto simp: find_Some_iff)
  then have "issued C ops r" using rows_issued [of C ops] by (simp add: list_all_iff)
  then obtain pre t0 tok' post where i: "ops = pre @ Opened t0 tok' # post" "Closed tok' \<notin> set post" "ClosedAll \<notin> set post"
    "ssHash r = hashToken C tok'" "ssExpiresAt r = t0 + SessionTTL" by (auto simp: issued_def)
  have "tok' = tok" using \<open>ssHash r = hashToken C tok\<close> i(4) assms(1) by (simp add: hashToken_def inj_eq)
  then show ?thesis using i r(2) by (auto simp: SessionTTL_def)
qed

text \<open>
  a session is good for seven days, and no longer than its holder wants. If a token
  authenticates, then that token was handed out less than seven days before, and neither it nor
  everyone has been signed out since; a lapsed purge extends nothing.
\<close>

theorem sessions_end:
  assumes "inj (crSha C)" "fst (LookupSession C None refresh now tok (fold (session_apply C) ops [])) = Inr True"
  shows "\<exists>pre t0 post. ops = pre @ Opened t0 tok # post \<and> now < t0 + 604800000000000
    \<and> Closed tok \<notin> set post \<and> ClosedAll \<notin> set post"
  by (rule live_session [OF assms])

theorem sessions_end_witness:
  "\<exists>pre t0 post. [Closed ''b'', Opened 5 ''a'', Closed ''c''] = pre @ Opened t0 ''a'' # post \<and> (100::int) < t0 + 604800000000000
    \<and> Closed ''a'' \<notin> set post \<and> ClosedAll \<notin> set post"
  by (rule sessions_end [of plain_crypto None])
    (simp_all add: plain_crypto_def CreateSession_def DeleteSession_def LookupSession_def sql_exec_def hashToken_def SessionTTL_def)

text \<open>The purge compares texts: at a whole second it removes a session that ends later in that second.\<close>

lemma purge_can_end_a_session_early:
  "PurgeExpiredSessions None 7000000000 [\<lparr>ssHash = ''h'', ssCreatedAt = 0, ssExpiresAt = 7500000000, ssLastSeenAt = 0\<rparr>] = (None, [])
   \<and> (7000000000 :: gotime) < 7500000000"
proof -
  obtain rest where r: "frac_text 7500000000 = CHR ''.'' # rest"
    using frac_text_part [of 7500000000] by (auto simp: neq_Nil_conv)
  have "\<not> stored_before 7000000000 7500000000" by (simp add: stored_before_def frac_text_whole r go_string_less_def)
  then show ?thesis by (simp add: PurgeExpiredSessions_def sql_exec_def)
qed


subsection \<open>Tokens\<close>

datatype token_op = Issue string string | Revoke string

fun op_job :: "token_op \<Rightarrow> string" where
  "op_job (Issue j t) = j"
| "op_job (Revoke j) = j"

fun op_token :: "token_op \<Rightarrow> string list" where
  "op_token (Issue j t) = [t]"
| "op_token (Revoke j) = []"

fun token_apply :: "crypto \<Rightarrow> token_op \<Rightarrow> token_row list \<Rightarrow> token_row list" where
  "token_apply C (Issue j t) db = snd (IssueTriggerToken C (Inr t) None 0 j db)"
| "token_apply C (Revoke j) db = snd (RevokeTriggerToken None 0 j db)"

text \<open>What was last done about the token of a job.\<close>

definition latest :: "string \<Rightarrow> token_op list \<Rightarrow> token_op option" where
  "latest j ops = find (\<lambda>a. op_job a = j) (rev ops)"

definition hash_after :: "crypto \<Rightarrow> token_op list \<Rightarrow> string \<Rightarrow> string option" where
  "hash_after C ops j = (case latest j ops of Some (Issue _ t) \<Rightarrow> Some (hashToken C t) | _ \<Rightarrow> None)"

lemma latest_snoc: "latest j (ops @ [a]) = (if op_job a = j then Some a else latest j ops)"
  by (simp add: latest_def)

lemma latest_job: "latest j ops = Some a \<Longrightarrow> op_job a = j"
  by (auto simp: latest_def find_Some_iff)

lemma set_token_rows:
  "map trJob (set_token h now j db) = map trJob db"
  "list_all (\<lambda>r. trHash r = f (trJob r)) db \<Longrightarrow> f' j = h \<Longrightarrow> (\<And>k. k \<noteq> j \<Longrightarrow> f' k = f k) \<Longrightarrow>
   list_all (\<lambda>r. trHash r = f' (trJob r)) (set_token h now j db)"
  by (auto simp: set_token_def update_where_def list_all_iff)

lemma tokens_after:
  assumes "list_all (\<lambda>r. trHash r = None) db"
  shows "map trJob (fold (token_apply C) ops db) = map trJob db
    \<and> list_all (\<lambda>r. trHash r = hash_after C ops (trJob r)) (fold (token_apply C) ops db)"
proof (induction ops rule: rev_induct)
  case Nil
  then show ?case using assms by (simp add: hash_after_def latest_def)
next
  case (snoc a ops)
  let ?db = "fold (token_apply C) ops db"
  have missing: "list_all (\<lambda>r. trHash r = hash_after C (ops @ [a]) (trJob r)) ?db" if "op_job a \<notin> trJob ` set ?db"
  proof -
    have "hash_after C (ops @ [a]) (trJob r) = hash_after C ops (trJob r)" if "r \<in> set ?db" for r
      using \<open>op_job a \<notin> _\<close> that by (auto simp: hash_after_def latest_snoc)
    then show ?thesis using snoc by (simp add: list_all_iff)
  qed
  note upd = set_token_rows(2) [of "hash_after C ops" ?db "hash_after C (ops @ [a])" "op_job a", OF conjunct2 [OF snoc]]
  have other: "hash_after C (ops @ [a]) k = hash_after C ops k" if "k \<noteq> op_job a" for k
    using that by (auto simp: hash_after_def latest_snoc)
  show ?case
  proof (cases a)
    case (Issue j t)
    then have "hash_after C (ops @ [a]) j = Some (hashToken C t)" by (simp add: hash_after_def latest_snoc)
    then show ?thesis using snoc missing upd other Issue by (simp add: IssueTriggerToken_def set_token_rows(1))
  next
    case (Revoke j)
    then have "hash_after C (ops @ [a]) j = None" by (simp add: hash_after_def latest_snoc)
    then show ?thesis using snoc missing upd other Revoke by (simp add: RevokeTriggerToken_def set_token_rows(1))
  qed
qed

lemma find_mapped: "list_all (\<lambda>r. P r = Q (f r)) xs \<Longrightarrow> map_option f (find P xs) = find Q (map f xs)"
  by (induction xs) auto



end
