(* ===== verification/Sign_In.thy ===== *)
theory Sign_In
  imports Accounts
begin

text \<open>
  Signing in (\<^verbatim>\<open>src/internal/api/auth.go\<close>): the limit on failed attempts, the guard in front
  of the API, and the handlers of setup, login, logout and the session query, over the settings
  and sessions of the store. A reply is its status with its body, or a status with the code of a
  problem and its detail; the sentence that goes with a code is left out.
\<close>

datatype 'b http_reply = Okay nat 'b | Problem nat string string

section \<open>Failed attempts\<close>

definition loginAttemptWindow :: duration where "loginAttemptWindow = 900000000000"
definition maxLoginAttempts :: nat where "maxLoginAttempts = 10"

type_synonym limiter = "gotime list gomap"

definition times_of :: "string \<Rightarrow> limiter \<Rightarrow> gotime list" where
  "times_of addr l = (case goget l addr of None \<Rightarrow> [] | Some ts \<Rightarrow> ts)"

definition recent :: "duration \<Rightarrow> gotime \<Rightarrow> gotime list \<Rightarrow> gotime list" where
  "recent window now ts = filter (\<lambda>t. now - window < t) ts"

definition login_blocked :: "gotime \<Rightarrow> string \<Rightarrow> limiter \<Rightarrow> bool \<times> limiter" where
  "login_blocked now addr l =
     (let kept = recent loginAttemptWindow now (times_of addr l) in
      if kept = [] then (False, godel addr l) else (maxLoginAttempts \<le> length kept, goput addr kept l))"

definition login_record :: "gotime \<Rightarrow> string \<Rightarrow> limiter \<Rightarrow> limiter" where
  "login_record now addr l = goput addr (times_of addr l @ [now]) l"

definition login_clear :: "string \<Rightarrow> limiter \<Rightarrow> limiter" where
  "login_clear addr l = godel addr l"

text \<open>\<open>net.SplitHostPort\<close> is an argument.\<close>

definition clientAddr :: "(string \<Rightarrow> (string \<times> string) option) \<Rightarrow> string \<Rightarrow> string" where
  "clientAddr split remote = (case split remote of None \<Rightarrow> remote | Some (host, _) \<Rightarrow> host)"


section \<open>The guard\<close>

record auth_state =
  atSettings :: settings
  atSessions :: "session_row list"
  atLogins :: limiter

text \<open>What the handlers get from outside: the instant, the faults of the database, random bytes.\<close>

record auth_env =
  aeCrypto :: crypto
  aeQuote :: "string \<Rightarrow> string"
  aeNow :: gotime
  aeSettingsFault :: "goerr option"
  aeStoreFault :: "goerr option"
  aeLookupFault :: "goerr option"
  aeRefreshFault :: "goerr option"
  aeSessionFault :: "goerr option"
  aeSalt :: "goerr + string"
  aeToken :: "goerr + string"

definition publicPath :: "string \<Rightarrow> bool" where
  "publicPath path = HasPrefix path ''/api/auth/''"

text \<open>The cookie a reply sets: its value and its age, or none.\<close>

type_synonym cookie = "(string \<times> int) option"

definition dead_cookie :: cookie where "dead_cookie = Some ([], - 1)"

definition lookup :: "auth_env \<Rightarrow> string \<Rightarrow> auth_state \<Rightarrow> (goerr + bool) \<times> auth_state" where
  "lookup E token st =
     (case LookupSession (aeCrypto E) (aeLookupFault E) (aeRefreshFault E) (aeNow E) token (atSessions st) of
        (r, db) \<Rightarrow> (r, st\<lparr>atSessions := db\<rparr>))"

text \<open>\<open>handler\<close> is what the guard lets through to.\<close>

definition requireSession ::
  "auth_env \<Rightarrow> (auth_state \<Rightarrow> 'b http_reply \<times> cookie \<times> auth_state) \<Rightarrow> string \<Rightarrow> string option \<Rightarrow> auth_state \<Rightarrow> 'b http_reply \<times> cookie \<times> auth_state" where
  "requireSession E handler path token st =
     (if publicPath path then handler st
      else case token of
             None \<Rightarrow> (Problem 401 ''unauthenticated'' [], None, st)
           | Some token \<Rightarrow>
               (case lookup E token st of
                  (Inl e, st) \<Rightarrow> (Problem 500 ''session_check_failed'' (err_text e), None, st)
                | (Inr False, st) \<Rightarrow> (Problem 401 ''unauthenticated'' [], dead_cookie, st)
                | (Inr True, st) \<Rightarrow> handler st))"

text \<open>The mounts of the router: the hooks' prefix is longer than that of the guarded API.\<close>

datatype mounted = HookRoutes | GuardedRoutes | Liveness | Shell

definition mount_of :: "string \<Rightarrow> mounted" where
  "mount_of path =
     (if HasPrefix path ''/api/hooks/'' then HookRoutes
      else if HasPrefix path ''/api/'' then GuardedRoutes
      else if path = ''/healthz'' then Liveness
      else Shell)"


section \<open>The handlers\<close>

text \<open>Whether the caller is signed in, and whether the server has yet to be set up.\<close>

type_synonym session_body = "bool \<times> bool"

definition handleSession :: "auth_env \<Rightarrow> string option \<Rightarrow> auth_state \<Rightarrow> session_body http_reply \<times> cookie \<times> auth_state" where
  "handleSession E token st =
     (case GetSetting (aeSettingsFault E) (aeQuote E) settingPasswordHash (atSettings st) of
        Inl e \<Rightarrow> (Problem 500 ''setup_check_failed'' (err_text e), None, st)
      | Inr v \<Rightarrow>
          (let setup = (v = None) in
           case token of
             None \<Rightarrow> (Okay 200 (False, setup), None, st)
           | Some token \<Rightarrow>
               (case lookup E token st of
                  (Inl _, st) \<Rightarrow> (Okay 200 (False, setup), None, st)
                | (Inr ok, st) \<Rightarrow> (Okay 200 (ok, setup), None, st))))"

definition issueSession :: "auth_env \<Rightarrow> auth_state \<Rightarrow> session_body http_reply \<times> cookie \<times> auth_state" where
  "issueSession E st =
     (case CreateSession (aeCrypto E) (aeToken E) (aeSessionFault E) (aeNow E) (atSessions st) of
        (Inl e, db) \<Rightarrow> (Problem 500 ''session_failed'' (err_text e), None, st\<lparr>atSessions := db\<rparr>)
      | (Inr (token, expires), db) \<Rightarrow>
          (Okay 200 (True, False), Some (token, time_Sub expires (aeNow E) div 1000000000), st\<lparr>atSessions := db\<rparr>))"

text \<open>Setting up, in its two halves: the check, and what follows when it passed.\<close>

definition setup_check :: "auth_env \<Rightarrow> auth_state \<Rightarrow> session_body http_reply option" where
  "setup_check E st =
     (case GetSetting (aeSettingsFault E) (aeQuote E) settingPasswordHash (atSettings st) of
        Inl e \<Rightarrow> Some (Problem 500 ''setup_check_failed'' (err_text e))
      | Inr (Some _) \<Rightarrow> Some (Problem 409 ''already_set_up'' [])
      | Inr None \<Rightarrow> None)"

definition setup_store :: "auth_env \<Rightarrow> goerr + string \<Rightarrow> auth_state \<Rightarrow> session_body http_reply \<times> cookie \<times> auth_state" where
  "setup_store E body st =
     (case body of
        Inl e \<Rightarrow> (Problem 400 ''invalid_json'' (err_text e), None, st)
      | Inr password \<Rightarrow>
          (case SetAdminPassword (aeCrypto E) (aeSalt E) (aeStoreFault E) password (atSettings st) of
             (Some e, db) \<Rightarrow> (Problem 500 ''setup_failed'' (err_text e), None, st\<lparr>atSettings := db\<rparr>)
           | (None, db) \<Rightarrow> issueSession E (st\<lparr>atSettings := db\<rparr>)))"

definition handleSetup :: "auth_env \<Rightarrow> goerr + string \<Rightarrow> auth_state \<Rightarrow> session_body http_reply \<times> cookie \<times> auth_state" where
  "handleSetup E body st = (case setup_check E st of Some r \<Rightarrow> (r, None, st) | None \<Rightarrow> setup_store E body st)"

definition handleLogin :: "auth_env \<Rightarrow> string \<Rightarrow> goerr + string \<Rightarrow> auth_state \<Rightarrow> session_body http_reply \<times> cookie \<times> auth_state" where
  "handleLogin E addr body st =
     (case login_blocked (aeNow E) addr (atLogins st) of
        (True, l) \<Rightarrow> (Problem 429 ''too_many_attempts'' [], None, st\<lparr>atLogins := l\<rparr>)
      | (False, l) \<Rightarrow>
          (let st = st\<lparr>atLogins := l\<rparr> in
           case body of
             Inl e \<Rightarrow> (Problem 400 ''invalid_json'' (err_text e), None, st)
           | Inr password \<Rightarrow>
               (if aeSettingsFault E = None \<and> \<not> AdminPasswordSet (atSettings st) then (Problem 409 ''setup_required'' [], None, st)
                else case VerifyAdminPassword (aeCrypto E) (aeQuote E) (aeSettingsFault E) password (atSettings st) of
                       Inl e \<Rightarrow> (Problem 500 ''login_failed'' (err_text e), None, st)
                     | Inr False \<Rightarrow>
                         (Problem 401 ''invalid_password'' [], None, st\<lparr>atLogins := login_record (aeNow E) addr (atLogins st)\<rparr>)
                     | Inr True \<Rightarrow> issueSession E (st\<lparr>atLogins := login_clear addr (atLogins st)\<rparr>))))"

definition handleLogout :: "auth_env \<Rightarrow> string option \<Rightarrow> auth_state \<Rightarrow> session_body http_reply \<times> cookie \<times> auth_state" where
  "handleLogout E token st =
     (Okay 200 (False, False), dead_cookie,
      case token of
        None \<Rightarrow> st
      | Some token \<Rightarrow> st\<lparr>atSessions := snd (DeleteSession (aeCrypto E) (aeSessionFault E) token (atSessions st))\<rparr>)"


section \<open>Properties\<close>

subsection \<open>Guessing\<close>

definition guess :: "auth_env \<Rightarrow> string \<Rightarrow> gotime \<Rightarrow> string \<Rightarrow> auth_state \<Rightarrow> session_body http_reply \<times> cookie \<times> auth_state" where
  "guess E addr now pw st = handleLogin (E\<lparr>aeNow := now\<rparr>) addr (Inr pw) st"

definition wrong_answer :: "session_body http_reply" where
  "wrong_answer = Problem 401 ''invalid_password'' []"

text \<open>The instants of the wrong guesses that were looked at, of a series from one address.\<close>

fun looked_at :: "auth_env \<Rightarrow> string \<Rightarrow> (gotime \<times> string) list \<Rightarrow> auth_state \<Rightarrow> gotime list" where
  "looked_at E addr [] st = []"
| "looked_at E addr ((now, pw) # gs) st =
     (let (r, _, st') = guess E addr now pw st
      in if r = wrong_answer then now # looked_at E addr gs st' else looked_at E addr gs st')"

definition in_window :: "gotime \<Rightarrow> gotime list \<Rightarrow> gotime list" where
  "in_window t ts = filter (\<lambda>x. t - loginAttemptWindow < x \<and> x \<le> t) ts"

definition wrong :: "auth_env \<Rightarrow> string \<Rightarrow> settings \<Rightarrow> bool" where
  "wrong E pw s \<longleftrightarrow> VerifyAdminPassword (aeCrypto E) (aeQuote E) (aeSettingsFault E) pw s = Inr False"

lemma length_filter_mono: "(\<And>x. P x \<Longrightarrow> Q x) \<Longrightarrow> length (filter P xs) \<le> length (filter Q xs)"
  by (induction xs) auto

lemma recent_recent: "now \<le> now' \<Longrightarrow> recent w now' (recent w now ts) = recent w now' ts"
  by (auto simp: recent_def intro!: filter_cong)

lemma guess_wrong:
  fixes now :: gotime and addr :: string
  assumes "wrong E pw (atSettings st)"
  defines "kept \<equiv> recent loginAttemptWindow now (times_of addr (atLogins st))"
  shows "(if 10 \<le> length kept
      then fst (guess E addr now pw st) \<noteq> wrong_answer \<and> times_of addr (atLogins (snd (snd (guess E addr now pw st)))) = kept
      else fst (guess E addr now pw st) = wrong_answer \<and> times_of addr (atLogins (snd (snd (guess E addr now pw st)))) = kept @ [now])
    \<and> atSettings (snd (snd (guess E addr now pw st))) = atSettings st"
proof -
  have "aeSettingsFault E = None \<and> AdminPasswordSet (atSettings st)"
    using assms(1) by (auto simp: wrong_def VerifyAdminPassword_def GetSetting_def AdminPasswordSet_def split: option.splits)
  moreover have "VerifyAdminPassword (aeCrypto E) (aeQuote E) (aeSettingsFault E) pw (atSettings st) = Inr False"
    using assms(1) by (simp add: wrong_def)
  ultimately show ?thesis
    by (simp add: guess_def handleLogin_def login_blocked_def kept_def wrong_answer_def login_record_def times_of_def
        gm.get_put AList.delete_conv' maxLoginAttempts_def Let_def split: option.split)
qed

definition follows :: "string \<Rightarrow> gotime list \<Rightarrow> gotime \<Rightarrow> auth_state \<Rightarrow> bool" where
  "follows addr hs T st \<longleftrightarrow> list_all (\<lambda>x. x \<le> T) hs \<and> (\<forall>t. length (in_window t hs) \<le> 10)
     \<and> (\<forall>now\<ge>T. recent loginAttemptWindow now (times_of addr (atLogins st)) = recent loginAttemptWindow now hs)"

lemma follows_guess:
  fixes T now :: gotime and addr :: string
  assumes "follows addr hs T st" "T \<le> now" "wrong E pw (atSettings st)"
  defines "st' \<equiv> snd (snd (guess E addr now pw st))"
  shows "follows addr (if fst (guess E addr now pw st) = wrong_answer then hs @ [now] else hs) now st'"
proof -
  let ?kept = "recent loginAttemptWindow now (times_of addr (atLogins st))"
  have kept: "?kept = recent loginAttemptWindow now hs" using assms(1,2) by (simp add: follows_def)
  have later: "recent loginAttemptWindow n ?kept = recent loginAttemptWindow n hs" if "now \<le> n" for n
    using that by (simp add: kept recent_recent)
  have old: "list_all (\<lambda>x. x \<le> now) hs" using assms(1,2) by (auto simp: follows_def list_all_iff)
  note g = guess_wrong [OF assms(3), of now addr]
  show ?thesis
  proof (cases "10 \<le> length ?kept")
    case True
    then show ?thesis using g assms(1) later old by (simp add: follows_def st'_def)
  next
    case False
    have bound: "length (in_window t (hs @ [now])) \<le> 10" for t
    proof (cases "t - loginAttemptWindow < now \<and> now \<le> t")
      case True
      have "length (in_window t hs) \<le> length (recent loginAttemptWindow now hs)"
        unfolding in_window_def recent_def using True by (intro length_filter_mono) simp
      then show ?thesis using False kept True by (simp add: in_window_def)
    next
      case other: False
      then show ?thesis using assms(1) by (auto simp: in_window_def follows_def)
    qed
    have "recent loginAttemptWindow n (?kept @ [now]) = recent loginAttemptWindow n (hs @ [now])" if "now \<le> n" for n
      using later [OF that] by (simp add: recent_def)
    then show ?thesis using False g bound old by (simp add: follows_def st'_def)
  qed
qed

lemma looked_at_follows:
  assumes "follows addr hs T st" "sorted (T # map fst gs)" "\<forall>g \<in> set gs. wrong E (snd g) (atSettings st)"
  shows "length (in_window t (hs @ looked_at E addr gs st)) \<le> 10"
  using assms
proof (induction gs arbitrary: hs T st)
  case Nil
  then show ?case by (simp add: follows_def)
next
  case (Cons g gs)
  obtain now pw where g: "g = (now, pw)" by (cases g)
  let ?r = "guess E addr now pw st"
  have w: "wrong E pw (atSettings st)" "T \<le> now" using Cons.prems by (simp_all add: g)
  have f: "follows addr (if fst ?r = wrong_answer then hs @ [now] else hs) now (snd (snd ?r))"
    by (rule follows_guess [OF Cons.prems(1) w(2,1)])
  have "atSettings (snd (snd ?r)) = atSettings st" using guess_wrong [OF w(1)] by simp
  then show ?case using Cons.IH [OF f] Cons.prems(2,3) by (auto simp: g split_beta Let_def)
qed


definition sample_auth :: auth_env where
  "sample_auth =
     \<lparr>aeCrypto = plain_crypto, aeQuote = id, aeNow = 0, aeSettingsFault = None, aeStoreFault = None, aeLookupFault = None,
      aeRefreshFault = None, aeSessionFault = None, aeSalt = Inr ''salt'', aeToken = Inr ''token''\<rparr>"

definition sample_auth_state :: auth_state where
  "sample_auth_state =
     \<lparr>atSettings = snd (SetAdminPassword plain_crypto (Inr ''salt'') None ''secret'' []), atSessions = [], atLogins = []\<rparr>"

lemma sample_verify: "VerifyAdminPassword plain_crypto id None ''guess'' (atSettings sample_auth_state) = Inr False"
proof -
  have "scan_int (fmt_int 600000) = Some 600000" by (rule scan_fmt_int) (simp_all add: in_int64_def)
  then show ?thesis
    by (simp add: sample_auth_state_def SetAdminPassword_def VerifyAdminPassword_def GetSetting_def setting_or_empty_def
        setting_names pbkdf2Iterations_def pbkdf2KeyLen_def plain_crypto_def)
qed



subsection \<open>The guard\<close>

text \<open>
  the API needs a session. Over any history of sessions, what a request under the API's prefix
  does depends on its handler only on a path of signing in, or with the token of a session that
  was opened less than seven days before and that nobody has signed out since.
\<close>

theorem api_needs_a_session:
  assumes "inj (crSha (aeCrypto E))" "atSessions st = fold (session_apply (aeCrypto E)) ops []"
    and "requireSession E h1 path token st \<noteq> requireSession E h2 path token st"
  shows "HasPrefix path ''/api/auth/'' \<or>
    (\<exists>tok pre t0 post. token = Some tok \<and> ops = pre @ Opened t0 tok # post \<and> aeNow E < t0 + 604800000000000
       \<and> Closed tok \<notin> set post \<and> ClosedAll \<notin> set post)"
proof (cases "publicPath path")
  case True
  then show ?thesis by (simp add: publicPath_def)
next
  case False
  then obtain tok where tok: "token = Some tok" using assms(3) by (auto simp: requireSession_def split: option.splits)
  have "fst (LookupSession (aeCrypto E) (aeLookupFault E) (aeRefreshFault E) (aeNow E) tok (atSessions st)) = Inr True"
    using assms(3) False by (auto simp: tok requireSession_def lookup_def split: prod.splits sum.splits bool.splits)
  then show ?thesis
    using live_session [OF assms(1), of "aeLookupFault E" "aeRefreshFault E" "aeNow E" tok ops] assms(2) tok by auto
qed

theorem api_needs_a_session_witness:
  "requireSession sample_auth (\<lambda>st. (Okay 200 True, None, st)) ''/api/jobs'' (Some ''x'') sample_auth_state
   = requireSession sample_auth (\<lambda>st. (Okay 200 False, None, st)) ''/api/jobs'' (Some ''x'') sample_auth_state"
proof (rule ccontr)
  assume "\<not> ?thesis"
  from api_needs_a_session [OF _ _ this, of "[]"] show False
    by (simp add: sample_auth_def sample_auth_state_def plain_crypto_def HasPrefix_def)
qed


subsection \<open>What goes wrong\<close>

text \<open>
  The check of setup and the write are separate: a second setup that checked before the first one
  wrote replaces the password, although the server is configured by then.
\<close>

lemma setup_can_be_taken_over:
  assumes "setup_check E st = None" "AdminPasswordSet (atSettings st')" "SetAdminPassword (aeCrypto E) (aeSalt E) (aeStoreFault E) pw (atSettings st') = (None, db)"
  shows "atSettings (snd (snd (setup_store E (Inr pw) st'))) = db"
  using assms(3) by (auto simp: setup_store_def issueSession_def split: sum.split prod.split)

text \<open>The map of failures keeps an address for ever that fails once and never comes back.\<close>

lemma failures_pile_up:
  assumes "distinct as"
  shows "length (fold (\<lambda>a l. login_record t a (snd (login_blocked t a l))) as []) = length as"
proof -
  have "fold (\<lambda>a l. login_record t a (snd (login_blocked t a l))) as l = l @ map (\<lambda>a. (a, [t])) as"
    if "distinct as" "set as \<inter> set (gokeys l) = {}" for l :: limiter
    using that
  proof (induction as arbitrary: l)
    case (Cons a as)
    have none: "goget l a = None" using Cons.prems(2) by (auto simp: map_of_eq_None_iff)
    then have "godel a l = l" using Cons.prems(2) by (force simp: AList.delete_eq filter_id_conv)
    moreover have "goput a [t] l = l @ [(a, [t])]" using Cons.prems(2) by (induction l) auto
    ultimately have "login_record t a (snd (login_blocked t a l)) = l @ [(a, [t])]"
      by (simp add: login_record_def login_blocked_def times_of_def none recent_def)
    then show ?case using Cons by auto
  qed simp
  from this [OF assms, of "[]"] show ?thesis by simp
qed

end
