(* ===== verification/Hooks.thy ===== *)
theory Hooks
  imports Sign_In Status Run_Registry
begin

text \<open>
  The routes an anonymous caller can reach (\<^verbatim>\<open>src/internal/api/hooks.go\<close>): a trigger token
  starts a run of its job and reads the status of the job's runs. The limiter of failures, the
  authorisation, and the handlers, over the tokens of the store, the registry of runs and the
  status payload.
\<close>

section \<open>The limiter\<close>

definition hookAttemptWindow :: duration where "hookAttemptWindow = 300000000000"
definition maxHookFailures :: nat where "maxHookFailures = 20"
definition maxTrackedAddrs :: nat where "maxTrackedAddrs = 4096"

definition prune :: "gotime \<Rightarrow> string \<Rightarrow> limiter \<Rightarrow> gotime list \<times> limiter" where
  "prune now addr l =
     (let kept = recent hookAttemptWindow now (times_of addr l) in
      if kept = [] then ([], godel addr l) else (kept, goput addr kept l))"

definition hook_blocked :: "gotime \<Rightarrow> string \<Rightarrow> limiter \<Rightarrow> bool \<times> limiter" where
  "hook_blocked now addr l = (case prune now addr l of (kept, l) \<Rightarrow> (maxHookFailures \<le> length kept, l))"

definition expired_entry :: "gotime \<Rightarrow> gotime list \<Rightarrow> bool" where
  "expired_entry now ts \<longleftrightarrow> ts = [] \<or> \<not> now - hookAttemptWindow < last ts"

text \<open>Expired entries go first, then the oldest, down to the ceiling.\<close>

definition sweep :: "gotime \<Rightarrow> limiter \<Rightarrow> limiter" where
  "sweep now l =
     (let l = filter (\<lambda>(_, ts). \<not> expired_entry now ts) l in
      if length l \<le> maxTrackedAddrs then l
      else let old = take (length l - maxTrackedAddrs) (sort_slice (\<lambda>a b. last (snd a) < last (snd b)) l)
           in filter (\<lambda>(a, _). a \<notin> fst ` set old) l)"

definition hook_record :: "gotime \<Rightarrow> string \<Rightarrow> limiter \<Rightarrow> limiter" where
  "hook_record now addr l =
     (case prune now addr l of
        (kept, l) \<Rightarrow>
          let l = goput addr (kept @ [now]) l
          in if length l > maxTrackedAddrs then sweep now l else l)"


section \<open>Authorisation\<close>

text \<open>What the handlers read of a request; \<open>rqBody\<close> is the decoded body of a trigger call.\<close>

datatype hook_body = NoBody | BadBody goerr | RunBody bool string

record request =
  rqAddr :: string
  rqAuthorization :: string
  rqTokenParam :: string
  rqID :: string
  rqRunID :: string
  rqQueue :: bool
  rqBody :: hook_body

definition CutPrefix :: "string \<Rightarrow> string \<Rightarrow> string option" where
  "CutPrefix s p = (if HasPrefix s p then Some (drop (length p) s) else None)"

definition hookToken :: "request \<Rightarrow> string" where
  "hookToken r =
     (case (if rqAuthorization r = [] then None else CutPrefix (rqAuthorization r) ''Bearer '') of
        Some after \<Rightarrow> TrimSpace after
      | None \<Rightarrow> rqTokenParam r)"

record hook_env =
  heCrypto :: crypto
  heQuote :: "string \<Rightarrow> string"
  heNow :: gotime
  heTokens :: "token_row list"
  heTokenFault :: "goerr option"
  heGetJob :: "string \<Rightarrow> goerr + job"
  heStart :: start_db
  heRunFault :: "goerr option"
  heRuns :: run_tables
  heListFault :: "goerr option"
  heNames :: "string \<Rightarrow> string"

record hook_state =
  hsRunner :: runner
  hsFailures :: limiter

datatype hook_answer =
  Queued_Behind string | Started_Run string | Run_Status payload string | Never_Run string | New_Token string | Nothing

type_synonym hook_reply = "hook_answer http_reply"

definition deny :: "hook_env \<Rightarrow> request \<Rightarrow> hook_state \<Rightarrow> (hook_reply + job) \<times> hook_state" where
  "deny E r st =
     (let l = hook_record (heNow E) (rqAddr r) (hsFailures st) in
      case hook_blocked (heNow E) (rqAddr r) l of
        (blocked, l) \<Rightarrow>
          (Inl (if blocked then Problem 429 ''rate_limited'' [] else Problem 401 ''unauthenticated'' []), st\<lparr>hsFailures := l\<rparr>))"

definition authorizeHook :: "hook_env \<Rightarrow> request \<Rightarrow> hook_state \<Rightarrow> (hook_reply + job) \<times> hook_state" where
  "authorizeHook E r st =
     (let token = hookToken r in
      if token = [] then deny E r st
      else case JobForTriggerToken (heCrypto E) (heTokenFault E) (heGetJob E) token (heTokens E) of
             Inl e \<Rightarrow>
               if errors_Is e ErrNotFound then deny E r st
               else (Inl (Problem 500 ''auth_failed'' (err_text e)), st)
           | Inr job \<Rightarrow> if rqID r \<noteq> [] \<and> rqID r \<noteq> jbID job then deny E r st else (Inr job, st))"


section \<open>Triggering a run\<close>

text \<open>The policy of the stored job is overridden for this run only.\<close>

definition overridden :: "string \<Rightarrow> job \<Rightarrow> hook_reply + job" where
  "overridden override job =
     (if override = [] then Inr job
      else if override = ''skip'' then Inr (job\<lparr>jbUnavailable := Val PolicySkip\<rparr>)
      else if override = ''abort'' then Inr (job\<lparr>jbUnavailable := Val PolicyAbort\<rparr>)
      else if override = ''prompt'' then Inl (Problem 400 ''invalid_override'' (''Use '' @ fmt_q id ''skip'' @ '' or '' @ fmt_q id ''abort'' @ ''.''))
      else Inl (Problem 400 ''invalid_override'' (''Got: '' @ override)))"

definition StartWebhook :: "hook_env \<Rightarrow> job \<Rightarrow> runner \<Rightarrow> (goerr + string) \<times> runner" where
  "StartWebhook E j = start (heQuote E) (heStart E) (heNow E) j False TriggerWebhook"

definition StartPreview :: "hook_env \<Rightarrow> job \<Rightarrow> runner \<Rightarrow> (goerr + string) \<times> runner" where
  "StartPreview E j = start (heQuote E) (heStart E) (heNow E) j True TriggerManual"

definition start_reply :: "(goerr + string) \<Rightarrow> hook_reply" where
  "start_reply q =
     (case q of
        Inr runID \<Rightarrow> Okay 202 (Started_Run runID)
      | Inl e \<Rightarrow>
          if errors_Is e ErrAlreadyRunning then Problem 409 ''already_running'' ''Pass ?queue=1 to queue one run to follow it.''
          else if errors_Is e ErrShuttingDown then Problem 503 ''shutting_down'' []
          else Problem 502 ''run_failed'' (err_text e))"

text \<open>\<open>mid\<close> and \<open>mid'\<close>: what others do to the registry between the calls of the handler.\<close>

definition start_or_queue ::
  "(runner \<Rightarrow> runner) \<Rightarrow> (runner \<Rightarrow> runner) \<Rightarrow> bool \<Rightarrow> (runner \<Rightarrow> (goerr + string) \<times> runner) \<Rightarrow> string \<Rightarrow> runner \<Rightarrow> hook_reply \<times> runner" where
  "start_or_queue mid mid' queue startr jobID r =
     (case startr r of
        (Inr runID, r) \<Rightarrow> (start_reply (Inr runID), r)
      | (Inl e, r) \<Rightarrow>
          if \<not> (errors_Is e ErrAlreadyRunning \<and> queue) then (start_reply (Inl e), r)
          else (case QueueNext jobID (mid r) of
                  (True, r) \<Rightarrow> (Okay 202 (Queued_Behind jobID), r)
                | (False, r) \<Rightarrow>
                    (let r = mid' r in
                     if is_queued r jobID then (start_reply (Inl e), r)
                     else case startr r of (q, r) \<Rightarrow> (start_reply q, r))))"

definition handleHookRun :: "(runner \<Rightarrow> runner) \<Rightarrow> (runner \<Rightarrow> runner) \<Rightarrow> hook_env \<Rightarrow> request \<Rightarrow> hook_state \<Rightarrow> hook_reply \<times> hook_state" where
  "handleHookRun mid mid' E r st =
     (case authorizeHook E r st of
        (Inl p, st) \<Rightarrow> (p, st)
      | (Inr job, st) \<Rightarrow>
          (case rqBody r of
             BadBody e \<Rightarrow> (Problem 400 ''invalid_body'' (err_text e), st)
           | body \<Rightarrow>
               (let (preview, override) = (case body of RunBody p ov \<Rightarrow> (p, ov) | _ \<Rightarrow> (False, [])) in
                case overridden override job of
                  Inl p \<Rightarrow> (p, st)
                | Inr job \<Rightarrow>
                    (case start_or_queue mid mid' (rqQueue r) (if preview then StartPreview E job else StartWebhook E job) (jbID job) (hsRunner st) of
                       (p, rn) \<Rightarrow> (p, st\<lparr>hsRunner := rn\<rparr>)))))"

text \<open>What the queue holds is the job's ID; the run behind it is started from the stored job.\<close>

definition startQueued :: "hook_env \<Rightarrow> string \<Rightarrow> runner \<Rightarrow> runner" where
  "startQueued E jobID r = (case heGetJob E jobID of Inl _ \<Rightarrow> r | Inr job \<Rightarrow> snd (StartWebhook E job r))"


section \<open>Reading the status\<close>

definition run_progress :: "runner \<Rightarrow> string \<Rightarrow> gotime \<Rightarrow> run_snapshot option" where
  "run_progress r runID now = map_option (\<lambda>h. run_snapshot_of now (hdProgress h)) (goget (rnActive r) runID)"

definition hookStatus :: "hook_env \<Rightarrow> runner \<Rightarrow> run_row \<times> run_destination list \<Rightarrow> job \<Rightarrow> payload" where
  "hookStatus E r run job =
     goput ''job'' (JStr (jbName job)) (StatusPayload (heNow E) run (run_progress r (rrID (fst run)) (heNow E)) (Some (heNames E)))"

definition run_problem :: "goerr \<Rightarrow> hook_reply" where
  "run_problem e = (if errors_Is e ErrNotFound then Problem 404 ''not_found'' (err_text e) else Problem 500 ''run_error'' [])"

definition handleHookRunStatus :: "hook_env \<Rightarrow> request \<Rightarrow> hook_state \<Rightarrow> hook_reply \<times> hook_state" where
  "handleHookRunStatus E r st =
     (case authorizeHook E r st of
        (Inl p, st) \<Rightarrow> (p, st)
      | (Inr job, st) \<Rightarrow>
          ((case GetRun (heRunFault E) (rqRunID r) (heRuns E) of
              Inl e \<Rightarrow> run_problem e
            | Inr run \<Rightarrow>
                if rrJobID (fst run) \<noteq> jbID job then Problem 404 ''not_found'' []
                else Okay 200 (Run_Status (hookStatus E (hsRunner st) run job) (rrJobID (fst run)))), st))"

definition handleHookJobStatus :: "hook_env \<Rightarrow> request \<Rightarrow> hook_state \<Rightarrow> hook_reply \<times> hook_state" where
  "handleHookJobStatus E r st =
     (case authorizeHook E r st of
        (Inl p, st) \<Rightarrow> (p, st)
      | (Inr job, st) \<Rightarrow>
          ((case heListFault E of
              Some e \<Rightarrow> Problem 500 ''list_failed'' (err_text e)
            | None \<Rightarrow>
                (case ListRuns (jbID job) None 1 (heRuns E) of
                   [] \<Rightarrow> Okay 200 (Never_Run (jbID job))
                 | run # _ \<Rightarrow> Okay 200 (Run_Status (hookStatus E (hsRunner st) run job) (rrJobID (fst run))))), st))"


section \<open>Issuing and revoking\<close>

definition job_problem :: "goerr \<Rightarrow> hook_reply" where
  "job_problem e =
     (if errors_Is e ErrNotFound then Problem 404 ''not_found'' (err_text e) else if errors_Is e ErrNameTaken then Problem 409 ''name_taken'' []
      else Problem 400 ''invalid_job'' [])"

definition handleIssueToken :: "hook_env \<Rightarrow> goerr + string \<Rightarrow> goerr option \<Rightarrow> string \<Rightarrow> hook_reply \<times> token_row list" where
  "handleIssueToken E random fault jobID =
     (case heGetJob E jobID of
        Inl e \<Rightarrow> (job_problem e, heTokens E)
      | Inr _ \<Rightarrow>
          (case IssueTriggerToken (heCrypto E) random fault (heNow E) jobID (heTokens E) of
             (Inl e, db) \<Rightarrow> (Problem 500 ''token_failed'' (err_text e), db)
           | (Inr token, db) \<Rightarrow> (Okay 201 (New_Token token), db)))"

definition handleRevokeToken :: "hook_env \<Rightarrow> goerr option \<Rightarrow> string \<Rightarrow> hook_reply \<times> token_row list" where
  "handleRevokeToken E fault jobID =
     (case RevokeTriggerToken fault (heNow E) jobID (heTokens E) of
        (Some e, db) \<Rightarrow> (job_problem e, db)
      | (None, db) \<Rightarrow> (Okay 204 Nothing, db))"

section \<open>Properties\<close>

subsection \<open>The limiter\<close>

datatype hook_op = Failed_At gotime string | Asked_At gotime string

fun limiter_apply :: "hook_op \<Rightarrow> limiter \<Rightarrow> limiter" where
  "limiter_apply (Failed_At t a) l = hook_record t a l"
| "limiter_apply (Asked_At t a) l = snd (hook_blocked t a l)"

fun failure_of :: "string \<Rightarrow> hook_op \<Rightarrow> gotime list" where
  "failure_of a (Failed_At t b) = (if b = a then [t] else [])"
| "failure_of a (Asked_At t b) = []"

definition failures :: "string \<Rightarrow> hook_op list \<Rightarrow> gotime list" where
  "failures a ops = concat (map (failure_of a) ops)"

definition limiter_ok :: "hook_op list \<Rightarrow> limiter \<Rightarrow> bool" where
  "limiter_ok ops l \<longleftrightarrow> gomap_ok l \<and> (\<forall>a. subseq (times_of a l) (failures a ops))"

lemma times_of_simps [simp]:
  "times_of a (goput b ts l) = (if a = b then ts else times_of a l)" "times_of a (godel b l) = (if a = b then [] else times_of a l)"
  by (simp_all add: times_of_def gm.get_put AList.delete_conv')

lemma times_of_filter: "gomap_ok l \<Longrightarrow> times_of a (filter P l) \<in> {times_of a l, []}"
proof -
  assume "gomap_ok l"
  then have ok: "gomap_ok (filter P l)" by (simp add: gomap_ok_def distinct_map_filter)
  show ?thesis
  proof (cases "goget (filter P l) a")
    case (Some v)
    then have "(a, v) \<in> set l" using goget_Some_iff [OF ok] by simp
    then have "goget l a = Some v" using goget_Some_iff [OF \<open>gomap_ok l\<close>] by simp
    then show ?thesis using Some by (simp add: times_of_def)
  qed (simp add: times_of_def)
qed

lemma prune_props:
  "prune now a l = (kept, l') \<Longrightarrow> kept = recent hookAttemptWindow now (times_of a l) \<and> (gomap_ok l \<longrightarrow> gomap_ok l')
     \<and> times_of b l' = (if b = a then kept else times_of b l)"
  by (auto simp: prune_def Let_def split: if_splits)

lemma length_keys_filter:
  assumes "gomap_ok l" "K \<subseteq> set (gokeys l)"
  shows "length (filter (\<lambda>(a, _). a \<in> K) l) = card K"
proof -
  have "distinct (map fst (filter (\<lambda>(a, _). a \<in> K) l))" using assms(1) by (simp add: gomap_ok_def distinct_map_filter)
  moreover have "set (map fst (filter (\<lambda>(a, _). a \<in> K) l)) = K" using assms(2) by force
  ultimately show ?thesis by (metis distinct_card length_map)
qed

lemma sweep_bound:
  assumes "gomap_ok l"
  shows "length (sweep now l) \<le> maxTrackedAddrs \<and> gomap_ok (sweep now l) \<and> times_of a (sweep now l) \<in> {times_of a l, []}"
proof -
  let ?l = "filter (\<lambda>(_, ts). \<not> expired_entry now ts) l" and ?sort = "sort_slice (\<lambda>a b :: string \<times> gotime list. last (snd a) < last (snd b))"
  let ?old = "take (length ?l - maxTrackedAddrs) (?sort ?l)"
  let ?new = "filter (\<lambda>(a, _). a \<notin> fst ` set ?old) ?l"
  have ok: "gomap_ok ?l" "gomap_ok ?new" using assms by (simp_all add: gomap_ok_def distinct_map_filter)
  have times: "times_of a ?l \<in> {times_of a l, []}" "times_of a ?new \<in> {times_of a ?l, []}"
    using times_of_filter [OF assms] times_of_filter [OF ok(1)] by blast+
  have old: "distinct (map fst ?old)" "fst ` set ?old \<subseteq> set (gokeys ?l)"
    using ok(1) set_take_subset [of "length ?l - maxTrackedAddrs" "?sort ?l"]
    by (auto simp: gomap_ok_def distinct_map_sort_slice set_sort_slice simp flip: take_map)
  have "length (filter (\<lambda>(a, _). a \<in> fst ` set ?old) ?l) = length ?old"
    using length_keys_filter [OF ok(1) old(2)] distinct_card [OF old(1)] by simp
  moreover have "length ?new + length (filter (\<lambda>(a, _). a \<in> fst ` set ?old) ?l) = length ?l"
    using sum_length_filter_compl [of "\<lambda>(a, _). a \<notin> fst ` set ?old" ?l] by (simp add: case_prod_unfold)
  ultimately have "length ?l > maxTrackedAddrs \<Longrightarrow> length ?new \<le> maxTrackedAddrs" by (simp add: length_sort_slice)
  then show ?thesis using ok times by (auto simp: sweep_def Let_def)
qed

lemma subseq_recent: "subseq xs ys \<Longrightarrow> subseq (recent w now xs) ys"
  unfolding recent_def by (metis subseq_filter_left subseq_order.order_trans)

lemma length_put: "a \<in> set (gokeys l) \<Longrightarrow> length (goput a v l) = length l"
  using arg_cong [OF AList.update_keys [of a v l], of length] by simp

lemma limiter_step:
  assumes "limiter_ok ops l" "length l \<le> maxTrackedAddrs"
  shows "limiter_ok (ops @ [op]) (limiter_apply op l) \<and> length (limiter_apply op l) \<le> maxTrackedAddrs"
proof (cases op)
  case (Asked_At t a)
  obtain kept l' where p: "prune t a l = (kept, l')" by fastforce
  have "length l' \<le> maxTrackedAddrs"
    using assms(2) p length_delete_le [of a l] length_put [of a l] goget_in_keys [of l a]
    by (fastforce simp: prune_def times_of_def recent_def Let_def split: if_splits option.splits)
  then show ?thesis using assms prune_props [OF p] p
    by (auto simp: Asked_At limiter_ok_def hook_blocked_def failures_def subseq_recent)
next
  case (Failed_At t a)
  obtain kept l' where p: "prune t a l = (kept, l')" by fastforce
  let ?l = "goput a (kept @ [t]) l'"
  have kept: "subseq kept (failures a ops)" using assms(1) prune_props [OF p] by (simp add: limiter_ok_def subseq_recent)
  have l: "gomap_ok ?l" using assms(1) prune_props [OF p] by (simp add: limiter_ok_def)
  have sub: "subseq (times_of b ?l) (failures b (ops @ [op]))" for b
    using assms(1) prune_props [OF p, of b] kept by (auto simp: limiter_ok_def failures_def Failed_At)
  show ?thesis
  proof (cases "length ?l > maxTrackedAddrs")
    case True
    have "subseq (times_of b (sweep t ?l)) (failures b (ops @ [op]))" for b
      using sweep_bound [OF l, of t b] sub [of b] by auto
    then show ?thesis using True sweep_bound [OF l, of t] by (simp add: Failed_At hook_record_def p limiter_ok_def)
  next
    case False
    then show ?thesis using l sub by (simp add: Failed_At hook_record_def p limiter_ok_def)
  qed
qed

lemma limiter_after: "limiter_ok ops (fold limiter_apply ops []) \<and> length (fold limiter_apply ops []) \<le> maxTrackedAddrs"
proof (induction ops rule: rev_induct)
  case Nil
  then show ?case by (simp add: limiter_ok_def times_of_def maxTrackedAddrs_def)
next
  case (snoc op ops)
  then show ?case using limiter_step [of ops _ op] by simp
qed

lemma subseq_recent_length: "subseq xs ys \<Longrightarrow> length (recent w now xs) \<le> length (recent w now ys)"
  unfolding recent_def by (rule list_emb_length [OF subseq_filter])

text \<open>
  the limiter of the anonymous routes is bounded and fair. Whatever fails and from wherever,
  it keeps at most 4096 addresses; and an address is only ever reported blocked when it failed at
  least twenty times within the last five minutes.
\<close>

theorem hook_limiter_is_bounded_and_fair:
  "length (fold limiter_apply ops []) \<le> 4096
   \<and> (fst (hook_blocked now a (fold limiter_apply ops [])) = False
      \<or> 20 \<le> length (filter (\<lambda>t. now - 300000000000 < t) (failures a ops)))"
proof -
  let ?l = "fold limiter_apply ops []"
  have "subseq (times_of a ?l) (failures a ops)" using limiter_after [of ops] by (simp add: limiter_ok_def)
  from subseq_recent_length [OF this, of hookAttemptWindow now]
  have "length (recent hookAttemptWindow now (times_of a ?l)) \<le> length (filter (\<lambda>t. now - 300000000000 < t) (failures a ops))"
    by (simp add: recent_def hookAttemptWindow_def)
  then show ?thesis using limiter_after [of ops]
    by (auto simp: hook_blocked_def prune_def maxHookFailures_def maxTrackedAddrs_def Let_def)
qed


subsection \<open>What a token reaches\<close>

text \<open>Whose token a request bears.\<close>

definition bears_token_of :: "hook_env \<Rightarrow> request \<Rightarrow> job \<Rightarrow> bool" where
  "bears_token_of E r job \<longleftrightarrow>
     (\<exists>row \<in> set (heTokens E). trHash row = Some (hashToken (heCrypto E) (hookToken r)) \<and> heGetJob E (trJob row) = Inr job)
     \<and> (rqID r = [] \<or> rqID r = jbID job)"

lemma authorized_bears: "authorizeHook E r st = (Inr job, st') \<Longrightarrow> bears_token_of E r job \<and> st' = st"
  by (auto simp: authorizeHook_def deny_def bears_token_of_def JobForTriggerToken_def Let_def find_Some_iff
      split: if_splits option.splits sum.splits prod.splits)

lemma refused_runner: "authorizeHook E r st = (Inl p, st') \<Longrightarrow> hsRunner st' = hsRunner st \<and> (\<exists>n c d. p = Problem n c d)"
  by (auto simp: authorizeHook_def deny_def Let_def split: if_splits option.splits sum.splits prod.splits)

text \<open>What an answer says about a job, over the registry it leaves.\<close>

fun answers_for :: "runner \<Rightarrow> string \<Rightarrow> hook_answer \<Rightarrow> bool" where
  "answers_for r j (Started_Run i) \<longleftrightarrow> (\<exists>h. goget (rnActive r) i = Some h \<and> hdJobID h = j \<and> goget (rnByJob r) j = Some i)"
| "answers_for r j (Queued_Behind k) \<longleftrightarrow> k = j \<and> is_queued r j \<and> ActiveForJob j r"
| "answers_for r j (Run_Status p k) \<longleftrightarrow> k = j \<and> stringField p ''job_id'' = j"
| "answers_for r j (Never_Run k) \<longleftrightarrow> k = j"
| "answers_for r j (New_Token t) \<longleftrightarrow> False"
| "answers_for r j Nothing \<longleftrightarrow> False"

lemma start_answers:
  assumes "start uq db now j pv tr r = (Inr i, r')"
  shows "answers_for r' (jbID j) (Started_Run i)"
  using assms by (auto simp: start_def start_publish_def new_handle_def gm.get_put split: if_splits option.splits list.splits sum.splits)

lemma start_or_queue_answers:
  assumes "start_or_queue mid mid' q startr j r = (Okay n a, r')" "\<And>r i r'. startr r = (Inr i, r') \<Longrightarrow> answers_for r' j (Started_Run i)"
  shows "answers_for r' j a"
  using assms
  by (auto simp: start_or_queue_def start_reply_def QueueNext_def ActiveForJob_def is_queued_def gm.get_put Let_def
      split: sum.splits prod.splits if_splits)

lemma overridden_ID: "overridden ov job = Inr job' \<Longrightarrow> jbID job' = jbID job"
  by (auto simp: overridden_def split: if_splits)

lemma overridden_problem: "overridden ov job \<noteq> Inl (Okay n a)"
  by (simp add: overridden_def)

lemma status_job: "stringField (hookStatus E r run job) ''job_id'' = rrJobID (fst run)"
  by (simp add: hookStatus_def stringField_def StatusPayload_def run_fields_def gm.get_put)

text \<open>
  C19: a trigger token reaches its own job and nothing else. Whatever else happens meanwhile, a
  request is answered with success only when it bears the token of a job, and the job its path
  names if it names one; and then the run that was started or queued, or whose status is told, is
  a run of that job.
\<close>

theorem token_reaches_its_own_job:
  assumes "route \<in> {handleHookRun mid mid', handleHookRunStatus, handleHookJobStatus}"
    and "route E r st = (Okay n a, st')" "\<forall>i j. heGetJob E i = Inr j \<longrightarrow> jbID j = i" "\<forall>row \<in> set (heTokens E). trJob row \<noteq> []"
  shows "\<exists>job. bears_token_of E r job \<and> answers_for (hsRunner st') (jbID job) a"
proof -
  obtain q st1 where auth: "authorizeHook E r st = (q, st1)" by fastforce
  then obtain job where job: "q = Inr job"
    using assms(1,2) refused_runner [of E r st _ st1]
    by (cases q) (auto simp: handleHookRun_def handleHookRunStatus_def handleHookJobStatus_def)
  have bears: "bears_token_of E r job" and st1: "st1 = st" using authorized_bears auth job by blast+
  have named: "jbID job \<noteq> []" using bears assms(3,4) by (auto simp: bears_token_of_def)
  have "answers_for (hsRunner st') (jbID job) a" if h: "handleHookRun mid mid' E r st = (Okay n a, st')"
  proof -
    obtain pv ov where body: "(case rqBody r of RunBody p ov \<Rightarrow> (p, ov) | _ \<Rightarrow> (False, [])) = (pv, ov)" by fastforce
    from h obtain job' rn where j': "overridden ov job = Inr job'"
      and sq: "start_or_queue mid mid' (rqQueue r) (if pv then StartPreview E job' else StartWebhook E job') (jbID job') (hsRunner st) = (Okay n a, rn)"
      and st': "hsRunner st' = rn"
      using auth job st1 body
      by (cases "rqBody r") (auto simp: handleHookRun_def Let_def overridden_problem split: sum.splits prod.splits)
    have "answers_for r' (jbID job') (Started_Run i)" if "(if pv then StartPreview E job' else StartWebhook E job') r = (Inr i, r')" for r i r'
      using that start_answers by (auto simp: StartPreview_def StartWebhook_def split: if_splits)
    from start_or_queue_answers [OF sq this] show ?thesis by (simp add: st' overridden_ID [OF j'])
  qed
  moreover have "answers_for (hsRunner st') (jbID job) a" if "handleHookRunStatus E r st = (Okay n a, st')"
    using that auth job st1
    by (auto simp: handleHookRunStatus_def run_problem_def status_job split: sum.splits if_splits prod.splits)
  moreover have "answers_for (hsRunner st') (jbID job) a" if "handleHookJobStatus E r st = (Okay n a, st')"
  proof -
    have own: "rrJobID (fst run) = jbID job" if "ListRuns (jbID job) None 1 (heRuns E) = run # rest" for run rest
    proof -
      have "run \<in> set (ListRuns (jbID job) None 1 (heRuns E))" using that by simp
      then show ?thesis using named by (auto simp: ListRuns_def set_sort_slice dest!: in_set_takeD)
    qed
    show ?thesis using that auth job st1 own
      by (auto simp: handleHookJobStatus_def status_job split: option.splits list.splits)
  qed
  ultimately show ?thesis using assms(1,2) bears by auto
qed

text \<open>
  A token that is accepted is accepted whatever the limiter holds: the failures an address has
  behind it slow no guess down, and only change the status of the refusals.
\<close>

lemma limiter_stops_no_guess:
  "authorizeHook E r st = (Inr job, st) \<Longrightarrow> authorizeHook E r (st\<lparr>hsFailures := l\<rparr>) = (Inr job, st\<lparr>hsFailures := l\<rparr>)"
  by (auto simp: authorizeHook_def deny_def Let_def split: if_splits option.splits sum.splits prod.splits)

definition hook_job :: "string \<Rightarrow> job" where
  "hook_job i = sample_job\<lparr>jbID := i\<rparr>"

definition sample_hook_env :: hook_env where
  "sample_hook_env =
     \<lparr>heCrypto = plain_crypto, heQuote = id, heNow = 0, heTokens = [\<lparr>trJob = ''j'', trHash = Some ''tok'', trUpdatedAt = 0\<rparr>],
      heTokenFault = None, heGetJob = (\<lambda>i. Inr (hook_job i)), heStart = \<lparr>sdTarget = (\<lambda>_. None), sdCreate = (\<lambda>_. Inr ''r1'')\<rparr>,
      heRunFault = None, heRuns = \<lparr>rtRuns = [], rtDests = []\<rparr>, heListFault = None, heNames = id\<rparr>"

definition trigger_request :: "bool \<Rightarrow> bool \<Rightarrow> request" where
  "trigger_request preview queue =
     \<lparr>rqAddr = ''a'', rqAuthorization = [], rqTokenParam = ''tok'', rqID = ''j'', rqRunID = [], rqQueue = queue,
      rqBody = RunBody preview []\<rparr>"

lemma hook_job_simps [simp]: "jbID (hook_job i) = i" "jbDestinations (hook_job i) \<noteq> []"
  by (simp_all add: hook_job_def sample_job_def job_ApplyDefaults_def)

lemma trigger_request_simps [simp]: "rqBody (trigger_request p q) = RunBody p []" "rqQueue (trigger_request p q) = q"
  by (simp_all add: trigger_request_def)

lemma trigger_authorized: "authorizeHook sample_hook_env (trigger_request pv q) st = (Inr (hook_job ''j''), st)"
  by (simp add: authorizeHook_def hookToken_def trigger_request_def JobForTriggerToken_def sample_hook_env_def hashToken_def plain_crypto_def)

lemma no_target_fails: "List.map_filter (\<lambda>_. None) xs = []"
  by (induction xs) (simp_all add: List.map_filter_simps)

lemma trigger_starts:
  "start_reserve ''j'' r = Inr r' \<Longrightarrow> start uq (heStart sample_hook_env) 0 (hook_job ''j'') pv tr r
   = (Inr ''r1'', start_publish (new_handle 0 ''r1'' ''j'' (destTargetIDs (hook_job ''j'')) pv) r')"
  by (simp add: start_def sample_hook_env_def no_target_fails)

lemma sample_hook_env_simps [simp]: "heNow sample_hook_env = 0" "heGetJob sample_hook_env i = Inr (hook_job i)"
  by (simp_all add: sample_hook_env_def)

theorem token_reaches_its_own_job_witness:
  "\<exists>job. bears_token_of sample_hook_env (trigger_request False False) job
     \<and> answers_for (hsRunner (snd (handleHookRun id id sample_hook_env (trigger_request False False) \<lparr>hsRunner = New, hsFailures = []\<rparr>)))
         (jbID job) (Started_Run ''r1'')"
proof -
  let ?st = "\<lparr>hsRunner = New, hsFailures = []\<rparr>"
  obtain r' where "start_reserve ''j'' New = Inr r'" by (simp add: start_reserve_def New_def)
  from trigger_starts [OF this] have "fst (handleHookRun id id sample_hook_env (trigger_request False False) ?st) = Okay 202 (Started_Run ''r1'')"
    by (simp add: handleHookRun_def trigger_authorized overridden_def start_or_queue_def StartWebhook_def start_reply_def)
  then have h: "handleHookRun id id sample_hook_env (trigger_request False False) ?st
      = (Okay 202 (Started_Run ''r1''), snd (handleHookRun id id sample_hook_env (trigger_request False False) ?st))"
    by (metis prod.collapse)
  show ?thesis
  proof (rule token_reaches_its_own_job [where route = "handleHookRun id id" and mid = id and mid' = id and n = 202])
    show "handleHookRun id id sample_hook_env (trigger_request False False) ?st
      = (Okay 202 (Started_Run ''r1''), snd (handleHookRun id id sample_hook_env (trigger_request False False) ?st))" by (rule h)
  qed (simp_all add: sample_hook_env_def)
qed

text \<open>
  A run queued by a trigger remembers its job only. A request to preview, made while a run is
  going on, is acknowledged as queued, and what follows is a run that carries its plan out.
\<close>

definition busy_runner :: runner where
  "busy_runner = New\<lparr>rnByJob := [(''j'', ''r0'')]\<rparr>"

lemma queued_preview_is_executed:
  defines "answer \<equiv> handleHookRun id id sample_hook_env (trigger_request True True) \<lparr>hsRunner = busy_runner, hsFailures = []\<rparr>"
  shows "fst answer = Okay 202 (Queued_Behind ''j'')
    \<and> fst (finish ''r0'' ''j'' (hsRunner (snd answer)))
    \<and> map_option hdPreview (goget (rnActive (startQueued sample_hook_env ''j'' (snd (finish ''r0'' ''j'' (hsRunner (snd answer)))))) ''r1'') = Some False"
proof -
  have busy: "start uq (heStart sample_hook_env) 0 (hook_job ''j'') pv tr busy_runner
      = (Inl (new_error ''a run of this job is already in progress'' [ErrAlreadyRunning]), busy_runner)" for uq pv tr
    by (simp add: start_def sample_hook_env_def no_target_fails start_reserve_def busy_runner_def New_def)
  have a: "answer = (Okay 202 (Queued_Behind ''j''), \<lparr>hsRunner = busy_runner\<lparr>rnQueued := [(''j'', True)]\<rparr>, hsFailures = []\<rparr>)"
    by (simp add: answer_def handleHookRun_def trigger_authorized overridden_def start_or_queue_def StartPreview_def busy errors_Is_def new_error_def QueueNext_def is_queued_def)
      (simp add: busy_runner_def New_def)
  let ?r = "snd (finish ''r0'' ''j'' (busy_runner\<lparr>rnQueued := [(''j'', True)]\<rparr>))"
  have r: "?r = New" by (simp add: finish_def busy_runner_def New_def)
  obtain r' where "start_reserve ''j'' New = Inr r'" by (simp add: start_reserve_def New_def)
  from trigger_starts [OF this] have "map_option hdPreview (goget (rnActive (startQueued sample_hook_env ''j'' New)) ''r1'') = Some False"
    by (simp add: startQueued_def StartWebhook_def start_publish_def new_handle_def gm.get_put)
  moreover have "fst (finish ''r0'' ''j'' (busy_runner\<lparr>rnQueued := [(''j'', True)]\<rparr>))"
    by (simp add: finish_def busy_runner_def New_def is_queued_def)
  ultimately show ?thesis by (simp add: a r)
qed

end
