(* ===== verification/Env_Config.thy ===== *)
theory Env_Config
  imports Filter_Files Paths
begin

text \<open>
  The configuration of the process: the file of \<open>KEY=value\<close> lines beside the executable
  (\<^verbatim>\<open>src/internal/config/envfile.go\<close>), layered under the environment, and what is read from it
  (\<^verbatim>\<open>src/internal/config/config.go\<close>). The environment is a Go map; files, the executable's
  directory and \<open>time.ParseDuration\<close> are arguments.
\<close>

section \<open>The file\<close>

definition bom :: string where "bom = [CHR 0xEF, CHR 0xBB, CHR 0xBF]"

text \<open>One layer of matching quotes.\<close>

definition unquote :: "string \<Rightarrow> string" where
  "unquote v =
     (if length v < 2 then v
      else if hd v = last v \<and> (hd v = CHR ''\"'' \<or> hd v = CHR 0x27) then butlast (tl v)
      else v)"

text \<open>What a line sets: nothing, or a key and a value.\<close>

definition parse_env_line :: "(string \<Rightarrow> string) \<Rightarrow> string \<Rightarrow> nat \<Rightarrow> string \<Rightarrow> goerr + (string \<times> string) option" where
  "parse_env_line uq path line text =
     (let text = (if line = 1 then TrimPrefix text bom else text);
          text = TrimSpace (TrimSuffix text cr);
          where1 = path @ '':'' @ fmt_nat line @ '': ''
      in if text = [] \<or> HasPrefix text ''#'' then Inr None
         else let text = TrimPrefix text ''export '' in
              case Cut1 text (CHR ''='') of
                (key, val, found) \<Rightarrow>
                  if \<not> found then Inl (new_error (where1 @ fmt_q uq text @ '' is not KEY=value'') [])
                  else if TrimSpace key = [] then Inl (new_error (where1 @ ''empty key'') [])
                  else Inr (Some (TrimSpace key, unquote (TrimSpace val))))"

text \<open>\<open>bufio.Scanner\<close> gives up at a line that does not fit its buffer of 64 KiB with its newline.\<close>

definition max_line :: nat where "max_line = 65535"

fun load_lines :: "(string \<Rightarrow> string) \<Rightarrow> string \<Rightarrow> nat \<Rightarrow> string list \<Rightarrow> string gomap \<Rightarrow> goerr + string gomap" where
  "load_lines uq path line [] values = Inr values"
| "load_lines uq path line (text # ts) values =
     (if length text > max_line then Inl (new_error (''reading '' @ path @ '': bufio.Scanner: token too long'') [])
      else case parse_env_line uq path line text of
             Inl e \<Rightarrow> Inl e
           | Inr None \<Rightarrow> load_lines uq path (line + 1) ts values
           | Inr (Some (k, v)) \<Rightarrow> load_lines uq path (line + 1) ts (goput k v values))"

definition LoadEnvFile :: "(string \<Rightarrow> string) \<Rightarrow> string \<Rightarrow> goerr + string \<Rightarrow> goerr + string gomap" where
  "LoadEnvFile uq path content =
     (case content of Inl e \<Rightarrow> Inl e | Inr document \<Rightarrow> load_lines uq path 1 (Split1 document newline_char) [])"

section \<open>Layering\<close>

type_synonym environ = "string gomap"

definition ConfigPathVar :: string where "ConfigPathVar = ''CN4M_CASCADE_CONFIG''"
definition envFileName :: string where "envFileName = ''.env''"

text \<open>What the machine answers: \<open>Stat\<close>, the directory of the executable, a file's content, \<open>Setenv\<close>.\<close>

record machine =
  mcStat :: "string \<Rightarrow> goerr option"
  mcExeDir :: "string option"
  mcRead :: "string \<Rightarrow> goerr + string"
  mcSetenv :: "string \<Rightarrow> string \<Rightarrow> goerr option"

definition Getenv :: "string \<Rightarrow> environ \<Rightarrow> string" where
  "Getenv name env = (case goget env name of None \<Rightarrow> [] | Some v \<Rightarrow> v)"

definition envFilePath :: "machine \<Rightarrow> environ \<Rightarrow> goerr + string option" where
  "envFilePath m env =
     (let explicit = TrimSpace (Getenv ConfigPathVar env) in
      if explicit \<noteq> [] then
        (case mcStat m explicit of
           Some e \<Rightarrow> Inl (wrap (ConfigPathVar @ '' points at '' @ explicit @ '', which cannot be read: '') e)
         | None \<Rightarrow> Inr (Some explicit))
      else case mcExeDir m of
             None \<Rightarrow> Inr None
           | Some dir \<Rightarrow> (let candidate = path_Join [dir, envFileName] in
               Inr (if mcStat m candidate = None then Some candidate else None)))"

fun apply_values :: "machine \<Rightarrow> string \<Rightarrow> (string \<times> string) list \<Rightarrow> environ \<Rightarrow> goerr + environ" where
  "apply_values m path [] env = Inr env"
| "apply_values m path ((key, v) # kvs) env =
     (if goget env key \<noteq> None then apply_values m path kvs env
      else case mcSetenv m key v of
             Some e \<Rightarrow> Inl (wrap (''applying '' @ key @ '' from '' @ path @ '': '') e)
           | None \<Rightarrow> apply_values m path kvs (goput key v env))"

definition applyEnvFile :: "(string \<Rightarrow> string) \<Rightarrow> machine \<Rightarrow> environ \<Rightarrow> goerr + string \<times> environ" where
  "applyEnvFile uq m env =
     (case envFilePath m env of
        Inl e \<Rightarrow> Inl e
      | Inr None \<Rightarrow> Inr ([], env)
      | Inr (Some path) \<Rightarrow>
          (case LoadEnvFile uq path (mcRead m path) of
             Inl e \<Rightarrow> Inl e
           | Inr values \<Rightarrow> (case apply_values m path values env of Inl e \<Rightarrow> Inl e | Inr env \<Rightarrow> Inr (path, env))))"

section \<open>The configuration\<close>

definition DefaultListenAddr :: string where "DefaultListenAddr = '':2649''"
definition DefaultCN4MStatusURL :: string where "DefaultCN4MStatusURL = ''http://localhost:2640/suite/status''"
definition minKeyLen :: nat where "minKeyLen = 16"

text \<open>The defaults on Unix.\<close>

definition defaultDataDir :: string where "defaultDataDir = ''/data''"
definition defaultMountRoot :: string where "defaultMountRoot = ''/mnt/smb''"

record Config =
  cfListenAddr :: string
  cfDataDir :: string
  cfMountRoot :: string
  cfCN4MStatusURL :: string
  cfDiscordWebhookURL :: string
  cfEncryptionKey :: string
  cfConfigPath :: string
  cfMountUID :: int
  cfMountGID :: int
  cfMountTimeout :: duration
  cfStatFSTimeout :: duration
  cfUnmountTimeout :: duration
  cfIdleGrace :: duration

definition DBPath :: "Config \<Rightarrow> string" where
  "DBPath c = path_Join [cfDataDir c, ''cn4m-cascade.db'']"

definition envStr :: "environ \<Rightarrow> string \<Rightarrow> string \<Rightarrow> string" where
  "envStr env name def = (if Getenv name env \<noteq> [] then Getenv name env else def)"

definition envInt :: "(string \<Rightarrow> string) \<Rightarrow> environ \<Rightarrow> string \<Rightarrow> int \<Rightarrow> goerr + int" where
  "envInt uq env name def =
     (let v = Getenv name env in
      if v = [] then Inr def
      else case Atoi v of
             None \<Rightarrow> Inl (new_error (name @ '' must be an integer, got '' @ fmt_q uq v) [])
           | Some n \<Rightarrow> Inr n)"

definition envDuration :: "(string \<Rightarrow> string) \<Rightarrow> (string \<Rightarrow> duration option) \<Rightarrow> environ \<Rightarrow> string \<Rightarrow> duration \<Rightarrow> goerr + duration" where
  "envDuration uq parse env name def =
     (let v = Getenv name env in
      if v = [] then Inr def
      else case parse v of
             None \<Rightarrow> Inl (new_error (name @ '' must be a duration such as '' @ fmt_q id ''30s'' @ '', got '' @ fmt_q uq v) [])
           | Some d \<Rightarrow> if d \<le> 0 then Inl (new_error (name @ '' must be positive, got '' @ fmt_q uq v) []) else Inr d)"

definition key_error :: "string \<Rightarrow> goerr option" where
  "key_error key =
     (if key = [] then Some (new_error ''ENCRYPTION_KEY is not set: it is required to store target credentials, refusing to start'' [])
      else if length key < minKeyLen
      then Some (new_error (''ENCRYPTION_KEY is too short ('' @ fmt_nat (length key) @ '' characters): use at least '' @ fmt_nat minKeyLen) [])
      else None)"

definition Load ::
  "(string \<Rightarrow> string) \<Rightarrow> (string \<Rightarrow> duration option) \<Rightarrow> machine \<Rightarrow> int \<Rightarrow> int \<Rightarrow> environ \<Rightarrow> goerr + Config" where
  "Load uq parse m uid gid env =
     bind_err (applyEnvFile uq m env) (\<lambda>(path, env).
       case key_error (Getenv ''ENCRYPTION_KEY'' env) of
         Some e \<Rightarrow> Inl e
       | None \<Rightarrow>
           bind_err (envInt uq env ''MOUNT_UID'' uid) (\<lambda>uid.
           bind_err (envInt uq env ''MOUNT_GID'' gid) (\<lambda>gid.
           bind_err (envDuration uq parse env ''MOUNT_TIMEOUT'' 30000000000) (\<lambda>mt.
           bind_err (envDuration uq parse env ''STATFS_TIMEOUT'' 5000000000) (\<lambda>st.
           bind_err (envDuration uq parse env ''UNMOUNT_TIMEOUT'' 15000000000) (\<lambda>ut.
           bind_err (envDuration uq parse env ''MOUNT_IDLE_GRACE'' 60000000000) (\<lambda>ig.
             Inr \<lparr>cfListenAddr = envStr env ''LISTEN_ADDR'' DefaultListenAddr, cfDataDir = envStr env ''DATA_DIR'' defaultDataDir,
               cfMountRoot = envStr env ''MOUNT_ROOT'' defaultMountRoot,
               cfCN4MStatusURL = envStr env ''CN4M_CASCADE_STATUS_URL'' DefaultCN4MStatusURL,
               cfDiscordWebhookURL = envStr env ''CN4M_CASCADE_DISCORD_WEBHOOK'' [],
               cfEncryptionKey = Getenv ''ENCRYPTION_KEY'' env, cfConfigPath = path, cfMountUID = uid, cfMountGID = gid,
               cfMountTimeout = mt, cfStatFSTimeout = st, cfUnmountTimeout = ut, cfIdleGrace = ig\<rparr>)))))))"

section \<open>Properties\<close>

text \<open>A key as shells allow it.\<close>

definition key_char :: "char \<Rightarrow> bool" where
  "key_char c \<longleftrightarrow>
     (let n = of_char c :: nat in 97 \<le> n \<and> n \<le> 122 \<or> 65 \<le> n \<and> n \<le> 90 \<or> 48 \<le> n \<and> n \<le> 57 \<or> c = CHR ''_'')"

definition quoted_line :: "string \<Rightarrow> string \<times> string \<Rightarrow> string" where
  "quoted_line e kv = fst kv @ ''=\"'' @ snd kv @ ''\"'' @ e"

definition plain_setting :: "string \<times> string \<Rightarrow> bool" where
  "plain_setting kv \<longleftrightarrow> fst kv \<noteq> [] \<and> list_all key_char (fst kv) \<and> newline_char \<notin> set (snd kv) \<and> length (fst kv) + length (snd kv) \<le> 65000"

lemma key_char_plain: "key_char c \<Longrightarrow> graphic c \<and> c \<noteq> CHR ''='' \<and> c \<noteq> CHR ''#'' \<and> c \<noteq> CHR '' '' \<and> c \<noteq> CHR 0xEF \<and> c \<noteq> newline_char"
  by (auto simp: key_char_def graphic_def Let_def)

lemma TrimSuffix_one: "TrimSuffix (xs @ [d]) [c] = (if c = d then xs else xs @ [d])"
  by (auto simp: TrimSuffix_def suffix_def)

lemma prefix_stops_at:
  assumes "d \<notin> set p" "b \<in> set p" "b \<notin> set k"
  shows "\<not> prefix p (k @ d # rest)"
proof
  assume "prefix p (k @ d # rest)"
  then consider "prefix p k" | us where "p = k @ us" "prefix us (d # rest)"
    unfolding prefix_append by blast
  then show False
  proof cases
    case 1
    then show False using assms(2,3) set_mono_prefix by blast
  next
    case 2
    then show False using assms by (cases us) auto
  qed
qed

lemma parse_quoted_line:
  assumes "plain_setting kv" "e \<in> {[], cr}"
  shows "parse_env_line uq path n (quoted_line e kv) = Inr (Some kv)"
proof -
  obtain k v where kv: "kv = (k, v)" by (cases kv)
  obtain c k' where k: "k = c # k'" using assms(1) by (cases k) (auto simp: plain_setting_def kv)
  have chars: "\<forall>x \<in> set k. graphic x \<and> x \<noteq> CHR ''='' \<and> x \<noteq> CHR ''#'' \<and> x \<noteq> CHR '' '' \<and> x \<noteq> CHR 0xEF"
    using assms(1) key_char_plain by (auto simp: plain_setting_def kv list_all_iff)
  let ?l = "k @ ''=\"'' @ v @ ''\"''"
  have "TrimPrefix (quoted_line e kv) bom = quoted_line e kv"
    using chars by (auto simp: quoted_line_def kv k TrimPrefix_def bom_def)
  moreover have "TrimSuffix (quoted_line e kv) cr = ?l"
    using assms(2) TrimSuffix_one [of "k @ ''=\"'' @ v" "CHR ''\"''" "CHR 0x0D"] TrimSuffix_one [of ?l "CHR 0x0D" "CHR 0x0D"]
    by (auto simp: quoted_line_def kv)
  moreover have "TrimSpace ?l = ?l"
    using chars by (intro TrimSpace_graphic) (auto simp: k graphic_def)
  moreover have "\<not> HasPrefix ?l ''#''" using chars by (auto simp: k HasPrefix_def)
  moreover have "TrimPrefix ?l ''export '' = ?l"
  proof -
    have "\<not> prefix p (k @ CHR ''='' # rest)" if "CHR ''='' \<notin> set p" "CHR '' '' \<in> set p" for p rest
      by (rule prefix_stops_at [OF that]) (use chars in blast)
    from this [of "''export ''" "CHR ''\"'' # v @ ''\"''"] show ?thesis by (simp add: TrimPrefix_def)
  qed
  moreover have "Cut1 ?l (CHR ''='') = (k, ''\"'' @ v @ ''\"'', True)"
    using chars by (induction k) auto
  moreover have "TrimSpace k = k" using chars by (intro TrimSpace_graphic) auto
  moreover have "TrimSpace (''\"'' @ v @ ''\"'') = ''\"'' @ v @ ''\"''" by (intro TrimSpace_graphic) (auto simp: graphic_def)
  moreover have "unquote (''\"'' @ v @ ''\"'') = v" by (simp add: unquote_def butlast_append)
  ultimately show ?thesis by (simp add: parse_env_line_def Let_def kv k)
qed

lemma load_quoted:
  assumes "list_all plain_setting kvs" "e \<in> {[], cr}" "distinct (map fst (vs @ kvs))"
  shows "load_lines uq path n (map (quoted_line e) kvs) vs = Inr (vs @ kvs)"
  using assms
proof (induction kvs arbitrary: n vs)
  case (Cons kv kvs)
  have len: "length (quoted_line e kv) \<le> max_line"
    using Cons.prems(1,2) by (auto simp: quoted_line_def plain_setting_def max_line_def)
  have "goput (fst kv) (snd kv) vs = vs @ [kv]"
  proof -
    have "fst kv \<notin> set (gokeys vs)" using Cons.prems(3) by auto
    then show ?thesis by (induction vs) auto
  qed
  moreover have "parse_env_line uq path n (quoted_line e kv) = Inr (Some kv)"
    using Cons.prems(1,2) by (intro parse_quoted_line) simp_all
  ultimately show ?case using Cons len by (cases kv) simp
qed simp

text \<open>
  a configuration file gives back what it says. Settings written one per line as
  \<open>KEY="value"\<close>, with either line ending, are read back exactly, whatever the values hold short
  of a newline: equals signs, hashes, quotes and surrounding spaces included.
\<close>

theorem env_file_roundtrip:
  assumes "kvs \<noteq> []" "list_all plain_setting kvs" "distinct (map fst kvs)" "e \<in> {[], cr}"
  shows "LoadEnvFile uq path (Inr (Join (map (quoted_line e) kvs) [newline_char])) = Inr kvs"
proof -
  have "newline_char \<notin> set (quoted_line e kv)" if "plain_setting kv" for kv
    using that assms(4) key_char_plain by (auto simp: plain_setting_def quoted_line_def list_all_iff)
  then have "Split1 (Join (map (quoted_line e) kvs) [newline_char]) newline_char = map (quoted_line e) kvs"
    using assms(1,2) by (intro Split1_Join) (auto simp: list_all_iff)
  then show ?thesis using load_quoted [of kvs e "[]" uq path 1] assms by (simp add: LoadEnvFile_def)
qed

theorem env_file_roundtrip_witness:
  "LoadEnvFile id ''.env'' (Inr (Join (map (quoted_line cr) [(''KEY'', '' a#b=\"c '')]) [newline_char])) = Inr [(''KEY'', '' a#b=\"c '')]"
  by (rule env_file_roundtrip) (simp_all add: plain_setting_def key_char_def)

lemma apply_values_get:
  assumes "apply_values m path kvs env = Inr env'"
  shows "goget env' k = (case goget env k of Some v \<Rightarrow> Some v | None \<Rightarrow> goget kvs k)"
  using assms
  by (induction m path kvs env rule: apply_values.induct) (auto simp: gm.get_put split: if_splits option.splits)

text \<open>
  the environment wins over the file. Once a file was layered in, every variable that was set
  has its old value, also when that is empty, and every other has the file's last value for it.
\<close>

theorem environment_wins:
  assumes "applyEnvFile uq m env = Inr (path, env')"
  shows "(path = [] \<and> env' = env) \<or>
    (\<exists>values. LoadEnvFile uq path (mcRead m path) = Inr values
       \<and> (\<forall>k. goget env' k = (case goget env k of Some v \<Rightarrow> Some v | None \<Rightarrow> goget values k)))"
  using assms apply_values_get by (auto simp: applyEnvFile_def split: sum.splits option.splits prod.splits)

definition sample_machine :: machine where
  "sample_machine =
     \<lparr>mcStat = (\<lambda>_. None), mcExeDir = Some ''/opt'', mcRead = (\<lambda>_. Inr (quoted_line [] (''ENCRYPTION_KEY'', ''0123456789abcdef''))),
      mcSetenv = (\<lambda>_ _. None)\<rparr>"

lemma sample_file: "LoadEnvFile uq p (mcRead sample_machine p) = Inr [(''ENCRYPTION_KEY'', ''0123456789abcdef'')]"
proof -
  have kv: "plain_setting (''ENCRYPTION_KEY'', ''0123456789abcdef'')" by (simp add: plain_setting_def key_char_def)
  have "Split1 (quoted_line [] (''ENCRYPTION_KEY'', ''0123456789abcdef'')) newline_char = [quoted_line [] (''ENCRYPTION_KEY'', ''0123456789abcdef'')]"
    by (rule Split1_plain) (simp add: quoted_line_def)
  then show ?thesis using load_quoted [of "[(''ENCRYPTION_KEY'', ''0123456789abcdef'')]" "[]" "[]" uq p 1] kv
    by (simp add: LoadEnvFile_def sample_machine_def)
qed

lemma sample_path: "envFilePath sample_machine [(''ENCRYPTION_KEY'', [])] = Inr (Some (path_Join [''/opt'', ''.env'']))"
proof -
  have "TrimSpace [] = []" by (rule TrimSpace_graphic) simp
  then show ?thesis by (simp add: envFilePath_def sample_machine_def Getenv_def ConfigPathVar_def envFileName_def)
qed

lemma sample_applied: "applyEnvFile uq sample_machine [(''ENCRYPTION_KEY'', [])] = Inr (path_Join [''/opt'', ''.env''], [(''ENCRYPTION_KEY'', [])])"
  by (simp add: applyEnvFile_def sample_path sample_file)

theorem environment_wins_witness:
  "\<exists>values. LoadEnvFile id (path_Join [''/opt'', ''.env'']) (mcRead sample_machine (path_Join [''/opt'', ''.env''])) = Inr values
     \<or> path_Join [''/opt'', ''.env''] = []"
  using environment_wins [OF sample_applied [of id]] by blast

text \<open>So a variable that is set but empty hides the file's key, and the server refuses to start.\<close>

lemma empty_variable_hides_the_key:
  "Load id parse sample_machine 0 0 [(''ENCRYPTION_KEY'', [])]
   = Inl (new_error ''ENCRYPTION_KEY is not set: it is required to store target credentials, refusing to start'' [])"
  by (simp add: Load_def bind_err_def sample_applied Getenv_def key_error_def)

lemma key_error_None: "key_error key = None \<longleftrightarrow> 16 \<le> length key"
  by (auto simp: key_error_def minKeyLen_def)

lemma envStr_nonempty: "def \<noteq> [] \<Longrightarrow> envStr env name def \<noteq> []"
  by (simp add: envStr_def)

lemma envDuration_pos: "envDuration uq parse env name def = Inr d \<Longrightarrow> 0 < def \<Longrightarrow> 0 < d"
  by (auto simp: envDuration_def Let_def split: if_splits option.splits)

text \<open>
  a configuration that loads is one the server can run with. Its key has at least sixteen
  bytes, its address and directories are named, and every bound on an operation against a share is
  positive.
\<close>

theorem loaded_config_is_sound:
  assumes "Load uq parse m uid gid env = Inr c"
  shows "16 \<le> length (cfEncryptionKey c) \<and> cfListenAddr c \<noteq> [] \<and> cfDataDir c \<noteq> [] \<and> cfMountRoot c \<noteq> []
    \<and> 0 < cfMountTimeout c \<and> 0 < cfStatFSTimeout c \<and> 0 < cfUnmountTimeout c \<and> 0 < cfIdleGrace c"
proof -
  from assms obtain path env' where c: "key_error (Getenv ''ENCRYPTION_KEY'' env') = None"
    "cfEncryptionKey c = Getenv ''ENCRYPTION_KEY'' env'" "cfListenAddr c = envStr env' ''LISTEN_ADDR'' DefaultListenAddr"
    "cfDataDir c = envStr env' ''DATA_DIR'' defaultDataDir" "cfMountRoot c = envStr env' ''MOUNT_ROOT'' defaultMountRoot"
    "envDuration uq parse env' ''MOUNT_TIMEOUT'' 30000000000 = Inr (cfMountTimeout c)"
    "envDuration uq parse env' ''STATFS_TIMEOUT'' 5000000000 = Inr (cfStatFSTimeout c)"
    "envDuration uq parse env' ''UNMOUNT_TIMEOUT'' 15000000000 = Inr (cfUnmountTimeout c)"
    "envDuration uq parse env' ''MOUNT_IDLE_GRACE'' 60000000000 = Inr (cfIdleGrace c)"
    unfolding Load_def bind_err_Inr by (clarsimp simp: bind_err_Inr split: option.splits)
  note pos = c(6-9) [THEN envDuration_pos]
  show ?thesis using c(1-5) pos
    by (simp add: key_error_None envStr_nonempty DefaultListenAddr_def defaultDataDir_def defaultMountRoot_def)
qed

theorem loaded_config_is_sound_witness:
  "\<exists>c. Load id (\<lambda>_. None) (sample_machine\<lparr>mcExeDir := None\<rparr>) 0 0 [(''ENCRYPTION_KEY'', ''0123456789abcdef'')] = Inr c
     \<and> 16 \<le> length (cfEncryptionKey c)"
proof -
  have "TrimSpace [] = []" by (rule TrimSpace_graphic) simp
  then have a: "applyEnvFile id (sample_machine\<lparr>mcExeDir := None\<rparr>) [(''ENCRYPTION_KEY'', ''0123456789abcdef'')]
      = Inr ([], [(''ENCRYPTION_KEY'', ''0123456789abcdef'')])"
    by (simp add: applyEnvFile_def envFilePath_def sample_machine_def Getenv_def ConfigPathVar_def)
  then obtain c where "Load id (\<lambda>_. None) (sample_machine\<lparr>mcExeDir := None\<rparr>) 0 0 [(''ENCRYPTION_KEY'', ''0123456789abcdef'')] = Inr c"
    by (simp add: Load_def bind_err_def key_error_def minKeyLen_def Getenv_def envInt_def envDuration_def)
  then show ?thesis using loaded_config_is_sound by blast
qed

end
