(* ===== verification/Hub.thy ===== *)
theory Hub
  imports Run_Store Run_Progress
begin

text \<open>
  The live feed of runs (\<^verbatim>\<open>src/internal/api/hub.go\<close>): once a second the recent runs are told to
  every connected browser, each through a queue of eight frames; a browser that falls behind is
  cut off. The loop and the connections interleave as the steps of a relation; the properties say
  which frames a connection gets, and when the end of a run is announced.
\<close>

section \<open>State\<close>

definition recentRunWindow :: int where "recentRunWindow = 50"
definition clientBuffer :: nat where "clientBuffer = 8"

datatype ws_name = EventRunProgress | EventRunFinished | EventPrompt

record ws_event =
  wsEvent :: ws_name
  wsTS :: gotime
  wsRunID :: string
  wsJobID :: string
  wsRun :: "run_row \<times> run_destination list"
  wsProgress :: "run_snapshot option"

record ws_client =
  clSend :: "ws_event list"
  clDone :: bool

text \<open>Clients are told apart by a number, in the order they came.\<close>

record hub =
  hbClients :: "(nat \<times> ws_client) list"
  hbSeen :: "run_status gomap"
  hbSince :: gotime

definition newHub :: "gotime \<Rightarrow> hub" where
  "newHub now = \<lparr>hbClients = [], hbSeen = [], hbSince = now\<rparr>"

definition new_client :: ws_client where
  "new_client = \<lparr>clSend = [], clDone = False\<rparr>"

definition client_close :: "ws_client \<Rightarrow> ws_client" where
  "client_close c = c\<lparr>clDone := True\<rparr>"

definition clientCount :: "hub \<Rightarrow> nat" where
  "clientCount h = length (hbClients h)"

definition previousStatus :: "string \<Rightarrow> hub \<Rightarrow> run_status option" where
  "previousStatus i h = goget (hbSeen h) i"

definition note_status :: "string \<Rightarrow> run_status \<Rightarrow> hub \<Rightarrow> hub" where
  "note_status i s h = h\<lparr>hbSeen := goput i s (hbSeen h)\<rparr>"

definition forgetOld :: "run_row list \<Rightarrow> hub \<Rightarrow> hub" where
  "forgetOld current h = h\<lparr>hbSeen := filter (\<lambda>(i, s). i \<in> rrID ` set current) (hbSeen h)\<rparr>"

definition awaitingPrompt :: "run_snapshot \<Rightarrow> bool" where
  "awaitingPrompt snap = list_ex (\<lambda>d. dsStatus d = Some DestAwaitingPrompt) (rsDestinations snap)"

text \<open>\<open>c.send <- ev\<close>, or the \<open>default\<close> branch.\<close>

definition offer :: "ws_event \<Rightarrow> ws_client \<Rightarrow> ws_client" where
  "offer ev c = (if length (clSend c) < clientBuffer then c\<lparr>clSend := clSend c @ [ev]\<rparr> else client_close c)"

definition broadcast :: "ws_event \<Rightarrow> hub \<Rightarrow> hub" where
  "broadcast ev h = h\<lparr>hbClients := map (\<lambda>(k, c). (k, offer ev c)) (hbClients h)\<rparr>"

definition hub_add :: "nat \<Rightarrow> hub \<Rightarrow> hub" where
  "hub_add k h = h\<lparr>hbClients := hbClients h @ [(k, new_client)]\<rparr>"

definition hub_remove :: "nat \<Rightarrow> hub \<Rightarrow> hub" where
  "hub_remove k h = h\<lparr>hbClients := filter (\<lambda>(k', c). k' \<noteq> k) (hbClients h)\<rparr>"

definition hub_stop :: "hub \<Rightarrow> hub" where
  "hub_stop h = h\<lparr>hbClients := []\<rparr>"


section \<open>A tick\<close>

text \<open>What is told about one run, with the snapshot the runner has of it.\<close>

definition tick_event :: "gotime \<Rightarrow> run_snapshot option \<Rightarrow> run_row \<times> run_destination list \<Rightarrow> hub \<Rightarrow> ws_event option \<times> hub" where
  "tick_event now snap run h =
     (let r = fst run; i = rrID r; previous = previousStatus i h;
          ev = \<lparr>wsEvent = EventRunProgress, wsTS = now, wsRunID = i, wsJobID = rrJobID r, wsRun = run, wsProgress = None\<rparr>
      in if run_Terminal (rrStatus r)
         then let alreadyAnnounced = (previous = Some (rrStatus r)); ours = (previous \<noteq> None \<or> hbSince h < rrStartedAt r)
              in if ours \<and> \<not> alreadyAnnounced
                 then (Some (ev\<lparr>wsEvent := EventRunFinished\<rparr>), note_status i (rrStatus r) h)
                 else (None, h)
         else (Some (case snap of
                       None \<Rightarrow> ev
                     | Some s \<Rightarrow> ev\<lparr>wsProgress := Some s, wsEvent := (if awaitingPrompt s then EventPrompt else EventRunProgress)\<rparr>),
               note_status i (rrStatus r) h))"

definition tick_run :: "gotime \<Rightarrow> run_snapshot option \<Rightarrow> run_row \<times> run_destination list \<Rightarrow> hub \<Rightarrow> ws_event list \<times> hub" where
  "tick_run now snap run h =
     (case tick_event now snap run h of (None, h) \<Rightarrow> ([], h) | (Some ev, h) \<Rightarrow> ([ev], broadcast ev h))"

text \<open>The runs a tick considers, as the query returns them.\<close>

definition tick_window :: "run_tables \<Rightarrow> (run_row \<times> run_destination list) list" where
  "tick_window db = ListRuns [] None recentRunWindow db"


section \<open>The feed\<close>

text \<open>
  The loop's position in a tick (the runs still to tell and the whole window), with what is kept
  to state the properties: all frames told, the windows of the finished ticks, and for each
  connection how many frames had been told when it came and what was written to it. Whether a
  frame can be encoded is an argument.
\<close>

record feed =
  fdHub :: hub
  fdTick :: "((run_row \<times> run_destination list) list \<times> run_row list) option"
  fdWindows :: "run_row list list"
  fdTold :: "ws_event list"
  fdNext :: nat
  fdCame :: "nat \<Rightarrow> nat"
  fdWritten :: "nat \<Rightarrow> ws_event list"

definition on_client :: "nat \<Rightarrow> (ws_client \<Rightarrow> ws_client) \<Rightarrow> hub \<Rightarrow> hub" where
  "on_client k f h = h\<lparr>hbClients := map (\<lambda>(k', c). (k', if k' = k then f c else c)) (hbClients h)\<rparr>"

inductive feed_step :: "(ws_event \<Rightarrow> bool) \<Rightarrow> feed \<Rightarrow> feed \<Rightarrow> bool" for enc where
  ticked: "fdTick s = None \<Longrightarrow> clientCount (fdHub s) \<noteq> 0 \<Longrightarrow> distinct (map rrID (rtRuns db)) \<Longrightarrow>
    feed_step enc s (s\<lparr>fdTick := Some (tick_window db, map fst (tick_window db))\<rparr>)"
| told: "fdTick s = Some (run # rest, window) \<Longrightarrow> tick_run now snap run (fdHub s) = (evs, h) \<Longrightarrow>
    feed_step enc s (s\<lparr>fdHub := h, fdTold := fdTold s @ evs, fdTick := Some (rest, window)\<rparr>)"
| finished: "fdTick s = Some ([], window) \<Longrightarrow>
    feed_step enc s (s\<lparr>fdHub := forgetOld window (fdHub s), fdTick := None, fdWindows := fdWindows s @ [window]\<rparr>)"
| joined: "feed_step enc s (s\<lparr>fdHub := hub_add (fdNext s) (fdHub s), fdNext := Suc (fdNext s),
    fdCame := (fdCame s)(fdNext s := length (fdTold s)), fdWritten := (fdWritten s)(fdNext s := [])\<rparr>)"
| wrote: "(k, c) \<in> set (hbClients (fdHub s)) \<Longrightarrow> clSend c = ev # q \<Longrightarrow>
    feed_step enc s (s\<lparr>fdHub := on_client k (\<lambda>c. c\<lparr>clSend := q\<rparr>) (fdHub s),
      fdWritten := (fdWritten s)(k := fdWritten s k @ (if enc ev then [ev] else []))\<rparr>)"
| hung_up: "feed_step enc s (s\<lparr>fdHub := on_client k client_close (fdHub s)\<rparr>)"
| left: "feed_step enc s (s\<lparr>fdHub := hub_remove k (fdHub s)\<rparr>)"
| stopped: "fdTick s = None \<Longrightarrow> feed_step enc s (s\<lparr>fdHub := hub_stop (fdHub s)\<rparr>)"

definition feed_start :: "gotime \<Rightarrow> feed" where
  "feed_start now = \<lparr>fdHub = newHub now, fdTick = None, fdWindows = [], fdTold = [], fdNext = 0, fdCame = (\<lambda>_. 0), fdWritten = (\<lambda>_. [])\<rparr>"


section \<open>What a connection gets\<close>

definition client_ok :: "(ws_event \<Rightarrow> bool) \<Rightarrow> feed \<Rightarrow> nat \<times> ws_client \<Rightarrow> bool" where
  "client_ok enc s kc = (let (k, c) = kc in k < fdNext s \<and> fdCame s k \<le> length (fdTold s) \<and> length (clSend c) \<le> clientBuffer
     \<and> (clDone c \<or> fdWritten s k @ filter enc (clSend c) = filter enc (drop (fdCame s k) (fdTold s))))"

definition clients_ok :: "(ws_event \<Rightarrow> bool) \<Rightarrow> feed \<Rightarrow> bool" where
  "clients_ok enc s \<longleftrightarrow> distinct (map fst (hbClients (fdHub s))) \<and> list_all (client_ok enc s) (hbClients (fdHub s))"

lemma tick_run_clients:
  assumes "tick_run now snap run h = (evs, h')"
  shows "(evs = [] \<and> hbClients h' = hbClients h) \<or> (\<exists>ev. evs = [ev] \<and> hbClients h' = map (\<lambda>(k, c). (k, offer ev c)) (hbClients h))"
  using assms by (auto simp: tick_run_def tick_event_def note_status_def broadcast_def Let_def split: if_splits)

lemma client_ok_same:
  "fdNext s' = fdNext s \<Longrightarrow> fdCame s' = fdCame s \<Longrightarrow> fdTold s' = fdTold s \<Longrightarrow> fdWritten s' = fdWritten s \<Longrightarrow>
   client_ok enc s' = client_ok enc s"
  by (simp add: client_ok_def fun_eq_iff)

lemma close_ok: "client_ok enc s (k, c) \<Longrightarrow> client_ok enc s (k, client_close c)"
  by (simp add: client_ok_def client_close_def)

text \<open>A step that changes some connections and drops others keeps the invariant when each one left is in order.\<close>

lemma clients_ok_mapped:
  assumes "clients_ok enc s" "hbClients (fdHub s') = map (\<lambda>(k, c). (k, g k c)) (filter P (hbClients (fdHub s)))"
    and "\<And>k c. (k, c) \<in> set (hbClients (fdHub s)) \<Longrightarrow> client_ok enc s (k, c) \<Longrightarrow> client_ok enc s' (k, g k c)"
  shows "clients_ok enc s'"
proof -
  have "map fst (hbClients (fdHub s')) = map fst (filter P (hbClients (fdHub s)))"
    by (simp add: assms(2) o_def case_prod_beta)
  moreover have "distinct (map fst (filter P (hbClients (fdHub s))))" using assms(1) by (simp add: clients_ok_def distinct_map_filter)
  ultimately have "distinct (map fst (hbClients (fdHub s')))" by metis
  then show ?thesis using assms by (auto simp: clients_ok_def list_all_iff)
qed

lemma offer_ok:
  assumes "client_ok enc s (k, c)" "fdTold s' = fdTold s @ [ev]" "fdNext s' = fdNext s" "fdCame s' = fdCame s" "fdWritten s' = fdWritten s"
  shows "client_ok enc s' (k, offer ev c)"
  using assms by (auto simp: client_ok_def offer_def client_close_def clientBuffer_def)

lemma clients_ok_told:
  assumes "clients_ok enc s" "tick_run now snap run (fdHub s) = (evs, h)"
  shows "clients_ok enc (s\<lparr>fdHub := h, fdTold := fdTold s @ evs, fdTick := t\<rparr>)"
proof (cases "evs = [] \<and> hbClients h = hbClients (fdHub s)")
  case True
  then show ?thesis using client_ok_same [of "s\<lparr>fdHub := h, fdTold := fdTold s @ evs, fdTick := t\<rparr>" s enc]
    by (intro clients_ok_mapped [OF assms(1), where P = "\<lambda>_. True" and g = "\<lambda>k c. c"]) simp_all
next
  case False
  then obtain ev where ev: "evs = [ev]" "hbClients h = map (\<lambda>(k, c). (k, offer ev c)) (hbClients (fdHub s))"
    using tick_run_clients [OF assms(2)] by blast
  then show ?thesis
    by (intro clients_ok_mapped [OF assms(1), where P = "\<lambda>_. True" and g = "\<lambda>k c. offer ev c"]) (simp_all add: offer_ok)
qed

lemma clients_ok_step: "feed_step enc s s' \<Longrightarrow> clients_ok enc s \<Longrightarrow> clients_ok enc s'"
proof (induction rule: feed_step.induct)
  case (ticked s db)
  show ?case by (rule clients_ok_mapped [OF ticked(4), where P = "\<lambda>_. True" and g = "\<lambda>k c. c"]) (simp_all add: client_ok_def)
next
  case (told s run rest window now snap evs h)
  then show ?case by (intro clients_ok_told)
next
  case (finished s window)
  show ?case by (rule clients_ok_mapped [OF finished(2), where P = "\<lambda>_. True" and g = "\<lambda>k c. c"]) (simp_all add: client_ok_def forgetOld_def)
next
  case (joined s)
  let ?s' = "s\<lparr>fdHub := hub_add (fdNext s) (fdHub s), fdNext := Suc (fdNext s),
    fdCame := (fdCame s)(fdNext s := length (fdTold s)), fdWritten := (fdWritten s)(fdNext s := [])\<rparr>"
  have old: "client_ok enc s (k, c)" "k < fdNext s" if "(k, c) \<in> set (hbClients (fdHub s))" for k c
    using joined that by (auto simp: clients_ok_def client_ok_def list_all_iff Let_def)
  have "client_ok enc ?s' kc" if "kc \<in> set (hbClients (fdHub s))" for kc
    using old [of "fst kc" "snd kc"] that by (cases kc) (auto simp: client_ok_def Let_def)
  moreover have "client_ok enc ?s' (fdNext s, new_client)" by (simp add: client_ok_def new_client_def)
  moreover have "fdNext s \<notin> fst ` set (hbClients (fdHub s))" using old(2) by force
  ultimately show ?case using joined by (simp add: clients_ok_def hub_add_def list_all_iff)
next
  case (wrote k c s ev q)
  have same: "c' = c" if "(k, c') \<in> set (hbClients (fdHub s))" for c'
    using that wrote(1,3) by (auto simp: clients_ok_def dest: eq_key_imp_eq_value)
  show ?case
  proof (rule clients_ok_mapped [OF wrote(3), where P = "\<lambda>_. True" and g = "\<lambda>k' c. if k' = k then c\<lparr>clSend := q\<rparr> else c"])
    fix k' c'
    assume "(k', c') \<in> set (hbClients (fdHub s))" "client_ok enc s (k', c')"
    then show "client_ok enc (s\<lparr>fdHub := on_client k (\<lambda>c. c\<lparr>clSend := q\<rparr>) (fdHub s),
      fdWritten := (fdWritten s)(k := fdWritten s k @ (if enc ev then [ev] else []))\<rparr>) (k', if k' = k then c'\<lparr>clSend := q\<rparr> else c')"
      using same wrote(2) by (auto simp: client_ok_def Let_def)
  qed (simp add: on_client_def)
next
  case (hung_up s k)
  show ?case
    by (rule clients_ok_mapped [OF hung_up, where P = "\<lambda>_. True" and g = "\<lambda>k' c. if k' = k then client_close c else c"])
      (simp_all add: on_client_def client_ok_def client_close_def Let_def)
next
  case (left s k)
  show ?case by (rule clients_ok_mapped [OF left, where P = "\<lambda>(k', c). k' \<noteq> k" and g = "\<lambda>k c. c"]) (simp_all add: hub_remove_def client_ok_def)
next
  case (stopped s)
  then show ?case by (simp add: clients_ok_def hub_stop_def)
qed

lemma clients_ok_reachable: "(feed_step enc)\<^sup>*\<^sup>* (feed_start now) s \<Longrightarrow> clients_ok enc s"
proof (induction rule: rtranclp_induct)
  case base
  show ?case by (simp add: clients_ok_def feed_start_def newHub_def)
qed (rule clients_ok_step)

text \<open>
  C30: the feed shows a connection everything or ends it. However the loop and the connections
  interleave, no connection ever has more than eight frames waiting; and as long as it has not been
  cut off or hung up, what was written to it followed by what still waits for it are exactly the
  frames told since it came, in order and without a gap, but for those that cannot be encoded.
\<close>

theorem feed_shows_all_or_ends:
  assumes "(feed_step enc)\<^sup>*\<^sup>* (feed_start now) s" and "(k, c) \<in> set (hbClients (fdHub s))"
  shows "length (clSend c) \<le> 8
    \<and> (clDone c \<or> fdWritten s k @ filter enc (clSend c) = filter enc (drop (fdCame s k) (fdTold s)))"
  using clients_ok_reachable [OF assms(1)] assms(2) by (auto simp: clients_ok_def client_ok_def list_all_iff clientBuffer_def)


section \<open>When the end of a run is announced\<close>

definition finishes :: "string \<Rightarrow> ws_event list \<Rightarrow> nat" where
  "finishes i evs = length (filter (\<lambda>ev. wsEvent ev = EventRunFinished \<and> wsRunID ev = i) evs)"

definition sight :: "string \<Rightarrow> run_row list \<Rightarrow> run_row option" where
  "sight i w = find (\<lambda>r. rrID r = i) w"

text \<open>What the ticks that see a run remember of it, and how often they announce its end.\<close>

fun follow :: "gotime \<Rightarrow> run_row option \<Rightarrow> run_status option \<times> nat \<Rightarrow> run_status option \<times> nat" where
  "follow since None (sn, n) = (None, n)"
| "follow since (Some r) (sn, n) =
     (if run_Terminal (rrStatus r)
      then if (sn \<noteq> None \<or> since < rrStartedAt r) \<and> sn \<noteq> Some (rrStatus r) then (Some (rrStatus r), Suc n) else (sn, n)
      else (Some (rrStatus r), n))"

definition history :: "gotime \<Rightarrow> string \<Rightarrow> run_row list list \<Rightarrow> run_status option \<times> nat" where
  "history since i ws = fold (\<lambda>w. follow since (sight i w)) ws (None, 0)"

lemma history_snoc: "history since i (ws @ [w]) = follow since (sight i w) (history since i ws)"
  by (simp add: history_def)

lemma finishes_append [simp]: "finishes i (xs @ ys) = finishes i xs + finishes i ys"
  by (simp add: finishes_def)

lemma broadcast_keeps [simp]: "hbSeen (broadcast ev h) = hbSeen h" "hbSince (broadcast ev h) = hbSince h"
  by (simp_all add: broadcast_def)

lemma tick_run_follows:
  assumes "tick_run now snap run h = (evs, h')"
  shows "hbSince h' = hbSince h"
    and "rrID (fst run) = i \<Longrightarrow> (goget (hbSeen h') i, n + finishes i evs) = follow (hbSince h) (Some (fst run)) (goget (hbSeen h) i, n)"
    and "rrID (fst run) \<noteq> i \<Longrightarrow> goget (hbSeen h') i = goget (hbSeen h) i \<and> finishes i evs = 0"
  using assms
  by (auto simp: tick_run_def tick_event_def note_status_def previousStatus_def finishes_def gm.get_put Let_def
      split: if_splits option.splits)

lemma goget_kept: "goget (filter (\<lambda>(k, v). P k) m) k = (if P k then goget m k else None)"
  by (induction m) auto

lemma sight_append: "sight i (xs @ ys) = (case sight i xs of None \<Rightarrow> sight i ys | Some r \<Rightarrow> Some r)"
  unfolding sight_def by (induction xs) auto

lemma sight_None: "sight i w = None \<longleftrightarrow> i \<notin> rrID ` set w"
  by (auto simp: sight_def find_None_iff)

text \<open>Within a tick, the part of the window already told counts as seen.\<close>

definition told_ok :: "gotime \<Rightarrow> string \<Rightarrow> feed \<Rightarrow> bool" where
  "told_ok since i s \<longleftrightarrow> hbSince (fdHub s) = since
     \<and> (let here = (goget (hbSeen (fdHub s)) i, finishes i (fdTold s)); past = history since i (fdWindows s) in
        case fdTick s of
          None \<Rightarrow> here = past
        | Some (todo, w) \<Rightarrow> distinct (map rrID w) \<and> (\<exists>pre. w = pre @ map fst todo
            \<and> here = (case sight i pre of None \<Rightarrow> past | Some r \<Rightarrow> follow since (Some r) past)))"

lemma told_ok_same:
  "told_ok since i s \<Longrightarrow> hbSince h = hbSince (fdHub s) \<Longrightarrow> hbSeen h = hbSeen (fdHub s) \<Longrightarrow> fdHub s' = h \<Longrightarrow> fdTold s' = fdTold s
   \<Longrightarrow> fdTick s' = fdTick s \<Longrightarrow> fdWindows s' = fdWindows s \<Longrightarrow> told_ok since i s'"
  by (simp add: told_ok_def)

lemma window_distinct:
  assumes "distinct (map rrID (rtRuns db))"
  shows "distinct (map rrID (map fst (tick_window db)))"
proof -
  let ?lt = "\<lambda>a b. stored_before (rrStartedAt b) (rrStartedAt a)
               \<or> \<not> stored_before (rrStartedAt a) (rrStartedAt b) \<and> rrID a < rrID b"
  have m: "map fst (tick_window db) = take (page_limit 100 500 recentRunWindow) (sort_slice ?lt (rtRuns db))"
    by (simp add: tick_window_def ListRuns_def o_def)
  have "distinct (map rrID (sort_slice ?lt (rtRuns db)))" using assms by (simp add: distinct_map)
  then have "distinct (take n (map rrID (sort_slice ?lt (rtRuns db))))" for n by (rule distinct_take)
  then show ?thesis unfolding m take_map .
qed

lemma told_ok_step: "feed_step enc s s' \<Longrightarrow> told_ok since i s \<Longrightarrow> told_ok since i s'"
proof (induction rule: feed_step.induct)
  case (ticked s db)
  then show ?case using window_distinct [OF ticked(3)]
    by (auto simp: told_ok_def sight_def Let_def intro!: exI [of _ "[]"])
next
  case (told s run rest window now snap evs h)
  let ?past = "history since i (fdWindows s)" and ?here = "(goget (hbSeen (fdHub s)) i, finishes i (fdTold s))"
  obtain pre where p: "window = pre @ fst run # map fst rest" "distinct (map rrID window)" "hbSince (fdHub s) = since"
    "?here = (case sight i pre of None \<Rightarrow> ?past | Some r \<Rightarrow> follow since (Some r) ?past)"
    using told by (auto simp: told_ok_def Let_def)
  note f = tick_run_follows [OF told(2)]
  have "(goget (hbSeen h) i, finishes i (fdTold s @ evs)) =
      (case sight i (pre @ [fst run]) of None \<Rightarrow> ?past | Some r \<Rightarrow> follow since (Some r) ?past)"
  proof (cases "rrID (fst run) = i")
    case True
    then have "sight i pre = None" using p(1,2) by (auto simp: sight_None image_iff)
    moreover have "sight i [fst run] = Some (fst run)" using True by (simp add: sight_def)
    ultimately show ?thesis using f(2) [OF True, of "finishes i (fdTold s)"] p(3,4) by (simp add: sight_append)
  next
    case False
    then have "sight i (pre @ [fst run]) = sight i pre" by (simp add: sight_def sight_append [unfolded sight_def] split: option.split)
    then show ?thesis using f(3) [OF False] p(4) by simp
  qed
  moreover have "window = (pre @ [fst run]) @ map fst rest" using p(1) by simp
  ultimately show ?case using p(2,3) f(1) by (auto simp: told_ok_def Let_def intro!: exI [of _ "pre @ [fst run]"])
next
  case (finished s window)
  let ?past = "history since i (fdWindows s)" and ?here = "(goget (hbSeen (fdHub s)) i, finishes i (fdTold s))"
  have h: "?here = (case sight i window of None \<Rightarrow> ?past | Some r \<Rightarrow> follow since (Some r) ?past)" "hbSince (fdHub s) = since"
    using finished by (auto simp: told_ok_def Let_def)
  have "(goget (hbSeen (forgetOld window (fdHub s))) i, finishes i (fdTold s)) = follow since (sight i window) ?past"
  proof (cases "sight i window")
    case None
    then have "goget (hbSeen (forgetOld window (fdHub s))) i = None" by (simp add: forgetOld_def goget_kept sight_None)
    then show ?thesis using h None by (cases ?past) simp
  next
    case (Some r)
    then have "i \<in> rrID ` set window" using sight_None [of i window] by simp
    then have "goget (hbSeen (forgetOld window (fdHub s))) i = goget (hbSeen (fdHub s)) i" by (simp add: forgetOld_def goget_kept)
    then show ?thesis using h(1) Some by simp
  qed
  then show ?case using h(2) by (simp add: told_ok_def history_snoc forgetOld_def Let_def)
next
  case (joined s)
  then show ?case by (intro told_ok_same [OF joined, of "hub_add (fdNext s) (fdHub s)"]) (simp_all add: hub_add_def)
next
  case (wrote k c s ev q)
  show ?case by (rule told_ok_same [OF wrote(3), of "on_client k (\<lambda>c. c\<lparr>clSend := q\<rparr>) (fdHub s)"]) (simp_all add: on_client_def)
next
  case (hung_up s k)
  show ?case by (rule told_ok_same [OF hung_up, of "on_client k client_close (fdHub s)"]) (simp_all add: on_client_def)
next
  case (left s k)
  show ?case by (rule told_ok_same [OF left, of "hub_remove k (fdHub s)"]) (simp_all add: hub_remove_def)
next
  case (stopped s)
  show ?case by (rule told_ok_same [OF stopped(2), of "hub_stop (fdHub s)"]) (simp_all add: hub_stop_def)
qed

lemma told_ok_reachable: "(feed_step enc)\<^sup>*\<^sup>* (feed_start now) s \<Longrightarrow> told_ok now i s"
proof (induction rule: rtranclp_induct)
  case base
  show ?case by (simp add: told_ok_def feed_start_def newHub_def history_def finishes_def)
qed (rule told_ok_step)

lemma follow_absent: "snd (fold (follow since) (replicate b None) x) = snd x"
proof (induction b arbitrary: x)
  case (Suc b)
  show ?case using Suc.IH [of "follow since None x"] by (cases x) (simp del: fold_replicate)
qed simp

lemma follow_before: "fold (follow since) (replicate a None) (None, 0) = (None, 0)"
  by (induction a) (simp_all del: fold_replicate)

lemma follow_live:
  "\<forall>r \<in> set live. \<not> run_Terminal (rrStatus r) \<Longrightarrow>
   fold (follow since) (map Some live) (sn, n) = (if live = [] then sn else Some (rrStatus (last live)), n)"
  by (induction live arbitrary: sn) auto

lemma follow_ended:
  assumes "\<forall>r \<in> set ended. rrStatus r = st \<and> rrStartedAt r = t0" "run_Terminal st"
  shows "snd (fold (follow since) (map Some ended) (sn, n)) = n + (if ended \<noteq> [] \<and> (sn \<noteq> None \<or> since < t0) \<and> sn \<noteq> Some st then 1 else 0)"
  using assms
proof (induction ended arbitrary: sn n)
  case (Cons r rs)
  then show ?case by (cases "(sn \<noteq> None \<or> since < t0) \<and> sn \<noteq> Some st") auto
qed simp

text \<open>
  the end of a run is announced exactly once. Let the ticks first not see a run, then see it
  going on, then see it ended, with one status, and then no longer. Its end has been announced once
  when it was ever seen ended and either was seen going on or began after the hub was started, and
  otherwise never: a run of the past is not announced, nor is one that ends where no tick sees it.
\<close>

theorem completion_is_announced_once:
  assumes "(feed_step enc)\<^sup>*\<^sup>* (feed_start now) s" and "fdTick s = None"
    and "map (sight i) (fdWindows s) = replicate a None @ map Some live @ map Some ended @ replicate b None"
    and "\<forall>r \<in> set live. \<not> run_Terminal (rrStatus r)" and "\<forall>r \<in> set ended. rrStatus r = st \<and> rrStartedAt r = t0"
    and "run_Terminal st"
  shows "finishes i (fdTold s) = (if ended \<noteq> [] \<and> (live \<noteq> [] \<or> now < t0) then 1 else 0)"
proof -
  have "finishes i (fdTold s) = snd (history now i (fdWindows s))"
    using told_ok_reachable [OF assms(1), of i] assms(2) by (auto simp: told_ok_def Let_def dest: arg_cong [of _ _ snd])
  also have "history now i (fdWindows s) = fold (follow now) (map (sight i) (fdWindows s)) (None, 0)"
    by (simp add: history_def fold_map o_def)
  also have "snd \<dots> = snd (fold (follow now) (map Some ended) (if live = [] then None else Some (rrStatus (last live)), 0))"
    using follow_live [OF assms(4)] by (simp add: assms(3) follow_absent follow_before del: fold_replicate)
  also have "\<dots> = (if ended \<noteq> [] \<and> (live \<noteq> [] \<or> now < t0) then 1 else 0)"
    using follow_ended [OF assms(5,6)] assms(4,6) last_in_set [of live] by auto
  finally show ?thesis .
qed


text \<open>A browser that sees a run going on at one tick and ended at the next.\<close>

definition seen_run :: "run_status \<Rightarrow> run_row" where
  "seen_run st = \<lparr>rrID = ''r1'', rrJobID = ''j1'', rrTrigger = TriggerManual, rrStatus = st, rrStartedAt = 5, rrFinishedAt = None,
     rrFilesScanned = 0, rrBytesTotal = 0, rrSummary = []\<rparr>"

definition tick_once :: "run_status \<Rightarrow> feed \<Rightarrow> feed" where
  "tick_once st s = (let (evs, h) = tick_run 9 None (seen_run st, []) (fdHub s) in
     s\<lparr>fdTold := fdTold s @ evs, fdHub := forgetOld [seen_run st] h, fdTick := None, fdWindows := fdWindows s @ [[seen_run st]]\<rparr>)"

lemma tick_once_steps:
  assumes "fdTick s = None" "clientCount (fdHub s) \<noteq> 0"
  shows "(feed_step enc)\<^sup>*\<^sup>* s (tick_once st s)"
proof -
  let ?db = "\<lparr>rtRuns = [seen_run st], rtDests = []\<rparr>" and ?run = "(seen_run st, [])"
  obtain evs h where e: "tick_run 9 None ?run (fdHub s) = (evs, h)" by fastforce
  have w: "tick_window ?db = [?run]"
    by (simp add: tick_window_def ListRuns_def page_limit_def recentRunWindow_def runDestinations_def)
  let ?s1 = "s\<lparr>fdTick := Some ([?run], [seen_run st])\<rparr>"
  let ?s2 = "?s1\<lparr>fdHub := h, fdTold := fdTold ?s1 @ evs, fdTick := Some ([], [seen_run st])\<rparr>"
  have "feed_step enc s ?s1" using feed_step.ticked [OF assms, of ?db enc] w by simp
  moreover have "feed_step enc ?s1 ?s2" by (rule feed_step.told [of _ ?run]) (use e in simp_all)
  moreover have "feed_step enc ?s2 (tick_once st s)" using feed_step.finished [of ?s2 "[seen_run st]" enc] e by (simp add: tick_once_def)
  ultimately show ?thesis by (meson converse_rtranclp_into_rtranclp r_into_rtranclp)
qed

definition watched :: feed where
  "watched = tick_once RunSuccess (tick_once RunRunning
     ((feed_start 0)\<lparr>fdHub := hub_add 0 (newHub 0), fdNext := 1, fdCame := (\<lambda>_. 0)(0 := 0), fdWritten := (\<lambda>_. [])(0 := [])\<rparr>))"

lemma watched_reachable: "(feed_step enc)\<^sup>*\<^sup>* (feed_start 0) watched"
proof -
  let ?s0 = "(feed_start 0)\<lparr>fdHub := hub_add 0 (newHub 0), fdNext := 1, fdCame := (\<lambda>_. 0)(0 := 0), fdWritten := (\<lambda>_. [])(0 := [])\<rparr>"
  have "feed_step enc (feed_start 0) ?s0" using feed_step.joined [of enc "feed_start 0"] by (simp add: feed_start_def)
  moreover have "(feed_step enc)\<^sup>*\<^sup>* ?s0 (tick_once RunRunning ?s0)"
    by (rule tick_once_steps) (simp_all add: feed_start_def clientCount_def hub_add_def)
  moreover have "(feed_step enc)\<^sup>*\<^sup>* (tick_once RunRunning ?s0) watched" unfolding watched_def
    by (rule tick_once_steps)
      (simp_all add: feed_start_def clientCount_def hub_add_def tick_once_def tick_run_def tick_event_def seen_run_def run_Terminal_def
        newHub_def note_status_def broadcast_def forgetOld_def Let_def)
  ultimately show ?thesis by (meson converse_rtranclp_into_rtranclp rtranclp_trans)
qed

lemma watched_fields: "fdTick watched = None" "fdWindows watched = [[seen_run RunRunning], [seen_run RunSuccess]]"
  by (simp_all add: watched_def tick_once_def feed_start_def case_prod_beta Let_def)

theorem feed_shows_all_or_ends_witness:
  "\<exists>k c. (k, c) \<in> set (hbClients (fdHub watched)) \<and> \<not> clDone c \<and> clSend c = fdTold watched"
proof -
  have "\<exists>c. hbClients (fdHub watched) = [(0, c)] \<and> \<not> clDone c \<and> fdWritten watched 0 = [] \<and> fdCame watched 0 = 0"
    by (simp add: watched_def tick_once_def tick_run_def tick_event_def seen_run_def run_Terminal_def feed_start_def newHub_def
        hub_add_def new_client_def note_status_def previousStatus_def broadcast_def offer_def clientBuffer_def forgetOld_def Let_def)
  then obtain c where c: "hbClients (fdHub watched) = [(0, c)]" "\<not> clDone c" "fdWritten watched 0 = []" "fdCame watched 0 = 0" by blast
  have "clSend c = fdTold watched"
    using feed_shows_all_or_ends [OF watched_reachable [of "\<lambda>_. True"], of 0 c] c by simp
  then show ?thesis using c by auto
qed

theorem completion_is_announced_once_witness: "finishes ''r1'' (fdTold watched) = 1"
proof -
  have "map (sight ''r1'') (fdWindows watched) = replicate 0 None @ map Some [seen_run RunRunning] @ map Some [seen_run RunSuccess] @ replicate 0 None"
    by (simp add: watched_fields sight_def seen_run_def)
  from completion_is_announced_once [OF watched_reachable [of "\<lambda>_. True"] watched_fields(1) this, of RunSuccess 5]
  show ?thesis by (simp add: seen_run_def run_Terminal_def)
qed

text \<open>A run that more recent ones pushed out of the window before it ended is never announced.\<close>

lemma pushed_out_is_never_announced:
  assumes "(feed_step enc)\<^sup>*\<^sup>* (feed_start now) s" "fdTick s = None"
    and "map (sight i) (fdWindows s) = replicate a None @ map Some live @ replicate b None" "\<forall>r \<in> set live. \<not> run_Terminal (rrStatus r)"
  shows "finishes i (fdTold s) = 0"
proof -
  have "finishes i (fdTold s) = snd (history now i (fdWindows s))"
    using told_ok_reachable [OF assms(1), of i] assms(2) by (auto simp: told_ok_def Let_def dest: arg_cong [of _ _ snd])
  also have "\<dots> = 0" using follow_live [OF assms(4)]
    by (simp add: history_def assms(3) follow_absent follow_before fold_map [symmetric, of _ "sight i", unfolded o_def] del: fold_replicate)
  finally show ?thesis .
qed

end
