(* ===== verification/Migrations.thy ===== *)
theory Migrations
  imports Engine_Copy Paths "HOL-Library.Word"
begin

text \<open>
  Opening the database (\<^verbatim>\<open>src/internal/store/store.go\<close>): the migrations that are applied once each, in
  the order of their names, each in a transaction with the note that it was; and the identifiers.
  The statements of a migration are an argument: a function on the schema, which may fail.
\<close>

section \<open>Migrations\<close>

record 's database =
  dbSchema :: 's
  dbNotes :: "string list option"  \<comment> \<open>\<open>schema_migrations\<close>, once it is there\<close>

text \<open>What one start of the program meets: the fault of every call.\<close>

datatype migration_call = CreateNotes | ListFiles | CheckNote string | ReadBody string | StartTx string | WriteNote string | CommitTx string

record 's migration_env =
  meFault :: "migration_call \<Rightarrow> goerr option"
  meApply :: "string \<Rightarrow> 's \<Rightarrow> goerr + 's"

definition migration_name :: "string \<Rightarrow> string" where
  "migration_name entry = filepath_Base entry"

definition guarded :: "goerr option \<Rightarrow> string \<Rightarrow> goerr + unit" where
  "guarded fault what = (case fault of Some e \<Rightarrow> Inl (wrap what e) | None \<Rightarrow> Inr ())"

text \<open>A transaction that is not committed leaves the schema and the notes alone.\<close>

definition migration_tx :: "'s migration_env \<Rightarrow> string \<Rightarrow> 's database \<Rightarrow> goerr + 's database" where
  "migration_tx E entry db =
     (let name = migration_name entry in
      bind_err (guarded (meFault E (ReadBody name)) (''reading migration '' @ name @ '': '')) (\<lambda>_.
      bind_err (guarded (meFault E (StartTx name)) (''starting migration '' @ name @ '': '')) (\<lambda>_.
      bind_err (in_context (''applying migration '' @ name @ '': '') (meApply E entry (dbSchema db))) (\<lambda>schema.
      bind_err (guarded (meFault E (WriteNote name)) (''recording migration '' @ name @ '': '')) (\<lambda>_.
      bind_err (guarded (meFault E (CommitTx name)) (''committing migration '' @ name @ '': '')) (\<lambda>_.
      Inr (db\<lparr>dbSchema := schema, dbNotes := map_option (\<lambda>ns. ns @ [name]) (dbNotes db)\<rparr>)))))))"

definition noted_names :: "'s database \<Rightarrow> string list" where
  "noted_names db = (case dbNotes db of None \<Rightarrow> [] | Some ns \<Rightarrow> ns)"

fun migrate_loop :: "'s migration_env \<Rightarrow> string list \<Rightarrow> 's database \<Rightarrow> goerr option \<times> 's database" where
  "migrate_loop E [] db = (None, db)"
| "migrate_loop E (entry # es) db =
     (let name = migration_name entry in
      case meFault E (CheckNote name) of
        Some e \<Rightarrow> (Some (wrap (''checking migration '' @ name @ '': '') e), db)
      | None \<Rightarrow>
          if name \<in> set (noted_names db) then migrate_loop E es db
          else case migration_tx E entry db of
            Inl e \<Rightarrow> (Some e, db)
          | Inr db \<Rightarrow> migrate_loop E es db)"

definition migrate :: "'s migration_env \<Rightarrow> string list \<Rightarrow> 's database \<Rightarrow> goerr option \<times> 's database" where
  "migrate E entries db =
     (case meFault E CreateNotes of
        Some e \<Rightarrow> (Some (wrap ''creating schema_migrations: '' e), db)
      | None \<Rightarrow>
          let db = db\<lparr>dbNotes := Some (noted_names db)\<rparr> in
          (case meFault E ListFiles of
             Some e \<Rightarrow> (Some (wrap ''listing migrations: '' e), db)
           | None \<Rightarrow> migrate_loop E (sort_Strings entries) db))"

text \<open>Opening: the connection, and the migrations; a database that cannot be brought up to date is
  closed again.\<close>

definition Open :: "goerr option \<Rightarrow> goerr option \<Rightarrow> 's migration_env \<Rightarrow> string list \<Rightarrow> string \<Rightarrow> 's database \<Rightarrow> goerr option \<times> 's database" where
  "Open openErr pingErr E entries path db =
     (case openErr of
        Some e \<Rightarrow> (Some (wrap (''opening database '' @ path @ '': '') e), db)
      | None \<Rightarrow>
          (case pingErr of
             Some e \<Rightarrow> (Some (wrap (''connecting to database '' @ path @ '': '') e), db)
           | None \<Rightarrow> migrate E entries db))"


section \<open>Identifiers\<close>

definition hex_lower :: "nat \<Rightarrow> char" where
  "hex_lower n = ''0123456789abcdef'' ! n"

definition EncodeToString :: "8 word list \<Rightarrow> string" where
  "EncodeToString bs = concat (map (\<lambda>b. [hex_lower (unat b div 16), hex_lower (unat b mod 16)]) bs)"

definition newID :: "goerr + 8 word list \<Rightarrow> goerr + string" where
  "newID random = (case random of Inl e \<Rightarrow> Inl (wrap ''generating id: '' e) | Inr buf \<Rightarrow> Inr (EncodeToString buf))"


section \<open>Every migration once, whatever happens\<close>

text \<open>The migrations that have been applied are the first ones, and the schema is what they made.\<close>

fun applied :: "(string \<Rightarrow> 's \<Rightarrow> goerr + 's) \<Rightarrow> string list \<Rightarrow> 's \<Rightarrow> 's option" where
  "applied f [] s = Some s"
| "applied f (e # es) s = (case f e s of Inl _ \<Rightarrow> None | Inr s \<Rightarrow> applied f es s)"

definition up_to :: "(string \<Rightarrow> 's \<Rightarrow> goerr + 's) \<Rightarrow> 's \<Rightarrow> string list \<Rightarrow> nat \<Rightarrow> 's database \<Rightarrow> bool" where
  "up_to f s0 es n db \<longleftrightarrow> n \<le> length es \<and> noted_names db = map migration_name (take n es) \<and> applied f (take n es) s0 = Some (dbSchema db)"

lemma applied_append: "applied f (xs @ ys) s = (case applied f xs s of None \<Rightarrow> None | Some s \<Rightarrow> applied f ys s)"
  by (induction xs arbitrary: s) (auto split: sum.split)

lemma migration_tx_Inr:
  "migration_tx E entry db = Inr db' \<Longrightarrow> \<exists>s. meApply E entry (dbSchema db) = Inr s
     \<and> db' = db\<lparr>dbSchema := s, dbNotes := map_option (\<lambda>ns. ns @ [migration_name entry]) (dbNotes db)\<rparr>"
  by (auto simp: migration_tx_def bind_err_Inr Let_def)

lemma migrate_loop_up_to:
  assumes "distinct (map migration_name es)" "meApply E = f" "drop k es = rest" "up_to f s0 es n db" "k \<le> n" "dbNotes db \<noteq> None"
    and "migrate_loop E rest db = (err, db')"
  shows "\<exists>m. n \<le> m \<and> up_to f s0 es m db' \<and> (err = None \<longrightarrow> m = length es) \<and> dbNotes db' \<noteq> None"
  using assms(3-7)
proof (induction rest arbitrary: k n db)
  case Nil
  then show ?case by (auto simp: up_to_def intro!: exI [of _ n])
next
  case (Cons e rest)
  have k: "k < length es" "es ! k = e" "drop (Suc k) es = rest"
    using Cons.prems(1) by (metis drop_all list.distinct(1) not_le, metis nth_via_drop, metis drop_Suc list.sel(3) tl_drop)
  have len: "n \<le> length es" and nn: "noted_names db = map migration_name (take n es)" using Cons.prems(2) by (auto simp: up_to_def)
  have "migration_name (es ! i) = migration_name (es ! k) \<longleftrightarrow> i = k" if "i < n" for i
    using nth_eq_iff_index_eq [OF assms(1), of i k] k(1) less_le_trans [OF that len] by simp
  moreover have "x \<in> set (map migration_name (take n es)) \<longleftrightarrow> (\<exists>i < n. migration_name (es ! i) = x)" for x
    unfolding in_set_conv_nth using len by auto
  ultimately have noted: "migration_name e \<in> set (noted_names db) \<longleftrightarrow> k < n" unfolding nn using k(2) by metis
  show ?case
  proof (cases "meFault E (CheckNote (migration_name e))")
    case (Some x)
    then show ?thesis using Cons.prems by auto
  next
    case F: None
    show ?thesis
    proof (cases "k < n")
      case True
      then show ?thesis using Cons.IH [OF k(3) Cons.prems(2) _ Cons.prems(4)] Cons.prems(5) F noted by (simp add: Let_def)
    next
      case False
      then have n: "n = k" using Cons.prems(3) by simp
      show ?thesis
      proof (cases "migration_tx E e db")
        case (Inl x)
        then show ?thesis using Cons.prems F noted False by (auto simp: Let_def)
      next
        case (Inr db1)
        obtain s where s: "f e (dbSchema db) = Inr s" "db1 = db\<lparr>dbSchema := s, dbNotes := map_option (\<lambda>ns. ns @ [migration_name e]) (dbNotes db)\<rparr>"
          using migration_tx_Inr [OF Inr] assms(2) by auto
        have t: "take (Suc k) es = take k es @ [e]" using k by (simp add: take_Suc_conv_app_nth)
        have "up_to f s0 es (Suc k) db1"
          using Cons.prems(2,4) k(1) s by (auto simp: up_to_def n t noted_names_def applied_append)
        moreover have "dbNotes db1 \<noteq> None" using Cons.prems(4) s(2) by simp
        moreover have "migrate_loop E rest db1 = (err, db')" using Cons.prems(5) F noted False Inr by (simp add: Let_def)
        ultimately obtain m where "Suc k \<le> m \<and> up_to f s0 es m db' \<and> (err = None \<longrightarrow> m = length es) \<and> dbNotes db' \<noteq> None"
          using Cons.IH [OF k(3)] by blast
        then show ?thesis using n by (intro exI [of _ m]) auto
      qed
    qed
  qed
qed

lemma migrate_up_to:
  assumes "distinct (map migration_name entries)" "meApply E = f" "up_to f s0 (sort_Strings entries) n db" "migrate E entries db = (err, db')"
  shows "\<exists>m. n \<le> m \<and> up_to f s0 (sort_Strings entries) m db' \<and> (err = None \<longrightarrow> m = length entries)"
proof -
  have len: "length (sort_Strings entries) = length entries" using mset_sort_Strings size_mset by metis
  have d: "distinct (map migration_name (sort_Strings entries))"
    using assms(1) by (metis mset_eq_imp_distinct_iff mset_map mset_sort_Strings)
  have "up_to f s0 (sort_Strings entries) n (db\<lparr>dbNotes := Some (noted_names db)\<rparr>)" using assms(3) by (simp add: up_to_def noted_names_def)
  note l = migrate_loop_up_to [OF d assms(2) _ this, where k = 0 and rest = "sort_Strings entries"]
  show ?thesis
  proof (cases "meFault E CreateNotes = None \<and> meFault E ListFiles = None")
    case True
    then show ?thesis using l assms(4) len by (auto simp: migrate_def Let_def)
  next
    case False
    then have "err \<noteq> None \<and> dbSchema db' = dbSchema db \<and> noted_names db' = noted_names db"
      using assms(4) by (auto simp: migrate_def noted_names_def Let_def split: option.splits)
    then show ?thesis using assms(3) by (intro exI [of _ n]) (auto simp: up_to_def)
  qed
qed

definition restarts :: "'s migration_env list \<Rightarrow> string list \<Rightarrow> 's database \<Rightarrow> 's database" where
  "restarts Es entries db = fold (\<lambda>E db. snd (migrate E entries db)) Es db"

lemma restarts_up_to:
  assumes "distinct (map migration_name entries)" "\<forall>E \<in> set Es. meApply E = f" "up_to f s0 (sort_Strings entries) n db"
  shows "\<exists>m. n \<le> m \<and> up_to f s0 (sort_Strings entries) m (restarts Es entries db)"
  using assms(2,3)
proof (induction Es arbitrary: n db)
  case (Cons E Es)
  obtain err db1 where r: "migrate E entries db = (err, db1)" by fastforce
  have "meApply E = f" using Cons.prems(1) by simp
  from migrate_up_to [OF assms(1) this Cons.prems(2) r] obtain m where "n \<le> m" "up_to f s0 (sort_Strings entries) m db1" by blast
  then show ?case using Cons.IH [of m db1] Cons.prems(1) r by (auto simp: restarts_def) (metis le_trans)
qed (auto simp: restarts_def)

text \<open>
  C39: every migration is applied once, in order, however often the program is stopped on the way.
  However many starts fail, and wherever (before a migration, in it, while it is noted, at its
  commit), the database has been through the first migrations and no others, and the notes say which;
  once a start succeeds it has been through all of them, in the order of their names.
\<close>

theorem migrations_are_applied_once:
  assumes "distinct (map migration_name entries)" and "\<forall>E \<in> set Es. meApply E = f" and "meApply E = f"
    and "migrate E entries (restarts Es entries \<lparr>dbSchema = s0, dbNotes = None\<rparr>) = (err, db)"
  shows "\<exists>n \<le> length entries. noted_names db = map migration_name (take n (sort_Strings entries))
    \<and> applied f (take n (sort_Strings entries)) s0 = Some (dbSchema db) \<and> (err = None \<longrightarrow> n = length entries)"
proof -
  have len: "length (sort_Strings entries) = length entries" using mset_sort_Strings size_mset by metis
  have "up_to f s0 (sort_Strings entries) 0 \<lparr>dbSchema = s0, dbNotes = None\<rparr>" by (simp add: up_to_def noted_names_def)
  from restarts_up_to [OF assms(1,2) this] obtain m where m: "up_to f s0 (sort_Strings entries) m (restarts Es entries \<lparr>dbSchema = s0, dbNotes = None\<rparr>)" by blast
  from migrate_up_to [OF assms(1,3) m assms(4)] obtain k where "up_to f s0 (sort_Strings entries) k db" "err = None \<longrightarrow> k = length entries" by blast
  then show ?thesis using len by (auto simp: up_to_def)
qed


section \<open>Identifiers are path segments\<close>

lemma hex_lower_plain: "n < 16 \<Longrightarrow> hex_lower n \<in> set ''0123456789abcdef''"
  unfolding hex_lower_def by (rule nth_mem) simp

lemma length_Encode: "length (EncodeToString bs) = 2 * length bs"
  by (induction bs) (simp_all add: EncodeToString_def)

text \<open>
  an identifier can name a directory. What is drawn for sixteen random bytes has thirty-two
  characters, digits and the letters a to f, so that it is one segment of a path, which neither
  leaves nor repeats the directory it is put in.
\<close>

theorem identifiers_are_segments:
  assumes "newID (Inr buf) = Inr i" and "length buf = 16"
  shows "length i = 32 \<and> set i \<subseteq> set ''0123456789abcdef'' \<and> plain_seg i"
proof -
  have i: "i = EncodeToString buf" using assms(1) by (simp add: newID_def)
  have l: "length i = 32" using assms(2) length_Encode [of buf] by (simp add: i)
  have "unat (b :: 8 word) div 16 < 16" for b using unsigned_less [where w = b and ?'a = nat] by simp
  moreover define D where "D = set ''0123456789abcdef''"
  ultimately have "hex_lower (unat b div 16) \<in> D" "hex_lower (unat b mod 16) \<in> D" for b :: "8 word"
    using hex_lower_plain by simp_all
  then have "set i \<subseteq> D" unfolding i EncodeToString_def by auto
  then have s: "set i \<subseteq> set ''0123456789abcdef''" unfolding D_def .
  have "i \<noteq> ''.''" "i \<noteq> ''..''" "i \<noteq> []" using l by auto
  moreover have "slash \<notin> set i" using s by auto
  ultimately show ?thesis using l s by (simp add: plain_seg_def)
qed


section \<open>A start that fails and one that works\<close>

definition sample_migrations :: "string list" where
  "sample_migrations = [''migrations/002_runs.sql'', ''migrations/001_targets.sql'']"

definition start_env :: "(migration_call \<Rightarrow> goerr option) \<Rightarrow> string list migration_env" where
  "start_env fault = \<lparr>meFault = fault, meApply = (\<lambda>entry tables. Inr (tables @ [migration_name entry]))\<rparr>"

theorem migrations_are_applied_once_witness:
  "noted_names (snd (migrate (start_env (\<lambda>_. None)) sample_migrations
     (restarts [start_env (\<lambda>c. if c = CommitTx ''002_runs.sql'' then Some (new_error ''disk full'' []) else None)] sample_migrations \<lparr>dbSchema = [], dbNotes = None\<rparr>)))
   = [''001_targets.sql'', ''002_runs.sql'']"
proof -
  let ?E = "start_env (\<lambda>_. None)" and ?F = "start_env (\<lambda>c. if c = CommitTx ''002_runs.sql'' then Some (new_error ''disk full'' []) else None)"
  have names: "map migration_name sample_migrations = [''002_runs.sql'', ''001_targets.sql'']"
    by (simp add: sample_migrations_def migration_name_def filepath_Base_def)
  have sorted: "sort_Strings sample_migrations = [''migrations/001_targets.sql'', ''migrations/002_runs.sql'']"
    by (simp add: sample_migrations_def sort_Strings_def go_string_less_def)
  have f: "meApply ?E = (\<lambda>entry tables. Inr (tables @ [migration_name entry]))" "\<forall>E \<in> set [?F]. meApply E = (\<lambda>entry tables. Inr (tables @ [migration_name entry]))"
    by (simp_all add: start_env_def)
  have none: "migrate_loop ?E es db = (None, db') \<or> (\<exists>db'. migrate_loop ?E es db = (None, db'))" for es db db'
    by (induction es arbitrary: db) (auto simp: start_env_def migration_tx_def bind_err_def guarded_def in_context_def Let_def)
  obtain db where r: "migrate ?E sample_migrations (restarts [?F] sample_migrations \<lparr>dbSchema = [], dbNotes = None\<rparr>) = (None, db)"
    using none by (auto simp: migrate_def start_env_def [of "\<lambda>_. None"] Let_def) (metis start_env_def)
  have d: "distinct (map migration_name sample_migrations)" unfolding names by simp
  from migrations_are_applied_once [OF d f(2,1) r] r show ?thesis
    unfolding sorted by (auto simp: sample_migrations_def migration_name_def filepath_Base_def)
qed

theorem identifiers_are_segments_witness: "plain_seg (projr (newID (Inr (replicate 16 255))))"
  using identifiers_are_segments [of "replicate 16 255" "projr (newID (Inr (replicate 16 255)))"] by (simp add: newID_def)

end
