(* ===== verification/Catalog.thy ===== *)
theory Catalog
  imports Webhooks Targets
begin

text \<open>
  The tables of targets, jobs, their destinations and filter rules, and the global exclusions
  (\<^verbatim>\<open>src/internal/store/targets.go\<close>, \<^verbatim>\<open>jobs.go\<close>, \<^verbatim>\<open>filters.go\<close>, \<^verbatim>\<open>global_filters.go\<close>), with the keys
  and references their schema declares (\<^verbatim>\<open>migrations\<close>): a statement that would repeat a key or
  leave a reference open fails. A transaction keeps the tables as they were unless every statement
  of it and its commit succeed.
\<close>

section \<open>Rows\<close>

record target_row =
  twTarget :: target
  twCreated :: gotime
  twUpdated :: gotime

record job_row =
  jwJob :: job  \<comment> \<open>its own columns: no destinations, no rules\<close>
  jwCreated :: gotime
  jwUpdated :: gotime

record dest_row =
  dwID :: string
  dwJobID :: string
  dwDest :: job_destination
  dwPosition :: nat

record rule_row =
  wrJobID :: string
  wrRule :: filter_rule
  wrPosition :: nat
  wrCreated :: gotime

record global_row =
  gwRule :: global_rule
  gwPosition :: nat
  gwCreated :: gotime

record catalog =
  ctTargets :: "target_row list"
  ctJobs :: "job_row list"
  ctDests :: "dest_row list"
  ctRules :: "rule_row list"
  ctGlobals :: "global_row list"
  ctHooks :: "webhook list"
  ctRuns :: run_tables
  ctEvents :: event_table

abbreviation target_ids :: "catalog \<Rightarrow> string list" where "target_ids db \<equiv> map (tgID \<circ> twTarget) (ctTargets db)"
abbreviation target_names_of :: "catalog \<Rightarrow> string list" where "target_names_of db \<equiv> map (tgName \<circ> twTarget) (ctTargets db)"
abbreviation job_ids :: "catalog \<Rightarrow> string list" where "job_ids db \<equiv> map (jbID \<circ> jwJob) (ctJobs db)"
abbreviation job_names :: "catalog \<Rightarrow> string list" where "job_names db \<equiv> map (jbName \<circ> jwJob) (ctJobs db)"


section \<open>Statements\<close>

text \<open>
  What an operation asks of the world: the fault of each of its statements, the identifiers it
  draws and the readings of its clock, in order; the functions of other packages; the schedules.
\<close>

datatype stmt = Begin | Query nat | Exec nat | Commit

record store_env =
  seQuote :: "string \<Rightarrow> string"
  seLower :: "string \<Rightarrow> string"
  seUpper :: "string \<Rightarrow> string"
  seCron :: cron
  seClock :: "nat \<Rightarrow> gotime"
  seIDs :: "nat \<Rightarrow> goerr + string"
  seFault :: "stmt \<Rightarrow> goerr option"

definition unique_text :: "string \<Rightarrow> string" where
  "unique_text col = ''constraint failed: UNIQUE constraint failed: '' @ col"

definition foreign_key_text :: string where
  "foreign_key_text = ''constraint failed: FOREIGN KEY constraint failed (787)''"

definition statement :: "goerr option \<Rightarrow> goerr option list \<Rightarrow> (catalog \<Rightarrow> catalog) \<Rightarrow> catalog \<Rightarrow> goerr + catalog" where
  "statement fault checks f db = (case first_error (fault # checks) of Some e \<Rightarrow> Inl e | None \<Rightarrow> Inr (f db))"

definition barrier :: "goerr option \<Rightarrow> string \<Rightarrow> goerr + unit" where
  "barrier fault what = (case fault of Some e \<Rightarrow> Inl (wrap (what @ '': '') e) | None \<Rightarrow> Inr ())"

definition in_tx :: "catalog \<Rightarrow> goerr + ('a \<times> catalog) \<Rightarrow> (goerr + 'a) \<times> catalog" where
  "in_tx db x = (case x of Inl e \<Rightarrow> (Inl e, db) | Inr (v, db') \<Rightarrow> (Inr v, db'))"

text \<open>\<open>strings.ToUpper\<close>, with the Unicode tables as a parameter.\<close>

definition ascii_upper :: "char \<Rightarrow> char" where
  "ascii_upper c = (let n = (of_char c :: nat) in if 97 \<le> n \<and> n \<le> 122 then char_of (n - 32) else c)"

definition ToUpper :: "(string \<Rightarrow> string) \<Rightarrow> string \<Rightarrow> string" where
  "ToUpper uu s = (if is_ascii s then map ascii_upper s else uu s)"

definition isUniqueViolation :: "(string \<Rightarrow> string) \<Rightarrow> goerr \<Rightarrow> bool" where
  "isUniqueViolation uu e = Contains (ToUpper uu (err_text e)) ''UNIQUE CONSTRAINT FAILED''"

definition taken_or :: "store_env \<Rightarrow> string \<Rightarrow> string \<Rightarrow> string \<Rightarrow> goerr + 'a \<Rightarrow> goerr + 'a" where
  "taken_or E kind name what x =
     (case x of
        Inr v \<Rightarrow> Inr v
      | Inl e \<Rightarrow>
          if isUniqueViolation (seUpper E) e
          then Inl (new_error (''a '' @ kind @ '' named '' @ fmt_q (seQuote E) name @ '' already exists: name already in use'') [ErrNameTaken])
          else Inl (wrap (what @ '': '') e))"

lemma first_error_in: "first_error es = Some e \<Longrightarrow> Some e \<in> set es"
  by (induction es rule: first_error.induct) auto

lemma statement_Inr: "statement fault checks f db = Inr db' \<longleftrightarrow> fault = None \<and> (\<forall>c \<in> set checks. c = None) \<and> db' = f db"
  by (cases fault) (auto simp: statement_def split: option.splits dest: first_error_in)

lemma barrier_Inr [simp]: "barrier fault what = Inr u \<longleftrightarrow> fault = None"
  by (cases fault) (auto simp: barrier_def)

lemma taken_or_Inr [simp]: "taken_or E kind name what x = Inr v \<longleftrightarrow> x = Inr v"
  by (cases x) (auto simp: taken_or_def)

lemma in_tx_Inr: "in_tx db x = (Inr v, db') \<longleftrightarrow> x = Inr (v, db')"
  by (cases x) (auto simp: in_tx_def)

lemma in_tx_Inl: "in_tx db x = (Inl e, db') \<Longrightarrow> db' = db"
  by (cases x) (auto simp: in_tx_def)

lemmas step_Inr = bind_err_Inr statement_Inr in_context_Inr


section \<open>Targets\<close>

definition same_key :: "target \<Rightarrow> target_row \<Rightarrow> bool" where
  "same_key t r \<longleftrightarrow> tgID (twTarget r) = tgID t"

definition CreateTarget :: "store_env \<Rightarrow> target \<Rightarrow> catalog \<Rightarrow> (goerr + target) \<times> catalog" where
  "CreateTarget E t db =
     (case target_Validate (seLower E) (seQuote E) t of
        Some e \<Rightarrow> (Inl e, db)
      | None \<Rightarrow>
          in_tx db
            (bind_err (seIDs E 0) (\<lambda>i.
             let t = t\<lparr>tgID := i\<rparr>; now = seClock E 0 in
             bind_err (taken_or E ''target'' (tgName t) (''creating target '' @ fmt_q (seQuote E) (tgName t))
               (statement (seFault E (Exec 0))
                  [reject_if (i \<in> set (target_ids db)) (unique_text ''targets.id''),
                   reject_if (tgName t \<in> set (target_names_of db)) (unique_text ''targets.name'')]
                  (\<lambda>db. db\<lparr>ctTargets := ctTargets db @ [\<lparr>twTarget = t, twCreated = now, twUpdated = now\<rparr>]\<rparr>) db))
             (\<lambda>db. Inr (t, db)))))"

definition target_row_of :: "string \<Rightarrow> catalog \<Rightarrow> target_row option" where
  "target_row_of i db = find (\<lambda>r. tgID (twTarget r) = i) (ctTargets db)"

definition GetTarget :: "store_env \<Rightarrow> string \<Rightarrow> catalog \<Rightarrow> goerr + target" where
  "GetTarget E i db =
     (case seFault E (Query 0) of
        Some e \<Rightarrow> Inl (wrap (''loading target '' @ i @ '': '') e)
      | None \<Rightarrow>
          (case target_row_of i db of
             None \<Rightarrow> Inl (new_error (''target '' @ i @ '': not found'') [ErrNotFound])
           | Some r \<Rightarrow> Inr (twTarget r)))"

definition newest_first :: "('r \<Rightarrow> gotime) \<Rightarrow> ('r \<Rightarrow> string) \<Rightarrow> 'r \<Rightarrow> 'r \<Rightarrow> bool" where
  "newest_first created key a b \<longleftrightarrow> stored_before (created b) (created a)
     \<or> \<not> stored_before (created a) (created b) \<and> go_string_less (key a) (key b)"

definition ListTargets :: "store_env \<Rightarrow> catalog \<Rightarrow> goerr + target list" where
  "ListTargets E db =
     (case seFault E (Query 0) of
        Some e \<Rightarrow> Inl (wrap ''listing targets: '' e)
      | None \<Rightarrow> Inr (map twTarget (sort_slice (newest_first twCreated (tgID \<circ> twTarget)) (ctTargets db))))"

definition UpdateTarget :: "store_env \<Rightarrow> target \<Rightarrow> catalog \<Rightarrow> goerr option \<times> catalog" where
  "UpdateTarget E t db =
     (case target_Validate (seLower E) (seQuote E) t of
        Some e \<Rightarrow> (Some e, db)
      | None \<Rightarrow>
          (case taken_or E ''target'' (tgName t) (''updating target '' @ tgID t)
             (statement (seFault E (Exec 0))
                [reject_if (list_ex (\<lambda>r. \<not> same_key t r \<and> tgName (twTarget r) = tgName t) (ctTargets db)
                   \<and> list_ex (same_key t) (ctTargets db)) (unique_text ''targets.name'')]
                (\<lambda>db. db\<lparr>ctTargets := update_where (same_key t) (\<lambda>r. r\<lparr>twTarget := t, twUpdated := seClock E 0\<rparr>) (ctTargets db)\<rparr>) db) of
             Inl e \<Rightarrow> (Some e, db)
           | Inr db' \<Rightarrow> (if list_ex (same_key t) (ctTargets db) then None else Some (missing_row (tgID t)), db')))"

definition SetNegotiatedVers :: "store_env \<Rightarrow> string \<Rightarrow> string \<Rightarrow> catalog \<Rightarrow> goerr option \<times> catalog" where
  "SetNegotiatedVers E i vers =
     sql_exec (seFault E (Exec 0)) (''recording negotiated SMB version for target '' @ i)
       (\<lambda>db. db\<lparr>ctTargets := update_where (\<lambda>r. tgID (twTarget r) = i)
          (\<lambda>r. r\<lparr>twTarget := (twTarget r)\<lparr>NegotiatedVers := vers\<rparr>, twUpdated := seClock E 0\<rparr>) (ctTargets db)\<rparr>)"

text \<open>What refers to a target: jobs, their destinations, and the destinations of past runs.\<close>

definition refers_to_target :: "string \<Rightarrow> catalog \<Rightarrow> bool" where
  "refers_to_target i db \<longleftrightarrow>
     list_ex (\<lambda>r. jbSourceTarget (jwJob r) = i) (ctJobs db) \<or> list_ex (\<lambda>r. jdTarget (dwDest r) = i) (ctDests db)
     \<or> list_ex (\<lambda>r. rdTarget r = i) (rtDests (ctRuns db))"

definition DeleteTarget :: "store_env \<Rightarrow> string \<Rightarrow> catalog \<Rightarrow> goerr option \<times> catalog" where
  "DeleteTarget E i db =
     (case in_context (''deleting target '' @ i @ '': '')
        (statement (seFault E (Exec 0))
           [reject_if (i \<in> set (target_ids db) \<and> refers_to_target i db) foreign_key_text]
           (\<lambda>db. db\<lparr>ctTargets := filter (\<lambda>r. tgID (twTarget r) \<noteq> i) (ctTargets db)\<rparr>) db) of
        Inl e \<Rightarrow> (Some e, db)
      | Inr db' \<Rightarrow> (if i \<in> set (target_ids db) then None else Some (missing_row i), db'))"


section \<open>Jobs\<close>

definition columns :: "job \<Rightarrow> job" where
  "columns j = j\<lparr>jbDestinations := [], jbFilters := []\<rparr>"

text \<open>The children of a job: its destinations and its rules, in their order.\<close>

fun insert_dests :: "store_env \<Rightarrow> job \<Rightarrow> nat \<Rightarrow> nat \<Rightarrow> nat \<Rightarrow> job_destination list \<Rightarrow> catalog \<Rightarrow> goerr + catalog" where
  "insert_dests E j k b i [] db = Inr db"
| "insert_dests E j k b i (d # ds) db =
     bind_err (seIDs E (b + i)) (\<lambda>destID.
     bind_err (in_context (''adding a destination to job '' @ fmt_q (seQuote E) (jbName j) @ '': '')
       (statement (seFault E (Exec (k + i)))
          [reject_if (destID \<in> dwID ` set (ctDests db)) (unique_text ''job_destinations.id''),
           reject_if (jbID j \<notin> set (job_ids db) \<or> jdTarget d \<notin> set (target_ids db)) foreign_key_text]
          (\<lambda>db. db\<lparr>ctDests := ctDests db @ [\<lparr>dwID = destID, dwJobID = jbID j, dwDest = d, dwPosition = i\<rparr>]\<rparr>) db))
     (insert_dests E j k b (Suc i) ds))"

definition insertFilterRule ::
  "store_env \<Rightarrow> stmt \<Rightarrow> goerr + string \<Rightarrow> gotime \<Rightarrow> string \<Rightarrow> filter_rule \<Rightarrow> nat \<Rightarrow> catalog \<Rightarrow> goerr + filter_rule \<times> catalog" where
  "insertFilterRule E s newID now jobID f position db =
     (let f = rule_ApplyDefaults f in
      case rule_Validate (seQuote E) f of
        Some e \<Rightarrow> Inl e
      | None \<Rightarrow>
          bind_err newID (\<lambda>i.
          let f = f\<lparr>frID := i\<rparr> in
          bind_err (in_context (''adding a filter rule to job '' @ jobID @ '': '')
            (statement (seFault E s)
               [reject_if (i \<in> (frID \<circ> wrRule) ` set (ctRules db)) (unique_text ''filter_rules.id''),
                reject_if (jobID \<notin> set (job_ids db)) foreign_key_text]
               (\<lambda>db. db\<lparr>ctRules := ctRules db @ [\<lparr>wrJobID = jobID, wrRule = f, wrPosition = position, wrCreated = now\<rparr>]\<rparr>) db))
          (\<lambda>db. Inr (f, db))))"

fun insert_rules :: "store_env \<Rightarrow> string \<Rightarrow> nat \<Rightarrow> nat \<Rightarrow> nat \<Rightarrow> filter_rule list \<Rightarrow> catalog \<Rightarrow> goerr + filter_rule list \<times> catalog" where
  "insert_rules E jobID k b i [] db = Inr ([], db)"
| "insert_rules E jobID k b i (f # fs) db =
     bind_err (insertFilterRule E (Exec (k + i)) (seIDs E (b + i)) (seClock E (2 + i)) jobID f i db) (\<lambda>(f, db).
     bind_err (insert_rules E jobID k b (Suc i) fs db) (\<lambda>(fs, db). Inr (f # fs, db)))"

definition insertJobChildren :: "store_env \<Rightarrow> nat \<Rightarrow> nat \<Rightarrow> job \<Rightarrow> catalog \<Rightarrow> goerr + job \<times> catalog" where
  "insertJobChildren E k b j db =
     (let n = length (jbDestinations j) in
      bind_err (insert_dests E j k b 0 (jbDestinations j) db) (\<lambda>db.
      bind_err (insert_rules E (jbID j) (k + n) (b + n) 0 (jbFilters j) db) (\<lambda>(fs, db).
      Inr (j\<lparr>jbFilters := fs\<rparr>, db))))"

definition insert_job :: "store_env \<Rightarrow> job \<Rightarrow> catalog \<Rightarrow> goerr + catalog" where
  "insert_job E j db =
     (let now = seClock E 0 in
      statement (seFault E (Exec 0))
        [reject_if (jbID j \<in> set (job_ids db)) (unique_text ''jobs.id''),
         reject_if (jbName j \<in> set (job_names db)) (unique_text ''jobs.name''),
         reject_if (jbSourceTarget j \<notin> set (target_ids db)) foreign_key_text]
        (\<lambda>db. db\<lparr>ctJobs := ctJobs db @ [\<lparr>jwJob = columns j, jwCreated = now, jwUpdated = now\<rparr>]\<rparr>) db)"

definition CreateJob :: "store_env \<Rightarrow> job \<Rightarrow> catalog \<Rightarrow> (goerr + job) \<times> catalog" where
  "CreateJob E j db =
     (let j = job_ApplyDefaults j; what = ''creating job '' @ fmt_q (seQuote E) (jbName j) in
      case job_Validate (seQuote E) (seCron E) j of
        Some e \<Rightarrow> (Inl e, db)
      | None \<Rightarrow>
          in_tx db
            (bind_err (seIDs E 0) (\<lambda>i.
             let j = RefreshNextRun (seQuote E) (seCron E) (seClock E 1) (j\<lparr>jbID := i\<rparr>) in
             bind_err (barrier (seFault E Begin) what) (\<lambda>_.
             bind_err (taken_or E ''job'' (jbName j) what (insert_job E j db)) (\<lambda>db.
             bind_err (insertJobChildren E 1 1 j db) (\<lambda>(j, db).
             bind_err (barrier (seFault E Commit) what) (\<lambda>_. Inr (j, db))))))))"

definition jobDestinations :: "goerr option \<Rightarrow> string \<Rightarrow> catalog \<Rightarrow> goerr + job_destination list" where
  "jobDestinations fault jobID db =
     (case fault of
        Some e \<Rightarrow> Inl (wrap (''loading the destinations of job '' @ jobID @ '': '') e)
      | None \<Rightarrow> Inr (map dwDest (sort_slice (\<lambda>a b. dwPosition a < dwPosition b) (filter (\<lambda>r. dwJobID r = jobID) (ctDests db)))))"

definition ListFilterRules :: "goerr option \<Rightarrow> string \<Rightarrow> catalog \<Rightarrow> goerr + filter_rule list" where
  "ListFilterRules fault jobID db =
     (case fault of
        Some e \<Rightarrow> Inl (wrap (''loading the filter rules of job '' @ jobID @ '': '') e)
      | None \<Rightarrow>
          Inr (map wrRule (sort_slice
                 (\<lambda>a b. wrPosition a < wrPosition b \<or> wrPosition a = wrPosition b \<and> go_string_less (frID (wrRule a)) (frID (wrRule b)))
                 (filter (\<lambda>r. wrJobID r = jobID) (ctRules db)))))"

definition load_children :: "store_env \<Rightarrow> nat \<Rightarrow> job \<Rightarrow> catalog \<Rightarrow> goerr + job" where
  "load_children E k j db =
     bind_err (jobDestinations (seFault E (Query k)) (jbID j) db) (\<lambda>ds.
     bind_err (ListFilterRules (seFault E (Query (Suc k))) (jbID j) db) (\<lambda>fs.
     Inr (j\<lparr>jbDestinations := ds, jbFilters := fs\<rparr>)))"

definition job_row_of :: "string \<Rightarrow> catalog \<Rightarrow> job_row option" where
  "job_row_of i db = find (\<lambda>r. jbID (jwJob r) = i) (ctJobs db)"

definition GetJob :: "store_env \<Rightarrow> string \<Rightarrow> catalog \<Rightarrow> goerr + job" where
  "GetJob E i db =
     (case seFault E (Query 0) of
        Some e \<Rightarrow> Inl (wrap (''loading job '' @ i @ '': '') e)
      | None \<Rightarrow>
          (case job_row_of i db of
             None \<Rightarrow> Inl (new_error (''job '' @ i @ '': not found'') [ErrNotFound])
           | Some r \<Rightarrow> load_children E 1 (jwJob r) db))"

fun load_jobs :: "store_env \<Rightarrow> nat \<Rightarrow> job list \<Rightarrow> catalog \<Rightarrow> goerr + job list" where
  "load_jobs E k [] db = Inr []"
| "load_jobs E k (j # js) db =
     bind_err (load_children E k j db) (\<lambda>j. bind_err (load_jobs E (k + 2) js db) (\<lambda>js. Inr (j # js)))"

definition ListJobs :: "store_env \<Rightarrow> catalog \<Rightarrow> goerr + job list" where
  "ListJobs E db =
     (case seFault E (Query 0) of
        Some e \<Rightarrow> Inl (wrap ''listing jobs: '' e)
      | None \<Rightarrow> load_jobs E 1 (map jwJob (sort_slice (newest_first jwCreated (jbID \<circ> jwJob)) (ctJobs db))) db)"

definition update_job :: "store_env \<Rightarrow> job \<Rightarrow> catalog \<Rightarrow> goerr + catalog" where
  "update_job E j db =
     statement (seFault E (Exec 0))
       [reject_if (list_ex (\<lambda>r. jbID (jwJob r) \<noteq> jbID j \<and> jbName (jwJob r) = jbName j) (ctJobs db)) (unique_text ''jobs.name''),
        reject_if (jbSourceTarget j \<notin> set (target_ids db)) foreign_key_text]
       (\<lambda>db. db\<lparr>ctJobs := update_where (\<lambda>r. jbID (jwJob r) = jbID j) (\<lambda>r. r\<lparr>jwJob := columns j, jwUpdated := seClock E 0\<rparr>) (ctJobs db)\<rparr>) db"

definition drop_dests :: "string \<Rightarrow> catalog \<Rightarrow> catalog" where
  "drop_dests i db = db\<lparr>ctDests := filter (\<lambda>r. dwJobID r \<noteq> i) (ctDests db)\<rparr>"

definition drop_rules :: "string \<Rightarrow> catalog \<Rightarrow> catalog" where
  "drop_rules i db = db\<lparr>ctRules := filter (\<lambda>r. wrJobID r \<noteq> i) (ctRules db)\<rparr>"

definition UpdateJob :: "store_env \<Rightarrow> string \<Rightarrow> job \<Rightarrow> catalog \<Rightarrow> (goerr + job) \<times> catalog" where
  "UpdateJob E i j db =
     (let j = job_ApplyDefaults j; what = ''updating job '' @ fmt_q (seQuote E) (jbName j) in
      case job_Validate (seQuote E) (seCron E) j of
        Some e \<Rightarrow> (Inl e, db)
      | None \<Rightarrow>
          in_tx db
            (bind_err (GetJob E i db) (\<lambda>existing.
             let j = RefreshNextRun (seQuote E) (seCron E) (seClock E 1) (j\<lparr>jbID := jbID existing\<rparr>);
                 name = fmt_q (seQuote E) (jbName j) in
             bind_err (barrier (seFault E Begin) what) (\<lambda>_.
             bind_err (taken_or E ''job'' (jbName j) what (update_job E j db)) (\<lambda>db.
             bind_err (in_context (''updating the destinations of job '' @ name @ '': '') (statement (seFault E (Exec 1)) [] (drop_dests (jbID j)) db)) (\<lambda>db.
             bind_err (in_context (''updating the filters of job '' @ name @ '': '') (statement (seFault E (Exec 2)) [] (drop_rules (jbID j)) db)) (\<lambda>db.
             bind_err (insertJobChildren E 3 0 j db) (\<lambda>(j, db).
             bind_err (barrier (seFault E Commit) what) (\<lambda>_. Inr (j, db))))))))))"

text \<open>Deleting a run takes its destinations and events with it; deleting a job its destinations,
  rules and callbacks.\<close>

definition runs_of :: "string \<Rightarrow> catalog \<Rightarrow> string list" where
  "runs_of jobID db = map rrID (filter (\<lambda>r. rrJobID r = jobID) (rtRuns (ctRuns db)))"

definition drop_runs :: "string \<Rightarrow> catalog \<Rightarrow> catalog" where
  "drop_runs jobID db =
     (let gone = runs_of jobID db in
      db\<lparr>ctRuns := (ctRuns db)\<lparr>rtRuns := filter (\<lambda>r. rrJobID r \<noteq> jobID) (rtRuns (ctRuns db)),
                              rtDests := filter (\<lambda>r. rdRunID r \<notin> set gone) (rtDests (ctRuns db))\<rparr>,
         ctEvents := (ctEvents db)\<lparr>etRows := filter (\<lambda>e. erRunID e \<notin> set gone) (etRows (ctEvents db))\<rparr>\<rparr>)"

definition drop_job :: "string \<Rightarrow> catalog \<Rightarrow> catalog" where
  "drop_job i db =
     (drop_rules i (drop_dests i db))\<lparr>ctJobs := filter (\<lambda>r. jbID (jwJob r) \<noteq> i) (ctJobs db),
        ctHooks := filter (\<lambda>w. i = [] \<or> whJobID w \<noteq> i) (ctHooks db)\<rparr>"

definition DeleteJob :: "store_env \<Rightarrow> string \<Rightarrow> catalog \<Rightarrow> goerr option \<times> catalog" where
  "DeleteJob E i db =
     (let what = ''deleting job '' @ i in
      case bind_err (barrier (seFault E Begin) what) (\<lambda>_.
           bind_err (in_context (''deleting the run history of job '' @ i @ '': '') (statement (seFault E (Exec 0)) [] (drop_runs i) db)) (\<lambda>db1.
           bind_err (in_context (what @ '': '') (statement (seFault E (Exec 1)) [] (drop_job i) db1)) (\<lambda>db2.
           bind_err (if i \<in> set (job_ids db) then Inr () else Inl (missing_row i)) (\<lambda>_.
           bind_err (barrier (seFault E Commit) what) (\<lambda>_. Inr db2))))) of
        Inl e \<Rightarrow> (Some e, db)
      | Inr db' \<Rightarrow> (None, db'))"

definition CountRuns :: "goerr option \<Rightarrow> string \<Rightarrow> catalog \<Rightarrow> goerr + nat" where
  "CountRuns fault jobID db =
     (case fault of
        Some e \<Rightarrow> Inl (wrap (''counting the runs of job '' @ jobID @ '': '') e)
      | None \<Rightarrow> Inr (length (runs_of jobID db)))"


section \<open>Global exclusions\<close>

definition ListGlobalFilterRules :: "goerr option \<Rightarrow> catalog \<Rightarrow> goerr + global_rule list" where
  "ListGlobalFilterRules fault db =
     (case fault of
        Some e \<Rightarrow> Inl (wrap ''loading the global filter rules: '' e)
      | None \<Rightarrow>
          Inr (map gwRule (sort_slice
                 (\<lambda>a b. gwPosition a < gwPosition b \<or> gwPosition a = gwPosition b \<and> go_string_less (grID (gwRule a)) (grID (gwRule b)))
                 (ctGlobals db))))"

fun check_globals :: "(string \<Rightarrow> string) \<Rightarrow> nat \<Rightarrow> global_rule list \<Rightarrow> goerr option" where
  "check_globals uq i [] = None"
| "check_globals uq i (g # gs) =
     first_error [map_option (wrap (''global filter rule '' @ fmt_nat (Suc i) @ '': '')) (global_Validate uq (global_ApplyDefaults g)),
       check_globals uq (Suc i) gs]"

fun insert_globals :: "store_env \<Rightarrow> nat \<Rightarrow> global_rule list \<Rightarrow> catalog \<Rightarrow> goerr + catalog" where
  "insert_globals E i [] db = Inr db"
| "insert_globals E i (g # gs) db =
     bind_err (seIDs E i) (\<lambda>n.
     bind_err (in_context ''adding a global filter rule: ''
       (statement (seFault E (Exec (Suc i)))
          [reject_if (n \<in> (grID \<circ> gwRule) ` set (ctGlobals db)) (unique_text ''global_filter_rules.id'')]
          (\<lambda>db. db\<lparr>ctGlobals := ctGlobals db @ [\<lparr>gwRule = g\<lparr>grID := n\<rparr>, gwPosition = i, gwCreated = seClock E 0\<rparr>]\<rparr>) db))
     (insert_globals E (Suc i) gs))"

definition ReplaceGlobalFilterRules :: "store_env \<Rightarrow> global_rule list \<Rightarrow> catalog \<Rightarrow> goerr option \<times> catalog" where
  "ReplaceGlobalFilterRules E gs db =
     (let what = ''replacing the global filter rules'' in
      case check_globals (seQuote E) 0 gs of
        Some e \<Rightarrow> (Some e, db)
      | None \<Rightarrow>
          (case bind_err (barrier (seFault E Begin) what) (\<lambda>_.
                bind_err (in_context ''clearing the global filter rules: ''
                  (statement (seFault E (Exec 0)) [] (\<lambda>db. db\<lparr>ctGlobals := []\<rparr>) db)) (\<lambda>db.
                bind_err (insert_globals E 0 (map global_ApplyDefaults gs) db) (\<lambda>db.
                bind_err (barrier (seFault E Commit) what) (\<lambda>_. Inr db)))) of
             Inl e \<Rightarrow> (Some e, db)
           | Inr db' \<Rightarrow> (None, db')))"

end
