(* ===== verification/Catalog_Props.thy ===== *)
theory Catalog_Props
  imports Catalog
begin

text \<open>
  The invariant of the tables: the rows the statements on a job's children leave, the well-formedness
  of a catalogue (keys, references and the order of the children), and that every statement keeps it
  whatever fails. What it gives for jobs is in \<open>Catalog_Jobs\<close>.
\<close>

section \<open>Saving the children of a job\<close>

lemma sort_slice_sorted_id: "sorted_wrt (\<lambda>a b. \<not> lt b a) xs \<Longrightarrow> sort_slice lt xs = xs"
proof (induction xs)
  case (Cons x xs)
  then show ?case by (cases xs) auto
qed simp

lemma positions_sorted:
  assumes "map pos rows = [i..<n]" "\<And>a b. lt b a \<Longrightarrow> pos b \<le> (pos a :: nat)"
  shows "sort_slice lt rows = rows"
proof (rule sort_slice_sorted_id)
  have "sorted_wrt (<) (map pos rows)" unfolding assms(1) by simp
  then have "sorted_wrt (\<lambda>a b. pos a < pos b) rows" by (simp add: sorted_wrt_map)
  then show "sorted_wrt (\<lambda>a b. \<not> lt b a) rows" by (rule sorted_wrt_mono_rel [rotated]) (meson assms(2) not_le)
qed

lemma insert_dests_Inr:
  assumes "insert_dests E j k b i ds db = Inr db'"
  shows "\<exists>rows. db' = db\<lparr>ctDests := ctDests db @ rows\<rparr> \<and> map dwDest rows = ds \<and> map dwPosition rows = [i..<i + length ds]
    \<and> (\<forall>r \<in> set rows. dwJobID r = jbID j) \<and> jdTarget ` set ds \<subseteq> set (target_ids db)
    \<and> (ds = [] \<or> jbID j \<in> set (job_ids db))"
  using assms
proof (induction ds arbitrary: i db)
  case (Cons d ds)
  obtain n where n: "seIDs E (b + i) = Inr n" "jbID j \<in> set (job_ids db)" "jdTarget d \<in> set (target_ids db)"
    and rest: "insert_dests E j k b (Suc i) ds
      (db\<lparr>ctDests := ctDests db @ [\<lparr>dwID = n, dwJobID = jbID j, dwDest = d, dwPosition = i\<rparr>]\<rparr>) = Inr db'"
    using Cons.prems by (auto simp: step_Inr split: if_splits)
  from Cons.IH [OF rest] obtain rows where r: "db' = db\<lparr>ctDests := ctDests db @ \<lparr>dwID = n, dwJobID = jbID j, dwDest = d, dwPosition = i\<rparr> # rows\<rparr>"
    "map dwDest rows = ds" "map dwPosition rows = [Suc i..<Suc i + length ds]" "\<forall>r \<in> set rows. dwJobID r = jbID j"
    "jdTarget ` set ds \<subseteq> set (target_ids db)"
    by auto
  have "[i..<i + length (d # ds)] = i # [Suc i..<Suc i + length ds]" by (simp add: upt_rec)
  then show ?case
    using r n(2,3) by (intro exI [of _ "\<lparr>dwID = n, dwJobID = jbID j, dwDest = d, dwPosition = i\<rparr> # rows"]) simp
qed simp

definition unnumbered :: "filter_rule \<Rightarrow> filter_rule" where
  "unnumbered f = f\<lparr>frID := []\<rparr>"

lemma unnumbered_ID [simp]: "unnumbered (f\<lparr>frID := i\<rparr>) = unnumbered f"
  by (simp add: unnumbered_def)

lemma insert_rules_Inr:
  assumes "insert_rules E jobID k b i fs db = Inr (fs', db')"
  shows "\<exists>rows. db' = db\<lparr>ctRules := ctRules db @ rows\<rparr> \<and> map wrRule rows = fs' \<and> map wrPosition rows = [i..<i + length fs]
    \<and> (\<forall>r \<in> set rows. wrJobID r = jobID) \<and> map unnumbered fs' = map (unnumbered \<circ> rule_ApplyDefaults) fs
    \<and> (fs = [] \<or> jobID \<in> set (job_ids db))"
  using assms
proof (induction fs arbitrary: i db fs')
  case (Cons f fs)
  obtain n gs where n: "jobID \<in> set (job_ids db)" "fs' = (rule_ApplyDefaults f)\<lparr>frID := n\<rparr> # gs"
    and rest: "insert_rules E jobID k b (Suc i) fs (db\<lparr>ctRules := ctRules db @ [\<lparr>wrJobID = jobID,
      wrRule = (rule_ApplyDefaults f)\<lparr>frID := n\<rparr>, wrPosition = i, wrCreated = seClock E (2 + i)\<rparr>]\<rparr>) = Inr (gs, db')"
    using Cons.prems by (auto simp: insertFilterRule_def step_Inr Let_def split: option.splits if_splits)
  let ?row = "\<lparr>wrJobID = jobID, wrRule = (rule_ApplyDefaults f)\<lparr>frID := n\<rparr>, wrPosition = i, wrCreated = seClock E (2 + i)\<rparr>"
  from Cons.IH [OF rest] obtain rows where r: "db' = db\<lparr>ctRules := ctRules db @ ?row # rows\<rparr>" "map wrRule rows = gs"
    "map wrPosition rows = [Suc i..<Suc i + length fs]" "\<forall>r \<in> set rows. wrJobID r = jobID"
    "map unnumbered gs = map (unnumbered \<circ> rule_ApplyDefaults) fs"
    by auto
  have "[i..<i + length (f # fs)] = i # [Suc i..<Suc i + length fs]" by (simp add: upt_rec)
  then show ?case using r n by (intro exI [of _ "?row # rows"]) simp
qed simp

lemma insertJobChildren_Inr:
  assumes "insertJobChildren E k b j db = Inr (j', db')"
  shows "\<exists>ds rs. db' = db\<lparr>ctDests := ctDests db @ ds, ctRules := ctRules db @ rs\<rparr>
    \<and> map dwDest ds = jbDestinations j \<and> map dwPosition ds = [0..<length (jbDestinations j)] \<and> (\<forall>r \<in> set ds. dwJobID r = jbID j)
    \<and> map wrRule rs = jbFilters j' \<and> map wrPosition rs = [0..<length (jbFilters j)] \<and> (\<forall>r \<in> set rs. wrJobID r = jbID j)
    \<and> jdTarget ` set (jbDestinations j) \<subseteq> set (target_ids db)
    \<and> j' = j\<lparr>jbFilters := jbFilters j'\<rparr> \<and> map unnumbered (jbFilters j') = map (unnumbered \<circ> rule_ApplyDefaults) (jbFilters j)"
proof -
  obtain db1 fs where 1: "insert_dests E j k b 0 (jbDestinations j) db = Inr db1"
    and 2: "insert_rules E (jbID j) (k + length (jbDestinations j)) (b + length (jbDestinations j)) 0 (jbFilters j) db1 = Inr (fs, db')"
    and j': "j' = j\<lparr>jbFilters := fs\<rparr>"
    using assms by (auto simp: insertJobChildren_def bind_err_Inr Let_def)
  obtain ds where ds: "db1 = db\<lparr>ctDests := ctDests db @ ds\<rparr>" "map dwDest ds = jbDestinations j"
    "map dwPosition ds = [0..<length (jbDestinations j)]" "\<forall>r \<in> set ds. dwJobID r = jbID j"
    "jdTarget ` set (jbDestinations j) \<subseteq> set (target_ids db)"
    using insert_dests_Inr [OF 1] by auto
  obtain rs where "db' = db1\<lparr>ctRules := ctRules db1 @ rs\<rparr>" "map wrRule rs = fs" "map wrPosition rs = [0..<length (jbFilters j)]"
    "\<forall>r \<in> set rs. wrJobID r = jbID j" "map unnumbered fs = map (unnumbered \<circ> rule_ApplyDefaults) (jbFilters j)"
    using insert_rules_Inr [OF 2] by auto
  then show ?thesis using ds j' by (intro exI [of _ ds] exI [of _ rs]) simp
qed

section \<open>Jobs that differ in what the store assigns\<close>

text \<open>The same job but for its ID, its next firing and the IDs of its rules.\<close>

definition same_job :: "job \<Rightarrow> job \<Rightarrow> bool" where
  "same_job a b \<longleftrightarrow> b = a\<lparr>jbID := jbID b, jbNextRunAt := jbNextRunAt b, jbFilters := jbFilters b\<rparr>
     \<and> map unnumbered (jbFilters b) = map unnumbered (jbFilters a)"

lemma rule_Validate_unnumbered: "rule_Validate uq (unnumbered f) = rule_Validate uq f"
  unfolding rule_Validate_def scope_check_def source_check_def unnumbered_def by (cases f) (simp only: filter_rule.simps)

lemma rule_Validate_same: "unnumbered f = unnumbered g \<Longrightarrow> rule_Validate uq f = rule_Validate uq g"
  by (metis rule_Validate_unnumbered)

lemma unnumbered_same: "unnumbered f = unnumbered g \<Longrightarrow> frScope f = frScope g \<and> frScopeTarget f = frScopeTarget g"
  by (cases f; cases g) (simp add: unnumbered_def)

lemma check_filters_same:
  "map unnumbered fs = map unnumbered gs \<Longrightarrow> hasDestination a = hasDestination b
   \<Longrightarrow> check_filters uq a i fs = check_filters uq b i gs"
proof (induction fs arbitrary: i gs)
  case (Cons f fs)
  then obtain g gs' where g: "gs = g # gs'" "unnumbered f = unnumbered g" "map unnumbered fs = map unnumbered gs'" by (cases gs) auto
  show ?case using Cons.IH [OF g(3) Cons.prems(2)] rule_Validate_same [OF g(2)] unnumbered_same [OF g(2)] Cons.prems(2)
    by (simp add: g(1))
qed simp

lemma check_destinations_same:
  "jbSourceTarget a = jbSourceTarget b \<Longrightarrow> jbSourceSubpath a = jbSourceSubpath b
   \<Longrightarrow> check_destinations uq a seen ds = check_destinations uq b seen ds"
  by (induction ds arbitrary: seen) simp_all

lemma job_Validate_same:
  assumes "same_job a b"
  shows "job_Validate uq cron b = job_Validate uq cron a"
proof -
  obtain i t fs where b: "b = a\<lparr>jbID := i, jbNextRunAt := t, jbFilters := fs\<rparr>" "map unnumbered fs = map unnumbered (jbFilters a)"
    using assms unfolding same_job_def by blast
  have "check_destinations uq b seen ds = check_destinations uq a seen ds" for seen ds
    by (rule check_destinations_same) (simp_all add: b(1))
  moreover have "check_filters uq b 0 fs = check_filters uq a 0 (jbFilters a)"
    by (rule check_filters_same [OF b(2)]) (simp add: b(1) hasDestination_def fun_eq_iff)
  moreover have "jbName b = jbName a" "jbSourceTarget b = jbSourceTarget a" "jbSourceSubpath b = jbSourceSubpath a" "jbMode b = jbMode a"
    "jbCompare b = jbCompare a" "jbToleranceSec b = jbToleranceSec a" "jbWorkers b = jbWorkers a" "jbOnError b = jbOnError a"
    "jbDeletePolicy b = jbDeletePolicy a" "jbUnavailable b = jbUnavailable a" "jbPromptTimeoutSec b = jbPromptTimeoutSec a"
    "jbPromptFallback b = jbPromptFallback a" "jbCreateDestDirs b = jbCreateDestDirs a" "jbScheduleCron b = jbScheduleCron a"
    "jbDestinations b = jbDestinations a" "jbFilters b = fs"
    by (simp_all add: b(1))
  ultimately show ?thesis unfolding job_Validate_def by (simp only:)
qed

lemma RefreshNextRun_same: "\<exists>t. RefreshNextRun uq cron now j = j\<lparr>jbNextRunAt := t\<rparr>"
proof -
  show ?thesis
    by (rule exI [of _ "jbNextRunAt (RefreshNextRun uq cron now j)"]) (simp add: RefreshNextRun_def split: sum.split)
qed

lemma rule_ApplyDefaults_twice: "rule_ApplyDefaults (rule_ApplyDefaults f) = rule_ApplyDefaults f"
  by (simp add: rule_ApplyDefaults_def or_default_def)

lemma defaulted_rules:
  "map unnumbered fs = map (unnumbered \<circ> rule_ApplyDefaults) (jbFilters (job_ApplyDefaults j))
   \<Longrightarrow> map unnumbered fs = map unnumbered (jbFilters (job_ApplyDefaults j))"
  by (simp add: job_ApplyDefaults_def rule_ApplyDefaults_twice)

section \<open>Reading back\<close>

definition dests_of :: "string \<Rightarrow> catalog \<Rightarrow> job_destination list" where
  "dests_of i db = map dwDest (sort_slice (\<lambda>a b. dwPosition a < dwPosition b) (filter (\<lambda>r. dwJobID r = i) (ctDests db)))"

definition rules_of :: "string \<Rightarrow> catalog \<Rightarrow> filter_rule list" where
  "rules_of i db = map wrRule (sort_slice
     (\<lambda>a b. wrPosition a < wrPosition b \<or> wrPosition a = wrPosition b \<and> go_string_less (frID (wrRule a)) (frID (wrRule b)))
     (filter (\<lambda>r. wrJobID r = i) (ctRules db)))"

definition read_job :: "catalog \<Rightarrow> job \<Rightarrow> job" where
  "read_job db j = j\<lparr>jbDestinations := dests_of (jbID j) db, jbFilters := rules_of (jbID j) db\<rparr>"

abbreviation faultless :: "store_env \<Rightarrow> bool" where "faultless E \<equiv> seFault E = (\<lambda>_. None)"

lemma GetJob_faultless:
  "faultless E \<Longrightarrow> GetJob E i db =
     (case job_row_of i db of None \<Rightarrow> Inl (new_error (''job '' @ i @ '': not found'') [ErrNotFound]) | Some r \<Rightarrow> Inr (read_job db (jwJob r)))"
  by (simp add: GetJob_def load_children_def jobDestinations_def ListFilterRules_def read_job_def dests_of_def rules_of_def bind_err_def
      split: option.split)

lemma GetJob_found: "faultless E \<Longrightarrow> GetJob E i db = Inr j \<Longrightarrow> \<exists>r \<in> set (ctJobs db). jbID (jwJob r) = i \<and> j = read_job db (jwJob r)"
  by (auto simp: GetJob_faultless job_row_of_def find_Some_iff split: option.splits)

lemma find_mapped_key: "distinct (map f xs) \<Longrightarrow> x \<in> set xs \<Longrightarrow> find (\<lambda>y. f y = f x) xs = Some x"
  by (induction xs) (auto simp: image_iff)

lemma children_appended:
  assumes "db' = db\<lparr>ctDests := ctDests db @ ds, ctRules := ctRules db @ rs\<rparr>"
    and "map dwPosition ds = [0..<n]" "\<forall>r \<in> set ds. dwJobID r = i" "map wrPosition rs = [0..<m]" "\<forall>r \<in> set rs. wrJobID r = i"
    and "i \<notin> dwJobID ` set (ctDests db)" "i \<notin> wrJobID ` set (ctRules db)"
  shows "dests_of i db' = map dwDest ds" "rules_of i db' = map wrRule rs"
    "i' \<noteq> i \<Longrightarrow> dests_of i' db' = dests_of i' db \<and> rules_of i' db' = rules_of i' db"
proof -
  have none: "filter (\<lambda>r. dwJobID r = i) (ctDests db) = []" "filter (\<lambda>r. wrJobID r = i) (ctRules db) = []"
    using assms(6,7) by (auto simp: filter_empty_conv)
  show "dests_of i db' = map dwDest ds"
    using assms(1,3) none positions_sorted [OF assms(2), of "\<lambda>a b. dwPosition a < dwPosition b"] by (simp add: dests_of_def)
  have "sort_slice (\<lambda>a b. wrPosition a < wrPosition b \<or> wrPosition a = wrPosition b \<and> go_string_less (frID (wrRule a)) (frID (wrRule b))) rs = rs"
    by (rule positions_sorted [OF assms(4)]) auto
  then show "rules_of i db' = map wrRule rs" using assms(1,5) none by (simp add: rules_of_def)
  show "dests_of i' db' = dests_of i' db \<and> rules_of i' db' = rules_of i' db" if "i' \<noteq> i"
  proof -
    have "filter (\<lambda>r. dwJobID r = i') ds = []" "filter (\<lambda>r. wrJobID r = i') rs = []" using assms(3,5) that by (auto simp: filter_empty_conv)
    then show ?thesis using assms(1) by (simp add: dests_of_def rules_of_def)
  qed
qed

lemma saved_children:
  assumes "insertJobChildren E k b j db = Inr (j', db')" "jbID j \<notin> dwJobID ` set (ctDests db)" "jbID j \<notin> wrJobID ` set (ctRules db)"
  shows "read_job db' (columns j) = j'" "i \<noteq> jbID j \<Longrightarrow> dests_of i db' = dests_of i db \<and> rules_of i db' = rules_of i db"
proof -
  obtain ds rs where d: "db' = db\<lparr>ctDests := ctDests db @ ds, ctRules := ctRules db @ rs\<rparr>"
    "map dwDest ds = jbDestinations j" "map dwPosition ds = [0..<length (jbDestinations j)]" "\<forall>r \<in> set ds. dwJobID r = jbID j"
    "map wrRule rs = jbFilters j'" "map wrPosition rs = [0..<length (jbFilters j)]" "\<forall>r \<in> set rs. wrJobID r = jbID j"
    "j' = j\<lparr>jbFilters := jbFilters j'\<rparr>"
    using insertJobChildren_Inr [OF assms(1)] by blast
  note c = children_appended [OF d(1,3,4,6,7) assms(2,3)]
  have "read_job db' (columns j) = j\<lparr>jbDestinations := jbDestinations j, jbFilters := jbFilters j'\<rparr>"
    using c(1,2) d(2,5) by (simp add: read_job_def columns_def)
  also have "\<dots> = j\<lparr>jbFilters := jbFilters j'\<rparr>" by simp
  finally show "read_job db' (columns j) = j'" using d(8) by simp
  show "i \<noteq> jbID j \<Longrightarrow> dests_of i db' = dests_of i db \<and> rules_of i db' = rules_of i db" by (rule c(3))
qed

lemma read_job_same: "dests_of (jbID j) db' = dests_of (jbID j) db \<Longrightarrow> rules_of (jbID j) db' = rules_of (jbID j) db
   \<Longrightarrow> read_job db' j = read_job db j"
  by (simp add: read_job_def)

section \<open>What a successful change is made of\<close>

lemma CreateJob_Inr:
  assumes "CreateJob E j db = (Inr j', db')"
  shows "\<exists>j1. same_job (job_ApplyDefaults j) j1 \<and> job_Validate (seQuote E) (seCron E) (job_ApplyDefaults j) = None
    \<and> jbID j1 \<notin> set (job_ids db) \<and> jbName j1 \<notin> set (job_names db) \<and> jbSourceTarget j1 \<in> set (target_ids db)
    \<and> insertJobChildren E 1 1 j1 (db\<lparr>ctJobs := ctJobs db @ [\<lparr>jwJob = columns j1, jwCreated = seClock E 0, jwUpdated = seClock E 0\<rparr>]\<rparr>) = Inr (j', db')"
proof -
  obtain i where i: "job_Validate (seQuote E) (seCron E) (job_ApplyDefaults j) = None"
    and r: "(let j = RefreshNextRun (seQuote E) (seCron E) (seClock E 1) ((job_ApplyDefaults j)\<lparr>jbID := i\<rparr>) in
             bind_err (barrier (seFault E Begin) (''creating job '' @ fmt_q (seQuote E) (jbName (job_ApplyDefaults j)))) (\<lambda>_.
             bind_err (taken_or E ''job'' (jbName j) (''creating job '' @ fmt_q (seQuote E) (jbName (job_ApplyDefaults j))) (insert_job E j db)) (\<lambda>db.
             bind_err (insertJobChildren E 1 1 j db) (\<lambda>(j, db).
             bind_err (barrier (seFault E Commit) (''creating job '' @ fmt_q (seQuote E) (jbName (job_ApplyDefaults j)))) (\<lambda>_. Inr (j, db)))))) = Inr (j', db')"
    using assms by (auto simp: CreateJob_def Let_def in_tx_Inr bind_err_Inr split: option.splits)
  obtain t where t: "RefreshNextRun (seQuote E) (seCron E) (seClock E 1) ((job_ApplyDefaults j)\<lparr>jbID := i\<rparr>) = (job_ApplyDefaults j)\<lparr>jbID := i, jbNextRunAt := t\<rparr>"
    using RefreshNextRun_same by blast
  show ?thesis
    using r i unfolding t Let_def
    by (intro exI [of _ "(job_ApplyDefaults j)\<lparr>jbID := i, jbNextRunAt := t\<rparr>"])
      (auto simp: bind_err_Inr insert_job_def statement_Inr same_job_def Let_def split: if_splits)
qed

lemma UpdateJob_Inr:
  assumes "UpdateJob E i j db = (Inr j', db')"
  shows "\<exists>j1 db1. same_job (job_ApplyDefaults j) j1 \<and> job_Validate (seQuote E) (seCron E) (job_ApplyDefaults j) = None
    \<and> jbID j1 = i \<and> i \<in> set (job_ids db) \<and> jbSourceTarget j1 \<in> set (target_ids db)
    \<and> (\<forall>r \<in> set (ctJobs db). jbID (jwJob r) \<noteq> i \<longrightarrow> jbName (jwJob r) \<noteq> jbName j1)
    \<and> db1 = db\<lparr>ctJobs := update_where (\<lambda>r. jbID (jwJob r) = i) (\<lambda>r. r\<lparr>jwJob := columns j1, jwUpdated := seClock E 0\<rparr>) (ctJobs db)\<rparr>
    \<and> insertJobChildren E 3 0 j1 (drop_rules i (drop_dests i db1)) = Inr (j', db')"
proof -
  obtain old where v: "job_Validate (seQuote E) (seCron E) (job_ApplyDefaults j) = None" and old: "GetJob E i db = Inr old"
    and r: "(let j = RefreshNextRun (seQuote E) (seCron E) (seClock E 1) ((job_ApplyDefaults j)\<lparr>jbID := jbID old\<rparr>);
                 name = fmt_q (seQuote E) (jbName j) in
             bind_err (barrier (seFault E Begin) (''updating job '' @ fmt_q (seQuote E) (jbName (job_ApplyDefaults j)))) (\<lambda>_.
             bind_err (taken_or E ''job'' (jbName j) (''updating job '' @ fmt_q (seQuote E) (jbName (job_ApplyDefaults j))) (update_job E j db)) (\<lambda>db.
             bind_err (in_context (''updating the destinations of job '' @ name @ '': '') (statement (seFault E (Exec 1)) [] (drop_dests (jbID j)) db)) (\<lambda>db.
             bind_err (in_context (''updating the filters of job '' @ name @ '': '') (statement (seFault E (Exec 2)) [] (drop_rules (jbID j)) db)) (\<lambda>db.
             bind_err (insertJobChildren E 3 0 j db) (\<lambda>(j, db).
             bind_err (barrier (seFault E Commit) (''updating job '' @ fmt_q (seQuote E) (jbName (job_ApplyDefaults j)))) (\<lambda>_. Inr (j, db)))))))) = Inr (j', db')"
    using assms by (auto simp: UpdateJob_def Let_def in_tx_Inr bind_err_Inr split: option.splits)
  have i: "jbID old = i" "i \<in> set (job_ids db)"
    using old by (auto simp: GetJob_def job_row_of_def find_Some_iff load_children_def bind_err_Inr split: option.splits)
  obtain t where t: "RefreshNextRun (seQuote E) (seCron E) (seClock E 1) ((job_ApplyDefaults j)\<lparr>jbID := i\<rparr>) = (job_ApplyDefaults j)\<lparr>jbID := i, jbNextRunAt := t\<rparr>"
    using RefreshNextRun_same by blast
  show ?thesis
    using r v i(2) unfolding i(1) t Let_def
    by (intro exI [of _ "(job_ApplyDefaults j)\<lparr>jbID := i, jbNextRunAt := t\<rparr>"])
      (auto simp: bind_err_Inr update_job_def statement_Inr same_job_def Let_def list_ex_iff split: if_splits)
qed

section \<open>Steps\<close>

text \<open>
  The operations with any faults and identifiers; and what the operations on runs, events and
  callbacks may do, whose references the schema checks too. The functions of other packages do not
  change.
\<close>

record world =
  wdQuote :: "string \<Rightarrow> string"
  wdLower :: "string \<Rightarrow> string"
  wdCron :: cron

definition of_world :: "world \<Rightarrow> store_env \<Rightarrow> bool" where
  "of_world W E \<longleftrightarrow> seQuote E = wdQuote W \<and> seLower E = wdLower W \<and> seCron E = wdCron W"

definition run_keys :: "run_tables \<Rightarrow> (string \<times> string) list \<times> (string \<times> string) list" where
  "run_keys t = (map (\<lambda>r. (rrID r, rrJobID r)) (rtRuns t), map (\<lambda>r. (rdRunID r, rdTarget r)) (rtDests t))"

inductive catalog_step :: "world \<Rightarrow> catalog \<Rightarrow> catalog \<Rightarrow> bool" for W :: world where
  target_made: "of_world W E \<Longrightarrow> catalog_step W db (snd (CreateTarget E t db))"
| target_changed: "of_world W E \<Longrightarrow> catalog_step W db (snd (UpdateTarget E t db))"
| dialect_noted: "of_world W E \<Longrightarrow> catalog_step W db (snd (SetNegotiatedVers E i vers db))"
| target_removed: "of_world W E \<Longrightarrow> catalog_step W db (snd (DeleteTarget E i db))"
| job_made: "of_world W E \<Longrightarrow> catalog_step W db (snd (CreateJob E j db))"
| job_changed: "of_world W E \<Longrightarrow> catalog_step W db (snd (UpdateJob E i j db))"
| job_removed: "of_world W E \<Longrightarrow> catalog_step W db (snd (DeleteJob E i db))"
| globals_replaced: "of_world W E \<Longrightarrow> catalog_step W db (snd (ReplaceGlobalFilterRules E gs db))"
| run_made: "CreateRun fault (Inr n) now j trig ds (ctRuns db) = (Inr r, rt) \<Longrightarrow> j \<in> set (job_ids db) \<Longrightarrow> set ds \<subseteq> set (target_ids db)
    \<Longrightarrow> catalog_step W db (db\<lparr>ctRuns := rt\<rparr>)"
| runs_changed: "run_keys rt = run_keys (ctRuns db) \<Longrightarrow> catalog_step W db (db\<lparr>ctRuns := rt\<rparr>)"
| events_changed: "erRunID ` set (etRows et) \<subseteq> rrID ` set (rtRuns (ctRuns db)) \<Longrightarrow> catalog_step W db (db\<lparr>ctEvents := et\<rparr>)"
| hooks_changed: "whJobID ` set hs \<subseteq> insert [] (set (job_ids db)) \<Longrightarrow> catalog_step W db (db\<lparr>ctHooks := hs\<rparr>)"

definition fresh_catalog :: catalog where
  "fresh_catalog = \<lparr>ctTargets = [], ctJobs = [], ctDests = [], ctRules = [], ctGlobals = [], ctHooks = [],
     ctRuns = \<lparr>rtRuns = [], rtDests = []\<rparr>, ctEvents = \<lparr>etRows = [], etNext = 1\<rparr>\<rparr>"

definition keys_ok :: "catalog \<Rightarrow> bool" where
  "keys_ok db \<longleftrightarrow> distinct (target_ids db) \<and> distinct (target_names_of db) \<and> distinct (job_ids db) \<and> distinct (job_names db)"

definition refs_ok :: "catalog \<Rightarrow> bool" where
  "refs_ok db \<longleftrightarrow> (jbSourceTarget \<circ> jwJob) ` set (ctJobs db) \<union> (jdTarget \<circ> dwDest) ` set (ctDests db) \<union> rdTarget ` set (rtDests (ctRuns db)) \<subseteq> set (target_ids db)
    \<and> dwJobID ` set (ctDests db) \<union> wrJobID ` set (ctRules db) \<union> rrJobID ` set (rtRuns (ctRuns db)) \<subseteq> set (job_ids db)
    \<and> whJobID ` set (ctHooks db) \<subseteq> insert [] (set (job_ids db))
    \<and> rdRunID ` set (rtDests (ctRuns db)) \<union> erRunID ` set (etRows (ctEvents db)) \<subseteq> rrID ` set (rtRuns (ctRuns db))"

definition valid_rows :: "world \<Rightarrow> catalog \<Rightarrow> bool" where
  "valid_rows W db \<longleftrightarrow> list_all (\<lambda>r. target_Validate (wdLower W) (wdQuote W) (twTarget r) = None) (ctTargets db)
    \<and> list_all (\<lambda>r. job_Validate (wdQuote W) (wdCron W) (read_job db (jwJob r)) = None) (ctJobs db)
    \<and> list_all (\<lambda>r. global_Validate (wdQuote W) (gwRule r) = None) (ctGlobals db)"

definition catalog_ok :: "world \<Rightarrow> catalog \<Rightarrow> bool" where
  "catalog_ok W db \<longleftrightarrow> keys_ok db \<and> refs_ok db \<and> valid_rows W db"

lemma fresh_ok: "catalog_ok W fresh_catalog"
  by (simp add: catalog_ok_def keys_ok_def refs_ok_def valid_rows_def fresh_catalog_def)

section \<open>The tables stay sound\<close>

lemma read_job_cong: "ctDests db' = ctDests db \<Longrightarrow> ctRules db' = ctRules db \<Longrightarrow> read_job db' = read_job db"
  by (simp add: read_job_def dests_of_def rules_of_def fun_eq_iff)

lemma target_Validate_ID: "target_Validate um uq (t\<lparr>tgID := i\<rparr>) = target_Validate um uq t"
  unfolding target_Validate_def validate_smb_def validate_local_def by (cases t) (simp only: target.simps)

lemma target_Validate_vers: "target_Validate um uq (t\<lparr>NegotiatedVers := v\<rparr>) = target_Validate um uq t"
  unfolding target_Validate_def validate_smb_def validate_local_def by (cases t) (simp only: target.simps)

lemma distinct_after_update:
  assumes "distinct (map key xs)" "distinct (map name xs)" "\<forall>x \<in> set xs. key x = k \<longrightarrow> name (f x) = n"
    "\<forall>x \<in> set xs. key x \<noteq> k \<longrightarrow> name x \<noteq> n"
  shows "distinct (map name (update_where (\<lambda>x. key x = k) f xs))"
  using assms
proof (induction xs)
  case (Cons x xs)
  let ?ys = "update_where (\<lambda>x. key x = k) f xs"
  have IH: "distinct (map name ?ys)" using Cons by simp
  have u: "update_where (\<lambda>x. key x = k) f (x # xs) = (if key x = k then f x else x) # ?ys" by (simp add: update_where_def)
  show ?case
  proof (cases "key x = k")
    case True
    then have o: "\<forall>y \<in> set xs. key y \<noteq> k" using Cons.prems(1) by (auto simp: image_iff)
    then have "?ys = xs" unfolding update_where_def by (intro map_idI) simp
    moreover have "name (f x) \<notin> name ` set xs" using Cons.prems(3,4) True o by (metis image_iff list.set_intros)
    ultimately show ?thesis using True IH u by simp
  next
    case False
    have "set (map name ?ys) \<subseteq> insert n (set (map name xs))" using Cons.prems(3) by (auto simp: update_where_def)
    moreover have "name x \<noteq> n" "name x \<notin> name ` set xs" using Cons.prems(2,4) False by simp_all
    ultimately have "name x \<notin> set (map name ?ys)" by auto
    then show ?thesis using False IH u by simp
  qed
qed (simp add: update_where_def)

lemma map_update_where_in: "\<forall>x \<in> set xs. P x \<longrightarrow> g (f x) = g x \<Longrightarrow> map g (update_where P f xs) = map g xs"
  by (simp add: update_where_def)

lemma set_update_where: "x \<in> set (update_where P f xs) \<Longrightarrow> \<exists>y \<in> set xs. x = (if P y then f y else y)"
  by (auto simp: update_where_def)

lemma ok_target_made:
  assumes "catalog_ok W db" "of_world W E"
  shows "catalog_ok W (snd (CreateTarget E t db))"
proof (cases "CreateTarget E t db")
  case (Pair r db')
  show ?thesis
  proof (cases r)
    case Inl
    then have "db' = db" using Pair by (auto simp: CreateTarget_def split: option.splits dest: in_tx_Inl)
    then show ?thesis using assms Pair by simp
  next
    case (Inr t')
    then obtain i where i: "target_Validate (wdLower W) (wdQuote W) t = None" "i \<notin> set (target_ids db)" "tgName t \<notin> set (target_names_of db)"
      "db' = db\<lparr>ctTargets := ctTargets db @ [\<lparr>twTarget = t\<lparr>tgID := i\<rparr>, twCreated = seClock E 0, twUpdated = seClock E 0\<rparr>]\<rparr>"
      using Pair assms(2) by (auto simp: CreateTarget_def of_world_def in_tx_Inr bind_err_Inr statement_Inr Let_def split: option.splits if_splits)
    then show ?thesis using assms(1) Pair read_job_cong [of db' db]
      by (auto simp: catalog_ok_def keys_ok_def refs_ok_def valid_rows_def target_Validate_ID)
  qed
qed

lemma ok_target_rows:
  assumes "catalog_ok W db" "map (tgID \<circ> twTarget) ts = target_ids db" "distinct (map (tgName \<circ> twTarget) ts)"
    "\<forall>r \<in> set ts. target_Validate (wdLower W) (wdQuote W) (twTarget r) = None"
  shows "catalog_ok W (db\<lparr>ctTargets := ts\<rparr>)"
proof -
  have "(tgID \<circ> twTarget) ` set ts = (tgID \<circ> twTarget) ` set (ctTargets db)" using assms(2) by (metis list.set_map)
  then show ?thesis using assms read_job_cong [of "db\<lparr>ctTargets := ts\<rparr>" db]
    by (simp add: catalog_ok_def keys_ok_def refs_ok_def valid_rows_def list_all_iff)
qed

lemma ok_target_changed:
  assumes "catalog_ok W db" "of_world W E"
  shows "catalog_ok W (snd (UpdateTarget E t db))"
proof (cases "snd (UpdateTarget E t db) = db")
  case False
  let ?ts = "update_where (same_key t) (\<lambda>r. r\<lparr>twTarget := t, twUpdated := seClock E 0\<rparr>) (ctTargets db)"
  have v: "target_Validate (wdLower W) (wdQuote W) t = None"
    and n: "\<forall>r \<in> set (ctTargets db). tgID (twTarget r) \<noteq> tgID t \<longrightarrow> tgName (twTarget r) = tgName t \<longrightarrow> \<not> list_ex (same_key t) (ctTargets db)"
    and d: "snd (UpdateTarget E t db) = db\<lparr>ctTargets := ?ts\<rparr>"
    using False assms(2)
    by (auto simp: UpdateTarget_def of_world_def taken_or_def statement_def list_ex_iff same_key_def split: option.splits sum.splits if_splits)
  have e: "list_ex (same_key t) (ctTargets db)"
  proof (rule ccontr)
    assume "\<not> list_ex (same_key t) (ctTargets db)"
    then have "?ts = ctTargets db" by (auto simp: update_where_def list_ex_iff intro: map_idI)
    then show False using False d by simp
  qed
  have k: "same_key t = (\<lambda>r. (tgID \<circ> twTarget) r = tgID t)" by (auto simp: same_key_def fun_eq_iff)
  have o: "distinct (target_ids db)" "distinct (target_names_of db)" using assms(1) by (simp_all add: catalog_ok_def keys_ok_def)
  show ?thesis unfolding d
  proof (rule ok_target_rows [OF assms(1)])
    show "map (tgID \<circ> twTarget) ?ts = target_ids db" by (rule map_update_where_in) (simp add: same_key_def)
    show "distinct (map (tgName \<circ> twTarget) ?ts)"
      unfolding k by (rule distinct_after_update [OF o, where n = "tgName t"]) (use n e in auto)
    show "\<forall>r \<in> set ?ts. target_Validate (wdLower W) (wdQuote W) (twTarget r) = None"
      using assms(1) v by (auto simp: catalog_ok_def valid_rows_def list_all_iff dest!: set_update_where)
  qed
qed (use assms in simp)

lemma ok_dialect_noted:
  assumes "catalog_ok W db"
  shows "catalog_ok W (snd (SetNegotiatedVers E i vers db))"
proof -
  let ?ts = "update_where (\<lambda>r. tgID (twTarget r) = i) (\<lambda>r. r\<lparr>twTarget := (twTarget r)\<lparr>NegotiatedVers := vers\<rparr>, twUpdated := seClock E 0\<rparr>) (ctTargets db)"
  have "catalog_ok W (db\<lparr>ctTargets := ?ts\<rparr>)"
  proof (rule ok_target_rows [OF assms])
    have "map (tgName \<circ> twTarget) ?ts = target_names_of db" by (rule map_update_where_in) simp
    then show "distinct (map (tgName \<circ> twTarget) ?ts)" using assms by (simp add: catalog_ok_def keys_ok_def)
    show "\<forall>r \<in> set ?ts. target_Validate (wdLower W) (wdQuote W) (twTarget r) = None"
      using assms by (auto simp: catalog_ok_def valid_rows_def list_all_iff target_Validate_vers dest!: set_update_where)
  qed (rule map_update_where_in, simp)
  then show ?thesis using assms by (simp add: SetNegotiatedVers_def sql_exec_def split: option.split)
qed

lemma distinct_map_filtered: "distinct (map f xs) \<Longrightarrow> distinct (map f (filter P xs))"
  by (induction xs) auto

lemma ok_target_removed:
  assumes "catalog_ok W db"
  shows "catalog_ok W (snd (DeleteTarget E i db))"
proof (cases "snd (DeleteTarget E i db) = db")
  case False
  have d: "snd (DeleteTarget E i db) = db\<lparr>ctTargets := filter (\<lambda>r. tgID (twTarget r) \<noteq> i) (ctTargets db)\<rparr>"
    and f: "i \<in> set (target_ids db) \<Longrightarrow> \<not> refers_to_target i db"
    using False by (auto simp: DeleteTarget_def in_context_def statement_def split: option.splits sum.splits if_splits)
  have "i \<notin> (jbSourceTarget \<circ> jwJob) ` set (ctJobs db) \<union> (jdTarget \<circ> dwDest) ` set (ctDests db) \<union> rdTarget ` set (rtDests (ctRuns db))"
    using f assms by (auto simp: catalog_ok_def refs_ok_def refers_to_target_def list_ex_iff)
  moreover have ids: "set (target_ids (snd (DeleteTarget E i db))) = set (target_ids db) - {i}" unfolding d by auto
  ultimately have "refs_ok (snd (DeleteTarget E i db))"
    using assms unfolding refs_ok_def ids catalog_ok_def by (simp add: d subset_Diff_insert)
  then show ?thesis using assms read_job_cong [of "snd (DeleteTarget E i db)" db]
    by (simp add: catalog_ok_def keys_ok_def valid_rows_def list_all_iff distinct_map_filtered d)
qed (use assms in simp)

lemma saved_job_same:
  assumes "same_job (job_ApplyDefaults j) j1" "insertJobChildren E k b j1 db = Inr (j', db')"
  shows "same_job (job_ApplyDefaults j) j'" "jbID j' = jbID j1"
proof -
  have c: "j' = j1\<lparr>jbFilters := jbFilters j'\<rparr>" "map unnumbered (jbFilters j') = map (unnumbered \<circ> rule_ApplyDefaults) (jbFilters j1)"
    using insertJobChildren_Inr [OF assms(2)] by blast+
  have "map unnumbered (map rule_ApplyDefaults (jbFilters j1)) = map unnumbered (map rule_ApplyDefaults (jbFilters (job_ApplyDefaults j)))"
  proof -
    have *: "unnumbered (rule_ApplyDefaults f) = rule_ApplyDefaults (unnumbered f)" for f
      by (simp add: unnumbered_def rule_ApplyDefaults_def)
    have "map unnumbered (jbFilters j1) = map unnumbered (jbFilters (job_ApplyDefaults j))" using assms(1) by (simp add: same_job_def)
    then have "map rule_ApplyDefaults (map unnumbered (jbFilters j1)) = map rule_ApplyDefaults (map unnumbered (jbFilters (job_ApplyDefaults j)))" by simp
    then show ?thesis by (simp add: o_def *)
  qed
  then have "map unnumbered (jbFilters j') = map unnumbered (jbFilters (job_ApplyDefaults j))"
    using c(2) defaulted_rules [of "jbFilters j'" j] by simp
  moreover have "jbID j' = jbID j1" "jbNextRunAt j' = jbNextRunAt j1" by (subst c(1), simp)+
  moreover obtain i t fs where j1: "j1 = (job_ApplyDefaults j)\<lparr>jbID := i, jbNextRunAt := t, jbFilters := fs\<rparr>"
    using assms(1) unfolding same_job_def by blast
  then have "j1\<lparr>jbFilters := jbFilters j'\<rparr> = (job_ApplyDefaults j)\<lparr>jbID := jbID j1, jbNextRunAt := jbNextRunAt j1, jbFilters := jbFilters j'\<rparr>"
    by simp
  ultimately show "same_job (job_ApplyDefaults j) j'" "jbID j' = jbID j1" using c(1) by (simp_all add: same_job_def)
qed

lemma saved_job_valid:
  assumes "same_job (job_ApplyDefaults j) j1" "job_Validate uq cron (job_ApplyDefaults j) = None" "insertJobChildren E k b j1 db = Inr (j', db')"
    "jbID j1 \<notin> dwJobID ` set (ctDests db)" "jbID j1 \<notin> wrJobID ` set (ctRules db)"
  shows "job_Validate uq cron (read_job db' (columns j1)) = None"
  using saved_children(1) [OF assms(3-5)] job_Validate_same [OF saved_job_same(1) [OF assms(1,3)], of uq cron] assms(2) by simp

lemma no_children:
  assumes "catalog_ok W db" "i \<notin> set (job_ids db)"
  shows "i \<notin> dwJobID ` set (ctDests db)" "i \<notin> wrJobID ` set (ctRules db)"
  using assms by (auto simp: catalog_ok_def refs_ok_def)

lemma ok_job_made:
  assumes "catalog_ok W db" "of_world W E"
  shows "catalog_ok W (snd (CreateJob E j db))"
proof (cases "CreateJob E j db")
  case (Pair r db')
  show ?thesis
  proof (cases r)
    case Inl
    then have "db' = db" using Pair by (auto simp: CreateJob_def Let_def split: option.splits dest: in_tx_Inl)
    then show ?thesis using assms Pair by simp
  next
    case (Inr j')
    let ?row = "\<lambda>j1. \<lparr>jwJob = columns j1, jwCreated = seClock E 0, jwUpdated = seClock E 0\<rparr>"
    obtain j1 where j1: "same_job (job_ApplyDefaults j) j1" "job_Validate (seQuote E) (seCron E) (job_ApplyDefaults j) = None"
      "jbID j1 \<notin> set (job_ids db)" "jbName j1 \<notin> set (job_names db)" "jbSourceTarget j1 \<in> set (target_ids db)"
      and c: "insertJobChildren E 1 1 j1 (db\<lparr>ctJobs := ctJobs db @ [?row j1]\<rparr>) = Inr (j', db')"
      using CreateJob_Inr Pair Inr by blast
    obtain ds rs where d: "db' = db\<lparr>ctJobs := ctJobs db @ [?row j1], ctDests := ctDests db @ ds, ctRules := ctRules db @ rs\<rparr>"
      "map dwDest ds = jbDestinations j1" "\<forall>r \<in> set ds. dwJobID r = jbID j1" "\<forall>r \<in> set rs. wrJobID r = jbID j1"
      "jdTarget ` set (jbDestinations j1) \<subseteq> set (target_ids db)"
      using insertJobChildren_Inr [OF c] by auto
    have n: "jbID j1 \<notin> dwJobID ` set (ctDests db)" "jbID j1 \<notin> wrJobID ` set (ctRules db)" using no_children [OF assms(1) j1(3)] by simp_all
    have col: "jbID (columns j1) = jbID j1" "jbName (columns j1) = jbName j1" "jbSourceTarget (columns j1) = jbSourceTarget j1" by (simp_all add: columns_def)
    have t: "(jdTarget \<circ> dwDest) ` set ds = jdTarget ` set (jbDestinations j1)" using d(2) by (metis image_comp list.set_map)
    have keys: "keys_ok db'" using assms(1) j1(3,4) by (simp add: d(1) col catalog_ok_def keys_ok_def)
    have refs: "refs_ok db'"
      using assms(1) j1(5) d(3-5) t by (auto simp: d(1) col catalog_ok_def refs_ok_def image_Un)
    have "job_Validate (wdQuote W) (wdCron W) (read_job db' (columns j1)) = None"
      using saved_job_valid [OF j1(1,2) c] n assms(2) by (simp add: of_world_def)
    moreover have "read_job db' (jwJob r) = read_job db (jwJob r)" if "r \<in> set (ctJobs db)" for r
    proof (rule read_job_same)
      have "jbID (jwJob r) \<noteq> jbID j1" using that j1(3) by (auto simp: image_iff)
      then show "dests_of (jbID (jwJob r)) db' = dests_of (jbID (jwJob r)) db" "rules_of (jbID (jwJob r)) db' = rules_of (jbID (jwJob r)) db"
        using saved_children(2) [OF c] n by (auto simp: dests_of_def rules_of_def)
    qed
    ultimately have "valid_rows W db'" using assms(1) by (simp add: d(1) catalog_ok_def valid_rows_def list_all_iff)
    then show ?thesis using keys refs Pair by (simp add: catalog_ok_def)
  qed
qed

lemma filter_other: "k \<noteq> i \<Longrightarrow> filter (\<lambda>x. f x = k) (filter (\<lambda>x. f x \<noteq> i) xs) = filter (\<lambda>x. f x = k) xs"
  by (induction xs) auto

lemma drop_others: "k \<noteq> i \<Longrightarrow> dests_of k (drop_rules i (drop_dests i db)) = dests_of k db"
  "k \<noteq> i \<Longrightarrow> rules_of k (drop_rules i (drop_dests i db)) = rules_of k db"
  by (simp_all add: dests_of_def rules_of_def drop_rules_def drop_dests_def filter_other del: filter_filter)

lemma ok_job_changed:
  assumes "catalog_ok W db" "of_world W E"
  shows "catalog_ok W (snd (UpdateJob E i j db))"
proof (cases "UpdateJob E i j db")
  case (Pair r db')
  show ?thesis
  proof (cases r)
    case Inl
    then have "db' = db" using Pair by (auto simp: UpdateJob_def Let_def split: option.splits dest: in_tx_Inl)
    then show ?thesis using assms Pair by simp
  next
    case (Inr j')
    obtain j1 db1 where j1: "same_job (job_ApplyDefaults j) j1" "job_Validate (seQuote E) (seCron E) (job_ApplyDefaults j) = None"
      "jbID j1 = i" "i \<in> set (job_ids db)" "jbSourceTarget j1 \<in> set (target_ids db)"
      "\<forall>r \<in> set (ctJobs db). jbID (jwJob r) \<noteq> i \<longrightarrow> jbName (jwJob r) \<noteq> jbName j1"
      and db1: "db1 = db\<lparr>ctJobs := update_where (\<lambda>r. jbID (jwJob r) = i) (\<lambda>r. r\<lparr>jwJob := columns j1, jwUpdated := seClock E 0\<rparr>) (ctJobs db)\<rparr>"
      and c: "insertJobChildren E 3 0 j1 (drop_rules i (drop_dests i db1)) = Inr (j', db')"
      using UpdateJob_Inr Pair Inr by blast
    let ?js = "ctJobs db1"
    have col: "jbID (columns j1) = i" "jbName (columns j1) = jbName j1" "jbSourceTarget (columns j1) = jbSourceTarget j1" using j1(3) by (simp_all add: columns_def)
    have ids: "map (jbID \<circ> jwJob) ?js = job_ids db" unfolding db1 using col by (auto intro!: map_update_where_in)
    have names: "distinct (map (jbName \<circ> jwJob) ?js)"
    proof -
      have "distinct (map (jbName \<circ> jwJob) (update_where (\<lambda>r. (jbID \<circ> jwJob) r = i) (\<lambda>r. r\<lparr>jwJob := columns j1, jwUpdated := seClock E 0\<rparr>) (ctJobs db)))"
        by (rule distinct_after_update [where n = "jbName j1"]) (use assms(1) j1(6) col in \<open>auto simp: catalog_ok_def keys_ok_def o_def\<close>)
      then show ?thesis by (simp add: db1)
    qed
    obtain ds rs where d: "db' = db\<lparr>ctJobs := ?js, ctDests := filter (\<lambda>r. dwJobID r \<noteq> i) (ctDests db) @ ds, ctRules := filter (\<lambda>r. wrJobID r \<noteq> i) (ctRules db) @ rs\<rparr>"
      "map dwDest ds = jbDestinations j1" "\<forall>r \<in> set ds. dwJobID r = i" "\<forall>r \<in> set rs. wrJobID r = i"
      "jdTarget ` set (jbDestinations j1) \<subseteq> set (target_ids db)"
      using insertJobChildren_Inr [OF c] j1(3) by (auto simp: drop_rules_def drop_dests_def db1)
    have t: "(jdTarget \<circ> dwDest) ` set ds = jdTarget ` set (jbDestinations j1)" using d(2) by (metis image_comp list.set_map)
    have idset: "(jbID \<circ> jwJob) ` set ?js = set (job_ids db)" using ids by (metis list.set_map)
    have src: "(jbSourceTarget \<circ> jwJob) ` set ?js \<subseteq> set (target_ids db)"
      using assms(1) j1(5) col by (auto simp: db1 catalog_ok_def refs_ok_def dest!: set_update_where)
    have keys: "keys_ok db'" using assms(1) ids names by (simp add: d(1) catalog_ok_def keys_ok_def)
    have "dwJobID ` set (filter (\<lambda>r. dwJobID r \<noteq> i) (ctDests db) @ ds) \<subseteq> set (job_ids db)"
      "wrJobID ` set (filter (\<lambda>r. wrJobID r \<noteq> i) (ctRules db) @ rs) \<subseteq> set (job_ids db)"
      "(jdTarget \<circ> dwDest) ` set (filter (\<lambda>r. dwJobID r \<noteq> i) (ctDests db) @ ds) \<subseteq> set (target_ids db)"
      using assms(1) d(3-5) t j1(4) by (auto simp: catalog_ok_def refs_ok_def image_Un)
    then have refs: "refs_ok db'" using assms(1) src idset unfolding refs_ok_def catalog_ok_def by (simp add: d(1))
    have n: "jbID j1 \<notin> dwJobID ` set (ctDests (drop_rules i (drop_dests i db1)))" "jbID j1 \<notin> wrJobID ` set (ctRules (drop_rules i (drop_dests i db1)))"
      using j1(3) by (auto simp: drop_rules_def drop_dests_def)
    have new: "job_Validate (wdQuote W) (wdCron W) (read_job db' (columns j1)) = None"
      using saved_job_valid [OF j1(1,2) c n] assms(2) by (simp add: of_world_def)
    have old: "read_job db' (jwJob r) = read_job db (jwJob r)" if "jbID (jwJob r) \<noteq> i" for r :: job_row
    proof (rule read_job_same)
      have "dests_of (jbID (jwJob r)) db' = dests_of (jbID (jwJob r)) (drop_rules i (drop_dests i db1))
        \<and> rules_of (jbID (jwJob r)) db' = rules_of (jbID (jwJob r)) (drop_rules i (drop_dests i db1))"
        using saved_children(2) [OF c n] that j1(3) by simp
      then show "dests_of (jbID (jwJob r)) db' = dests_of (jbID (jwJob r)) db" "rules_of (jbID (jwJob r)) db' = rules_of (jbID (jwJob r)) db"
        by (simp_all add: drop_others [OF that] db1) (simp_all add: dests_of_def rules_of_def)
    qed
    have "job_Validate (wdQuote W) (wdCron W) (read_job db' (jwJob r)) = None" if "r \<in> set ?js" for r
      using set_update_where [OF that [unfolded db1, simplified]] new old assms(1)
      by (auto simp: catalog_ok_def valid_rows_def list_all_iff)
    then have "valid_rows W db'" using assms(1) by (simp add: d(1) catalog_ok_def valid_rows_def list_all_iff)
    then show ?thesis using keys refs Pair by (simp add: catalog_ok_def)
  qed
qed

lemma DeleteJob_None:
  "DeleteJob E i db = (None, db') \<Longrightarrow> i \<in> set (job_ids db) \<and> db' = drop_job i (drop_runs i db)"
  by (auto simp: DeleteJob_def Let_def bind_err_def in_context_def statement_def split: option.splits sum.splits if_splits)

lemma DeleteJob_Some: "DeleteJob E i db = (Some e, db') \<Longrightarrow> db' = db"
  by (auto simp: DeleteJob_def Let_def split: sum.splits)

lemma ok_job_removed:
  assumes "catalog_ok W db"
  shows "catalog_ok W (snd (DeleteJob E i db))"
proof (cases "DeleteJob E i db")
  case (Pair r db')
  show ?thesis
  proof (cases r)
    case None
    then have db': "db' = drop_job i (drop_runs i db)" and i: "i \<in> set (job_ids db)" using DeleteJob_None Pair by blast+
    have f: "ctTargets db' = ctTargets db" "ctGlobals db' = ctGlobals db" "ctJobs db' = filter (\<lambda>r. jbID (jwJob r) \<noteq> i) (ctJobs db)"
      "ctDests db' = filter (\<lambda>r. dwJobID r \<noteq> i) (ctDests db)" "ctRules db' = filter (\<lambda>r. wrJobID r \<noteq> i) (ctRules db)"
      "ctHooks db' = filter (\<lambda>w. i = [] \<or> whJobID w \<noteq> i) (ctHooks db)"
      "rtRuns (ctRuns db') = filter (\<lambda>r. rrJobID r \<noteq> i) (rtRuns (ctRuns db))"
      "rtDests (ctRuns db') = filter (\<lambda>r. rdRunID r \<notin> set (runs_of i db)) (rtDests (ctRuns db))"
      "etRows (ctEvents db') = filter (\<lambda>e. erRunID e \<notin> set (runs_of i db)) (etRows (ctEvents db))"
      by (simp_all add: db' drop_job_def drop_runs_def drop_rules_def drop_dests_def Let_def)
    have ids: "set (job_ids db') = set (job_ids db) - {i}" by (auto simp: f)
    have runs: "rrID ` set (rtRuns (ctRuns db)) - set (runs_of i db) \<subseteq> rrID ` set (rtRuns (ctRuns db'))" by (auto simp: f runs_of_def)
    have "rdRunID ` set (rtDests (ctRuns db')) \<subseteq> rrID ` set (rtRuns (ctRuns db)) - set (runs_of i db)"
      "erRunID ` set (etRows (ctEvents db')) \<subseteq> rrID ` set (rtRuns (ctRuns db)) - set (runs_of i db)"
      using assms by (auto simp: f catalog_ok_def refs_ok_def)
    then have "rdRunID ` set (rtDests (ctRuns db')) \<union> erRunID ` set (etRows (ctEvents db')) \<subseteq> rrID ` set (rtRuns (ctRuns db'))"
      using runs by blast
    moreover have "(jbSourceTarget \<circ> jwJob) ` set (ctJobs db') \<union> (jdTarget \<circ> dwDest) ` set (ctDests db') \<union> rdTarget ` set (rtDests (ctRuns db')) \<subseteq> set (target_ids db')"
      "dwJobID ` set (ctDests db') \<union> wrJobID ` set (ctRules db') \<union> rrJobID ` set (rtRuns (ctRuns db')) \<subseteq> set (job_ids db')"
      "whJobID ` set (ctHooks db') \<subseteq> insert [] (set (job_ids db'))"
      unfolding ids using assms by (auto simp: f catalog_ok_def refs_ok_def)
    ultimately have "refs_ok db'" by (simp add: refs_ok_def)
    moreover have "read_job db' (jwJob r) = read_job db (jwJob r)" if "r \<in> set (ctJobs db')" for r
      using that by (intro read_job_same) (simp_all add: f dests_of_def rules_of_def filter_other del: filter_filter)
    then have "valid_rows W db'" using assms by (simp add: catalog_ok_def valid_rows_def list_all_iff f)
    moreover have "keys_ok db'" using assms by (simp add: catalog_ok_def keys_ok_def f distinct_map_filtered)
    ultimately show ?thesis using Pair by (simp add: catalog_ok_def)
  next
    case Some
    then show ?thesis using assms Pair DeleteJob_Some by fastforce
  qed
qed

lemma global_Validate_ID: "global_Validate uq (g\<lparr>grID := i\<rparr>) = global_Validate uq g"
  unfolding global_Validate_def
  by (rule rule_Validate_same) (simp add: unnumbered_def rule_ApplyDefaults_def AsFilterRule_def)

lemma check_globals_None:
  "check_globals uq i gs = None \<longleftrightarrow> (\<forall>g \<in> set gs. global_Validate uq (global_ApplyDefaults g) = None)"
  by (induction gs arbitrary: i) auto

lemma insert_globals_Inr:
  assumes "insert_globals E i gs db = Inr db'"
  shows "\<exists>rows. db' = db\<lparr>ctGlobals := ctGlobals db @ rows\<rparr> \<and> list_all2 (\<lambda>r g. \<exists>n. gwRule r = g\<lparr>grID := n\<rparr>) rows gs
    \<and> map gwPosition rows = [i..<i + length gs]"
  using assms
proof (induction gs arbitrary: i db)
  case (Cons g gs)
  obtain n where n: "insert_globals E (Suc i) gs
      (db\<lparr>ctGlobals := ctGlobals db @ [\<lparr>gwRule = g\<lparr>grID := n\<rparr>, gwPosition = i, gwCreated = seClock E 0\<rparr>]\<rparr>) = Inr db'"
    using Cons.prems by (auto simp: step_Inr split: if_splits)
  let ?row = "\<lparr>gwRule = g\<lparr>grID := n\<rparr>, gwPosition = i, gwCreated = seClock E 0\<rparr>"
  from Cons.IH [OF n] obtain rows where r: "db' = db\<lparr>ctGlobals := ctGlobals db @ ?row # rows\<rparr>"
    "list_all2 (\<lambda>r g. \<exists>n. gwRule r = g\<lparr>grID := n\<rparr>) rows gs" "map gwPosition rows = [Suc i..<Suc i + length gs]"
    by auto
  have "[i..<i + length (g # gs)] = i # [Suc i..<Suc i + length gs]" by (simp add: upt_rec)
  then show ?case using r by (intro exI [of _ "?row # rows"]) auto
qed simp

lemma ReplaceGlobalFilterRules_None:
  assumes "ReplaceGlobalFilterRules E gs db = (None, db')"
  shows "\<exists>rows. db' = db\<lparr>ctGlobals := rows\<rparr> \<and> list_all2 (\<lambda>r g. \<exists>n. gwRule r = (global_ApplyDefaults g)\<lparr>grID := n\<rparr>) rows gs
    \<and> map gwPosition rows = [0..<length gs] \<and> (\<forall>g \<in> set gs. global_Validate (seQuote E) (global_ApplyDefaults g) = None)"
proof -
  have v: "check_globals (seQuote E) 0 gs = None" and i: "insert_globals E 0 (map global_ApplyDefaults gs) (db\<lparr>ctGlobals := []\<rparr>) = Inr db'"
    using assms by (auto simp: ReplaceGlobalFilterRules_def Let_def bind_err_def in_context_def statement_def split: option.splits sum.splits)
  show ?thesis using insert_globals_Inr [OF i] v by (auto simp: check_globals_None list_all2_map2)
qed

lemma ok_globals_replaced:
  assumes "catalog_ok W db" "of_world W E"
  shows "catalog_ok W (snd (ReplaceGlobalFilterRules E gs db))"
proof (cases "ReplaceGlobalFilterRules E gs db")
  case (Pair r db')
  show ?thesis
  proof (cases r)
    case None
    then obtain rows where d: "db' = db\<lparr>ctGlobals := rows\<rparr>" "list_all2 (\<lambda>r g. \<exists>n. gwRule r = (global_ApplyDefaults g)\<lparr>grID := n\<rparr>) rows gs"
      "\<forall>g \<in> set gs. global_Validate (seQuote E) (global_ApplyDefaults g) = None"
      using ReplaceGlobalFilterRules_None Pair by blast
    have "global_Validate (wdQuote W) (gwRule r) = None" if m: "r \<in> set rows" for r
    proof -
      obtain k where k: "k < length rows" "r = rows ! k" using m unfolding in_set_conv_nth by blast
      have g: "gs ! k \<in> set gs" using k(1) list_all2_lengthD [OF d(2)] by simp
      obtain n where "gwRule r = (global_ApplyDefaults (gs ! k))\<lparr>grID := n\<rparr>"
        using list_all2_nthD [OF d(2) k(1)] unfolding k(2) by blast
      then show ?thesis using d(3) g assms(2) by (simp add: global_Validate_ID of_world_def)
    qed
    then show ?thesis using assms(1) Pair read_job_cong [of db' db]
      by (simp add: d(1) catalog_ok_def keys_ok_def refs_ok_def valid_rows_def list_all_iff)
  next
    case Some
    then have "db' = db" using Pair by (auto simp: ReplaceGlobalFilterRules_def Let_def split: option.splits sum.splits)
    then show ?thesis using assms Pair by simp
  qed
qed

lemma ok_runs:
  assumes "catalog_ok W db" "set (map snd (snd (run_keys rt))) \<subseteq> set (target_ids db)" "set (map snd (fst (run_keys rt))) \<subseteq> set (job_ids db)"
    "set (map fst (snd (run_keys rt))) \<subseteq> set (map fst (fst (run_keys rt)))"
    "set (map fst (fst (run_keys (ctRuns db)))) \<subseteq> set (map fst (fst (run_keys rt)))"
  shows "catalog_ok W (db\<lparr>ctRuns := rt\<rparr>)"
proof -
  have "erRunID ` set (etRows (ctEvents db)) \<subseteq> rrID ` set (rtRuns rt)"
  proof -
    have "set (map fst (fst (run_keys t))) = rrID ` set (rtRuns t)" for t by (auto simp: run_keys_def image_iff)
    then have "rrID ` set (rtRuns (ctRuns db)) \<subseteq> rrID ` set (rtRuns rt)" using assms(5) by simp
    moreover have "erRunID ` set (etRows (ctEvents db)) \<subseteq> rrID ` set (rtRuns (ctRuns db))" using assms(1) by (simp add: catalog_ok_def refs_ok_def)
    ultimately show ?thesis by (metis subset_trans)
  qed
  then show ?thesis
    using assms read_job_cong [of "db\<lparr>ctRuns := rt\<rparr>" db]
    by (simp add: catalog_ok_def keys_ok_def refs_ok_def valid_rows_def run_keys_def image_image)
qed

lemma ok_step: "catalog_step W db db' \<Longrightarrow> catalog_ok W db \<Longrightarrow> catalog_ok W db'"
proof (induction rule: catalog_step.induct)
  case (run_made fault n now j trig ds db r rt)
  then have "rt = (ctRuns db)\<lparr>rtRuns := rtRuns (ctRuns db) @ [r], rtDests := rtDests (ctRuns db) @ map (pending_dest n) ds\<rparr>"
    "rrID r = n" "rrJobID r = j"
    by (auto simp: CreateRun_def Let_def split: option.splits if_splits)
  then have "run_keys rt = (fst (run_keys (ctRuns db)) @ [(n, j)], snd (run_keys (ctRuns db)) @ map (\<lambda>d. (n, d)) ds)"
    by (simp add: run_keys_def pending_dest_def)
  then show ?case using run_made by (intro ok_runs) (auto simp: catalog_ok_def refs_ok_def run_keys_def)
next
  case (runs_changed rt db)
  then show ?case by (intro ok_runs) (auto simp: catalog_ok_def refs_ok_def run_keys_def)
next
  case (events_changed et db)
  then show ?case using read_job_cong [of "db\<lparr>ctEvents := et\<rparr>" db] by (simp add: catalog_ok_def keys_ok_def refs_ok_def valid_rows_def)
next
  case (hooks_changed hs db)
  then show ?case using read_job_cong [of "db\<lparr>ctHooks := hs\<rparr>" db] by (simp add: catalog_ok_def keys_ok_def refs_ok_def valid_rows_def)
qed (simp_all add: ok_target_made ok_target_changed ok_dialect_noted ok_target_removed ok_job_made ok_job_changed ok_job_removed ok_globals_replaced)

lemma ok_reachable: "(catalog_step W)\<^sup>*\<^sup>* fresh_catalog db \<Longrightarrow> catalog_ok W db"
  by (induction rule: rtranclp_induct) (simp_all add: fresh_ok ok_step)


lemma reachable_after: "(catalog_step W)\<^sup>*\<^sup>* fresh_catalog db \<Longrightarrow> catalog_step W db db' \<Longrightarrow> (catalog_step W)\<^sup>*\<^sup>* fresh_catalog db'"
  by (rule rtranclp.rtrancl_into_rtrancl)

end
