(* ===== verification/Catalog_Jobs.thy ===== *)
theory Catalog_Jobs
  imports Catalog_Props
begin

text \<open>
  What the tables promise about a job once it is stored: it passes its validation and its targets
  exist, it is read back as it was given, and deleting it takes its own history and nothing else.
\<close>

section \<open>A stored job\<close>

lemma valid_job_read:
  assumes "catalog_ok W db" "faultless E" "GetJob E i db = Inr j"
  shows "job_Validate (wdQuote W) (wdCron W) j = None"
  using assms GetJob_found [OF assms(2,3)] by (auto simp: catalog_ok_def valid_rows_def list_all_iff)

lemma target_read:
  assumes "catalog_ok W db" "faultless E" "i \<in> set (target_ids db)"
  shows "\<exists>t. GetTarget E i db = Inr t \<and> tgID t = i \<and> target_Validate (wdLower W) (wdQuote W) t = None"
proof -
  obtain r where r: "r \<in> set (ctTargets db)" "tgID (twTarget r) = i" using assms(3) by auto
  then obtain r' where r': "target_row_of i db = Some r'"
    by (cases "target_row_of i db") (auto simp: target_row_of_def find_None_iff)
  then have "r' \<in> set (ctTargets db)" "tgID (twTarget r') = i" by (auto simp: target_row_of_def find_Some_iff)
  then show ?thesis using assms(1,2) r' by (auto simp: GetTarget_def catalog_ok_def valid_rows_def list_all_iff)
qed

lemma job_targets_stored:
  assumes "catalog_ok W db" "faultless E" "GetJob E i db = Inr j"
  shows "jbSourceTarget j \<in> set (target_ids db)" "d \<in> set (jbDestinations j) \<Longrightarrow> jdTarget d \<in> set (target_ids db)"
proof -
  obtain r where r: "r \<in> set (ctJobs db)" "j = read_job db (jwJob r)" using GetJob_found [OF assms(2,3)] by blast
  show "jbSourceTarget j \<in> set (target_ids db)" using r assms(1) by (auto simp: read_job_def catalog_ok_def refs_ok_def)
  show "jdTarget d \<in> set (target_ids db)" if m: "d \<in> set (jbDestinations j)"
  proof -
    have "jbDestinations j = dests_of (jbID (jwJob r)) db" unfolding r(2) read_job_def by simp
    then obtain r' where "r' \<in> set (ctDests db)" "d = dwDest r'" using m by (auto simp: dests_of_def)
    then show ?thesis using assms(1) by (auto simp: catalog_ok_def refs_ok_def)
  qed
qed

text \<open>
  C22: whatever is done to targets, jobs, global exclusions, runs, events and callbacks, with any
  statement failing at any point, a job read from the database passes the validation it passed when
  it was saved, and its source and each of its destinations can be read and are valid targets.
\<close>

theorem stored_jobs_can_start:
  assumes "(catalog_step W)\<^sup>*\<^sup>* fresh_catalog db" and "faultless E" and "GetJob E i db = Inr j"
  shows "job_Validate (wdQuote W) (wdCron W) j = None
    \<and> list_all (\<lambda>k. case GetTarget E k db of Inl _ \<Rightarrow> False | Inr t \<Rightarrow> tgID t = k \<and> target_Validate (wdLower W) (wdQuote W) t = None)
        (jbSourceTarget j # map jdTarget (jbDestinations j))"
proof -
  note ok = ok_reachable [OF assms(1)]
  have "case GetTarget E k db of Inl _ \<Rightarrow> False | Inr t \<Rightarrow> tgID t = k \<and> target_Validate (wdLower W) (wdQuote W) t = None"
    if "k \<in> set (target_ids db)" for k
    using target_read [OF ok assms(2) that] by auto
  then show ?thesis using valid_job_read [OF ok assms(2,3)] job_targets_stored [OF ok assms(2,3)] by (auto simp: list_all_iff)
qed

lemma read_back:
  assumes "keys_ok db'" "faultless E" "r \<in> set (ctJobs db')" "jbID (jwJob r) = i"
  shows "GetJob E i db' = Inr (read_job db' (jwJob r))"
proof -
  have "find (\<lambda>y. (jbID \<circ> jwJob) y = (jbID \<circ> jwJob) r) (ctJobs db') = Some r"
    using assms(1,3) unfolding keys_ok_def by (blast intro: find_mapped_key)
  then show ?thesis using assms(2,4) by (simp add: GetJob_faultless job_row_of_def)
qed

lemma read_other:
  assumes "faultless E" "find (\<lambda>r. jbID (jwJob r) = i) (ctJobs db') = find (\<lambda>r. jbID (jwJob r) = i) (ctJobs db)"
    and "dests_of i db' = dests_of i db" "rules_of i db' = rules_of i db"
  shows "GetJob E i db' = GetJob E i db"
proof -
  have "read_job db' (jwJob r) = read_job db (jwJob r)" if "find (\<lambda>r. jbID (jwJob r) = i) (ctJobs db) = Some r" for r
  proof -
    have "jbID (jwJob r) = i" using that by (auto simp: find_Some_iff)
    then show ?thesis using assms(3,4) by (simp add: read_job_def)
  qed
  then show ?thesis using assms(1,2) by (simp add: GetJob_faultless job_row_of_def split: option.split)
qed

lemma find_update_where:
  "\<forall>x \<in> set xs. P x \<longrightarrow> \<not> Q x \<and> \<not> Q (f x) \<Longrightarrow> find Q (update_where P f xs) = find Q xs"
  by (induction xs) (auto simp: update_where_def)

lemma find_appended: "find P (xs @ ys) = (case find P xs of None \<Rightarrow> find P ys | Some x \<Rightarrow> Some x)"
  by (induction xs) auto

lemma find_filtered: "\<forall>x \<in> set xs. Q x \<longrightarrow> P x \<Longrightarrow> find Q (filter P xs) = find Q xs"
  by (induction xs) auto

lemma saved_reads:
  assumes "catalog_ok W db" "CreateJob E j db = (Inr j', db')" "faultless E'"
  shows "GetJob E' (jbID j') db' = Inr j' \<and> same_job (job_ApplyDefaults j) j' \<and> (\<forall>k. k = jbID j' \<or> GetJob E' k db' = GetJob E' k db)"
proof -
  obtain j1 where j1: "same_job (job_ApplyDefaults j) j1" "jbID j1 \<notin> set (job_ids db)" "jbName j1 \<notin> set (job_names db)"
    and c: "insertJobChildren E 1 1 j1 (db\<lparr>ctJobs := ctJobs db @ [\<lparr>jwJob = columns j1, jwCreated = seClock E 0, jwUpdated = seClock E 0\<rparr>]\<rparr>) = Inr (j', db')"
    using CreateJob_Inr [OF assms(2)] by blast
  have n: "jbID j1 \<notin> dwJobID ` set (ctDests db)" "jbID j1 \<notin> wrJobID ` set (ctRules db)" using no_children [OF assms(1) j1(2)] by simp_all
  note id = saved_job_same(2) [OF j1(1) c]
  obtain ds rs where d: "db' = db\<lparr>ctJobs := ctJobs db @ [\<lparr>jwJob = columns j1, jwCreated = seClock E 0, jwUpdated = seClock E 0\<rparr>],
      ctDests := ctDests db @ ds, ctRules := ctRules db @ rs\<rparr>"
    using insertJobChildren_Inr [OF c] by auto
  then have js: "ctJobs db' = ctJobs db @ [\<lparr>jwJob = columns j1, jwCreated = seClock E 0, jwUpdated = seClock E 0\<rparr>]" by simp
  have col: "jbID (columns j1) = jbID j1" "jbName (columns j1) = jbName j1" by (simp_all add: columns_def)
  have keys: "keys_ok db'" using assms(1) j1(2,3) by (simp add: d col catalog_ok_def keys_ok_def)
  have "GetJob E' (jbID j1) db' = Inr j'"
    using read_back [OF keys assms(3), of "\<lparr>jwJob = columns j1, jwCreated = seClock E 0, jwUpdated = seClock E 0\<rparr>" "jbID j1"]
      saved_children(1) [OF c] n by (simp add: js col)
  moreover have "GetJob E' k db' = GetJob E' k db" if "k \<noteq> jbID j1" for k
    using that saved_children(2) [OF c _ _ that] n
    by (intro read_other [OF assms(3)]) (simp_all add: js col find_appended dests_of_def rules_of_def split: option.split)
  ultimately show ?thesis using saved_job_same(1) [OF j1(1) c] by (auto simp: id)
qed


lemma changed_reads:
  assumes "catalog_ok W db" "of_world W E" "UpdateJob E i j db = (Inr j', db')" "faultless E'"
  shows "jbID j' = i \<and> GetJob E' i db' = Inr j' \<and> same_job (job_ApplyDefaults j) j' \<and> (\<forall>k. k = i \<or> GetJob E' k db' = GetJob E' k db)"
proof -
  obtain j1 db1 where j1: "same_job (job_ApplyDefaults j) j1" "jbID j1 = i" "i \<in> set (job_ids db)"
    and db1: "db1 = db\<lparr>ctJobs := update_where (\<lambda>r. jbID (jwJob r) = i) (\<lambda>r. r\<lparr>jwJob := columns j1, jwUpdated := seClock E 0\<rparr>) (ctJobs db)\<rparr>"
    and c: "insertJobChildren E 3 0 j1 (drop_rules i (drop_dests i db1)) = Inr (j', db')"
    using UpdateJob_Inr [OF assms(3)] by blast
  have n: "jbID j1 \<notin> dwJobID ` set (ctDests (drop_rules i (drop_dests i db1)))" "jbID j1 \<notin> wrJobID ` set (ctRules (drop_rules i (drop_dests i db1)))"
    using j1(2) by (auto simp: drop_rules_def drop_dests_def)
  obtain ds rs where "db' = (drop_rules i (drop_dests i db1))\<lparr>ctDests := ds, ctRules := rs\<rparr>" using insertJobChildren_Inr [OF c] by auto
  then have js: "ctJobs db' = update_where (\<lambda>r. jbID (jwJob r) = i) (\<lambda>r. r\<lparr>jwJob := columns j1, jwUpdated := seClock E 0\<rparr>) (ctJobs db)"
    by (simp add: drop_rules_def drop_dests_def db1)
  have col: "jbID (columns j1) = i" using j1(2) by (simp add: columns_def)
  have keys: "keys_ok db'" using ok_job_changed [OF assms(1,2), of i j] assms(3) by (simp add: catalog_ok_def)
  obtain r where r: "r \<in> set (ctJobs db)" "jbID (jwJob r) = i" using j1(3) by auto
  then have "r\<lparr>jwJob := columns j1, jwUpdated := seClock E 0\<rparr> \<in> set (ctJobs db')" by (auto simp: js update_where_def)
  then have "GetJob E' i db' = Inr j'"
    using read_back [OF keys assms(4)] col saved_children(1) [OF c n] by fastforce
  moreover have "GetJob E' k db' = GetJob E' k db" if "k \<noteq> i" for k
  proof (rule read_other [OF assms(4)])
    show "find (\<lambda>r. jbID (jwJob r) = k) (ctJobs db') = find (\<lambda>r. jbID (jwJob r) = k) (ctJobs db)"
      unfolding js by (rule find_update_where) (use that col in auto)
    have "dests_of k db' = dests_of k (drop_rules i (drop_dests i db1)) \<and> rules_of k db' = rules_of k (drop_rules i (drop_dests i db1))"
      using saved_children(2) [OF c n] that j1(2) by simp
    then show "dests_of k db' = dests_of k db" "rules_of k db' = rules_of k db"
      by (simp_all add: drop_others [OF that] db1) (simp_all add: dests_of_def rules_of_def)
  qed
  ultimately show ?thesis using saved_job_same [OF j1(1) c] j1(2) by auto
qed


lemma filter_gone: "filter (\<lambda>x. f x = i) (filter (\<lambda>x. f x \<noteq> i) xs) = []"
  by (simp add: filter_empty_conv)

lemma drop_all: "dests_of i (drop_rules i (drop_dests i db)) = []" "rules_of i (drop_rules i (drop_dests i db)) = []"
  by (simp_all add: dests_of_def rules_of_def drop_rules_def drop_dests_def filter_gone del: filter_filter)

text \<open>
  deleting a job removes its row, destinations, rules, callbacks, runs, and the destinations
  and events of those runs, and nothing else: every other job reads as before, the runs of every
  other job are left with their destinations and events in order, and no target goes. When it fails
  nothing changes.
\<close>

theorem deleting_a_job_takes_its_history_only:
  assumes "(catalog_step W)\<^sup>*\<^sup>* fresh_catalog db" and "faultless E'" and "DeleteJob E i db = (r, db')"
  shows "if r = None
    then GetJob E' i db' = Inl (new_error (''job '' @ i @ '': not found'') [ErrNotFound]) \<and> dests_of i db' = [] \<and> rules_of i db' = []
      \<and> (\<forall>k. k = i \<or> GetJob E' k db' = GetJob E' k db) \<and> ctTargets db' = ctTargets db
      \<and> rtRuns (ctRuns db') = filter (\<lambda>x. rrJobID x \<noteq> i) (rtRuns (ctRuns db))
      \<and> (let gone = runs_of i db in
           rtDests (ctRuns db') = filter (\<lambda>x. rdRunID x \<notin> set gone) (rtDests (ctRuns db))
         \<and> etRows (ctEvents db') = filter (\<lambda>x. erRunID x \<notin> set gone) (etRows (ctEvents db)))
    else db' = db"
proof (cases r)
  case None
  then have db': "db' = drop_job i (drop_runs i db)" using DeleteJob_None assms(3) by blast
  have c: "dests_of k db' = dests_of k (drop_rules i (drop_dests i db))" "rules_of k db' = rules_of k (drop_rules i (drop_dests i db))" for k
    by (simp_all add: db' drop_job_def drop_runs_def Let_def dests_of_def rules_of_def drop_rules_def drop_dests_def)
  have js: "ctJobs db' = filter (\<lambda>r. jbID (jwJob r) \<noteq> i) (ctJobs db)"
    by (simp add: db' drop_job_def drop_runs_def Let_def drop_rules_def drop_dests_def)
  have "find (\<lambda>r. jbID (jwJob r) = i) (ctJobs db') = None" by (simp add: js find_None_iff)
  then have "GetJob E' i db' = Inl (new_error (''job '' @ i @ '': not found'') [ErrNotFound])"
    using assms(2) by (simp add: GetJob_faultless job_row_of_def)
  moreover have "dests_of i db' = []" "rules_of i db' = []" unfolding c by (rule drop_all)+
  moreover have "GetJob E' k db' = GetJob E' k db" if "k \<noteq> i" for k
    by (rule read_other [OF assms(2)]) (use that in \<open>simp_all add: js c drop_others find_filtered\<close>)
  ultimately show ?thesis using None
    by (auto simp: db' drop_job_def drop_runs_def drop_rules_def drop_dests_def Let_def)
qed (use assms(3) DeleteJob_Some in auto)

text \<open>A target something refers to stays, and the caller is told in the database's own words.\<close>

lemma used_target_stays:
  assumes "i \<in> set (target_ids db)" "refers_to_target i db" "faultless E"
  shows "DeleteTarget E i db = (Some (wrap (''deleting target '' @ i @ '': '') (new_error foreign_key_text [])), db)"
  using assms by (simp add: DeleteTarget_def statement_def in_context_def)

text \<open>Taking a target out of a job does not free it: the runs that wrote there hold it.\<close>

lemma history_holds_target:
  assumes "UpdateJob E k j db = (r, db')" "d \<in> set (rtDests (ctRuns db))" "rdTarget d = i" "i \<in> set (target_ids db)" "faultless E'"
  shows "snd (DeleteTarget E' i db') = db'"
proof -
  have "ctTargets db' = ctTargets db \<and> ctRuns db' = ctRuns db"
  proof (cases r)
    case Inl
    then have "db' = db" using assms(1) by (auto simp: UpdateJob_def Let_def split: option.splits dest: in_tx_Inl)
    then show ?thesis by simp
  next
    case (Inr j')
    obtain j1 db1 where db1: "db1 = db\<lparr>ctJobs := update_where (\<lambda>r. jbID (jwJob r) = k) (\<lambda>r. r\<lparr>jwJob := columns j1, jwUpdated := seClock E 0\<rparr>) (ctJobs db)\<rparr>"
      and c: "insertJobChildren E 3 0 j1 (drop_rules k (drop_dests k db1)) = Inr (j', db')"
      using UpdateJob_Inr [OF assms(1) [unfolded Inr]] by blast
    obtain ds rs where "db' = (drop_rules k (drop_dests k db1))\<lparr>ctDests := ds, ctRules := rs\<rparr>" using insertJobChildren_Inr [OF c] by auto
    then show ?thesis by (simp add: drop_rules_def drop_dests_def db1)
  qed
  moreover have "refers_to_target i db'" if "ctRuns db' = ctRuns db" using assms(2,3) that by (auto simp: refers_to_target_def list_ex_iff)
  ultimately show ?thesis using used_target_stays [of i db' E'] assms(4,5) by simp
qed

section \<open>A catalog with a job\<close>

definition sample_world :: world where
  "sample_world = \<lparr>wdQuote = id, wdLower = id, wdCron = (\<lambda>e. Inl (new_error e []))\<rparr>"

definition sample_env :: "string list \<Rightarrow> store_env" where
  "sample_env names = \<lparr>seQuote = id, seLower = id, seUpper = id, seCron = wdCron sample_world, seClock = (\<lambda>_. 0),
     seIDs = (\<lambda>n. Inr (names ! n)), seFault = (\<lambda>_. None)\<rparr>"

definition local_target :: "string \<Rightarrow> target" where
  "local_target name = \<lparr>tgID = name, tgName = name, tgType = TargetLocal, Host = [], Share = [], Port = 0,
     Username = [], Domain = [], MountOptsOverride = [], Multichannel = False, NegotiatedVers = [],
     LocalPath = ''/srv'', Subpath = [], PasswordEncrypted = []\<rparr>"

definition two_targets :: catalog where
  "two_targets = fresh_catalog\<lparr>ctTargets := map (\<lambda>n. \<lparr>twTarget = local_target n, twCreated = 0, twUpdated = 0\<rparr>) [''a1'', ''b2'']\<rparr>"

lemma sample_env_of: "of_world sample_world (sample_env names)"
  by (simp add: of_world_def sample_world_def sample_env_def)

lemma sample_env_faultless: "faultless (sample_env names)"
  by (simp add: sample_env_def)

lemma local_target_valid: "target_Validate id id (local_target ''a1'') = None" "target_Validate id id (local_target ''b2'') = None"
  by (simp_all add: target_Validate_def validate_local_def validateMountOpts_def local_target_def TrimSpace_graphic graphic_def
      IsAbs_def HasPrefix_def Let_def)

lemma two_targets_reachable: "(catalog_step sample_world)\<^sup>*\<^sup>* fresh_catalog two_targets"
proof -
  let ?db = "snd (CreateTarget (sample_env [''a1'']) (local_target ''a1'') fresh_catalog)"
  have t: "two_targets = snd (CreateTarget (sample_env [''b2'']) (local_target ''b2'') ?db)"
    using local_target_valid by (simp add: CreateTarget_def sample_env_def fresh_catalog_def two_targets_def local_target_def
        in_tx_def bind_err_def taken_or_def statement_def Let_def)
  have "(catalog_step sample_world)\<^sup>*\<^sup>* fresh_catalog ?db" by (rule r_into_rtranclp) (rule target_made [OF sample_env_of])
  then show ?thesis unfolding t by (rule reachable_after) (rule target_made [OF sample_env_of])
qed

definition job_ids_drawn :: store_env where "job_ids_drawn = sample_env [''j1'', ''d1'', ''d2'', ''r1'']"

lemma sample_job_defaulted: "job_ApplyDefaults sample_job = sample_job"
  by (simp add: sample_job_def job_ApplyDefaults_def rule_ApplyDefaults_def or_default_def)

lemma sample_fields:
  "jbName sample_job = ''nightly''" "jbSourceTarget sample_job = ''a1''"
  "jbDestinations sample_job = [\<lparr>jdTarget = ''b2'', jdSubpath = ''backup''\<rparr>, \<lparr>jdTarget = ''a1'', jdSubpath = ''copy''\<rparr>]"
  "map (rule_Validate id \<circ> rule_ApplyDefaults) (jbFilters sample_job) = [None]"
  by (simp_all add: sample_job_def job_ApplyDefaults_def rule_ApplyDefaults_def or_default_def rule_Validate_def known_def
      scope_check_def source_check_def)

lemma sample_job_saved:
  "\<exists>j db. CreateJob job_ids_drawn sample_job two_targets = (Inr j, db) \<and> jbID j = ''j1''"
proof -
  obtain f where f: "jbFilters sample_job = [f]" "rule_Validate id (rule_ApplyDefaults f) = None"
    using sample_fields(4) by (cases "jbFilters sample_job") auto
  obtain t where t: "RefreshNextRun id (wdCron sample_world) 0 (sample_job\<lparr>jbID := ''j1''\<rparr>) = sample_job\<lparr>jbID := ''j1'', jbNextRunAt := t\<rparr>"
    using RefreshNextRun_same by blast
  show ?thesis
    using f t sample_job_valid sample_fields(1-3)
    by (simp add: sample_job_defaulted CreateJob_def job_ids_drawn_def sample_env_def in_tx_def bind_err_def barrier_def taken_or_def insert_job_def
        statement_def two_targets_def fresh_catalog_def local_target_def insertJobChildren_def columns_def
        insertFilterRule_def in_context_def Let_def)
qed

text \<open>The tables once that job is in.\<close>

lemma sample_stored:
  "\<exists>j db. CreateJob job_ids_drawn sample_job two_targets = (Inr j, db) \<and> (catalog_step sample_world)\<^sup>*\<^sup>* fresh_catalog db
     \<and> GetJob job_ids_drawn ''j1'' db = Inr j \<and> ''j1'' \<in> set (job_ids db)"
proof -
  obtain j db where j: "CreateJob job_ids_drawn sample_job two_targets = (Inr j, db)" "jbID j = ''j1''" using sample_job_saved by blast
  have "(catalog_step sample_world)\<^sup>*\<^sup>* fresh_catalog db"
    using reachable_after [OF two_targets_reachable job_made [of _ job_ids_drawn _ sample_job]] j(1) sample_env_of by (simp add: job_ids_drawn_def)
  moreover have g: "GetJob job_ids_drawn ''j1'' db = Inr j"
    using saved_reads [OF ok_reachable [OF two_targets_reachable] j(1), of job_ids_drawn] j(2) sample_env_faultless by (simp add: job_ids_drawn_def)
  moreover have "''j1'' \<in> set (job_ids db)" using GetJob_found [OF _ g] sample_env_faultless by (force simp: job_ids_drawn_def)
  ultimately show ?thesis using j(1) by blast
qed

theorem stored_jobs_can_start_witness:
  "\<exists>db j. GetJob job_ids_drawn ''j1'' db = Inr j \<and> job_Validate (wdQuote sample_world) (wdCron sample_world) j = None"
proof -
  obtain j db where j: "(catalog_step sample_world)\<^sup>*\<^sup>* fresh_catalog db" "GetJob job_ids_drawn ''j1'' db = Inr j"
    using sample_stored by blast
  then show ?thesis using stored_jobs_can_start [OF j(1) _ j(2)] sample_env_faultless by (auto simp: job_ids_drawn_def)
qed


theorem deleting_a_job_takes_its_history_only_witness:
  "\<exists>db. ''j1'' \<in> set (job_ids db) \<and> ''j1'' \<notin> set (job_ids (snd (DeleteJob job_ids_drawn ''j1'' db)))
     \<and> ctTargets (snd (DeleteJob job_ids_drawn ''j1'' db)) = ctTargets db"
proof -
  obtain db where db: "(catalog_step sample_world)\<^sup>*\<^sup>* fresh_catalog db" "''j1'' \<in> set (job_ids db)" using sample_stored by blast
  have f: "faultless job_ids_drawn" by (simp add: job_ids_drawn_def sample_env_faultless)
  obtain r db' where d: "DeleteJob job_ids_drawn ''j1'' db = (r, db')" by force
  have r: "r = None" using d db(2) f by (auto simp: DeleteJob_def bind_err_def barrier_def in_context_def statement_def Let_def drop_runs_def)
  have "''j1'' \<notin> set (job_ids db')"
    using DeleteJob_None [of job_ids_drawn "''j1''" db db'] d r by (auto simp: drop_job_def drop_runs_def drop_rules_def drop_dests_def Let_def)
  then have "''j1'' \<notin> set (job_ids (snd (DeleteJob job_ids_drawn ''j1'' db)))" by (simp add: d)
  moreover have "ctTargets (snd (DeleteJob job_ids_drawn ''j1'' db)) = ctTargets db"
    using deleting_a_job_takes_its_history_only [OF db(1) f d] r by (simp add: d)
  ultimately show ?thesis using db(2) by blast
qed

end
