(* ===== verification/Filter_Trial.thy ===== *)
theory Filter_Trial
  imports Run_Filters
begin

text \<open>
  The trial of a job's filters (\<^verbatim>\<open>src/internal/runner/filtertest.go\<close>): a bounded walk of its
  source, and what the chain of each destination decides about every path found. The properties
  say that a trial tells what a run would do, and that it leaves nothing behind.
\<close>

section \<open>One path\<close>

definition DefaultFilterSampleLimit :: int where "DefaultFilterSampleLimit = 100"
definition maxFilterScan :: int where "maxFilterScan = 20000"

record filter_sample =
  fsRelPath :: string
  fsIsDir :: bool
  fsRule :: string

record filter_test_dest =
  ftDestTarget :: string
  ftIncluded :: "filter_sample list"
  ftExcluded :: "filter_sample list"
  ftIncludedTotal :: nat
  ftExcludedTotal :: nat
  ftRules :: "counts list"

record filter_test_result =
  frScannedPaths :: nat
  frTruncated :: bool
  frDests :: "filter_test_dest list"

fun rule_at :: "chain \<Rightarrow> rule_ref \<Rightarrow> rule" where
  "rule_at c (Inc i) = includeRules c ! i"
| "rule_at c (Exc i) = excludeRules c ! i"

definition rule_text :: "chain option \<Rightarrow> rule_ref option \<Rightarrow> string" where
  "rule_text co r = (case (co, r) of (Some c, Some ref) \<Rightarrow> Description (rule_at c ref) | _ \<Rightarrow> [])"

definition entry_is_dir :: "scan_result \<Rightarrow> string \<Rightarrow> bool" where
  "entry_is_dir scan p = (case goget (Entries scan) p of None \<Rightarrow> False | Some e \<Rightarrow> IsDir e)"

definition keep_sample :: "int \<Rightarrow> filter_sample \<Rightarrow> filter_sample list \<Rightarrow> filter_sample list" where
  "keep_sample limit s xs = (if int (length xs) < limit then xs @ [s] else xs)"

definition try_path :: "glob_env \<Rightarrow> int \<Rightarrow> scan_result \<Rightarrow> string \<Rightarrow> filter_test_dest \<times> chain option \<Rightarrow> filter_test_dest \<times> chain option" where
  "try_path ge limit scan p oc =
     (let (out, co) = oc; isDir = entry_is_dir scan p; ((adm, r), co) = Explain ge co p isDir;
          s = \<lparr>fsRelPath = p, fsIsDir = isDir, fsRule = rule_text co r\<rparr>
      in (if adm then out\<lparr>ftIncludedTotal := Suc (ftIncludedTotal out), ftIncluded := keep_sample limit s (ftIncluded out)\<rparr>
          else out\<lparr>ftExcludedTotal := Suc (ftExcludedTotal out), ftExcluded := keep_sample limit s (ftExcluded out)\<rparr>, co))"

definition try_dest :: "glob_env \<Rightarrow> int \<Rightarrow> scan_result \<Rightarrow> string list \<Rightarrow> chain gomap \<Rightarrow> string \<Rightarrow> filter_test_dest" where
  "try_dest ge limit scan paths chs d =
     (let (out, co) = fold (try_path ge limit scan) paths
            (\<lparr>ftDestTarget = d, ftIncluded = [], ftExcluded = [], ftIncludedTotal = 0, ftExcludedTotal = 0, ftRules = []\<rparr>, goget chs d)
      in out\<lparr>ftRules := Counts co\<rparr>)"


section \<open>The trial\<close>

text \<open>What the walk of a root with a limit returns is an argument, as in a run.\<close>

definition trial_scanner :: scanner where
  "trial_scanner = \<lparr>scWorkers = 0, scLimit = maxFilterScan, scPrune = None, scOnProgress = False\<rparr>"

definition sample_limit :: "int \<Rightarrow> int" where
  "sample_limit n = (if n \<le> 0 \<or> 1000 < n then DefaultFilterSampleLimit else n)"

definition trial_result :: "glob_env \<Rightarrow> int \<Rightarrow> chain gomap \<Rightarrow> job \<Rightarrow> scan_result \<Rightarrow> filter_test_result" where
  "trial_result ge limit chs j scan =
     (let paths = sort_Strings (map fst (Entries scan)) in
      \<lparr>frScannedPaths = length paths, frTruncated = Truncated scan,
        frDests = map (try_dest ge limit scan paths chs \<circ> jdTarget) (jbDestinations j)\<rparr>)"

definition FilterTest ::
  "'w site \<Rightarrow> (scanner \<Rightarrow> string \<Rightarrow> 'w \<Rightarrow> goerr + scan_result) \<Rightarrow> job \<Rightarrow> int \<Rightarrow> 'w mgr \<Rightarrow> (goerr + filter_test_result) \<times> 'w mgr" where
  "FilterTest S walk j n m =
     (let limit = sample_limit n in
      case resolveChains S j [] m of
        (Inl e, _, m) \<Rightarrow> (Inl e, m)
      | (Inr (chs, _), _, m) \<Rightarrow>
          (case stTargets S (jbSourceTarget j) of
             Inl e \<Rightarrow> (Inl (wrap ''loading the source target: '' e), m)
           | Inr t \<Rightarrow>
               (case resolve S t (jbSourceSubpath j) m of
                  (Inl e, m) \<Rightarrow> (Inl (wrap2 ErrSourceUnavailable ''the source is unavailable: '' e), m)
                | (Inr (srcRoot, st), m) \<Rightarrow>
                    (case walk trial_scanner srcRoot (mgWorld m) of
                       Inl e \<Rightarrow> (Inl (wrap ''scanning the source: '' e), release_storage S st m)
                     | Inr scan \<Rightarrow> (Inr (trial_result (stGlob S) limit chs j scan), release_storage S st m)))))"


section \<open>What the loops compute\<close>

lemma erase_Explain: "map_option erase (snd (Explain ge co p isDir)) = map_option erase co"
  by (cases co) (auto simp: Explain_def case_prod_beta split: option.splits)

lemma Explain_fst: "fst (Explain ge co p isDir) = (in_scope ge co p isDir, snd (decide ge co p isDir))"
  by (simp add: Explain_def case_prod_beta decide_fst [symmetric])

lemma decide_erased: "map_option erase co = map_option erase co' \<Longrightarrow> snd (decide ge co p isDir) = snd (decide ge co' p isDir)"
  by (cases co; cases co') (auto intro: decide_erase_eq)

lemma in_scope_erased: "map_option erase co = map_option erase co' \<Longrightarrow> in_scope ge co p isDir = in_scope ge co' p isDir"
  by (metis in_scope_erase)

lemma map_nth_in: "map f xs = map f ys \<Longrightarrow> i < length xs \<Longrightarrow> f (xs ! i) = f (ys ! i)"
  by (metis length_map nth_map)

text \<open>The rule a reference names has the same text however often it has been counted.\<close>

lemma Description_erase:
  assumes "erase c = erase c'" "snd (decide ge (Some c) p isDir) = Some ref"
  shows "Description (rule_at c ref) = Description (rule_at c' ref)"
proof -
  have d: "decide ge (Some c) p isDir = (fst (decide ge (Some c) p isDir), Some ref)" using assms(2) by (simp add: prod_eq_iff)
  have e: "map clone (includeRules c) = map clone (includeRules c')" "map clone (excludeRules c) = map clone (excludeRules c')"
    using arg_cong [OF assms(1), of includeRules] arg_cong [OF assms(1), of excludeRules] by (simp_all add: erase_def)
  have same: "clone r = clone r' \<Longrightarrow> Description r = Description r'" for r r' by (simp add: clone_def)
  show ?thesis using decide_rule_ref [OF d] map_nth_in [OF e(1)] map_nth_in [OF e(2)]
    by (cases ref) (auto intro!: same)
qed

definition sample_of :: "glob_env \<Rightarrow> scan_result \<Rightarrow> chain option \<Rightarrow> string \<Rightarrow> filter_sample" where
  "sample_of ge scan co p =
     \<lparr>fsRelPath = p, fsIsDir = entry_is_dir scan p, fsRule = rule_text co (snd (decide ge co p (entry_is_dir scan p)))\<rparr>"

lemma rule_text_erased:
  assumes "map_option erase co' = map_option erase co"
  shows "rule_text co' (snd (decide ge co p isDir)) = rule_text co (snd (decide ge co p isDir))"
proof (cases co)
  case (Some c)
  then obtain c' where "co' = Some c'" "erase c = erase c'" using assms by (cases co') auto
  then show ?thesis using Some Description_erase [of c c' ge p isDir]
    by (auto simp: rule_text_def split: option.split)
qed (use assms in \<open>auto simp: rule_text_def\<close>)

lemma try_path_step:
  assumes "map_option erase co' = map_option erase co"
  shows "try_path ge limit scan p (out, co') =
    (let s = sample_of ge scan co p in
     if in_scope ge co p (entry_is_dir scan p)
     then out\<lparr>ftIncludedTotal := Suc (ftIncludedTotal out), ftIncluded := keep_sample limit s (ftIncluded out)\<rparr>
     else out\<lparr>ftExcludedTotal := Suc (ftExcludedTotal out), ftExcluded := keep_sample limit s (ftExcluded out)\<rparr>,
     snd (try_path ge limit scan p (out, co')))
    \<and> map_option erase (snd (try_path ge limit scan p (out, co'))) = map_option erase co"
proof -
  let ?d = "entry_is_dir scan p"
  obtain adm r co1 where x: "Explain ge co' p ?d = ((adm, r), co1)" by (metis prod.collapse)
  have a: "adm = in_scope ge co p ?d" "r = snd (decide ge co p ?d)" "map_option erase co1 = map_option erase co"
    using Explain_fst [of ge co' p ?d] erase_Explain [of ge co' p ?d] in_scope_erased [OF assms] decide_erased [OF assms] assms
    by (simp_all add: x)
  show ?thesis using a rule_text_erased [OF a(3)] by (simp add: try_path_def x sample_of_def Let_def)
qed

lemma keep_sample_take: "keep_sample limit s (take (nat limit) xs) = take (nat limit) (xs @ [s])"
  by (auto simp: keep_sample_def min_def)

lemma try_paths:
  assumes "map_option erase co' = map_option erase co"
    and "ftIncluded out = take (nat limit) (map (sample_of ge scan co) before_in)" "ftIncludedTotal out = length before_in"
    and "ftExcluded out = take (nat limit) (map (sample_of ge scan co) before_ex)" "ftExcludedTotal out = length before_ex"
  shows "let (out', _) = fold (try_path ge limit scan) paths (out, co');
       ins = before_in @ filter (\<lambda>p. in_scope ge co p (entry_is_dir scan p)) paths;
       exs = before_ex @ filter (\<lambda>p. \<not> in_scope ge co p (entry_is_dir scan p)) paths in
     ftDestTarget out' = ftDestTarget out
     \<and> ftIncluded out' = take (nat limit) (map (sample_of ge scan co) ins) \<and> ftIncludedTotal out' = length ins
     \<and> ftExcluded out' = take (nat limit) (map (sample_of ge scan co) exs) \<and> ftExcludedTotal out' = length exs"
  using assms
proof (induction paths arbitrary: co' out before_in before_ex)
  case (Cons p paths)
  obtain out1 co1 where t: "try_path ge limit scan p (out, co') = (out1, co1)" by fastforce
  note s = try_path_step [OF Cons.prems(1), of ge limit scan p out, unfolded t]
  have co1: "map_option erase co1 = map_option erase co" using s by simp
  show ?case
  proof (cases "in_scope ge co p (entry_is_dir scan p)")
    case True
    have o: "ftIncluded out1 = take (nat limit) (map (sample_of ge scan co) (before_in @ [p]))" "ftIncludedTotal out1 = length (before_in @ [p])"
      "ftExcluded out1 = take (nat limit) (map (sample_of ge scan co) before_ex)" "ftExcludedTotal out1 = length before_ex"
      "ftDestTarget out1 = ftDestTarget out"
      using s True Cons.prems(2-5) keep_sample_take [of limit "sample_of ge scan co p" "map (sample_of ge scan co) before_in"]
      by (simp_all add: Let_def del: take_append)
    show ?thesis using Cons.IH [OF co1 o(1-4)] True o(5) by (simp add: t Let_def case_prod_beta del: take_append)
  next
    case False
    have o: "ftIncluded out1 = take (nat limit) (map (sample_of ge scan co) before_in)" "ftIncludedTotal out1 = length before_in"
      "ftExcluded out1 = take (nat limit) (map (sample_of ge scan co) (before_ex @ [p]))" "ftExcludedTotal out1 = length (before_ex @ [p])"
      "ftDestTarget out1 = ftDestTarget out"
      using s False Cons.prems(2-5) keep_sample_take [of limit "sample_of ge scan co p" "map (sample_of ge scan co) before_ex"]
      by (simp_all add: Let_def del: take_append)
    show ?thesis using Cons.IH [OF co1 o(1-4)] False o(5) by (simp add: t Let_def case_prod_beta del: take_append)
  qed
qed (simp add: Let_def)


lemma try_dest_shows:
  "let inn = filter (\<lambda>p. in_scope ge (goget chs d) p (entry_is_dir scan p)) paths;
       exc = filter (\<lambda>p. \<not> in_scope ge (goget chs d) p (entry_is_dir scan p)) paths;
       out = try_dest ge limit scan paths chs d in
   ftDestTarget out = d \<and> ftIncludedTotal out = length inn \<and> ftExcludedTotal out = length exc
   \<and> ftIncluded out = take (nat limit) (map (sample_of ge scan (goget chs d)) inn)
   \<and> ftExcluded out = take (nat limit) (map (sample_of ge scan (goget chs d)) exc)"
  using try_paths [where co' = "goget chs d" and co = "goget chs d" and ge = ge and limit = limit and scan = scan and paths = paths
      and before_in = "[]" and before_ex = "[]" and out = "\<lparr>ftDestTarget = d, ftIncluded = [], ftExcluded = [], ftIncludedTotal = 0, ftExcludedTotal = 0, ftRules = []\<rparr>"]
  by (simp add: try_dest_def Let_def case_prod_beta)

text \<open>What a destination of the result shows, by the verdicts of its chain.\<close>

definition shows_verdicts :: "glob_env \<Rightarrow> int \<Rightarrow> chain gomap \<Rightarrow> scan_result \<Rightarrow> filter_test_dest \<Rightarrow> bool" where
  "shows_verdicts ge limit chs scan out \<longleftrightarrow>
     (let verdict = (\<lambda>p. fst (chain_Admits ge (goget chs (ftDestTarget out)) p (entry_is_dir scan p)));
          paths = sort_Strings (map fst (Entries scan)) in
      map fsRelPath (ftIncluded out) = take (nat limit) (filter verdict paths)
      \<and> map fsRelPath (ftExcluded out) = take (nat limit) (filter (\<lambda>p. \<not> verdict p) paths)
      \<and> ftIncludedTotal out = length (filter verdict paths)
      \<and> ftIncludedTotal out + ftExcludedTotal out = length (Entries scan))"

lemma relpath_of_sample: "fsRelPath \<circ> sample_of ge scan co = (\<lambda>p. p)"
  by (simp add: sample_of_def fun_eq_iff)

lemma length_paths: "length (sort_Strings (map fst xs)) = length xs"
  by (metis length_map mset_sort_Strings size_mset)

lemma try_dest_verdicts: "shows_verdicts ge limit chs scan (try_dest ge limit scan (sort_Strings (map fst (Entries scan))) chs d)"
  using try_dest_shows [of ge chs d scan "sort_Strings (map fst (Entries scan))" limit]
    sum_length_filter_compl [of "\<lambda>p. in_scope ge (goget chs d) p (entry_is_dir scan p)" "sort_Strings (map fst (Entries scan))"]
  by (simp add: shows_verdicts_def Let_def Admits_fst length_paths relpath_of_sample flip: take_map)

lemma trial_result_shows:
  "frScannedPaths (trial_result ge limit chs j scan) = length (Entries scan)"
  "frTruncated (trial_result ge limit chs j scan) = Truncated scan"
  "map ftDestTarget (frDests (trial_result ge limit chs j scan)) = map jdTarget (jbDestinations j)"
  "list_all (shows_verdicts ge limit chs scan) (frDests (trial_result ge limit chs j scan))"
  using try_dest_shows by (simp_all add: trial_result_def Let_def length_paths list_all_iff try_dest_verdicts)

text \<open>Where a trial ends, and what it holds then.\<close>

lemma FilterTest_ends:
  assumes "mgr_ok m" "FilterTest S walk j n m = (r, m')"
  shows "mgr_refs x m' = mgr_refs x m \<and> mgr_ok m'
    \<and> (isl r \<or> (\<exists>chs prune events m1 root w scan. resolveChains S j [] m = (Inr (chs, prune), events, m1)
        \<and> walk trial_scanner root w = Inr scan \<and> r = Inr (trial_result (stGlob S) (sample_limit n) chs j scan)))"
proof -
  obtain q ev m1 where q: "resolveChains S j [] m = (q, ev, m1)" by (metis prod_cases3)
  note r1 = resolveChains_refs [OF assms(1) q]
  then have ok1: "mgr_ok m1" by blast
  show ?thesis
  proof (cases "isl q \<or> isl (stTargets S (jbSourceTarget j))")
    case True
    then show ?thesis using assms(2) q r1 [of x] by (cases q; cases "stTargets S (jbSourceTarget j)") (auto simp: FilterTest_def Let_def)
  next
    case False
    then obtain chs prune t where c: "q = Inr (chs, prune)" "stTargets S (jbSourceTarget j) = Inr t"
      by (cases q; cases "stTargets S (jbSourceTarget j)") auto
    obtain z m2 where z: "resolve S t (jbSourceSubpath j) m1 = (z, m2)" by fastforce
    note r2 = resolveWith_refs [OF ok1 z]
    show ?thesis
    proof (cases z)
      case (Inl e)
      then show ?thesis using assms(2) q c z r1 [of x] r2(1) r2(2) [of x] by (auto simp: FilterTest_def Let_def)
    next
      case Z: (Inr rs)
      obtain root st where rs: "rs = (root, st)" by fastforce
      have t: "tgID (storage_target st) = tgID t" using r2(3) Z rs by blast
      have "0 \<le> mgr_refs (tgID t) m1" using ok1 by (auto simp: mgr_ok_def mgr_refs_def split: option.split)
      then have le: "storage_weight st \<le> mgr_refs (tgID (storage_target st)) m2" using r2(2) [of "tgID t"] Z rs t by simp
      note r3 = release_storage_refs [OF r2(1) le, where S = S]
      have "mgr_refs x (release_storage S st m2) = mgr_refs x m \<and> mgr_ok (release_storage S st m2)"
        using r3(1) r3(2) [of x] r1 [of x] r2(2) [of x] Z rs t by auto
      then show ?thesis using assms(2) q c z Z rs
        by (cases "walk trial_scanner root (mgWorld m2)") (auto simp: FilterTest_def Let_def)
    qed
  qed
qed

text \<open>
  C29: a trial of the filters tells what a run would do. It counts every path it found, and for each
  destination of the job the paths shown as included are, in order, the first of those the chain a
  run would build for that destination admits, and the excluded ones the first of the others; the
  two totals are the numbers of all of them and add up to the paths found. When the walk was cut
  short it says so. Every mount reference is given back, whether it succeeds or not.
\<close>

theorem trial_tells_what_a_run_would_do:
  assumes "mgr_ok m" and "FilterTest S walk j n m = (r, m')"
  shows "mgr_refs x m' = mgr_refs x m \<and> mgr_ok m'
    \<and> (case r of Inl _ \<Rightarrow> True
       | Inr res \<Rightarrow> \<exists>chs prune events m1 root w scan.
           resolveChains S j [] m = (Inr (chs, prune), events, m1) \<and> walk trial_scanner root w = Inr scan
         \<and> frScannedPaths res = length (Entries scan) \<and> frTruncated res = Truncated scan
         \<and> map ftDestTarget (frDests res) = map jdTarget (jbDestinations j)
         \<and> list_all (\<lambda>out.
             let verdict = (\<lambda>p. fst (chain_Admits (stGlob S) (goget chs (ftDestTarget out)) p (entry_is_dir scan p)));
                 paths = sort_Strings (map fst (Entries scan)) in
             map fsRelPath (ftIncluded out) = take (nat (sample_limit n)) (filter verdict paths)
           \<and> map fsRelPath (ftExcluded out) = take (nat (sample_limit n)) (filter (\<lambda>p. \<not> verdict p) paths)
           \<and> ftIncludedTotal out = length (filter verdict paths)
           \<and> ftIncludedTotal out + ftExcludedTotal out = length (Entries scan)) (frDests res))"
proof (cases r)
  case Inl
  then show ?thesis using FilterTest_ends [OF assms, of x] by simp
next
  case (Inr res)
  then obtain chs prune events m1 root w scan where e: "resolveChains S j [] m = (Inr (chs, prune), events, m1)"
    "walk trial_scanner root w = Inr scan" "res = trial_result (stGlob S) (sample_limit n) chs j scan"
    using FilterTest_ends [OF assms, of x] by auto
  have "list_all (shows_verdicts (stGlob S) (sample_limit n) chs scan) (frDests res)" unfolding e(3) by (rule trial_result_shows)
  then show ?thesis
    using FilterTest_ends [OF assms, of x] Inr e(1,2) trial_result_shows(1-3) [of "stGlob S" "sample_limit n" chs j scan, folded e(3)]
    unfolding shows_verdicts_def by simp blast
qed

text \<open>A trial of the job that excludes one directory, on a source with that directory and a file.\<close>

definition small_walk :: "scanner \<Rightarrow> string \<Rightarrow> mount_info list \<Rightarrow> goerr + scan_result" where
  "small_walk sc r w = Inr (empty_result\<lparr>Entries := [(''cache'', dir_at ''cache''), (''a'', file_at ''a'' 1 10)]\<rparr>)"


definition local_site :: "mount_info list site" where
  "local_site = sample_site\<lparr>stTargets := (\<lambda>i. Inr ((guest_target ''h1'')\<lparr>tgID := i, tgType := TargetLocal, LocalPath := ''/src''\<rparr>))\<rparr>"

lemma local_site_simps:
  "stGlob local_site = plain_glob" "stQuote local_site = id" "stOs local_site = quiet_os" "stGlobals local_site = Inr []"
  "stTargets local_site i = Inr ((guest_target ''h1'')\<lparr>tgID := i, tgType := TargetLocal, LocalPath := ''/src''\<rparr>)"
  by (simp_all add: local_site_def sample_site_def)

lemma local_chains:
  "resolveChains local_site cached_job [] m =
     (Inr ([(''b2'', NewChain [cache_rule]), (''a1'', NewChain [cache_rule])], NewChain [cache_rule]), [], m)"
proof -
  have "compileRule local_site r m = compileRule sample_site r m" if "frSource r = Val SourceInline" for r m
    using that by (simp add: compileRule_def rulePatterns_def local_site_simps) (simp add: sample_site_def local_site_simps cong: sum.case_cong)
  then have "compileRule local_site (hd (jbFilters cached_job)) m = (Inr cache_rule, m)" for m
    using cached_compile by (simp add: cached_job_def)
  then have "compile_rules local_site l 0 0 (jbFilters cached_job) [] [] m
      = (Inr ([\<lparr>rvRule = Some cache_rule, rvScope = Val ScopeJob, rvTarget = [], rvDropped = []\<rparr>], []), [], m)" for l
    by (simp add: cached_job_def add_resolved_def empty_events_def PatternCount_def cache_rule_def)
  moreover have "map jdTarget (jbDestinations cached_job) = [''b2'', ''a1'']"
    by (simp add: cached_job_def sample_job_def job_ApplyDefaults_def)
  moreover have "jbFilters cached_job \<noteq> []" by (simp add: cached_job_def)
  ultimately show ?thesis
    by (simp add: resolveChains_def all_rules_def local_site_simps build_chain_def for_dest_def for_walk_def List.map_filter_simps)
qed

theorem trial_tells_what_a_run_would_do_witness:
  "\<exists>res. fst (FilterTest local_site small_walk cached_job 10 (msMgr (mgr_start []))) = Inr res
     \<and> frScannedPaths res = 2 \<and> map ftDestTarget (frDests res) = [''b2'', ''a1'']"
proof -
  let ?m = "msMgr (mgr_start ([] :: mount_info list))"
  obtain r m' where f: "FilterTest local_site small_walk cached_job 10 ?m = (r, m')" by fastforce
  have ok: "mgr_ok ?m" by (simp add: mgr_ok_def mgr_start_def)
  obtain res where res: "r = Inr res"
    using f by (auto simp: FilterTest_def local_chains local_site_simps resolveWith_def For_def local_Resolve_def local_check_def
        stat_now_def quiet_os_def small_walk_def)
  show ?thesis
    using trial_tells_what_a_run_would_do [OF ok f, of "''a1''"] res f
    by (auto simp: small_walk_def cached_job_def sample_job_def job_ApplyDefaults_def)
qed

end
