(* ===== verification/Api_Jobs.thy ===== *)
theory Api_Jobs
  imports Hooks Catalog_Jobs Filter_Trial
begin

text \<open>
  The handlers of jobs and runs (\<^verbatim>\<open>src/internal/api/jobs.go\<close>, \<^verbatim>\<open>runs.go\<close>) over the tables of the
  store and the registry of runs. A body is what the JSON decoder made of it; a reply is as in
  \<open>Sign_In\<close>. \<open>mid\<close> is what others do to the server between two calls of a handler.
\<close>

section \<open>The server\<close>

record server =
  svDb :: catalog
  svRunner :: runner
  svPlans :: "dest_actions list gomap"

text \<open>The clock and the faults of one request, one environment of the store per call.\<close>

record api_env =
  aiRead :: store_env
  aiWrite :: store_env
  aiAgain :: store_env
  aiNow :: gotime
  aiRunID :: "goerr + string"
  aiRunFault :: "goerr option"
  aiListFault :: "goerr option"
  aiCountFault :: "goerr option"

type_synonym 'p body = "goerr + 'p"


section \<open>Payloads\<close>

record job_payload =
  jpName :: string
  jpSourceTarget :: string
  jpSourceSubpath :: string
  jpMode :: "sync_mode goenum"
  jpCompare :: "compare_method goenum"
  jpToleranceSec :: "int option"
  jpIgnoreDSTHour :: bool
  jpWorkers :: int
  jpLogEveryFile :: bool
  jpOnError :: "error_policy goenum"
  jpDeletePolicy :: "delete_policy goenum"
  jpUnavailable :: "unavailable_policy goenum"
  jpPromptTimeoutSec :: int
  jpPromptFallback :: "prompt_fallback goenum"
  jpCreateDestDirs :: "create_dest_dirs goenum"
  jpParallel :: bool
  jpScheduleCron :: string
  jpEnabled :: "bool option"
  jpDestinations :: "job_destination list"
  jpFilters :: "filter_rule list"

definition toJob :: "job_payload \<Rightarrow> job" where
  "toJob p =
     \<lparr>jbID = [], jbName = jpName p, jbSourceTarget = jpSourceTarget p, jbSourceSubpath = jpSourceSubpath p, jbMode = jpMode p,
      jbCompare = jpCompare p, jbToleranceSec = (case jpToleranceSec p of None \<Rightarrow> 0 | Some n \<Rightarrow> n),
      jbIgnoreDSTHour = jpIgnoreDSTHour p, jbWorkers = jpWorkers p, jbOnError = jpOnError p, jbDeletePolicy = jpDeletePolicy p,
      jbLogEveryFile = jpLogEveryFile p, jbUnavailable = jpUnavailable p, jbPromptTimeoutSec = jpPromptTimeoutSec p,
      jbPromptFallback = jpPromptFallback p, jbCreateDestDirs = jpCreateDestDirs p, jbParallel = jpParallel p,
      jbScheduleCron = TrimSpace (jpScheduleCron p), jbEnabled = (jpEnabled p = None \<or> jpEnabled p = Some True),
      jbNextRunAt = zero_time, jbDestinations = jpDestinations p, jbFilters = map (\<lambda>f. f\<lparr>frID := []\<rparr>) (jpFilters p)\<rparr>"


section \<open>Jobs\<close>

definition job_error :: "goerr \<Rightarrow> 'b http_reply" where
  "job_error e =
     (if errors_Is e ErrNotFound then Problem 404 ''not_found'' (err_text e)
      else if errors_Is e ErrNameTaken then Problem 409 ''name_taken'' []
      else Problem 400 ''invalid_job'' [])"

definition handleCreateJob :: "api_env \<Rightarrow> job_payload body \<Rightarrow> server \<Rightarrow> job http_reply \<times> server" where
  "handleCreateJob E b sv =
     (case b of
        Inl e \<Rightarrow> (Problem 400 ''invalid_body'' (err_text e), sv)
      | Inr p \<Rightarrow>
          (case CreateJob (aiWrite E) (toJob p) (svDb sv) of
             (Inl e, db) \<Rightarrow> (job_error e, sv\<lparr>svDb := db\<rparr>)
           | (Inr job, db) \<Rightarrow> (Okay 201 job, sv\<lparr>svDb := db\<rparr>)))"

definition handleListJobs :: "api_env \<Rightarrow> server \<Rightarrow> job list http_reply" where
  "handleListJobs E sv =
     (case ListJobs (aiRead E) (svDb sv) of Inl e \<Rightarrow> Problem 500 ''list_failed'' (err_text e) | Inr jobs \<Rightarrow> Okay 200 jobs)"

definition handleGetJob :: "api_env \<Rightarrow> string \<Rightarrow> server \<Rightarrow> job http_reply" where
  "handleGetJob E i sv = (case GetJob (aiRead E) i (svDb sv) of Inl e \<Rightarrow> job_error e | Inr job \<Rightarrow> Okay 200 job)"

definition handleDeleteJob :: "(nat \<Rightarrow> server \<Rightarrow> server) \<Rightarrow> api_env \<Rightarrow> string \<Rightarrow> server \<Rightarrow> unit http_reply \<times> server" where
  "handleDeleteJob mid E i sv =
     (if ActiveForJob i (svRunner sv) then (Problem 409 ''job_running'' [], sv)
      else let sv = mid 0 sv in
           case DeleteJob (aiWrite E) i (svDb sv) of
             (Some e, db) \<Rightarrow> (job_error e, sv\<lparr>svDb := db\<rparr>)
           | (None, db) \<Rightarrow> (Okay 204 (), sv\<lparr>svDb := db\<rparr>))"

text \<open>The row of a new run; the schema wants its job and its targets to exist.\<close>

definition create_run :: "api_env \<Rightarrow> job \<Rightarrow> run_trigger \<Rightarrow> catalog \<Rightarrow> (goerr + run_row) \<times> run_tables" where
  "create_run E j trigger db =
     CreateRun (first_error [aiRunFault E,
         reject_if (jbID j \<notin> set (job_ids db) \<or> \<not> set (destTargetIDs j) \<subseteq> set (target_ids db)) foreign_key_text])
       (aiRunID E) (aiNow E) (jbID j) trigger (destTargetIDs j) (ctRuns db)"

definition start_db_of :: "api_env \<Rightarrow> job \<Rightarrow> catalog \<Rightarrow> start_db" where
  "start_db_of E j db =
     \<lparr>sdTarget = (\<lambda>i. case GetTarget (aiAgain E) i db of Inl e \<Rightarrow> Some e | Inr t \<Rightarrow> None),
      sdCreate = (\<lambda>trigger. case fst (create_run E j trigger db) of Inl e \<Rightarrow> Inl e | Inr r \<Rightarrow> Inr (rrID r))\<rparr>"

definition start_run :: "api_env \<Rightarrow> job \<Rightarrow> bool \<Rightarrow> server \<Rightarrow> (goerr + string) \<times> server" where
  "start_run E j preview sv =
     (case start (seQuote (aiAgain E)) (start_db_of E j (svDb sv)) (aiNow E) j preview TriggerManual (svRunner sv) of
        (Inl e, r) \<Rightarrow> (Inl e, sv\<lparr>svRunner := r\<rparr>)
      | (Inr runID, r) \<Rightarrow>
          (Inr runID, sv\<lparr>svRunner := r, svDb := (svDb sv)\<lparr>ctRuns := snd (create_run E j TriggerManual (svDb sv))\<rparr>\<rparr>))"

definition newest_run :: "api_env \<Rightarrow> string \<Rightarrow> catalog \<Rightarrow> run_row option" where
  "newest_run E jobID db =
     (if aiListFault E \<noteq> None then None
      else case ListRuns jobID None 1 (ctRuns db) of [] \<Rightarrow> None | (r, _) # _ \<Rightarrow> Some r)"

definition preview_hint :: string where
  "preview_hint = ''Open it to confirm or cancel it, and this job can run again. ''
     @ ''It cancels itself on its own deadline if nobody answers.''"

text \<open>An absent body is a plain run.\<close>

definition run_body :: "bool body \<Rightarrow> goerr + bool" where
  "run_body b = (case b of Inl e \<Rightarrow> if errors_Is e EOF then Inr False else Inl e | Inr preview \<Rightarrow> Inr preview)"

definition handleRunJob :: "(nat \<Rightarrow> server \<Rightarrow> server) \<Rightarrow> api_env \<Rightarrow> string \<Rightarrow> bool body \<Rightarrow> server \<Rightarrow> string http_reply \<times> server" where
  "handleRunJob mid E i b sv =
     (case GetJob (aiRead E) i (svDb sv) of
        Inl e \<Rightarrow> (job_error e, sv)
      | Inr job \<Rightarrow>
          (case run_body b of
             Inl e \<Rightarrow> (Problem 400 ''invalid_body'' (err_text e), sv)
           | Inr preview \<Rightarrow>
               (case start_run E job preview (mid 0 sv) of
                  (Inr runID, sv) \<Rightarrow> (Okay 202 runID, sv)
                | (Inl e, sv) \<Rightarrow>
                    ((if errors_Is e ErrAlreadyRunning
                      then Problem 409 ''already_running''
                        (if map_option rrStatus (newest_run E (jbID job) (svDb sv)) = Some RunAwaitingConfirmation then preview_hint else [])
                      else job_error e), sv))))"

definition handleFilterTest ::
  "'w site \<Rightarrow> (scanner \<Rightarrow> string \<Rightarrow> 'w \<Rightarrow> goerr + scan_result) \<Rightarrow> api_env \<Rightarrow> string \<Rightarrow> int body option \<Rightarrow> catalog \<Rightarrow> 'w mgr \<Rightarrow>
   filter_test_result http_reply \<times> 'w mgr" where
  "handleFilterTest S walk E i b db m =
     (case GetJob (aiRead E) i db of
        Inl e \<Rightarrow> (job_error e, m)
      | Inr job \<Rightarrow>
          (case b of
             Some (Inl e) \<Rightarrow> (Problem 400 ''invalid_body'' (err_text e), m)
           | _ \<Rightarrow>
               (case FilterTest S walk job (case b of Some (Inr n) \<Rightarrow> n | _ \<Rightarrow> 0) m of
                  (Inl e, m) \<Rightarrow> (if errors_Is e ErrSourceUnavailable then Problem 502 ''source_unavailable'' [] else Problem 400 ''filter_test_failed'' [], m)
                | (Inr res, m) \<Rightarrow> (Okay 200 res, m))))"

definition running_row :: "api_env \<Rightarrow> string \<Rightarrow> catalog \<Rightarrow> bool" where
  "running_row E i db \<longleftrightarrow> aiListFault E = None \<and> ListRuns i (Some RunRunning) 1 (ctRuns db) \<noteq> []"

definition handleUpdateJob :: "(nat \<Rightarrow> server \<Rightarrow> server) \<Rightarrow> api_env \<Rightarrow> string \<Rightarrow> job_payload body \<Rightarrow> server \<Rightarrow> job http_reply \<times> server" where
  "handleUpdateJob mid E i b sv =
     (if ActiveForJob i (svRunner sv) then (Problem 409 ''job_running'' [], sv)
      else let sv = mid 0 sv in
      if running_row E i (svDb sv) then (Problem 409 ''job_running'' [], sv)
      else case b of
        Inl e \<Rightarrow> (Problem 400 ''invalid_body'' (err_text e), sv)
      | Inr p \<Rightarrow>
          let sv = mid 1 sv in
          (case UpdateJob (aiWrite E) i (toJob p) (svDb sv) of
             (Inl e, db) \<Rightarrow> (job_error e, sv\<lparr>svDb := db\<rparr>)
           | (Inr _, db) \<Rightarrow>
               let sv = mid 2 (sv\<lparr>svDb := db\<rparr>) in
               (case GetJob (aiAgain E) i (svDb sv) of Inl e \<Rightarrow> (job_error e, sv) | Inr job \<Rightarrow> (Okay 200 job, sv))))"

definition handleConfirmJob :: "(nat \<Rightarrow> server \<Rightarrow> server) \<Rightarrow> api_env \<Rightarrow> string \<Rightarrow> server \<Rightarrow> string http_reply \<times> server" where
  "handleConfirmJob mid E i sv =
     (case GetJob (aiRead E) i (svDb sv) of
        Inl e \<Rightarrow> (job_error e, sv)
      | Inr _ \<Rightarrow>
          let sv = mid 0 sv; (runID, parked) = AwaitingConfirmation i (svRunner sv) in
          if \<not> parked then (Problem 409 ''not_awaiting_confirmation'' [], sv)
          else let sv = mid 1 sv in
               (case Confirm runID (svRunner sv) of
                  (Some e, r) \<Rightarrow> (if errors_Is e ErrNotRunning then Problem 409 ''not_running'' [] else Problem 500 ''confirm_failed'' (err_text e), sv\<lparr>svRunner := r\<rparr>)
                | (None, r) \<Rightarrow> (Okay 200 runID, sv\<lparr>svRunner := r\<rparr>)))"


section \<open>Runs\<close>

definition run_error :: "goerr \<Rightarrow> 'b http_reply" where
  "run_error e = (if errors_Is e ErrNotFound then Problem 404 ''not_found'' (err_text e) else Problem 500 ''run_error'' [])"

text \<open>A status or level a query names; a text that is none of them matches no row.\<close>

definition status_query :: "string \<Rightarrow> run_status option option" where
  "status_query q =
     (if q = [] then Some None
      else map_option Some (find (\<lambda>s. run_status_text s = q) [RunRunning, RunAwaitingConfirmation, RunSuccess, RunPartial, RunFailed, RunCancelled]))"

definition level_query :: "string \<Rightarrow> event_level option option" where
  "level_query q =
     (if q = [] then Some None
      else if q = ''info'' then Some (Some LevelInfo) else if q = ''warn'' then Some (Some LevelWarn)
      else if q = ''error'' then Some (Some LevelError) else None)"

definition or_zero :: "int option \<Rightarrow> int" where
  "or_zero n = (case n of None \<Rightarrow> 0 | Some n \<Rightarrow> n)"

definition handleListRuns :: "api_env \<Rightarrow> string \<Rightarrow> string \<Rightarrow> int option \<Rightarrow> server \<Rightarrow> (run_row \<times> run_destination list) list http_reply" where
  "handleListRuns E jobID status limit sv =
     (case aiListFault E of
        Some e \<Rightarrow> Problem 500 ''list_failed'' (err_text (wrap ''listing runs: '' e))
      | None \<Rightarrow> Okay 200 (case status_query status of None \<Rightarrow> [] | Some st \<Rightarrow> ListRuns jobID st (or_zero limit) (ctRuns (svDb sv))))"

record run_response =
  rpRun :: "run_row \<times> run_destination list"
  rpProgress :: "run_snapshot option"
  rpCounts :: "(event_level \<Rightarrow> nat option) option"

definition read_run :: "api_env \<Rightarrow> string \<Rightarrow> server \<Rightarrow> goerr + run_row \<times> run_destination list" where
  "read_run E i sv = GetRun (aiRunFault E) i (ctRuns (svDb sv))"

definition handleGetRun :: "api_env \<Rightarrow> string \<Rightarrow> server \<Rightarrow> run_response http_reply" where
  "handleGetRun E i sv =
     (case read_run E i sv of
        Inl e \<Rightarrow> run_error e
      | Inr run \<Rightarrow>
          Okay 200 \<lparr>rpRun = run, rpProgress = run_progress (svRunner sv) (rrID (fst run)) (aiNow E),
            rpCounts = (if aiCountFault E = None then Some (CountEventsByLevel (rrID (fst run)) (ctEvents (svDb sv))) else None)\<rparr>)"

definition handleRunEvents :: "api_env \<Rightarrow> string \<Rightarrow> string \<Rightarrow> string \<Rightarrow> int option \<Rightarrow> int option \<Rightarrow> server \<Rightarrow> event_row list http_reply" where
  "handleRunEvents E i lv dest limit offset sv =
     (case read_run E i sv of
        Inl e \<Rightarrow> run_error e
      | Inr _ \<Rightarrow>
          (case aiListFault E of
             Some e \<Rightarrow> Problem 500 ''list_failed'' (err_text (wrap ''listing run events: '' e))
           | None \<Rightarrow>
               Okay 200 (case level_query lv of
                 None \<Rightarrow> []
               | Some l \<Rightarrow> ListEvents \<lparr>efRunID = i, efJobID = [], efLevel = l, efDest = dest, efSince = zero_time, efNewest = False,
                    efLimit = or_zero limit, efOffset = or_zero offset\<rparr> (ctRuns (svDb sv)) (ctEvents (svDb sv)))))"

definition handleCancelRun :: "(nat \<Rightarrow> server \<Rightarrow> server) \<Rightarrow> api_env \<Rightarrow> string \<Rightarrow> server \<Rightarrow> unit http_reply \<times> server" where
  "handleCancelRun mid E i sv =
     (case run_Cancel i (svRunner sv) of
        (None, r) \<Rightarrow> (Okay 202 (), sv\<lparr>svRunner := r\<rparr>)
      | (Some e, r) \<Rightarrow>
          let sv = sv\<lparr>svRunner := r\<rparr> in
          if errors_Is e ErrNotRunning
          then let sv = mid 0 sv in
               (case read_run E i sv of Inl e \<Rightarrow> (run_error e, sv) | Inr _ \<Rightarrow> (Problem 409 ''not_running'' [], sv))
          else (Problem 500 ''cancel_failed'' (err_text e), sv))"

text \<open>\<open>PlanFor\<close>: what the run published, while it is held.\<close>

definition published_plans :: "string \<Rightarrow> server \<Rightarrow> dest_actions list option" where
  "published_plans i sv =
     (case goget (rnActive (svRunner sv)) i of
        None \<Rightarrow> None
      | Some _ \<Rightarrow> Some (case goget (svPlans sv) i of None \<Rightarrow> [] | Some ps \<Rightarrow> ps))"

definition handleRunPlan :: "(nat \<Rightarrow> server \<Rightarrow> server) \<Rightarrow> api_env \<Rightarrow> string \<Rightarrow> server \<Rightarrow> dest_actions list http_reply \<times> server" where
  "handleRunPlan mid E i sv =
     (case published_plans i sv of
        Some ps \<Rightarrow> (Okay 200 ps, sv)
      | None \<Rightarrow>
          let sv = mid 0 sv in
          (case read_run E i sv of Inl e \<Rightarrow> (run_error e, sv) | Inr _ \<Rightarrow> (Problem 409 ''no_plan'' [], sv)))"

definition handlePrompt :: "(nat \<Rightarrow> server \<Rightarrow> server) \<Rightarrow> api_env \<Rightarrow> string \<Rightarrow> (prompt_action \<times> string) body \<Rightarrow> server \<Rightarrow> unit http_reply \<times> server" where
  "handlePrompt mid E i b sv =
     (case read_run E i sv of
        Inl e \<Rightarrow> (run_error e, sv)
      | Inr _ \<Rightarrow>
          (case b of
             Inl e \<Rightarrow> (Problem 400 ''invalid_json'' (err_text e), sv)
           | Inr (act, dest) \<Rightarrow>
               if dest = [] then (Problem 400 ''missing_destination'' [], sv)
               else if \<not> ValidPromptAction act then (Problem 400 ''invalid_action'' (case act of PromptOther s \<Rightarrow> s | _ \<Rightarrow> []), sv)
               else let sv = mid 0 sv in
                    (case AnswerPrompt (seQuote (aiRead E)) i dest act (svRunner sv) of
                       (None, r) \<Rightarrow> (Okay 200 (), sv\<lparr>svRunner := r\<rparr>)
                     | (Some e, r) \<Rightarrow>
                         ((if errors_Is e ErrNotRunning then Problem 409 ''not_running'' []
                           else if errors_Is e ErrNoSuchPrompt then Problem 409 ''no_such_prompt'' []
                           else Problem 500 ''prompt_failed'' (err_text e)), sv\<lparr>svRunner := r\<rparr>))))"


section \<open>Properties\<close>

abbreviation quiet :: "nat \<Rightarrow> server \<Rightarrow> server" where "quiet \<equiv> \<lambda>_ sv. sv"

text \<open>
  an edit is stored as it was sent, or not at all. When the server accepts a changed job, no run
  of it was reserved when it looked, the reply is the job as stored, that is the payload with the
  defaults filled in under the same identifier, and no other job, target or run has changed; on any
  other reply every table is as it was.
\<close>

theorem accepted_edit_is_what_was_sent:
  assumes "(catalog_step W)\<^sup>*\<^sup>* fresh_catalog (svDb sv)" and "of_world W (aiWrite E)" and "faultless (aiAgain E)"
    and "handleUpdateJob quiet E i (Inr p) sv = (reply, sv')"
  shows "(case reply of
      Problem code c d \<Rightarrow> svDb sv' = svDb sv
    | Okay code job \<Rightarrow> \<not> ActiveForJob i (svRunner sv) \<and> jbID job = i \<and> same_job (job_ApplyDefaults (toJob p)) job
        \<and> GetJob (aiAgain E) i (svDb sv') = Inr job \<and> (\<forall>k. k = i \<or> GetJob (aiAgain E) k (svDb sv') = GetJob (aiAgain E) k (svDb sv)))
    \<and> svRunner sv' = svRunner sv"
proof (cases "ActiveForJob i (svRunner sv) \<or> running_row E i (svDb sv)")
  case True
  then show ?thesis using assms(4) by (auto simp: handleUpdateJob_def Let_def split: if_splits)
next
  case False
  obtain r db where u: "UpdateJob (aiWrite E) i (toJob p) (svDb sv) = (r, db)" by fastforce
  show ?thesis
  proof (cases r)
    case (Inl e)
    then have "db = svDb sv" using u by (auto simp: UpdateJob_def Let_def split: option.splits dest: in_tx_Inl)
    then show ?thesis using assms(4) False u Inl by (auto simp: handleUpdateJob_def job_error_def Let_def)
  next
    case (Inr j)
    note c = changed_reads [OF ok_reachable [OF assms(1)] assms(2) u [unfolded Inr] assms(3)]
    have "reply = Okay 200 j \<and> sv' = sv\<lparr>svDb := db\<rparr>" using assms(4) False u Inr c by (auto simp: handleUpdateJob_def Let_def)
    then show ?thesis using c False by simp
  qed
qed

lemma CreateRun_Inr:
  "CreateRun fault newID now j trig ds db = (Inr r, db') \<Longrightarrow> fault = None \<and> newID = Inr (rrID r) \<and> rrJobID r = j \<and> rrStatus r = RunRunning
     \<and> db' = db\<lparr>rtRuns := rtRuns db @ [r], rtDests := rtDests db @ map (pending_dest (rrID r)) ds\<rparr> \<and> rrID r \<notin> rrID ` set (rtRuns db)"
  by (auto simp: CreateRun_def Let_def split: sum.splits option.splits if_splits)

lemma start_Inr:
  "start uq db now j preview trigger r = (Inr runID, r') \<Longrightarrow> sdCreate db trigger = Inr runID \<and> goget (rnByJob r) (jbID j) = None
     \<and> goget (rnByJob r') (jbID j) = Some runID \<and> goget (rnActive r') runID = Some (new_handle now runID (jbID j) (destTargetIDs j) preview)"
  by (auto simp: start_def start_reserve_def start_publish_def new_handle_def gm.get_put split: option.splits list.splits sum.splits if_splits)

lemma start_Inl:
  "start uq db now j preview trigger r = (Inl e, r') \<Longrightarrow>
     rnActive r' = rnActive r \<and> (\<forall>k. goget (rnByJob r') k = goget (rnByJob r) k) \<and> rnQueued r' = rnQueued r \<and> rnClosing r' = rnClosing r"
  by (auto simp: start_def start_reserve_def start_failed_def gm.get_put AList.delete_conv' split: option.splits list.splits sum.splits if_splits)

text \<open>
  C21: starting is all or nothing. When the server says that a run was started, whatever happened
  between its calls: the tables hold a new row for it, running, of a job and with destinations that
  are stored, the registry holds the run for that job, and no run held the job before. When it says
  anything else the tables are untouched and the registry holds the runs, and the jobs for them,
  that it held.
\<close>

theorem start_is_all_or_nothing:
  assumes "handleRunJob mid E i b sv = (reply, sv')"
  shows "case reply of
      Okay code runID \<Rightarrow> (\<exists>j r. GetJob (aiRead E) i (svDb sv) = Inr j \<and> rtRuns (ctRuns (svDb sv')) = rtRuns (ctRuns (svDb (mid 0 sv))) @ [r]
          \<and> rrID r = runID \<and> rrJobID r = jbID j \<and> rrStatus r = RunRunning \<and> runID \<notin> rrID ` set (rtRuns (ctRuns (svDb (mid 0 sv))))
          \<and> jbID j \<in> set (job_ids (svDb sv')) \<and> set (destTargetIDs j) \<subseteq> set (target_ids (svDb sv'))
          \<and> runDestinations runID (ctRuns (svDb sv')) = runDestinations runID (ctRuns (svDb (mid 0 sv))) @ map (pending_dest runID) (destTargetIDs j)
          \<and> \<not> ActiveForJob (jbID j) (svRunner (mid 0 sv)) \<and> goget (rnByJob (svRunner sv')) (jbID j) = Some runID)
    | Problem code c d \<Rightarrow> sv' = sv \<or> svDb sv' = svDb (mid 0 sv) \<and> rnActive (svRunner sv') = rnActive (svRunner (mid 0 sv))
        \<and> (\<forall>k. ActiveForJob k (svRunner sv') = ActiveForJob k (svRunner (mid 0 sv)))"
proof (cases "GetJob (aiRead E) i (svDb sv)")
  case (Inl e)
  then show ?thesis using assms by (auto simp: handleRunJob_def job_error_def)
next
  case (Inr j)
  show ?thesis
  proof (cases "run_body b")
    case B: (Inl e)
    then show ?thesis using assms Inr by (auto simp: handleRunJob_def)
  next
    case B: (Inr preview)
    obtain q r' where q: "start (seQuote (aiAgain E)) (start_db_of E j (svDb (mid 0 sv))) (aiNow E) j preview TriggerManual (svRunner (mid 0 sv)) = (q, r')"
      by fastforce
    show ?thesis
    proof (cases q)
      case Q: (Inl e)
      then show ?thesis using assms Inr B q start_Inl [OF q [unfolded Q]]
        by (auto simp: handleRunJob_def start_run_def job_error_def ActiveForJob_def)
    next
      case Q: (Inr runID)
      note st = start_Inr [OF q [unfolded Q]]
      obtain row rt where c: "create_run E j TriggerManual (svDb (mid 0 sv)) = (Inr row, rt)" "rrID row = runID"
        using st by (cases "create_run E j TriggerManual (svDb (mid 0 sv))") (auto simp: start_db_of_def split: sum.splits)
      note cr = CreateRun_Inr [OF c(1) [unfolded create_run_def]]
      then have fk: "jbID j \<in> set (job_ids (svDb (mid 0 sv)))" "set (destTargetIDs j) \<subseteq> set (target_ids (svDb (mid 0 sv)))"
        by (auto split: if_splits option.splits)
      have s: "reply = Okay 202 runID" "sv' = (mid 0 sv)\<lparr>svRunner := r', svDb := (svDb (mid 0 sv))\<lparr>ctRuns := rt\<rparr>\<rparr>"
        using assms Inr B q Q c by (auto simp: handleRunJob_def start_run_def)
      have "runDestinations runID rt = runDestinations runID (ctRuns (svDb (mid 0 sv))) @ map (pending_dest runID) (destTargetIDs j)"
        using cr c(2) by (simp add: runDestinations_def pending_dest_def filter_map o_def)
      then show ?thesis using s cr c(2) fk st Inr by (auto simp: ActiveForJob_def)
    qed
  qed
qed

text \<open>
  The guard of an edit or a deletion looks before it acts: a run that starts in between is not seen.
  The job is deleted, with the row of that run, which the registry goes on holding.
\<close>

lemma run_started_under_a_deletion:
  assumes "\<not> ActiveForJob i (svRunner sv)" "DeleteJob (aiWrite E) i (svDb (mid 0 sv)) = (None, db)"
  shows "handleDeleteJob mid E i sv = (Okay 204 (), (mid 0 sv)\<lparr>svDb := db\<rparr>)
    \<and> filter (\<lambda>r. rrJobID r = i) (rtRuns (ctRuns db)) = []"
  using assms DeleteJob_None [OF assms(2)]
  by (auto simp: handleDeleteJob_def Let_def drop_job_def drop_runs_def drop_rules_def drop_dests_def filter_empty_conv)


section \<open>A job that is made, edited and run\<close>

definition sample_payload :: job_payload where
  "sample_payload = \<lparr>jpName = jbName sample_job, jpSourceTarget = jbSourceTarget sample_job, jpSourceSubpath = jbSourceSubpath sample_job,
     jpMode = jbMode sample_job, jpCompare = jbCompare sample_job, jpToleranceSec = Some (jbToleranceSec sample_job),
     jpIgnoreDSTHour = jbIgnoreDSTHour sample_job, jpWorkers = jbWorkers sample_job, jpLogEveryFile = jbLogEveryFile sample_job,
     jpOnError = jbOnError sample_job, jpDeletePolicy = jbDeletePolicy sample_job, jpUnavailable = jbUnavailable sample_job,
     jpPromptTimeoutSec = jbPromptTimeoutSec sample_job, jpPromptFallback = jbPromptFallback sample_job,
     jpCreateDestDirs = jbCreateDestDirs sample_job, jpParallel = jbParallel sample_job, jpScheduleCron = jbScheduleCron sample_job,
     jpEnabled = Some (jbEnabled sample_job), jpDestinations = jbDestinations sample_job, jpFilters = jbFilters sample_job\<rparr>"

lemma sample_payload_job: "toJob sample_payload = sample_job\<lparr>jbID := [], jbNextRunAt := zero_time, jbFilters := map (\<lambda>f. f\<lparr>frID := []\<rparr>) (jbFilters sample_job)\<rparr>"
proof -
  have "TrimSpace (jbScheduleCron sample_job) = jbScheduleCron sample_job"
    by (simp add: sample_job_def job_ApplyDefaults_def TrimSpace_graphic)
  then show ?thesis by (simp add: toJob_def sample_payload_def)
qed

lemma defaults_of_copy:
  assumes "job_ApplyDefaults j = j"
  shows "job_ApplyDefaults (j\<lparr>jbID := i, jbNextRunAt := t, jbFilters := map (\<lambda>f. f\<lparr>frID := []\<rparr>) (jbFilters j)\<rparr>)
    = j\<lparr>jbID := i, jbNextRunAt := t, jbFilters := map (\<lambda>f. f\<lparr>frID := []\<rparr>) (jbFilters j)\<rparr>"
proof -
  have f: "rule_ApplyDefaults f = f" if "f \<in> set (jbFilters j)" for f
  proof -
    have "jbFilters (job_ApplyDefaults j) = map rule_ApplyDefaults (jbFilters j)" by (simp add: job_ApplyDefaults_def)
    then have "map rule_ApplyDefaults (jbFilters j) = map (\<lambda>f. f) (jbFilters j)" using assms by simp
    then show ?thesis using that by (simp only: map_eq_conv)
  qed
  have "rule_ApplyDefaults (f\<lparr>frID := []\<rparr>) = f\<lparr>frID := []\<rparr>" if "f \<in> set (jbFilters j)" for f
    using arg_cong [OF f [OF that], of "\<lambda>f. f\<lparr>frID := []\<rparr>"] by (cases f) (simp add: rule_ApplyDefaults_def)
  then have g: "map (\<lambda>f. rule_ApplyDefaults (f\<lparr>frID := []\<rparr>)) (jbFilters j) = map (\<lambda>f. f\<lparr>frID := []\<rparr>) (jbFilters j)" by simp
  have "job_ApplyDefaults (j\<lparr>jbID := i, jbNextRunAt := t, jbFilters := fs\<rparr>)
      = (job_ApplyDefaults j)\<lparr>jbID := i, jbNextRunAt := t, jbFilters := map rule_ApplyDefaults fs\<rparr>" for fs
    by (cases j) (simp add: job_ApplyDefaults_def)
  then show ?thesis using g by (simp add: assms o_def)
qed

definition stored_server :: server where
  "stored_server = \<lparr>svDb = snd (CreateJob job_ids_drawn sample_job two_targets), svRunner = New, svPlans = []\<rparr>"

definition sample_api :: api_env where
  "sample_api = \<lparr>aiRead = job_ids_drawn, aiWrite = sample_env [''d3'', ''d4'', ''r2''], aiAgain = job_ids_drawn, aiNow = 0,
     aiRunID = Inr ''run1'', aiRunFault = None, aiListFault = None, aiCountFault = None\<rparr>"

lemma stored_reachable: "(catalog_step sample_world)\<^sup>*\<^sup>* fresh_catalog (svDb stored_server)"
  using reachable_after [OF two_targets_reachable job_made [of _ job_ids_drawn _ sample_job]] sample_env_of
  by (simp add: job_ids_drawn_def stored_server_def)

lemma payload_valid: "job_Validate id (wdCron sample_world) (job_ApplyDefaults (toJob sample_payload)) = None"
proof -
  have d: "job_ApplyDefaults (toJob sample_payload) = sample_job\<lparr>jbID := [], jbNextRunAt := zero_time, jbFilters := map (\<lambda>f. f\<lparr>frID := []\<rparr>) (jbFilters sample_job)\<rparr>"
    unfolding sample_payload_job by (rule defaults_of_copy [OF sample_job_defaulted])
  have "same_job sample_job (job_ApplyDefaults (toJob sample_payload))" unfolding d same_job_def by (simp add: o_def)
  then show ?thesis using job_Validate_same [of sample_job] sample_job_valid by metis
qed

lemma stored_form: "\<exists>t f. svDb stored_server = two_targets\<lparr>
    ctJobs := [\<lparr>jwJob = columns (sample_job\<lparr>jbID := ''j1'', jbNextRunAt := t\<rparr>), jwCreated = 0, jwUpdated = 0\<rparr>],
    ctDests := [\<lparr>dwID = ''d1'', dwJobID = ''j1'', dwDest = \<lparr>jdTarget = ''b2'', jdSubpath = ''backup''\<rparr>, dwPosition = 0\<rparr>,
      \<lparr>dwID = ''d2'', dwJobID = ''j1'', dwDest = \<lparr>jdTarget = ''a1'', jdSubpath = ''copy''\<rparr>, dwPosition = 1\<rparr>],
    ctRules := [\<lparr>wrJobID = ''j1'', wrRule = f, wrPosition = 0, wrCreated = 0\<rparr>]\<rparr>"
proof -
  obtain f where f: "jbFilters sample_job = [f]" "rule_Validate id (rule_ApplyDefaults f) = None"
    using sample_fields(4) by (cases "jbFilters sample_job") auto
  obtain t where t: "RefreshNextRun id (wdCron sample_world) 0 (sample_job\<lparr>jbID := ''j1''\<rparr>) = sample_job\<lparr>jbID := ''j1'', jbNextRunAt := t\<rparr>"
    using RefreshNextRun_same by blast
  show ?thesis unfolding stored_server_def
    using f t sample_job_valid sample_fields(1-3)
    by (intro exI [of _ t] exI [of _ "(rule_ApplyDefaults f)\<lparr>frID := ''r1''\<rparr>"]) (simp add: sample_job_defaulted CreateJob_def job_ids_drawn_def sample_env_def in_tx_def bind_err_def barrier_def taken_or_def insert_job_def
        statement_def two_targets_def fresh_catalog_def local_target_def insertJobChildren_def columns_def
        insertFilterRule_def in_context_def Let_def)
qed


lemma edit_accepted: "\<exists>job sv. handleUpdateJob quiet sample_api ''j1'' (Inr sample_payload) stored_server = (Okay 200 job, sv)"
proof -
  obtain t f where db: "svDb stored_server = two_targets\<lparr>
    ctJobs := [\<lparr>jwJob = columns (sample_job\<lparr>jbID := ''j1'', jbNextRunAt := t\<rparr>), jwCreated = 0, jwUpdated = 0\<rparr>],
    ctDests := [\<lparr>dwID = ''d1'', dwJobID = ''j1'', dwDest = \<lparr>jdTarget = ''b2'', jdSubpath = ''backup''\<rparr>, dwPosition = 0\<rparr>,
      \<lparr>dwID = ''d2'', dwJobID = ''j1'', dwDest = \<lparr>jdTarget = ''a1'', jdSubpath = ''copy''\<rparr>, dwPosition = 1\<rparr>],
    ctRules := [\<lparr>wrJobID = ''j1'', wrRule = f, wrPosition = 0, wrCreated = 0\<rparr>]\<rparr>" using stored_form by blast
  obtain g where g: "jbFilters sample_job = [g]" "rule_Validate id (rule_ApplyDefaults g) = None"
    using sample_fields(4) by (cases "jbFilters sample_job") auto
  let ?j = "sample_job\<lparr>jbID := [], jbNextRunAt := zero_time, jbFilters := [g\<lparr>frID := []\<rparr>]\<rparr>"
  have d: "job_ApplyDefaults (toJob sample_payload) = ?j"
    unfolding sample_payload_job using defaults_of_copy [OF sample_job_defaulted, where i = "[]" and t = zero_time] g(1) by simp
  have v: "rule_Validate id (rule_ApplyDefaults (g\<lparr>frID := []\<rparr>)) = None"
    using g(2) rule_Validate_same [of "rule_ApplyDefaults (g\<lparr>frID := []\<rparr>)" "rule_ApplyDefaults g"]
    by (cases g) (simp add: rule_ApplyDefaults_def unnumbered_def)
  obtain u where u: "RefreshNextRun id (wdCron sample_world) 0 (?j\<lparr>jbID := ''j1''\<rparr>) = ?j\<lparr>jbID := ''j1'', jbNextRunAt := u\<rparr>"
    using RefreshNextRun_same by blast
  have name: "jbName (toJob sample_payload) = ''nightly''" using sample_fields(1) by (simp add: sample_payload_job)
  have get: "\<exists>old. GetJob (sample_env ns) ''j1'' (svDb stored_server) = Inr old \<and> jbID old = ''j1''" for ns
    by (simp add: GetJob_faultless sample_env_def db job_row_of_def columns_def read_job_def)
  then obtain old where old: "GetJob (sample_env [''d3'', ''d4'', ''r2'']) ''j1'' (svDb stored_server) = Inr old" "jbID old = ''j1''" by blast
  have "\<exists>j db. UpdateJob (sample_env [''d3'', ''d4'', ''r2'']) ''j1'' (toJob sample_payload) (svDb stored_server) = (Inr j, db)"
    using d v u name old payload_valid sample_fields(1-3)
    by (simp add: UpdateJob_def sample_env_def in_tx_def bind_err_def barrier_def taken_or_def update_job_def
        statement_def db two_targets_def fresh_catalog_def local_target_def insertJobChildren_def columns_def drop_dests_def drop_rules_def update_where_def
        insertFilterRule_def in_context_def Let_def)
  then obtain j db' where u: "UpdateJob (aiWrite sample_api) ''j1'' (toJob sample_payload) (svDb stored_server) = (Inr j, db')"
    by (auto simp: sample_api_def)
  have e: "of_world sample_world (aiWrite sample_api)" "faultless (aiAgain sample_api)"
    using sample_env_of sample_env_faultless by (simp_all add: sample_api_def job_ids_drawn_def)
  have rn: "svRunner stored_server = New" by (simp add: stored_server_def)
  have r: "\<not> ActiveForJob ''j1'' (svRunner stored_server)" "\<not> running_row sample_api ''j1'' (svDb stored_server)"
    by (simp_all add: ActiveForJob_def rn New_def running_row_def ListRuns_def db two_targets_def fresh_catalog_def)
  show ?thesis using u r changed_reads [OF ok_reachable [OF stored_reachable] e(1) u e(2)] by (simp add: handleUpdateJob_def Let_def)
qed

theorem accepted_edit_is_what_was_sent_witness:
  "\<exists>job sv. handleUpdateJob quiet sample_api ''j1'' (Inr sample_payload) stored_server = (Okay 200 job, sv)
     \<and> same_job (job_ApplyDefaults (toJob sample_payload)) job \<and> GetJob (aiAgain sample_api) ''j1'' (svDb sv) = Inr job"
proof -
  obtain job sv where h: "handleUpdateJob quiet sample_api ''j1'' (Inr sample_payload) stored_server = (Okay 200 job, sv)" using edit_accepted by blast
  have e: "of_world sample_world (aiWrite sample_api)" "faultless (aiAgain sample_api)"
    using sample_env_of sample_env_faultless by (simp_all add: sample_api_def job_ids_drawn_def)
  show ?thesis using accepted_edit_is_what_was_sent [OF stored_reachable e h] h by auto
qed

theorem start_is_all_or_nothing_witness:
  "\<exists>sv. handleRunJob quiet sample_api ''j1'' (Inr False) stored_server = (Okay 202 ''run1'', sv) \<and> goget (rnByJob (svRunner sv)) ''j1'' = Some ''run1''"
proof -
  obtain t f where db: "svDb stored_server = two_targets\<lparr>
    ctJobs := [\<lparr>jwJob = columns (sample_job\<lparr>jbID := ''j1'', jbNextRunAt := t\<rparr>), jwCreated = 0, jwUpdated = 0\<rparr>],
    ctDests := [\<lparr>dwID = ''d1'', dwJobID = ''j1'', dwDest = \<lparr>jdTarget = ''b2'', jdSubpath = ''backup''\<rparr>, dwPosition = 0\<rparr>,
      \<lparr>dwID = ''d2'', dwJobID = ''j1'', dwDest = \<lparr>jdTarget = ''a1'', jdSubpath = ''copy''\<rparr>, dwPosition = 1\<rparr>],
    ctRules := [\<lparr>wrJobID = ''j1'', wrRule = f, wrPosition = 0, wrCreated = 0\<rparr>]\<rparr>" using stored_form by blast
  have dests: "dests_of ''j1'' (svDb stored_server) = [\<lparr>jdTarget = ''b2'', jdSubpath = ''backup''\<rparr>, \<lparr>jdTarget = ''a1'', jdSubpath = ''copy''\<rparr>]"
    by (simp add: dests_of_def db)
  have get: "GetJob job_ids_drawn ''j1'' (svDb stored_server) = Inr (read_job (svDb stored_server) (columns (sample_job\<lparr>jbID := ''j1'', jbNextRunAt := t\<rparr>)))"
    using sample_env_faultless by (simp add: GetJob_faultless job_ids_drawn_def job_row_of_def db columns_def)
  have rn: "svRunner stored_server = New" by (simp add: stored_server_def)
  obtain sv where h: "handleRunJob quiet sample_api ''j1'' (Inr False) stored_server = (Okay 202 ''run1'', sv)"
    using get dests rn sample_fields(2)
    by (simp add: handleRunJob_def sample_api_def run_body_def start_run_def start_def start_db_of_def start_reserve_def create_run_def CreateRun_def
        GetTarget_def target_row_of_def job_ids_drawn_def sample_env_def New_def read_job_def columns_def destTargetIDs_def
        db two_targets_def fresh_catalog_def local_target_def List.map_filter_simps Let_def)
  then show ?thesis using start_is_all_or_nothing [OF h] get by (auto simp: sample_api_def read_job_def columns_def)
qed

end
