(* ===== verification/Api_Settings.thy ===== *)
theory Api_Settings
  imports Scheduler Api_Jobs
begin

text \<open>
  The rest of the API: callbacks (\<^verbatim>\<open>src/internal/api/webhooks.go\<close>), the global exclusions
  (\<^verbatim>\<open>settings.go\<close>), what a schedule means (\<^verbatim>\<open>schedule.go\<close>), whether a rule file is there
  (\<^verbatim>\<open>filtercheck.go\<close>), the log of all runs (\<^verbatim>\<open>logs.go\<close>), and the web interface itself (\<^verbatim>\<open>spa.go\<close>).
\<close>

section \<open>Callbacks\<close>

record webhook_payload =
  wpJobID :: string
  wpURL :: string
  wpEvents :: "string list"
  wpSecret :: string
  wpEnabled :: "bool option"
  wpFormat :: string
  wpMinInterval :: int

record webhook_response =
  hrHook :: webhook
  hrHasSecret :: bool

text \<open>A response carries the callback without its secret.\<close>

definition present_hook :: "webhook \<Rightarrow> webhook_response" where
  "present_hook w = \<lparr>hrHook = w\<lparr>whSecret := []\<rparr>, hrHasSecret = (whSecret w \<noteq> [])\<rparr>"

record hook_api =
  haQuote :: "string \<Rightarrow> string"
  haParse :: "string \<Rightarrow> goerr + string \<times> string"
  haCrypto :: crypto
  haBox :: aead
  haRandom :: "goerr + string"
  haFault :: "goerr option"
  haNewID :: "goerr + string"
  haNow :: gotime

definition webhookFrom :: "hook_api \<Rightarrow> webhook_payload \<Rightarrow> string \<Rightarrow> goerr + webhook" where
  "webhookFrom E p i =
     (let hook = \<lparr>whID = i, whJobID = wpJobID p, whURL = wpURL p, whEvents = wpEvents p, whSecret = [],
                  whEnabled = (wpEnabled p = None \<or> wpEnabled p = Some True), whFormat = wpFormat p,
                  whMinInterval = wpMinInterval p, whCreatedAt = zero_time, whUpdatedAt = zero_time\<rparr> in
      if wpSecret p = [] then Inr hook
      else case Encrypt (haCrypto E) (haBox E) (haRandom E) (wpSecret p) of
             Inl _ \<Rightarrow> Inl (new_error ''the signing secret could not be stored'' [])
           | Inr encrypted \<Rightarrow> Inr (hook\<lparr>whSecret := encrypted\<rparr>))"

definition webhook_error :: "goerr \<Rightarrow> 'b http_reply" where
  "webhook_error e = (if errors_Is e ErrNotFound then Problem 404 ''not_found'' [] else Problem 400 ''webhook_failed'' [])"

definition handleListWebhooks :: "hook_api \<Rightarrow> webhook list \<Rightarrow> webhook_response list http_reply" where
  "handleListWebhooks E db =
     (case haFault E of
        Some e \<Rightarrow> Problem 500 ''list_failed'' (err_text (wrap ''listing webhooks: '' e))
      | None \<Rightarrow> Okay 200 (map present_hook (ListWebhooks db)))"

definition handleCreateWebhook :: "hook_api \<Rightarrow> webhook_payload body \<Rightarrow> webhook list \<Rightarrow> webhook_response http_reply \<times> webhook list" where
  "handleCreateWebhook E b db =
     (case b of
        Inl e \<Rightarrow> (Problem 400 ''invalid_body'' (err_text e), db)
      | Inr p \<Rightarrow>
          (case webhookFrom E p [] of
             Inl e \<Rightarrow> (Problem 400 ''invalid_webhook'' [], db)
           | Inr hook \<Rightarrow>
               (case CreateWebhook (haQuote E) (haParse E) (haFault E) (haNewID E) (haNow E) hook db of
                  (Inl e, db) \<Rightarrow> (webhook_error e, db)
                | (Inr hook, db) \<Rightarrow> (Okay 201 (present_hook hook), db))))"

text \<open>The reply to an edit is the record the request was made into, not the row.\<close>

definition handleUpdateWebhook :: "hook_api \<Rightarrow> string \<Rightarrow> webhook_payload body \<Rightarrow> webhook list \<Rightarrow> webhook_response http_reply \<times> webhook list" where
  "handleUpdateWebhook E i b db =
     (case b of
        Inl e \<Rightarrow> (Problem 400 ''invalid_body'' (err_text e), db)
      | Inr p \<Rightarrow>
          (case webhookFrom E p i of
             Inl e \<Rightarrow> (Problem 400 ''invalid_webhook'' [], db)
           | Inr hook \<Rightarrow>
               (case UpdateWebhook (haQuote E) (haParse E) (haFault E) (haNow E) i hook db of
                  (Some e, db) \<Rightarrow> (webhook_error e, db)
                | (None, db) \<Rightarrow> (Okay 200 (present_hook ((webhook_ApplyDefaults hook)\<lparr>whID := i, whUpdatedAt := haNow E\<rparr>)), db))))"

definition handleDeleteWebhook :: "hook_api \<Rightarrow> string \<Rightarrow> webhook list \<Rightarrow> unit http_reply \<times> webhook list" where
  "handleDeleteWebhook E i db =
     (case DeleteWebhook (haFault E) i db of (Some e, db) \<Rightarrow> (webhook_error e, db) | (None, db) \<Rightarrow> (Okay 204 (), db))"


section \<open>Global exclusions\<close>

definition handleGetGlobalFilters :: "goerr option \<Rightarrow> catalog \<Rightarrow> global_rule list http_reply" where
  "handleGetGlobalFilters fault db =
     (case ListGlobalFilterRules fault db of Inl e \<Rightarrow> Problem 500 ''list_failed'' (err_text e) | Inr rules \<Rightarrow> Okay 200 rules)"

definition handleReplaceGlobalFilters :: "store_env \<Rightarrow> goerr option \<Rightarrow> global_rule list body \<Rightarrow> catalog \<Rightarrow> global_rule list http_reply \<times> catalog" where
  "handleReplaceGlobalFilters E fault b db =
     (case b of
        Inl e \<Rightarrow> (Problem 400 ''invalid_body'' (err_text e), db)
      | Inr fs \<Rightarrow>
          let rules = map (\<lambda>f. f\<lparr>grID := []\<rparr>) fs in
          if check_globals (seQuote E) 0 rules \<noteq> None then (Problem 400 ''invalid_filter'' [], db)
          else case ReplaceGlobalFilterRules E (map global_ApplyDefaults rules) db of
            (Some e, db) \<Rightarrow> (Problem 500 ''save_failed'' (err_text e), db)
          | (None, db) \<Rightarrow> (handleGetGlobalFilters fault db, db))"


section \<open>What a schedule means\<close>

definition previewCount :: nat where "previewCount = 3"

record schedule_preview =
  spvValid :: bool
  spvError :: string
  spvTimezone :: string
  spvNext :: "gotime list"
  spvNextHere :: "string list"

text \<open>A firing that never comes ends the list.\<close>

fun upcoming :: "schedule \<Rightarrow> nat \<Rightarrow> gotime \<Rightarrow> gotime list" where
  "upcoming sc 0 t = []"
| "upcoming sc (Suc n) t = (if scNext sc t = zero_time then [] else scNext sc t # upcoming sc n (scNext sc t))"

definition handleSchedulePreview ::
  "(string \<Rightarrow> string) \<Rightarrow> cron \<Rightarrow> string \<Rightarrow> (gotime \<Rightarrow> string) \<Rightarrow> gotime \<Rightarrow> string body \<Rightarrow> schedule_preview http_reply" where
  "handleSchedulePreview uq cron zone shown now b =
     (case b of
        Inl e \<Rightarrow> Problem 400 ''invalid_body'' (err_text e)
      | Inr expr \<Rightarrow>
          (case ParseSchedule uq cron expr of
             Inl e \<Rightarrow> Okay 200 \<lparr>spvValid = False, spvError = err_text e, spvTimezone = zone, spvNext = [], spvNextHere = []\<rparr>
           | Inr sc \<Rightarrow>
               let next = upcoming sc previewCount now
               in Okay 200 \<lparr>spvValid = True, spvError = [], spvTimezone = zone, spvNext = next, spvNextHere = map shown next\<rparr>))"


section \<open>Whether a rule file is there\<close>

record file_check =
  fcChecked :: bool
  fcExists :: bool
  fcMessage :: string

definition unlooked :: "string \<Rightarrow> file_check" where
  "unlooked message = \<lparr>fcChecked = False, fcExists = False, fcMessage = message\<rparr>"

definition handleCheckFilterFile :: "'w os_calls \<Rightarrow> string body \<Rightarrow> 'w \<Rightarrow> file_check http_reply" where
  "handleCheckFilterFile os b w =
     (case b of
        Inl e \<Rightarrow> Problem 400 ''invalid_body'' (err_text e)
      | Inr p \<Rightarrow>
          let path = TrimSpace p in
          Okay 200
            (if path = [] then unlooked ''No path given.''
             else if HasPrefix path TargetRefPrefix then
               unlooked (if ParseTargetRef path = None then ''That does not look like a valid target:// reference.''
                 else ''On a share '' @ em_dash @ '' not checked here; it is read when the job runs.'')
             else case bounded (''reading the details of '' @ path) (osCtx os) (osStat os path w) of
               Inl e \<Rightarrow>
                 if errors_Is e ErrNotExist then \<lparr>fcChecked = True, fcExists = False, fcMessage = ''No file at that path yet.''\<rparr>
                 else unlooked (''Could not check that path: '' @ err_text e)
             | Inr _ \<Rightarrow> \<lparr>fcChecked = True, fcExists = True, fcMessage = []\<rparr>))"


section \<open>The log of all runs\<close>

record log_query =
  lqJob :: string
  lqRun :: string
  lqLevel :: string
  lqDest :: string
  lqSince :: string
  lqLimit :: "int option"
  lqOffset :: "int option"

definition handleLogs :: "(string \<Rightarrow> goerr + gotime) \<Rightarrow> goerr option \<Rightarrow> log_query \<Rightarrow> catalog \<Rightarrow> event_row list http_reply" where
  "handleLogs parse fault q db =
     (case level_query (lqLevel q) of
        None \<Rightarrow> Problem 400 ''invalid_level'' (lqLevel q)
      | Some lv \<Rightarrow>
          (case (if lqSince q = [] then Inr zero_time else parse (lqSince q)) of
             Inl e \<Rightarrow> Problem 400 ''invalid_since'' (err_text e)
           | Inr since \<Rightarrow>
               (case fault of
                  Some e \<Rightarrow> Problem 500 ''list_failed'' (err_text (wrap ''listing run events: '' e))
                | None \<Rightarrow>
                    Okay 200 (ListEvents \<lparr>efRunID = lqRun q, efJobID = lqJob q, efLevel = lv, efDest = lqDest q, efSince = since,
                      efNewest = True, efLimit = or_zero (lqLimit q), efOffset = or_zero (lqOffset q)\<rparr> (ctRuns db) (ctEvents db)))))"


section \<open>The web interface\<close>

text \<open>
  A build says of a path below its root whether it is a regular file; how a file is sent is the
  file server's. \<open>Shell\<close> is the page that the interface owns, \<open>Asset\<close> a file of the build, with
  whether it may be kept for ever.
\<close>

datatype spa_reply = NotBuilt | WrongMethod | NoSuchAsset | Asset string bool | Shell

definition AssetDir :: string where "AssetDir = ''assets''"

definition build_exists :: "(string \<Rightarrow> bool) \<Rightarrow> string \<Rightarrow> bool" where
  "build_exists build clean = build (TrimPrefix clean ''/'')"

definition spaFrom :: "(string \<Rightarrow> bool) option \<Rightarrow> string \<Rightarrow> string \<Rightarrow> spa_reply" where
  "spaFrom build method path =
     (case build of
        None \<Rightarrow> NotBuilt
      | Some build \<Rightarrow>
          if \<not> build_exists build ''/index.html'' then NotBuilt
          else if method \<noteq> ''GET'' \<and> method \<noteq> ''HEAD'' then WrongMethod
          else let clean = Clean (''/'' @ TrimPrefix path ''/'') in
            if HasPrefix clean (''/'' @ AssetDir @ ''/'') then (if build_exists build clean then Asset clean True else NoSuchAsset)
            else if clean \<noteq> ''/'' \<and> build_exists build clean then Asset clean False
            else Shell)"


section \<open>An edit of a callback keeps its secret\<close>

lemma webhookFrom_Inr:
  "webhookFrom E p i = Inr hook \<Longrightarrow> hook\<lparr>whSecret := []\<rparr> = \<lparr>whID = i, whJobID = wpJobID p, whURL = wpURL p, whEvents = wpEvents p, whSecret = [],
      whEnabled = (wpEnabled p = None \<or> wpEnabled p = Some True), whFormat = wpFormat p, whMinInterval = wpMinInterval p,
      whCreatedAt = zero_time, whUpdatedAt = zero_time\<rparr>
    \<and> (if wpSecret p = [] then whSecret hook = [] else Encrypt (haCrypto E) (haBox E) (haRandom E) (wpSecret p) = Inr (whSecret hook))"
  by (auto simp: webhookFrom_def Let_def split: if_splits sum.splits)

lemma defaults_keep_secret [simp]: "whSecret (webhook_ApplyDefaults w) = whSecret w" "whCreatedAt (webhook_ApplyDefaults w) = whCreatedAt w"
  by (simp_all add: webhook_ApplyDefaults_def Let_def)

lemma Validate_same_settings: "webhook_Validate uq parse (w\<lparr>whID := i, whUpdatedAt := n, whSecret := x\<rparr>) = webhook_Validate uq parse w"
  unfolding webhook_Validate_def bad_event_def by (cases w) (simp only: webhook.simps)

lemma handleUpdateWebhook_Okay:
  assumes "handleUpdateWebhook E i (Inr p) db = (Okay code r, db')"
  obtains hook where "webhookFrom E p i = Inr hook" "i \<in> whID ` set db"
    "webhook_Validate (haQuote E) (haParse E) (webhook_ApplyDefaults hook) = None"
    "db' = update_where (\<lambda>r. whID r = i) (with_settings (haNow E) (webhook_ApplyDefaults hook)) db"
    "r = present_hook ((webhook_ApplyDefaults hook)\<lparr>whID := i, whUpdatedAt := haNow E\<rparr>)"
proof -
  obtain hook where h: "webhookFrom E p i = Inr hook" using assms by (cases "webhookFrom E p i") (simp_all add: handleUpdateWebhook_def)
  obtain err db1 where u: "UpdateWebhook (haQuote E) (haParse E) (haFault E) (haNow E) i hook db = (err, db1)" by fastforce
  have e: "err = None" "db' = db1" "r = present_hook ((webhook_ApplyDefaults hook)\<lparr>whID := i, whUpdatedAt := haNow E\<rparr>)"
    using assms h u by (simp_all add: handleUpdateWebhook_def webhook_error_def split: option.splits if_splits)
  have "webhook_Validate (haQuote E) (haParse E) (webhook_ApplyDefaults hook) = None \<and> i \<in> whID ` set db
      \<and> db1 = update_where (\<lambda>r. whID r = i) (with_settings (haNow E) (webhook_ApplyDefaults hook)) db"
    using u e(1) by (simp add: UpdateWebhook_def Let_def split: option.splits if_splits)
  then show ?thesis using that h e by metis
qed

text \<open>
  an edit of a callback that sends no secret leaves the stored one. When an edit is accepted, the
  rows are those there were, in their order, the others unchanged; the one that was named has the
  settings of the request with the defaults filled in, its date of creation, and the secret it had
  unless the request carries one, which is then stored encrypted.
\<close>

theorem edited_callback_keeps_its_secret:
  assumes "handleUpdateWebhook E i (Inr p) db = (Okay code r, db')"
  shows "i \<in> whID ` set db \<and> webhook_Validate (haQuote E) (haParse E) (hrHook r) = None
    \<and> list_all2 (\<lambda>old new. if whID old \<noteq> i then new = old else
      new\<lparr>whSecret := [], whCreatedAt := zero_time\<rparr> = hrHook r \<and> whCreatedAt new = whCreatedAt old \<and> whURL new = TrimSpace (wpURL p)
      \<and> (if wpSecret p = [] then whSecret new = whSecret old
         else \<exists>s. Encrypt (haCrypto E) (haBox E) (haRandom E) (wpSecret p) = Inr s \<and> whSecret new = (if s = [] then whSecret old else s))) db db'"
proof -
  obtain hook where h: "webhookFrom E p i = Inr hook" "i \<in> whID ` set db"
    "webhook_Validate (haQuote E) (haParse E) (webhook_ApplyDefaults hook) = None"
    "db' = update_where (\<lambda>r. whID r = i) (with_settings (haNow E) (webhook_ApplyDefaults hook)) db"
    "r = present_hook ((webhook_ApplyDefaults hook)\<lparr>whID := i, whUpdatedAt := haNow E\<rparr>)"
    using handleUpdateWebhook_Okay [OF assms] by metis
  note w = webhookFrom_Inr [OF h(1)]
  define s where "s = whSecret hook"
  have hk: "hook = \<lparr>whID = i, whJobID = wpJobID p, whURL = wpURL p, whEvents = wpEvents p, whSecret = s,
      whEnabled = (wpEnabled p = None \<or> wpEnabled p = Some True), whFormat = wpFormat p, whMinInterval = wpMinInterval p,
      whCreatedAt = zero_time, whUpdatedAt = zero_time\<rparr>"
    using w unfolding s_def by (cases hook) (simp only: webhook.simps, simp)
  have sec: "if wpSecret p = [] then s = [] else Encrypt (haCrypto E) (haBox E) (haRandom E) (wpSecret p) = Inr s" using w by (simp add: s_def)
  have wh: "with_settings n (webhook_ApplyDefaults hook) old = old\<lparr>whJobID := wpJobID p, whURL := TrimSpace (wpURL p), whEvents := wpEvents p,
      whEnabled := (wpEnabled p = None \<or> wpEnabled p = Some True), whMinInterval := (if wpMinInterval p = 0 then 30 else wpMinInterval p),
      whFormat := (if wpFormat p = [] then FormatJSON else wpFormat p), whSecret := (if s = [] then whSecret old else s), whUpdatedAt := n\<rparr>" for n old
    unfolding with_settings_def webhook_ApplyDefaults_def hk by simp
  have hr: "hrHook r = \<lparr>whID = i, whJobID = wpJobID p, whURL = TrimSpace (wpURL p), whEvents = wpEvents p, whSecret = [],
      whEnabled = (wpEnabled p = None \<or> wpEnabled p = Some True), whFormat = (if wpFormat p = [] then FormatJSON else wpFormat p),
      whMinInterval = (if wpMinInterval p = 0 then 30 else wpMinInterval p), whCreatedAt = zero_time, whUpdatedAt = haNow E\<rparr>"
    unfolding h(5) present_hook_def webhook_ApplyDefaults_def hk by simp
  have v: "webhook_Validate (haQuote E) (haParse E) (hrHook r) = None"
    using h(3) by (simp add: h(5) present_hook_def Validate_same_settings)
  have "if whID old \<noteq> i then new = old else
      new\<lparr>whSecret := [], whCreatedAt := zero_time\<rparr> = hrHook r \<and> whCreatedAt new = whCreatedAt old \<and> whURL new = TrimSpace (wpURL p)
      \<and> (if wpSecret p = [] then whSecret new = whSecret old
         else \<exists>s. Encrypt (haCrypto E) (haBox E) (haRandom E) (wpSecret p) = Inr s \<and> whSecret new = (if s = [] then whSecret old else s))"
    if "new = (if whID old = i then with_settings (haNow E) (webhook_ApplyDefaults hook) old else old)" for old new
  proof (cases "whID old = i")
    case True
    then have n: "new = with_settings (haNow E) (webhook_ApplyDefaults hook) old" using that by simp
    have o: "old\<lparr>whID := i\<rparr> = old" using True by simp
    have "new\<lparr>whSecret := [], whCreatedAt := zero_time\<rparr> = hrHook r" unfolding n wh hr using True by (cases old) simp
    then show ?thesis using sec True unfolding n wh by (cases "wpSecret p = []") simp_all
  qed (use that in simp)
  note each = this
  show ?thesis unfolding h(4) update_where_def list_all2_map2 list_all2_same
    by (intro conjI ballI h(2) v) (rule each [OF refl])
qed

text \<open>The reply does not say so: it denies the secret that was kept, and dates the callback to the year 1.\<close>

lemma edit_reply_denies_the_secret:
  "handleUpdateWebhook E i (Inr p) db = (Okay code r, db') \<Longrightarrow> wpSecret p = [] \<Longrightarrow> \<not> hrHasSecret r \<and> whCreatedAt (hrHook r) = zero_time"
  by (elim handleUpdateWebhook_Okay) (auto simp: present_hook_def webhookFrom_def Let_def)


section \<open>Global exclusions are replaced as they were sent\<close>

lemma global_defaults_again: "global_ApplyDefaults (global_ApplyDefaults (f\<lparr>grID := n\<rparr>)) = (global_ApplyDefaults f)\<lparr>grID := n\<rparr>"
  by (cases f) (auto simp: global_ApplyDefaults_def or_default_def split: goenum.splits)

lemma position_less_imp: "x < y \<or> x = y \<and> P \<Longrightarrow> x \<le> (y :: nat)"
  by auto

text \<open>
  the global exclusions are replaced whole, or not at all. An accepted list is from then on what
  is listed: the rules that were sent, in that order, each valid, with the defaults filled in. A
  refusal of the list, or of storing it, leaves the rules there were; and nothing else is touched.
\<close>

theorem exclusions_are_replaced_as_sent:
  assumes "handleReplaceGlobalFilters E fault (Inr fs) db = (reply, db')"
  shows "(case reply of
      Okay code rules \<Rightarrow> list_all2 (\<lambda>r f. r\<lparr>grID := []\<rparr> = (global_ApplyDefaults f)\<lparr>grID := []\<rparr> \<and> global_Validate (seQuote E) r = None) rules fs
        \<and> ListGlobalFilterRules None db' = Inr rules
    | Problem status code detail \<Rightarrow> db' = db \<or> code = ''list_failed'' \<and> fault \<noteq> None)
    \<and> db'\<lparr>ctGlobals := ctGlobals db\<rparr> = db"
proof (cases "check_globals (seQuote E) 0 (map (\<lambda>f. f\<lparr>grID := []\<rparr>) fs)")
  case (Some e)
  then show ?thesis using assms by (auto simp: handleReplaceGlobalFilters_def Let_def)
next
  case None
  let ?gs = "map global_ApplyDefaults (map (\<lambda>f. f\<lparr>grID := []\<rparr>) fs)"
  obtain err db1 where rp: "ReplaceGlobalFilterRules E ?gs db = (err, db1)" by fastforce
  show ?thesis
  proof (cases err)
    case (Some e)
    have "db1 = db" using rp Some by (auto simp: ReplaceGlobalFilterRules_def Let_def split: option.splits sum.splits)
    then show ?thesis using assms None rp Some by (auto simp: handleReplaceGlobalFilters_def Let_def)
  next
    case E: None
    obtain rows where rows: "db1 = db\<lparr>ctGlobals := rows\<rparr>" "list_all2 (\<lambda>r g. \<exists>n. gwRule r = (global_ApplyDefaults g)\<lparr>grID := n\<rparr>) rows ?gs"
        "map gwPosition rows = [0..<length ?gs]" "\<forall>g \<in> set ?gs. global_Validate (seQuote E) (global_ApplyDefaults g) = None"
      using ReplaceGlobalFilterRules_None [OF rp [unfolded E]] by blast
    have r: "reply = handleGetGlobalFilters fault db1" "db' = db1" using assms None rp E by (auto simp: handleReplaceGlobalFilters_def Let_def)
    have l: "ListGlobalFilterRules None db1 = Inr (map gwRule rows)"
      by (simp add: ListGlobalFilterRules_def rows(1) positions_sorted [OF rows(3), OF position_less_imp])
    have v: "global_Validate uq (g\<lparr>grID := n\<rparr>) = global_Validate uq g" for uq g n
      by (rule global_Validate_ID)
    have "list_all2 (\<lambda>r f. r\<lparr>grID := []\<rparr> = (global_ApplyDefaults f)\<lparr>grID := []\<rparr> \<and> global_Validate (seQuote E) r = None) (map gwRule rows) fs"
      using rows(2,4) unfolding list_all2_map1 list_all2_map2
      by (auto simp: global_defaults_again v list_all2_conv_all_nth)
    then show ?thesis using l r
      by (cases fault) (auto simp: handleGetGlobalFilters_def ListGlobalFilterRules_def rows(1))
  qed
qed


section \<open>A preview of a schedule is what the scheduler will do\<close>

lemma ParseSchedule_cron: "ParseSchedule uq cron e = Inr sc \<Longrightarrow> \<exists>e'. cron e' = Inr sc"
  by (auto simp: ParseSchedule_def Let_def split: sum.splits option.splits if_splits)

lemma upcoming_later:
  assumes "cron e = Inr sc" "cron_ok cron"
  shows "length (upcoming sc n t) \<le> n \<and> sorted_wrt (<) (t # upcoming sc n t)"
proof (induction n arbitrary: t)
  case (Suc n)
  have "scNext sc t = zero_time \<or> t < scNext sc t" using assms by (auto simp: cron_ok_def)
  then show ?case using Suc [of "scNext sc t"] by auto
qed simp

text \<open>
  the preview of a schedule agrees with the scheduler. It shows three firings at most, each later
  than the one before and than now; and a job that is switched on with that schedule and saved at
  that instant is next due at the first of them, or never, if none is shown. An expression that is
  not valid is one with which no job can be saved.
\<close>

theorem preview_is_what_will_run:
  assumes "cron_ok cron" and "handleSchedulePreview uq cron zone shown now (Inr expr) = Okay code r" and "expr \<noteq> []"
  shows "length (spvNext r) \<le> 3 \<and> sorted_wrt (<) (now # spvNext r) \<and> spvNextHere r = map shown (spvNext r)
    \<and> (if spvValid r
       then jbNextRunAt (RefreshNextRun uq cron now (j\<lparr>jbEnabled := True, jbScheduleCron := expr\<rparr>))
         = (case spvNext r of [] \<Rightarrow> zero_time | t # _ \<Rightarrow> t)
       else job_Validate uq cron (j\<lparr>jbScheduleCron := expr\<rparr>) \<noteq> None)"
proof (cases "ParseSchedule uq cron expr")
  case (Inl e)
  have "job_Validate uq cron (j\<lparr>jbScheduleCron := expr\<rparr>) \<noteq> None"
    using Inl assms(3) by (auto simp: job_Validate_def split: sum.splits)
  then show ?thesis using assms(2) Inl by (auto simp: handleSchedulePreview_def)
next
  case (Inr sc)
  then obtain e where "cron e = Inr sc" using ParseSchedule_cron by blast
  note up = upcoming_later [where cron = cron, OF this assms(1), of 3 now]
  have r: "spvValid r" "spvNext r = upcoming sc 3 now" "spvNextHere r = map shown (spvNext r)"
    using assms(2) Inr by (auto simp: handleSchedulePreview_def previewCount_def Let_def)
  have "(case upcoming sc (Suc n) now of [] \<Rightarrow> zero_time | t # _ \<Rightarrow> t) = scNext sc now" for n by simp
  from this [of 2] have "(case spvNext r of [] \<Rightarrow> zero_time | t # _ \<Rightarrow> t) = scNext sc now" by (simp add: r(2) eval_nat_numeral)
  then show ?thesis using up r assms(3) Inr by (simp add: RefreshNextRun_def NextRun_def)
qed


section \<open>A rule file is missing only when that was seen\<close>

text \<open>
  a rule file is reported missing only when the system said so. A check answers that the file is
  there, or is not, only for a path on this machine that it looked at and got an answer for in time;
  a path on a target is never looked at.
\<close>

theorem missing_only_when_seen:
  assumes "handleCheckFilterFile os (Inr p) w = Okay code c" and "\<not> errors_Is (osCtx os) ErrNotExist"
  shows "(if fcChecked c
    then \<not> HasPrefix (TrimSpace p) TargetRefPrefix \<and> TrimSpace p \<noteq> [] \<and> (\<exists>answer. osStat os (TrimSpace p) w = Some answer
      \<and> (if fcExists c then \<not> isl answer else isl answer \<and> errors_Is (projl answer) ErrNotExist))
    else \<not> fcExists c)"
proof (cases "TrimSpace p = [] \<or> HasPrefix (TrimSpace p) TargetRefPrefix")
  case True
  then show ?thesis using assms(1) by (auto simp: handleCheckFilterFile_def unlooked_def Let_def split: if_splits)
next
  case False
  show ?thesis
  proof (cases "osStat os (TrimSpace p) w")
    case None
    then show ?thesis using assms False by (auto simp: handleCheckFilterFile_def unlooked_def bounded_def errors_Is_def wrap_def Let_def)
  next
    case (Some answer)
    then show ?thesis using assms False
      by (cases answer) (auto simp: handleCheckFilterFile_def unlooked_def bounded_def Let_def split: if_splits)
  qed
qed


section \<open>The web interface serves its build\<close>

text \<open>
  the web interface serves the files of its build and its own page, and does not mistake one for
  the other. A file that is sent is one of the build, under a path without double dots; a path in the
  directory of the assets that is not there is answered as missing and never with the page; and
  no other method than reading is answered with either.
\<close>

theorem page_is_never_an_asset:
  "(case spaFrom build m path of
      Asset p kept \<Rightarrow> (\<exists>b. build = Some b \<and> b (TrimPrefix p ''/'')) \<and> ''..'' \<notin> set (Split1 p slash) \<and> kept = HasPrefix p ''/assets/''
    | Shell \<Rightarrow> \<not> HasPrefix (Clean (''/'' @ TrimPrefix path ''/'')) ''/assets/''
    | _ \<Rightarrow> True)
    \<and> (if m \<in> {''GET'', ''HEAD''} then spaFrom build m path \<noteq> WrongMethod else spaFrom build m path \<in> {NotBuilt, WrongMethod})"
proof -
  have "''..'' \<notin> set (Split1 (Clean (''/'' @ q)) slash)" for q
  proof -
    have c: "Clean (''/'' @ q) = slash # Join (rooted_segs (slash # q)) ''/''" by (simp add: Clean_rooted)
    have p: "list_all plain_seg (rooted_segs (slash # q))" by (rule rooted_segs_plain)
    show ?thesis
    proof (cases "rooted_segs (slash # q) = []")
      case False
      have "Split1 (Join (rooted_segs (slash # q)) ''/'') slash = rooted_segs (slash # q)"
        using p False by (intro Split1_Join) (auto simp: list_all_iff plain_seg_def)
      then have "Split1 (Clean (''/'' @ q)) slash = [] # rooted_segs (slash # q)" unfolding c by simp
      moreover have "''..'' \<notin> set (rooted_segs (slash # q))" using p plain_dots unfolding list_all_iff by blast
      ultimately show ?thesis by simp
    next
      case True
      show ?thesis unfolding c True by simp
    qed
  qed
  then have dots: "''..'' \<notin> set (Split1 (Clean (''/'' @ TrimPrefix path ''/'')) slash)" .
  define clean where "clean = Clean (''/'' @ TrimPrefix path ''/'')"
  show ?thesis
  proof (cases "\<exists>b. build = Some b \<and> build_exists b ''/index.html'' \<and> m \<in> {''GET'', ''HEAD''}")
    case True
    then obtain b where b: "build = Some b" "build_exists b ''/index.html''" "m \<in> {''GET'', ''HEAD''}" by blast
    then have "spaFrom build m path =
        (if HasPrefix clean ''/assets/'' then if build_exists b clean then Asset clean True else NoSuchAsset
         else if clean \<noteq> ''/'' \<and> build_exists b clean then Asset clean False else Shell)"
      unfolding spaFrom_def b(1) option.case AssetDir_def Let_def clean_def [symmetric] by auto
    then show ?thesis using dots b(1,3) unfolding clean_def [symmetric] by (simp add: build_exists_def)
  next
    case False
    then have "spaFrom build m path \<in> {NotBuilt, WrongMethod} \<and> (m \<in> {''GET'', ''HEAD''} \<longrightarrow> spaFrom build m path = NotBuilt)"
      by (auto simp: spaFrom_def split: option.split)
    then show ?thesis by auto
  qed
qed


section \<open>Requests that are answered\<close>

definition sample_hook_api :: hook_api where
  "sample_hook_api = \<lparr>haQuote = id, haParse = sample_url, haCrypto = plain_crypto, haBox = plain_aead, haRandom = Inr ''ab'',
     haFault = None, haNewID = Inr ''2'', haNow = 5\<rparr>"

definition sample_hook_payload :: webhook_payload where
  "sample_hook_payload = \<lparr>wpJobID = [], wpURL = ''http://h'', wpEvents = [], wpSecret = [], wpEnabled = None, wpFormat = [], wpMinInterval = 0\<rparr>"

theorem edited_callback_keeps_its_secret_witness:
  "\<exists>r new. handleUpdateWebhook sample_hook_api ''1'' (Inr sample_hook_payload) [(sample_hook ''1'' FormatCN4M)\<lparr>whSecret := ''s''\<rparr>] = (Okay 200 r, [new])
     \<and> whSecret new = ''s'' \<and> whFormat new = ''json''"
proof -
  let ?db = "[(sample_hook ''1'' FormatCN4M)\<lparr>whSecret := ''s''\<rparr>]"
  obtain r new where h: "handleUpdateWebhook sample_hook_api ''1'' (Inr sample_hook_payload) ?db = (Okay 200 r, [new])"
      and f: "whFormat (hrHook r) = ''json''"
    by (simp add: handleUpdateWebhook_def webhookFrom_def UpdateWebhook_def webhook_Validate_def webhook_ApplyDefaults_def url_error_def
        sample_url_def trimmed_sample bad_event_def format_ok_def FormatJSON_def sample_hook_api_def sample_hook_payload_def sample_hook_def
        update_where_def present_hook_def Let_def)
  from edited_callback_keeps_its_secret [OF h] have s: "whSecret new = ''s''" and n: "new\<lparr>whSecret := [], whCreatedAt := zero_time\<rparr> = hrHook r"
    by (simp_all add: sample_hook_def sample_hook_payload_def)
  have "whFormat new = ''json''" using arg_cong [OF n, of whFormat] f by simp
  then show ?thesis using h s by blast
qed

definition sample_exclusion :: global_rule where
  "sample_exclusion = \<lparr>grID = [], grSource = Val SourceInline, grPatterns = [''cache''], grFilePath = [], grJSONKey = [],
     grCaseSensitive = False, grOnError = Raw []\<rparr>"

theorem exclusions_are_replaced_as_sent_witness:
  "\<exists>rules db'. handleReplaceGlobalFilters (sample_env [''g1'']) None (Inr [sample_exclusion]) two_targets = (Okay 200 rules, db')
     \<and> length rules = 1 \<and> ListGlobalFilterRules None db' = Inr rules"
proof -
  let ?g = "global_ApplyDefaults sample_exclusion"
  have again: "global_ApplyDefaults ?g = ?g" "sample_exclusion\<lparr>grID := []\<rparr> = sample_exclusion"
    by (simp_all add: global_ApplyDefaults_def or_default_def sample_exclusion_def)
  have v: "global_Validate id ?g = None"
    by (simp add: sample_exclusion_def global_Validate_def global_ApplyDefaults_def AsFilterRule_def rule_ApplyDefaults_def
        or_default_def rule_Validate_def scope_check_def known_def source_check_def)
  have e: "seQuote (sample_env ns) = id" "seFault (sample_env ns) s = None" "seIDs (sample_env [''g1'']) 0 = Inr ''g1''" for ns s
    by (simp_all add: sample_env_def)
  have "\<exists>db'. ReplaceGlobalFilterRules (sample_env [''g1'']) [?g] two_targets = (None, db')"
    unfolding ReplaceGlobalFilterRules_def Let_def e
    by (simp add: again v e bind_err_def in_context_def statement_def barrier_def)
  then obtain db' where r: "ReplaceGlobalFilterRules (sample_env [''g1'']) [?g] two_targets = (None, db')" by blast
  obtain rules where l: "handleGetGlobalFilters None db' = Okay 200 rules" by (simp add: handleGetGlobalFilters_def ListGlobalFilterRules_def)
  have h: "handleReplaceGlobalFilters (sample_env [''g1'']) None (Inr [sample_exclusion]) two_targets = (Okay 200 rules, db')"
    unfolding handleReplaceGlobalFilters_def Let_def sum.case by (simp add: again v r l e)
  from exclusions_are_replaced_as_sent [OF h] h show ?thesis by (auto dest: list_all2_lengthD)
qed

theorem preview_is_what_will_run_witness:
  "jbNextRunAt (RefreshNextRun id every_minute 0 (sample_job\<lparr>jbEnabled := True, jbScheduleCron := ''@every 1m''\<rparr>)) = 60000000000"
proof -
  have "TrimSpace ''@every 1m'' = ''@every 1m''" by (rule TrimSpace_graphic) (simp add: graphic_def)
  then have p: "ParseSchedule id every_minute ''@every 1m'' = Inr \<lparr>scDelay = Some 60000000000, scNext = (\<lambda>t. (t div 60000000000 + 1) * 60000000000)\<rparr>"
    by (simp add: ParseSchedule_def every_minute_def MinInterval_def)
  obtain r where h: "handleSchedulePreview id every_minute ''UTC'' (\<lambda>_. []) 0 (Inr ''@every 1m'') = Okay 200 r" "spvValid r"
      and n: "spvNext r = upcoming \<lparr>scDelay = Some 60000000000, scNext = (\<lambda>t. (t div 60000000000 + 1) * 60000000000)\<rparr> (Suc 2) 0"
    unfolding handleSchedulePreview_def sum.case p Let_def previewCount_def by simp
  have n: "hd (spvNext r) = 60000000000" "spvNext r \<noteq> []" unfolding n upcoming.simps by (simp_all add: zero_time_def)
  from preview_is_what_will_run [OF every_minute_ok h(1), of sample_job] h(2) n show ?thesis by (cases "spvNext r") simp_all
qed

theorem missing_only_when_seen_witness:
  "\<exists>c. handleCheckFilterFile missing_subpath (Inr ''/rules'') [] = Okay 200 c \<and> fcChecked c \<and> \<not> fcExists c"
proof -
  have t: "TrimSpace ''/rules'' = ''/rules''" by (rule TrimSpace_graphic) (simp add: graphic_def)
  obtain c where h: "handleCheckFilterFile missing_subpath (Inr ''/rules'') [] = Okay 200 c" "fcChecked c"
    by (simp add: handleCheckFilterFile_def t HasPrefix_def TargetRefPrefix_def bounded_def missing_subpath_def errors_Is_def new_error_def Let_def)
  have "\<not> errors_Is (osCtx missing_subpath) ErrNotExist" by (simp add: missing_subpath_def errors_Is_def new_error_def)
  from missing_only_when_seen [OF h(1) this] h show ?thesis by (auto simp: missing_subpath_def split: if_splits)
qed

end
