(* ===== verification/Target_Visits.thy ===== *)
theory Target_Visits
  imports Catalog_Jobs Filter_Trial Sign_In
begin

text \<open>
  The requests that go and look at a target: the test of a target (\<open>Test\<close> of
  \<^verbatim>\<open>src/internal/storage/storage.go\<close>, \<open>handleTestTarget\<close> of \<^verbatim>\<open>src/internal/api/targets.go\<close>), making a
  folder (\<^verbatim>\<open>mkdir.go\<close>) and the path picker (\<^verbatim>\<open>browse.go\<close>). Each resolves the target to a local root
  over the mount manager, looks there, and gives its reference back.
\<close>

section \<open>What a visit meets\<close>

text \<open>The figures of a file system are machine words, and their products wrap.\<close>

record fs_stat =
  sfBlockSize :: "64 word"
  sfBlocks :: "64 word"
  sfBlocksFree :: "64 word"
  sfBlocksAvail :: "64 word"

text \<open>An entry of a directory, with the size \<open>Info\<close> gives, whether it gives one in time, and
  whether the budget of the request is still open when its turn comes.\<close>

record dir_entry =
  deName :: string
  deIsDir :: bool
  deInfo :: "(goerr + int) option"
  deInBudget :: bool

record 'w place =
  plDb :: catalog
  plMgr :: "'w mgr"

record 'w visit_env =
  viSite :: "'w site"
  viRead :: store_env
  viDialect :: store_env
  viStat :: "string \<Rightarrow> 'w \<Rightarrow> fs_stat"
  viList :: "string \<Rightarrow> 'w \<Rightarrow> (goerr + raw_entry list \<times> goerr option) option"
  viReadDir :: "string \<Rightarrow> 'w \<Rightarrow> (goerr + dir_entry list) option"
  viElapsed :: duration

text \<open>
  The target as a resolution leaves it: mounting a share notes the dialect that worked, on the
  target it was given and in its row.
\<close>

definition mounted_as :: "'w site \<Rightarrow> target \<Rightarrow> 'w mgr \<Rightarrow> target" where
  "mounted_as S t m =
     (let mt = stMounter S; dir = mountpointFor (stConfig S) (tgID t); w = mgWorld m;
          remount = (\<lambda>w. case mgr_mount mt (stConfig S) (stCall S) (stQuote S) t dir w of
              (None, t1, w) \<Rightarrow> t1 | (Some _, t1, w) \<Rightarrow> t)
      in if tgType t \<noteq> TargetSMB then t
         else case mountAt mt dir w of
           Inl _ \<Rightarrow> t
         | Inr None \<Rightarrow> remount w
         | Inr (Some existing) \<Rightarrow>
             if miSource existing = UNCPath t \<and> probe_ok mt dir w then t else remount (forceUnmount mt dir w))"

definition recordDialect :: "store_env \<Rightarrow> target \<Rightarrow> string \<Rightarrow> catalog \<Rightarrow> catalog" where
  "recordDialect E t dialect db =
     (if NegotiatedVers t = dialect then db else snd (SetNegotiatedVers E (tgID t) dialect db))"

definition open_target ::
  "'w visit_env \<Rightarrow> target \<Rightarrow> 'w place \<Rightarrow> (goerr + storage \<times> string) \<times> target \<times> 'w place" where
  "open_target V t p =
     (case For (stQuote (viSite V)) t of
        Inl e \<Rightarrow> (Inl e, t, p)
      | Inr st \<Rightarrow>
          let t1 = mounted_as (viSite V) t (plMgr p);
              db = recordDialect (viDialect V) t (NegotiatedVers t1) (plDb p)
          in case storage_Resolve (viSite V) st (plMgr p) of
               (Inl e, st, m) \<Rightarrow> (Inl e, t1, \<lparr>plDb = db, plMgr = m\<rparr>)
             | (Inr path, st, m) \<Rightarrow> (Inr (st, path), t1, \<lparr>plDb = db, plMgr = m\<rparr>))"

definition leave_target :: "'w visit_env \<Rightarrow> storage \<Rightarrow> 'w place \<Rightarrow> 'w place" where
  "leave_target V st p = p\<lparr>plMgr := snd (storage_Release (caNow (stCall (viSite V))) st (plMgr p))\<rparr>"


section \<open>Testing a target\<close>

record test_result =
  tqRoot :: string
  tqVers :: string
  tqCapacity :: "64 word"
  tqFree :: "64 word"
  tqEntries :: "list_entry list"
  tqTruncated :: bool
  tqElapsedMS :: int

definition space_of :: "'w visit_env \<Rightarrow> storage \<Rightarrow> string \<Rightarrow> 'w \<Rightarrow> goerr + 64 word \<times> 64 word" where
  "space_of V st path w =
     (case st of
        LocalStorage _ \<Rightarrow> Inr (0, 0)
      | SMBStorage _ \<Rightarrow>
          (case Probe (stMounter (viSite V)) (osCtx (stOs (viSite V))) path w of
             Some e \<Rightarrow> Inl e
           | None \<Rightarrow> let q = viStat V path w in Inr (sfBlocks q * sfBlockSize q, sfBlocksAvail q * sfBlockSize q)))"

definition test_root :: "'w visit_env \<Rightarrow> target \<Rightarrow> storage \<Rightarrow> string \<Rightarrow> 'w \<Rightarrow> goerr + test_result" where
  "test_root V t st path w =
     bind_err (space_of V st path w) (\<lambda>(capacity, free).
     bind_err (listDir path listLimit (osCtx (stOs (viSite V))) (viList V path w)) (\<lambda>(es, truncated).
     Inr \<lparr>tqRoot = path, tqVers = NegotiatedVers t, tqCapacity = capacity, tqFree = free,
          tqEntries = es, tqTruncated = truncated, tqElapsedMS = viElapsed V div 1000000\<rparr>))"

definition noted :: "'w visit_env \<Rightarrow> target \<Rightarrow> goerr option \<Rightarrow> 'w place \<Rightarrow> 'w place" where
  "noted V t err p =
     (let now = caNow (stCall (viSite V)); m = plMgr p in
      p\<lparr>plMgr := m\<lparr>mgHealth :=
        (case err of Some e \<Rightarrow> SetUnhealthy now (tgID t) (err_text e) (mgHealth m) | None \<Rightarrow> SetHealthy now (tgID t) (mgHealth m))\<rparr>\<rparr>)"

definition provider_Test :: "'w visit_env \<Rightarrow> target \<Rightarrow> 'w place \<Rightarrow> (goerr + test_result) \<times> 'w place" where
  "provider_Test V t p =
     (if isl (For (stQuote (viSite V)) t) then (Inl (projl (For (stQuote (viSite V)) t)), p)
      else case open_target V t p of
        (Inl e, t, p) \<Rightarrow> (Inl e, noted V t (Some e) p)
      | (Inr (st, path), t, p) \<Rightarrow>
          (case test_root V t st path (mgWorld (plMgr p)) of
             Inl e \<Rightarrow> (Inl e, leave_target V st (noted V t (Some e) p))
           | Inr res \<Rightarrow> (Inr res, leave_target V st (noted V t None p))))"


section \<open>Replies\<close>

definition store_error :: "goerr \<Rightarrow> 'b http_reply" where
  "store_error e =
     (if errors_Is e ErrNotFound then Problem 404 ''not_found'' (err_text e)
      else if errors_Is e ErrNameTaken then Problem 409 ''name_taken'' []
      else Problem 400 ''invalid_target'' [])"

text \<open>\<open>errors.As\<close>: the first classified mount error of the chain.\<close>

fun mount_failed :: "sentinel list \<Rightarrow> (string \<times> string) option" where
  "mount_failed [] = None"
| "mount_failed (s # ss) = (case s of MountFailed kind detail \<Rightarrow> Some (kind, detail) | _ \<Rightarrow> mount_failed ss)"

definition mount_reply :: "goerr \<Rightarrow> 'b http_reply" where
  "mount_reply e =
     (case mount_failed (err_chain e) of
        Some (kind, detail) \<Rightarrow> Problem (if kind = kind_text KindAuth then 401 else 502) ''mount_failed'' detail
      | None \<Rightarrow> Problem 502 ''target_unavailable'' [])"

definition handleTestTarget :: "'w visit_env \<Rightarrow> string \<Rightarrow> 'w place \<Rightarrow> test_result http_reply \<times> 'w place" where
  "handleTestTarget V i p =
     (case GetTarget (viRead V) i (plDb p) of
        Inl e \<Rightarrow> (store_error e, p)
      | Inr t \<Rightarrow>
          (case provider_Test V t p of
             (Inl e, p) \<Rightarrow> (mount_reply e, p)
           | (Inr res, p) \<Rightarrow> (Okay 200 res, p)))"


section \<open>Making a folder\<close>

definition stat_bounded :: "'w os_calls \<Rightarrow> string \<Rightarrow> 'w \<Rightarrow> goerr + bool" where
  "stat_bounded os path w = bounded (''reading the details of '' @ path) (osCtx os) (osStat os path w)"

definition make_folder :: "'w os_calls \<Rightarrow> string \<Rightarrow> string \<Rightarrow> 'w \<Rightarrow> (string \<times> bool) http_reply \<times> 'w" where
  "make_folder os full sub w =
     (if \<not> isl (stat_bounded os full w) then (Okay 200 (sub, False), w)
      else case MkdirAllBounded os full w of
        (Some e, w) \<Rightarrow> (Problem 502 ''mkdir_failed'' (err_text e), w)
      | (None, w) \<Rightarrow> (Okay 200 (sub, True), w))"

definition handleMakeDir :: "'w visit_env \<Rightarrow> string \<Rightarrow> goerr + string \<Rightarrow> 'w place \<Rightarrow> (string \<times> bool) http_reply \<times> 'w place" where
  "handleMakeDir V i b p =
     (case b of
        Inl e \<Rightarrow> (Problem 400 ''invalid_body'' (err_text e), p)
      | Inr path \<Rightarrow>
          let sub = TrimSpace path in
          if sub = [] then (Problem 400 ''invalid_path'' [], p)
          else if ValidateSubpath (stQuote (viSite V)) ''path'' sub \<noteq> None then (Problem 400 ''invalid_path'' [], p)
          else case GetTarget (viRead V) i (plDb p) of
            Inl e \<Rightarrow> (store_error e, p)
          | Inr t \<Rightarrow>
              (case open_target V t p of
                 (Inl e, _, p) \<Rightarrow> (mount_reply e, p)
               | (Inr (st, path), _, p) \<Rightarrow>
                   let (reply, w) = make_folder (stOs (viSite V)) (path_Join [path, Clean (''/'' @ sub)]) sub (mgWorld (plMgr p))
                   in (reply, leave_target V st (p\<lparr>plMgr := (plMgr p)\<lparr>mgWorld := w\<rparr>\<rparr>))))"


section \<open>The path picker\<close>

definition browseLimit :: nat where "browseLimit = 2000"

record browse_entry =
  beName :: string
  bePath :: string
  beIsDir :: bool
  beSize :: int

record browse_response =
  brTarget :: string
  brPath :: string
  brParent :: string
  brEntries :: "browse_entry list"
  brTruncated :: bool
  brTotal :: nat

definition browse_join :: "string \<Rightarrow> string \<Rightarrow> string" where
  "browse_join base sub = (if base = [] then sub else if sub = [] then base else path_Join [base, sub])"

definition path_Dir :: "string \<Rightarrow> string" where
  "path_Dir p = Clean (rev (dropWhile (\<lambda>c. c \<noteq> slash) (rev p)))"

definition browse_parent :: "string \<Rightarrow> string" where
  "browse_parent sub = (if sub = [] then [] else if path_Dir sub = ''.'' then [] else path_Dir sub)"

definition browse_less :: "dir_entry \<Rightarrow> dir_entry \<Rightarrow> bool" where
  "browse_less a b = (if deIsDir a \<noteq> deIsDir b then deIsDir a else deName a < deName b)"

definition browse_row :: "string \<Rightarrow> goerr \<Rightarrow> dir_entry \<Rightarrow> browse_entry" where
  "browse_row sub ctx e =
     (let path = path_Join [sub, deName e] in
      \<lparr>beName = deName e, bePath = path, beIsDir = deIsDir e,
       beSize = (if \<not> deIsDir e \<and> deInBudget e
                 then case bounded (''reading the details of '' @ path) ctx (deInfo e) of Inl _ \<Rightarrow> 0 | Inr n \<Rightarrow> n else 0)\<rparr>)"

definition browse_listing :: "string \<Rightarrow> string \<Rightarrow> goerr \<Rightarrow> dir_entry list \<Rightarrow> browse_response" where
  "browse_listing i sub ctx es =
     \<lparr>brTarget = i, brPath = sub, brParent = browse_parent sub,
      brEntries = map (browse_row sub ctx) (take browseLimit (sort_slice browse_less es)),
      brTruncated = (browseLimit < length es), brTotal = length es\<rparr>"

definition handleBrowse :: "'w visit_env \<Rightarrow> string \<Rightarrow> string \<Rightarrow> 'w place \<Rightarrow> browse_response http_reply \<times> 'w place" where
  "handleBrowse V i sub p =
     (if i = [] then (Problem 400 ''missing_target'' [], p)
      else if ValidateSubpath (stQuote (viSite V)) ''path'' sub \<noteq> None then (Problem 400 ''invalid_path'' [], p)
      else case GetTarget (viRead V) i (plDb p) of
        Inl e \<Rightarrow> (store_error e, p)
      | Inr t \<Rightarrow>
          (case open_target V (t\<lparr>Subpath := browse_join (Subpath t) sub\<rparr>) p of
             (Inl e, _, p) \<Rightarrow> ((if errors_Is e ErrPathNotExist then Problem 404 ''path_not_found'' [] else mount_reply e), p)
           | (Inr (st, path), _, p) \<Rightarrow>
               let ctx = osCtx (stOs (viSite V)) in
               ((case bounded (''listing '' @ path) ctx (viReadDir V path (mgWorld (plMgr p))) of
                   Inl e \<Rightarrow> Problem 502 ''listing_failed'' (err_text e)
                 | Inr es \<Rightarrow> Okay 200 (browse_listing i sub ctx es)),
                leave_target V st p)))"

section \<open>Whatever a visit meets, it gives its reference back\<close>

lemma open_target_refs:
  assumes "mgr_ok (plMgr p)" "open_target V t p = (r, t1, p1)"
  shows "mgr_ok (plMgr p1) \<and> mgr_refs x (plMgr p1) = mgr_refs x (plMgr p)
    + (case r of Inl _ \<Rightarrow> 0 | Inr (st, _) \<Rightarrow> if x = tgID t then storage_weight st else 0)
    \<and> (\<forall>st path. r = Inr (st, path) \<longrightarrow> tgID (storage_target st) = tgID t)"
proof (cases "For (stQuote (viSite V)) t")
  case (Inl e)
  then show ?thesis using assms by (auto simp: open_target_def)
next
  case (Inr st)
  note f = For_fresh [OF Inr]
  obtain q st2 m2 where q: "storage_Resolve (viSite V) st (plMgr p) = (q, st2, m2)" by (metis prod_cases3)
  let ?x = "LocalStorage \<lparr>lsTarget = t\<lparr>tgID := x\<rparr>, lsCreate = False\<rparr>"
  have p1: "plMgr p1 = m2" "r = (case q of Inl e \<Rightarrow> Inl e | Inr path \<Rightarrow> Inr (st2, path))"
    using assms(2) Inr q by (auto simp: open_target_def Let_def split: sum.splits)
  have "mgr_refs x m2 = mgr_refs x (plMgr p) + (if x = tgID t then storage_weight st2 else 0)"
    using target.resolve_refs [OF assms(1) q, of ?x] f by simp
  moreover have "isl q \<longrightarrow> storage_weight st2 = 0" using target.resolve_fails [of "viSite V" st "plMgr p" _ st2 m2] q f by (cases q) auto
  ultimately show ?thesis using target.resolve_ok [OF assms(1) q] p1 f by (auto split: sum.splits)
qed

text \<open>What happens to health and to the world while a target is open does not count.\<close>

lemma visit_balanced:
  assumes "mgr_ok (plMgr p)" "open_target V t p = (Inr (st, path), t1, p1)"
    and "mgr_ok (plMgr q)" "\<And>y. mgr_refs y (plMgr q) = mgr_refs y (plMgr p1)"
  shows "mgr_refs x (plMgr (leave_target V st q)) = mgr_refs x (plMgr p) \<and> mgr_ok (plMgr (leave_target V st q))"
proof -
  note o = open_target_refs [OF assms(1,2)]
  have "0 \<le> mgr_refs y (plMgr p)" for y using assms(1) by (auto simp: mgr_ok_def mgr_refs_def split: option.split)
  then have "storage_weight st \<le> mgr_refs (tgID (storage_target st)) (plMgr q)"
    using o [of "tgID t"] assms(4) [of "tgID t"] by simp
  then show ?thesis
    using release_storage_refs(1) [OF assms(3), of st "viSite V"] release_storage_refs(2) [OF assms(3), of st x "viSite V"] o [of x] assms(4) [of x]
    by (simp add: leave_target_def release_storage_def)
qed

lemma noted_refs [simp]: "mgr_refs x (plMgr (noted V t e p)) = mgr_refs x (plMgr p)" "mgr_ok (plMgr (noted V t e p)) = mgr_ok (plMgr p)"
  by (simp_all add: noted_def Let_def)

lemma test_balanced: "mgr_ok (plMgr p) \<Longrightarrow> mgr_refs x (plMgr (snd (provider_Test V t p))) = mgr_refs x (plMgr p)"
proof -
  assume ok: "mgr_ok (plMgr p)"
  obtain r t1 p1 where o: "open_target V t p = (r, t1, p1)" by (metis prod_cases3)
  show ?thesis
  proof (cases r)
    case (Inl e)
    then show ?thesis using open_target_refs [OF ok o, of x] o by (simp add: provider_Test_def)
  next
    case (Inr a)
    obtain st path where a: "a = (st, path)" by fastforce
    note n = visit_balanced [OF ok o [unfolded Inr a], where q = "noted V t1 e p1" and x = x for e]
    have "mgr_ok (plMgr p1)" using open_target_refs [OF ok o, of x] by simp
    then show ?thesis using n o Inr a by (auto simp: provider_Test_def split: sum.splits)
  qed
qed

text \<open>
  C35: looking at a target leaves no trace in the mount manager. Whether a test, a new folder or a
  listing succeeds, times out half way, or meets a share that is down, afterwards every target has
  as many references as before, so that none is kept mounted by a request that is over.
\<close>

theorem visits_give_their_references_back:
  assumes "mgr_ok (plMgr p)"
  shows "mgr_refs x (plMgr (snd (handleTestTarget V i p))) = mgr_refs x (plMgr p)
    \<and> mgr_refs x (plMgr (snd (handleMakeDir V i b p))) = mgr_refs x (plMgr p)
    \<and> mgr_refs x (plMgr (snd (handleBrowse V i sub p))) = mgr_refs x (plMgr p)"
proof (intro conjI)
  have "mgr_refs x (plMgr p1) = mgr_refs x (plMgr p)" if "provider_Test V t p = (r, p1)" for t r p1
    using test_balanced [OF assms, of x V t] that by simp
  then show "mgr_refs x (plMgr (snd (handleTestTarget V i p))) = mgr_refs x (plMgr p)" by (auto simp: handleTestTarget_def split: sum.splits prod.splits)
next
  have "mgr_refs x (plMgr (leave_target V st (p1\<lparr>plMgr := (plMgr p1)\<lparr>mgWorld := w\<rparr>\<rparr>))) = mgr_refs x (plMgr p)"
    if "open_target V t p = (Inr (st, path), t1, p1)" for t st path t1 p1 w
    using visit_balanced [OF assms that, of "p1\<lparr>plMgr := (plMgr p1)\<lparr>mgWorld := w\<rparr>\<rparr>" x] open_target_refs [OF assms that] by simp
  then show "mgr_refs x (plMgr (snd (handleMakeDir V i b p))) = mgr_refs x (plMgr p)"
    using open_target_refs [OF assms] by (fastforce simp: handleMakeDir_def Let_def split: sum.splits prod.splits)
next
  have "mgr_refs x (plMgr (leave_target V st p1)) = mgr_refs x (plMgr p)"
    if "open_target V t p = (Inr (st, path), t1, p1)" for t st path t1 p1
    using visit_balanced [OF assms that, of p1 x] open_target_refs [OF assms that] by simp
  then show "mgr_refs x (plMgr (snd (handleBrowse V i sub p))) = mgr_refs x (plMgr p)"
    using open_target_refs [OF assms] by (fastforce simp: handleBrowse_def Let_def split: sum.splits prod.splits)
qed


section \<open>A folder is made below its target\<close>

definition base_of :: "'w site \<Rightarrow> target \<Rightarrow> string" where
  "base_of S t = (if tgType t = TargetSMB then mountpointFor (stConfig S) (tgID t) else LocalPath t)"

lemma Acquire_dir: "Acquire mt cfg ca uq t m = (Inr dir, m') \<Longrightarrow> dir = mountpointFor cfg (tgID t)"
  by (auto simp: Acquire_def acquire_at_def Let_def split: prod.splits if_splits option.splits)

lemma smb_root: "\<not> smHeld s \<Longrightarrow> smb_Resolve mt cfg ca uq os s m = (Inr path, s', m')
    \<Longrightarrow> path = withSubpath (mountpointFor cfg (tgID (smTarget s))) (Subpath (smTarget s))"
  by (auto simp: smb_Resolve_def Let_def split: sum.splits option.splits prod.splits if_splits dest: Acquire_dir)

lemma local_root: "local_Resolve os uq now l h w = (Inr path, h', w') \<Longrightarrow> path = withSubpath (LocalPath (lsTarget l)) (Subpath (lsTarget l))"
  by (auto simp: local_Resolve_def Let_def split: option.splits prod.splits if_splits)

lemma opened_root:
  "open_target V t p = (Inr (st, path), t1, p1) \<Longrightarrow> path = withSubpath (base_of (viSite V) t) (Subpath t)"
  by (cases "For (stQuote (viSite V)) t")
    (auto simp: open_target_def base_of_def For_def Let_def split: target_type.splits sum.splits prod.splits
      dest: smb_root [where s = "\<lparr>smTarget = t, smRoot = [], smHeld = False, smCreate = False\<rparr>", simplified]
        local_root [where l = "\<lparr>lsTarget = t, lsCreate = False\<rparr>", simplified])

lemma folder_below:
  assumes "HasPrefix base ''/''"
  shows "below base (path_Join [withSubpath base sp, Clean (''/'' @ sub)])"
proof -
  have r: "base \<noteq> []" "hd base = slash" using assms by (cases base; simp add: HasPrefix_def)+
  show ?thesis
  proof (cases "sp = []")
    case True
    then show ?thesis using path_Join_rooted [OF r, of sub] more_segs_below [OF assms rooted_segs_plain]
      by (simp add: withSubpath_def)
  next
    case False
    let ?q = "slash # Join (rooted_segs base @ rooted_segs (slash # sp)) ''/''"
    have plain: "list_all plain_seg (rooted_segs base @ rooted_segs (slash # sp))" using rooted_segs_plain by simp
    have "withSubpath base sp = ?q" using False path_Join_rooted [OF r, of sp] by (simp add: withSubpath_def)
    moreover have "path_Join [?q, Clean (slash # sub)] = slash # Join (rooted_segs base @ rooted_segs (slash # sp) @ rooted_segs (slash # sub)) ''/''"
      using path_Join_rooted [of ?q sub] rooted_segs_Join [OF plain] by simp
    ultimately show ?thesis using more_segs_below [OF assms, of "rooted_segs (slash # sp) @ rooted_segs (slash # sub)"] rooted_segs_plain by simp
  qed
qed

abbreviation with_folders :: "(string \<Rightarrow> 'w \<Rightarrow> (goerr + unit) option \<times> 'w) \<Rightarrow> 'w visit_env \<Rightarrow> 'w visit_env" where
  "with_folders mk V \<equiv> V\<lparr>viSite := with_mkdir mk (viSite V)\<rparr>"

lemma open_no_create: "open_target (with_folders mk V) t p = open_target V t p"
proof (cases "For (stQuote (viSite V)) t")
  case (Inr st)
  have "storage_Resolve (with_mkdir mk S) st m = storage_Resolve S st m" for S m
    using For_no_create [OF Inr] by (cases st) (simp_all add: smb_Resolve_no_create local_Resolve_no_create)
  then show ?thesis using Inr by (simp add: open_target_def mounted_as_def)
qed (simp add: open_target_def)

lemma leave_with_folders [simp]: "leave_target (with_folders mk V) st p = leave_target V st p"
  by (simp add: leave_target_def)

lemma make_folder_there:
  "mk full w = osMkdirAll os full w \<Longrightarrow> make_folder (os\<lparr>osMkdirAll := mk\<rparr>) full sub w = make_folder os full sub w"
  by (simp add: make_folder_def stat_bounded_def MkdirAllBounded_def)

text \<open>
  a folder asked for is made below its target and nowhere else. Whatever path is sent, the
  request is answered in the same way whatever making a directory outside the target's own
  directory (its mountpoint, or its local path) would do: no such directory is ever asked for.
\<close>

theorem folders_are_made_below_their_target:
  assumes "GetTarget (viRead V) i (plDb p) = Inr t" and "HasPrefix (base_of (viSite V) t) ''/''"
    and "\<And>path w. below (base_of (viSite V) t) path \<Longrightarrow> mk path w = osMkdirAll (stOs (viSite V)) path w"
  shows "handleMakeDir (with_folders mk V) i b p = handleMakeDir V i b p"
proof -
  have "make_folder ((stOs (viSite V))\<lparr>osMkdirAll := mk\<rparr>) (path_Join [path, Clean (''/'' @ sub)]) sub w
      = make_folder (stOs (viSite V)) (path_Join [path, Clean (''/'' @ sub)]) sub w"
    if "open_target V t p = (Inr (st, path), t1, p1)" for st path t1 p1 sub w
    using assms(3) [OF folder_below [OF assms(2)], of "Subpath t"] opened_root [OF that] by (intro make_folder_there) simp
  then show ?thesis
    by (simp add: handleMakeDir_def open_no_create assms(1) Let_def split: sum.split prod.split)
qed


section \<open>The picker keeps the way out\<close>

interpretation picker: slice_order browse_less
  by unfold_locales (auto simp: browse_less_def split: if_splits)

lemma directories_first:
  assumes "e \<in> set es" "deIsDir e" "e \<notin> set (take n (sort_slice browse_less es))" "x \<in> set (take n (sort_slice browse_less es))"
  shows "deIsDir x"
proof -
  let ?l = "sort_slice browse_less es"
  have "sorted_wrt (\<lambda>a b. \<not> browse_less b a) (take n ?l @ drop n ?l)" using picker.sort_slice_sorted [of es] by simp
  moreover have "e \<in> set (drop n ?l)" using assms(1,3) by (metis Un_iff append_take_drop_id set_append set_sort_slice)
  ultimately have "\<not> browse_less e x" using assms(4) unfolding sorted_wrt_append by blast
  then show ?thesis using assms(2) by (auto simp: browse_less_def split: if_splits)
qed

text \<open>
  a listing is honest and leads on. It shows two thousand entries of the directory at most, says
  how many there are and whether it left any out, and leaves a directory out only when everything it
  shows is a directory.
\<close>

theorem picker_leaves_out_files_first:
  assumes "handleBrowse V i sub p = (Okay code r, p')"
  shows "\<exists>path w es. viReadDir V path w = Some (Inr es) \<and> brTotal r = length es
    \<and> brTruncated r = (2000 < length es) \<and> length (brEntries r) = min 2000 (length es)
    \<and> (\<forall>row \<in> set (brEntries r). \<exists>e \<in> set es. beName row = deName e \<and> beIsDir row = deIsDir e)
    \<and> (\<forall>e \<in> set es. deIsDir e \<and> deName e \<notin> beName ` set (brEntries r) \<longrightarrow> (\<forall>row \<in> set (brEntries r). beIsDir row))"
proof -
  obtain path w es where es: "viReadDir V path w = Some (Inr es)" and r: "r = browse_listing i sub (osCtx (stOs (viSite V))) es"
    using assms by (auto simp: handleBrowse_def store_error_def mount_reply_def bounded_def Let_def
        split: if_splits sum.splits prod.splits option.splits)
  let ?shown = "take browseLimit (sort_slice browse_less es)"
  have rows: "brEntries r = map (browse_row sub (osCtx (stOs (viSite V)))) ?shown" by (simp add: r browse_listing_def)
  have "\<forall>row \<in> set (brEntries r). beIsDir row" if "e \<in> set es" "deIsDir e" "deName e \<notin> beName ` set (brEntries r)" for e
  proof -
    have "e \<notin> set ?shown" using that(3) by (auto simp: rows browse_row_def image_image Let_def)
    then show ?thesis using directories_first [OF that(1,2)] by (auto simp: rows browse_row_def Let_def)
  qed
  moreover have "\<exists>e \<in> set es. beName row = deName e \<and> beIsDir row = deIsDir e" if row: "row \<in> set (brEntries r)" for row
    using row set_take_subset [of browseLimit "sort_slice browse_less es"] by (auto simp: rows browse_row_def Let_def)
  ultimately show ?thesis using es by (intro exI [of _ path] exI [of _ w] exI [of _ es]) (simp add: r browse_listing_def browseLimit_def)
qed


section \<open>A test and the health of its target\<close>

lemma release_health [simp]: "mgHealth (release now i m) = mgHealth m"
  by (simp add: release_def release_at_def entryFor_def Let_def split: option.split)

lemma leave_health [simp]: "mgHealth (plMgr (leave_target V st p)) = mgHealth (plMgr p)"
  by (cases st) (simp_all add: leave_target_def smb_Release_def drop_ref_def)

lemma dialect_loop_ID: "dialect_loop mt cfg ca uq dir password mc k ds f t w = (r, t', w') \<Longrightarrow> tgID t' = tgID t"
  by (induction ds arbitrary: k f w) (auto split: option.splits prod.splits if_splits)

lemma mgr_mount_ID: "mgr_mount mt cfg ca uq t dir w = (r, t', w') \<Longrightarrow> tgID t' = tgID t"
  by (auto simp: mgr_mount_def tryDialects_def Let_def split: option.splits prod.splits sum.splits if_splits dest: dialect_loop_ID)
    (metis dialect_loop_ID)+

lemma mounted_as_ID [simp]: "tgID (mounted_as S t m) = tgID t"
  by (auto simp: mounted_as_def Let_def split: option.splits prod.splits sum.splits dest: mgr_mount_ID)

lemma noted_health: "stState (health_Get (mgHealth (plMgr (noted V t e p))) (tgID t)) = (if e = None then StateHealthy else StateUnhealthy)"
  by (auto simp: noted_def health_Get_def SetHealthy_def SetUnhealthy_def gm.get_put Let_def split: option.split)

text \<open>
  a test and the health shown of its target agree: after one that succeeded the target is
  healthy; after one that failed it is not, unless nothing was tried, the target being of no known
  type, and nothing has changed.
\<close>

theorem test_is_what_health_says:
  assumes "GetTarget (viRead V) i (plDb p) = Inr t" and "handleTestTarget V i p = (reply, p')"
  shows "stState (health_Get (mgHealth (plMgr p')) i) = (case reply of Okay _ _ \<Rightarrow> StateHealthy | Problem _ _ _ \<Rightarrow> StateUnhealthy)
    \<or> p' = p \<and> reply = Problem 502 ''target_unavailable'' []"
proof -
  have i: "tgID t = i" using assms(1)
    by (auto simp: GetTarget_def target_row_of_def find_Some_iff split: option.splits)
  obtain r p1 where v: "provider_Test V t p = (r, p1)" by fastforce
  show ?thesis
  proof (cases "For (stQuote (viSite V)) t")
    case (Inl e)
    then have "err_chain e = []" by (auto simp: For_def new_error_def split: target_type.splits)
    then show ?thesis using assms Inl by (auto simp: handleTestTarget_def provider_Test_def mount_reply_def)
  next
    case (Inr st)
    obtain q t1 p2 where o: "open_target V t p = (q, t1, p2)" by (metis prod_cases3)
    have "t1 = mounted_as (viSite V) t (plMgr p)" using o Inr by (auto simp: open_target_def Let_def split: sum.splits prod.splits)
    then have t1: "tgID t1 = i" using i by simp
    have "stState (health_Get (mgHealth (plMgr p1)) i) = (if isl r then StateUnhealthy else StateHealthy)"
      using v Inr o noted_health [of V t1] t1
      by (cases q) (auto simp: provider_Test_def isl_def split: sum.splits prod.splits, (metis Inl_Inr_False)+)
    then show ?thesis using assms v by (auto simp: handleTestTarget_def mount_reply_def split: sum.splits option.splits prod.splits)
  qed
qed


section \<open>Visits to a share and to a local path\<close>

definition sample_visit :: "mount_info list visit_env" where
  "sample_visit = \<lparr>viSite = sample_site\<lparr>stOs := quiet_os\<lparr>osStat := (\<lambda>p w. Some (if p = ''/srv'' then Inr True else Inl (new_error ''no such file'' [ErrNotExist])))\<rparr>\<rparr>,
     viRead = sample_env [], viDialect = sample_env [], viStat = (\<lambda>p w. \<lparr>sfBlockSize = 4096, sfBlocks = 10, sfBlocksFree = 5, sfBlocksAvail = 4\<rparr>),
     viList = (\<lambda>p w. Some (Inr ([\<lparr>reName = ''a'', reIsDir = False, reInfo = Some (3, 7)\<rparr>], None))),
     viReadDir = (\<lambda>p w. Some (Inr [\<lparr>deName = ''a'', deIsDir = False, deInfo = Some (Inr 3), deInBudget = True\<rparr>,
       \<lparr>deName = ''b'', deIsDir = True, deInfo = None, deInBudget = True\<rparr>])),
     viElapsed = 5000000\<rparr>"

definition sample_place :: "mount_info list place" where
  "sample_place = \<lparr>plDb = two_targets, plMgr = msMgr (mgr_start [])\<rparr>"

lemmas visit_eval = sample_visit_def sample_place_def sample_env_def GetTarget_def target_row_of_def two_targets_def local_target_def
  open_target_def mounted_as_def recordDialect_def For_def sample_site_def quiet_os_def local_Resolve_def local_check_def stat_now_def withSubpath_def

theorem visits_give_their_references_back_witness:
  "mgr_refs ''a1'' (plMgr (snd (handleBrowse sample_visit ''a1'' [] sample_place))) = 0"
proof -
  have "mgr_ok (plMgr sample_place)" "mgr_refs ''a1'' (plMgr sample_place) = 0"
    by (simp_all add: sample_place_def mgr_ok_def mgr_refs_def mgr_start_def)
  then show ?thesis using visits_give_their_references_back by metis
qed

theorem folders_are_made_below_their_target_witness:
  "handleMakeDir (with_folders (\<lambda>path w. if below ''/srv'' path then osMkdirAll quiet_os path w else (None, [])) sample_visit) ''a1'' (Inr ''new'') sample_place
     = handleMakeDir sample_visit ''a1'' (Inr ''new'') sample_place"
proof (rule folders_are_made_below_their_target)
  show "GetTarget (viRead sample_visit) ''a1'' (plDb sample_place) = Inr (local_target ''a1'')" by (simp add: visit_eval)
  have base: "base_of (viSite sample_visit) (local_target ''a1'') = ''/srv''" by (simp add: base_of_def local_target_def)
  show "HasPrefix (base_of (viSite sample_visit) (local_target ''a1'')) ''/''" unfolding base by (simp add: HasPrefix_def)
  show "(if below ''/srv'' path then osMkdirAll quiet_os path w else (None, [])) = osMkdirAll (stOs (viSite sample_visit)) path w"
    if "below (base_of (viSite sample_visit) (local_target ''a1'')) path" for path w
    using that unfolding base by (simp add: sample_visit_def)
qed

theorem picker_leaves_out_files_first_witness:
  "\<exists>r p'. handleBrowse sample_visit ''a1'' [] sample_place = (Okay 200 r, p') \<and> brTotal r = 2 \<and> \<not> brTruncated r"
proof -
  obtain r p' where h: "handleBrowse sample_visit ''a1'' [] sample_place = (Okay 200 r, p')"
    by (simp add: handleBrowse_def ValidateSubpath_def HasPrefix_def browse_join_def bounded_def visit_eval Let_def)
  have "brTotal r = 2 \<and> \<not> brTruncated r" using picker_leaves_out_files_first [OF h] by (auto simp: sample_visit_def)
  then show ?thesis using h by blast
qed

theorem test_is_what_health_says_witness:
  "stState (health_Get (mgHealth (plMgr (snd (handleTestTarget sample_visit ''a1'' sample_place)))) ''a1'') = StateHealthy"
proof -
  have t: "GetTarget (viRead sample_visit) ''a1'' (plDb sample_place) = Inr (local_target ''a1'')" by (simp add: visit_eval)
  obtain reply p' where h: "handleTestTarget sample_visit ''a1'' sample_place = (reply, p')" by fastforce
  moreover have "\<exists>res. reply = Okay 200 res"
    using h by (auto simp: handleTestTarget_def provider_Test_def test_root_def space_of_def listDir_def listLimit_def bind_err_def visit_eval Let_def)
  ultimately show ?thesis using test_is_what_health_says [OF t h] by auto
qed

end
