(* ===== verification/Api_Targets.thy ===== *)
theory Api_Targets
  imports Target_Visits
begin

text \<open>
  The handlers that keep the targets (\<^verbatim>\<open>src/internal/api/targets.go\<close>), over the tables of the store
  and the mount manager. A response carries the target without its password. \<open>mid\<close> is what others
  do between two calls of a handler.
\<close>

section \<open>Payloads and responses\<close>

record target_payload =
  ptName :: "string option"
  ptType :: "target_type option"
  ptHost :: "string option"
  ptShare :: "string option"
  ptSubpath :: "string option"
  ptLocalPath :: "string option"
  ptPort :: "int option"
  ptUsername :: "string option"
  ptPassword :: "string option"
  ptDomain :: "string option"
  ptMountOptsOverride :: "string option"
  ptMultichannel :: "bool option"

record target_response =
  tsTarget :: target
  tsHasPassword :: bool
  tsHealth :: status

definition present :: "'w mgr \<Rightarrow> target \<Rightarrow> target_response" where
  "present m t =
     \<lparr>tsTarget = t\<lparr>PasswordEncrypted := []\<rparr>, tsHasPassword = (PasswordEncrypted t \<noteq> []), tsHealth = health_Get (mgHealth m) (tgID t)\<rparr>"

record 'w target_env =
  taRead :: store_env
  taWrite :: store_env
  taSite :: "'w site"
  taCrypto :: crypto
  taBox :: aead
  taRandom :: "goerr + string"

definition given :: "'a option \<Rightarrow> 'a \<Rightarrow> 'a" where
  "given x old = (case x of None \<Rightarrow> old | Some v \<Rightarrow> v)"

definition named_fields :: "target_payload \<Rightarrow> target \<Rightarrow> target" where
  "named_fields q t =
     t\<lparr>tgName := given (ptName q) (tgName t), tgType := given (ptType q) (tgType t), Host := given (ptHost q) (Host t),
       Share := given (ptShare q) (Share t), Port := given (ptPort q) (Port t), Username := given (ptUsername q) (Username t),
       Domain := given (ptDomain q) (Domain t), MountOptsOverride := given (ptMountOptsOverride q) (MountOptsOverride t),
       Multichannel := given (ptMultichannel q) (Multichannel t), LocalPath := given (ptLocalPath q) (LocalPath t),
       Subpath := given (ptSubpath q) (Subpath t)\<rparr>"

definition apply_payload :: "'w target_env \<Rightarrow> target_payload \<Rightarrow> target \<Rightarrow> goerr + target" where
  "apply_payload E q t =
     (let t = named_fields q t in
      case ptPassword q of
        None \<Rightarrow> Inr t
      | Some password \<Rightarrow> bind_err (Encrypt (taCrypto E) (taBox E) (taRandom E) password) (\<lambda>enc. Inr (t\<lparr>PasswordEncrypted := enc\<rparr>)))"

definition blank_target :: target where
  "blank_target =
     \<lparr>tgID = [], tgName = [], tgType = TargetOther [], Host = [], Share = [], Port = 0, Username = [], Domain = [],
      MountOptsOverride = [], Multichannel = False, NegotiatedVers = [], LocalPath = [], Subpath = [], PasswordEncrypted = []\<rparr>"


section \<open>Handlers\<close>

definition handleCreateTarget :: "'w target_env \<Rightarrow> goerr + target_payload \<Rightarrow> 'w place \<Rightarrow> target_response http_reply \<times> 'w place" where
  "handleCreateTarget E b p =
     (case b of
        Inl e \<Rightarrow> (Problem 400 ''invalid_body'' (err_text e), p)
      | Inr q \<Rightarrow>
          if ptType q = None then (Problem 400 ''invalid_target'' [], p)
          else case apply_payload E q blank_target of
            Inl e \<Rightarrow> (Problem 500 ''encrypt_failed'' (err_text e), p)
          | Inr t \<Rightarrow>
              (case CreateTarget (taWrite E) t (plDb p) of
                 (Inl e, db) \<Rightarrow> (store_error e, p\<lparr>plDb := db\<rparr>)
               | (Inr t, db) \<Rightarrow> (Okay 201 (present (plMgr p) t), p\<lparr>plDb := db\<rparr>)))"

definition handleListTargets :: "'w target_env \<Rightarrow> 'w place \<Rightarrow> target_response list http_reply" where
  "handleListTargets E p =
     (case ListTargets (taRead E) (plDb p) of
        Inl e \<Rightarrow> Problem 500 ''list_failed'' (err_text e)
      | Inr ts \<Rightarrow> Okay 200 (map (present (plMgr p)) ts))"

definition handleGetTarget :: "'w target_env \<Rightarrow> string \<Rightarrow> 'w place \<Rightarrow> target_response http_reply" where
  "handleGetTarget E i p =
     (case GetTarget (taRead E) i (plDb p) of Inl e \<Rightarrow> store_error e | Inr t \<Rightarrow> Okay 200 (present (plMgr p) t))"

definition unmount_target :: "'w target_env \<Rightarrow> string \<Rightarrow> 'w place \<Rightarrow> goerr option \<times> 'w place" where
  "unmount_target E i p =
     (case Unmount (stMounter (taSite E)) (stConfig (taSite E)) i (plMgr p) of (e, m) \<Rightarrow> (e, p\<lparr>plMgr := m\<rparr>))"

definition handleUpdateTarget ::
  "(nat \<Rightarrow> 'w place \<Rightarrow> 'w place) \<Rightarrow> 'w target_env \<Rightarrow> string \<Rightarrow> goerr + target_payload \<Rightarrow> 'w place \<Rightarrow> target_response http_reply \<times> 'w place" where
  "handleUpdateTarget mid E i b p =
     (case GetTarget (taRead E) i (plDb p) of
        Inl e \<Rightarrow> (store_error e, p)
      | Inr t \<Rightarrow>
          (case b of
             Inl e \<Rightarrow> (Problem 400 ''invalid_body'' (err_text e), p)
           | Inr q \<Rightarrow>
               (case apply_payload E q t of
                  Inl e \<Rightarrow> (Problem 500 ''encrypt_failed'' (err_text e), p)
                | Inr t \<Rightarrow>
                    let p = mid 0 p in
                    (case UpdateTarget (taWrite E) t (plDb p) of
                       (Some e, db) \<Rightarrow> (store_error e, p\<lparr>plDb := db\<rparr>)
                     | (None, db) \<Rightarrow>
                         let p = snd (unmount_target E (tgID t) (mid 1 (p\<lparr>plDb := db\<rparr>)))
                         in (Okay 200 (present (plMgr p) t), p)))))"

definition handleDeleteTarget ::
  "(nat \<Rightarrow> 'w place \<Rightarrow> 'w place) \<Rightarrow> 'w target_env \<Rightarrow> string \<Rightarrow> 'w place \<Rightarrow> unit http_reply \<times> 'w place" where
  "handleDeleteTarget mid E i p =
     (case GetTarget (taRead E) i (plDb p) of
        Inl e \<Rightarrow> (store_error e, p)
      | Inr _ \<Rightarrow>
          (case unmount_target E i (mid 0 p) of
             (Some e, p) \<Rightarrow> ((if errors_Is e ErrInUse then Problem 409 ''target_in_use'' (err_text e) else Problem 500 ''unmount_failed'' (err_text e)), p)
           | (None, p) \<Rightarrow>
               let p = mid 1 p in
               (case DeleteTarget (taWrite E) i (plDb p) of
                  (Some e, db) \<Rightarrow> (store_error e, p\<lparr>plDb := db\<rparr>)
                | (None, db) \<Rightarrow>
                    let p = mid 2 (p\<lparr>plDb := db\<rparr>)
                    in (Okay 204 (), p\<lparr>plMgr := Forget i (plMgr p)\<rparr>))))"

abbreviation alone :: "nat \<Rightarrow> 'w place \<Rightarrow> 'w place" where "alone \<equiv> \<lambda>_ p. p"


section \<open>No response tells a password\<close>

definition repassword :: "(string \<Rightarrow> string) \<Rightarrow> target \<Rightarrow> target" where
  "repassword f t = t\<lparr>PasswordEncrypted := f (PasswordEncrypted t)\<rparr>"

definition repasswords :: "(string \<Rightarrow> string) \<Rightarrow> catalog \<Rightarrow> catalog" where
  "repasswords f db = db\<lparr>ctTargets := map (\<lambda>r. r\<lparr>twTarget := repassword f (twTarget r)\<rparr>) (ctTargets db)\<rparr>"

lemma repassword_simps [simp]:
  "tgID (repassword f t) = tgID t" "tgName (repassword f t) = tgName t" "tgType (repassword f t) = tgType t"
  "Subpath (repassword f t) = Subpath t" "MountOptsOverride (repassword f t) = MountOptsOverride t"
  "(repassword f t)\<lparr>PasswordEncrypted := x\<rparr> = t\<lparr>PasswordEncrypted := x\<rparr>" "PasswordEncrypted (repassword f t) = f (PasswordEncrypted t)"
  by (simp_all add: repassword_def)

lemma repasswords_simps [simp]:
  "ctTargets (repasswords f db) = map (\<lambda>r. r\<lparr>twTarget := repassword f (twTarget r)\<rparr>) (ctTargets db)"
  by (simp add: repasswords_def)

definition blank_kept :: "(string \<Rightarrow> string) \<Rightarrow> bool" where
  "blank_kept f \<longleftrightarrow> (\<forall>s. f s = [] \<longleftrightarrow> s = [])"

lemma present_repassword: "blank_kept f \<Longrightarrow> present m (repassword f t) = present m t"
  by (simp add: present_def blank_kept_def)

lemma target_Validate_repassword:
  assumes "blank_kept f"
  shows "target_Validate um uq (repassword f t) = target_Validate um uq t"
proof -
  have "validate_smb uq (repassword f t) = validate_smb uq t" "validate_local uq (repassword f t) = validate_local uq t"
    using assms by (simp_all add: validate_smb_def validate_local_def repassword_def blank_kept_def)
  then show ?thesis by (auto simp: target_Validate_def split: option.split target_type.split)
qed

lemma GetTarget_repasswords:
  "GetTarget E i (repasswords f db) = (case GetTarget E i db of Inl e \<Rightarrow> Inl e | Inr t \<Rightarrow> Inr (repassword f t))"
proof -
  have m: "find (\<lambda>r. tgID (twTarget r) = i) (map (\<lambda>r. r\<lparr>twTarget := repassword f (twTarget r)\<rparr>) rs)
      = map_option (\<lambda>r. r\<lparr>twTarget := repassword f (twTarget r)\<rparr>) (find (\<lambda>r. tgID (twTarget r) = i) rs)" for rs
    by (induction rs) auto
  show ?thesis by (simp add: GetTarget_def target_row_of_def m split: option.split)
qed

lemma insert_slice_map: "(\<And>a b. lt (g a) (g b) = lt a b) \<Longrightarrow> insert_slice lt (g x) (map g xs) = map g (insert_slice lt x xs)"
  by (induction xs) auto

lemma sort_slice_map: "(\<And>a b. lt (g a) (g b) = lt a b) \<Longrightarrow> sort_slice lt (map g xs) = map g (sort_slice lt xs)"
  by (induction xs) (simp_all add: insert_slice_map)

lemma ListTargets_repasswords:
  "ListTargets E (repasswords f db) = (case ListTargets E db of Inl e \<Rightarrow> Inl e | Inr ts \<Rightarrow> Inr (map (repassword f) ts))"
  by (auto simp: ListTargets_def sort_slice_map newest_first_def split: option.split)

lemma named_fields_repassword: "named_fields q (repassword f t) = repassword f (named_fields q t)"
  by (cases t) (simp add: named_fields_def repassword_def)

lemma UpdateTarget_result:
  assumes "blank_kept f" "t' = t \<or> t' = repassword f t"
  shows "fst (UpdateTarget E t' (repasswords f db)) = fst (UpdateTarget E t db)"
proof -
  have v: "target_Validate (seLower E) (seQuote E) t' = target_Validate (seLower E) (seQuote E) t" "tgName t' = tgName t" "tgID t' = tgID t"
    using assms target_Validate_repassword by auto
  then have "same_key t' = same_key t" by (simp add: same_key_def fun_eq_iff)
  moreover have "list_ex (\<lambda>r. \<not> same_key t r \<and> tgName (twTarget r) = tgName t) (ctTargets (repasswords f db))
      = list_ex (\<lambda>r. \<not> same_key t r \<and> tgName (twTarget r) = tgName t) (ctTargets db)"
    "list_ex (same_key t) (ctTargets (repasswords f db)) = list_ex (same_key t) (ctTargets db)"
    by (simp_all add: list_ex_iff same_key_def)
  ultimately show ?thesis using v
    by (auto simp: UpdateTarget_def statement_def taken_or_def split: option.splits sum.splits)
qed

text \<open>
  C34: what is told of a target does not depend on its password, beyond there being one. Two stores
  that differ only in the encrypted passwords of their targets (none in one where there is one in
  the other) give the same list, the same target, and the same reply to an edit.
\<close>

theorem passwords_are_not_told:
  assumes "blank_kept f"
  shows "handleListTargets E (p\<lparr>plDb := repasswords f (plDb p)\<rparr>) = handleListTargets E p
    \<and> handleGetTarget E i (p\<lparr>plDb := repasswords f (plDb p)\<rparr>) = handleGetTarget E i p
    \<and> fst (handleUpdateTarget alone E i b (p\<lparr>plDb := repasswords f (plDb p)\<rparr>)) = fst (handleUpdateTarget alone E i b p)"
proof (intro conjI)
  note pr = present_repassword [OF assms]
  show "handleListTargets E (p\<lparr>plDb := repasswords f (plDb p)\<rparr>) = handleListTargets E p"
    by (simp add: handleListTargets_def ListTargets_repasswords pr split: sum.split)
  show "handleGetTarget E i (p\<lparr>plDb := repasswords f (plDb p)\<rparr>) = handleGetTarget E i p"
    by (simp add: handleGetTarget_def GetTarget_repasswords pr split: sum.split)
  show "fst (handleUpdateTarget alone E i b (p\<lparr>plDb := repasswords f (plDb p)\<rparr>)) = fst (handleUpdateTarget alone E i b p)"
  proof (cases "\<exists>t q. GetTarget (taRead E) i (plDb p) = Inr t \<and> b = Inr q")
    case True
    then obtain t q where t: "GetTarget (taRead E) i (plDb p) = Inr t" and b: "b = Inr q" by blast
    have a: "case apply_payload E q t of Inl e \<Rightarrow> apply_payload E q (repassword f t) = Inl e
        | Inr u \<Rightarrow> \<exists>u'. apply_payload E q (repassword f t) = Inr u' \<and> (u' = u \<or> u' = repassword f u)"
      by (auto simp: apply_payload_def named_fields_repassword bind_err_def Let_def split: option.split sum.split)
    show ?thesis
    proof (cases "apply_payload E q t")
      case (Inl e)
      then show ?thesis using a t b by (simp add: handleUpdateTarget_def GetTarget_repasswords)
    next
      case (Inr u)
      then obtain u' where u': "apply_payload E q (repassword f t) = Inr u'" "u' = u \<or> u' = repassword f u" using a by auto
      note r = UpdateTarget_result [OF assms u'(2), of "taWrite E" "plDb p"]
      have "present m u' = present m u" for m using u'(2) pr by auto
      moreover have "tgID u' = tgID u" using u'(2) by auto
      ultimately show ?thesis using Inr u'(1) r t b
        by (auto simp: handleUpdateTarget_def GetTarget_repasswords unmount_target_def Let_def split: prod.splits option.splits)
    qed
  qed (auto simp: handleUpdateTarget_def GetTarget_repasswords split: sum.splits)
qed


section \<open>An edit changes what it names\<close>

lemma UpdateTarget_None:
  "UpdateTarget E t db = (None, db') \<Longrightarrow> target_Validate (seLower E) (seQuote E) t = None \<and> list_ex (same_key t) (ctTargets db)
     \<and> db' = db\<lparr>ctTargets := update_where (same_key t) (\<lambda>r. r\<lparr>twTarget := t, twUpdated := seClock E 0\<rparr>) (ctTargets db)\<rparr>"
  by (auto simp: UpdateTarget_def statement_Inr split: option.splits sum.splits if_splits dest: taken_or_Inr [THEN iffD1])

lemma find_updated_target:
  "list_ex (same_key t) rs \<Longrightarrow> map_option twTarget (find (\<lambda>r. tgID (twTarget r) = i) (update_where (same_key t) (\<lambda>r. r\<lparr>twTarget := t, twUpdated := n\<rparr>) rs))
     = (if i = tgID t then Some t else map_option twTarget (find (\<lambda>r. tgID (twTarget r) = i) rs))"
proof (cases "i = tgID t")
  case True
  assume "list_ex (same_key t) rs"
  then show ?thesis unfolding True by (induction rs) (auto simp: update_where_def same_key_def)
qed (simp add: find_update_where same_key_def)

lemma GetTarget_map_option:
  "GetTarget E i db = (case seFault E (Query 0) of
        Some e \<Rightarrow> Inl (wrap (''loading target '' @ i @ '': '') e)
      | None \<Rightarrow> (case map_option twTarget (target_row_of i db) of
             None \<Rightarrow> Inl (new_error (''target '' @ i @ '': not found'') [ErrNotFound]) | Some t \<Rightarrow> Inr t))"
  by (simp add: GetTarget_def split: option.split)

text \<open>
  an edit of a target changes the fields it names and no others. An accepted edit stores the old
  target with each field the request carries replaced and every other kept, the password among them;
  what is stored is valid; no other target changes, and nothing else in the tables does.
\<close>

theorem edit_changes_what_it_names:
  assumes "handleUpdateTarget alone E i (Inr q) p = (Okay code r, p')" and "seFault (taRead E) (Query 0) = None"
  shows "\<exists>t u. GetTarget (taRead E) i (plDb p) = Inr t \<and> GetTarget (taRead E) i (plDb p') = Inr u
    \<and> target_Validate (seLower (taWrite E)) (seQuote (taWrite E)) u = None
    \<and> u\<lparr>PasswordEncrypted := []\<rparr> = (named_fields q t)\<lparr>PasswordEncrypted := []\<rparr> \<and> tsTarget r = u\<lparr>PasswordEncrypted := []\<rparr>
    \<and> (case ptPassword q of None \<Rightarrow> PasswordEncrypted u = PasswordEncrypted t
        | Some pw \<Rightarrow> Encrypt (taCrypto E) (taBox E) (taRandom E) pw = Inr (PasswordEncrypted u))
    \<and> (\<forall>k. k = i \<or> GetTarget (taRead E) k (plDb p') = GetTarget (taRead E) k (plDb p))
    \<and> (plDb p')\<lparr>ctTargets := ctTargets (plDb p)\<rparr> = plDb p"
proof -
  obtain t u db where t: "GetTarget (taRead E) i (plDb p) = Inr t" and u: "apply_payload E q t = Inr u"
      and d: "UpdateTarget (taWrite E) u (plDb p) = (None, db)" and p': "plDb p' = db" and r: "tsTarget r = u\<lparr>PasswordEncrypted := []\<rparr>"
    using assms(1) by (auto simp: handleUpdateTarget_def store_error_def unmount_target_def present_def Let_def
        split: sum.splits prod.splits option.splits if_splits)
  have f: "u\<lparr>PasswordEncrypted := []\<rparr> = (named_fields q t)\<lparr>PasswordEncrypted := []\<rparr>"
      "case ptPassword q of None \<Rightarrow> PasswordEncrypted u = PasswordEncrypted t
        | Some pw \<Rightarrow> Encrypt (taCrypto E) (taBox E) (taRandom E) pw = Inr (PasswordEncrypted u)" "tgID u = tgID t"
    using u by (auto simp: apply_payload_def named_fields_def bind_err_def Let_def split: option.splits sum.splits)
  have i: "tgID t = i" using t by (auto simp: GetTarget_def target_row_of_def find_Some_iff split: option.splits)
  note un = UpdateTarget_None [OF d]
  have "map_option twTarget (target_row_of k db) = (if k = i then Some u else map_option twTarget (target_row_of k (plDb p)))" for k
    using find_updated_target [of u "ctTargets (plDb p)" k "seClock (taWrite E) 0"] un f(3) i by (simp add: target_row_of_def)
  then have g: "GetTarget (taRead E) k db = (if k = i then Inr u else GetTarget (taRead E) k (plDb p))" for k
    using assms(2) by (simp add: GetTarget_map_option)
  have "db\<lparr>ctTargets := ctTargets (plDb p)\<rparr> = plDb p" using un by simp
  then show ?thesis using t r f(1,2) g un unfolding p' by (intro exI [of _ t] exI [of _ u]) simp
qed


section \<open>A target in use stays\<close>

lemma Unmount_refs:
  assumes "mgr_ok m" "Unmount mt cfg i m = (e, m')"
  shows "if 0 < mgr_refs i m then (\<exists>x. e = Some x \<and> errors_Is x ErrInUse) \<and> m' = m
    else (\<forall>x. mgr_refs x m' = mgr_refs x m)"
proof -
  obtain a m1 where l: "entryFor i m = (a, m1)" by fastforce
  note ok = entryFor_ok [OF assms(1) l]
  then have g: "goget (mgEntries m1) i = Some a" and k: "mgr_ok m1" and rr: "mgr_refs i m1 = mgr_refs i m" by auto
  then have r: "enRefs (mgHeap m1 ! a) = mgr_refs i m" using mgr_refs_def [of i m1] by simp
  show ?thesis
  proof (cases "0 < mgr_refs i m")
    case True
    then have "m1 = m" using l by (auto simp: mgr_refs_def entryFor_def split: option.splits)
    then show ?thesis using True assms(2) l r by (auto simp: Unmount_def unmount_at_def errors_Is_def new_error_def)
  next
    case False
    have "mgHeap m' = mgHeap m1 \<and> mgEntries m' = mgEntries m1
        \<or> mgHeap m' = (mgHeap m1)[a := (mgHeap m1 ! a)\<lparr>enMounted := False\<rparr>] \<and> mgEntries m' = mgEntries m1"
      using assms(2) l r False
      by (auto simp: Unmount_def unmount_at_def unmountLocked_def Let_def split: sum.splits option.splits prod.splits)
    then have "mgr_refs x m' = mgr_refs x m" for x
    proof
      assume "mgHeap m' = mgHeap m1 \<and> mgEntries m' = mgEntries m1"
      then have "mgr_refs x m' = mgr_refs x m1" by (simp add: mgr_refs_def split: option.split)
      then show ?thesis using ok by simp
    next
      assume "mgHeap m' = (mgHeap m1)[a := (mgHeap m1 ! a)\<lparr>enMounted := False\<rparr>] \<and> mgEntries m' = mgEntries m1"
      moreover have "0 \<le> enRefs (mgHeap m1 ! a)" using k g by (auto simp: mgr_ok_def)
      ultimately show ?thesis using mgr_refs_update [OF k g, of "(mgHeap m1 ! a)\<lparr>enMounted := False\<rparr>" m' x] ok r by auto
    qed
    then show ?thesis using False by simp
  qed
qed

lemma DeleteTarget_result:
  "DeleteTarget E i db = (e, db') \<Longrightarrow> case e of
     Some _ \<Rightarrow> db' = db
   | None \<Rightarrow> \<not> refers_to_target i db \<and> i \<in> set (target_ids db) \<and> db' = db\<lparr>ctTargets := filter (\<lambda>r. tgID (twTarget r) \<noteq> i) (ctTargets db)\<rparr>"
proof (cases "i \<in> set (target_ids db)")
  case False
  assume d: "DeleteTarget E i db = (e, db')"
  have "filter (\<lambda>r. tgID (twTarget r) \<noteq> i) (ctTargets db) = ctTargets db" using False by (auto simp: filter_id_conv)
  then show ?thesis using False d
    by (auto simp: DeleteTarget_def statement_def in_context_def split: option.splits sum.splits)
qed (auto simp: DeleteTarget_def statement_Inr split: sum.splits if_splits)



section \<open>A new target is read back\<close>

text \<open>
  what a new target was sent with is what it is stored with. When a creation is accepted, the
  target read under its new identifier has the fields of the request (and the zero values for those
  it left out), its password opens to the one that was sent, and no target that was there changes.
\<close>

theorem new_target_is_read_back:
  assumes "handleCreateTarget E (Inr q) p = (Okay code r, p')" and "seFault (taRead E) (Query 0) = None" and "taRandom E = Inr nonce"
    and "\<And>x. crDec (taCrypto E) (crEnc (taCrypto E) x) = Inr x" "\<And>x. crEnc (taCrypto E) x = [] \<longleftrightarrow> x = []"
    and "length nonce = adNonce (taBox E)" "0 < adNonce (taBox E)" "\<And>x. adOpen (taBox E) nonce (adSeal (taBox E) nonce x) = Some x"
  shows "\<exists>t. GetTarget (taRead E) (tgID (tsTarget r)) (plDb p') = Inr t \<and> tsTarget r = t\<lparr>PasswordEncrypted := []\<rparr>
    \<and> t\<lparr>tgID := [], PasswordEncrypted := []\<rparr> = named_fields q blank_target
    \<and> Decrypt (taCrypto E) (taBox E) (PasswordEncrypted t) = Inr (given (ptPassword q) [])
    \<and> (\<forall>k. k = tgID t \<or> GetTarget (taRead E) k (plDb p') = GetTarget (taRead E) k (plDb p))"
proof -
  obtain u t db where u: "apply_payload E q blank_target = Inr u" and c: "CreateTarget (taWrite E) u (plDb p) = (Inr t, db)"
      and p': "plDb p' = db" and r: "tsTarget r = t\<lparr>PasswordEncrypted := []\<rparr>"
    using assms(1) by (auto simp: handleCreateTarget_def store_error_def present_def split: if_splits sum.splits prod.splits)
  obtain i where t: "t = u\<lparr>tgID := i\<rparr>" and fresh: "i \<notin> set (target_ids (plDb p))"
      and rows: "ctTargets db = ctTargets (plDb p) @ [\<lparr>twTarget = t, twCreated = seClock (taWrite E) 0, twUpdated = seClock (taWrite E) 0\<rparr>]"
    using c by (auto simp: CreateTarget_def in_tx_Inr step_Inr Let_def split: option.splits if_splits)
  have "Decrypt (taCrypto E) (taBox E) (PasswordEncrypted u) = Inr (given (ptPassword q) [])"
  proof (cases "ptPassword q")
    case None
    then show ?thesis using u by (auto simp: apply_payload_def named_fields_def blank_target_def Decrypt_def given_def Let_def)
  next
    case (Some pw)
    then show ?thesis using u box_roundtrip [OF assms(4-8), of pw] assms(3)
      by (auto simp: apply_payload_def bind_err_def given_def Let_def split: sum.splits)
  qed
  moreover have "t\<lparr>tgID := [], PasswordEncrypted := []\<rparr> = named_fields q blank_target"
    using u by (auto simp: t apply_payload_def named_fields_def blank_target_def bind_err_def Let_def split: option.splits sum.splits)
  moreover have f: "find (\<lambda>r. tgID (twTarget r) = k) (rs @ [x]) = (case find (\<lambda>r. tgID (twTarget r) = k) rs of None \<Rightarrow> if tgID (twTarget x) = k then Some x else None | Some y \<Rightarrow> Some y)" for k rs x
    by (induction rs) auto
  have "target_row_of k db = (case target_row_of k (plDb p) of
      None \<Rightarrow> if i = k then Some \<lparr>twTarget = t, twCreated = seClock (taWrite E) 0, twUpdated = seClock (taWrite E) 0\<rparr> else None | Some y \<Rightarrow> Some y)" for k
    unfolding target_row_of_def rows f by (simp add: t)
  moreover have "target_row_of i (plDb p) = None" using fresh by (auto simp: target_row_of_def find_None_iff)
  ultimately show ?thesis using assms(2) r by (intro exI [of _ t]) (auto simp: p' t GetTarget_def split: option.split)
qed


section \<open>A target that is made, edited and deleted\<close>

definition sample_target_env :: "mount_info list target_env" where
  "sample_target_env = \<lparr>taRead = sample_env [], taWrite = sample_env [''c3''], taSite = sample_site, taCrypto = plain_crypto,
     taBox = plain_aead, taRandom = Inr ''ab''\<rparr>"

definition empty_payload :: target_payload where
  "empty_payload = \<lparr>ptName = None, ptType = None, ptHost = None, ptShare = None, ptSubpath = None, ptLocalPath = None, ptPort = None,
     ptUsername = None, ptPassword = None, ptDomain = None, ptMountOptsOverride = None, ptMultichannel = None\<rparr>"

lemmas target_eval = sample_target_env_def empty_payload_def sample_place_def sample_env_def apply_payload_def named_fields_def given_def
  target_Validate_def validate_local_def validate_smb_def TrimSpace_graphic graphic_def IsAbs_def HasPrefix_def validateMountOpts_def ContainsAny_def
  two_targets_def local_target_def fresh_catalog_def statement_def bind_err_def

theorem new_target_is_read_back_witness:
  "\<exists>r p'. handleCreateTarget sample_target_env
       (Inr (empty_payload\<lparr>ptName := Some ''nas'', ptType := Some TargetSMB, ptHost := Some ''h1'', ptShare := Some ''s'', ptUsername := Some ''u'', ptPassword := Some ''pw''\<rparr>))
       sample_place = (Okay 201 r, p')
     \<and> (\<exists>t. GetTarget (sample_env []) (tgID (tsTarget r)) (plDb p') = Inr t \<and> Decrypt plain_crypto plain_aead (PasswordEncrypted t) = Inr ''pw'')"
proof -
  let ?q = "empty_payload\<lparr>ptName := Some ''nas'', ptType := Some TargetSMB, ptHost := Some ''h1'', ptShare := Some ''s'', ptUsername := Some ''u'', ptPassword := Some ''pw''\<rparr>"
  let ?t = "blank_target\<lparr>tgName := ''nas'', tgType := TargetSMB, Host := ''h1'', Share := ''s'', Username := ''u'', PasswordEncrypted := ''ababpw''\<rparr>"
  have a: "apply_payload sample_target_env ?q blank_target = Inr ?t"
    by (simp add: apply_payload_def named_fields_def given_def blank_target_def empty_payload_def sample_target_env_def
        Encrypt_def bind_err_def plain_crypto_def plain_aead_def)
  have v: "target_Validate id id ?t = None" by (simp add: target_eval blank_target_def)
  have e: "seLower (taWrite sample_target_env) = id" "seQuote (taWrite sample_target_env) = id" "seIDs (taWrite sample_target_env) 0 = Inr ''c3''"
      "seFault (taWrite sample_target_env) s = None" for s by (simp_all add: sample_target_env_def sample_env_def)
  have "\<exists>t db. CreateTarget (taWrite sample_target_env) ?t (plDb sample_place) = (Inr t, db)"
    unfolding CreateTarget_def e v
    by (simp add: in_tx_def taken_or_def statement_def bind_err_def sample_place_def two_targets_def fresh_catalog_def local_target_def
        blank_target_def Let_def)
  then obtain t db where c: "CreateTarget (taWrite sample_target_env) ?t (plDb sample_place) = (Inr t, db)" by blast
  have "handleCreateTarget sample_target_env (Inr ?q) sample_place = (Okay 201 (present (plMgr sample_place) t), sample_place\<lparr>plDb := db\<rparr>)"
    unfolding handleCreateTarget_def sum.case a c by simp
  then obtain r p' where h: "handleCreateTarget sample_target_env (Inr ?q) sample_place = (Okay 201 r, p')" by blast
  from new_target_is_read_back [OF h, of "''ab''"] h show ?thesis
    by (auto simp: sample_target_env_def sample_env_def plain_crypto_def plain_aead_def given_def)
qed


theorem edit_changes_what_it_names_witness:
  "\<exists>r p'. handleUpdateTarget alone sample_target_env ''a1'' (Inr (empty_payload\<lparr>ptLocalPath := Some ''/new''\<rparr>)) sample_place = (Okay 200 r, p')
     \<and> tsTarget r = (local_target ''a1'')\<lparr>LocalPath := ''/new''\<rparr>"
proof -
  have t: "GetTarget (taRead sample_target_env) ''a1'' (plDb sample_place) = Inr (local_target ''a1'')"
    by (simp add: sample_target_env_def visit_eval)
  have v: "target_Validate id id ((local_target ''a1'')\<lparr>LocalPath := ''/new''\<rparr>) = None" by (simp add: target_eval)
  have a: "apply_payload sample_target_env (empty_payload\<lparr>ptLocalPath := Some ''/new''\<rparr>) (local_target ''a1'') = Inr ((local_target ''a1'')\<lparr>LocalPath := ''/new''\<rparr>)"
    by (simp add: target_eval)
  let ?t = "(local_target ''a1'')\<lparr>LocalPath := ''/new''\<rparr>"
  have e: "seLower (taWrite sample_target_env) = id" "seQuote (taWrite sample_target_env) = id"
      "seFault (taWrite sample_target_env) s = None" for s by (simp_all add: sample_target_env_def sample_env_def)
  have "\<exists>db. UpdateTarget (taWrite sample_target_env) ?t (plDb sample_place) = (None, db)"
    unfolding UpdateTarget_def e v
    by (simp add: taken_or_def statement_def sample_place_def two_targets_def fresh_catalog_def local_target_def same_key_def)
  then obtain db where c: "UpdateTarget (taWrite sample_target_env) ?t (plDb sample_place) = (None, db)" by blast
  have "\<exists>r p'. handleUpdateTarget alone sample_target_env ''a1'' (Inr (empty_payload\<lparr>ptLocalPath := Some ''/new''\<rparr>)) sample_place = (Okay 200 r, p')"
    unfolding handleUpdateTarget_def t sum.case a Let_def c by simp
  then obtain r p' where h: "handleUpdateTarget alone sample_target_env ''a1'' (Inr (empty_payload\<lparr>ptLocalPath := Some ''/new''\<rparr>)) sample_place = (Okay 200 r, p')"
    by blast
  have "seFault (taRead sample_target_env) (Query 0) = None" by (simp add: sample_target_env_def sample_env_def)
  from edit_changes_what_it_names [OF h this] t h show ?thesis
    by (auto simp: empty_payload_def named_fields_def given_def local_target_def)
qed

theorem passwords_are_not_told_witness:
  "handleListTargets sample_target_env (sample_place\<lparr>plDb := repasswords rev (plDb sample_place)\<rparr>) = handleListTargets sample_target_env sample_place"
proof -
  have "blank_kept rev" by (simp add: blank_kept_def)
  then show ?thesis using passwords_are_not_told by blast
qed

end
