(* ===== verification/Spec2Isabelle.thy ===== *)
theory Spec2Isabelle
  imports Engine_Scan Engine_Track Engine_Sync Mount_Exec Run_Outcome Storage Run_Registry Run_Events Run_Preview Scheduler
    Notify_Bounds Hooks Env_Config Hub Migrations Api_Settings Api_Targets
begin

text \<open>
  A model of \<^bold>\<open>cn4m-cascade\<close>, a server that mirrors or updates directory trees from one
  target to several others. A target is an SMB share, which the server mounts when it is needed,
  or a local path. A job names a source, destinations, filters and policies; a run of a job
  resolves and scans the source once, and for each destination resolves and scans it, computes a
  plan, and executes the plan. Jobs run on demand, on a schedule, or from a webhook.

  \<^bold>\<open>The theories\<close>, in the order of the program's layers.

  \<^item> \<open>Prelude\<close>: Go maps with a visiting order (\<open>gomap\<close>), \<open>int64\<close> wrap-around, sorting with a
    comparison, and the functions of \<open>strings\<close>, \<open>strconv\<close> and \<open>fmt\<close> the code uses. \<open>Paths\<close>:
    \<open>path.Clean\<close> and \<open>filepath.Join\<close>. \<open>Store_Types\<close>: the enumerations of \<^verbatim>\<open>internal/store\<close>, Go
    errors as a text with the sentinels \<open>errors.Is\<close> finds, instants and durations in nanoseconds.
    \<open>Scope\<close>: the locale of a path filter whose pruning agrees with its verdicts.
  \<^item> \<open>Filter_Chain\<close> (\<^verbatim>\<open>internal/filter/pattern.go\<close>, \<^verbatim>\<open>chain.go\<close>): patterns, rules with their
    counters, and the include and exclude chain. \<open>Filter_Files\<close> (\<^verbatim>\<open>jsonkey.go\<close>): rules read from
    a list file or queried from a JSON document.
  \<^item> \<open>Engine_Diff\<close>, \<open>Engine_Diff_Props\<close>, \<open>Engine_Converge\<close> (\<^verbatim>\<open>internal/engine/differ.go\<close>): the
    comparison of two listings and the plan it gives; what a plan may hold and how it is ordered;
    that carrying it out makes the destination agree with the source.
  \<^item> \<open>Engine_Scan\<close> (\<^verbatim>\<open>scanner.go\<close>): the concurrent walk, as a step relation on the stacks of
    frames of its goroutines.
  \<^item> \<open>Engine_Copy\<close> (\<^verbatim>\<open>copier.go\<close>): one attempt to copy a file through a temporary one, with every
    call's outcome as an argument; the inactivity watchdog; the retries.
  \<^item> \<open>Engine_Pool\<close>, \<open>Engine_Track\<close>, \<open>Engine_Exec\<close>, \<open>Engine_Sync\<close> (\<^verbatim>\<open>executor.go\<close>,
    \<^verbatim>\<open>progress.go\<close>): the worker pool as a transition system whose interleaving is an argument,
    the progress tracker, the five stages of an execution, and the refinement from a plan to the
    tree it leaves.
  \<^item> \<open>Targets\<close>, \<open>Mount_Options\<close>, \<open>Mount_Manager\<close>, \<open>Mount_Exec\<close> (\<^verbatim>\<open>internal/store/targets.go\<close>,
    \<^verbatim>\<open>internal/mountmgr\<close>, \<^verbatim>\<open>internal/health\<close>): targets and their validation, the option string
    and the dialect ladder, the reference-counted entries of the mount manager with the
    interleaving of their locked sections, the mount tools and the text of
    \<^verbatim>\<open>/proc/self/mountinfo\<close>, the health cache.
  \<^item> \<open>Storage\<close> (\<^verbatim>\<open>internal/storage\<close>): resolving, probing, listing and releasing either kind of
    target. \<open>Run_Site\<close>: the same behind one interface, and the record of all that a run asks of
    the world outside the program.
  \<^item> \<open>Jobs\<close>, \<open>Run_Store\<close> (\<^verbatim>\<open>internal/store/jobs.go\<close>, \<^verbatim>\<open>filters.go\<close>, \<^verbatim>\<open>global_filters.go\<close>,
    \<^verbatim>\<open>schedule.go\<close>, \<^verbatim>\<open>runs.go\<close>, \<^verbatim>\<open>events.go\<close>): jobs, rules and schedules with their defaults and
    validation; the tables of runs and events, whose statements are functions on lists of rows.
  \<^item> \<open>Catalog\<close>, \<open>Catalog_Props\<close>, \<open>Catalog_Jobs\<close> (\<^verbatim>\<open>jobs.go\<close>, \<^verbatim>\<open>targets.go\<close>, \<^verbatim>\<open>global_filters.go\<close> and
    the schema): the tables of targets, jobs, destinations, rules and callbacks with their keys,
    references and cascades, each transaction undone as a whole when a statement of it fails; the
    invariant every reachable catalogue has, and what reading a stored job gives.
    \<open>Migrations\<close> (\<^verbatim>\<open>store.go\<close>): opening the database, its migrations, and identifiers.
  \<^item> \<open>Run_Filters\<close>, \<open>Run_Progress\<close>, \<open>Run_Events\<close>, \<open>Run_Outcome\<close>, \<open>Run_Registry\<close>
    (\<^verbatim>\<open>internal/runner\<close>): the chains of a run, its progress and preview, its event buffer, how
    destinations and runs are graded, and which runs are going on.
  \<^item> \<open>Run_Avail\<close>, \<open>Run_Pipeline\<close> (\<^verbatim>\<open>runner.go\<close>, \<^verbatim>\<open>gate.go\<close>): a run from its first line to its
    row in the database: resolving the source, the availability gate of each destination with its
    prompts, planning, the confirmation of a preview, executing, grading and the five ways to end.
    \<open>Run_Effects\<close> says which parts of the state each step leaves alone; \<open>Run_Books\<close> what the rows
    of a run tell afterwards; \<open>Run_Mounts\<close> that no mount reference is lost; \<open>Run_Preview\<close> what a
    preview may touch. \<open>Filter_Trial\<close> (\<^verbatim>\<open>filtertest.go\<close>): trying the filters of a job against its
    source without a run.
  \<^item> \<open>Scheduler\<close> (\<^verbatim>\<open>internal/scheduler\<close>): starting due jobs through the runner's interface.
  \<^item> \<open>Status\<close> (\<^verbatim>\<open>internal/runner/status.go\<close>): the one description of a run that pollers and
    receivers of callbacks get. \<open>Webhooks\<close> (\<^verbatim>\<open>internal/store/webhooks.go\<close>): the table of callbacks.
    \<open>Callbacks\<close> (\<^verbatim>\<open>internal/notify/cn4m.go\<close>, \<^verbatim>\<open>discord.go\<close>): the line a person reads.
    \<open>Notifier\<close>, \<open>Notify_Bounds\<close> (\<^verbatim>\<open>notify.go\<close>): throttling, back-off, the lanes and their workers
    as a step relation, signing and retrying, and what the runner hands over.
  \<^item> \<open>Accounts\<close> (\<^verbatim>\<open>internal/secrets\<close>, \<^verbatim>\<open>internal/store/auth.go\<close>, \<^verbatim>\<open>triggers.go\<close>): sealed
    secrets, the admin password, sessions and trigger tokens. \<open>Sign_In\<close> (\<^verbatim>\<open>internal/api/auth.go\<close>):
    the limiter, the guard and signing in. \<open>Hooks\<close> (\<^verbatim>\<open>internal/api/hooks.go\<close>): the anonymous
    routes. \<open>Env_Config\<close> (\<^verbatim>\<open>internal/config\<close>): the configuration.
  \<^item> \<open>Api_Jobs\<close>, \<open>Target_Visits\<close>, \<open>Api_Targets\<close>, \<open>Api_Settings\<close>, \<open>Hub\<close> (\<^verbatim>\<open>internal/api\<close>): the
    handlers of the API over the catalogue, the registry of runs and the mount manager. A handler
    that makes several calls takes as an argument what others do between them, so that its races
    are in the model. \<open>Api_Jobs\<close>: jobs, starting and cancelling runs, prompts. \<open>Target_Visits\<close>:
    testing a target, making a folder, listing one. \<open>Api_Targets\<close>: creating, editing and
    deleting targets. \<open>Api_Settings\<close>: callbacks, exclusions, previews of schedules, rule files, the
    log and the files of the web interface. \<open>Hub\<close>: the live feed, as a step relation of its loop and
    its connections.

  \<^bold>\<open>How state and effects are modelled.\<close> A struct is a record, a string enumeration a datatype
  (or \<open>goenum\<close>, where other texts can occur), a Go map an association list, so that the visiting
  order is visible. What a system call, the kernel, a library or the database answers is an
  argument, as a function or a record of functions; no theorem assumes more of it than its
  hypotheses say. An error is the left side of a sum. Code that runs under a lock is one function;
  goroutines interleave as an explicit schedule or as the steps of an inductive relation.
  Counters that Go keeps in 64 bits are words or wrap explicitly where a theorem depends on it.

  \<^bold>\<open>Bounds.\<close> No fuel is needed: recursions are structural or have a measure (\<open>TrimSpace\<close>, the
  frames of a scan, the moves of a pool), the scan relation is shown to end, as is the drain of a
  lane, and the moves of a pool come from a schedule that may be any list, after which the pool is
  drained in a fixed order. The limits of the code are kept as they are: 256 places in a lane,
  three attempts, ten and twenty failures, 4096 addresses, eight frames of a connection, the fifty
  latest runs of the feed, the first 20000 paths of a trial, 2000 entries of a listing and three
  firings of a preview.

  \<^bold>\<open>Locales.\<close> Each states what one component relies on another for, and is interpreted on the
  model: \<open>scope_matcher\<close> on the chain, \<open>kernel_mounts\<close> on the mount tools, \<open>storage_refs\<close> on SMB
  storage and on the storage interface, \<open>run_starter\<close> on the registry of runs, \<open>callback_source\<close>
  on the table of webhooks and the notifier, \<open>go_map\<close> and \<open>slice_order\<close> on the prelude's maps and
  orders.

  \<^bold>\<open>Not modelled.\<close> The process entry and the Windows service; the opt-in goroutine per
  destination and the ticker that flushes counters; hashing, encryption, JSON, the rendering of
  times and random bytes, which are parameters; the statements of the migrations; the platform
  files for Windows and their system calls. The manifest lists each with its reason.
\<close>

end
